(* ===== verification/Frame.thy ===== *)
theory Frame
  imports Prelude
begin

text \<open>
  The wire framing of the data plane and of the backend protocol
  (\<^verbatim>\<open>crates/ai-daemon-proto/src/frame.rs\<close>): a five byte header (big-endian length, kind)
  and a payload. Reading is modelled on a reader that delivers its bytes in arbitrary
  pieces, with interrupted and failing reads in between, as a socket does. The CBOR codec
  (the \<^verbatim>\<open>ciborium\<close> crate) is a parameter: \<open>enc\<close> serialises a value, \<open>dec\<close> parses one.
  The sink of the write functions is a byte vector, so the only write errors are the
  framing's own.
\<close>

definition KIND_CBOR :: byte where "KIND_CBOR = 1"
definition KIND_BLOB :: byte where "KIND_BLOB = 2"
definition MAX_FRAME :: nat where "MAX_FRAME = 64 * 1024 * 1024"
definition BLOB_CHUNK :: nat where "BLOB_CHUNK = 8 * 1024 * 1024"
definition MAX_ATTACHMENT_PAYLOAD :: nat where
  "MAX_ATTACHMENT_PAYLOAD = MAX_FRAME - 4 * 1024 * 1024"

datatype 'v frame = Cbor 'v | Blob "byte list"

datatype io_error = UnexpectedEof | Interrupted | Other string

subsection \<open>The reader\<close>

text \<open>
  What a \<^verbatim>\<open>Read\<close> hands out, in order: bytes that have arrived, a read interrupted by a
  signal, a failing read. An exhausted reader is at end of file and stays there.
\<close>

datatype delivery = Data "byte list" | Intr | IoErr string

type_synonym reader = "delivery list"

fun read :: "nat \<Rightarrow> reader \<Rightarrow> (io_error + byte list) \<times> reader" where
  "read k [] = (Inr [], [])"
| "read k (Data bs # r) =
     (Inr (take k bs), if length bs \<le> k then r else Data (drop k bs) # r)"
| "read k (Intr # r) = (Inl Interrupted, r)"
| "read k (IoErr e # r) = (Inl (Other e), r)"

fun reader_size :: "reader \<Rightarrow> nat" where
  "reader_size [] = 0"
| "reader_size (Data bs # r) = Suc (length bs) + reader_size r"
| "reader_size (_ # r) = Suc (reader_size r)"

text \<open>The bytes a reader will deliver, when no read fails and no read returns zero early.\<close>

fun healthy :: "reader \<Rightarrow> bool" where
  "healthy [] = True"
| "healthy (Data bs # r) = (bs \<noteq> [] \<and> healthy r)"
| "healthy (Intr # r) = healthy r"
| "healthy (IoErr _ # r) = False"

fun pending :: "reader \<Rightarrow> byte list" where
  "pending [] = []"
| "pending (Data bs # r) = bs @ pending r"
| "pending (_ # r) = pending r"

lemma read_size_less:
  "(res, r') = read k r \<Longrightarrow> 0 < k \<Longrightarrow> res \<noteq> Inr [] \<Longrightarrow> reader_size r' < reader_size r"
  by (cases "(k, r)" rule: read.cases) (auto split: if_splits)

subsection \<open>Reading exactly n bytes\<close>

text \<open>
  \<open>read_exact_or_eof\<close> fills a buffer of \<open>n\<close> bytes of which \<open>acc\<close> has been filled;
  \<open>Inr None\<close> is the clean end of file before the first byte.
\<close>

function read_exact_or_eof ::
  "nat \<Rightarrow> byte list \<Rightarrow> reader \<Rightarrow> (io_error + byte list option) \<times> reader" where
  "read_exact_or_eof n acc r =
     (if length acc < n then
        (case read (n - length acc) r of
           (Inr [], r') \<Rightarrow> ((if acc = [] then Inr None else Inl UnexpectedEof), r')
         | (Inr (b # bs), r') \<Rightarrow> read_exact_or_eof n (acc @ b # bs) r'
         | (Inl Interrupted, r') \<Rightarrow> read_exact_or_eof n acc r'
         | (Inl e, r') \<Rightarrow> (Inl e, r'))
      else (Inr (Some acc), r))"
  by pat_completeness auto
termination
  by (relation "measure (\<lambda>(n, acc, r). reader_size r)") (auto dest: read_size_less)

text \<open>\<open>std::io::Read::read_exact\<close>: end of file before the buffer is full is an error.\<close>

function read_exact :: "nat \<Rightarrow> byte list \<Rightarrow> reader \<Rightarrow> (io_error + byte list) \<times> reader" where
  "read_exact n acc r =
     (if length acc < n then
        (case read (n - length acc) r of
           (Inr [], r') \<Rightarrow> (Inl UnexpectedEof, r')
         | (Inr (b # bs), r') \<Rightarrow> read_exact n (acc @ b # bs) r'
         | (Inl Interrupted, r') \<Rightarrow> read_exact n acc r'
         | (Inl e, r') \<Rightarrow> (Inl e, r'))
      else (Inr acc, r))"
  by pat_completeness auto
termination
  by (relation "measure (\<lambda>(n, acc, r). reader_size r)") (auto dest: read_size_less)

declare read_exact_or_eof.simps [simp del] read_exact.simps [simp del]

subsection \<open>Frames\<close>

definition to_be_bytes :: "nat \<Rightarrow> byte list" where
  "to_be_bytes n = [of_nat (n div 16777216), of_nat (n div 65536), of_nat (n div 256), of_nat n]"

definition from_be_bytes :: "byte list \<Rightarrow> nat" where
  "from_be_bytes bs =
     unat (bs ! 0) * 16777216 + unat (bs ! 1) * 65536 + unat (bs ! 2) * 256 + unat (bs ! 3)"

definition write_raw :: "byte \<Rightarrow> byte list \<Rightarrow> io_error + byte list" where
  "write_raw kind payload =
     (if length payload \<ge> U32 then Inl (Other ''frame exceeds u32 length'')
      else if length payload > MAX_FRAME then Inl (Other ''frame exceeds MAX_FRAME'')
      else Inr (to_be_bytes (length payload) @ [kind] @ payload))"

definition write_cbor :: "('v \<Rightarrow> string + byte list) \<Rightarrow> 'v \<Rightarrow> io_error + byte list" where
  "write_cbor enc v =
     (case enc v of Inl e \<Rightarrow> Inl (Other e) | Inr buf \<Rightarrow> write_raw KIND_CBOR buf)"

fun write_raws :: "byte \<Rightarrow> byte list list \<Rightarrow> io_error + byte list" where
  "write_raws kind [] = Inr []"
| "write_raws kind (c # cs) =
     rbind (write_raw kind c) (\<lambda>out. rbind (write_raws kind cs) (\<lambda>rest. Inr (out @ rest)))"

definition write_blob :: "byte list \<Rightarrow> io_error + byte list" where
  "write_blob bytes = write_raws KIND_BLOB (chunks BLOB_CHUNK bytes)"

definition read_frame ::
  "(byte list \<Rightarrow> string + 'v) \<Rightarrow> reader \<Rightarrow> (io_error + 'v frame option) \<times> reader" where
  "read_frame dec r =
     (case read_exact_or_eof 5 [] r of
        (Inl e, r1) \<Rightarrow> (Inl e, r1)
      | (Inr None, r1) \<Rightarrow> (Inr None, r1)
      | (Inr (Some header), r1) \<Rightarrow>
          let len = from_be_bytes (take 4 header) in
          if len > MAX_FRAME then (Inl (Other ''frame exceeds MAX_FRAME''), r1)
          else (case read_exact len [] r1 of
                  (Inl e, r2) \<Rightarrow> (Inl e, r2)
                | (Inr payload, r2) \<Rightarrow>
                    if header ! 4 = KIND_CBOR then
                      (case dec payload of
                         Inl e \<Rightarrow> (Inl (Other (''malformed CBOR frame: '' @ e)), r2)
                       | Inr v \<Rightarrow> (Inr (Some (Cbor v)), r2))
                    else if header ! 4 = KIND_BLOB then (Inr (Some (Blob payload)), r2)
                    else (Inl (Other ''unknown frame kind''), r2)))"

definition read_typed ::
  "(byte list \<Rightarrow> string + 'v) \<Rightarrow> ('v \<Rightarrow> string + 't) \<Rightarrow> reader \<Rightarrow>
   (io_error + 't option) \<times> reader" where
  "read_typed dec deserialized r =
     (case read_frame dec r of
        (Inl e, r') \<Rightarrow> (Inl e, r')
      | (Inr None, r') \<Rightarrow> (Inr None, r')
      | (Inr (Some (Blob _)), r') \<Rightarrow> (Inl (Other ''expected a CBOR frame, got a BLOB''), r')
      | (Inr (Some (Cbor v)), r') \<Rightarrow>
          (case deserialized v of
             Inl e \<Rightarrow> (Inl (Other (''unexpected frame shape: '' @ e)), r')
           | Inr t \<Rightarrow> (Inr (Some t), r')))"

subsection \<open>Delivery does not matter\<close>

lemma read_healthy:
  assumes "healthy r" and "0 < k" and "read k r = (res, r')"
  shows "healthy r' \<and>
    (case res of
       Inl e \<Rightarrow> e = Interrupted \<and> pending r' = pending r
     | Inr bs \<Rightarrow> pending r = bs @ pending r' \<and> length bs \<le> k \<and> (bs = [] \<longleftrightarrow> pending r = []))"
  using assms by (cases "(k, r)" rule: read.cases) (auto split: if_splits)

lemma pending_empty_read:
  "healthy r \<Longrightarrow> pending r = [] \<Longrightarrow> \<forall>d \<in> set r. d = Intr"
  by (induction r rule: pending.induct) auto

lemma read_exact_spec:
  assumes "healthy r" and "length acc \<le> n"
  shows "\<exists>r'. healthy r' \<and>
    read_exact n acc r =
      (if n \<le> length acc + length (pending r)
       then (Inr (acc @ take (n - length acc) (pending r)), r')
       else (Inl UnexpectedEof, r')) \<and>
    (n \<le> length acc + length (pending r) \<longrightarrow> pending r' = drop (n - length acc) (pending r))"
  using assms
proof (induction n acc r rule: read_exact.induct)
  case (1 n acc r)
  show ?case
  proof (cases "length acc < n")
    case False
    with "1.prems" show ?thesis by (subst read_exact.simps) auto
  next
    case True
    obtain res r1 where rd: "read (n - length acc) r = (res, r1)" by fastforce
    note h = read_healthy [OF "1.prems"(1) _ rd]
    show ?thesis
    proof (cases res)
      case (Inl e)
      with h True have e: "e = Interrupted" "healthy r1" "pending r1 = pending r" by auto
      with "1.IH"(1) [OF True rd [symmetric] Inl e(1)] "1.prems"(2) Inl rd True show ?thesis
        by (subst read_exact.simps) auto
    next
      case (Inr bs)
      show ?thesis
      proof (cases bs)
        case Nil
        with h Inr True rd show ?thesis by (subst read_exact.simps) auto
      next
        case (Cons b bs')
        have acc: "length (acc @ bs) \<le> n" using h Inr True by auto
        have r1: "healthy r1" "pending r = bs @ pending r1" using h Inr True by auto
        from "1.IH"(2) [OF True rd [symmetric] Inr Cons] r1 acc Cons
        obtain r' where "healthy r'" and
          "read_exact n (acc @ bs) r1 =
             (if n \<le> length (acc @ bs) + length (pending r1)
              then (Inr ((acc @ bs) @ take (n - length (acc @ bs)) (pending r1)), r')
              else (Inl UnexpectedEof, r'))" and
          "n \<le> length (acc @ bs) + length (pending r1) \<longrightarrow>
             pending r' = drop (n - length (acc @ bs)) (pending r1)"
          by auto
        with Inr Cons rd True r1 acc show ?thesis
          by (subst read_exact.simps) (auto simp: take_Cons' drop_Cons')
      qed
    qed
  qed
qed

text \<open>Past its first byte, the header read is an exact read.\<close>

lemma read_exact_or_eof_started:
  "acc \<noteq> [] \<Longrightarrow>
   read_exact_or_eof n acc r = apfst (map_sum (\<lambda>e. e) Some) (read_exact n acc r)"
proof (induction n acc r rule: read_exact.induct)
  case (1 n acc r)
  obtain res r1 where rd: "read (n - length acc) r = (res, r1)" by fastforce
  show ?case
    by (subst read_exact_or_eof.simps, subst read_exact.simps)
      (use 1 rd in \<open>auto split: sum.splits list.splits io_error.splits\<close>)
qed

lemma read_exact_or_eof_spec:
  assumes "healthy r" and "0 < n"
  shows "\<exists>r'. healthy r' \<and>
    read_exact_or_eof n [] r =
      (if pending r = [] then (Inr None, r')
       else if n \<le> length (pending r) then (Inr (Some (take n (pending r))), r')
       else (Inl UnexpectedEof, r')) \<and>
    (n \<le> length (pending r) \<longrightarrow> pending r' = drop n (pending r)) \<and>
    (pending r = [] \<longrightarrow> pending r' = [])"
  using assms
proof (induction r)
  case Nil
  then show ?case by (subst read_exact_or_eof.simps) auto
next
  case (Cons d r)
  show ?case
  proof (cases d)
    case Intr
    with Cons show ?thesis by (subst read_exact_or_eof.simps) auto
  next
    case (IoErr e)
    with Cons show ?thesis by simp
  next
    case (Data bs)
    then have bs: "bs \<noteq> []" "healthy r" using Cons.prems by auto
    define acc where "acc = take n bs"
    define r1 where "r1 = (if length bs \<le> n then r else Data (drop n bs) # r)"
    have step: "read_exact_or_eof n [] (Data bs # r) = read_exact_or_eof n acc r1"
      using bs Cons.prems(2)
      by (subst read_exact_or_eof.simps) (auto simp: acc_def r1_def neq_Nil_conv take_Cons')
    have r1: "healthy r1" "pending (Data bs # r) = acc @ pending r1"
      using bs Cons.prems by (auto simp: r1_def acc_def)
    have acc: "acc \<noteq> []" "length acc \<le> n" using bs Cons.prems(2) by (auto simp: acc_def)
    from read_exact_spec [OF r1(1) acc(2)] obtain r' where r': "healthy r'"
      "read_exact n acc r1 =
        (if n \<le> length acc + length (pending r1)
         then (Inr (acc @ take (n - length acc) (pending r1)), r')
         else (Inl UnexpectedEof, r'))"
      "n \<le> length acc + length (pending r1) \<longrightarrow> pending r' = drop (n - length acc) (pending r1)"
      by blast
    then show ?thesis
      using r1(2) acc Data step
      by (intro exI [of _ r']) (auto simp: read_exact_or_eof_started)
  qed
qed

subsection \<open>What a frame is, as a function of the bytes\<close>

text \<open>
  The abstract reading of a byte stream: the first frame and how many bytes it takes. The
  reader refines it, whatever the pieces the bytes arrive in.
\<close>

definition frame_at :: "(byte list \<Rightarrow> string + 'v) \<Rightarrow> byte list \<Rightarrow> io_error + 'v frame option" where
  "frame_at dec bs =
     (if bs = [] then Inr None
      else if length bs < 5 then Inl UnexpectedEof
      else let len = from_be_bytes (take 4 bs); payload = take len (drop 5 bs) in
        if len > MAX_FRAME then Inl (Other ''frame exceeds MAX_FRAME'')
        else if length payload < len then Inl UnexpectedEof
        else if bs ! 4 = KIND_CBOR then
          (case dec payload of
             Inl e \<Rightarrow> Inl (Other (''malformed CBOR frame: '' @ e))
           | Inr v \<Rightarrow> Inr (Some (Cbor v)))
        else if bs ! 4 = KIND_BLOB then Inr (Some (Blob payload))
        else Inl (Other ''unknown frame kind''))"

lemma read_frame_refines:
  assumes "healthy r"
  shows "\<exists>r'. healthy r' \<and> read_frame dec r = (frame_at dec (pending r), r') \<and>
    (\<forall>f. frame_at dec (pending r) = Inr (Some f) \<longrightarrow>
       pending r' = drop (5 + from_be_bytes (take 4 (pending r))) (pending r)) \<and>
    (frame_at dec (pending r) = Inr None \<longrightarrow> pending r' = [])"
proof -
  let ?bs = "pending r" and ?len = "from_be_bytes (take 4 (pending r))"
  from read_exact_or_eof_spec [OF assms, of 5] obtain r1 where r1: "healthy r1"
    "read_exact_or_eof 5 [] r =
      (if ?bs = [] then (Inr None, r1)
       else if 5 \<le> length ?bs then (Inr (Some (take 5 ?bs)), r1)
       else (Inl UnexpectedEof, r1))"
    "5 \<le> length ?bs \<longrightarrow> pending r1 = drop 5 ?bs" "?bs = [] \<longrightarrow> pending r1 = []"
    by auto
  from read_exact_spec [OF r1(1), of "[]" ?len] obtain r2 where r2: "healthy r2"
    "read_exact ?len [] r1 =
      (if ?len \<le> length (pending r1) then (Inr (take ?len (pending r1)), r2)
       else (Inl UnexpectedEof, r2))"
    "?len \<le> length (pending r1) \<longrightarrow> pending r2 = drop ?len (pending r1)"
    by auto
  show ?thesis
  proof (cases "?bs = [] \<or> length ?bs < 5 \<or> ?len > MAX_FRAME")
    case True
    with r1 show ?thesis
      by (intro exI [of _ r1]) (auto simp: read_frame_def frame_at_def Let_def)
  next
    case False
    then have long: "5 \<le> length ?bs" "?len \<le> MAX_FRAME" by auto
    with r1 r2 False show ?thesis
      by (intro exI [of _ r2])
        (auto simp: read_frame_def frame_at_def Let_def add.commute split: sum.splits)
  qed
qed

subsection \<open>Writing then reading\<close>

lemma from_to_be_bytes:
  assumes "n < U32"
  shows "from_be_bytes (to_be_bytes n) = n"
proof -
  have "n div 65536 = n div 16777216 * 256 + n div 65536 mod 256"
    using div_mult_mod_eq [of "n div 65536" 256] by (simp add: div_mult2_eq [symmetric])
  moreover have "n div 256 = n div 65536 * 256 + n div 256 mod 256"
    using div_mult_mod_eq [of "n div 256" 256] by (simp add: div_mult2_eq [symmetric])
  moreover have "n = n div 256 * 256 + n mod 256"
    by (simp add: div_mult_mod_eq)
  ultimately have "n div 16777216 * 16777216 + n div 65536 mod 256 * 65536
      + n div 256 mod 256 * 256 + n mod 256 = n"
    by linarith
  moreover have "n div 16777216 mod 256 = n div 16777216" using assms by simp
  ultimately show ?thesis
    by (simp add: from_be_bytes_def to_be_bytes_def unat_of_nat)
qed

lemma length_to_be_bytes [simp]: "length (to_be_bytes n) = 4"
  by (simp add: to_be_bytes_def)

lemma write_raw_ok:
  "length payload \<le> MAX_FRAME \<Longrightarrow>
   write_raw kind payload = Inr (to_be_bytes (length payload) @ kind # payload)"
  by (simp add: write_raw_def MAX_FRAME_def)

lemma write_raw_Inr:
  "write_raw kind payload = Inr out \<longleftrightarrow>
   length payload \<le> MAX_FRAME \<and> out = to_be_bytes (length payload) @ kind # payload"
  by (auto simp: write_raw_def MAX_FRAME_def)

lemma frame_at_write_raw:
  assumes "write_raw kind payload = Inr out"
  shows "frame_at dec (out @ rest) =
      (if kind = KIND_CBOR then
         (case dec payload of
            Inl e \<Rightarrow> Inl (Other (''malformed CBOR frame: '' @ e))
          | Inr v \<Rightarrow> Inr (Some (Cbor v)))
       else if kind = KIND_BLOB then Inr (Some (Blob payload))
       else Inl (Other ''unknown frame kind''))"
    and "drop (5 + from_be_bytes (take 4 (out @ rest))) (out @ rest) = rest"
proof -
  from assms have len: "length payload \<le> MAX_FRAME"
    and out: "out = to_be_bytes (length payload) @ kind # payload"
    by (auto simp: write_raw_Inr)
  have be: "from_be_bytes (take 4 (out @ rest)) = length payload"
    using len by (simp add: out from_to_be_bytes MAX_FRAME_def)
  have five: "drop 5 (out @ rest) = payload @ rest" "(out @ rest) ! 4 = kind"
    by (simp_all add: out to_be_bytes_def)
  then show "frame_at dec (out @ rest) =
      (if kind = KIND_CBOR then
         (case dec payload of
            Inl e \<Rightarrow> Inl (Other (''malformed CBOR frame: '' @ e))
          | Inr v \<Rightarrow> Inr (Some (Cbor v)))
       else if kind = KIND_BLOB then Inr (Some (Blob payload))
       else Inl (Other ''unknown frame kind''))"
    using be len by (auto simp: frame_at_def Let_def out)
  show "drop (5 + from_be_bytes (take 4 (out @ rest))) (out @ rest) = rest"
    unfolding be by (simp add: out)
qed

text \<open>
  The contract a client of the framing relies on: one item written is one item read, the
  bytes after it are left for the next read, and the end of the stream is reported as such.
\<close>

locale stream_codec =
  fixes put :: "'f \<Rightarrow> io_error + byte list"
    and get :: "reader \<Rightarrow> (io_error + 'f option) \<times> reader"
    and sendable :: "'f \<Rightarrow> bool"
  assumes put_ok: "sendable f \<Longrightarrow> \<exists>out. put f = Inr out"
    and get_put: "sendable f \<Longrightarrow> put f = Inr out \<Longrightarrow> healthy r \<Longrightarrow> pending r = out @ rest \<Longrightarrow>
      \<exists>r'. get r = (Inr (Some f), r') \<and> healthy r' \<and> pending r' = rest"
    and get_end: "healthy r \<Longrightarrow> pending r = [] \<Longrightarrow>
      \<exists>r'. get r = (Inr None, r') \<and> healthy r' \<and> pending r' = []"

fun put_all :: "('f \<Rightarrow> io_error + byte list) \<Rightarrow> 'f list \<Rightarrow> io_error + byte list" where
  "put_all put [] = Inr []"
| "put_all put (f # fs) =
     rbind (put f) (\<lambda>out. rbind (put_all put fs) (\<lambda>rest. Inr (out @ rest)))"

text \<open>The reading loop of every consumer: frames until the clean end of the stream.\<close>

fun get_all ::
  "(reader \<Rightarrow> (io_error + 'f option) \<times> reader) \<Rightarrow> nat \<Rightarrow> reader \<Rightarrow> (io_error + 'f list) option" where
  "get_all get 0 r = None"
| "get_all get (Suc fuel) r =
     (case get r of
        (Inl e, _) \<Rightarrow> Some (Inl e)
      | (Inr None, _) \<Rightarrow> Some (Inr [])
      | (Inr (Some f), r') \<Rightarrow> map_option (map_sum (\<lambda>e. e) ((#) f)) (get_all get fuel r'))"

context stream_codec
begin

lemma put_all_ok: "list_all sendable fs \<Longrightarrow> \<exists>out. put_all put fs = Inr out"
  by (induction fs) (auto dest: put_ok)

lemma get_all_put_all:
  assumes "list_all sendable fs" and "put_all put fs = Inr out"
    and "healthy r" and "pending r = out"
  shows "get_all get (Suc (length fs)) r = Some (Inr fs)"
  using assms
proof (induction fs arbitrary: out r)
  case Nil
  then obtain r' where "get r = (Inr None, r')" using get_end by auto
  then show ?case by simp
next
  case (Cons f fs)
  then obtain o1 o2 where o: "put f = Inr o1" "put_all put fs = Inr o2" "out = o1 @ o2"
    by (auto simp: rbind_Inr_iff)
  with Cons.prems get_put [of f o1 r o2]
  obtain r' where r': "get r = (Inr (Some f), r')" "healthy r'" "pending r' = o2" by auto
  with Cons o have "get_all get (Suc (length fs)) r' = Some (Inr fs)" by simp
  with r' show ?case by simp
qed

end

definition put_frame :: "('v \<Rightarrow> string + byte list) \<Rightarrow> 'v frame \<Rightarrow> io_error + byte list" where
  "put_frame enc f =
     (case f of Cbor v \<Rightarrow> write_cbor enc v | Blob bs \<Rightarrow> write_raw KIND_BLOB bs)"

definition frame_sendable ::
  "('v \<Rightarrow> string + byte list) \<Rightarrow> (byte list \<Rightarrow> string + 'v) \<Rightarrow> 'v frame \<Rightarrow> bool" where
  "frame_sendable enc dec f =
     (case f of
        Blob bs \<Rightarrow> length bs \<le> MAX_FRAME
      | Cbor v \<Rightarrow> (case enc v of Inl _ \<Rightarrow> False
                  | Inr buf \<Rightarrow> length buf \<le> MAX_FRAME \<and> dec buf = Inr v))"

lemma put_frame_read_frame:
  assumes "frame_sendable enc dec f" and "put_frame enc f = Inr out"
    and "healthy r" and "pending r = out @ rest"
  shows "\<exists>r'. read_frame dec r = (Inr (Some f), r') \<and> healthy r' \<and> pending r' = rest"
proof -
  obtain kind payload where raw: "write_raw kind payload = Inr out"
    and f: "f = Blob payload \<and> kind = KIND_BLOB \<or>
      (\<exists>v. f = Cbor v \<and> kind = KIND_CBOR \<and> dec payload = Inr v)"
    using assms(1,2)
    by (cases f) (auto simp: put_frame_def write_cbor_def frame_sendable_def split: sum.splits)
  from raw f have "frame_at dec (out @ rest) = Inr (Some f)"
    by (auto simp: frame_at_write_raw KIND_BLOB_def KIND_CBOR_def)
  with read_frame_refines [OF assms(3), of dec] assms(4)
  obtain r' where "healthy r'" "read_frame dec r = (Inr (Some f), r')"
    and "pending r' = drop (5 + from_be_bytes (take 4 (out @ rest))) (out @ rest)"
    by metis
  then show ?thesis unfolding frame_at_write_raw(2) [OF raw] by blast
qed

interpretation wire: stream_codec "put_frame enc" "read_frame dec" "frame_sendable enc dec"
  for enc :: "'v \<Rightarrow> string + byte list" and dec :: "byte list \<Rightarrow> string + 'v"
proof unfold_locales
  show "\<exists>out. put_frame enc f = Inr out" if "frame_sendable enc dec f" for f
    using that by (cases f)
      (auto simp: put_frame_def write_cbor_def frame_sendable_def write_raw_ok split: sum.splits)
  show "\<exists>r'. read_frame dec r = (Inr None, r') \<and> healthy r' \<and> pending r' = []"
    if "healthy r" "pending r = []" for r
    using read_frame_refines [OF that(1), of dec] that(2) by (auto simp: frame_at_def)
qed (rule put_frame_read_frame)

subsection \<open>Payloads split across frames\<close>

lemma read_shrinks: "read k r = (res, r') \<Longrightarrow> reader_size r' \<le> reader_size r"
  by (cases "(k, r)" rule: read.cases) (auto split: if_splits)

lemma read_exact_size: "read_exact n acc r = (res, r') \<Longrightarrow> reader_size r' \<le> reader_size r"
proof (induction n acc r rule: read_exact.induct)
  case (1 n acc r)
  obtain res1 r1 where rd: "read (n - length acc) r = (res1, r1)" by fastforce
  with 1 read_shrinks [OF rd] show ?case
    by (subst (asm) (3) read_exact.simps)
      (fastforce split: if_splits sum.splits list.splits io_error.splits)
qed

lemma read_exact_or_eof_size:
  "read_exact_or_eof n acc r = (Inr (Some bs), r') \<Longrightarrow> length acc < n \<Longrightarrow>
   reader_size r' < reader_size r"
proof (induction n acc r rule: read_exact_or_eof.induct)
  case (1 n acc r)
  obtain res1 r1 where rd: "read (n - length acc) r = (res1, r1)" by fastforce
  show ?case
  proof (cases res1)
    case (Inl e)
    with 1 rd read_size_less [OF rd [symmetric]] show ?thesis
      by (subst (asm) (3) read_exact_or_eof.simps)
        (fastforce split: if_splits io_error.splits)
  next
    case (Inr bs1)
    show ?thesis
    proof (cases bs1)
      case Nil
      with 1 rd Inr show ?thesis
        by (subst (asm) (3) read_exact_or_eof.simps) (auto split: if_splits)
    next
      case (Cons b bs')
      have lt: "reader_size r1 < reader_size r"
        using read_size_less [OF rd [symmetric]] "1.prems"(2) Inr Cons by simp
      have eq: "read_exact_or_eof n (acc @ b # bs') r1 = (Inr (Some bs), r')"
        using "1.prems" rd Inr Cons by (subst (asm) read_exact_or_eof.simps) auto
      show ?thesis
      proof (cases "length (acc @ b # bs') < n")
        case True
        with "1.IH"(2) [OF "1.prems"(2) rd [symmetric] Inr Cons eq] lt show ?thesis by simp
      next
        case False
        with eq lt show ?thesis by (subst (asm) read_exact_or_eof.simps) simp
      qed
    qed
  qed
qed

lemma read_frame_size:
  "read_frame dec r = (Inr (Some f), r') \<Longrightarrow> reader_size r' < reader_size r"
  by (auto simp: read_frame_def Let_def split: prod.splits sum.splits option.splits if_splits
      dest!: read_exact_or_eof_size read_exact_size)

text \<open>
  The loop of \<^verbatim>\<open>ai-daemon-decode\<close> that collects a payload of the declared length
  (\<^verbatim>\<open>main.rs\<close>, before the parser runs). Its failures end the process with the message.
\<close>

function read_payload ::
  "(byte list \<Rightarrow> string + 'v) \<Rightarrow> nat \<Rightarrow> byte list \<Rightarrow> reader \<Rightarrow> (string + byte list) \<times> reader" where
  "read_payload dec len acc r =
     (if length acc < len then
        (case read_frame dec r of
           (Inr (Some (Blob chunk)), r') \<Rightarrow> read_payload dec len (acc @ chunk) r'
         | (Inr (Some (Cbor _)), r') \<Rightarrow> (Inl ''a structured frame interrupted the payload'', r')
         | (Inr None, r') \<Rightarrow> (Inl ''the payload ended early'', r')
         | (Inl e, r') \<Rightarrow> (Inl ''payload: unreadable frame'', r'))
      else (Inr acc, r))"
  by pat_completeness auto
termination
  by (relation "measure (\<lambda>(dec, len, acc, r). reader_size r)") (auto dest: read_frame_size [OF sym])

declare read_payload.simps [simp del]

lemma write_raws_total:
  "(\<And>c. c \<in> set cs \<Longrightarrow> length c \<le> MAX_FRAME) \<Longrightarrow> \<exists>out. write_raws kind cs = Inr out"
  by (induction cs) (auto simp: write_raw_ok)

lemma read_payload_raws:
  assumes "\<And>c. c \<in> set cs \<Longrightarrow> c \<noteq> []" and "write_raws KIND_BLOB cs = Inr out"
    and "healthy r" and "pending r = out @ rest"
  shows "\<exists>r'. read_payload dec (length acc + length (concat cs)) acc r = (Inr (acc @ concat cs), r')
    \<and> healthy r' \<and> pending r' = rest"
  using assms
proof (induction cs arbitrary: acc out r)
  case Nil
  then show ?case by (subst read_payload.simps) simp
next
  case (Cons c cs)
  from Cons.prems(2) obtain o1 o2 where o: "write_raw KIND_BLOB c = Inr o1"
    "write_raws KIND_BLOB cs = Inr o2" "out = o1 @ o2"
    by (auto simp: rbind_Inr_iff)
  have "frame_sendable (\<lambda>_. Inl []) dec (Blob c)" "put_frame (\<lambda>_. Inl []) (Blob c) = Inr o1"
    using o(1) by (auto simp: frame_sendable_def put_frame_def write_raw_Inr)
  with put_frame_read_frame [of "\<lambda>_. Inl []" dec "Blob c" o1 r "o2 @ rest"] Cons.prems o
  obtain r1 where r1: "read_frame dec r = (Inr (Some (Blob c)), r1)" "healthy r1"
    "pending r1 = o2 @ rest"
    by auto
  with Cons.IH [of o2 r1 "acc @ c"] Cons.prems o obtain r' where
    "read_payload dec (length (acc @ c) + length (concat cs)) (acc @ c) r1
       = (Inr ((acc @ c) @ concat cs), r')" "healthy r'" "pending r' = rest"
    by auto
  with r1 Cons.prems(1) [of c] show ?case
    by (subst read_payload.simps) (auto simp: add.assoc)
qed

subsection \<open>Properties\<close>

text \<open>
  C4. Frames written one after another are read back as they were written, in order, and
  the reader then reports the clean end of the stream, whatever the pieces the bytes arrive
  in and however often reads are interrupted.
\<close>

theorem frame_stream_round_trip:
  assumes "list_all (frame_sendable enc dec) fs" and "put_all (put_frame enc) fs = Inr out"
    and "healthy r" and "pending r = out"
  shows "get_all (read_frame dec) (Suc (length fs)) r = Some (Inr fs)"
  using assms by (rule wire.get_all_put_all)

theorem frame_stream_round_trip_witness:
  "get_all (read_frame (\<lambda>bs. Inr (length bs))) 3
     [Data [0, 0], Intr, Data [0, 2, 1, 9], Data [9, 0, 0, 0, 1, 2], Data [7]]
   = Some (Inr [Cbor (2::nat), Blob [7]])"
proof -
  let ?enc = "\<lambda>n. Inr (replicate n 9) :: string + byte list"
  let ?dec = "\<lambda>bs :: byte list. Inr (length bs) :: string + nat"
  let ?r = "[Data [0, 0], Intr, Data [0, 2, 1, 9], Data [9, 0, 0, 0, 1, 2], Data [7]]"
  have ok: "list_all (frame_sendable ?enc ?dec) [Cbor 2, Blob [7]]"
    by (simp add: frame_sendable_def MAX_FRAME_def)
  have out: "put_all (put_frame ?enc) [Cbor 2, Blob [7]] = Inr (pending ?r)"
    by (simp add: put_frame_def write_cbor_def write_raw_def MAX_FRAME_def to_be_bytes_def
        KIND_CBOR_def KIND_BLOB_def numeral_2_eq_2)
  from frame_stream_round_trip [OF ok out, of ?r] show ?thesis
    by (simp add: numeral_3_eq_3)
qed

text \<open>
  \<open>write_blob\<close> accepts every payload, of any length: splitting it across frames, the
  consumer that reads until it has the declared length gets exactly the payload back and
  leaves the stream at the byte after it. In particular an empty payload writes nothing.
\<close>

theorem blob_round_trip:
  "\<exists>out. write_blob bytes = Inr out \<and>
     (\<forall>r rest. healthy r \<and> pending r = out @ rest \<longrightarrow>
        (\<exists>r'. read_payload dec (length bytes) [] r = (Inr bytes, r') \<and> pending r' = rest))"
proof -
  have cs: "c \<in> set (chunks BLOB_CHUNK bytes) \<Longrightarrow> c \<noteq> [] \<and> length c \<le> MAX_FRAME" for c
    using chunks_bounds [of c BLOB_CHUNK bytes] by (auto simp: BLOB_CHUNK_def MAX_FRAME_def)
  then obtain out where out: "write_blob bytes = Inr out"
    using write_raws_total [of "chunks BLOB_CHUNK bytes" KIND_BLOB] by (auto simp: write_blob_def)
  have cc: "concat (chunks BLOB_CHUNK bytes) = bytes"
    by (rule concat_chunks) (simp add: BLOB_CHUNK_def)
  have "\<exists>r'. read_payload dec (length bytes) [] r = (Inr bytes, r') \<and> pending r' = rest"
    if "healthy r" "pending r = out @ rest" for r rest
    using read_payload_raws [of "chunks BLOB_CHUNK bytes" out r rest dec "[]"] cs out that
    by (auto simp: write_blob_def cc)
  with out show ?thesis by blast
qed

theorem blob_round_trip_witness:
  "\<exists>r'. read_payload (\<lambda>_. Inl ''x'' :: string + unit) 2 []
      [Data [0, 0, 0], Data [2, 2, 5], Intr, Data [6, 8]] = (Inr [5, 6], r') \<and> pending r' = [8]"
proof -
  have "write_blob [5, 6] = Inr [0, 0, 0, 2, 2, 5, 6]"
    by (simp add: write_blob_def chunks_nonempty BLOB_CHUNK_def write_raw_def MAX_FRAME_def
        to_be_bytes_def KIND_BLOB_def)
  with blob_round_trip [of "[5, 6]" "\<lambda>_. Inl ''x'' :: string + unit"] show ?thesis
    by (auto simp: numeral_2_eq_2)
qed

text \<open>
  \<open>read_frame\<close> sees only the bytes: on any two readers that will deliver the same bytes
  it gives the same answer, which is the one \<open>frame_at\<close> computes from the bytes alone, and
  after a frame both readers have the same bytes left.
\<close>

theorem read_frame_delivery_independent:
  assumes "healthy r1" and "healthy r2" and "pending r1 = pending r2"
  shows "fst (read_frame dec r1) = frame_at dec (pending r1)
    \<and> fst (read_frame dec r2) = fst (read_frame dec r1)
    \<and> (\<forall>f. fst (read_frame dec r1) = Inr (Some f) \<longrightarrow>
         pending (snd (read_frame dec r2)) = pending (snd (read_frame dec r1)))"
  using read_frame_refines [OF assms(1), of dec] read_frame_refines [OF assms(2), of dec] assms(3)
  by auto

theorem read_frame_delivery_independent_witness:
  "fst (read_frame (\<lambda>bs. Inr bs) [Data [0, 0], Intr, Data [0, 1, 2, 7, 3]]) = Inr (Some (Blob [7]))"
proof -
  let ?r1 = "[Data [0, 0], Intr, Data [0, 1, 2, 7, 3]]" and ?r2 = "[Data [0, 0, 0, 1, 2, 7, 3]]"
  have "frame_at (\<lambda>bs. Inr bs) (pending ?r1) = Inr (Some (Blob [7]))"
    by (simp add: frame_at_def from_be_bytes_def MAX_FRAME_def KIND_CBOR_def KIND_BLOB_def)
  with read_frame_delivery_independent [of ?r1 ?r2 "\<lambda>bs. Inr bs"] show ?thesis by simp
qed

text \<open>
  C14. A header announcing more than \<open>MAX_FRAME\<close> bytes is refused with nothing read past the
  header, and a payload shorter than announced is an error rather than a short frame.
\<close>

theorem read_frame_limits:
  assumes "healthy r" and "5 \<le> length (pending r)"
    and len: "len = from_be_bytes (take 4 (pending r))"
  shows "(len > MAX_FRAME \<longrightarrow>
      fst (read_frame dec r) = Inl (Other ''frame exceeds MAX_FRAME'')
      \<and> pending (snd (read_frame dec r)) = drop 5 (pending r))
    \<and> (len \<le> MAX_FRAME \<and> length (pending r) < 5 + len \<longrightarrow>
      fst (read_frame dec r) = Inl UnexpectedEof)"
proof -
  have ne: "pending r \<noteq> []" using assms(2) by auto
  from read_exact_or_eof_spec [OF assms(1), of 5] assms(2) ne
  obtain r1 where "read_exact_or_eof 5 [] r = (Inr (Some (take 5 (pending r))), r1)"
    and "pending r1 = drop 5 (pending r)"
    by auto
  then have big: "len > MAX_FRAME \<Longrightarrow>
      read_frame dec r = (Inl (Other ''frame exceeds MAX_FRAME''), r1)"
    by (simp add: read_frame_def len)
  have "fst (read_frame dec r) = frame_at dec (pending r)"
    using read_frame_refines [OF assms(1), of dec] by auto
  with ne assms(2) len \<open>pending r1 = _\<close> big show ?thesis
    by (auto simp: frame_at_def Let_def)
qed

theorem read_frame_limits_witness:
  "fst (read_frame (\<lambda>bs. Inr bs) [Data [0, 0, 0, 9, 2, 7, 3]]) = Inl UnexpectedEof"
proof -
  have "healthy [Data [0, 0, 0, 9, 2, 7, 3]]" by simp
  from read_frame_limits [OF this _ refl, of "\<lambda>bs. Inr bs"] show ?thesis
    by (simp add: from_be_bytes_def MAX_FRAME_def)
qed

end
