(* ===== verification/Sched.thy ===== *)
theory Sched
  imports Prelude "HOL-Library.Product_Lexorder" "HOL-Library.Multiset"
begin

text \<open>
  The scheduler (\<^verbatim>\<open>crates/ai-daemon/src/sched.rs\<close>): decode slots with two priority
  classes, and the KV-cache budget. Every method takes the lock once, so each critical
  section is one function on the guarded state \<open>inner\<close>; what the method then tells the
  preemptor, after dropping the lock, is returned as a list of messages. \<open>admit\<close> is two
  functions: joining the queue, and one pass of its waiting loop. \<open>Instant::now()\<close> is the
  argument \<open>now\<close>. The \<open>kv\<close> hash map is the association list of its entries in iteration
  order, so that what is proved holds for every iteration order.
\<close>

subsection \<open>State\<close>

datatype sclass = Interactive | Background

text \<open>
  The derived \<open>Ord\<close> of the enum, which follows the order of its variants: interactive work
  sorts first. It is a linear order, so the keys of the waiters are compared lexicographically
  by the library's order on pairs.
\<close>

definition class_le :: "sclass \<Rightarrow> sclass \<Rightarrow> bool" where
  "class_le a b = (a = Interactive \<or> b = Background)"

instantiation sclass :: linorder
begin

definition less_eq_sclass :: "sclass \<Rightarrow> sclass \<Rightarrow> bool" where
  "less_eq_sclass = class_le"

definition less_sclass :: "sclass \<Rightarrow> sclass \<Rightarrow> bool" where
  "less_sclass a b = (class_le a b \<and> \<not> class_le b a)"

instance
proof
  fix a b c :: sclass
  show "(a < b) = (a \<le> b \<and> \<not> b \<le> a)"
    by (simp add: less_eq_sclass_def less_sclass_def)
  show "a \<le> a"
    by (cases a) (simp_all add: less_eq_sclass_def class_le_def)
  show "a \<le> b \<Longrightarrow> b \<le> c \<Longrightarrow> a \<le> c"
    by (cases b) (auto simp: less_eq_sclass_def class_le_def)
  show "a \<le> b \<Longrightarrow> b \<le> a \<Longrightarrow> a = b"
    by (auto simp: less_eq_sclass_def class_le_def)
  show "a \<le> b \<or> b \<le> a"
    by (cases a) (simp_all add: less_eq_sclass_def class_le_def)
qed

end

definition class_parse :: "string \<Rightarrow> sclass" where
  "class_parse text = (if text = ''background'' \<or> text = ''batch'' then Background else Interactive)"

definition class_as_str :: "sclass \<Rightarrow> string" where
  "class_as_str c = (case c of Interactive \<Rightarrow> ''interactive'' | Background \<Rightarrow> ''background'')"

record running =
  r_ticket :: nat
  r_session :: string
  r_class :: sclass
  r_backend :: "string option"
  r_req_id :: "nat option"
  r_paused :: bool

record waiter =
  w_ticket :: nat
  w_session :: string
  w_class :: sclass

record kv_entry =
  kv_bytes :: nat
  kv_class :: sclass
  kv_last_used :: nat
  kv_backend :: string
  kv_active :: bool

record inner =
  runs :: "running list"
  waits :: "waiter list"
  served :: "string \<rightharpoonup> nat"
  kv :: "(string \<times> kv_entry) list"
  kv_used :: nat
  next_ticket :: nat

record limits_cfg =
  max_interactive :: nat
  max_background :: nat
  kv_budget :: nat

datatype preempt = SetPaused string nat bool | DropCache string string

definition inner_new :: inner where
  "inner_new = \<lparr>runs = [], waits = [], served = Map.empty, kv = [], kv_used = 0, next_ticket = 1\<rparr>"

definition scheduler_new :: "nat \<Rightarrow> nat \<Rightarrow> nat \<Rightarrow> limits_cfg" where
  "scheduler_new interactive background budget =
     \<lparr>max_interactive = max interactive 1, max_background = max background 1, kv_budget = budget\<rparr>"

subsection \<open>Decode slots\<close>

definition interactive_running :: "running list \<Rightarrow> bool" where
  "interactive_running rs = list_ex (\<lambda>r. r_class r = Interactive) rs"

text \<open>
  The messages for the attached ones of the selected requests, in list order: the
  \<open>filter_map\<close> that skips a request with no backend yet.
\<close>

definition pause_messages :: "bool \<Rightarrow> running list \<Rightarrow> preempt list" where
  "pause_messages p rs =
     concat (map (\<lambda>r. case (r_backend r, r_req_id r) of
                        (Some b, Some q) \<Rightarrow> [SetPaused b q p] | _ \<Rightarrow> []) rs)"

text \<open>\<open>Slot::attach\<close>: the first running entry with the slot's ticket is updated.\<close>

fun update_first :: "('a \<Rightarrow> bool) \<Rightarrow> ('a \<Rightarrow> 'a) \<Rightarrow> 'a list \<Rightarrow> 'a list" where
  "update_first P f [] = []"
| "update_first P f (x # xs) = (if P x then f x # xs else x # update_first P f xs)"

definition attach :: "nat \<Rightarrow> string \<Rightarrow> nat \<Rightarrow> inner \<Rightarrow> inner \<times> preempt list" where
  "attach ticket backend req_id s =
     (let should_pause = list_ex (\<lambda>r. r_class r = Interactive \<and> r_ticket r \<noteq> ticket) (runs s) in
      case List.find (\<lambda>r. r_ticket r = ticket) (runs s) of
        None \<Rightarrow> (s, [])
      | Some entry \<Rightarrow>
          let pause_now = (r_class entry = Background \<and> should_pause);
              upd = (\<lambda>r. r\<lparr>r_backend := Some backend, r_req_id := Some req_id,
                           r_paused := (if pause_now then True else r_paused r)\<rparr>) in
          (s\<lparr>runs := update_first (\<lambda>r. r_ticket r = ticket) upd (runs s)\<rparr>,
           if pause_now then [SetPaused backend req_id True] else []))"

definition is_paused :: "nat \<Rightarrow> inner \<Rightarrow> bool" where
  "is_paused ticket s = list_ex (\<lambda>r. r_ticket r = ticket \<and> r_paused r) (runs s)"

definition kv_modify :: "string \<Rightarrow> (kv_entry \<Rightarrow> kv_entry) \<Rightarrow> (string \<times> kv_entry) list \<Rightarrow>
  (string \<times> kv_entry) list" where
  "kv_modify k f m = map (\<lambda>(k', e). (k', if k' = k then f e else e)) m"

definition served_of :: "inner \<Rightarrow> string \<Rightarrow> nat" where
  "served_of s session = (case served s session of None \<Rightarrow> 0 | Some n \<Rightarrow> n)"

definition charge :: "nat \<Rightarrow> string \<Rightarrow> nat \<Rightarrow> inner \<Rightarrow> inner" where
  "charge now session tokens s =
     s\<lparr>served := (served s)(session \<mapsto> u64_add (served_of s session) tokens),
       kv := kv_modify session (\<lambda>e. e\<lparr>kv_last_used := now\<rparr>) (kv s)\<rparr>"

definition cap_of :: "limits_cfg \<Rightarrow> sclass \<Rightarrow> nat" where
  "cap_of cfg c = (case c of Interactive \<Rightarrow> max_interactive cfg | Background \<Rightarrow> max_background cfg)"

definition waiter_key :: "inner \<Rightarrow> waiter \<Rightarrow> sclass \<times> nat \<times> nat" where
  "waiter_key s w = (w_class w, served_of s (w_session w), w_ticket w)"

definition running_in_class :: "sclass \<Rightarrow> running list \<Rightarrow> nat" where
  "running_in_class c rs = length (filter (\<lambda>r. r_class r = c) rs)"

definition is_turn :: "limits_cfg \<Rightarrow> inner \<Rightarrow> nat \<Rightarrow> bool" where
  "is_turn cfg s ticket =
     (case List.find (\<lambda>w. w_ticket w = ticket) (waits s) of
        None \<Rightarrow> False
      | Some me \<Rightarrow>
          if running_in_class (w_class me) (runs s) \<ge> cap_of cfg (w_class me) then False
          else list_all (\<lambda>w. waiter_key s me \<le> waiter_key s w) (waits s))"

text \<open>Joining the queue, the first critical section of \<open>admit\<close>.\<close>

definition admit_enqueue :: "string \<Rightarrow> sclass \<Rightarrow> inner \<Rightarrow> nat \<times> inner" where
  "admit_enqueue session c s =
     (next_ticket s,
      s\<lparr>next_ticket := u64_add (next_ticket s) 1,
        waits := waits s @ [\<lparr>w_ticket = next_ticket s, w_session = session, w_class = c\<rparr>]\<rparr>)"

text \<open>One pass of its loop: \<open>None\<close> is another wait on the condition variable.\<close>

definition admit_poll ::
  "limits_cfg \<Rightarrow> nat \<Rightarrow> string \<Rightarrow> sclass \<Rightarrow> inner \<Rightarrow> (inner \<times> preempt list) option" where
  "admit_poll cfg ticket session c s =
     (if is_turn cfg s ticket then
        let waits' = filter (\<lambda>w. w_ticket w \<noteq> ticket) (waits s);
            runs' = runs s @ [\<lparr>r_ticket = ticket, r_session = session, r_class = c,
                               r_backend = None, r_req_id = None, r_paused = False\<rparr>] in
        if c = Interactive then
          let chosen = (\<lambda>r. r_class r = Background \<and> \<not> r_paused r) in
          Some (s\<lparr>waits := waits',
                  runs := map (\<lambda>r. if chosen r then r\<lparr>r_paused := True\<rparr> else r) runs'\<rparr>,
                pause_messages True (filter chosen runs'))
        else Some (s\<lparr>waits := waits', runs := runs'\<rparr>, [])
      else None)"

definition release :: "nat \<Rightarrow> inner \<Rightarrow> inner \<times> preempt list" where
  "release ticket s =
     (let runs' = filter (\<lambda>r. r_ticket r \<noteq> ticket) (runs s) in
      if interactive_running runs' then (s\<lparr>runs := runs'\<rparr>, [])
      else (s\<lparr>runs := map (\<lambda>r. if r_paused r then r\<lparr>r_paused := False\<rparr> else r) runs'\<rparr>,
            pause_messages False (filter r_paused runs')))"

definition running_report :: "inner \<Rightarrow> (string \<times> string \<times> bool) list" where
  "running_report s = map (\<lambda>r. (r_session r, class_as_str (r_class r), r_paused r)) (runs s)"

subsection \<open>The KV budget\<close>

definition kv_candidates :: "string \<Rightarrow> sclass \<Rightarrow> (string \<times> kv_entry) list \<Rightarrow> (string \<times> kv_entry) list" where
  "kv_candidates session pass m =
     sort_key (\<lambda>(_, e). kv_last_used e)
       (filter (\<lambda>(k, e). k \<noteq> session \<and> kv_class e = pass \<and> \<not> kv_active e) m)"

definition fits :: "limits_cfg \<Rightarrow> inner \<Rightarrow> nat \<Rightarrow> nat \<Rightarrow> bool" where
  "fits cfg s freed extra = (u64_add (sat_sub (kv_used s) freed) extra \<le> kv_budget cfg)"

text \<open>The inner loop of the planning pass over its candidates, and the two passes.\<close>

fun plan_pass :: "limits_cfg \<Rightarrow> inner \<Rightarrow> nat \<Rightarrow> (string \<times> kv_entry) list \<Rightarrow>
  nat \<Rightarrow> (string \<times> string \<times> nat) list \<Rightarrow> nat \<times> (string \<times> string \<times> nat) list" where
  "plan_pass cfg s extra [] freed plan = (freed, plan)"
| "plan_pass cfg s extra ((k, e) # cs) freed plan =
     (if fits cfg s freed extra then (freed, plan)
      else plan_pass cfg s extra cs (u64_add freed (kv_bytes e))
             (plan @ [(k, kv_backend e, kv_bytes e)]))"

fun plan_passes :: "limits_cfg \<Rightarrow> inner \<Rightarrow> string \<Rightarrow> nat \<Rightarrow> sclass list \<Rightarrow>
  nat \<Rightarrow> (string \<times> string \<times> nat) list \<Rightarrow> nat \<times> (string \<times> string \<times> nat) list" where
  "plan_passes cfg s session extra [] freed plan = (freed, plan)"
| "plan_passes cfg s session extra (pass # ps) freed plan =
     (if fits cfg s freed extra then (freed, plan)
      else case plan_pass cfg s extra (kv_candidates session pass (kv s)) freed plan of
             (freed', plan') \<Rightarrow> plan_passes cfg s session extra ps freed' plan')"

text \<open>The commit loop: forget each planned victim and give its bytes back.\<close>

fun commit_plan :: "(string \<times> string \<times> nat) list \<Rightarrow> inner \<Rightarrow> inner" where
  "commit_plan [] s = s"
| "commit_plan ((k, b, sz) # plan) s =
     commit_plan plan
       (s\<lparr>kv := filter (\<lambda>(k', _). k' \<noteq> k) (kv s), kv_used := sat_sub (kv_used s) sz\<rparr>)"

datatype kv_error = ExceedsBudget nat nat | Exhausted nat nat nat nat

definition kv_insert :: "string \<Rightarrow> kv_entry \<Rightarrow> (string \<times> kv_entry) list \<Rightarrow> (string \<times> kv_entry) list" where
  "kv_insert k e m = (if k \<in> fst ` set m then kv_modify k (\<lambda>_. e) m else m @ [(k, e)])"

definition reserve_kv ::
  "limits_cfg \<Rightarrow> nat \<Rightarrow> string \<Rightarrow> string \<Rightarrow> sclass \<Rightarrow> nat \<Rightarrow> inner \<Rightarrow>
   (kv_error + string list) \<times> inner \<times> preempt list" where
  "reserve_kv cfg now session backend c bytes s =
     (let previous = (case map_of (kv s) session of None \<Rightarrow> 0 | Some e \<Rightarrow> kv_bytes e);
          entry = \<lparr>kv_bytes = bytes, kv_class = c, kv_last_used = now, kv_backend = backend,
                   kv_active = True\<rparr> in
      if bytes > previous then
        let extra = bytes - previous in
        if extra > kv_budget cfg then (Inl (ExceedsBudget extra (kv_budget cfg)), s, [])
        else case plan_passes cfg s session extra [Background, Interactive] 0 [] of
          (freed, plan) \<Rightarrow>
            if \<not> fits cfg s freed extra
            then (Inl (Exhausted (kv_used s) (kv_budget cfg) freed extra), s, [])
            else
              let s1 = commit_plan plan s;
                  s2 = s1\<lparr>kv_used := u64_add (kv_used s1) extra\<rparr> in
              (Inr (map fst plan), s2\<lparr>kv := kv_insert session entry (kv s2)\<rparr>,
               map (\<lambda>(k, b, _). DropCache b k) plan)
      else
        let s1 = s\<lparr>kv_used := sat_sub (kv_used s) (previous - bytes)\<rparr> in
        (Inr [], s1\<lparr>kv := kv_insert session entry (kv s1)\<rparr>, []))"

definition mark_idle :: "nat \<Rightarrow> string \<Rightarrow> inner \<Rightarrow> inner" where
  "mark_idle now session s =
     s\<lparr>kv := kv_modify session (\<lambda>e. e\<lparr>kv_active := False, kv_last_used := now\<rparr>) (kv s)\<rparr>"

definition release_kv :: "string \<Rightarrow> inner \<Rightarrow> inner" where
  "release_kv session s =
     (case map_of (kv s) session of
        None \<Rightarrow> s
      | Some e \<Rightarrow> s\<lparr>kv := filter (\<lambda>(k, _). k \<noteq> session) (kv s),
                    kv_used := sat_sub (kv_used s) (kv_bytes e)\<rparr>)"

subsection \<open>Slots: tickets, caps and pauses\<close>

definition tickets :: "inner \<Rightarrow> nat list" where
  "tickets s = map r_ticket (runs s) @ map w_ticket (waits s)"

text \<open>
  What the pause flag of one request says, given whether interactive work is running: only
  background work is paused, only while interactive work runs, and then every background
  request the scheduler can reach is.
\<close>

definition pause_ok :: "bool \<Rightarrow> running \<Rightarrow> bool" where
  "pause_ok busy r =
     ((r_paused r \<longrightarrow> r_class r = Background \<and> busy) \<and>
      (busy \<and> r_class r = Background \<and> r_backend r \<noteq> None \<longrightarrow> r_paused r))"

definition pause_inv :: "running list \<Rightarrow> bool" where
  "pause_inv rs = list_all (pause_ok (interactive_running rs)) rs"

definition slot_inv :: "limits_cfg \<Rightarrow> inner \<Rightarrow> bool" where
  "slot_inv cfg s =
     (distinct (tickets s) \<and> (\<forall>t\<in>set (tickets s). t < next_ticket s) \<and>
      (\<forall>c. running_in_class c (runs s) \<le> cap_of cfg c) \<and> pause_inv (runs s))"

lemma interactive_running_iff:
  "interactive_running rs \<longleftrightarrow> (\<exists>r\<in>set rs. r_class r = Interactive)"
  by (simp add: interactive_running_def list_ex_iff)

lemma update_first_map:
  "distinct (map r_ticket rs) \<Longrightarrow>
   update_first (\<lambda>r. r_ticket r = t) f rs = map (\<lambda>r. if r_ticket r = t then f r else r) rs"
  by (induction rs) (auto simp: image_iff intro!: map_idI [symmetric])

lemma find_ticket_unique:
  "distinct (map r_ticket rs) \<Longrightarrow> List.find (\<lambda>r. r_ticket r = t) rs = Some e \<Longrightarrow>
   r \<in> set rs \<Longrightarrow> r_ticket r = t \<Longrightarrow> r = e"
  by (induction rs) (auto split: if_splits dest: find_Some_iff_first)

lemma running_in_class_map:
  "(\<And>r. r_class (f r) = r_class r) \<Longrightarrow> running_in_class c (map f rs) = running_in_class c rs"
  by (simp add: running_in_class_def filter_map comp_def)

lemma interactive_running_map:
  "(\<And>r. r_class (f r) = r_class r) \<Longrightarrow> interactive_running (map f rs) = interactive_running rs"
  by (simp add: interactive_running_iff)

lemma attached_fields:
  "r_paused (x\<lparr>r_backend := bk, r_req_id := rq, r_paused := p\<rparr>) = p"
  "r_class (x\<lparr>r_backend := bk, r_req_id := rq, r_paused := p\<rparr>) = r_class x"
  "r_backend (x\<lparr>r_backend := bk, r_req_id := rq, r_paused := p\<rparr>) = bk"
  by simp_all

lemma pause_ok_attach:
  "pause_ok busy x \<Longrightarrow> pp = (r_class x = Background \<and> busy) \<Longrightarrow>
   pause_ok busy (x\<lparr>r_backend := Some b, r_req_id := Some q, r_paused := (pp \<or> r_paused x)\<rparr>)"
  unfolding pause_ok_def attached_fields by blast

lemma pause_inv_map:
  assumes "\<And>r. r_class (f r) = r_class r"
    and "\<And>r. r \<in> set rs \<Longrightarrow> pause_ok (interactive_running rs) (f r)"
  shows "pause_inv (map f rs)"
  using assms by (simp add: pause_inv_def interactive_running_map list_all_iff)

lemma running_in_class_filter: "running_in_class c (filter P rs) \<le> running_in_class c rs"
  by (simp add: running_in_class_def filter_filter) (induction rs; auto)

lemma attach_runs:
  assumes "distinct (map r_ticket (runs s))" and "attach t b q s = (s', ms)"
  shows "\<exists>p. runs s' = map (\<lambda>r. if r_ticket r = t
      then r\<lparr>r_backend := Some b, r_req_id := Some q, r_paused := (p r \<or> r_paused r)\<rparr> else r) (runs s)
    \<and> (\<forall>r\<in>set (runs s). r_ticket r = t \<longrightarrow>
         p r = (r_class r = Background \<and> interactive_running (runs s)))
    \<and> s' = s\<lparr>runs := runs s'\<rparr>"
proof (cases "List.find (\<lambda>r. r_ticket r = t) (runs s)")
  case None
  with assms(2) show ?thesis
    by (intro exI [of _ "\<lambda>_. False"])
      (auto simp: attach_def find_None_all intro!: map_idI [symmetric])
next
  case (Some e)
  let ?p = "r_class e = Background \<and>
    list_ex (\<lambda>r. r_class r = Interactive \<and> r_ticket r \<noteq> t) (runs s)"
  have e: "e \<in> set (runs s)" "r_ticket e = t" using find_Some_iff_first [OF Some] by auto
  have u: "r = e" if "r \<in> set (runs s)" "r_ticket r = t" for r
    using find_ticket_unique [OF assms(1) Some that] .
  have "?p = (r_class e = Background \<and> interactive_running (runs s))"
    using u by (auto simp: interactive_running_iff list_ex_iff)
  with assms(2) Some u show ?thesis
    by (intro exI [of _ "\<lambda>_. ?p"])
      (auto simp: attach_def Let_def update_first_map [OF assms(1)] intro!: map_cong)
qed

lemma attach_slot_inv:
  assumes "slot_inv cfg s" and "attach t b q s = (s', ms)"
  shows "slot_inv cfg s'"
proof -
  have d: "distinct (map r_ticket (runs s))" using assms(1) by (simp add: slot_inv_def tickets_def)
  from attach_runs [OF d assms(2)] obtain p where
    r: "runs s' = map (\<lambda>r. if r_ticket r = t
      then r\<lparr>r_backend := Some b, r_req_id := Some q, r_paused := (p r \<or> r_paused r)\<rparr> else r) (runs s)"
    and p: "\<forall>r\<in>set (runs s). r_ticket r = t \<longrightarrow>
      p r = (r_class r = Background \<and> interactive_running (runs s))"
    and s': "s' = s\<lparr>runs := runs s'\<rparr>"
    by blast
  have "map r_ticket (runs s') = map r_ticket (runs s)" by (simp add: r)
  moreover have "interactive_running (runs s') = interactive_running (runs s)"
    unfolding r by (rule interactive_running_map) simp
  moreover have "running_in_class c (runs s') = running_in_class c (runs s)" for c
    unfolding r by (rule running_in_class_map) simp
  moreover have "waits s' = waits s" "next_ticket s' = next_ticket s"
    by (subst s', simp)+
  moreover have "pause_inv (runs s')"
    unfolding r
  proof (rule pause_inv_map)
    fix x assume x: "x \<in> set (runs s)"
    then have ok: "pause_ok (interactive_running (runs s)) x"
      using assms(1) by (simp add: slot_inv_def pause_inv_def list_all_iff)
    have px: "r_ticket x = t \<Longrightarrow> p x = (r_class x = Background \<and> interactive_running (runs s))"
      using p x by blast
    show "pause_ok (interactive_running (runs s))
      (if r_ticket x = t then x\<lparr>r_backend := Some b, r_req_id := Some q,
         r_paused := (p x \<or> r_paused x)\<rparr> else x)"
      using ok pause_ok_attach [OF ok px] by simp
  qed simp
  ultimately show ?thesis
    using assms(1) by (simp add: slot_inv_def tickets_def)
qed

lemma enqueue_slot_inv:
  assumes "slot_inv cfg s" and "next_ticket s + 1 < U64" and "admit_enqueue u c s = (t, s')"
  shows "slot_inv cfg s'"
proof -
  from assms(2,3) have "tickets s' = tickets s @ [next_ticket s]" "runs s' = runs s"
    "next_ticket s' = Suc (next_ticket s)"
    by (auto simp: tickets_def admit_enqueue_def width_simps)
  with assms(1) show ?thesis by (auto simp: slot_inv_def less_Suc_eq)
qed

lemma is_turn_cap:
  assumes "is_turn cfg s t"
  obtains me where "me \<in> set (waits s)" "w_ticket me = t"
    "running_in_class (w_class me) (runs s) < cap_of cfg (w_class me)"
    "\<forall>w\<in>set (waits s). waiter_key s me \<le> waiter_key s w"
  using assms
  by (auto simp: is_turn_def list_all_iff split: option.splits if_splits
      dest!: find_Some_iff_first)

lemma poll_slot_inv:
  assumes inv: "slot_inv cfg s" and poll: "admit_poll cfg t u c s = Some (s', ms)"
    and mine: "\<lparr>w_ticket = t, w_session = u, w_class = c\<rparr> \<in> set (waits s)"
  shows "slot_inv cfg s'"
proof -
  let ?new = "\<lparr>r_ticket = t, r_session = u, r_class = c, r_backend = None, r_req_id = None,
    r_paused = False\<rparr>"
  let ?f = "\<lambda>r. if c = Interactive \<and> r_class r = Background \<and> \<not> r_paused r
    then r\<lparr>r_paused := True\<rparr> else r"
  from poll have turn: "is_turn cfg s t"
    and runs: "runs s' = map ?f (runs s @ [?new])"
    and waits: "waits s' = filter (\<lambda>w. w_ticket w \<noteq> t) (waits s)"
    and nxt: "next_ticket s' = next_ticket s"
    by (auto simp: admit_poll_def Let_def split: if_splits)
  have d: "distinct (tickets s)" using inv by (simp add: slot_inv_def)
  from is_turn_cap [OF turn] obtain me where
    me: "me \<in> set (waits s)" "w_ticket me = t"
      "running_in_class (w_class me) (runs s) < cap_of cfg (w_class me)"
    by blast
  have "me = \<lparr>w_ticket = t, w_session = u, w_class = c\<rparr>"
    using d me mine by (auto simp: tickets_def distinct_map inj_on_def)
  with me have cap: "running_in_class c (runs s) < cap_of cfg c" by simp
  have t: "t < next_ticket s" "t \<notin> r_ticket ` set (runs s)"
    using inv me d by (auto simp: slot_inv_def tickets_def)
  have rc: "running_in_class c' (runs s') = running_in_class c' (runs s @ [?new])" for c'
    unfolding runs by (rule running_in_class_map) simp
  have "map r_ticket (runs s') = map r_ticket (runs s) @ [t]" by (simp add: runs)
  then have "distinct (tickets s') \<and> (\<forall>x\<in>set (tickets s'). x < next_ticket s')"
    using d t inv by (auto simp: tickets_def waits nxt slot_inv_def distinct_map_filter)
  moreover have "\<forall>c'. running_in_class c' (runs s') \<le> cap_of cfg c'"
    using cap inv unfolding rc by (auto simp: slot_inv_def running_in_class_def)
  moreover have "pause_inv (runs s')"
    unfolding runs
  proof (rule pause_inv_map)
    fix x assume "x \<in> set (runs s @ [?new])"
    then show "pause_ok (interactive_running (runs s @ [?new])) (?f x)"
      using inv by (cases c)
        (auto simp: slot_inv_def pause_inv_def list_all_iff pause_ok_def interactive_running_def)
  qed simp
  ultimately show ?thesis by (simp add: slot_inv_def)
qed

lemma release_slot_inv:
  assumes "slot_inv cfg s" and "release t s = (s', ms)"
  shows "slot_inv cfg s'"
proof -
  let ?rs = "filter (\<lambda>r. r_ticket r \<noteq> t) (runs s)"
  let ?f = "\<lambda>r. if \<not> interactive_running ?rs \<and> r_paused r then r\<lparr>r_paused := False\<rparr> else r"
  from assms(2) have runs: "runs s' = map ?f ?rs" and rest: "waits s' = waits s"
    "next_ticket s' = next_ticket s"
    by (auto simp: release_def Let_def split: if_splits)
  have tk: "map r_ticket (runs s') = map r_ticket ?rs" by (simp add: runs)
  have cap: "running_in_class c (runs s') \<le> cap_of cfg c" for c
  proof -
    have "running_in_class c (runs s') = running_in_class c ?rs"
      unfolding runs by (rule running_in_class_map) simp
    also have "\<dots> \<le> running_in_class c (runs s)" by (rule running_in_class_filter)
    finally show ?thesis using assms(1) by (simp add: slot_inv_def) (meson le_trans)
  qed
  have left: "interactive_running ?rs \<Longrightarrow> interactive_running (runs s)"
    by (auto simp: interactive_running_iff)
  have "pause_inv (runs s')"
    unfolding runs
  proof (rule pause_inv_map)
    fix x assume "x \<in> set ?rs"
    then show "pause_ok (interactive_running ?rs) (?f x)"
      using assms(1) left
      by (auto simp: slot_inv_def pause_inv_def list_all_iff pause_ok_def)
  qed simp
  with tk cap assms(1) show ?thesis
    by (auto simp: slot_inv_def tickets_def rest distinct_map_filter)
qed

subsection \<open>The KV accounts\<close>

definition kv_sum :: "(string \<times> kv_entry) list \<Rightarrow> nat" where
  "kv_sum m = sum_list (map (\<lambda>(_, e). kv_bytes e) m)"

definition kv_inv :: "limits_cfg \<Rightarrow> inner \<Rightarrow> bool" where
  "kv_inv cfg s =
     (distinct (map fst (kv s)) \<and> kv_used s = kv_sum (kv s) \<and> kv_used s \<le> kv_budget cfg)"

definition victim :: "string \<times> kv_entry \<Rightarrow> string \<times> string \<times> nat" where
  "victim c = (case c of (k, e) \<Rightarrow> (k, kv_backend e, kv_bytes e))"

lemma kv_sum_simps [simp]:
  "kv_sum [] = 0"
  "kv_sum ((k, e) # m) = kv_bytes e + kv_sum m"
  "kv_sum (m1 @ m2) = kv_sum m1 + kv_sum m2"
  by (simp_all add: kv_sum_def)

lemma kv_sum_mset: "mset m1 = mset m2 \<Longrightarrow> kv_sum m1 = kv_sum m2"
  by (simp add: kv_sum_def flip: sum_mset_sum_list)

lemma kv_sum_filter: "kv_sum (filter P m) + kv_sum (filter (\<lambda>x. \<not> P x) m) = kv_sum m"
  unfolding kv_sum_def by (rule sum_list_filter_split [symmetric])

lemma kv_sum_remove:
  assumes "distinct (map fst m)" and "set vs \<subseteq> set m" and "distinct (map fst vs)"
  shows "kv_sum (filter (\<lambda>(k, _). k \<notin> fst ` set vs) m) + kv_sum vs = kv_sum m"
proof -
  have inj: "inj_on fst (set m)" using assms(1) by (simp add: distinct_map)
  have "x \<in> set vs" if "x \<in> set m" "fst x \<in> fst ` set vs" for x
  proof -
    from that(2) obtain v where "v \<in> set vs" "fst v = fst x" by auto
    with inj that(1) assms(2) show ?thesis by (metis inj_onD subsetD)
  qed
  then have "set (filter (\<lambda>(k, _). k \<in> fst ` set vs) m) = set vs"
    using assms(2) by (auto simp: case_prod_unfold)
  moreover have "distinct (filter (\<lambda>(k, _). k \<in> fst ` set vs) m)" "distinct vs"
    using assms(1,3) by (simp_all add: distinct_map)
  ultimately have "mset (filter (\<lambda>(k, _). k \<in> fst ` set vs) m) = mset vs"
    by (metis set_eq_iff_mset_eq_distinct)
  then have "kv_sum (filter (\<lambda>(k, _). k \<in> fst ` set vs) m) = kv_sum vs"
    by (rule kv_sum_mset)
  with kv_sum_filter [of "\<lambda>(k, _). k \<in> fst ` set vs" m] show ?thesis
    by (simp add: case_prod_unfold)
qed

lemma kv_modify_keys [simp]: "map fst (kv_modify k f m) = map fst m"
  by (simp add: kv_modify_def case_prod_unfold)

lemma kv_modify_same_bytes:
  "(\<And>e. kv_bytes (f e) = kv_bytes e) \<Longrightarrow> kv_sum (kv_modify k f m) = kv_sum m"
  by (simp add: kv_sum_def kv_modify_def case_prod_unfold comp_def if_distrib cong: if_cong)

lemma kv_insert_distinct: "distinct (map fst m) \<Longrightarrow> distinct (map fst (kv_insert k e m))"
  by (auto simp: kv_insert_def)

lemma kv_modify_absent: "k \<notin> fst ` set m \<Longrightarrow> kv_modify k f m = m"
  by (induction m) (auto simp: kv_modify_def)

lemma kv_sum_insert:
  assumes "distinct (map fst m)"
  shows "kv_sum (kv_insert k e m) + (case map_of m k of None \<Rightarrow> 0 | Some e' \<Rightarrow> kv_bytes e')
    = kv_sum m + kv_bytes e"
proof (cases "k \<in> fst ` set m")
  case False
  then have "map_of m k = None" by (simp add: map_of_eq_None_iff)
  with False show ?thesis by (simp add: kv_insert_def)
next
  case True
  then show ?thesis using assms
  proof (induction m)
    case (Cons x m)
    obtain k' e' where x: "x = (k', e')" by fastforce
    show ?case
    proof (cases "k' = k")
      case True
      with Cons.prems x kv_modify_absent [of k m "\<lambda>_. e"] show ?thesis
        by (simp add: kv_insert_def) (simp add: kv_modify_def)
    next
      case False
      with Cons x show ?thesis
        by (auto simp: kv_insert_def) (simp add: kv_modify_def)
    qed
  qed simp
qed

lemma commit_plan_fields:
  "kv (commit_plan plan s) = filter (\<lambda>(k, _). k \<notin> fst ` set plan) (kv s)"
  "kv_used (commit_plan plan s) = kv_used s - sum_list (map (snd \<circ> snd) plan)"
  "commit_plan plan s = s\<lparr>kv := kv (commit_plan plan s), kv_used := kv_used (commit_plan plan s)\<rparr>"
  by (induction plan arbitrary: s)
    (auto simp: filter_filter case_prod_unfold intro!: filter_cong)

lemma plan_pass_take:
  assumes "plan_pass cfg s extra cs freed plan = (freed', plan')" and "freed + kv_sum cs < U64"
  shows "\<exists>n\<le>length cs. plan' = plan @ map victim (take n cs) \<and> freed' = freed + kv_sum (take n cs)
    \<and> (n < length cs \<longrightarrow> fits cfg s freed' extra)
    \<and> (\<forall>j<n. \<not> fits cfg s (freed + kv_sum (take j cs)) extra)"
  using assms
proof (induction cs arbitrary: freed plan)
  case (Cons c cs)
  obtain k e where c: "c = (k, e)" by fastforce
  show ?case
  proof (cases "fits cfg s freed extra")
    case True
    with Cons.prems c show ?thesis by (intro exI [of _ 0]) auto
  next
    case False
    have add: "u64_add freed (kv_bytes e) = freed + kv_bytes e"
      using Cons.prems(2) c by (intro u64_add_exact) simp
    from Cons.IH [of "freed + kv_bytes e" "plan @ [victim c]"] Cons.prems False c add
    obtain n where n: "n \<le> length cs" "plan' = (plan @ [victim c]) @ map victim (take n cs)"
      "freed' = freed + kv_bytes e + kv_sum (take n cs)"
      "n < length cs \<longrightarrow> fits cfg s freed' extra"
      "\<forall>j<n. \<not> fits cfg s (freed + kv_bytes e + kv_sum (take j cs)) extra"
      by (auto simp: victim_def)
    have "\<not> fits cfg s (freed + kv_sum (take j (c # cs))) extra" if "j < Suc n" for j
      using that n(5) False c by (cases j) (auto simp: add.assoc)
    with n c show ?thesis by (intro exI [of _ "Suc n"]) auto
  qed
qed auto

text \<open>The shape of an eviction plan: how far each pass went, and that it stopped in time.\<close>

definition bg_candidates :: "string \<Rightarrow> inner \<Rightarrow> (string \<times> kv_entry) list" where
  "bg_candidates session s = kv_candidates session Background (kv s)"

definition fg_candidates :: "string \<Rightarrow> inner \<Rightarrow> (string \<times> kv_entry) list" where
  "fg_candidates session s = kv_candidates session Interactive (kv s)"

lemma mset_candidates:
  "mset (kv_candidates session c m) =
   mset (filter (\<lambda>(k, e). k \<noteq> session \<and> kv_class e = c \<and> \<not> kv_active e) m)"
  by (simp add: kv_candidates_def)

lemma set_candidates:
  "set (kv_candidates session c m) =
   {(k, e) \<in> set m. k \<noteq> session \<and> kv_class e = c \<and> \<not> kv_active e}"
  by (auto simp: kv_candidates_def)

lemma kv_sum_candidates:
  "kv_sum (kv_candidates session Background m) + kv_sum (kv_candidates session Interactive m) \<le> kv_sum m"
proof -
  have sum: "kv_sum (kv_candidates session c m) =
      kv_sum (filter (\<lambda>(k, e). k \<noteq> session \<and> kv_class e = c \<and> \<not> kv_active e) m)" for c
    by (rule kv_sum_mset) (rule mset_candidates)
  show ?thesis unfolding sum by (induction m) (auto split: prod.splits)
qed

lemma kv_sum_take: "kv_sum (take n m) \<le> kv_sum m"
proof -
  have "kv_sum m = kv_sum (take n m) + kv_sum (drop n m)"
    by (metis append_take_drop_id kv_sum_simps(3))
  then show ?thesis by simp
qed

lemma plan_shape:
  assumes "plan_passes cfg s session extra [Background, Interactive] 0 [] = (freed, plan)"
    and "kv_sum (kv s) < U64"
  obtains n m where
    "plan = map victim (take n (bg_candidates session s) @ take m (fg_candidates session s))"
    and "freed = kv_sum (take n (bg_candidates session s) @ take m (fg_candidates session s))"
    and "m > 0 \<Longrightarrow> n = length (bg_candidates session s)"
    and "n \<le> length (bg_candidates session s)" and "m \<le> length (fg_candidates session s)"
    and "\<And>j. j < n \<Longrightarrow> \<not> fits cfg s (kv_sum (take j (bg_candidates session s))) extra"
    and "\<And>j. j < m \<Longrightarrow> \<not> fits cfg s (kv_sum (bg_candidates session s)
        + kv_sum (take j (fg_candidates session s))) extra"
proof (cases "fits cfg s 0 extra")
  case True
  with assms(1) that [of 0 0] show ?thesis by simp
next
  case False
  let ?B = "bg_candidates session s" and ?I = "fg_candidates session s"
  have BI: "kv_sum ?B + kv_sum ?I < U64"
    using kv_sum_candidates [of session "kv s"] assms(2)
    by (simp add: bg_candidates_def fg_candidates_def)
  obtain f1 p1 where p1: "plan_pass cfg s extra ?B 0 [] = (f1, p1)" by fastforce
  from plan_pass_take [OF this] BI obtain n where n: "n \<le> length ?B"
    "p1 = map victim (take n ?B)" "f1 = kv_sum (take n ?B)"
    "n < length ?B \<longrightarrow> fits cfg s f1 extra"
    "\<forall>j<n. \<not> fits cfg s (kv_sum (take j ?B)) extra"
    by auto
  show ?thesis
  proof (cases "fits cfg s f1 extra")
    case True
    with False assms(1) p1 have "freed = f1" "plan = p1"
      by (simp_all add: bg_candidates_def)
    with n that [of n 0] show ?thesis by simp
  next
    case F1: False
    with n have full: "n = length ?B" by auto
    from F1 False assms(1) p1 have pp: "plan_pass cfg s extra ?I f1 p1 = (freed, plan)"
      by (simp add: bg_candidates_def fg_candidates_def split: prod.splits)
    have "f1 + kv_sum ?I < U64" using BI n full by simp
    from plan_pass_take [OF pp this] obtain m where m: "m \<le> length ?I"
      "plan = p1 @ map victim (take m ?I)" "freed = f1 + kv_sum (take m ?I)"
      "\<forall>j<m. \<not> fits cfg s (f1 + kv_sum (take j ?I)) extra"
      by auto
    with n full that [of n m] show ?thesis by simp
  qed
qed

lemma candidates_keys_distinct:
  assumes "distinct (map fst (kv s))"
  shows "distinct (map fst (take n (bg_candidates session s) @ take m (fg_candidates session s)))"
proof -
  have d: "distinct (map fst (kv_candidates session c (kv s)))" for c
  proof -
    let ?f = "filter (\<lambda>(k, e). k \<noteq> session \<and> kv_class e = c \<and> \<not> kv_active e) (kv s)"
    have "mset (map fst (kv_candidates session c (kv s))) = mset (map fst ?f)"
      unfolding mset_map mset_candidates ..
    moreover have "distinct (map fst ?f)"
      using assms by (simp add: distinct_map_filter)
    ultimately show ?thesis
      using mset_eq_imp_distinct_iff by blast
  qed
  have inj: "inj_on fst (set (kv s))" using assms by (simp add: distinct_map)
  have "fst x \<noteq> fst y"
    if "x \<in> set (bg_candidates session s)" "y \<in> set (fg_candidates session s)" for x y
  proof
    assume "fst x = fst y"
    with that inj have "x = y"
      by (auto simp: bg_candidates_def fg_candidates_def set_candidates inj_on_def)
    with that show False
      by (auto simp: bg_candidates_def fg_candidates_def set_candidates)
  qed
  then have "set (map fst (take n (bg_candidates session s))) \<inter>
      set (map fst (take m (fg_candidates session s))) = {}"
    using set_take_subset [of n "bg_candidates session s"]
      set_take_subset [of m "fg_candidates session s"] by (auto 0 4)
  moreover have "distinct (map fst (take k (kv_candidates session c (kv s))))" for k c
    using d [of c] by (simp add: distinct_take flip: take_map)
  ultimately show ?thesis
    unfolding map_append distinct_append by (simp add: bg_candidates_def fg_candidates_def)
qed

lemma victims_set: "fst ` set (map victim vs) = fst ` set vs"
  "sum_list (map (snd \<circ> snd) (map victim vs)) = kv_sum vs"
  by (auto simp: victim_def kv_sum_def case_prod_unfold comp_def image_image)

lemma reserve_kv_cases:
  assumes "reserve_kv cfg now session backend c bytes s = (res, s', ms)"
    and prev: "previous = (case map_of (kv s) session of None \<Rightarrow> 0 | Some e \<Rightarrow> kv_bytes e)"
  obtains (error) e where "res = Inl e" "s' = s" "ms = []"
  | (grow) freed plan where "previous < bytes" "bytes - previous \<le> kv_budget cfg"
      "plan_passes cfg s session (bytes - previous) [Background, Interactive] 0 [] = (freed, plan)"
      "fits cfg s freed (bytes - previous)"
      "res = Inr (map fst plan)" "ms = map (\<lambda>(k, b, _). DropCache b k) plan"
      "s' = (commit_plan plan s)
        \<lparr>kv_used := u64_add (kv_used (commit_plan plan s)) (bytes - previous),
         kv := kv_insert session \<lparr>kv_bytes = bytes, kv_class = c, kv_last_used = now,
           kv_backend = backend, kv_active = True\<rparr> (kv (commit_plan plan s))\<rparr>"
  | (shrink) "bytes \<le> previous" "res = Inr []" "ms = []"
      "s' = s\<lparr>kv_used := kv_used s - (previous - bytes),
         kv := kv_insert session \<lparr>kv_bytes = bytes, kv_class = c, kv_last_used = now,
           kv_backend = backend, kv_active = True\<rparr> (kv s)\<rparr>"
proof (cases "previous < bytes")
  case False
  with assms shrink show ?thesis by (simp add: reserve_kv_def Let_def)
next
  case True
  obtain freed plan where pl:
    "plan_passes cfg s session (bytes - previous) [Background, Interactive] 0 [] = (freed, plan)"
    by fastforce
  show ?thesis
  proof (cases "bytes - previous > kv_budget cfg \<or> \<not> fits cfg s freed (bytes - previous)")
    case bad: True
    with True pl prev
    have "\<exists>e. reserve_kv cfg now session backend c bytes s = (Inl e, s, [])"
      by (auto simp: reserve_kv_def Let_def simp del: plan_passes.simps)
    with assms(1) error show ?thesis by auto
  next
    case good: False
    with True assms(1) pl have
      "res = Inr (map fst plan) \<and> ms = map (\<lambda>(k, b, _). DropCache b k) plan \<and>
       s' = (commit_plan plan s)
        \<lparr>kv_used := u64_add (kv_used (commit_plan plan s)) (bytes - previous),
         kv := kv_insert session \<lparr>kv_bytes = bytes, kv_class = c, kv_last_used = now,
           kv_backend = backend, kv_active = True\<rparr> (kv (commit_plan plan s))\<rparr>"
      by (simp add: reserve_kv_def Let_def del: plan_passes.simps flip: prev)
    with True good pl show ?thesis by (intro grow [of freed plan]) auto
  qed
qed

lemma map_of_filter_key:
  "k \<notin> K \<Longrightarrow> map_of (filter (\<lambda>(k', _). k' \<notin> K) m) k = map_of m k"
  by (induction m) auto

lemma commit_map_of:
  "session \<notin> fst ` set plan \<Longrightarrow>
   map_of (kv (commit_plan plan s)) session = map_of (kv s) session"
  unfolding commit_plan_fields(1) by (rule map_of_filter_key)

lemma reserve_kv_inv:
  assumes inv: "kv_inv cfg s" and width: "2 * kv_budget cfg < U64"
    and res: "reserve_kv cfg now session backend c bytes s = (res, s', ms)"
  shows "kv_inv cfg s'"
proof -
  define previous where "previous = (case map_of (kv s) session of None \<Rightarrow> 0 | Some e \<Rightarrow> kv_bytes e)"
  let ?e = "\<lparr>kv_bytes = bytes, kv_class = c, kv_last_used = now, kv_backend = backend, kv_active = True\<rparr>"
  from inv have d: "distinct (map fst (kv s))" and used: "kv_used s = kv_sum (kv s)"
    and budget: "kv_used s \<le> kv_budget cfg"
    by (auto simp: kv_inv_def)
  from res previous_def show ?thesis
  proof (cases rule: reserve_kv_cases)
    case error
    with inv show ?thesis by simp
  next
    case shrink
    with kv_sum_insert [OF d, of session ?e] used budget d show ?thesis
      by (auto simp: kv_inv_def kv_insert_distinct previous_def)
  next
    case (grow freed plan)
    let ?x = "bytes - previous" and ?s = "commit_plan plan s"
    have lt: "kv_sum (kv s) < U64" using used budget width by simp
    from plan_shape [OF grow(3) lt] obtain n m where
      plan: "plan = map victim (take n (bg_candidates session s) @ take m (fg_candidates session s))"
      and freed: "freed = kv_sum (take n (bg_candidates session s) @ take m (fg_candidates session s))"
      by blast
    let ?vs = "take n (bg_candidates session s) @ take m (fg_candidates session s)"
    have sub: "set ?vs \<subseteq> {(k, e) \<in> set (kv s). k \<noteq> session}"
      by (auto simp: bg_candidates_def fg_candidates_def set_candidates dest!: in_set_takeD)
    have ks: "kv ?s = filter (\<lambda>(k, _). k \<notin> fst ` set ?vs) (kv s)"
      unfolding commit_plan_fields(1) plan victims_set(1) ..
    have u: "kv_used ?s = kv_used s - freed"
      unfolding commit_plan_fields(2) plan victims_set(2) freed ..
    have sum: "kv_sum (kv ?s) + freed = kv_sum (kv s)"
      unfolding ks freed
      by (rule kv_sum_remove [OF d _ candidates_keys_distinct [OF d]]) (use sub in auto)
    have same: "map_of (kv ?s) session = map_of (kv s) session"
      by (rule commit_map_of) (use sub in \<open>auto simp: plan victim_def\<close>)
    have ds: "distinct (map fst (kv ?s))" using d by (simp add: ks distinct_map_filter)
    have ex: "u64_add (kv_used ?s) ?x = kv_used ?s + ?x"
      using u budget grow(2) width by (intro u64_add_exact) linarith
    have "kv_used ?s + ?x \<le> kv_budget cfg"
      using grow(4) ex by (simp add: fits_def u)
    moreover have "kv_sum (kv_insert session ?e (kv ?s)) = kv_used ?s + ?x"
      using kv_sum_insert [OF ds, of session ?e] same sum used u grow(1)
      by (simp add: previous_def)
    ultimately show ?thesis
      using ds by (simp add: grow(7) kv_inv_def ex kv_insert_distinct)
  qed
qed

lemma mark_idle_kv_inv: "kv_inv cfg s \<Longrightarrow> kv_inv cfg (mark_idle now session s)"
  by (simp add: kv_inv_def mark_idle_def kv_modify_same_bytes)

lemma charge_kv_inv: "kv_inv cfg s \<Longrightarrow> kv_inv cfg (charge now session n s)"
  by (simp add: kv_inv_def charge_def kv_modify_same_bytes)

lemma release_kv_inv:
  assumes "kv_inv cfg s"
  shows "kv_inv cfg (release_kv session s)"
proof (cases "map_of (kv s) session")
  case None
  with assms show ?thesis by (simp add: release_kv_def)
next
  case (Some e)
  from assms have d: "distinct (map fst (kv s))" by (simp add: kv_inv_def)
  have "set [(session, e)] \<subseteq> set (kv s)" using map_of_SomeD [OF Some] by simp
  from kv_sum_remove [OF d this]
  have "kv_sum (filter (\<lambda>(k, _). k \<noteq> session) (kv s)) + kv_bytes e = kv_sum (kv s)" by simp
  with assms Some d show ?thesis
    by (auto simp: release_kv_def kv_inv_def distinct_map_filter)
qed

subsection \<open>Threads\<close>

text \<open>
  Session threads call the scheduler concurrently. A critical section is atomic; the
  messages it decided on are sent afterwards, one by one, while other threads run. A thread
  that still has messages to send does nothing else until it has sent them.
\<close>

record world =
  st :: inner
  outbox :: "(nat \<times> preempt list) list"
  sent :: "preempt list"

definition world_new :: world where
  "world_new = \<lparr>st = inner_new, outbox = [], sent = []\<rparr>"

definition quiet :: "nat \<Rightarrow> world \<Rightarrow> bool" where
  "quiet tid w = (tid \<notin> fst ` set (outbox w))"

definition post :: "nat \<Rightarrow> inner \<times> preempt list \<Rightarrow> world \<Rightarrow> world" where
  "post tid r w =
     w\<lparr>st := fst r, outbox := outbox w @ (if snd r = [] then [] else [(tid, snd r)])\<rparr>"

inductive sched_step :: "limits_cfg \<Rightarrow> world \<Rightarrow> world \<Rightarrow> bool" for cfg where
  step_enqueue: "quiet tid w \<Longrightarrow> next_ticket (st w) + 1 < U64 \<Longrightarrow>
    sched_step cfg w (w\<lparr>st := snd (admit_enqueue u c (st w))\<rparr>)"
| step_poll: "quiet tid w \<Longrightarrow> \<lparr>w_ticket = t, w_session = u, w_class = c\<rparr> \<in> set (waits (st w)) \<Longrightarrow>
    admit_poll cfg t u c (st w) = Some r \<Longrightarrow> sched_step cfg w (post tid r w)"
| step_attach: "quiet tid w \<Longrightarrow> sched_step cfg w (post tid (attach t b q (st w)) w)"
| step_release: "quiet tid w \<Longrightarrow> sched_step cfg w (post tid (release t (st w)) w)"
| step_charge: "quiet tid w \<Longrightarrow> sched_step cfg w (w\<lparr>st := charge now u n (st w)\<rparr>)"
| step_reserve: "quiet tid w \<Longrightarrow> reserve_kv cfg now u b c n (st w) = (res, r) \<Longrightarrow>
    sched_step cfg w (post tid r w)"
| step_idle: "quiet tid w \<Longrightarrow> sched_step cfg w (w\<lparr>st := mark_idle now u (st w)\<rparr>)"
| step_release_kv: "quiet tid w \<Longrightarrow> sched_step cfg w (w\<lparr>st := release_kv u (st w)\<rparr>)"
| step_send: "outbox w = xs @ (tid, m # ms) # ys \<Longrightarrow>
    sched_step cfg w
      (w\<lparr>outbox := xs @ (if ms = [] then [] else [(tid, ms)]) @ ys, sent := sent w @ [m]\<rparr>)"

definition world_inv :: "limits_cfg \<Rightarrow> world \<Rightarrow> bool" where
  "world_inv cfg w = (slot_inv cfg (st w) \<and> (2 * kv_budget cfg < U64 \<longrightarrow> kv_inv cfg (st w)))"

lemma slot_inv_frame:
  "runs s' = runs s \<Longrightarrow> waits s' = waits s \<Longrightarrow> next_ticket s' = next_ticket s \<Longrightarrow>
   slot_inv cfg s' = slot_inv cfg s"
  by (simp add: slot_inv_def tickets_def)

lemma kv_inv_frame: "kv s' = kv s \<Longrightarrow> kv_used s' = kv_used s \<Longrightarrow> kv_inv cfg s' = kv_inv cfg s"
  by (simp add: kv_inv_def)

lemma commit_plan_slots:
  "runs (commit_plan plan s) = runs s" "waits (commit_plan plan s) = waits s"
  "next_ticket (commit_plan plan s) = next_ticket s"
  by (induction plan arbitrary: s) auto

lemma reserve_kv_slots:
  assumes "reserve_kv cfg now u b c n s = (res, s', ms)"
  shows "slot_inv cfg s' = slot_inv cfg s"
  using assms refl
  by (cases rule: reserve_kv_cases) (simp_all add: slot_inv_def tickets_def commit_plan_slots)

lemma slot_ops_kv:
  "kv (fst (attach t b q s)) = kv s" "kv_used (fst (attach t b q s)) = kv_used s"
  "kv (fst (release t s)) = kv s" "kv_used (fst (release t s)) = kv_used s"
  "kv (snd (admit_enqueue u c s)) = kv s" "kv_used (snd (admit_enqueue u c s)) = kv_used s"
  "admit_poll cfg t u c s = Some r \<Longrightarrow> kv (fst r) = kv s \<and> kv_used (fst r) = kv_used s"
  by (auto simp: attach_def release_def admit_enqueue_def admit_poll_def Let_def
      split: option.splits if_splits)

lemma world_inv_new: "world_inv cfg world_new"
  by (simp add: world_inv_def world_new_def inner_new_def slot_inv_def tickets_def
      running_in_class_def pause_inv_def kv_inv_def)

lemma sched_step_inv: "sched_step cfg w w' \<Longrightarrow> world_inv cfg w \<Longrightarrow> world_inv cfg w'"
proof (induction rule: sched_step.induct)
  case (step_enqueue tid w u c)
  then show ?case
    using enqueue_slot_inv [of cfg "st w" u c]
    by (cases "admit_enqueue u c (st w)")
      (use slot_ops_kv(5,6) [of u c "st w"] in \<open>auto simp: world_inv_def kv_inv_def\<close>)
next
  case (step_poll tid w t u c r)
  then show ?case
    using poll_slot_inv [of cfg "st w" t u c "fst r" "snd r"] slot_ops_kv(7) [OF step_poll(3)]
    by (auto simp: world_inv_def post_def kv_inv_def)
next
  case (step_attach tid w t b q)
  then show ?case
    using attach_slot_inv [of cfg "st w" t b q]
    by (cases "attach t b q (st w)")
      (use slot_ops_kv(1,2) [of t b q "st w"] in \<open>auto simp: world_inv_def post_def kv_inv_def\<close>)
next
  case (step_release tid w t)
  then show ?case
    using release_slot_inv [of cfg "st w" t]
    by (cases "release t (st w)")
      (use slot_ops_kv(3,4) [of t "st w"] in \<open>auto simp: world_inv_def post_def kv_inv_def\<close>)
next
  case (step_charge tid w now u n)
  then show ?case
    using slot_inv_frame [of "charge now u n (st w)" "st w" cfg]
    by (simp add: world_inv_def charge_kv_inv) (simp add: charge_def)
next
  case (step_reserve tid w now u b c n res r)
  obtain s' ms where r: "r = (s', ms)" by fastforce
  then show ?case
    using step_reserve reserve_kv_slots [of cfg now u b c n "st w" res s' ms]
      reserve_kv_inv [of cfg "st w" now u b c n res s' ms]
    by (simp add: world_inv_def post_def)
next
  case (step_idle tid w now u)
  then show ?case
    using slot_inv_frame [of "mark_idle now u (st w)" "st w" cfg]
    by (simp add: world_inv_def mark_idle_kv_inv) (simp add: mark_idle_def)
next
  case (step_release_kv tid w u)
  have "slot_inv cfg (release_kv u (st w)) = slot_inv cfg (st w)"
    by (rule slot_inv_frame) (simp_all add: release_kv_def split: option.splits)
  with step_release_kv show ?case by (simp add: world_inv_def release_kv_inv)
next
  case (step_send w xs tid m ms ys)
  then show ?case by (simp add: world_inv_def)
qed

interpretation scheduling: invariant_system "\<lambda>w. w = world_new" "sched_step cfg" "world_inv cfg"
  for cfg
  by unfold_locales (auto intro: world_inv_new sched_step_inv)

subsection \<open>Properties of the scheduler\<close>

lemma map_of_kv_modify:
  "map_of (kv_modify k f m) k' = (if k' = k then map_option f (map_of m k) else map_of m k')"
  by (induction m) (auto simp: kv_modify_def)

lemma map_of_kv_insert: "map_of (kv_insert k e m) = (map_of m)(k \<mapsto> e)"
proof (cases "k \<in> fst ` set m")
  case True
  then obtain e' where "map_of m k = Some e'" by (metis map_of_eq_None_iff not_None_eq)
  with True show ?thesis by (auto simp: kv_insert_def map_of_kv_modify)
next
  case False
  then have "map_of m k = None" by (simp add: map_of_eq_None_iff)
  with False show ?thesis
    by (auto simp: kv_insert_def map_add_def fun_eq_iff split: option.splits)
qed

lemma map_of_filter_out:
  "map_of (filter (\<lambda>(k, _). k \<notin> K) m) k = (if k \<in> K then None else map_of m k)"
  by (induction m) auto

lemma reserve_kv_victims:
  assumes inv: "kv_inv cfg s" and width: "2 * kv_budget cfg < U64"
    and res: "reserve_kv cfg now session backend c bytes s = (Inr evicted, s', ms)"
  obtains n m where
    "evicted = map fst (take n (bg_candidates session s) @ take m (fg_candidates session s))"
    and "ms = map (\<lambda>(k, e). DropCache (kv_backend e) k)
      (take n (bg_candidates session s) @ take m (fg_candidates session s))"
    and "m > 0 \<Longrightarrow> n = length (bg_candidates session s)"
    and "evicted \<noteq> [] \<Longrightarrow>
      kv_used s - kv_sum (butlast (take n (bg_candidates session s) @ take m (fg_candidates session s)))
       + (bytes - (case map_of (kv s) session of None \<Rightarrow> 0 | Some e \<Rightarrow> kv_bytes e)) > kv_budget cfg"
    and "\<And>k. map_of (kv s') k =
      (if k = session then Some \<lparr>kv_bytes = bytes, kv_class = c, kv_last_used = now,
           kv_backend = backend, kv_active = True\<rparr>
       else if k \<in> set evicted then None else map_of (kv s) k)"
proof -
  let ?B = "bg_candidates session s" and ?I = "fg_candidates session s"
  let ?prev = "case map_of (kv s) session of None \<Rightarrow> 0 | Some e \<Rightarrow> kv_bytes e"
  from inv have used: "kv_used s = kv_sum (kv s)" "kv_used s \<le> kv_budget cfg"
    by (auto simp: kv_inv_def)
  show ?thesis
    using res refl
  proof (cases rule: reserve_kv_cases)
    case error
    then show ?thesis by simp
  next
    case shrink
    with that [of 0 0] show ?thesis by (simp add: map_of_kv_insert)
  next
    case (grow freed plan)
    let ?x = "bytes - ?prev"
    from used width have "kv_sum (kv s) < U64" by simp
    from plan_shape [OF grow(3) this] obtain n m where
      plan: "plan = map victim (take n ?B @ take m ?I)"
      and nm: "m > 0 \<Longrightarrow> n = length ?B" "n \<le> length ?B" "m \<le> length ?I"
      and b: "\<And>j. j < n \<Longrightarrow> \<not> fits cfg s (kv_sum (take j ?B)) ?x"
      and i: "\<And>j. j < m \<Longrightarrow> \<not> fits cfg s (kv_sum ?B + kv_sum (take j ?I)) ?x"
      by blast
    let ?vs = "take n ?B @ take m ?I"
    have ev: "evicted = map fst ?vs"
      using grow(5) by (simp add: plan victim_def case_prod_unfold)
    have ms: "ms = map (\<lambda>(k, e). DropCache (kv_backend e) k) ?vs"
      by (simp add: grow(6) plan victim_def case_prod_unfold)
    have notfit: "\<not> fits cfg s (kv_sum (butlast ?vs)) ?x" if "?vs \<noteq> []"
    proof (cases m)
      case 0
      with that nm b [of "n - 1"] show ?thesis by (simp add: butlast_take min_absorb2)
    next
      case (Suc m')
      then have "?I \<noteq> []" using nm(3) by auto
      with Suc nm i [of m'] show ?thesis by (simp add: butlast_append butlast_take min_absorb2)
    qed
    have min: "kv_used s - kv_sum (butlast ?vs) + ?x > kv_budget cfg" if "evicted \<noteq> []"
    proof -
      have "u64_add (kv_used s - kv_sum (butlast ?vs)) ?x > kv_budget cfg"
        using notfit that ev by (auto simp: fits_def)
      with u64_add_le [of "kv_used s - kv_sum (butlast ?vs)" ?x] show ?thesis by linarith
    qed
    have "map_of (kv s') k =
      (if k = session then Some \<lparr>kv_bytes = bytes, kv_class = c, kv_last_used = now,
           kv_backend = backend, kv_active = True\<rparr>
       else if k \<in> set evicted then None else map_of (kv s) k)" for k
      using grow(5) by (simp add: grow(7) map_of_kv_insert commit_plan_fields(1) map_of_filter_out)
    with that ev ms nm(1) min show ?thesis by blast
  qed
qed

text \<open>
  C1. Whatever the session threads do and however their messages interleave: no class has
  more requests running than its cap, tickets are never shared, only background work is
  ever paused and only while interactive work runs, every background request that has
  reached a backend is marked paused while interactive work runs, and (for a budget below
  \<open>2^63\<close> bytes) the KV account is the sum of what the sessions hold and within the budget.
\<close>

theorem scheduler_safe:
  assumes "(sched_step cfg)\<^sup>*\<^sup>* world_new w"
  shows "(\<forall>c. running_in_class c (runs (st w)) \<le> cap_of cfg c)
    \<and> distinct (tickets (st w))
    \<and> (\<forall>r\<in>set (runs (st w)).
         (r_paused r \<longrightarrow> r_class r = Background \<and> interactive_running (runs (st w))) \<and>
         (interactive_running (runs (st w)) \<and> r_class r = Background \<and> r_backend r \<noteq> None
            \<longrightarrow> r_paused r))
    \<and> (2 * kv_budget cfg < U64 \<longrightarrow>
         kv_used (st w) = kv_sum (kv (st w)) \<and> kv_used (st w) \<le> kv_budget cfg)"
  using scheduling.reachable_inv [OF refl assms]
  unfolding world_inv_def slot_inv_def kv_inv_def pause_inv_def list_all_iff pause_ok_def
  by blast

theorem scheduler_safe_witness:
  "running_in_class Background (runs (st (world_new\<lparr>st := snd (admit_enqueue ''a'' Background inner_new)\<rparr>))) \<le> 1"
proof -
  let ?cfg = "scheduler_new 2 1 1000"
  let ?w = "world_new\<lparr>st := snd (admit_enqueue ''a'' Background inner_new)\<rparr>"
  have "sched_step ?cfg world_new (world_new\<lparr>st := snd (admit_enqueue ''a'' Background (st world_new))\<rparr>)"
    by (rule step_enqueue [of 0]) (simp_all add: quiet_def world_new_def inner_new_def)
  then have "(sched_step ?cfg)\<^sup>*\<^sup>* world_new ?w" by (simp add: world_new_def r_into_rtranclp)
  from scheduler_safe [OF this] have "running_in_class Background (runs (st ?w)) \<le> cap_of ?cfg Background"
    by blast
  then show ?thesis by (simp add: cap_of_def scheduler_new_def)
qed

text \<open>
  C10. A reservation either changes nothing at all (no state, no message to a backend), or it
  succeeds and the list it returns is exactly who paid for it: the sessions dropped are the
  ones whose backend is told to drop its cache, each was idle and not the requester, nobody
  else's entry changed, and the account stays exact and within the budget.
\<close>

theorem reserve_kv_atomic:
  assumes "kv_inv cfg s" and "2 * kv_budget cfg < U64"
    and "reserve_kv cfg now session backend c bytes s = (res, s', ms)"
  shows "case res of
      Inl _ \<Rightarrow> s' = s \<and> ms = []
    | Inr evicted \<Rightarrow>
        map (\<lambda>m. case m of DropCache _ k \<Rightarrow> Some k | _ \<Rightarrow> None) ms = map Some evicted
        \<and> distinct evicted
        \<and> (\<forall>k\<in>set evicted. k \<noteq> session \<and> (\<exists>e. map_of (kv s) k = Some e \<and> \<not> kv_active e))
        \<and> (\<forall>k. k \<noteq> session \<longrightarrow>
             map_of (kv s') k = (if k \<in> set evicted then None else map_of (kv s) k))
        \<and> (\<exists>e. map_of (kv s') session = Some e \<and> kv_bytes e = bytes \<and> kv_active e)
        \<and> kv_used s' = kv_sum (kv s') \<and> kv_used s' \<le> kv_budget cfg"
proof (cases res)
  case (Inl e)
  show ?thesis
    using assms(3) refl by (cases rule: reserve_kv_cases) (use Inl in auto)
next
  case (Inr evicted)
  let ?B = "bg_candidates session s" and ?I = "fg_candidates session s"
  have d: "distinct (map fst (kv s))" using assms(1) by (simp add: kv_inv_def)
  from reserve_kv_victims [OF assms(1,2)] assms(3) Inr obtain n m where
    ev: "evicted = map fst (take n ?B @ take m ?I)"
    and ms: "ms = map (\<lambda>(k, e). DropCache (kv_backend e) k) (take n ?B @ take m ?I)"
    and kv: "\<And>k. map_of (kv s') k =
      (if k = session then Some \<lparr>kv_bytes = bytes, kv_class = c, kv_last_used = now,
           kv_backend = backend, kv_active = True\<rparr>
       else if k \<in> set evicted then None else map_of (kv s) k)"
    by metis
  have idle: "k \<noteq> session \<and> (\<exists>e. map_of (kv s) k = Some e \<and> \<not> kv_active e)" if "k \<in> set evicted" for k
  proof -
    from that ev have "k \<in> fst ` set (take n ?B @ take m ?I)" by (simp only: set_map)
    then obtain e where "(k, e) \<in> set (take n ?B @ take m ?I)" by (metis imageE prod.collapse)
    then have "(k, e) \<in> set ?B \<union> set ?I" by (auto dest: in_set_takeD)
    then have "(k, e) \<in> set (kv s)" "k \<noteq> session" "\<not> kv_active e"
      by (auto simp: bg_candidates_def fg_candidates_def set_candidates)
    with d show ?thesis by auto
  qed
  have "map (\<lambda>m. case m of DropCache _ k \<Rightarrow> Some k | _ \<Rightarrow> None) ms = map Some evicted"
    by (simp add: ms ev case_prod_unfold)
  moreover have "distinct evicted"
    unfolding ev by (rule candidates_keys_distinct [OF d])
  moreover have "kv_inv cfg s'"
    by (rule reserve_kv_inv [OF assms])
  ultimately show ?thesis
    using idle by (simp add: Inr kv kv_inv_def)
qed

theorem reserve_kv_atomic_witness:
  "case reserve_kv (scheduler_new 2 1 1000) 9 ''C'' ''mock'' Interactive 400
     (inner_new\<lparr>kv_used := 900, kv := [(''A'', \<lparr>kv_bytes = 700, kv_class = Interactive,
        kv_last_used = 1, kv_backend = ''mock'', kv_active = True\<rparr>),
       (''B'', \<lparr>kv_bytes = 200, kv_class = Background,
        kv_last_used = 2, kv_backend = ''mock'', kv_active = False\<rparr>)]\<rparr>) of
   (res, s', ms) \<Rightarrow> (\<exists>e. res = Inl e) \<and> ms = [] \<and> kv_used s' = 900"
proof -
  let ?s = "inner_new\<lparr>kv_used := 900, kv := [(''A'', \<lparr>kv_bytes = 700, kv_class = Interactive,
        kv_last_used = 1, kv_backend = ''mock'', kv_active = True\<rparr>),
       (''B'', \<lparr>kv_bytes = 200, kv_class = Background,
        kv_last_used = 2, kv_backend = ''mock'', kv_active = False\<rparr>)]\<rparr>"
  let ?cfg = "scheduler_new 2 1 1000"
  have inv: "kv_inv ?cfg ?s" by (simp add: kv_inv_def scheduler_new_def)
  have w: "2 * kv_budget ?cfg < U64" by (simp add: scheduler_new_def)
  obtain res s' ms where r: "reserve_kv ?cfg 9 ''C'' ''mock'' Interactive 400 ?s = (res, s', ms)"
    by (cases "reserve_kv ?cfg 9 ''C'' ''mock'' Interactive 400 ?s") auto
  then have "\<exists>e. res = Inl e"
    by (auto simp: reserve_kv_def scheduler_new_def fits_def u64_add_def kv_candidates_def
        inner_new_def split: if_splits)
  with reserve_kv_atomic [OF inv w r] r show ?thesis by auto
qed

text \<open>
  Who is evicted: background caches before interactive ones (an interactive cache goes
  only after every idle background one has), least recently used first within a class, and
  never one more than needed: without the last victim the reservation would not have fit.
\<close>

theorem reserve_kv_eviction_order:
  assumes "kv_inv cfg s" and "2 * kv_budget cfg < U64"
    and "reserve_kv cfg now session backend c bytes s = (Inr evicted, s', ms)"
  shows "\<exists>n m. evicted = map fst (take n (bg_candidates session s) @ take m (fg_candidates session s))
    \<and> (m > 0 \<longrightarrow> n = length (bg_candidates session s))
    \<and> sorted (map (kv_last_used \<circ> snd) (bg_candidates session s))
    \<and> sorted (map (kv_last_used \<circ> snd) (fg_candidates session s))
    \<and> (evicted \<noteq> [] \<longrightarrow>
         kv_used s
          - kv_sum (butlast (take n (bg_candidates session s) @ take m (fg_candidates session s)))
          + (bytes - (case map_of (kv s) session of None \<Rightarrow> 0 | Some e \<Rightarrow> kv_bytes e))
         > kv_budget cfg)"
proof -
  have sorted: "sorted (map (kv_last_used \<circ> snd) (kv_candidates session c' (kv s)))" for c'
    unfolding kv_candidates_def comp_def case_prod_unfold by (rule sorted_sort_key)
  from reserve_kv_victims [OF assms] sorted show ?thesis
    unfolding bg_candidates_def fg_candidates_def by metis
qed

theorem reserve_kv_eviction_order_witness:
  "\<exists>s' ms. reserve_kv (scheduler_new 2 1 1000) 9 ''C'' ''mock'' Interactive 500
     (inner_new\<lparr>kv_used := 600, kv := [(''A'', \<lparr>kv_bytes = 400, kv_class = Interactive,
        kv_last_used = 1, kv_backend = ''mock'', kv_active = False\<rparr>),
       (''B'', \<lparr>kv_bytes = 200, kv_class = Background,
        kv_last_used = 2, kv_backend = ''mock'', kv_active = False\<rparr>)]\<rparr>) = (Inr [''B''], s', ms)
   \<and> 600 + (500 - 0) > (1000::nat)"
proof -
  let ?s = "inner_new\<lparr>kv_used := 600, kv := [(''A'', \<lparr>kv_bytes = 400, kv_class = Interactive,
        kv_last_used = 1, kv_backend = ''mock'', kv_active = False\<rparr>),
       (''B'', \<lparr>kv_bytes = 200, kv_class = Background,
        kv_last_used = 2, kv_backend = ''mock'', kv_active = False\<rparr>)]\<rparr>"
  let ?cfg = "scheduler_new 2 1 1000"
  have inv: "kv_inv ?cfg ?s" by (simp add: kv_inv_def scheduler_new_def)
  have w: "2 * kv_budget ?cfg < U64" by (simp add: scheduler_new_def)
  have "fst (reserve_kv ?cfg 9 ''C'' ''mock'' Interactive 500 ?s) = Inr [''B'']"
    by (simp add: reserve_kv_def scheduler_new_def fits_def u64_add_def kv_candidates_def
        inner_new_def Let_def)
  then obtain s' ms where r: "reserve_kv ?cfg 9 ''C'' ''mock'' Interactive 500 ?s = (Inr [''B''], s', ms)"
    by (cases "reserve_kv ?cfg 9 ''C'' ''mock'' Interactive 500 ?s") auto
  from reserve_kv_eviction_order [OF inv w r] r show ?thesis by auto
qed

lemma is_turn_minimal:
  assumes "distinct (map w_ticket (waits s))" and "me \<in> set (waits s)"
  shows "is_turn cfg s (w_ticket me) \<longleftrightarrow>
    running_in_class (w_class me) (runs s) < cap_of cfg (w_class me) \<and>
    (\<forall>w\<in>set (waits s). waiter_key s me \<le> waiter_key s w)"
proof -
  have "List.find (\<lambda>w. w_ticket w = w_ticket me) (waits s) = Some me"
    using assms
  proof (induction "waits s" arbitrary: s)
    case (Cons a as)
    from Cons(1) [of "s\<lparr>waits := as\<rparr>"] Cons(2-) show ?case
      by (auto simp flip: Cons(2) simp: image_iff)
  qed simp
  then show ?thesis by (auto simp: is_turn_def list_all_iff)
qed

text \<open>
  Who goes first, in the words of the scheduler's documentation: interactive before background,
  then the session that was served fewer tokens, then the one that has waited longer. A session
  that was never charged has been served nothing.
\<close>

definition tokens_served :: "inner \<Rightarrow> waiter \<Rightarrow> nat" where
  "tokens_served s w = (if w_session w \<in> dom (served s) then the (served s (w_session w)) else 0)"

inductive goes_before :: "inner \<Rightarrow> waiter \<Rightarrow> waiter \<Rightarrow> bool" for s where
  by_class: "w_class a = Interactive \<Longrightarrow> w_class b = Background \<Longrightarrow> goes_before s a b"
| by_share: "w_class a = w_class b \<Longrightarrow> tokens_served s a < tokens_served s b \<Longrightarrow> goes_before s a b"
| by_age: "w_class a = w_class b \<Longrightarrow> tokens_served s a = tokens_served s b \<Longrightarrow>
    w_ticket a < w_ticket b \<Longrightarrow> goes_before s a b"

lemma tokens_served_is_served_of: "tokens_served s w = served_of s (w_session w)"
  by (auto simp: tokens_served_def served_of_def split: option.splits)

lemma goes_before_iff_key: "goes_before s a b \<longleftrightarrow> waiter_key s a < waiter_key s b"
  by (cases "w_class a"; cases "w_class b")
     (auto simp: goes_before.simps tokens_served_is_served_of waiter_key_def less_eq_sclass_def
        less_sclass_def class_le_def)

lemma is_turn_iff_first:
  assumes "distinct (map w_ticket (waits s))"
  shows "is_turn cfg s t \<longleftrightarrow> (\<exists>me\<in>set (waits s). w_ticket me = t \<and>
    running_in_class (w_class me) (runs s) < cap_of cfg (w_class me) \<and>
    (\<forall>w\<in>set (waits s) - {me}. goes_before s me w))"
proof -
  have key: "waiter_key s me \<le> waiter_key s w \<longleftrightarrow> w = me \<or> goes_before s me w"
    if "me \<in> set (waits s)" "w \<in> set (waits s)" for me w
  proof -
    have "w = me" if "waiter_key s me = waiter_key s w"
      using that assms \<open>me \<in> _\<close> \<open>w \<in> _\<close>
      by (auto simp: waiter_key_def distinct_map dest: inj_onD)
    then show ?thesis
      by (auto simp: goes_before_iff_key order.order_iff_strict)
  qed
  show ?thesis
  proof
    assume "is_turn cfg s t"
    from is_turn_cap [OF this] obtain me where "me \<in> set (waits s)" "w_ticket me = t"
      "running_in_class (w_class me) (runs s) < cap_of cfg (w_class me)"
      "\<forall>w\<in>set (waits s). waiter_key s me \<le> waiter_key s w"
      by blast
    then show "\<exists>me\<in>set (waits s). w_ticket me = t \<and>
        running_in_class (w_class me) (runs s) < cap_of cfg (w_class me) \<and>
        (\<forall>w\<in>set (waits s) - {me}. goes_before s me w)"
      using key by blast
  next
    assume "\<exists>me\<in>set (waits s). w_ticket me = t \<and>
        running_in_class (w_class me) (runs s) < cap_of cfg (w_class me) \<and>
        (\<forall>w\<in>set (waits s) - {me}. goes_before s me w)"
    then show "is_turn cfg s t"
      using is_turn_minimal [OF assms] key by blast
  qed
qed

lemma someone_goes_first:
  assumes "distinct (map w_ticket (waits s))" and "waits s \<noteq> []"
  shows "\<exists>me\<in>set (waits s). \<forall>w\<in>set (waits s) - {me}. goes_before s me w"
proof -
  have inj: "inj_on (waiter_key s) (set (waits s))"
    using assms(1) by (auto simp: inj_on_def waiter_key_def distinct_map)
  obtain me where me: "me \<in> set (waits s)" "waiter_key s me = Min (waiter_key s ` set (waits s))"
    using Min_in [of "waiter_key s ` set (waits s)"] assms(2) by fastforce
  then have "waiter_key s me < waiter_key s w" if "w \<in> set (waits s) - {me}" for w
    using that inj_onD [OF inj] by (metis DiffE List.finite_set Min_le finite_imageI image_eqI insertI1 order_le_imp_less_or_eq)
  then show ?thesis
    using me(1) by (auto simp: goes_before_iff_key)
qed

lemma turn_gets_slot:
  assumes "is_turn cfg s (w_ticket me)"
  shows "\<exists>s' ms r. admit_poll cfg (w_ticket me) (w_session me) (w_class me) s = Some (s', ms)
    \<and> waits s' = filter (\<lambda>w. w_ticket w \<noteq> w_ticket me) (waits s)
    \<and> r \<in> set (runs s') \<and> r_ticket r = w_ticket me \<and> r_session r = w_session me
    \<and> r_class r = w_class me \<and> \<not> r_paused r"
  using assms by (cases "w_class me") (auto simp: admit_poll_def Let_def intro!: exI)

text \<open>
  C15. The next free slot. A waiter has its turn exactly when fewer than its class's maximum of
  that class are running and it goes before every other waiter: interactive before background,
  then the session served fewer tokens, then the longer wait. Whenever anyone waits there is
  one who goes before all others; if its class has room, it and no one else has its turn, and
  its next pass of the loop takes it off the queue and gives it the slot, in its class. Tokens
  charged to a session count against that session and no other.
\<close>

theorem slot_goes_to_most_deserving:
  assumes "slot_inv cfg s"
  shows "(\<forall>t. is_turn cfg s t \<longleftrightarrow> (\<exists>me\<in>set (waits s). w_ticket me = t \<and>
        length (filter (\<lambda>r. r_class r = w_class me) (runs s))
          < (if w_class me = Interactive then max_interactive cfg else max_background cfg) \<and>
        (\<forall>w\<in>set (waits s) - {me}. goes_before s me w)))
    \<and> (waits s \<noteq> [] \<longrightarrow> (\<exists>me\<in>set (waits s). (\<forall>w\<in>set (waits s) - {me}. goes_before s me w) \<and>
        (length (filter (\<lambda>r. r_class r = w_class me) (runs s))
            < (if w_class me = Interactive then max_interactive cfg else max_background cfg) \<longrightarrow>
         (\<forall>t. is_turn cfg s t \<longleftrightarrow> t = w_ticket me) \<and>
         (\<exists>s' ms r. admit_poll cfg (w_ticket me) (w_session me) (w_class me) s = Some (s', ms)
            \<and> waits s' = filter (\<lambda>w. w_ticket w \<noteq> w_ticket me) (waits s)
            \<and> r \<in> set (runs s') \<and> r_ticket r = w_ticket me \<and> r_session r = w_session me
            \<and> r_class r = w_class me \<and> \<not> r_paused r))))
    \<and> (\<forall>now u n w. tokens_served (charge now u n s) w
        = (if w_session w = u then (tokens_served s w + n) mod U64 else tokens_served s w))"
proof (intro conjI allI impI)
  have d: "distinct (map w_ticket (waits s))" using assms(1) by (simp add: slot_inv_def tickets_def)
  have cap: "cap_of cfg c = (if c = Interactive then max_interactive cfg else max_background cfg)" for c
    by (cases c) (simp_all add: cap_of_def)
  show turn: "is_turn cfg s t \<longleftrightarrow> (\<exists>me\<in>set (waits s). w_ticket me = t \<and>
        length (filter (\<lambda>r. r_class r = w_class me) (runs s))
          < (if w_class me = Interactive then max_interactive cfg else max_background cfg) \<and>
        (\<forall>w\<in>set (waits s) - {me}. goes_before s me w))" for t
    using is_turn_iff_first [OF d] by (simp add: cap running_in_class_def)
  assume "waits s \<noteq> []"
  then obtain me where me: "me \<in> set (waits s)" "\<forall>w\<in>set (waits s) - {me}. goes_before s me w"
    using someone_goes_first [OF d] by blast
  have only: "is_turn cfg s t \<longleftrightarrow> t = w_ticket me"
    if "running_in_class (w_class me) (runs s) < cap_of cfg (w_class me)" for t
  proof
    assume "is_turn cfg s t"
    then obtain w where "w \<in> set (waits s)" "w_ticket w = t" "\<forall>v\<in>set (waits s) - {w}. goes_before s w v"
      using is_turn_iff_first [OF d] by blast
    then show "t = w_ticket me"
      using me by (metis Diff_iff goes_before_iff_key order_less_asym singletonD)
  qed (use is_turn_iff_first [OF d] me that in blast)
  show "\<exists>me\<in>set (waits s). (\<forall>w\<in>set (waits s) - {me}. goes_before s me w) \<and>
        (length (filter (\<lambda>r. r_class r = w_class me) (runs s))
            < (if w_class me = Interactive then max_interactive cfg else max_background cfg) \<longrightarrow>
         (\<forall>t. is_turn cfg s t \<longleftrightarrow> t = w_ticket me) \<and>
         (\<exists>s' ms r. admit_poll cfg (w_ticket me) (w_session me) (w_class me) s = Some (s', ms)
            \<and> waits s' = filter (\<lambda>w. w_ticket w \<noteq> w_ticket me) (waits s)
            \<and> r \<in> set (runs s') \<and> r_ticket r = w_ticket me \<and> r_session r = w_session me
            \<and> r_class r = w_class me \<and> \<not> r_paused r))"
  proof (rule bexI [OF _ me(1)], rule conjI [OF me(2)], rule impI)
    assume "length (filter (\<lambda>r. r_class r = w_class me) (runs s))
            < (if w_class me = Interactive then max_interactive cfg else max_background cfg)"
    then have "\<And>t. is_turn cfg s t \<longleftrightarrow> t = w_ticket me"
      using only by (simp add: cap running_in_class_def)
    then show "(\<forall>t. is_turn cfg s t \<longleftrightarrow> t = w_ticket me) \<and>
         (\<exists>s' ms r. admit_poll cfg (w_ticket me) (w_session me) (w_class me) s = Some (s', ms)
            \<and> waits s' = filter (\<lambda>w. w_ticket w \<noteq> w_ticket me) (waits s)
            \<and> r \<in> set (runs s') \<and> r_ticket r = w_ticket me \<and> r_session r = w_session me
            \<and> r_class r = w_class me \<and> \<not> r_paused r)"
      using turn_gets_slot [of cfg s me] by simp
  qed
next
  fix now u n w
  show "tokens_served (charge now u n s) w
        = (if w_session w = u then (tokens_served s w + n) mod U64 else tokens_served s w)"
    by (simp add: tokens_served_is_served_of served_of_def charge_def u64_add_def)
qed

theorem slot_goes_to_most_deserving_witness:
  "is_turn (scheduler_new 2 1 0)
     (charge 0 ''a'' 5 (snd (admit_enqueue ''b'' Background (snd (admit_enqueue ''a'' Background inner_new))))) 2"
proof -
  let ?s = "charge 0 ''a'' 5 (snd (admit_enqueue ''b'' Background (snd (admit_enqueue ''a'' Background inner_new))))"
  have inv: "slot_inv (scheduler_new 2 1 0) ?s"
    by (simp add: slot_inv_def tickets_def admit_enqueue_def inner_new_def u64_add_def
        running_in_class_def pause_inv_def charge_def)
  let ?a = "\<lparr>w_ticket = 1, w_session = ''a'', w_class = Background\<rparr>"
  let ?b = "\<lparr>w_ticket = 2, w_session = ''b'', w_class = Background\<rparr>"
  have "waits ?s = [?a, ?b]" "runs ?s = []"
    by (simp_all add: charge_def admit_enqueue_def inner_new_def u64_add_def)
  moreover have "goes_before ?s ?b ?a"
    by (rule by_share)
       (simp_all add: tokens_served_def charge_def served_of_def admit_enqueue_def inner_new_def u64_add_def)
  moreover have "0 < max_background (scheduler_new 2 1 0)"
    by (simp add: scheduler_new_def)
  ultimately show ?thesis
    using conjunct1 [OF slot_goes_to_most_deserving [OF inv], rule_format, of 2] by auto
qed

definition last_order :: "string \<Rightarrow> nat \<Rightarrow> preempt list \<Rightarrow> bool option" where
  "last_order b q ms =
     fold (\<lambda>m acc. case m of SetPaused b' q' p \<Rightarrow> if b' = b \<and> q' = q then Some p else acc
                   | DropCache _ _ \<Rightarrow> acc) ms None"

definition slot_world :: "running list \<Rightarrow> waiter list \<Rightarrow> nat \<Rightarrow> (nat \<times> preempt list) list \<Rightarrow>
  preempt list \<Rightarrow> world" where
  "slot_world rs ws n out ms =
     \<lparr>st = \<lparr>runs = rs, waits = ws, served = Map.empty, kv = [], kv_used = 0, next_ticket = n\<rparr>,
      outbox = out, sent = ms\<rparr>"

definition batch_run :: "string option \<Rightarrow> bool \<Rightarrow> running" where
  "batch_run b p = \<lparr>r_ticket = 1, r_session = ''batch'', r_class = Background,
     r_backend = b, r_req_id = (if b = None then None else Some 1), r_paused = p\<rparr>"

definition chat_run :: "nat \<Rightarrow> string \<Rightarrow> running" where
  "chat_run t u = \<lparr>r_ticket = t, r_session = u, r_class = Interactive,
     r_backend = None, r_req_id = None, r_paused = False\<rparr>"

lemmas race_defs = slot_world_def batch_run_def chat_run_def quiet_def post_def admit_enqueue_def
  admit_poll_def is_turn_def running_in_class_def cap_of_def scheduler_new_def waiter_key_def
  served_of_def attach_def release_def interactive_running_def pause_messages_def u64_add_def

lemma enqueueI: "quiet tid w \<Longrightarrow> next_ticket (st w) + 1 < U64 \<Longrightarrow>
  w' = w\<lparr>st := snd (admit_enqueue u c (st w))\<rparr> \<Longrightarrow> sched_step cfg w w'"
  using step_enqueue by blast

lemma pollI: "quiet tid w \<Longrightarrow> \<lparr>w_ticket = t, w_session = u, w_class = c\<rparr> \<in> set (waits (st w)) \<Longrightarrow>
  admit_poll cfg t u c (st w) \<noteq> None \<Longrightarrow> w' = post tid (the (admit_poll cfg t u c (st w))) w \<Longrightarrow>
  sched_step cfg w w'"
  using step_poll by fastforce

lemma attachI: "quiet tid w \<Longrightarrow> w' = post tid (attach t b q (st w)) w \<Longrightarrow> sched_step cfg w w'"
  using step_attach by blast

lemma releaseI: "quiet tid w \<Longrightarrow> w' = post tid (release t (st w)) w \<Longrightarrow> sched_step cfg w w'"
  using step_release by blast

lemma sendI: "outbox w = xs @ (tid, m # ms) # ys \<Longrightarrow>
  w' = w\<lparr>outbox := xs @ (if ms = [] then [] else [(tid, ms)]) @ ys, sent := sent w @ [m]\<rparr> \<Longrightarrow>
  sched_step cfg w w'"
  using step_send by metis

lemma race_steps:
  defines "cfg \<equiv> scheduler_new 1 1 1000"
    and "pause \<equiv> SetPaused ''mock'' 1 True" and "resume \<equiv> SetPaused ''mock'' 1 False"
    and "W c u t \<equiv> \<lparr>w_ticket = t, w_session = u, w_class = c\<rparr>"
  shows
    "sched_step cfg world_new (slot_world [] [W Background ''batch'' 1] 2 [] [])"
    "sched_step cfg (slot_world [] [W Background ''batch'' 1] 2 [] [])
       (slot_world [batch_run None False] [] 2 [] [])"
    "sched_step cfg (slot_world [batch_run None False] [] 2 [] [])
       (slot_world [batch_run (Some ''mock'') False] [] 2 [] [])"
    "sched_step cfg (slot_world [batch_run (Some ''mock'') False] [] 2 [] [])
       (slot_world [batch_run (Some ''mock'') False] [W Interactive ''chat'' 2] 3 [] [])"
    "sched_step cfg (slot_world [batch_run (Some ''mock'') False] [W Interactive ''chat'' 2] 3 [] [])
       (slot_world [batch_run (Some ''mock'') True, chat_run 2 ''chat''] [] 3 [(2, [pause])] [])"
    "sched_step cfg
       (slot_world [batch_run (Some ''mock'') True, chat_run 2 ''chat''] [] 3 [(2, [pause])] [])
       (slot_world [batch_run (Some ''mock'') True, chat_run 2 ''chat''] [] 3 [] [pause])"
    "sched_step cfg (slot_world [batch_run (Some ''mock'') True, chat_run 2 ''chat''] [] 3 [] [pause])
       (slot_world [batch_run (Some ''mock'') True, chat_run 2 ''chat''] [W Interactive ''edit'' 3] 4 [] [pause])"
    "sched_step cfg
       (slot_world [batch_run (Some ''mock'') True, chat_run 2 ''chat''] [W Interactive ''edit'' 3] 4 [] [pause])
       (slot_world [batch_run (Some ''mock'') False] [W Interactive ''edit'' 3] 4 [(2, [resume])] [pause])"
    "sched_step cfg
       (slot_world [batch_run (Some ''mock'') False] [W Interactive ''edit'' 3] 4 [(2, [resume])] [pause])
       (slot_world [batch_run (Some ''mock'') True, chat_run 3 ''edit''] [] 4
          [(2, [resume]), (3, [pause])] [pause])"
    "sched_step cfg
       (slot_world [batch_run (Some ''mock'') True, chat_run 3 ''edit''] [] 4
          [(2, [resume]), (3, [pause])] [pause])
       (slot_world [batch_run (Some ''mock'') True, chat_run 3 ''edit''] [] 4 [(2, [resume])] [pause, pause])"
    "sched_step cfg
       (slot_world [batch_run (Some ''mock'') True, chat_run 3 ''edit''] [] 4 [(2, [resume])] [pause, pause])
       (slot_world [batch_run (Some ''mock'') True, chat_run 3 ''edit''] [] 4 [] [pause, pause, resume])"
  unfolding cfg_def pause_def resume_def W_def
  subgoal by (rule enqueueI [of 1 _ _ "''batch''" Background]) (simp_all add: race_defs world_new_def inner_new_def)
  subgoal by (rule pollI [of 1 _ 1 "''batch''" Background]) (simp_all add: race_defs world_new_def inner_new_def)
  subgoal by (rule attachI [of 1 _ _ 1 "''mock''" 1]) (simp_all add: race_defs world_new_def inner_new_def)
  subgoal by (rule enqueueI [of 2 _ _ "''chat''" Interactive]) (simp_all add: race_defs world_new_def inner_new_def)
  subgoal by (rule pollI [of 2 _ 2 "''chat''" Interactive]) (simp_all add: race_defs world_new_def inner_new_def)
  subgoal by (rule sendI [of _ "[]" 2 "SetPaused ''mock'' 1 True" "[]" "[]"]) (simp_all add: race_defs world_new_def inner_new_def)
  subgoal by (rule enqueueI [of 3 _ _ "''edit''" Interactive]) (simp_all add: race_defs world_new_def inner_new_def)
  subgoal by (rule releaseI [of 2 _ _ 2]) (simp_all add: race_defs world_new_def inner_new_def)
  subgoal by (rule pollI [of 3 _ 3 "''edit''" Interactive]) (simp_all add: race_defs world_new_def inner_new_def)
  subgoal by (rule sendI [of _ "[(2, [SetPaused ''mock'' 1 False])]" 3 "SetPaused ''mock'' 1 True" "[]" "[]"]) (simp_all add: race_defs world_new_def inner_new_def)
  subgoal by (rule sendI [of _ "[]" 2 "SetPaused ''mock'' 1 False" "[]" "[]"]) (simp_all add: race_defs world_new_def inner_new_def)
  done

text \<open>
  Messages can overtake each other. The pause and resume orders are sent after the lock
  is dropped, so a resume decided before an interactive request was admitted can reach the
  backend after the pause decided at its admission. Nothing is then in flight, interactive
  work runs, the scheduler holds the background request paused, and the last order its
  backend received for it was to resume.
\<close>

theorem pause_orders_can_be_overtaken:
  "\<exists>w r. (sched_step (scheduler_new 1 1 1000))\<^sup>*\<^sup>* world_new w
     \<and> outbox w = [] \<and> r \<in> set (runs (st w)) \<and> interactive_running (runs (st w))
     \<and> r_class r = Background \<and> r_paused r
     \<and> r_backend r = Some ''mock'' \<and> r_req_id r = Some 1
     \<and> last_order ''mock'' 1 (sent w) = Some False"
proof -
  let ?w = "slot_world [batch_run (Some ''mock'') True, chat_run 3 ''edit''] [] 4 []
    [SetPaused ''mock'' 1 True, SetPaused ''mock'' 1 True, SetPaused ''mock'' 1 False]"
  have "(sched_step (scheduler_new 1 1 1000))\<^sup>*\<^sup>* world_new ?w"
    using race_steps by (meson converse_rtranclp_into_rtranclp rtranclp.rtrancl_refl)
  moreover have "batch_run (Some ''mock'') True \<in> set (runs (st ?w))"
    "interactive_running (runs (st ?w))" "last_order ''mock'' 1 (sent ?w) = Some False"
    "outbox ?w = []" "r_class (batch_run (Some ''mock'') True) = Background"
    "r_paused (batch_run (Some ''mock'') True)"
    "r_backend (batch_run (Some ''mock'') True) = Some ''mock''"
    "r_req_id (batch_run (Some ''mock'') True) = Some 1"
    by (simp_all add: slot_world_def interactive_running_def chat_run_def last_order_def batch_run_def)
  ultimately show ?thesis by blast
qed

end
