(* ===== verification/Messages.thy ===== *)
theory Messages
  imports Rust_Text
begin

text \<open>
  The messages of the two protocols, with the constructors and fields of the sources:
  the client protocol of \<open>crates/ai-daemon-proto/src/frame.rs\<close> and the backend protocol of
  \<open>crates/ai-daemon-proto/src/backend.rs\<close>. Single precision numbers are only carried, never
  computed with, so they are their 32 bits; JSON values keep numbers as their text.
\<close>

type_synonym f32 = "32 word"

datatype json =
    JNull
  | JBool bool
  | JNum string
  | JStr string
  | JArr "json list"
  | JObj "(string \<times> json) list"

text \<open>The accessors of \<open>serde_json::Value\<close>.\<close>

fun jget :: "string \<Rightarrow> json \<Rightarrow> json option" where
  "jget k (JObj kvs) = map_of kvs k"
| "jget k _ = None"

fun jstr :: "json \<Rightarrow> string option" where "jstr (JStr s) = Some s" | "jstr _ = None"
fun jarr :: "json \<Rightarrow> json list option" where "jarr (JArr xs) = Some xs" | "jarr _ = None"
fun jbool :: "json \<Rightarrow> bool option" where "jbool (JBool b) = Some b" | "jbool _ = None"
fun jobj :: "json \<Rightarrow> (string \<times> json) list option" where "jobj (JObj kvs) = Some kvs" | "jobj _ = None"
fun ju64 :: "json \<Rightarrow> nat option" where "ju64 (JNum t) = parse_u64 t" | "ju64 _ = None"

definition jfield :: "(json \<Rightarrow> 'a option) \<Rightarrow> string \<Rightarrow> json \<Rightarrow> 'a option" where
  "jfield conv k v = Option.bind (jget k v) conv"

definition DATA_PROTO :: nat where "DATA_PROTO = 2"
definition MIN_DATA_PROTO :: nat where "MIN_DATA_PROTO = 1"
definition BACKEND_PROTO :: nat where "BACKEND_PROTO = 2"
definition MIN_BACKEND_PROTO :: nat where "MIN_BACKEND_PROTO = 1"

subsection \<open>Shared parts\<close>

record message =
  msg_role :: string
  msg_content :: string
  msg_attachments :: "string list"
  msg_tool_call_id :: "string option"

record params =
  temperature :: "f32 option"
  top_p :: "f32 option"
  seed :: "nat option"
  max_tokens :: "nat option"
  stop :: "string list option"
  top_k :: "nat option"
  min_p :: "f32 option"
  repeat_penalty :: "f32 option"
  logit_bias :: "(nat \<times> f32) list"
  logprobs :: "nat option"

definition default_params :: params where
  "default_params =
     \<lparr> temperature = None, top_p = None, seed = None, max_tokens = None, stop = None, top_k = None,
       min_p = None, repeat_penalty = None, logit_bias = [], logprobs = None \<rparr>"

record tool_schema =
  tool_name :: string
  tool_description :: string
  tool_json_schema :: json

datatype attach_kind = Attach_Image | Attach_Audio

record attach_meta =
  am_w :: "nat option"
  am_h :: "nat option"
  am_fmt :: "string option"
  am_rate :: "nat option"
  am_encoded :: "string option"

record tool_result_item =
  tr_id :: string
  tr_content :: string

datatype media_kind = Media_Image | Media_Audio

fun media_as_str :: "media_kind \<Rightarrow> string" where
  "media_as_str Media_Image = ''image''"
| "media_as_str Media_Audio = ''audio''"

fun media_capability :: "media_kind \<Rightarrow> string" where
  "media_capability Media_Image = ''image-out''"
| "media_capability Media_Audio = ''audio-out''"

record tool_call =
  tc_id :: string
  tc_name :: string
  tc_arguments :: string

record usage_counts =
  prompt_tokens :: nat
  completion_tokens :: nat
  attachment_tokens :: nat
  media_bytes :: nat

definition no_usage :: usage_counts where
  "no_usage = \<lparr> prompt_tokens = 0, completion_tokens = 0, attachment_tokens = 0, media_bytes = 0 \<rparr>"

record session_info =
  si_session :: string
  si_model :: string
  si_identity :: string
  si_local :: bool
  si_capabilities :: "string list"
  si_max_context :: nat

record token_prob =
  tp_tok :: string
  tp_logprob :: f32

record media_out =
  mo_id :: string
  mo_kind :: media_kind
  mo_w :: "nat option"
  mo_h :: "nat option"
  mo_fmt :: "string option"
  mo_rate :: "nat option"
  mo_len :: nat

record error_body =
  err_code :: string
  err_message :: string

subsection \<open>Client protocol\<close>

datatype request =
    Hello nat
  | Attach string attach_kind attach_meta nat
  | Generate "message list" bool "params option" "string option" "tool_schema list option"
  | ToolResult string string
  | Embed "string list"
  | Tokenize string
  | Cancel
  | ToolResults "tool_result_item list"
  | GenerateMedia media_kind string "params option" nat

datatype event =
    Ev_Hello bool nat session_info
  | Ev_Token string "token_prob list option"
  | Ev_ToolCall tool_call
  | Ev_ToolCalls "tool_call list"
  | Ev_Media media_out
  | Ev_Vectors "f32 list list"
  | Ev_Tokens "nat list"
  | Ev_Notice string string
  | Ev_Done bool usage_counts "string option"
  | Ev_Error error_body

definition event_error :: "string \<Rightarrow> string \<Rightarrow> event" where
  "event_error cd msg = Ev_Error \<lparr> err_code = cd, err_message = msg \<rparr>"

subsection \<open>Backend protocol\<close>

record backend_info =
  bi_name :: string
  bi_version :: string
  bi_formats :: "string list"
  bi_quantizations :: "string list"
  bi_devices :: "string list"
  bi_device_memory :: "nat option"
  bi_capabilities :: "string list"
  bi_local :: bool

record raw_attachment =
  ra_id :: string
  ra_kind :: string
  ra_w :: "nat option"
  ra_h :: "nat option"
  ra_fmt :: "string option"
  ra_rate :: "nat option"
  ra_data :: "byte list"

datatype backend_request =
    B_Hello nat
  | B_Load string string string nat
  | B_Unload string
  | B_Generate nat string string "message list" params "string option" "tool_schema list option" bool
      "raw_attachment list"
  | B_Embed nat string "string list"
  | B_GenerateMedia nat string string media_kind string params nat
  | B_Tokenize nat string string
  | B_Cancel nat
  | B_Pause nat
  | B_Resume nat
  | B_DropCache string
  | B_Shutdown

datatype backend_event =
    BE_Hello nat backend_info
  | BE_Loaded string nat nat
  | BE_Unloaded string
  | BE_Token nat string "token_prob list option"
  | BE_ToolCall nat tool_call
  | BE_ToolCalls nat "tool_call list"
  | BE_Media nat media_kind "nat option" "nat option" "string option" "nat option" "byte list"
  | BE_Vectors nat "f32 list list"
  | BE_Tokens nat "nat list"
  | BE_Done nat usage_counts "string option"
  | BE_Error "nat option" string string

end
