(* ===== verification/F64.thy ===== *)
theory F64
  imports Prelude Complex_Main
begin

text \<open>
  IEEE 754 double precision, as far as the policy engine uses it: a value is a finite rational,
  an infinity or not-a-number, and every operation is the exact one followed by rounding to
  nearest, ties to even, with 53 bits of precision, gradual underflow and overflow to infinity.
  The sign of a zero is not kept: nothing in the modelled code can observe it.
\<close>

datatype f64 = Fin rat | PosInf | NegInf | NaN

fun bitlen :: "nat \<Rightarrow> nat" where
  "bitlen n = (if n = 0 then 0 else Suc (bitlen (n div 2)))"

declare bitlen.simps [simp del]

definition pow2 :: "int \<Rightarrow> rat" where
  "pow2 k = (if 0 \<le> k then 2 ^ nat k else 1 / 2 ^ nat (- k))"

text \<open>The exponent of the leading bit of a positive rational.\<close>

definition floor_log2 :: "rat \<Rightarrow> int" where
  "floor_log2 x =
     (case quotient_of x of (p, q) \<Rightarrow>
        let k = int (bitlen (nat p)) - int (bitlen (nat q))
        in if pow2 k \<le> x then k else k - 1)"

definition round_half_even :: "rat \<Rightarrow> int" where
  "round_half_even y =
     (let f = \<lfloor>y\<rfloor>; d = y - of_int f
      in if d < 1 / 2 then f else if 1 / 2 < d then f + 1 else if even f then f else f + 1)"

definition round64 :: "rat \<Rightarrow> f64" where
  "round64 x =
     (if x = 0 then Fin 0
      else
        let a = \<bar>x\<bar>; e = max (floor_log2 a - 52) (- 1074);
            v = of_int (round_half_even (a / pow2 e)) * pow2 e
        in if 2 ^ 1024 \<le> v then (if 0 < x then PosInf else NegInf)
           else Fin (if 0 < x then v else - v))"

definition f_of_nat :: "nat \<Rightarrow> f64" where
  "f_of_nat n = round64 (of_nat n)"

fun f_neg :: "f64 \<Rightarrow> f64" where
  "f_neg (Fin x) = Fin (- x)"
| "f_neg PosInf = NegInf"
| "f_neg NegInf = PosInf"
| "f_neg NaN = NaN"

fun f_add :: "f64 \<Rightarrow> f64 \<Rightarrow> f64" where
  "f_add (Fin x) (Fin y) = round64 (x + y)"
| "f_add NaN _ = NaN"
| "f_add _ NaN = NaN"
| "f_add PosInf NegInf = NaN"
| "f_add NegInf PosInf = NaN"
| "f_add PosInf _ = PosInf"
| "f_add _ PosInf = PosInf"
| "f_add NegInf _ = NegInf"
| "f_add _ NegInf = NegInf"

definition f_sub :: "f64 \<Rightarrow> f64 \<Rightarrow> f64" where
  "f_sub x y = f_add x (f_neg y)"

definition inf_of :: "bool \<Rightarrow> f64" where
  "inf_of pos = (if pos then PosInf else NegInf)"

fun f_mul :: "f64 \<Rightarrow> f64 \<Rightarrow> f64" where
  "f_mul (Fin x) (Fin y) = round64 (x * y)"
| "f_mul NaN _ = NaN"
| "f_mul _ NaN = NaN"
| "f_mul (Fin x) y = (if x = 0 then NaN else inf_of ((0 < x) = (y = PosInf)))"
| "f_mul x (Fin y) = (if y = 0 then NaN else inf_of ((0 < y) = (x = PosInf)))"
| "f_mul x y = inf_of (x = y)"

text \<open>Division by a finite non-zero constant is all the code has.\<close>

fun f_div_const :: "f64 \<Rightarrow> rat \<Rightarrow> f64" where
  "f_div_const (Fin x) y = round64 (x / y)"
| "f_div_const PosInf y = inf_of (0 < y)"
| "f_div_const NegInf y = inf_of (y < 0)"
| "f_div_const NaN y = NaN"

fun f_le :: "f64 \<Rightarrow> f64 \<Rightarrow> bool" where
  "f_le (Fin x) (Fin y) = (x \<le> y)"
| "f_le NaN _ = False"
| "f_le _ NaN = False"
| "f_le NegInf _ = True"
| "f_le _ PosInf = True"
| "f_le _ _ = False"

text \<open>\<open>f64::min\<close> returns the other argument when one is not a number.\<close>

definition f_min :: "f64 \<Rightarrow> f64 \<Rightarrow> f64" where
  "f_min x y = (if x = NaN then y else if y = NaN then x else if f_le x y then x else y)"

definition f_max :: "f64 \<Rightarrow> f64 \<Rightarrow> f64" where
  "f_max x y = (if x = NaN then y else if y = NaN then x else if f_le x y then y else x)"

fun is_finite :: "f64 \<Rightarrow> bool" where
  "is_finite (Fin _) = True"
| "is_finite _ = False"

fun f_ceil :: "f64 \<Rightarrow> f64" where
  "f_ceil (Fin x) = Fin (of_int \<lceil>x\<rceil>)"
| "f_ceil x = x"

text \<open>\<open>f64::round\<close>: to the nearest integer, halves away from zero.\<close>

fun f_round :: "f64 \<Rightarrow> f64" where
  "f_round (Fin x) = Fin (of_int (if 0 \<le> x then \<lfloor>x + 1 / 2\<rfloor> else \<lceil>x - 1 / 2\<rceil>))"
| "f_round x = x"

text \<open>A cast to \<open>u64\<close> truncates and saturates, and not-a-number becomes zero.\<close>

fun f_to_u64 :: "f64 \<Rightarrow> nat" where
  "f_to_u64 (Fin x) = (if x \<le> 0 then 0 else min (nat \<lfloor>x\<rfloor>) (U64 - 1))"
| "f_to_u64 PosInf = U64 - 1"
| "f_to_u64 _ = 0"

text \<open>\<open>Duration::as_secs_f64\<close>, of a duration in nanoseconds.\<close>

definition as_secs_f64 :: "nat \<Rightarrow> f64" where
  "as_secs_f64 ns =
     f_add (f_of_nat (ns div 1000000000)) (f_div_const (f_of_nat (ns mod 1000000000)) 1000000000)"

subsection \<open>Facts\<close>

definition nonneg :: "f64 \<Rightarrow> bool" where
  "nonneg x \<longleftrightarrow> f_le (Fin 0) x"

lemma nonneg_simps [simp]:
  "nonneg (Fin x) = (0 \<le> x)" "nonneg PosInf" "\<not> nonneg NegInf" "\<not> nonneg NaN"
  by (simp_all add: nonneg_def)

lemma pow2_pos [simp]: "0 < pow2 k"
  by (simp add: pow2_def)

lemma round_half_even_nonneg: "0 \<le> y \<Longrightarrow> 0 \<le> round_half_even y"
  by (simp add: round_half_even_def Let_def)

lemma round_half_even_int [simp]: "round_half_even (of_int i) = i"
  by (simp add: round_half_even_def)

lemma round64_nonneg:
  assumes "0 \<le> x"
  shows "nonneg (round64 x)"
proof -
  have "0 \<le> of_int (round_half_even (x / pow2 e)) * pow2 e" for e
    using round_half_even_nonneg[OF divide_nonneg_pos[OF assms pow2_pos]] pow2_pos[of e]
    by (intro mult_nonneg_nonneg) (simp_all add: less_imp_le)
  then show ?thesis
    using assms by (auto simp: round64_def Let_def)
qed

lemma f_of_nat_nonneg [simp]: "nonneg (f_of_nat n)"
  by (simp add: f_of_nat_def round64_nonneg)

lemma f_add_nonneg: "nonneg x \<Longrightarrow> nonneg y \<Longrightarrow> nonneg (f_add x y)"
  by (cases x; cases y) (auto intro: round64_nonneg)

lemma f_div_const_nonneg: "nonneg x \<Longrightarrow> 0 < c \<Longrightarrow> nonneg (f_div_const x c)"
  by (cases x) (auto simp: inf_of_def intro: round64_nonneg divide_nonneg_pos)

lemma as_secs_f64_nonneg [simp]: "nonneg (as_secs_f64 ns)"
  by (simp add: as_secs_f64_def f_add_nonneg f_div_const_nonneg)

lemma bitlen_bounds: "0 < n \<Longrightarrow> 2 ^ (bitlen n - 1) \<le> n \<and> n < 2 ^ bitlen n \<and> 0 < bitlen n"
proof (induction n rule: bitlen.induct)
  case (1 n)
  show ?case
  proof (cases "n = 1")
    case True
    then show ?thesis
      by (simp add: bitlen.simps)
  next
    case False
    with 1 have ih: "2 ^ (bitlen (n div 2) - 1) \<le> n div 2" "n div 2 < 2 ^ bitlen (n div 2)"
      "0 < bitlen (n div 2)"
      by auto
    obtain b where b: "bitlen (n div 2) = Suc b"
      using ih(3) by (cases "bitlen (n div 2)") auto
    have "bitlen n = Suc (Suc b)"
      using 1(2) b by (subst bitlen.simps) simp
    moreover have "2 * 2 ^ b \<le> n \<and> n < 4 * 2 ^ b"
      using ih(1,2) unfolding b by simp linarith
    ultimately show ?thesis
      by simp
  qed
qed

subsection \<open>Representable numbers\<close>

text \<open>A non-negative number with a 53-bit significand; those below \<open>2 ^ 1024\<close> are the doubles.\<close>

definition representable :: "rat \<Rightarrow> bool" where
  "representable v \<longleftrightarrow> (\<exists>m e. v = of_nat m * pow2 e \<and> m < 2 ^ 53 \<and> - 1074 \<le> e)"

lemma pow2_powi: "pow2 k = 2 powi k"
  by (simp add: pow2_def power_int_def power_one_over inverse_eq_divide)

lemma pow2_nonzero [simp]: "pow2 k \<noteq> 0"
  by (simp add: pow2_def)

lemma pow2_add: "pow2 (a + b) = pow2 a * pow2 b"
  by (simp add: pow2_powi power_int_add)

lemma pow2_mono: "a \<le> b \<Longrightarrow> pow2 a \<le> pow2 b"
  by (simp add: pow2_powi power_int_increasing)

lemma pow2_less_cancel: "pow2 a < pow2 b \<Longrightarrow> a < b"
  using pow2_mono[of b a] by (cases "b \<le> a") auto

lemma pow2_nat: "pow2 (int n) = 2 ^ n"
  by (simp add: pow2_def)

lemma pow2_diff: "pow2 (a - b) = pow2 a / pow2 b"
  using pow2_add[of "a - b" b] pow2_pos[of b] by (simp add: eq_divide_eq)

lemma floor_log2_bounds:
  assumes "0 < x"
  shows "pow2 (floor_log2 x) \<le> x \<and> x < pow2 (floor_log2 x + 1)"
proof -
  obtain p q where pq: "quotient_of x = (p, q)"
    by (cases "quotient_of x")
  have q: "0 < q" and x: "x = of_int p / of_int q"
    using quotient_of_denom_pos[OF pq] quotient_of_div[OF pq] by auto
  have p: "0 < p"
    using assms q unfolding x by (simp add: zero_less_divide_iff)
  have nat_bounds: "pow2 (int (bitlen (nat n)) - 1) \<le> of_int n" "of_int n < pow2 (int (bitlen (nat n)))"
    if "0 < n" for n :: int
  proof -
    have b: "2 ^ (bitlen (nat n) - 1) \<le> nat n" "nat n < 2 ^ bitlen (nat n)" "0 < bitlen (nat n)"
      using bitlen_bounds[of "nat n"] that by auto
    have n: "(of_int n :: rat) = of_nat (nat n)"
      using that by simp
    have e: "int (bitlen (nat n)) - 1 = int (bitlen (nat n) - 1)"
      using b(3) by simp
    have "(of_nat (2 ^ (bitlen (nat n) - 1)) :: rat) \<le> of_nat (nat n)"
      using b(1) of_nat_mono by blast
    then show "pow2 (int (bitlen (nat n)) - 1) \<le> of_int n"
      unfolding n e pow2_nat by simp
    have "(of_nat (nat n) :: rat) < of_nat (2 ^ bitlen (nat n))"
      using b(2) by (subst of_nat_less_iff)
    then show "of_int n < pow2 (int (bitlen (nat n)))"
      unfolding n pow2_nat by simp
  qed
  let ?bp = "int (bitlen (nat p))" and ?bq = "int (bitlen (nat q))"
  have "x < pow2 ?bp / pow2 (?bq - 1)"
    unfolding x using nat_bounds[OF p] nat_bounds[OF q] q p by (intro frac_less) auto
  then have up: "x < pow2 (?bp - ?bq + 1)"
    by (simp add: pow2_diff[symmetric] algebra_simps)
  have "pow2 (?bp - 1) / pow2 ?bq \<le> x"
    unfolding x using nat_bounds[OF p] nat_bounds[OF q] q p by (intro frac_le) (auto intro: less_imp_le)
  then have low: "pow2 (?bp - ?bq - 1) \<le> x"
    by (simp add: pow2_diff[symmetric] algebra_simps)
  show ?thesis
    using up low by (auto simp: floor_log2_def pq Let_def)
qed

lemma round64_exact:
  assumes "representable v" "v < 2 ^ 1024"
  shows "round64 v = Fin v"
proof (cases "v = 0")
  case False
  obtain m e where v: "v = of_nat m * pow2 e" and m: "m < 2 ^ 53" and e: "- 1074 \<le> e"
    using assms(1) by (auto simp: representable_def)
  have pos: "0 < v"
  proof -
    have "0 \<le> v"
      unfolding v by (intro mult_nonneg_nonneg) (auto intro: less_imp_le)
    then show ?thesis
      using False by linarith
  qed
  define e' where "e' = max (floor_log2 \<bar>v\<bar> - 52) (- 1074)"
  have "pow2 (floor_log2 v) < pow2 (53 + e)"
  proof -
    have "(of_nat m :: rat) < of_nat (2 ^ 53)"
      using m by (subst of_nat_less_iff)
    then have "v < 2 ^ 53 * pow2 e"
      unfolding v using pow2_pos[of e] by simp
    then show ?thesis
      using floor_log2_bounds[OF pos] pow2_nat[of 53] by (simp add: pow2_add)
  qed
  then have "floor_log2 v < 53 + e"
    by (rule pow2_less_cancel)
  then have "e' \<le> e"
    using e pos by (simp add: e'_def)
  then have split: "pow2 e = 2 ^ nat (e - e') * pow2 e'"
    using pow2_add[of "e - e'" e'] by (simp add: pow2_def[of "e - e'"])
  have "\<bar>v\<bar> / pow2 e' = v / pow2 e'"
    using pos by simp
  also have "\<dots> = of_int (int m * 2 ^ nat (e - e'))"
    unfolding v split by simp
  finally have scaled: "\<bar>v\<bar> / pow2 e' = of_int (int m * 2 ^ nat (e - e'))" .
  have "of_int (round_half_even (\<bar>v\<bar> / pow2 e')) * pow2 e' = of_nat m * pow2 e"
    unfolding scaled round_half_even_int split by simp
  then have "of_int (round_half_even (\<bar>v\<bar> / pow2 e')) * pow2 e' = v"
    unfolding v .
  then show ?thesis
    using False pos assms(2) unfolding round64_def Let_def e'_def[symmetric] by simp
qed (simp add: round64_def)

lemma representable_nat: "n < 2 ^ 53 \<Longrightarrow> representable (of_nat n)"
  unfolding representable_def by (rule exI[of _ n], rule exI[of _ 0]) (simp add: pow2_def)

lemma round64_exact_nat:
  assumes "n < 2 ^ 53"
  shows "round64 (of_nat n) = Fin (of_nat n)"
proof (rule round64_exact[OF representable_nat[OF assms]])
  have "(of_nat n :: rat) < of_nat (2 ^ 53)"
    using assms by (subst of_nat_less_iff)
  also have "\<dots> \<le> 2 ^ 1024"
    by simp
  finally show "(of_nat n :: rat) < 2 ^ 1024" .
qed

lemma f_of_nat_exact: "n < 2 ^ 53 \<Longrightarrow> f_of_nat n = Fin (of_nat n)"
  unfolding f_of_nat_def by (rule round64_exact_nat)

lemma round_half_even_le: "y < of_int b \<Longrightarrow> round_half_even y \<le> b"
  unfolding round_half_even_def Let_def by (auto simp: floor_less_iff[symmetric] simp del: floor_less_iff)

lemma round64_representable:
  assumes "0 \<le> x" "round64 x = Fin v"
  shows "representable v"
proof (cases "x = 0")
  case False
  then have pos: "0 < x"
    using assms(1) by simp
  let ?e = "max (floor_log2 x - 52) (- 1074)"
  let ?m = "round_half_even (x / pow2 ?e)"
  have v: "v = of_int ?m * pow2 ?e"
    using assms(2) pos by (auto simp: round64_def Let_def split: if_splits)
  have m0: "0 \<le> ?m"
    by (rule round_half_even_nonneg) (simp add: assms(1) divide_nonneg_pos)
  have "x < pow2 (?e + 53)"
  proof -
    have "floor_log2 x + 1 \<le> ?e + 53"
      by simp
    then show ?thesis
      using floor_log2_bounds[OF pos] pow2_mono less_le_trans by blast
  qed
  then have "x / pow2 ?e < 2 ^ 53"
    using pow2_pos[of ?e] by (simp add: pow2_add pos_divide_less_eq) (simp add: pow2_def mult.commute)
  then have "x / pow2 ?e < of_int (2 ^ 53)"
    by simp
  then have m1: "?m \<le> 2 ^ 53"
    by (rule round_half_even_le)
  show ?thesis
  proof (cases "?m = 2 ^ 53")
    case True
    have "pow2 (?e + 1) = 2 * pow2 ?e"
      by (simp add: pow2_add) (simp add: pow2_def)
    then have "v = of_nat (2 ^ 52) * pow2 (?e + 1)"
      unfolding v True by simp
    then show ?thesis
      unfolding representable_def by (intro exI[of _ "2 ^ 52"] exI[of _ "?e + 1"]) simp
  next
    case False
    then have "?m < 2 ^ 53"
      using m1 by simp
    then have "nat ?m < 2 ^ 53"
      using m0 by (subst nat_less_iff) auto
    moreover have "v = of_nat (nat ?m) * pow2 ?e"
      using m0 v by simp
    ultimately show ?thesis
      unfolding representable_def by (intro exI[of _ "nat ?m"] exI[of _ ?e]) simp
  qed
next
  case True
  then show ?thesis
    using assms(2) representable_nat[of 0] by (simp add: round64_def)
qed

lemma round64_finite:
  assumes "0 \<le> x" "x < 2 ^ 53"
  shows "\<exists>v. round64 x = Fin v \<and> 0 \<le> v"
proof (cases "x = 0")
  case False
  then have pos: "0 < x"
    using assms(1) by simp
  define e where "e = max (floor_log2 x - 52) (- 1074)"
  define m where "m = round_half_even (x / pow2 e)"
  have "pow2 (floor_log2 x) < pow2 53"
    using floor_log2_bounds[OF pos] assms(2) pow2_nat[of 53] by simp
  then have "floor_log2 x < 53"
    by (rule pow2_less_cancel)
  then have e: "e \<le> 0"
    by (simp add: e_def)
  have "floor_log2 x + 1 \<le> e + 53"
    by (simp add: e_def)
  then have "x < pow2 (e + 53)"
    using floor_log2_bounds[OF pos] pow2_mono less_le_trans by blast
  then have "x / pow2 e < of_int (2 ^ 53)"
    using pow2_nat[of 53] by (simp add: pow2_add pos_divide_less_eq mult.commute)
  then have "m \<le> 2 ^ 53"
    unfolding m_def by (rule round_half_even_le)
  then have "(of_int m :: rat) \<le> of_int (2 ^ 53)"
    by (simp only: of_int_le_iff)
  moreover have "pow2 e \<le> 1"
    using pow2_mono[OF e] by (simp add: pow2_def)
  ultimately have "of_int m * pow2 e \<le> 2 ^ 53 * 1"
    by (intro mult_mono) (auto intro: less_imp_le)
  also have "\<dots> < (2 :: rat) ^ 1024"
    by simp
  finally have "of_int m * pow2 e < 2 ^ 1024" .
  then have "round64 x = Fin (of_int m * pow2 e)"
    using pos unfolding round64_def Let_def by (simp add: e_def[symmetric] m_def[symmetric])
  moreover have "0 \<le> of_int m * pow2 e"
    using round64_nonneg[OF assms(1)] calculation by simp
  ultimately show ?thesis
    by simp
qed (simp add: round64_def)

lemma as_secs_f64_0 [simp]: "as_secs_f64 0 = Fin 0"
  by (simp add: as_secs_f64_def f_of_nat_def round64_def)

text \<open>Taking a whole number from a representable amount below \<open>2 ^ 53\<close> is exact.\<close>

lemma representable_sub:
  assumes "representable v" "v < 2 ^ 53" "of_nat n \<le> v"
  shows "representable (v - of_nat n)"
proof -
  obtain m e where v: "v = of_nat m * pow2 e" and m: "m < 2 ^ 53" and e: "- 1074 \<le> e"
    using assms(1) by (auto simp: representable_def)
  show ?thesis
  proof (cases "0 \<le> e")
    case True
    define w where "w = m * 2 ^ nat e"
    have w: "v = of_nat w"
      using True by (simp add: w_def v pow2_def)
    have "(of_nat w :: rat) < of_nat (2 ^ 53)" "(of_nat n :: rat) \<le> of_nat w"
      using assms(2,3) unfolding w by simp_all
    then have "n \<le> w" "w < 2 ^ 53"
      by (simp_all only: of_nat_less_iff of_nat_le_iff)
    then show ?thesis
      unfolding w using representable_nat[of "w - n"] by (simp add: of_nat_diff)
  next
    case False
    define d where "d = nat (- e)"
    have p: "pow2 e = 1 / 2 ^ d"
      using False by (simp add: pow2_def d_def)
    have "(of_nat (n * 2 ^ d) :: rat) \<le> of_nat m"
      using assms(3) unfolding v p by (simp add: field_simps)
    then have le: "n * 2 ^ d \<le> m"
      by (simp only: of_nat_le_iff)
    have "v - of_nat n = of_nat (m - n * 2 ^ d) * pow2 e"
      using le unfolding v p by (simp add: of_nat_diff field_simps)
    then show ?thesis
      unfolding representable_def using m e
      by (intro exI[of _ "m - n * 2 ^ d"] exI[of _ e]) simp
  qed
qed

end
