(* ===== verification/Config.thy ===== *)
theory Config
  imports Rust_Text F64 Frame "HOL-Library.List_Lexorder" "HOL-Library.Char_ord"
begin

text \<open>
  The configuration: \<open>crates/ai-daemon/src/config.rs\<close>. The tables are records with the fields
  and defaults of the structs, and loading is the function of the code: the main file, then
  the drop-ins in name order, merged, collapsed and validated. The TOML parser is not part of
  the repository and is an argument; so are the files. The theorems say what a loaded
  configuration guarantees and which file wins.
\<close>

subsection \<open>The tables\<close>

datatype consent = Consent_Polkit | Consent_Deny | Consent_Allow

record daemon_cfg =
  state_dir :: string
  runtime_dir :: string
  idle_exit_seconds :: nat
  model_idle_unload_seconds :: nat
  libexec_dir :: string
  backend_silence_seconds :: nat

record policy_cfg =
  p_consent :: consent
  gate_group :: string
  shim_user :: string
  portal_units :: "string list"
  p_max_context :: nat
  p_max_sessions :: nat
  p_tokens_per_minute :: nat
  p_daily_spend :: f64
  p_prelude :: string
  p_mark_provenance :: bool
  p_allowed_models :: "string list"

record model_price =
  price_model :: string
  input_per_mtok :: f64
  output_per_mtok :: f64

record sched_cfg =
  kv_budget_bytes :: nat
  max_concurrent_interactive :: nat
  max_concurrent_background :: nat

record attach_cfg =
  max_bytes :: nat
  max_pixels :: nat
  max_samples :: nat
  max_per_session :: nat
  allow_encoded :: bool

record backend_cfg =
  be_name :: string
  be_exec :: string
  be_connect :: "string option"
  be_args :: "string list"
  be_enabled :: bool
  be_env :: "(string \<times> string) list"

record identity_rule =
  rule_identity :: string
  rule_capabilities :: "string list"
  rule_max_context :: "nat option"
  rule_max_sessions :: "nat option"
  rule_tokens_per_minute :: "nat option"
  rule_daily_spend :: "f64 option"
  rule_prelude :: "string option"
  rule_mark_provenance :: "bool option"
  rule_allowed_models :: "string list option"

record config =
  c_daemon :: daemon_cfg
  c_policy :: policy_cfg
  c_scheduler :: sched_cfg
  c_attachments :: attach_cfg
  c_aliases :: "string \<rightharpoonup> string"
  c_backends :: "backend_cfg list"
  c_prices :: "model_price list"
  c_identities :: "identity_rule list"

definition default_portal_units :: "string list" where
  "default_portal_units =
     [''xdg-desktop-portal'', ''xdg-desktop-portal-gtk'', ''xdg-desktop-portal-gnome'',
      ''xdg-desktop-portal-kde'', ''xdg-desktop-portal-lxqt'', ''xdg-desktop-portal-wlr'',
      ''xdg-desktop-portal-hyprland'', ''ai-daemon-portal'']"

definition default_daemon :: daemon_cfg where
  "default_daemon =
     \<lparr> state_dir = ''/var/lib/ai-daemon'', runtime_dir = ''/run/ai-daemon'',
       idle_exit_seconds = 900, model_idle_unload_seconds = 600,
       libexec_dir = ''/usr/lib/ai-daemon'', backend_silence_seconds = 900 \<rparr>"

definition default_policy :: policy_cfg where
  "default_policy =
     \<lparr> p_consent = Consent_Polkit, gate_group = ''ai'', shim_user = ''ai-daemon-shim'',
       portal_units = default_portal_units, p_max_context = 131072, p_max_sessions = 8,
       p_tokens_per_minute = 600000, p_daily_spend = Fin 0, p_prelude = [],
       p_mark_provenance = False, p_allowed_models = [''*''] \<rparr>"

definition default_scheduler :: sched_cfg where
  "default_scheduler =
     \<lparr> kv_budget_bytes = 2 * 1024 * 1024 * 1024, max_concurrent_interactive = 2,
       max_concurrent_background = 1 \<rparr>"

definition default_attachments :: attach_cfg where
  "default_attachments =
     \<lparr> max_bytes = 16 * 1024 * 1024, max_pixels = 4 * 1024 * 1024, max_samples = 16 * 60 * 1000,
       max_per_session = 16, allow_encoded = True \<rparr>"

definition default_config :: config where
  "default_config =
     \<lparr> c_daemon = default_daemon, c_policy = default_policy, c_scheduler = default_scheduler,
       c_attachments = default_attachments, c_aliases = Map.empty, c_backends = [],
       c_prices = [], c_identities = [] \<rparr>"

subsection \<open>Collapsing, merging, validating\<close>

text \<open>The loop of \<open>last_wins\<close>: where each key was first kept, and the slots kept so far.\<close>

fun last_wins_loop :: "('a \<Rightarrow> 'k) \<Rightarrow> 'a list \<Rightarrow> ('k \<rightharpoonup> nat) \<Rightarrow> 'a option list \<Rightarrow> 'a option list" where
  "last_wins_loop k [] positions kept = kept"
| "last_wins_loop k (item # items) positions kept =
     (case positions (k item) of
        Some posn \<Rightarrow> last_wins_loop k items positions (kept[posn := Some item])
      | None \<Rightarrow> last_wins_loop k items (positions(k item \<mapsto> length kept)) (kept @ [Some item]))"

definition last_wins :: "('a \<Rightarrow> 'k) \<Rightarrow> 'a list \<Rightarrow> 'a list" where
  "last_wins k items = List.map_filter id (last_wins_loop k items Map.empty [])"

definition mentions :: "string \<Rightarrow> string \<Rightarrow> bool" where
  "mentions raw table \<longleftrightarrow>
     list_ex (\<lambda>l. starts_with (''['' @ table @ '']'') (trim l)
                \<or> starts_with (''[['' @ table @ '']]'') (trim l)) (rust_lines raw)"

definition merge :: "config \<Rightarrow> config \<Rightarrow> string \<Rightarrow> config" where
  "merge self other raw =
     \<lparr> c_daemon = (if mentions raw ''daemon'' then c_daemon other else c_daemon self),
       c_policy = (if mentions raw ''policy'' then c_policy other else c_policy self),
       c_scheduler = (if mentions raw ''scheduler'' then c_scheduler other else c_scheduler self),
       c_attachments =
         (if mentions raw ''attachments'' then c_attachments other else c_attachments self),
       c_aliases =
         (if mentions raw ''aliases'' then c_aliases self ++ c_aliases other else c_aliases self),
       c_backends = c_backends self @ c_backends other,
       c_prices = c_prices self @ c_prices other,
       c_identities = c_identities self @ c_identities other \<rparr>"

datatype config_error =
    Unreadable string string
  | Unparsable string string
  | Neither_exec_nor_connect string
  | Both_exec_and_connect string
  | Args_with_connect string
  | Too_many_pixels nat
  | Too_many_samples nat

fun validate_backends :: "backend_cfg list \<Rightarrow> config_error + unit" where
  "validate_backends [] = Inr ()"
| "validate_backends (b # bs) =
     (if be_exec b = [] \<and> be_connect b = None then Inl (Neither_exec_nor_connect (be_name b))
      else if be_exec b \<noteq> [] \<and> be_connect b \<noteq> None then Inl (Both_exec_and_connect (be_name b))
      else if be_connect b \<noteq> None \<and> (be_args b \<noteq> [] \<or> be_env b \<noteq> [])
      then Inl (Args_with_connect (be_name b))
      else validate_backends bs)"

definition validate :: "config \<Rightarrow> config_error + unit" where
  "validate c =
     rbind (validate_backends (c_backends c)) (\<lambda>_.
       if MAX_ATTACHMENT_PAYLOAD < u64_sat_mul (max_pixels (c_attachments c)) 4
       then Inl (Too_many_pixels (max_pixels (c_attachments c)))
       else if MAX_ATTACHMENT_PAYLOAD < u64_sat_mul (max_samples (c_attachments c)) 4
       then Inl (Too_many_samples (max_samples (c_attachments c)))
       else Inr ())"

definition rule_for :: "config \<Rightarrow> string \<Rightarrow> identity_rule option" where
  "rule_for c identity = List.find (\<lambda>r. rule_identity r = identity) (c_identities c)"

subsection \<open>Loading\<close>

text \<open>
  The outside of a load: whether a path exists, what reading it gives (the text or the system's
  error), the names in a directory, and the TOML parser.
\<close>

record world =
  path_exists :: "string \<Rightarrow> bool"
  read_to_string :: "string \<Rightarrow> string + string"
  read_dir :: "string \<Rightarrow> string list option"
  toml_from_str :: "string \<Rightarrow> string + config"

definition extension :: "string \<Rightarrow> string option" where
  "extension name =
     (case rsplit_once ''.'' name of
        None \<Rightarrow> None
      | Some (stem, ext) \<Rightarrow> if stem = [] then None else Some ext)"

definition read_config :: "world \<Rightarrow> string \<Rightarrow> config_error + string" where
  "read_config w path =
     (case read_to_string w path of Inl e \<Rightarrow> Inl (Unreadable path e) | Inr txt \<Rightarrow> Inr txt)"

definition parse_config :: "world \<Rightarrow> string \<Rightarrow> string \<Rightarrow> config_error + config" where
  "parse_config w path txt =
     (case toml_from_str w txt of Inl e \<Rightarrow> Inl (Unparsable path e) | Inr c \<Rightarrow> Inr c)"

definition dropin_files :: "world \<Rightarrow> string \<Rightarrow> string list" where
  "dropin_files w path =
     (case read_dir w (path @ ''.d'') of
        None \<Rightarrow> []
      | Some names \<Rightarrow> map (\<lambda>n. path @ ''.d/'' @ n) (sort (filter (\<lambda>n. extension n = Some ''conf'') names)))"

fun merge_dropins :: "world \<Rightarrow> config \<Rightarrow> string list \<Rightarrow> config_error + config" where
  "merge_dropins w c [] = Inr c"
| "merge_dropins w c (file # files) =
     rbind (read_config w file) (\<lambda>txt.
     rbind (parse_config w file txt) (\<lambda>dropin.
     merge_dropins w (merge c dropin txt) files))"

definition collapse :: "config \<Rightarrow> config" where
  "collapse c =
     c\<lparr> c_backends := last_wins be_name (c_backends c),
        c_identities := last_wins rule_identity (c_identities c),
        c_prices := last_wins price_model (c_prices c) \<rparr>"

definition load :: "world \<Rightarrow> string \<Rightarrow> config_error + config" where
  "load w path =
     rbind (if path_exists w path then read_config w path else Inr []) (\<lambda>txt.
     rbind (parse_config w path txt) (\<lambda>base.
     rbind (merge_dropins w base (dropin_files w path)) (\<lambda>merged.
     let c = collapse merged
     in rbind (validate c) (\<lambda>_. Inr c))))"

subsection \<open>What collapsing does\<close>

text \<open>The specification: each key once, where it first appears, with its last item.\<close>

definition firsts :: "'k list \<Rightarrow> 'k list" where
  "firsts ks = rev (remdups (rev ks))"

definition last_with :: "('a \<Rightarrow> 'k) \<Rightarrow> 'a list \<Rightarrow> 'k \<Rightarrow> 'a" where
  "last_with k items x = last (filter (\<lambda>i. k i = x) items)"

definition last_wins_spec :: "('a \<Rightarrow> 'k) \<Rightarrow> 'a list \<Rightarrow> 'a list" where
  "last_wins_spec k items = map (last_with k items) (firsts (map k items))"

lemma firsts_snoc [simp]: "firsts (ks @ [x]) = (if x \<in> set ks then firsts ks else firsts ks @ [x])"
  by (simp add: firsts_def)

lemma set_firsts [simp]: "set (firsts ks) = set ks"
  by (simp add: firsts_def)

lemma distinct_firsts [simp]: "distinct (firsts ks)"
  by (simp add: firsts_def)

lemma firsts_Nil [simp]: "firsts [] = []"
  by (simp add: firsts_def)

lemma last_with_snoc:
  "last_with k (items @ [i]) x = (if k i = x then i else last_with k items x)"
  by (simp add: last_with_def)

text \<open>What holds of the loop's two variables after the items \<open>done\<close>.\<close>

definition slots_ok :: "('a \<Rightarrow> 'k) \<Rightarrow> 'a list \<Rightarrow> ('k \<rightharpoonup> nat) \<Rightarrow> 'a option list \<Rightarrow> bool" where
  "slots_ok k before positions kept \<longleftrightarrow>
     kept = map (\<lambda>x. Some (last_with k before x)) (firsts (map k before))
     \<and> (\<forall>i < length (firsts (map k before)). positions (firsts (map k before) ! i) = Some i)
     \<and> (\<forall>x. x \<notin> k ` set before \<longrightarrow> positions x = None)"

lemma slots_ok_known:
  assumes ok: "slots_ok k before positions kept" and posn: "positions (k item) = Some posn"
  shows "slots_ok k (before @ [item]) positions (kept[posn := Some item])"
proof -
  let ?ks = "firsts (map k before)"
  have mem: "k item \<in> k ` set before"
    using ok posn by (auto simp: slots_ok_def)
  then obtain i where i: "i < length ?ks" "?ks ! i = k item"
    by (metis in_set_conv_nth set_firsts list.set_map)
  then have at_i: "posn = i"
    using ok posn by (auto simp: slots_ok_def)
  have "kept[posn := Some item] = map (\<lambda>x. Some (last_with k (before @ [item]) x)) ?ks"
  proof (rule nth_equalityI)
    show "length (kept[posn := Some item]) = length (map (\<lambda>x. Some (last_with k (before @ [item]) x)) ?ks)"
      using ok by (simp add: slots_ok_def)
  next
    fix j
    assume "j < length (kept[posn := Some item])"
    then have j: "j < length ?ks"
      using ok by (simp add: slots_ok_def)
    have "?ks ! j = k item \<longleftrightarrow> j = i"
      using j i nth_eq_iff_index_eq[OF distinct_firsts] by metis
    then show "kept[posn := Some item] ! j = map (\<lambda>x. Some (last_with k (before @ [item]) x)) ?ks ! j"
      using ok j i at_i by (auto simp: slots_ok_def last_with_snoc nth_list_update)
  qed
  moreover have "firsts (map k (before @ [item])) = ?ks"
    using mem by auto
  ultimately show ?thesis
    using ok by (auto simp: slots_ok_def)
qed

lemma slots_ok_new:
  assumes ok: "slots_ok k before positions kept" and new: "positions (k item) = None"
  shows "slots_ok k (before @ [item]) (positions(k item \<mapsto> length kept)) (kept @ [Some item])"
proof -
  let ?ks = "firsts (map k before)"
  have fresh: "k item \<notin> k ` set before"
  proof
    assume "k item \<in> k ` set before"
    then obtain i where "i < length ?ks" "?ks ! i = k item"
      by (metis in_set_conv_nth set_firsts list.set_map)
    then show False
      using ok new by (auto simp: slots_ok_def)
  qed
  then have ks: "firsts (map k (before @ [item])) = ?ks @ [k item]"
    by auto
  have other: "x \<in> set ?ks \<Longrightarrow> k item \<noteq> x" for x
    using fresh by auto
  have len: "length kept = length ?ks"
    using ok by (simp add: slots_ok_def)
  have "kept @ [Some item] = map (\<lambda>x. Some (last_with k (before @ [item]) x)) (?ks @ [k item])"
    using ok other by (auto simp: slots_ok_def last_with_snoc)
  moreover have "(positions(k item \<mapsto> length kept)) ((?ks @ [k item]) ! i) = Some i"
    if "i < length (?ks @ [k item])" for i
  proof (cases "i < length ?ks")
    case True
    then have "k item \<noteq> ?ks ! i"
      by (intro other nth_mem)
    then show ?thesis
      using ok True by (auto simp: slots_ok_def nth_append)
  next
    case False
    then show ?thesis
      using that len by (simp add: nth_append)
  qed
  ultimately show ?thesis
    using ok unfolding slots_ok_def ks by auto
qed

lemma last_wins_loop_ok:
  "slots_ok k before positions kept
    \<Longrightarrow> last_wins_loop k items positions kept = map Some (last_wins_spec k (before @ items))"
proof (induction items arbitrary: before positions kept)
  case Nil
  then show ?case
    by (simp add: slots_ok_def last_wins_spec_def)
next
  case (Cons item items)
  show ?case
  proof (cases "positions (k item)")
    case None
    then show ?thesis
      using Cons.IH[OF slots_ok_new[OF Cons.prems None]] by (simp del: fun_upd_apply)
  next
    case (Some posn)
    then show ?thesis
      using Cons.IH[OF slots_ok_known[OF Cons.prems Some]] by simp
  qed
qed

lemma last_wins_eq_spec: "last_wins k items = last_wins_spec k items"
  using last_wins_loop_ok[of k "[]" Map.empty "[]" items]
  by (simp add: last_wins_def slots_ok_def List.map_filter_def comp_def)


lemma key_last_with: "x \<in> k ` set items \<Longrightarrow> k (last_with k items x) = x"
proof -
  assume "x \<in> k ` set items"
  then have "filter (\<lambda>i. k i = x) items \<noteq> []"
    by (auto simp: filter_empty_conv)
  then show ?thesis
    unfolding last_with_def using last_in_set by fastforce
qed

lemma last_wins_keys: "map k (last_wins k items) = firsts (map k items)"
  unfolding last_wins_eq_spec last_wins_spec_def
  by (simp add: comp_def) (rule map_idI, simp add: key_last_with)

lemma find_last_wins:
  "List.find (\<lambda>i. k i = x) (last_wins k items)
    = (if x \<in> k ` set items then Some (last_with k items x) else None)"
proof -
  have "List.find (\<lambda>i. k i = x) (map f ks) = (if x \<in> set ks then Some (f x) else None)"
    if "\<And>y. y \<in> set ks \<Longrightarrow> k (f y) = y" for f :: "'b \<Rightarrow> 'a" and ks
    using that by (induction ks) auto
  from this[of "firsts (map k items)" "last_with k items"] show ?thesis
    by (simp add: last_wins_eq_spec last_wins_spec_def key_last_with)
qed

lemma find_last_wins_filter:
  "List.find (\<lambda>i. k i = x) (last_wins k items)
    = (case filter (\<lambda>i. k i = x) items of [] \<Rightarrow> None | ms \<Rightarrow> Some (last ms))"
proof (cases "filter (\<lambda>i. k i = x) items")
  case Nil
  then have "x \<notin> k ` set items"
    by (auto simp: filter_empty_conv)
  then show ?thesis
    by (simp add: find_last_wins Nil)
next
  case (Cons a l)
  then have "a \<in> set (filter (\<lambda>i. k i = x) items)"
    by simp
  then have "x \<in> k ` set items"
    by auto
  then show ?thesis
    by (simp add: find_last_wins Cons last_with_def)
qed

text \<open>
  Redeclaring a name overrides it in place: the collapsed list has each key once, in the
  order of first declaration, with the item of its last declaration. So a drop-in that
  tightens a rule or disables a backend takes effect, and the order in which backends are
  preferred does not change.
\<close>

theorem last_wins_refines_spec:
  "last_wins k items = last_wins_spec k items
   \<and> map k (last_wins k items) = firsts (map k items)
   \<and> distinct (map k (last_wins k items))"
  unfolding last_wins_keys by (simp add: last_wins_eq_spec)

subsection \<open>What a loaded configuration guarantees\<close>

lemma validate_backends_ok:
  "validate_backends bs = Inr () \<Longrightarrow> b \<in> set bs
    \<Longrightarrow> (be_exec b = []) \<noteq> (be_connect b = None)
      \<and> (be_connect b \<noteq> None \<longrightarrow> be_args b = [] \<and> be_env b = [])"
  by (induction bs rule: validate_backends.induct) (auto split: if_splits)

lemma sat_mul_fits: "\<not> MAX_ATTACHMENT_PAYLOAD < u64_sat_mul n 4 \<Longrightarrow> n * 4 \<le> MAX_ATTACHMENT_PAYLOAD"
  by (simp add: u64_sat_mul_def MAX_ATTACHMENT_PAYLOAD_def MAX_FRAME_def min_def split: if_splits)

lemma read_config_Inr: "read_config w p = Inr t \<longleftrightarrow> read_to_string w p = Inr t"
  by (auto simp: read_config_def split: sum.splits)

lemma parse_config_Inr: "parse_config w p t = Inr c \<longleftrightarrow> toml_from_str w t = Inr c"
  by (auto simp: parse_config_def split: sum.splits)

lemma load_Inr:
  "load w path = Inr c \<longleftrightarrow>
     (\<exists>txt base merged.
        (if path_exists w path then read_to_string w path = Inr txt else txt = [])
        \<and> toml_from_str w txt = Inr base
        \<and> merge_dropins w base (dropin_files w path) = Inr merged
        \<and> c = collapse merged \<and> validate c = Inr ())"
  by (auto simp: load_def Let_def rbind_Inr_iff parse_config_Inr read_config_Inr)

text \<open>
  C16. What load accepts the wire can carry: in a loaded configuration the largest decoded
  image and the longest decoded clip the attachment budgets allow fit in one frame, every
  backend is either spawned or connected to (never both, never neither), one that is connected
  to has no arguments or environment, and backends, identity rules and prices each have one
  entry per name.
\<close>

theorem load_guarantees:
  assumes "load w path = Inr c"
  shows "max_pixels (c_attachments c) * 4 \<le> MAX_ATTACHMENT_PAYLOAD
    \<and> max_samples (c_attachments c) * 4 \<le> MAX_ATTACHMENT_PAYLOAD
    \<and> (\<forall>b\<in>set (c_backends c). (be_exec b = []) \<noteq> (be_connect b = None)
          \<and> (be_connect b \<noteq> None \<longrightarrow> be_args b = [] \<and> be_env b = []))
    \<and> distinct (map be_name (c_backends c)) \<and> distinct (map rule_identity (c_identities c))
    \<and> distinct (map price_model (c_prices c))"
proof -
  obtain merged where c: "c = collapse merged" and v: "validate c = Inr ()"
    using assms unfolding load_Inr by blast
  have backs: "validate_backends (c_backends c) = Inr ()"
    and fits: "max_pixels (c_attachments c) * 4 \<le> MAX_ATTACHMENT_PAYLOAD"
    "max_samples (c_attachments c) * 4 \<le> MAX_ATTACHMENT_PAYLOAD"
    using v by (auto simp: validate_def rbind_Inr_iff intro: sat_mul_fits split: if_splits)
  moreover have "distinct (map be_name (c_backends c))" "distinct (map rule_identity (c_identities c))"
    "distinct (map price_model (c_prices c))"
    unfolding c collapse_def by (simp_all add: last_wins_keys)
  moreover have "\<forall>b\<in>set (c_backends c). (be_exec b = []) \<noteq> (be_connect b = None)
          \<and> (be_connect b \<noteq> None \<longrightarrow> be_args b = [] \<and> be_env b = [])"
    by (rule ballI) (rule validate_backends_ok[OF backs])
  ultimately show ?thesis
    using fits by blast
qed

definition bare_world :: world where
  "bare_world =
     \<lparr> path_exists = (\<lambda>_. False), read_to_string = (\<lambda>_. Inl ''missing''), read_dir = (\<lambda>_. None),
       toml_from_str = (\<lambda>t. if t = [] then Inr default_config else Inl ''not modelled'') \<rparr>"

lemma load_bare: "load bare_world ''c.toml'' = Inr default_config"
  by (simp add: load_def bare_world_def parse_config_def dropin_files_def collapse_def default_config_def
      last_wins_def List.map_filter_def validate_def Let_def u64_sat_mul_def default_attachments_def
      MAX_ATTACHMENT_PAYLOAD_def MAX_FRAME_def)

theorem load_guarantees_witness:
  "max_pixels (c_attachments default_config) * 4 \<le> MAX_ATTACHMENT_PAYLOAD"
  using load_guarantees[OF load_bare] by blast


subsection \<open>Which file wins\<close>

text \<open>A drop-in as loaded: what it parses to, and its text.\<close>

definition dropin_at :: "world \<Rightarrow> string \<Rightarrow> config \<times> string \<Rightarrow> bool" where
  "dropin_at w file d \<longleftrightarrow> read_to_string w file = Inr (snd d) \<and> toml_from_str w (snd d) = Inr (fst d)"

text \<open>The policy table after the drop-ins: the last one that mentions the table replaces it.\<close>

definition effective_policy :: "policy_cfg \<Rightarrow> (config \<times> string) list \<Rightarrow> policy_cfg" where
  "effective_policy p ds =
     (case filter (\<lambda>d. mentions (snd d) ''policy'') ds of [] \<Rightarrow> p | ms \<Rightarrow> c_policy (fst (last ms)))"

definition declared_rules :: "config \<Rightarrow> (config \<times> string) list \<Rightarrow> identity_rule list" where
  "declared_rules base ds = c_identities base @ concat (map (\<lambda>d. c_identities (fst d)) ds)"

lemma effective_policy_Cons:
  "effective_policy p (d # ds)
    = effective_policy (if mentions (snd d) ''policy'' then c_policy (fst d) else p) ds"
  by (auto simp: effective_policy_def split: list.splits)

lemma merge_dropins_Inr:
  "merge_dropins w base files = Inr merged
    \<Longrightarrow> \<exists>ds. list_all2 (dropin_at w) files ds
        \<and> c_identities merged = declared_rules base ds
        \<and> c_policy merged = effective_policy (c_policy base) ds"
proof (induction files arbitrary: base)
  case Nil
  then show ?case
    by (auto simp: declared_rules_def effective_policy_def)
next
  case (Cons f fs)
  then obtain t d where d: "read_to_string w f = Inr t" "toml_from_str w t = Inr d"
    and rest: "merge_dropins w (merge base d t) fs = Inr merged"
    by (auto simp: rbind_Inr_iff parse_config_Inr read_config_Inr)
  obtain ds where ds: "list_all2 (dropin_at w) fs ds"
    "c_identities merged = declared_rules (merge base d t) ds"
    "c_policy merged = effective_policy (c_policy (merge base d t)) ds"
    using Cons.IH[OF rest] by blast
  have "list_all2 (dropin_at w) (f # fs) ((d, t) # ds)"
    using d ds(1) by (simp add: dropin_at_def)
  moreover have "declared_rules (merge base d t) ds = declared_rules base ((d, t) # ds)"
    by (simp add: declared_rules_def merge_def)
  moreover have "effective_policy (c_policy (merge base d t)) ds
      = effective_policy (c_policy base) ((d, t) # ds)"
    by (simp add: effective_policy_Cons merge_def)
  ultimately show ?case
    using ds(2,3) by metis
qed

text \<open>
  Later files win. After a load, the rule that answers for an identity is the last one
  declared for it, over the main file and then the drop-ins in name order, and there is none
  exactly when no file declares one; and the policy table in force is the one of the last
  drop-in whose text mentions the table, or the main file's.
\<close>

theorem load_last_declaration_wins:
  assumes "load w path = Inr c"
  shows "\<exists>txt base ds. (if path_exists w path then read_to_string w path = Inr txt else txt = [])
    \<and> toml_from_str w txt = Inr base \<and> list_all2 (dropin_at w) (dropin_files w path) ds
    \<and> c_policy c = effective_policy (c_policy base) ds
    \<and> (\<forall>who. rule_for c who =
          (case filter (\<lambda>r. rule_identity r = who) (declared_rules base ds) of
             [] \<Rightarrow> None | rs \<Rightarrow> Some (last rs)))"
proof -
  obtain raw base merged where m: "merge_dropins w base (dropin_files w path) = Inr merged"
    and c: "c = collapse merged"
    and base: "if path_exists w path then read_to_string w path = Inr raw else raw = []"
      "toml_from_str w raw = Inr base"
    using assms unfolding load_Inr by blast
  obtain ds where ds: "list_all2 (dropin_at w) (dropin_files w path) ds"
    "c_identities merged = declared_rules base ds"
    "c_policy merged = effective_policy (c_policy base) ds"
    using merge_dropins_Inr[OF m] by blast
  have "rule_for c who =
      (case filter (\<lambda>r. rule_identity r = who) (declared_rules base ds) of
         [] \<Rightarrow> None | rs \<Rightarrow> Some (last rs))" for who
    unfolding rule_for_def c collapse_def
    by (simp add: find_last_wins_filter ds(2))
  moreover have "c_policy c = effective_policy (c_policy base) ds"
    using ds(3) by (simp add: c collapse_def)
  ultimately show ?thesis
    using base ds(1) by blast
qed

definition sample_rule :: identity_rule where
  "sample_rule =
     \<lparr> rule_identity = ''exe:ci@1001'', rule_capabilities = [''generate''], rule_max_context = None,
       rule_max_sessions = Some 1, rule_tokens_per_minute = None, rule_daily_spend = None,
       rule_prelude = None, rule_mark_provenance = None, rule_allowed_models = None \<rparr>"

definition sample_world :: world where
  "sample_world =
     \<lparr> path_exists = (\<lambda>_. False), read_to_string = (\<lambda>p. if p = ''c.d/a.conf'' then Inr ''rule'' else Inl ''missing''),
       read_dir = (\<lambda>_. Some [''b.toml'', ''a.conf'']),
       toml_from_str = (\<lambda>t. if t = ''rule'' then Inr (default_config\<lparr> c_identities := [sample_rule] \<rparr>)
                            else Inr default_config) \<rparr>"

lemma sample_dropins: "dropin_files sample_world ''c'' = [''c.d/a.conf'']"
  by (simp add: dropin_files_def sample_world_def extension_def rsplit_once_def starts_with_def)

lemma load_sample:
  "load sample_world ''c'' = Inr (default_config\<lparr> c_identities := [sample_rule] \<rparr>)"
  unfolding load_def sample_dropins
  by (simp add: sample_world_def parse_config_def read_config_def merge_def collapse_def default_config_def
      last_wins_def List.map_filter_def validate_def Let_def u64_sat_mul_def default_attachments_def
      MAX_ATTACHMENT_PAYLOAD_def MAX_FRAME_def)

theorem load_last_declaration_wins_witness:
  "\<exists>base ds. list_all2 (dropin_at sample_world) [''c.d/a.conf''] ds
     \<and> (case filter (\<lambda>r. rule_identity r = ''exe:ci@1001'') (declared_rules base ds) of
             [] \<Rightarrow> None | rs \<Rightarrow> Some (last rs)) = Some sample_rule"
proof -
  have "rule_for (default_config\<lparr> c_identities := [sample_rule] \<rparr>) ''exe:ci@1001'' = Some sample_rule"
    by (simp add: rule_for_def sample_rule_def)
  then show ?thesis
    using load_last_declaration_wins[OF load_sample] unfolding sample_dropins by metis
qed

text \<open>
  A drop-in can say something and not be heard. TOML allows white space inside the
  brackets of a table header; the textual test that decides whether a drop-in replaces a table
  does not. Whatever the parser returned for such a file, its policy table is dropped without
  an error, while the same file without the two spaces replaces the table.
\<close>

theorem spaced_header_is_ignored:
  "c_policy (merge self other (''[ policy ]'' @ [CHR 0x0A] @ ''max_sessions = 1'')) = c_policy self
   \<and> c_policy (merge self other (''[policy]'' @ [CHR 0x0A] @ ''max_sessions = 1'')) = c_policy other"
proof -
  have "\<not> mentions (''[ policy ]'' @ [CHR 0x0A] @ ''max_sessions = 1'') ''policy''"
    by (simp add: mentions_def rust_lines_def strip_cr_def trim_def trim_start_def trim_end_def
        is_space_def code_def starts_with_def)
  moreover have "mentions (''[policy]'' @ [CHR 0x0A] @ ''max_sessions = 1'') ''policy''"
    by (simp add: mentions_def rust_lines_def strip_cr_def trim_def trim_start_def trim_end_def
        is_space_def code_def starts_with_def)
  ultimately show ?thesis
    by (simp add: merge_def)
qed

end
