(* ===== verification/Backend.thy ===== *)
theory Backend
  imports Messages Config "HOL-Library.AList"
begin

text \<open>
  Talking to backends: \<open>crates/ai-daemon/src/backend.rs\<close>. One backend is the state behind the
  locks of the struct: which models it has loaded, the requests in flight with what has been
  delivered to each, the control channel, and everything sent. What the socket delivers is a
  list of events; a wait that finds nothing left before its deadline times out. Processes,
  descriptors and threads are outside the model.
\<close>

definition ALLOWED_DEVICE_PREFIXES :: "string list" where
  "ALLOWED_DEVICE_PREFIXES = [''/dev/dri/'', ''/dev/accel/'']"

record loaded_model =
  lm_model_id :: string
  lm_kv_bytes_per_token :: nat
  lm_n_ctx :: nat

record backend =
  b_name :: string
  b_info :: backend_info
  b_owned :: bool
  b_sent :: "backend_request list"
  b_inflight :: "(nat \<times> backend_event list) list"
  b_control :: "backend_event list"
  b_loaded :: "(string \<times> loaded_model) list"
  b_next_req :: nat
  b_alive :: bool

subsection \<open>Handshake\<close>

definition device_allowed :: "string \<Rightarrow> bool" where
  "device_allowed device \<longleftrightarrow> list_ex (\<lambda>p. starts_with p device) ALLOWED_DEVICE_PREFIXES"

text \<open>The first control event within ten seconds, if any, decides.\<close>

definition over :: "backend_cfg \<Rightarrow> bool \<Rightarrow> backend_event option \<Rightarrow> string + backend" where
  "over spec owned answer =
     (case answer of
        None \<Rightarrow> Inl (''backend '' @ be_name spec @ '' did not answer hello within 10s'')
      | Some (BE_Hello proto info) \<Rightarrow>
          if proto \<noteq> BACKEND_PROTO
          then Inl (''backend '' @ be_name spec @ '' speaks protocol '' @ show_nat proto
                 @ '', this daemon speaks '' @ show_nat BACKEND_PROTO)
          else
            (case List.find (\<lambda>d. \<not> device_allowed d) (bi_devices info) of
               Some device \<Rightarrow>
                 Inl (''backend '' @ be_name spec @ '' claims '' @ device
                   @ '', which is outside the device access this unit grants'')
             | None \<Rightarrow>
                 Inr \<lparr> b_name = be_name spec, b_info = info, b_owned = owned,
                       b_sent = [B_Hello BACKEND_PROTO], b_inflight = [], b_control = [], b_loaded = [],
                       b_next_req = 1, b_alive = True \<rparr>)
      | Some _ \<Rightarrow> Inl (''backend '' @ be_name spec @ '' answered hello with something else''))"

subsection \<open>Questions and sends\<close>

definition can :: "backend \<Rightarrow> string \<Rightarrow> bool" where
  "can b capability \<longleftrightarrow> list_ex (\<lambda>c. c = capability) (bi_capabilities (b_info b))"

definition handles_format :: "backend \<Rightarrow> string \<Rightarrow> bool" where
  "handles_format b fmt \<longleftrightarrow>
     list_ex (\<lambda>f. to_ascii_lowercase f = to_ascii_lowercase fmt) (bi_formats (b_info b))"

definition lookup_loaded :: "backend \<Rightarrow> string \<Rightarrow> loaded_model option" where
  "lookup_loaded b model_id = map_of (b_loaded b) model_id"

definition loaded_models :: "backend \<Rightarrow> loaded_model list" where
  "loaded_models b = map snd (b_loaded b)"

definition not_running :: "backend \<Rightarrow> string" where
  "not_running b = ''backend '' @ b_name b @ '' is not running''"

text \<open>A send to a live backend can still fail on the socket: \<open>broken\<close> is that error.\<close>

definition send :: "string option \<Rightarrow> backend_request \<Rightarrow> backend \<Rightarrow> (string + unit) \<times> backend" where
  "send broken req b =
     (if \<not> b_alive b then (Inl (not_running b), b)
      else
        (case broken of
           Some e \<Rightarrow> (Inl (''writing to backend '' @ b_name b @ '': '' @ e), b)
         | None \<Rightarrow> (Inr (), b\<lparr> b_sent := b_sent b @ [req] \<rparr>)))"

definition timed_out :: "backend \<Rightarrow> string" where
  "timed_out b = ''backend '' @ b_name b @ '' did not answer in time''"

subsection \<open>Control operations\<close>

text \<open>
  The loop of \<open>load\<close> over what arrives on the control channel before the deadline: the reply
  and what is left on the channel.
\<close>

fun load_loop :: "backend \<Rightarrow> string \<Rightarrow> backend_event list \<Rightarrow> (string + loaded_model) \<times> backend_event list" where
  "load_loop b model_id [] = (Inl (timed_out b), [])"
| "load_loop b model_id (BE_Loaded answered kv n_ctx # rest) =
     (if answered \<noteq> model_id then load_loop b model_id rest
      else (Inr \<lparr> lm_model_id = answered, lm_kv_bytes_per_token = kv, lm_n_ctx = n_ctx \<rparr>, rest))"
| "load_loop b model_id (BE_Error _ cd msg # rest) = (Inl (cd @ '': '' @ msg), rest)"
| "load_loop b model_id (_ # rest) = load_loop b model_id rest"

text \<open>\<open>arrivals\<close> is what reaches the control channel after the request was sent.\<close>

definition load_model :: "string option \<Rightarrow> string \<Rightarrow> string \<Rightarrow> string \<Rightarrow> nat \<Rightarrow> backend_event list \<Rightarrow> backend
    \<Rightarrow> (string + loaded_model) \<times> backend" where
  "load_model broken model_id path digest n_ctx arrivals b =
     (case lookup_loaded b model_id of
        Some existing \<Rightarrow> (Inr existing, b)
      | None \<Rightarrow>
          (case send broken (B_Load model_id path digest n_ctx) b of
             (Inl e, b1) \<Rightarrow> (Inl e, b1)
           | (Inr _, b1) \<Rightarrow>
               (case load_loop b1 model_id (b_control b1 @ arrivals) of
                  (Inl e, rest) \<Rightarrow> (Inl e, b1\<lparr> b_control := rest \<rparr>)
                | (Inr lm, rest) \<Rightarrow>
                    (Inr lm, b1\<lparr> b_control := rest, b_loaded := AList.update model_id lm (b_loaded b1) \<rparr>))))"

fun unload_loop :: "backend \<Rightarrow> string \<Rightarrow> backend_event list \<Rightarrow> (string + unit) \<times> backend_event list" where
  "unload_loop b model_id [] = (Inl (timed_out b), [])"
| "unload_loop b model_id (BE_Unloaded answered # rest) =
     (if answered \<noteq> model_id then unload_loop b model_id rest else (Inr (), rest))"
| "unload_loop b model_id (BE_Error _ cd msg # rest) = (Inl (cd @ '': '' @ msg), rest)"
| "unload_loop b model_id (_ # rest) = unload_loop b model_id rest"

definition unload_model :: "string option \<Rightarrow> string \<Rightarrow> backend_event list \<Rightarrow> backend \<Rightarrow> (string + unit) \<times> backend" where
  "unload_model broken model_id arrivals b =
     (case send broken (B_Unload model_id) b of
        (Inl e, b1) \<Rightarrow> (Inl e, b1)
      | (Inr _, b1) \<Rightarrow>
          (case unload_loop b1 model_id (b_control b1 @ arrivals) of
             (outcome, rest) \<Rightarrow>
               (outcome, b1\<lparr> b_control := rest, b_loaded := AList.delete model_id (b_loaded b1) \<rparr>)))"

subsection \<open>Requests\<close>

definition begin_req :: "string option \<Rightarrow> (nat \<Rightarrow> backend_request) \<Rightarrow> backend \<Rightarrow> (string + nat) \<times> backend" where
  "begin_req broken mk b =
     (let req_id = b_next_req b;
          b1 = b\<lparr> b_next_req := u64_add req_id 1, b_inflight := AList.update req_id [] (b_inflight b) \<rparr>
      in case send broken (mk req_id) b1 of
           (Inl e, b2) \<Rightarrow> (Inl e, b2\<lparr> b_inflight := AList.delete req_id (b_inflight b2) \<rparr>)
         | (Inr _, b2) \<Rightarrow> (Inr req_id, b2))"

definition finish_req :: "nat \<Rightarrow> backend \<Rightarrow> backend" where
  "finish_req req_id b = b\<lparr> b_inflight := AList.delete req_id (b_inflight b) \<rparr>"

definition cancel_req :: "string option \<Rightarrow> nat \<Rightarrow> backend \<Rightarrow> backend" where
  "cancel_req broken req_id b = snd (send broken (B_Cancel req_id) b)"

definition pause_req :: "string option \<Rightarrow> nat \<Rightarrow> backend \<Rightarrow> backend" where
  "pause_req broken req_id b = snd (send broken (B_Pause req_id) b)"

definition resume_req :: "string option \<Rightarrow> nat \<Rightarrow> backend \<Rightarrow> backend" where
  "resume_req broken req_id b = snd (send broken (B_Resume req_id) b)"

definition drop_cache :: "string option \<Rightarrow> string \<Rightarrow> backend \<Rightarrow> backend" where
  "drop_cache broken session_id b = snd (send broken (B_DropCache session_id) b)"

text \<open>Shutting down asks only a backend the daemon spawned.\<close>

definition shutdown :: "string option \<Rightarrow> backend \<Rightarrow> backend" where
  "shutdown broken b = (if b_owned b then snd (send broken B_Shutdown b) else b)"

subsection \<open>The reader\<close>

fun routed :: "backend_event \<Rightarrow> nat option" where
  "routed (BE_Token r _ _) = Some r"
| "routed (BE_ToolCall r _) = Some r"
| "routed (BE_ToolCalls r _) = Some r"
| "routed (BE_Media r _ _ _ _ _ _) = Some r"
| "routed (BE_Vectors r _) = Some r"
| "routed (BE_Tokens r _) = Some r"
| "routed (BE_Done r _ _) = Some r"
| "routed (BE_Error r _ _) = r"
| "routed (BE_Hello _ _) = None"
| "routed (BE_Loaded _ _ _) = None"
| "routed (BE_Unloaded _) = None"

text \<open>One turn of the loop: an event, or the end of the stream (a close or a protocol error).\<close>

definition deliver :: "backend_event \<Rightarrow> backend \<Rightarrow> backend" where
  "deliver ev b =
     (case routed ev of
        Some r \<Rightarrow>
          (case map_of (b_inflight b) r of
             Some got \<Rightarrow> b\<lparr> b_inflight := AList.update r (got @ [ev]) (b_inflight b) \<rparr>
           | None \<Rightarrow> b)
      | None \<Rightarrow> b\<lparr> b_control := b_control b @ [ev] \<rparr>)"

definition reader_ends :: "backend \<Rightarrow> backend" where
  "reader_ends b = b\<lparr> b_alive := False, b_inflight := [] \<rparr>"


subsection \<open>No request sees another's events\<close>

text \<open>
  What a backend may say, apart from how the reader looks at it: an answer is given for some
  request and is sent under the number of that request; everything else answers a control
  operation. \<open>answer_event\<close> and \<open>control_event\<close> are the messages as the backend sends them.
\<close>

datatype given_answer =
    Text string "token_prob list option"
  | Call tool_call
  | Calls "tool_call list"
  | Picture_Or_Sound media_kind "nat option" "nat option" "string option" "nat option" "byte list"
  | Embedding "f32 list list"
  | Token_Ids "nat list"
  | Finished usage_counts "string option"
  | Failed string string

datatype control_reply =
    Greets nat backend_info
  | Has_Loaded string nat nat
  | Has_Unloaded string
  | Complains string string

fun answer_event :: "nat \<Rightarrow> given_answer \<Rightarrow> backend_event" where
  "answer_event r (Text t lp) = BE_Token r t lp"
| "answer_event r (Call c) = BE_ToolCall r c"
| "answer_event r (Calls cs) = BE_ToolCalls r cs"
| "answer_event r (Picture_Or_Sound k w h fmt rate bytes) = BE_Media r k w h fmt rate bytes"
| "answer_event r (Embedding vs) = BE_Vectors r vs"
| "answer_event r (Token_Ids ids) = BE_Tokens r ids"
| "answer_event r (Finished u why) = BE_Done r u why"
| "answer_event r (Failed cd msg) = BE_Error (Some r) cd msg"

fun control_event :: "control_reply \<Rightarrow> backend_event" where
  "control_event (Greets proto info) = BE_Hello proto info"
| "control_event (Has_Loaded m kv n) = BE_Loaded m kv n"
| "control_event (Has_Unloaded m) = BE_Unloaded m"
| "control_event (Complains cd msg) = BE_Error None cd msg"

text \<open>No event is left out, and no event is both.\<close>

lemma every_event_is_one_of_them:
  "(\<exists>r a. ev = answer_event r a) \<noteq> (\<exists>c. ev = control_event c)"
proof -
  have "(\<exists>r a. ev = answer_event r a) \<or> (\<exists>c. ev = control_event c)"
  proof (cases ev)
    case (BE_Error r cd msg)
    then show ?thesis
      by (cases r) (metis control_event.simps(4), metis answer_event.simps(8))
  qed (metis answer_event.simps control_event.simps)+
  moreover have "answer_event r a \<noteq> control_event c" for r a c
    by (cases a; cases c) simp_all
  ultimately show ?thesis
    by metis
qed

text \<open>What can happen to a live backend between two looks at it.\<close>

datatype act = Begin "nat \<Rightarrow> backend_request" | Finish nat | Answers nat given_answer | Replies control_reply

fun perform :: "act \<Rightarrow> backend \<Rightarrow> backend" where
  "perform (Begin mk) b = snd (begin_req None mk b)"
| "perform (Finish r) b = finish_req r b"
| "perform (Answers r a) b = deliver (answer_event r a) b"
| "perform (Replies c) b = deliver (control_event c) b"

definition answers_for :: "nat \<Rightarrow> act list \<Rightarrow> given_answer list" where
  "answers_for r acts =
     List.map_filter (\<lambda>a. case a of Answers r' an \<Rightarrow> if r' = r then Some an else None | _ \<Rightarrow> None) acts"

definition control_replies :: "act list \<Rightarrow> control_reply list" where
  "control_replies acts = List.map_filter (\<lambda>a. case a of Replies c \<Rightarrow> Some c | _ \<Rightarrow> None) acts"

lemma answers_for_simps [simp]:
  "answers_for r [] = []"
  "answers_for r (Begin mk # acts) = answers_for r acts"
  "answers_for r (Finish r' # acts) = answers_for r acts"
  "answers_for r (Replies c # acts) = answers_for r acts"
  "answers_for r (Answers r' a # acts) = (if r' = r then a # answers_for r acts else answers_for r acts)"
  by (simp_all add: answers_for_def List.map_filter_simps)

lemma control_replies_simps [simp]:
  "control_replies [] = []"
  "control_replies (Begin mk # acts) = control_replies acts"
  "control_replies (Finish r # acts) = control_replies acts"
  "control_replies (Answers r a # acts) = control_replies acts"
  "control_replies (Replies c # acts) = c # control_replies acts"
  by (simp_all add: control_replies_def List.map_filter_simps)

lemma send_fields [simp]:
  "b_inflight (snd (send broken req b)) = b_inflight b"
  "b_control (snd (send broken req b)) = b_control b"
  "b_next_req (snd (send broken req b)) = b_next_req b"
  "b_loaded (snd (send broken req b)) = b_loaded b"
  "b_alive (snd (send broken req b)) = b_alive b"
  by (auto simp: send_def split: option.splits)

lemma send_loadedD: "send broken req b = (res, b1) \<Longrightarrow> b_loaded b1 = b_loaded b"
  by (metis send_fields(4) snd_conv)

lemma begin_req_fields:
  "b_control (snd (begin_req broken mk b)) = b_control b"
  "b_next_req (snd (begin_req broken mk b)) = u64_add (b_next_req b) 1"
  "r \<noteq> b_next_req b \<Longrightarrow> map_of (b_inflight (snd (begin_req broken mk b))) r = map_of (b_inflight b) r"
  by (auto simp: begin_req_def Let_def send_def update_conv' delete_conv' split: option.splits)

lemma deliver_fields:
  "b_next_req (deliver ev b) = b_next_req b"
  "b_control (deliver ev b) = b_control b @ (if routed ev = None then [ev] else [])"
  "map_of (b_inflight (deliver ev b)) r =
     map_option (\<lambda>got. if routed ev = Some r then got @ [ev] else got) (map_of (b_inflight b) r)"
  by (cases "map_of (b_inflight b) r"; auto simp: deliver_def update_conv' split: option.splits)+

lemma routed_answer [simp]: "routed (answer_event r a) = Some r"
  by (cases a) simp_all

lemma routed_control [simp]: "routed (control_event c) = None"
  by (cases c) simp_all

text \<open>
  C12. The reader never mixes streams. While a request is in flight, whatever other requests
  begin, finish or are answered in the meantime, its receiver gets exactly the answers the
  backend gave for it (text, tool calls, media, vectors, token numbers, the end, an error), all
  of them and in the order they were given, and the control channel gets exactly what answers
  no request.
\<close>

theorem events_reach_their_request:
  assumes "map_of (b_inflight b) r = Some got" "Finish r \<notin> set acts"
    and "r < b_next_req b" "b_next_req b + length acts < U64"
  shows "map_of (b_inflight (fold perform acts b)) r
      = Some (got @ map (answer_event r) (answers_for r acts))
    \<and> b_control (fold perform acts b) = b_control b @ map control_event (control_replies acts)"
  using assms
proof (induction acts arbitrary: b got)
  case (Cons a acts)
  show ?case
  proof (cases a)
    case (Begin mk)
    have "u64_add (b_next_req b) 1 = b_next_req b + 1"
      using Cons.prems(4) by (intro u64_add_exact) simp
    then show ?thesis
      using Cons.IH[of "perform a b" got] Cons.prems by (simp add: Begin begin_req_fields)
  next
    case (Finish r')
    then show ?thesis
      using Cons.IH[of "perform a b" got] Cons.prems by (simp add: finish_req_def delete_conv')
  next
    case (Answers r' an)
    then show ?thesis
      using Cons.IH[of "perform a b" "if r' = r then got @ [answer_event r an] else got"] Cons.prems
      by (auto simp: deliver_fields split: if_splits)
  next
    case (Replies c)
    then show ?thesis
      using Cons.IH[of "perform a b" got] Cons.prems by (simp add: deliver_fields)
  qed
qed simp

definition sample_info :: backend_info where
  "sample_info = \<lparr> bi_name = ''mock'', bi_version = ''1'', bi_formats = [''gguf''], bi_quantizations = [],
     bi_devices = [], bi_device_memory = None, bi_capabilities = [''generate''], bi_local = True \<rparr>"

definition sample_backend :: backend where
  "sample_backend = \<lparr> b_name = ''mock'', b_info = sample_info, b_owned = True, b_sent = [],
     b_inflight = [(1, [])], b_control = [], b_loaded = [], b_next_req = 2, b_alive = True \<rparr>"

theorem events_reach_their_request_witness:
  "map_of (b_inflight (fold perform
     [Begin (\<lambda>r. B_Cancel r), Answers 2 (Text ''x'' None), Replies (Has_Unloaded ''m''),
      Answers 1 (Text ''y'' None), Answers 1 (Calls [])] sample_backend)) 1
   = Some [BE_Token 1 ''y'' None, BE_ToolCalls 1 []]"
  by (subst conjunct1[OF events_reach_their_request[of _ 1 "[]"]]) (simp_all add: sample_backend_def)

subsection \<open>Loading\<close>

definition loaded_ok :: "backend \<Rightarrow> bool" where
  "loaded_ok b \<longleftrightarrow> (\<forall>k lm. map_of (b_loaded b) k = Some lm \<longrightarrow> lm_model_id lm = k)"

lemma load_loop_model: "load_loop b model_id evs = (Inr lm, rest) \<Longrightarrow> lm_model_id lm = model_id"
  by (induction b model_id evs rule: load_loop.induct) (auto split: if_splits)

text \<open>
  A load answers for the model it was asked about. On success the model returned is the
  one asked for, however many stale replies about others came first, and asking again returns
  the same model without a word to the backend; on failure what is recorded as loaded is
  unchanged; and after an unload that reached the backend the model is forgotten whatever the
  backend answered, with the record of every other model untouched.
\<close>

theorem load_and_unload_record:
  assumes "loaded_ok b"
  shows "(\<forall>lm b'. load_model broken model_id path digest n_ctx arr b = (Inr lm, b') \<longrightarrow>
            lm_model_id lm = model_id \<and> loaded_ok b'
            \<and> load_model broken' model_id path' digest' n_ctx' arr' b' = (Inr lm, b'))
    \<and> (\<forall>e b'. load_model broken model_id path digest n_ctx arr b = (Inl e, b') \<longrightarrow> b_loaded b' = b_loaded b)
    \<and> (b_alive b \<longrightarrow> (\<forall>k. map_of (b_loaded (snd (unload_model None model_id arr b))) k
            = (if k = model_id then None else map_of (b_loaded b) k)))"
proof -
  have "lm_model_id lm = model_id \<and> loaded_ok b' \<and> lookup_loaded b' model_id = Some lm"
    if ok: "load_model broken model_id path digest n_ctx arr b = (Inr lm, b')" for lm b'
  proof (cases "lookup_loaded b model_id")
    case (Some existing)
    then show ?thesis
      using ok assms by (auto simp: load_model_def loaded_ok_def lookup_loaded_def)
  next
    case None
    obtain b1 rest where b1: "send broken (B_Load model_id path digest n_ctx) b = (Inr (), b1)"
      and loop: "load_loop b1 model_id (b_control b1 @ arr) = (Inr lm, rest)"
      and b': "b' = b1\<lparr> b_control := rest, b_loaded := AList.update model_id lm (b_loaded b1) \<rparr>"
      using ok None by (auto simp: load_model_def split: prod.splits sum.splits)
    have "b_loaded b1 = b_loaded b"
      using b1 send_fields(4)[of broken "B_Load model_id path digest n_ctx" b] by simp
    then show ?thesis
      using assms load_loop_model[OF loop] by (auto simp: b' loaded_ok_def lookup_loaded_def update_conv')
  qed
  then have "lm_model_id lm = model_id \<and> loaded_ok b'
      \<and> load_model broken' model_id path' digest' n_ctx' arr' b' = (Inr lm, b')"
    if "load_model broken model_id path digest n_ctx arr b = (Inr lm, b')" for lm b'
    using that by (simp add: load_model_def)
  moreover have "b_loaded b' = b_loaded b"
    if "load_model broken model_id path digest n_ctx arr b = (Inl e, b')" for e b'
    using that by (auto simp: load_model_def dest: send_loadedD split: option.splits prod.splits sum.splits)
  moreover have "map_of (b_loaded (snd (unload_model None model_id arr b))) k
      = (if k = model_id then None else map_of (b_loaded b) k)" if "b_alive b" for k
    using that by (auto simp: unload_model_def send_def delete_conv' split: prod.splits)
  ultimately show ?thesis
    by blast
qed

theorem load_and_unload_record_witness:
  "\<exists>lm b'. load_model None ''m'' ''/w'' ''sha256:0'' 512
       [BE_Loaded ''old'' 9 9, BE_Loaded ''m'' 4 512] sample_backend = (Inr lm, b')
     \<and> lm_model_id lm = ''m'' \<and> load_model None ''m'' [] [] 0 [] b' = (Inr lm, b')"
proof -
  have ok: "loaded_ok sample_backend"
    by (simp add: loaded_ok_def sample_backend_def)
  obtain lm b' where l: "load_model None ''m'' ''/w'' ''sha256:0'' 512
       [BE_Loaded ''old'' 9 9, BE_Loaded ''m'' 4 512] sample_backend = (Inr lm, b')"
    by (simp add: load_model_def lookup_loaded_def send_def sample_backend_def)
  then show ?thesis
    using load_and_unload_record[OF ok] by blast
qed

text \<open>
  Two replies that are taken for what they are not: an error left over from an operation that
  timed out fails the next load, although the backend goes on to load the model; and a backend
  that speaks the oldest supported protocol version is refused.
\<close>

lemma stale_error_fails_load:
  "fst (load_model None ''m'' ''/w'' ''sha256:0'' 512 [BE_Loaded ''m'' 4 512]
     (sample_backend\<lparr> b_control := [BE_Error None ''load-failed'' ''another model''] \<rparr>))
   = Inl ''load-failed: another model''"
  by (simp add: load_model_def lookup_loaded_def send_def sample_backend_def)

lemma oldest_protocol_refused: "\<not> is_ok (over spec owned (Some (BE_Hello MIN_BACKEND_PROTO info)))"
  by (simp add: over_def MIN_BACKEND_PROTO_def BACKEND_PROTO_def)

end
