(* ===== verification/Identity.thy ===== *)
theory Identity
  imports Rust_Text
begin

text \<open>
  Who is asking: \<open>crates/ai-daemon/src/identity.rs\<close>. An identity is a record with the fields
  of the struct; the files of \<open>/proc\<close> and \<open>/etc\<close> it is read from are an argument, a function
  from a path to the text (or the link target) found there. The theorems say that the grant
  key survives a relaunch of the application and that keys never cross uids.
\<close>

subsection \<open>Identities and their keys\<close>

datatype id_class = Portal | Native | Shim

fun id_class_as_str :: "id_class \<Rightarrow> string" where
  "id_class_as_str Portal = ''portal''"
| "id_class_as_str Native = ''native''"
| "id_class_as_str Shim = ''shim''"

record identity =
  id_class :: id_class
  id_uid :: nat
  id_gid :: nat
  id_pid :: int
  id_unit :: "string option"
  id_app_id :: "string option"
  id_exe :: "string option"
  id_client :: "string option"
  id_attested :: bool

definition unwrap_or :: "'a option \<Rightarrow> 'a \<Rightarrow> 'a" where
  "unwrap_or x d = (case x of None \<Rightarrow> d | Some v \<Rightarrow> v)"

definition key :: "identity \<Rightarrow> string" where
  "key i = (case id_class i of
      Portal \<Rightarrow> ''portal:'' @ unwrap_or (id_app_id i) ''unknown''
    | Native \<Rightarrow>
        (case (id_unit i, id_exe i) of
           (Some un, _) \<Rightarrow> ''unit:'' @ un @ ''@'' @ show_nat (id_uid i)
         | (None, Some ex) \<Rightarrow> ''exe:'' @ ex @ ''@'' @ show_nat (id_uid i)
         | (None, None) \<Rightarrow> ''uid:'' @ show_nat (id_uid i))
    | Shim \<Rightarrow>
        (case (id_client i, id_attested i, id_unit i, id_exe i) of
           (Some c, _, _, _) \<Rightarrow> ''shim:'' @ c
         | (None, True, Some un, _) \<Rightarrow> ''shim:unit:'' @ un @ ''@'' @ show_nat (id_uid i)
         | (None, True, None, Some ex) \<Rightarrow> ''shim:'' @ ex @ ''@'' @ show_nat (id_uid i)
         | (None, _, _, _) \<Rightarrow> ''shim:uid:'' @ show_nat (id_uid i)))"

definition display :: "identity \<Rightarrow> string" where
  "display i =
     (if id_class i = Portal then unwrap_or (id_app_id i) ''an app''
      else if id_class i = Shim \<and> id_client i \<noteq> None
      then unwrap_or (id_client i) [] @ '' (over the HTTP shim)''
      else unwrap_or (case id_exe i of Some e \<Rightarrow> Some e | None \<Rightarrow> id_unit i)
             (''pid '' @ show_int (id_pid i)))"

definition fmt_identity :: "identity \<Rightarrow> string" where
  "fmt_identity i = key i @ '' ['' @ id_class_as_str (id_class i) @ '']''"

subsection \<open>From a cgroup path to a stable unit\<close>

definition is_launch_token :: "string \<Rightarrow> bool" where
  "is_launch_token part \<longleftrightarrow>
     part \<noteq> [] \<and>
     (list_all is_ascii_digit part \<or> 6 \<le> length part \<and> list_all is_ascii_hexdigit part)"

definition uuid_groups :: "nat list" where
  "uuid_groups = [8, 4, 4, 4, 12]"

definition strip_launch_uuid :: "string \<Rightarrow> string option" where
  "strip_launch_uuid name =
     (let parts = split_on (CHR ''-'') name
      in if length parts \<le> length uuid_groups then None
         else
           let tl5 = drop (length parts - length uuid_groups) parts
           in if \<not> list_all (\<lambda>(part, width). length part = width \<and> list_all is_ascii_hexdigit part)
                     (zip tl5 uuid_groups)
              then None
              else Some (take (length name - (sum_list uuid_groups + length uuid_groups)) name))"

definition pop_launch_token :: "string list \<Rightarrow> string list" where
  "pop_launch_token parts =
     (if 1 < length parts \<and> is_launch_token (last parts) then butlast parts else parts)"

definition drop_launcher :: "string list \<Rightarrow> string list" where
  "drop_launcher parts =
     (if 1 < length parts \<and> CHR ''.'' \<notin> set (hd parts) \<and> list_ex (\<lambda>p. CHR ''.'' \<in> set p) (tl parts)
      then tl parts else parts)"

definition normalise_unit :: "string \<Rightarrow> string option" where
  "normalise_unit component =
     (case strip_suffix ''.service'' component of
        Some name \<Rightarrow> if starts_with ''user@'' name then None else Some component
      | None \<Rightarrow>
          (case strip_suffix ''.scope'' component of
             None \<Rightarrow> None
           | Some name \<Rightarrow>
               if starts_with ''vte-spawn-'' name \<or> starts_with ''session-'' name \<or> name = ''init''
               then None
               else if starts_with ''snap.'' name
               then Some (unwrap_or (strip_launch_uuid name) name)
               else
                 (case strip_prefix ''app-airun-'' name of
                    Some body \<Rightarrow> Some (join ''-'' (pop_launch_token (split_on (CHR ''-'') body)))
                  | None \<Rightarrow>
                      (case strip_prefix ''app-'' name of
                         None \<Rightarrow> Some component
                       | Some body \<Rightarrow>
                           let parts = drop_launcher (pop_launch_token (split_on (CHR ''-'') body))
                           in if parts = [] then Some component else Some (join ''-'' parts)))))"

fun first_some :: "('a \<Rightarrow> 'b option) \<Rightarrow> 'a list \<Rightarrow> 'b option" where
  "first_some f [] = None"
| "first_some f (x # xs) = (case f x of None \<Rightarrow> first_some f xs | Some y \<Rightarrow> Some y)"

definition after_last :: "string \<Rightarrow> string \<Rightarrow> string" where
  "after_last p s = (case rsplit_once p s of None \<Rightarrow> s | Some (_, r) \<Rightarrow> r)"

definition unit_of_line :: "string \<Rightarrow> string option" where
  "unit_of_line line =
     first_some normalise_unit
       (rev (split_on (CHR ''/'') (after_last '':'' (after_last ''::'' line))))"

definition unit_from_cgroup :: "string \<Rightarrow> string option" where
  "unit_from_cgroup txt = first_some unit_of_line (rust_lines txt)"

subsection \<open>Reading a process\<close>

type_synonym files = "string \<Rightarrow> string option"

definition proc_path :: "int \<Rightarrow> string \<Rightarrow> string" where
  "proc_path pid leaf = ''/proc/'' @ show_int pid @ ''/'' @ leaf"

definition unit_of_pid :: "files \<Rightarrow> int \<Rightarrow> string option" where
  "unit_of_pid read_text pid = Option.bind (read_text (proc_path pid ''cgroup'')) unit_from_cgroup"

text \<open>\<open>Path::file_name\<close>: the last component, unless it is \<open>..\<close>.\<close>

definition path_file_name :: "string \<Rightarrow> string option" where
  "path_file_name p =
     (let cs = filter (\<lambda>c. c \<noteq> [] \<and> c \<noteq> ''.'') (split_on (CHR ''/'') p)
      in if cs = [] \<or> last cs = ''..'' then None else Some (last cs))"

definition exe_of_pid :: "files \<Rightarrow> int \<Rightarrow> string option" where
  "exe_of_pid read_link pid = Option.bind (read_link (proc_path pid ''exe'')) path_file_name"

definition from_pid_uid :: "files \<Rightarrow> files \<Rightarrow> int \<Rightarrow> nat \<Rightarrow> nat \<Rightarrow> id_class \<Rightarrow> identity" where
  "from_pid_uid read_text read_link pid uid gid cls =
     \<lparr> id_class = cls, id_uid = uid, id_gid = gid, id_pid = pid,
       id_unit = unit_of_pid read_text pid, id_app_id = None,
       id_exe = exe_of_pid read_link pid, id_client = None, id_attested = False \<rparr>"

definition gid_line :: "string \<Rightarrow> nat list" where
  "gid_line line =
     (case strip_prefix ''Gid:'' line of
        None \<Rightarrow> []
      | Some rest \<Rightarrow>
          (case split_whitespace rest of
             [] \<Rightarrow> []
           | real # _ \<Rightarrow> (case parse_u32 real of None \<Rightarrow> [] | Some g \<Rightarrow> [g])))"

definition groups_line :: "string \<Rightarrow> nat list" where
  "groups_line line =
     (case strip_prefix ''Groups:'' line of
        None \<Rightarrow> []
      | Some rest \<Rightarrow> List.map_filter parse_u32 (split_whitespace rest))"

definition groups_of_pid :: "files \<Rightarrow> int \<Rightarrow> nat list" where
  "groups_of_pid read_text pid =
     (case read_text (proc_path pid ''status'') of
        None \<Rightarrow> []
      | Some status \<Rightarrow> concat (map (\<lambda>line. gid_line line @ groups_line line) (rust_lines status)))"

fun field_two_lines :: "string list \<Rightarrow> string \<Rightarrow> nat option" where
  "field_two_lines [] name = None"
| "field_two_lines (line # rest) name =
     (let fields = split_on (CHR '':'') line
      in if hd fields = name
         then (case tl fields of _ # num # _ \<Rightarrow> parse_u32 num | _ \<Rightarrow> None)
         else field_two_lines rest name)"

definition field_two :: "string \<Rightarrow> string \<Rightarrow> nat option" where
  "field_two txt name = field_two_lines (rust_lines txt) name"

definition gid_from_group_file :: "string \<Rightarrow> string \<Rightarrow> nat option" where
  "gid_from_group_file txt name = field_two txt name"

definition uid_from_passwd_file :: "string \<Rightarrow> string \<Rightarrow> nat option" where
  "uid_from_passwd_file txt name = field_two txt name"

definition gid_of_group :: "files \<Rightarrow> string \<Rightarrow> nat option" where
  "gid_of_group read_text name =
     Option.bind (read_text ''/etc/group'') (\<lambda>txt. gid_from_group_file txt name)"

definition uid_of_user :: "files \<Rightarrow> string \<Rightarrow> nat option" where
  "uid_of_user read_text name =
     Option.bind (read_text ''/etc/passwd'') (\<lambda>txt. uid_from_passwd_file txt name)"

subsection \<open>Keys\<close>

lemma unwrap_or_simps [simp]: "unwrap_or None d = d" "unwrap_or (Some x) d = x"
  by (simp_all add: unwrap_or_def)

lemma at_not_digit: "CHR ''@'' \<notin> set (show_nat n)"
  by (rule not_digit_show_nat) (simp add: is_ascii_digit_def code_def)

lemma append_sep_unique:
  "a @ c # x = b @ c # y \<Longrightarrow> c \<notin> set x \<Longrightarrow> c \<notin> set y \<Longrightarrow> a = b \<and> x = y"
proof (induction a arbitrary: b)
  case Nil
  then show ?case
    by (cases b) auto
next
  case (Cons h t)
  then show ?case
    by (cases b) auto
qed

lemma at_uid_unique:
  "a @ CHR ''@'' # show_nat m = b @ CHR ''@'' # show_nat n \<longleftrightarrow> a = b \<and> m = n"
  by (metis append_sep_unique at_not_digit show_nat_inj)

lemma at_uid_not_plain: "a @ CHR ''@'' # x \<noteq> show_nat n"
  using at_not_digit[of n] by (metis in_set_conv_decomp)

lemma uid_tail_not_plain:
  assumes "CHR ''@'' \<notin> set p"
  shows "a @ CHR ''@'' # x \<noteq> p @ show_nat n"
proof
  assume "a @ CHR ''@'' # x = p @ show_nat n"
  then have "CHR ''@'' \<in> set (p @ show_nat n)"
    by (metis in_set_conv_decomp)
  then show False
    using assms at_not_digit by simp
qed


text \<open>What the daemon can name about a shim caller that shows no token.\<close>

definition shim_named :: "identity \<Rightarrow> bool" where
  "shim_named i \<longleftrightarrow> id_attested i \<and> (id_unit i \<noteq> None \<or> id_exe i \<noteq> None)"

lemma key_shim_without_token:
  assumes "id_class i = Shim" "id_client i = None"
  shows "key i = (if shim_named i
     then ''shim:'' @ (case id_unit i of Some u \<Rightarrow> ''unit:'' @ u | None \<Rightarrow> the (id_exe i)) @ ''@'' @ show_nat (id_uid i)
     else ''shim:uid:'' @ show_nat (id_uid i))"
  using assms by (auto simp: key_def shim_named_def split: option.splits bool.splits)

lemma key_shim_separates:
  assumes "key a = key b" "id_class a = Shim" "id_class b = Shim" "id_client a = None" "id_client b = None"
  shows "id_uid a = id_uid b \<and> shim_named a = shim_named b
    \<and> (shim_named a \<longrightarrow> (case id_unit a of Some u \<Rightarrow> ''unit:'' @ u | None \<Rightarrow> the (id_exe a))
                      = (case id_unit b of Some u \<Rightarrow> ''unit:'' @ u | None \<Rightarrow> the (id_exe b)))"
proof -
  have no: "x @ CHR ''@'' # show_nat m \<noteq> CHR ''u'' # CHR ''i'' # CHR ''d'' # CHR '':'' # show_nat n" for x m n
    using uid_tail_not_plain[of "''uid:''" x "show_nat m" n] by simp
  show ?thesis
    using assms(1) unfolding key_shim_without_token[OF assms(2,4)] key_shim_without_token[OF assms(3,5)]
    by (auto simp: at_uid_unique no no[symmetric] simp flip: append.assoc split: if_splits)
qed

text \<open>
  C13. Grant keys separate callers. Two callers that are not shim clients presenting a token
  have one key only if they are the same class of caller. Portal applications then have the same
  id (which is the same for every user by design); all others have the same uid. Native callers
  also agree on the unit, or on the executable when neither has a unit, and so do attested shim
  callers, as long as no executable is called \<open>unit:\<close> something; a shim caller of whom the daemon
  knows neither shares its key only with those of the same uid of whom it knows neither.
\<close>

theorem key_separates_callers:
  assumes "key a = key b" "id_client a = None" "id_client b = None"
  shows "id_class a = id_class b
    \<and> (id_class a \<noteq> Portal \<longrightarrow> id_uid a = id_uid b)
    \<and> (id_class a = Native \<longrightarrow> id_unit a = id_unit b \<and> (id_unit a = None \<longrightarrow> id_exe a = id_exe b))
    \<and> (id_class a = Portal \<longrightarrow> unwrap_or (id_app_id a) ''unknown'' = unwrap_or (id_app_id b) ''unknown'')
    \<and> (id_class a = Shim \<longrightarrow> shim_named a = shim_named b)
    \<and> (id_class a = Shim \<and> shim_named a
         \<and> (\<forall>e. id_exe a = Some e \<or> id_exe b = Some e \<longrightarrow> \<not> starts_with ''unit:'' e) \<longrightarrow>
       id_unit a = id_unit b \<and> (id_unit a = None \<longrightarrow> id_exe a = id_exe b))"
proof -
  have plain: "x @ CHR ''@'' # show_nat m \<noteq> CHR ''u'' # CHR ''i'' # CHR ''d'' # CHR '':'' # show_nat n"
    for x m n
    using uid_tail_not_plain[of "''uid:''" x "show_nat m" n] by simp
  have unit_exe: "CHR ''u'' # CHR ''n'' # CHR ''i'' # CHR ''t'' # CHR '':'' # x @ CHR ''@'' # show_nat m
      = y @ CHR ''@'' # show_nat n \<Longrightarrow> m = n" for x y m n
    using at_uid_unique[of "''unit:'' @ x" m y n] by simp
  have "id_class a = id_class b
    \<and> (id_class a \<noteq> Portal \<longrightarrow> id_uid a = id_uid b)
    \<and> (id_class a = Native \<longrightarrow> id_unit a = id_unit b \<and> (id_unit a = None \<longrightarrow> id_exe a = id_exe b))
    \<and> (id_class a = Portal \<longrightarrow> unwrap_or (id_app_id a) ''unknown'' = unwrap_or (id_app_id b) ''unknown'')"
    using assms
    by (cases "id_class a"; cases "id_class b")
      (auto simp: key_def at_uid_unique plain plain[symmetric] split: option.splits bool.splits
        dest: unit_exe unit_exe[OF sym])
  moreover have "shim_named a = shim_named b
      \<and> ((\<forall>e. id_exe a = Some e \<or> id_exe b = Some e \<longrightarrow> \<not> starts_with ''unit:'' e) \<and> shim_named a \<longrightarrow>
         id_unit a = id_unit b \<and> (id_unit a = None \<longrightarrow> id_exe a = id_exe b))"
    if "id_class a = Shim" "id_class b = Shim"
    using key_shim_separates[OF assms(1) that assms(2,3)]
    by (auto simp: shim_named_def starts_with_iff split: option.splits)
  ultimately show ?thesis
    by auto
qed

theorem key_separates_callers_witness:
  "\<exists>a b. key a = key b \<and> id_client a = None \<and> id_client b = None \<and> id_pid a \<noteq> id_pid b
      \<and> id_uid a = id_uid b \<and> id_unit a = id_unit b"
proof -
  define mk where "mk p = \<lparr> id_class = Native, id_uid = 1000, id_gid = 1000, id_pid = p,
       id_unit = Some ''org.gnome.TextEditor'', id_app_id = None,
       id_exe = None, id_client = None, id_attested = False \<rparr>" for p
  have same: "key (mk 7) = key (mk 8)" "id_client (mk 7) = None" "id_client (mk 8) = None"
    "id_class (mk 7) = Native" "id_pid (mk 7) \<noteq> id_pid (mk 8)"
    by (simp_all add: mk_def key_def)
  show ?thesis
    using key_separates_callers[OF same(1-3)] same by auto
qed


subsection \<open>Launch tokens\<close>

lemma ends_with_rev: "ends_with p s \<longleftrightarrow> starts_with (rev p) (rev s)"
proof -
  have "ends_with p s \<longleftrightarrow> (\<exists>r. rev s = rev (r @ p))"
    unfolding ends_with_iff by (metis rev_rev_ident)
  also have "\<dots> \<longleftrightarrow> starts_with (rev p) (rev s)"
    unfolding starts_with_iff by (metis rev_append rev_rev_ident)
  finally show ?thesis .
qed

lemma scope_suffixes [simp]:
  "strip_suffix ''.service'' (s @ ''.scope'') = None"
  by (simp add: strip_suffix_def ends_with_rev) (simp add: starts_with_def)

lemma first_sep_unique:
  "l @ c # r = x @ c # t \<Longrightarrow> c \<notin> set l \<Longrightarrow> c \<notin> set x \<Longrightarrow> l = x"
proof (induction l arbitrary: x)
  case Nil
  then show ?case
    by (cases x) auto
next
  case (Cons h u)
  then show ?case
    by (cases x) auto
qed

lemma starts_with_sep:
  assumes "starts_with (x @ [c]) (l @ c # r)" "c \<notin> set x" "c \<notin> set l"
  shows "x = l"
  using assms first_sep_unique[of l c r x] by (auto simp: starts_with_iff)

lemma split_on_member: "d \<in> set s \<Longrightarrow> d \<noteq> c \<Longrightarrow> \<exists>p\<in>set (split_on c s). d \<in> set p"
  by (induction s) (auto split: list.splits)

lemma token_no_dash: "is_launch_token t \<Longrightarrow> CHR ''-'' \<notin> set t"
  by (auto simp: is_launch_token_def list_all_iff is_ascii_hexdigit_def is_ascii_digit_def code_def)

lemma pop_launch_token_snoc:
  "ps \<noteq> [] \<Longrightarrow> is_launch_token t \<Longrightarrow> pop_launch_token (ps @ [t]) = ps"
  by (simp add: pop_launch_token_def)

lemma normalise_airun:
  assumes "is_launch_token tok"
  shows "normalise_unit (''app-airun-'' @ name @ ''-'' @ tok @ ''.scope'') = Some name"
proof -
  let ?n = "''app-airun-'' @ name @ ''-'' @ tok"
  have "normalise_unit (?n @ ''.scope'')
      = Some (join ''-'' (pop_launch_token (split_on (CHR ''-'') (name @ CHR ''-'' # tok))))"
    unfolding normalise_unit_def scope_suffixes strip_suffix_append option.case
    by (simp add: starts_with_def strip_prefix_def)
  also have "\<dots> = Some name"
    using token_no_dash[OF assms] assms
    by (simp add: split_on_append split_on_none pop_launch_token_snoc)
  finally show ?thesis
    by simp
qed

lemma normalise_app_scope:
  assumes launcher: "CHR ''-'' \<notin> set l" "CHR ''.'' \<notin> set l" "l \<noteq> ''airun''"
    and app: "CHR ''.'' \<in> set a"
    and tok: "is_launch_token tok"
  shows "normalise_unit (''app-'' @ l @ ''-'' @ a @ ''-'' @ tok @ ''.scope'') = Some a"
proof -
  let ?n = "''app-'' @ l @ ''-'' @ a @ ''-'' @ tok"
  have airun: "strip_prefix ''app-airun-'' ?n = None"
    using starts_with_sep[of "''airun''" "CHR ''-''" l "a @ ''-'' @ tok"] launcher
    by (auto simp: strip_prefix_def starts_with_def)
  have parts: "split_on (CHR ''-'') (l @ CHR ''-'' # a @ CHR ''-'' # tok)
      = (l # split_on (CHR ''-'') a) @ [tok]"
    using token_no_dash[OF tok] launcher by (simp add: split_on_append split_on_none)
  have dotted: "list_ex (\<lambda>p. CHR ''.'' \<in> set p) (split_on (CHR ''-'') a)"
    using split_on_member[OF app, of "CHR ''-''"] by (auto simp: list_ex_iff)
  have body: "drop_launcher (pop_launch_token (split_on (CHR ''-'') (l @ CHR ''-'' # a @ CHR ''-'' # tok)))
      = split_on (CHR ''-'') a"
    unfolding parts using tok dotted launcher
    by (simp add: pop_launch_token_snoc drop_launcher_def del: append_Cons)
  have "normalise_unit (?n @ ''.scope'') = Some (join ''-'' (split_on (CHR ''-'') a))"
    unfolding normalise_unit_def scope_suffixes strip_suffix_append option.case airun
    using body by (simp add: starts_with_def strip_prefix_def)
  then show ?thesis
    by simp
qed


definition uuid_shape :: "string list \<Rightarrow> bool" where
  "uuid_shape gs \<longleftrightarrow> map length gs = uuid_groups \<and> list_all (list_all is_ascii_hexdigit) gs"

lemma length_join: "ps \<noteq> [] \<Longrightarrow> length (join [c] ps) = sum_list (map length ps) + (length ps - 1)"
proof (induction ps)
  case (Cons p ps)
  then show ?case
    by (cases ps) auto
qed simp

lemma split_on_join:
  "ps \<noteq> [] \<Longrightarrow> (\<And>p. p \<in> set ps \<Longrightarrow> c \<notin> set p) \<Longrightarrow> split_on c (join [c] ps) = ps"
proof (induction ps)
  case (Cons p ps)
  then show ?case
    by (cases ps) (auto simp: split_on_none split_on_append)
qed simp

lemma hex_no_dash: "list_all is_ascii_hexdigit t \<Longrightarrow> CHR ''-'' \<notin> set t"
  by (auto simp: list_all_iff is_ascii_hexdigit_def is_ascii_digit_def code_def)

lemma strip_launch_uuid_append:
  assumes "uuid_shape gs"
  shows "strip_launch_uuid (x @ CHR ''-'' # join ''-'' gs) = Some x"
proof -
  have lens: "map length gs = [8, 4, 4, 4, 12]" and hex: "list_all (list_all is_ascii_hexdigit) gs"
    using assms by (auto simp: uuid_shape_def uuid_groups_def)
  have "length (map length gs) = 5"
    unfolding lens by simp
  then have n: "length gs = 5"
    by simp
  have "split_on (CHR ''-'') (join ''-'' gs) = gs"
    using n hex by (intro split_on_join) (auto simp: list_all_iff dest!: hex_no_dash[unfolded list_all_iff])
  then have parts: "split_on (CHR ''-'') (x @ CHR ''-'' # join ''-'' gs) = split_on (CHR ''-'') x @ gs"
    by (simp add: split_on_append)
  have groups: "list_all (\<lambda>(part, width). length part = width \<and> list_all is_ascii_hexdigit part)
      (zip gs (map length gs))"
    using hex by (auto simp: list_all_iff in_set_zip) (metis nth_mem)
  have "gs \<noteq> []"
    using n by auto
  then have len: "length (join ''-'' gs) = sum_list (map length gs) + 4"
    using n by (simp add: length_join)
  have tail: "drop (length (split_on (CHR ''-'') x @ gs) - length uuid_groups)
      (split_on (CHR ''-'') x @ gs) = gs"
    using n by (simp add: uuid_groups_def)
  have long: "\<not> length (split_on (CHR ''-'') x @ gs) \<le> length uuid_groups"
    using n by (cases "split_on (CHR ''-'') x") (auto simp: uuid_groups_def)
  have cut: "length (x @ CHR ''-'' # join ''-'' gs) - (sum_list uuid_groups + length uuid_groups) = length x"
    using len unfolding lens by (simp add: uuid_groups_def)
  show ?thesis
    unfolding strip_launch_uuid_def Let_def parts tail
    using long cut groups unfolding lens by (simp add: uuid_groups_def)
qed

lemma normalise_snap:
  assumes "uuid_shape gs"
  shows "normalise_unit (''snap.'' @ x @ ''-'' @ join ''-'' gs @ ''.scope'') = Some (''snap.'' @ x)"
proof -
  let ?n = "''snap.'' @ x @ ''-'' @ join ''-'' gs"
  have "normalise_unit (?n @ ''.scope'') = Some (unwrap_or (strip_launch_uuid ?n) ?n)"
    unfolding normalise_unit_def scope_suffixes strip_suffix_append option.case
    by (simp add: starts_with_def)
  then show ?thesis
    using strip_launch_uuid_append[OF assms, of "''snap.'' @ x"] by simp
qed

text \<open>
  The scopes that desktops, \<open>ai-run --as\<close> and snapd mint for one launch of an application:
  the name the application is known by, and the cgroup component.
\<close>

inductive launch_scope :: "string \<Rightarrow> string \<Rightarrow> bool" where
  desktop: "CHR ''-'' \<notin> set l \<Longrightarrow> CHR ''.'' \<notin> set l \<Longrightarrow> l \<noteq> ''airun'' \<Longrightarrow> CHR ''.'' \<in> set a
    \<Longrightarrow> is_launch_token tok \<Longrightarrow> launch_scope a (''app-'' @ l @ ''-'' @ a @ ''-'' @ tok @ ''.scope'')"
| airun: "is_launch_token tok \<Longrightarrow> launch_scope a (''app-airun-'' @ a @ ''-'' @ tok @ ''.scope'')"
| snap: "uuid_shape gs
    \<Longrightarrow> launch_scope (''snap.'' @ x) (''snap.'' @ x @ ''-'' @ join ''-'' gs @ ''.scope'')"

lemma launch_scope_normalises: "launch_scope a scp \<Longrightarrow> normalise_unit scp = Some a"
  by (induction rule: launch_scope.induct)
    (rule normalise_app_scope normalise_airun normalise_snap; assumption)+

lemma launch_scope_ends: "launch_scope a scp \<Longrightarrow> scp \<noteq> [] \<and> last scp = CHR ''e''"
  by (erule launch_scope.cases) simp_all

subsection \<open>The innermost unit of a cgroup line\<close>

lemma rsplit_once_SomeD:
  "rsplit_once p s = Some pr
    \<Longrightarrow> \<exists>i. starts_with p (drop i s) \<and> pr = (take i s, drop (i + length p) s)"
  by (auto simp: rsplit_once_def simp del: upt_Suc split: option.splits dest: find_Some_iff_first)

lemma after_last_keeps_tail:
  assumes "p = '':'' \<or> p = ''::''" "CHR '':'' \<notin> set t"
  shows "\<exists>b. after_last p (a @ CHR ''/'' # t) = b @ CHR ''/'' # t"
proof (cases "rsplit_once p (a @ CHR ''/'' # t)")
  case None
  then show ?thesis
    by (auto simp: after_last_def)
next
  case (Some pr)
  let ?s = "a @ CHR ''/'' # t"
  obtain i where i: "starts_with p (drop i ?s)" and pr: "pr = (take i ?s, drop (i + length p) ?s)"
    using rsplit_once_SomeD[OF Some] by blast
  have len: "i + length p \<le> length ?s"
    using i assms(1) by (auto simp: starts_with_def dest!: arg_cong[where f=length])
  have colon: "?s ! (i + k) = CHR '':''" if "k < length p" for k
  proof -
    have "p ! k = drop i ?s ! k"
      using i that by (metis nth_take starts_with_def)
    moreover have "p ! k = CHR '':''"
      using that assms(1) by (auto simp: less_Suc_eq)
    moreover have "drop i ?s ! k = ?s ! (i + k)"
      using len by (intro nth_drop) simp
    ultimately show ?thesis
      by metis
  qed
  have "i + length p \<le> length a"
  proof (rule ccontr)
    assume "\<not> i + length p \<le> length a"
    then have past: "length a \<le> i + (length p - 1)" and pos: "length p - 1 < length p"
      using assms(1) by auto
    let ?j = "i + (length p - 1)"
    have "?s ! ?j = CHR '':''"
      by (rule colon[OF pos])
    moreover have "?s ! ?j = (CHR ''/'' # t) ! (?j - length a)"
      using past by (simp add: nth_append)
    moreover have "?j - length a < length (CHR ''/'' # t)"
      using len pos past by simp
    ultimately have "CHR '':'' \<in> set (CHR ''/'' # t)"
      by (metis nth_mem)
    then show False
      using assms(2) by simp
  qed
  then show ?thesis
    using Some pr by (simp add: after_last_def)
qed

lemma unit_of_line_innermost:
  assumes "normalise_unit t = Some u" "CHR '':'' \<notin> set t" "CHR ''/'' \<notin> set t"
  shows "unit_of_line (a @ CHR ''/'' # t) = Some u"
proof -
  obtain b where b: "after_last ''::'' (a @ CHR ''/'' # t) = b @ CHR ''/'' # t"
    using after_last_keeps_tail assms(2) by blast
  obtain c where c: "after_last '':'' (b @ CHR ''/'' # t) = c @ CHR ''/'' # t"
    using after_last_keeps_tail assms(2) by blast
  show ?thesis
    using assms by (simp add: unit_of_line_def b c split_on_append split_on_none)
qed

lemma rust_lines_single:
  "CHR 0x0A \<notin> set s \<Longrightarrow> rust_lines (s @ [CHR 0x0A]) = [strip_cr s]"
  by (simp add: rust_lines_def split_on_append split_on_none Let_def)

lemma unit_from_cgroup_launch:
  assumes "launch_scope app scp"
    and "CHR '':'' \<notin> set scp" "CHR ''/'' \<notin> set scp"
    and "CHR 0x0A \<notin> set scp" "CHR 0x0A \<notin> set dir"
  shows "unit_from_cgroup (dir @ ''/'' @ scp @ [CHR 0x0A]) = Some app"
proof -
  have "rust_lines (dir @ ''/'' @ scp @ [CHR 0x0A]) = [strip_cr (dir @ ''/'' @ scp)]"
    using rust_lines_single[of "dir @ ''/'' @ scp"] assms(4,5) by simp
  also have "strip_cr (dir @ ''/'' @ scp) = dir @ CHR ''/'' # scp"
    using launch_scope_ends[OF assms(1)] by (simp add: strip_cr_def)
  finally show ?thesis
    using unit_of_line_innermost[OF launch_scope_normalises[OF assms(1)] assms(2,3)]
    by (simp add: unit_from_cgroup_def)
qed

text \<open>
  The grant key survives a relaunch. Whatever pid, launch token, launcher or cgroup
  directory the desktop gives a new launch of an application, a native caller's key is
  \<open>unit:<application>@<uid>\<close>; so a grant remembered at one launch is found at the next. The
  application is named by its dotted id in a desktop scope, by exactly the name given in an
  \<open>ai-run --as\<close> scope, and by snap and command in a snapd scope.
\<close>

theorem key_survives_relaunch:
  assumes "launch_scope app scp"
    and "CHR '':'' \<notin> set scp" "CHR ''/'' \<notin> set scp"
    and "CHR 0x0A \<notin> set scp" "CHR 0x0A \<notin> set dir"
    and "read_text (proc_path pid ''cgroup'') = Some (dir @ ''/'' @ scp @ [CHR 0x0A])"
  shows "key (from_pid_uid read_text read_link pid uid gid Native) = ''unit:'' @ app @ ''@'' @ show_nat uid"
  using unit_from_cgroup_launch[OF assms(1-5)] assms(6)
  by (simp add: from_pid_uid_def unit_of_pid_def key_def)

theorem key_survives_relaunch_witness:
  "key (from_pid_uid
      (\<lambda>p. if p = proc_path 4242 ''cgroup''
           then Some (''0::/user.slice'' @ ''/'' @ ''app-gnome-org.gnome.TextEditor-4242.scope'' @ [CHR 0x0A])
           else None)
      (\<lambda>p. None) 4242 1000 1000 Native) = ''unit:org.gnome.TextEditor@'' @ show_nat 1000"
proof -
  have "launch_scope ''org.gnome.TextEditor''
      (''app-'' @ ''gnome'' @ ''-'' @ ''org.gnome.TextEditor'' @ ''-'' @ ''4242'' @ ''.scope'')"
    by (rule launch_scope.desktop)
      (simp_all add: is_launch_token_def is_ascii_digit_def code_def)
  then show ?thesis
    using key_survives_relaunch[of "''org.gnome.TextEditor''"
        "''app-gnome-org.gnome.TextEditor-4242.scope''" "''0::/user.slice''"
        "\<lambda>p. if p = proc_path 4242 ''cgroup''
             then Some (''0::/user.slice'' @ ''/'' @ ''app-gnome-org.gnome.TextEditor-4242.scope'' @ [CHR 0x0A])
             else None" 4242 "\<lambda>p. None" 1000 1000]
    by simp
qed


subsection \<open>Account files\<close>

text \<open>A line of \<open>/etc/passwd\<close> or \<open>/etc/group\<close>: the name, the password field, the number, the rest.\<close>

definition account_line :: "string \<times> string \<times> nat \<times> string \<Rightarrow> string" where
  "account_line e = (case e of (name, pw, num, rest) \<Rightarrow>
     name @ '':'' @ pw @ '':'' @ show_nat num @ '':'' @ rest @ [CHR 0x0A])"

definition account_ok :: "string \<times> string \<times> nat \<times> string \<Rightarrow> bool" where
  "account_ok e \<longleftrightarrow> (case e of (name, pw, num, rest) \<Rightarrow>
     CHR '':'' \<notin> set name \<and> CHR 0x0A \<notin> set name \<and> CHR '':'' \<notin> set pw \<and> CHR 0x0A \<notin> set pw
     \<and> num < U32 \<and> CHR 0x0A \<notin> set rest)"

lemma newline_not_digit: "CHR 0x0A \<notin> set (show_nat n)" "CHR '':'' \<notin> set (show_nat n)"
  by (rule not_digit_show_nat, simp add: is_ascii_digit_def code_def)+

lemma rust_lines_cons:
  assumes "CHR 0x0A \<notin> set l"
  shows "rust_lines (l @ CHR 0x0A # s) = strip_cr l # rust_lines s"
  using assms by (simp add: rust_lines_def split_on_append split_on_none Let_def)

lemma strip_cr_account:
  "strip_cr (a @ '':'' @ rest) = a @ '':'' @ (if rest = [] then [] else strip_cr rest)"
  by (auto simp: strip_cr_def butlast_append)

lemma rust_lines_Nil [simp]: "rust_lines [] = []"
  by (simp add: rust_lines_def)

text \<open>
  Account lookup. On a file of well-formed account lines the parser finds the number of
  the first entry with exactly the name asked for, and nothing when no entry has that name;
  a name that is a prefix of another is not confused with it.
\<close>

theorem field_two_finds_first:
  assumes "list_all account_ok es"
  shows "field_two (concat (map account_line es)) name
    = map_option (\<lambda>(_, _, num, _). num) (List.find (\<lambda>(n, _). n = name) es)"
  using assms
proof (induction es)
  case (Cons e es)
  obtain n pw num rest where e: "e = (n, pw, num, rest)"
    by (cases e) auto
  let ?l = "n @ '':'' @ pw @ '':'' @ show_nat num @ '':'' @ rest"
  have ok: "CHR 0x0A \<notin> set ?l" "CHR '':'' \<notin> set n" "CHR '':'' \<notin> set pw" "num < U32"
    using Cons.prems newline_not_digit[of num] by (auto simp: account_ok_def e)
  obtain r where cr: "strip_cr ?l = n @ '':'' @ pw @ '':'' @ show_nat num @ '':'' @ r"
    using strip_cr_account[of "n @ '':'' @ pw @ '':'' @ show_nat num" rest] by simp
  have fields: "split_on (CHR '':'') (strip_cr ?l) = n # pw # show_nat num # split_on (CHR '':'') r"
    unfolding cr using ok newline_not_digit[of num] by (simp add: split_on_append split_on_none)
  have lines: "rust_lines (account_line e @ concat (map account_line es))
      = strip_cr ?l # rust_lines (concat (map account_line es))"
    using rust_lines_cons[OF ok(1)] by (simp add: account_line_def e)
  have "field_two (concat (map account_line (e # es))) name
      = (if n = name then Some num else field_two (concat (map account_line es)) name)"
    unfolding field_two_def using lines fields parse_show_nat[OF ok(4)] by simp
  then show ?case
    using Cons by (simp add: e)
qed (simp add: field_two_def)

theorem field_two_finds_first_witness:
  "field_two (concat (map account_line
      [(''ai'', ''x'', 7, ''/:/bin/sh''), (''ai-daemon'', ''x'', 990, ''/:/sbin/nologin'')])) ''ai-daemon''
   = Some 990"
  by (subst field_two_finds_first) (simp_all add: account_ok_def)

end
