(* ===== verification/Registry.thy ===== *)
theory Registry
  imports Identity Config "HOL-Library.AList"
begin

text \<open>
  The model registry: \<open>crates/ai-daemon/src/registry.rs\<close> and the manifests of
  \<open>crates/ai-daemon-proto/src/manifest.rs\<close>. The file system is an association list from paths
  to contents, changed by the same writes, renames and removals as in the code; an operation
  that can fail for reasons outside the store fails by a parameter. Two things the sources only
  call are arguments: the SHA-256 digest in hexadecimal, and the JSON encoding of a manifest and
  of an alias table.
\<close>

subsection \<open>Manifests\<close>

record requirements =
  weights_bytes :: nat
  min_memory_bytes :: nat
  default_ctx :: nat
  max_ctx :: nat

record template =
  chat_format :: "string option"
  bos :: "string option"
  eos :: "string option"

record manifest =
  m_name :: string
  m_digest :: string
  m_format :: string
  m_quantization :: string
  m_license :: string
  m_requirements :: requirements
  m_template :: template
  m_backend :: string
  m_capabilities :: "string list"
  m_source :: string

definition REMOTE_FORMAT :: string where "REMOTE_FORMAT = ''remote''"

definition serves :: "manifest \<Rightarrow> string \<Rightarrow> bool" where
  "serves m capability \<longleftrightarrow>
     (if m_capabilities m = [] then capability = ''generate''
      else list_ex (\<lambda>claim. claim = capability) (m_capabilities m))"

definition is_remote :: "manifest \<Rightarrow> bool" where
  "is_remote m \<longleftrightarrow> m_format m = REMOTE_FORMAT"

subsection \<open>The store on disk\<close>

datatype store = System | User

record resolved =
  rs_manifest :: manifest
  rs_blob :: string
  rs_store :: store

type_synonym fs = "(string \<times> string) list"

record codec =
  sha256_hex :: "string \<Rightarrow> string"
  manifest_json :: "manifest \<Rightarrow> string"
  manifest_of_json :: "string \<Rightarrow> manifest option"
  aliases_json :: "(string \<times> string) list \<Rightarrow> string"
  aliases_of_json :: "string \<Rightarrow> (string \<times> string) list option"

record registry =
  system_root :: string
  config_aliases :: "(string \<times> string) list"
  cache :: "manifest list option"

text \<open>\<open>Path::join\<close>: an absolute second path replaces the first.\<close>

definition join_path :: "string \<Rightarrow> string \<Rightarrow> string" where
  "join_path a b = (if starts_with ''/'' b then b else a @ ''/'' @ b)"

definition path_components :: "string \<Rightarrow> string list" where
  "path_components p = filter (\<lambda>c. c \<noteq> [] \<and> c \<noteq> ''.'') (split_on (CHR ''/'') p)"

definition path_starts_with :: "string \<Rightarrow> string \<Rightarrow> bool" where
  "path_starts_with p base \<longleftrightarrow> take (length (path_components base)) (path_components p) = path_components base"

definition manifest_path :: "string \<Rightarrow> string \<Rightarrow> string" where
  "manifest_path base name = join_path (join_path base ''manifests'') (name @ ''.json'')"

definition aliases_path :: "string \<Rightarrow> string" where
  "aliases_path base = join_path base ''aliases.json''"

definition staging_dir :: "registry \<Rightarrow> string" where
  "staging_dir r = join_path (system_root r) ''staging''"

definition registry_new :: "string \<Rightarrow> (string \<times> string) list \<Rightarrow> registry" where
  "registry_new state aliases =
     \<lparr> system_root = join_path state ''models'', config_aliases = aliases, cache = None \<rparr>"

definition hex_of :: "string \<Rightarrow> string + string" where
  "hex_of digest =
     (case strip_prefix ''sha256:'' digest of
        None \<Rightarrow> Inl (''unsupported digest '' @ digest @ ''; only sha256 in v1'')
      | Some hex \<Rightarrow>
          if length hex \<noteq> 64 \<or> \<not> list_all is_ascii_hexdigit hex
          then Inl (''malformed sha256 digest '' @ digest)
          else Inr hex)"

definition blob_path :: "string \<Rightarrow> string \<Rightarrow> string + string" where
  "blob_path base digest =
     rbind (hex_of digest) (\<lambda>hex. Inr (join_path (join_path base ''blobs/sha256'') hex))"

definition blob_for :: "string \<Rightarrow> manifest \<Rightarrow> string + string" where
  "blob_for base m = (if is_remote m then Inr [] else blob_path base (m_digest m))"

definition digest_file :: "codec \<Rightarrow> fs \<Rightarrow> string \<Rightarrow> string option" where
  "digest_file cd f path = map_option (\<lambda>bytes. ''sha256:'' @ sha256_hex cd bytes) (map_of f path)"

definition read_manifest :: "codec \<Rightarrow> fs \<Rightarrow> string \<Rightarrow> manifest option" where
  "read_manifest cd f path = Option.bind (map_of f path) (manifest_of_json cd)"

text \<open>The entries of a directory: the paths directly below it.\<close>

definition dir_entries :: "fs \<Rightarrow> string \<Rightarrow> string list" where
  "dir_entries f dir =
     List.map_filter
       (\<lambda>p. case strip_prefix (dir @ ''/'') p of
              None \<Rightarrow> None
            | Some leaf \<Rightarrow> if leaf = [] \<or> CHR ''/'' \<in> set leaf then None else Some leaf)
       (map fst f)"

definition read_manifests :: "codec \<Rightarrow> fs \<Rightarrow> string \<Rightarrow> manifest list" where
  "read_manifests cd f dir =
     sort_key m_name
       (List.map_filter (\<lambda>leaf. read_manifest cd f (join_path dir leaf))
          (filter (\<lambda>leaf. extension leaf = Some ''json'') (dir_entries f dir)))"

definition read_aliases :: "codec \<Rightarrow> fs \<Rightarrow> string \<Rightarrow> (string \<times> string) list" where
  "read_aliases cd f path = unwrap_or (Option.bind (map_of f path) (aliases_of_json cd)) []"

text \<open>After the third field, \<open>nth(1)\<close> skips one field and takes the next.\<close>

fun home_of_lines :: "string list \<Rightarrow> nat \<Rightarrow> string option" where
  "home_of_lines [] uid = None"
| "home_of_lines (line # rest) uid =
     (case split_on (CHR '':'') line of
        name # pw # entry_uid # others \<Rightarrow>
          (case parse_u32 entry_uid of
             None \<Rightarrow> None
           | Some n \<Rightarrow>
               if n = uid then
                 (if 1 < length others then
                    (let home = others ! 1 in if home = [] \<or> home = ''/'' then None else Some home)
                  else None)
               else home_of_lines rest uid)
      | _ \<Rightarrow> None)"

definition home_of_uid :: "fs \<Rightarrow> nat \<Rightarrow> string option" where
  "home_of_uid f uid = Option.bind (map_of f ''/etc/passwd'') (\<lambda>t. home_of_lines (rust_lines t) uid)"

definition user_root :: "fs \<Rightarrow> nat \<Rightarrow> string option" where
  "user_root f uid = map_option (\<lambda>home. join_path home ''.local/share/ai-daemon/models'') (home_of_uid f uid)"

subsection \<open>Reading the registry\<close>

definition invalidate :: "registry \<Rightarrow> registry" where
  "invalidate r = r\<lparr> cache := None \<rparr>"

definition system_manifests :: "codec \<Rightarrow> fs \<Rightarrow> registry \<Rightarrow> manifest list \<times> registry" where
  "system_manifests cd f r =
     (case cache r of
        Some cached \<Rightarrow> (cached, r)
      | None \<Rightarrow>
          let ms = read_manifests cd f (join_path (system_root r) ''manifests'')
          in (ms, r\<lparr> cache := Some ms \<rparr>))"

text \<open>The values of an ordered map, in key order.\<close>

definition into_values :: "(string \<times> 'a) list \<Rightarrow> 'a list" where
  "into_values m = map snd (sort_key fst m)"

definition list_models :: "codec \<Rightarrow> fs \<Rightarrow> registry \<Rightarrow> nat option \<Rightarrow> (manifest \<times> store) list \<times> registry" where
  "list_models cd f r uid =
     (let (sys, r') = system_manifests cd f r;
          by_name = fold (\<lambda>m. AList.update (m_name m) (m, System)) sys [];
          by_name' =
            (case Option.bind uid (user_root f) of
               None \<Rightarrow> by_name
             | Some base \<Rightarrow>
                 fold (\<lambda>m. AList.update (m_name m) (m, User))
                   (read_manifests cd f (join_path base ''manifests'')) by_name)
      in (into_values by_name', r'))"

definition resolve_alias :: "codec \<Rightarrow> fs \<Rightarrow> registry \<Rightarrow> string \<Rightarrow> nat option \<Rightarrow> string option" where
  "resolve_alias cd f r alias uid =
     (let from_user =
            Option.bind (Option.bind uid (user_root f))
              (\<lambda>base. map_of (read_aliases cd f (aliases_path base)) alias)
      in case from_user of
           Some target \<Rightarrow> Some target
         | None \<Rightarrow>
             (case map_of (config_aliases r) alias of
                Some target \<Rightarrow> Some target
              | None \<Rightarrow> map_of (read_aliases cd f (aliases_path (system_root r))) alias))"

text \<open>\<open>BTreeMap::extend\<close>: later pairs replace earlier ones.\<close>

definition extend :: "(string \<times> string) list \<Rightarrow> (string \<times> string) list \<Rightarrow> (string \<times> string) list" where
  "extend m others = fold (\<lambda>(k, v). AList.update k v) others m"

definition aliases :: "codec \<Rightarrow> fs \<Rightarrow> registry \<Rightarrow> nat option \<Rightarrow> (string \<times> string) list" where
  "aliases cd f r uid =
     (let all = extend (read_aliases cd f (aliases_path (system_root r))) (config_aliases r)
      in case Option.bind uid (user_root f) of
           None \<Rightarrow> all
         | Some base \<Rightarrow> extend all (read_aliases cd f (aliases_path base)))"

definition resolve :: "codec \<Rightarrow> fs \<Rightarrow> registry \<Rightarrow> string \<Rightarrow> nat option \<Rightarrow> string + resolved" where
  "resolve cd f r name uid =
     (let target = unwrap_or (resolve_alias cd f r name uid) name;
          in_user =
            Option.bind (Option.bind uid (user_root f))
              (\<lambda>base. map_option (\<lambda>m. (base, m)) (read_manifest cd f (manifest_path base target)))
      in case in_user of
           Some (base, m) \<Rightarrow>
             rbind (blob_for base m) (\<lambda>blob. Inr \<lparr> rs_manifest = m, rs_blob = blob, rs_store = User \<rparr>)
         | None \<Rightarrow>
             rbind (ok_or (read_manifest cd f (manifest_path (system_root r) target))
                      (''no model named '' @ target @ '' in this install'')) (\<lambda>m.
             rbind (blob_for (system_root r) m) (\<lambda>blob.
               Inr \<lparr> rs_manifest = m, rs_blob = blob, rs_store = System \<rparr>)))"

subsection \<open>Changing the registry\<close>

text \<open>
  A write or a rename may fail: \<open>blocked\<close> gives the error of writing to a path. A failed write
  changes nothing (the temporary file aside, which nothing reads).
\<close>

type_synonym blocked = "string \<Rightarrow> string option"

definition write_atomic :: "blocked \<Rightarrow> fs \<Rightarrow> string \<Rightarrow> string \<Rightarrow> string + fs" where
  "write_atomic blk f path bytes =
     (case blk path of Some e \<Rightarrow> Inl e | None \<Rightarrow> Inr (AList.update path bytes f))"

definition set_alias :: "codec \<Rightarrow> blocked \<Rightarrow> registry \<Rightarrow> string \<Rightarrow> string \<Rightarrow> fs \<Rightarrow> (string + unit) \<times> fs" where
  "set_alias cd blk r alias target f =
     (let path = aliases_path (system_root r);
          table = AList.update alias target (read_aliases cd f path)
      in case write_atomic blk f path (aliases_json cd table) of
           Inl e \<Rightarrow> (Inl e, f)
         | Inr f' \<Rightarrow> (Inr (), f'))"

definition place_blob :: "blocked \<Rightarrow> fs \<Rightarrow> string \<Rightarrow> string \<Rightarrow> string \<Rightarrow> string + fs" where
  "place_blob blk f staged bytes dest =
     (if map_of f dest \<noteq> None then Inr (AList.delete staged f)
      else
        (case blk dest of
           Some e \<Rightarrow> Inl (''moving into store: '' @ e)
         | None \<Rightarrow> Inr (AList.update dest bytes (AList.delete staged f))))"

definition accept_staged :: "codec \<Rightarrow> blocked \<Rightarrow> string \<Rightarrow> manifest \<Rightarrow> string \<Rightarrow> registry \<Rightarrow> fs
    \<Rightarrow> (string + manifest) \<times> registry \<times> fs" where
  "accept_staged cd blk staged m expected r f =
     (if \<not> path_starts_with staged (staging_dir r)
      then (Inl (staged @ '' is not in the staging directory''), r, f)
      else
        (case map_of f staged of
           None \<Rightarrow> (Inl (''hashing '' @ staged @ '': no such file''), r, f)
         | Some bytes \<Rightarrow>
             let actual = ''sha256:'' @ sha256_hex cd bytes
             in if actual \<noteq> expected
                then (Inl (''digest mismatch: expected '' @ expected @ '', got '' @ actual), r,
                      AList.delete staged f)
                else
                  let req = m_requirements m;
                      m' = m\<lparr> m_digest := actual,
                              m_requirements :=
                                (if weights_bytes req = 0 then req\<lparr> weights_bytes := length bytes \<rparr>
                                 else req) \<rparr>
                  in case blob_path (system_root r) actual of
                       Inl e \<Rightarrow> (Inl e, r, f)
                     | Inr dest \<Rightarrow>
                         (case place_blob blk f staged bytes dest of
                            Inl e \<Rightarrow> (Inl e, r, f)
                          | Inr f1 \<Rightarrow>
                              (case write_atomic blk f1 (manifest_path (system_root r) (m_name m'))
                                      (manifest_json cd m') of
                                 Inl e \<Rightarrow> (Inl e, r, f1)
                               | Inr f2 \<Rightarrow> (Inr m', invalidate r, f2)))))"

definition register_remote :: "codec \<Rightarrow> blocked \<Rightarrow> manifest \<Rightarrow> registry \<Rightarrow> fs
    \<Rightarrow> (string + manifest) \<times> registry \<times> fs" where
  "register_remote cd blk m r f =
     (if \<not> is_remote m
      then (Inl (''register_remote called for '' @ m_name m @ '' which is format '' @ m_format m), r, f)
      else
        (case write_atomic blk f (manifest_path (system_root r) (m_name m)) (manifest_json cd m) of
           Inl e \<Rightarrow> (Inl e, r, f)
         | Inr f' \<Rightarrow> (Inr m, invalidate r, f')))"

definition remove_model :: "codec \<Rightarrow> blocked \<Rightarrow> string \<Rightarrow> registry \<Rightarrow> fs \<Rightarrow> (string + unit) \<times> registry \<times> fs" where
  "remove_model cd blk name r f =
     (let path = manifest_path (system_root r) name
      in case read_manifest cd f path of
           None \<Rightarrow> (Inl (''no model named '' @ name), r, f)
         | Some m \<Rightarrow>
             (case blk path of
                Some e \<Rightarrow> (Inl e, r, f)
              | None \<Rightarrow>
                  let f1 = AList.delete path f;
                      (ms, r1) = system_manifests cd f1 (invalidate r);
                      still = list_ex (\<lambda>o'. m_digest o' = m_digest m) ms
                  in if \<not> still \<and> \<not> is_remote m
                     then (case blob_path (system_root r) (m_digest m) of
                             Inr blob \<Rightarrow> (Inr (), r1, AList.delete blob f1)
                           | Inl _ \<Rightarrow> (Inr (), r1, f1))
                     else (Inr (), r1, f1)))"


subsection \<open>Aliases\<close>

lemma map_of_extend:
  "distinct (map fst xs) \<Longrightarrow> map_of (extend m xs) k = (case map_of xs k of Some v \<Rightarrow> Some v | None \<Rightarrow> map_of m k)"
proof (induction xs arbitrary: m)
  case Nil
  then show ?case
    by (simp add: extend_def)
next
  case (Cons x xs)
  obtain a b where x: "x = (a, b)"
    by (cases x)
  have "extend m (x # xs) = extend (AList.update a b m) xs"
    by (simp add: extend_def x)
  moreover have "map_of xs a = None"
    using Cons.prems by (simp add: x map_of_eq_None_iff)
  ultimately show ?case
    using Cons by (auto simp: x update_conv' split: option.splits)
qed

text \<open>What a parsed alias table is: a map, so each alias once.\<close>

definition alias_tables_ok :: "codec \<Rightarrow> registry \<Rightarrow> bool" where
  "alias_tables_ok cd r \<longleftrightarrow>
     distinct (map fst (config_aliases r))
     \<and> (\<forall>t al. aliases_of_json cd t = Some al \<longrightarrow> distinct (map fst al))"

lemma read_aliases_distinct: "alias_tables_ok cd r \<Longrightarrow> distinct (map fst (read_aliases cd f p))"
  by (cases "map_of f p"; cases "aliases_of_json cd (the (map_of f p))")
    (auto simp: alias_tables_ok_def read_aliases_def)

text \<open>
  What is listed is what is resolved. For every user, the alias table the daemon lists
  maps a name exactly as a session opened under that name would resolve it: the user's own
  table first, then the configuration, then the system table.
\<close>

theorem aliases_agree_with_resolution:
  assumes "alias_tables_ok cd r"
  shows "map_of (aliases cd f r uid) a = resolve_alias cd f r a uid"
proof -
  have d: "distinct (map fst (config_aliases r))"
    using assms by (simp add: alias_tables_ok_def)
  define ur where "ur = Option.bind uid (user_root f)"
  show ?thesis
    unfolding aliases_def resolve_alias_def Let_def ur_def[symmetric]
    by (cases ur) (simp_all add: map_of_extend d read_aliases_distinct[OF assms] split: option.split)
qed

definition plain_codec :: codec where
  "plain_codec =
     \<lparr> sha256_hex = (\<lambda>_. replicate 64 (CHR ''0'')), manifest_json = (\<lambda>_. []), manifest_of_json = (\<lambda>_. None),
       aliases_json = (\<lambda>_. []), aliases_of_json = (\<lambda>t. if t = ''fast'' then Some [(''fast'', ''tiny'')] else None) \<rparr>"

theorem aliases_agree_with_resolution_witness:
  "map_of (aliases plain_codec [(''/m/aliases.json'', ''fast'')]
      \<lparr> system_root = ''/m'', config_aliases = [(''default'', ''big'')], cache = None \<rparr> None) ''fast''
   = Some ''tiny''"
  by (subst aliases_agree_with_resolution)
    (simp_all add: alias_tables_ok_def plain_codec_def resolve_alias_def read_aliases_def aliases_path_def
      join_path_def starts_with_def)

subsection \<open>Whose home\<close>

text \<open>An entry of \<open>/etc/passwd\<close> with its seven fields, and its line.\<close>

record passwd_entry =
  pw_name :: string
  pw_pass :: string
  pw_uid :: nat
  pw_gid :: nat
  pw_gecos :: string
  pw_home :: string
  pw_shell :: string

definition passwd_line :: "passwd_entry \<Rightarrow> string" where
  "passwd_line e =
     account_line (pw_name e, pw_pass e, pw_uid e,
       show_nat (pw_gid e) @ '':'' @ pw_gecos e @ '':'' @ pw_home e @ '':'' @ pw_shell e)"

definition passwd_ok :: "passwd_entry \<Rightarrow> bool" where
  "passwd_ok e \<longleftrightarrow>
     pw_uid e < U32 \<and>
     (\<forall>x\<in>{pw_name e, pw_pass e, pw_gecos e, pw_home e, pw_shell e}.
        CHR '':'' \<notin> set x \<and> CHR 0x0A \<notin> set x)"

lemma home_of_lines_cons:
  assumes "passwd_ok e"
  shows "home_of_lines (rust_lines (passwd_line e @ rest)) uid =
    (if pw_uid e = uid
     then (if pw_gecos e = [] \<or> pw_gecos e = ''/'' then None else Some (pw_gecos e))
     else home_of_lines (rust_lines rest) uid)"
proof -
  let ?r = "show_nat (pw_gid e) @ '':'' @ pw_gecos e @ '':'' @ pw_home e @ '':'' @ pw_shell e"
  let ?l = "pw_name e @ '':'' @ pw_pass e @ '':'' @ show_nat (pw_uid e) @ '':'' @ ?r"
  have ok: "CHR 0x0A \<notin> set ?l" "CHR '':'' \<notin> set (pw_name e)" "CHR '':'' \<notin> set (pw_pass e)"
    "CHR '':'' \<notin> set (pw_gecos e)" "CHR '':'' \<notin> set (pw_home e)" "pw_uid e < U32"
    using assms newline_not_digit by (auto simp: passwd_ok_def)
  obtain sh where cr: "strip_cr ?l = pw_name e @ '':'' @ pw_pass e @ '':'' @ show_nat (pw_uid e) @ '':''
      @ show_nat (pw_gid e) @ '':'' @ pw_gecos e @ '':'' @ pw_home e @ '':'' @ sh"
    using strip_cr_account[of "pw_name e @ '':'' @ pw_pass e @ '':'' @ show_nat (pw_uid e) @ '':''
      @ show_nat (pw_gid e) @ '':'' @ pw_gecos e @ '':'' @ pw_home e" "pw_shell e"] by simp
  have fields: "split_on (CHR '':'') (strip_cr ?l) = pw_name e # pw_pass e # show_nat (pw_uid e)
      # show_nat (pw_gid e) # pw_gecos e # pw_home e # split_on (CHR '':'') sh"
    unfolding cr using ok newline_not_digit[of "pw_uid e"] newline_not_digit[of "pw_gid e"]
    by (simp add: split_on_append split_on_none)
  have "rust_lines (passwd_line e @ rest) = strip_cr ?l # rust_lines rest"
    using rust_lines_cons[OF ok(1)] by (simp add: passwd_line_def account_line_def)
  then show ?thesis
    using fields parse_show_nat[OF ok(6)] by simp
qed

text \<open>
  The user store is looked for in the wrong place. On a well-formed password file the
  function that should return a user's home directory returns the comment (GECOS) field of
  their entry, never the home field: with an empty comment the user has no store at all, and
  otherwise the store is below whatever the comment says, which users can edit themselves.
\<close>

theorem home_of_uid_is_the_comment_field:
  assumes "list_all passwd_ok es"
  shows "home_of_uid [(''/etc/passwd'', concat (map passwd_line es))] uid =
    Option.bind (List.find (\<lambda>e. pw_uid e = uid) es)
      (\<lambda>e. if pw_gecos e = [] \<or> pw_gecos e = ''/'' then None else Some (pw_gecos e))"
proof -
  have "home_of_lines (rust_lines (concat (map passwd_line es))) uid =
      Option.bind (List.find (\<lambda>e. pw_uid e = uid) es)
        (\<lambda>e. if pw_gecos e = [] \<or> pw_gecos e = ''/'' then None else Some (pw_gecos e))"
    using assms by (induction es) (simp_all add: home_of_lines_cons)
  then show ?thesis
    by (simp add: home_of_uid_def)
qed

theorem home_of_uid_is_the_comment_field_witness:
  "home_of_uid [(''/etc/passwd'', concat (map passwd_line
      [\<lparr> pw_name = ''ada'', pw_pass = ''x'', pw_uid = 1000, pw_gid = 1000, pw_gecos = ''/tmp/evil'',
         pw_home = ''/home/ada'', pw_shell = ''/bin/sh'' \<rparr>]))] 1000 = Some ''/tmp/evil''"
  by (subst home_of_uid_is_the_comment_field) (simp_all add: passwd_ok_def)


subsection \<open>Integrity of the store\<close>

lemma hex_of_Inr:
  "hex_of d = Inr hex \<longleftrightarrow> d = ''sha256:'' @ hex \<and> length hex = 64 \<and> list_all is_ascii_hexdigit hex"
  by (auto simp: hex_of_def strip_prefix_Some_iff split: option.splits if_splits)
    (simp_all add: strip_prefix_def starts_with_def split: if_splits)

lemma hex_no_slash: "list_all is_ascii_hexdigit hex \<Longrightarrow> CHR ''/'' \<notin> set hex"
  by (auto simp: list_all_iff is_ascii_hexdigit_def is_ascii_digit_def code_def)

lemma join_plain: "CHR ''/'' \<notin> set b \<Longrightarrow> join_path a b = a @ ''/'' @ b"
  by (cases b) (auto simp: join_path_def starts_with_def)

lemma blob_path_Inr:
  assumes "blob_path base d = Inr p"
  obtains hex where "d = ''sha256:'' @ hex" "p = base @ ''/blobs/sha256/'' @ hex"
    "length hex = 64" "list_all is_ascii_hexdigit hex"
proof -
  obtain hex where h: "hex_of d = Inr hex" and p: "p = join_path (join_path base ''blobs/sha256'') hex"
    using assms by (auto simp: blob_path_def rbind_Inr_iff)
  have ok: "d = ''sha256:'' @ hex" "length hex = 64" "list_all is_ascii_hexdigit hex"
    using h by (simp_all add: hex_of_Inr)
  have "p = base @ ''/blobs/sha256/'' @ hex"
    unfolding p join_plain[OF hex_no_slash[OF ok(3)]] by (simp add: join_path_def starts_with_def)
  then show thesis
    using that ok by blast
qed

lemma blob_path_inj: "blob_path base d = Inr p \<Longrightarrow> blob_path base d' = Inr p \<Longrightarrow> d = d'"
  by (elim blob_path_Inr) simp

lemma manifest_path_plain:
  "CHR ''/'' \<notin> set name \<Longrightarrow> manifest_path base name = base @ ''/manifests/'' @ name @ ''.json''"
  by (simp add: manifest_path_def join_plain)

lemma manifest_path_inj:
  "CHR ''/'' \<notin> set a \<Longrightarrow> CHR ''/'' \<notin> set b \<Longrightarrow> manifest_path base a = manifest_path base b \<longleftrightarrow> a = b"
  by (simp add: manifest_path_plain)

lemma blob_not_manifest:
  "blob_path base d = Inr p \<Longrightarrow> CHR ''/'' \<notin> set name \<Longrightarrow> p \<noteq> manifest_path base name"
  by (elim blob_path_Inr) (simp add: manifest_path_plain)

lemma blob_never_manifest: "blob_path base d = Inr p \<Longrightarrow> p \<noteq> manifest_path base' name"
proof
  assume p: "blob_path base d = Inr p" and eq: "p = manifest_path base' name"
  obtain hex where hex: "p = base @ ''/blobs/sha256/'' @ hex" "length hex = 64" "list_all is_ascii_hexdigit hex"
    using p by (blast elim: blob_path_Inr)
  then have "last p = last hex" "hex \<noteq> []"
    by auto
  then have "is_ascii_hexdigit (last p)"
    using hex(3) by (metis last_in_set list_all_iff)
  moreover have "last p = CHR ''n''"
    by (simp add: eq manifest_path_def join_path_def)
  ultimately show False
    by (simp add: is_ascii_hexdigit_def is_ascii_digit_def code_def)
qed

lemma path_components_append:
  "path_components (a @ ''/'' @ b) = path_components a @ path_components b"
  by (simp add: path_components_def split_on_append)

lemma staging_differs: "''staging'' \<noteq> ''manifests''" "''staging'' \<noteq> ''blobs''"
  by simp_all

lemma staged_elsewhere:
  assumes "path_starts_with staged (join_path base ''staging'')"
  shows "staged \<noteq> base @ ''/manifests/'' @ x" "staged \<noteq> base @ ''/blobs/sha256/'' @ x"
proof -
  have dir: "path_components (join_path base ''staging'') = path_components base @ [''staging'']"
    using path_components_append[of base "''staging''"]
    by (simp add: join_path_def starts_with_def path_components_def)
  have man: "path_components (base @ ''/manifests/'' @ x) = path_components base @ ''manifests'' # path_components x"
    using path_components_append[of base "''manifests/'' @ x"] path_components_append[of "''manifests''" x]
    by (simp add: path_components_def)
  have blob: "path_components (base @ ''/blobs/sha256/'' @ x)
      = path_components base @ ''blobs'' # ''sha256'' # path_components x"
    using path_components_append[of base "''blobs/sha256/'' @ x"] path_components_append[of "''blobs''" "''sha256/'' @ x"]
      path_components_append[of "''sha256''" x]
    by (simp add: path_components_def)
  have start: "take (length (path_components base @ [''staging''])) (path_components staged)
      = path_components base @ [''staging'']"
    using assms unfolding path_starts_with_def dir .
  have differs: False
    if "path_components staged = path_components base @ c # rest" "c \<noteq> ''staging''" for c rest
    using start that by simp
  show "staged \<noteq> base @ ''/manifests/'' @ x"
    using differs[OF _ staging_differs(1)[symmetric]] man by metis
  show "staged \<noteq> base @ ''/blobs/sha256/'' @ x"
    using differs[OF _ staging_differs(2)[symmetric]] blob by metis
qed

text \<open>Content addressing: a file in the blob directory is what its name says.\<close>

definition store_ok :: "codec \<Rightarrow> string \<Rightarrow> fs \<Rightarrow> bool" where
  "store_ok cd base f \<longleftrightarrow>
     (\<forall>d p bytes. blob_path base d = Inr p \<longrightarrow> map_of f p = Some bytes \<longrightarrow> d = ''sha256:'' @ sha256_hex cd bytes)"

text \<open>The JSON encoding the registry relies on: what is written for a manifest reads back.\<close>

definition json_ok :: "codec \<Rightarrow> manifest \<Rightarrow> bool" where
  "json_ok cd m \<longleftrightarrow> manifest_of_json cd (manifest_json cd m) = Some m"

lemma accept_staged_Inr:
  assumes "accept_staged cd blk staged m expected r f = (Inr m', r', f')"
  obtains bytes dest f1 where
    "path_starts_with staged (staging_dir r)" "map_of f staged = Some bytes"
    "expected = ''sha256:'' @ sha256_hex cd bytes" "m_digest m' = expected" "m_name m' = m_name m"
    "m_format m' = m_format m"
    "blob_path (system_root r) expected = Inr dest"
    "f1 = (if map_of f dest \<noteq> None then AList.delete staged f
           else AList.update dest bytes (AList.delete staged f))"
    "f' = AList.update (manifest_path (system_root r) (m_name m)) (manifest_json cd m') f1"
    "r' = invalidate r"
  using assms that
  by (auto simp: accept_staged_def place_blob_def write_atomic_def Let_def
      split: if_splits option.splits sum.splits)

text \<open>What an accepted file does to the blobs: only its own is added, so the store stays content-addressed.\<close>

lemma accept_staged_store:
  assumes acc: "accept_staged cd blk staged m expected r f = (Inr m', r', f')"
    and name: "CHR ''/'' \<notin> set (m_name m)" and store: "store_ok cd (system_root r) f"
  shows "\<exists>bytes dest stored. map_of f staged = Some bytes \<and> expected = ''sha256:'' @ sha256_hex cd bytes
      \<and> blob_path (system_root r) expected = Inr dest
      \<and> map_of f' dest = Some stored \<and> expected = ''sha256:'' @ sha256_hex cd stored"
    and "store_ok cd (system_root r) f'"
proof -
  obtain bytes dest f1 where a: "path_starts_with staged (staging_dir r)" "map_of f staged = Some bytes"
    "expected = ''sha256:'' @ sha256_hex cd bytes" "blob_path (system_root r) expected = Inr dest"
    and f1: "f1 = (if map_of f dest \<noteq> None then AList.delete staged f
           else AList.update dest bytes (AList.delete staged f))"
    and f': "f' = AList.update (manifest_path (system_root r) (m_name m)) (manifest_json cd m') f1"
    using accept_staged_Inr[OF acc] by metis
  have not_blob: "blob_path (system_root r) d = Inr p \<Longrightarrow> p \<noteq> staged" for d p
    using staged_elsewhere(2) a(1) by (metis blob_path_Inr staging_dir_def)
  have blob_at: "map_of f' p = (if p = dest \<and> map_of f dest = None then Some bytes else map_of f p)"
    if "blob_path (system_root r) d = Inr p" for d p
    using blob_not_manifest[OF that name] not_blob[OF that]
    by (auto simp: f' f1 update_conv' delete_conv')
  have "\<exists>b. map_of f' dest = Some b \<and> expected = ''sha256:'' @ sha256_hex cd b"
  proof (cases "map_of f dest")
    case None
    then show ?thesis
      using blob_at[OF a(4)] a(3) by simp
  next
    case (Some b)
    then show ?thesis
      using blob_at[OF a(4)] a(4) store unfolding store_ok_def by fastforce
  qed
  then show "\<exists>bytes dest stored. map_of f staged = Some bytes \<and> expected = ''sha256:'' @ sha256_hex cd bytes
      \<and> blob_path (system_root r) expected = Inr dest
      \<and> map_of f' dest = Some stored \<and> expected = ''sha256:'' @ sha256_hex cd stored"
    using a by blast
  show "store_ok cd (system_root r) f'"
    unfolding store_ok_def
    using blob_at store a(3,4) blob_path_inj unfolding store_ok_def by (metis option.inject)
qed

text \<open>
  Nothing enters the store unverified. When a staged file is accepted under a plain name,
  the digest recorded is the digest of the bytes that were staged and the one that was
  expected; resolving the name then gives exactly that manifest and a blob path holding bytes
  with that digest; the store stays content-addressed, and no other manifest changes.
\<close>

theorem accept_staged_verified:
  assumes acc: "accept_staged cd blk staged m expected r f = (Inr m', r', f')"
    and name: "CHR ''/'' \<notin> set (m_name m)" and local_m: "\<not> is_remote m"
    and no_alias: "resolve_alias cd f' r' (m_name m) None = None"
    and json: "json_ok cd m'" and store: "store_ok cd (system_root r) f"
  shows "m_digest m' = expected
    \<and> (\<exists>blob bytes. resolve cd f' r' (m_name m) None
           = Inr \<lparr> rs_manifest = m', rs_blob = blob, rs_store = System \<rparr>
         \<and> map_of f' blob = Some bytes \<and> expected = ''sha256:'' @ sha256_hex cd bytes)
    \<and> store_ok cd (system_root r) f'
    \<and> (\<forall>other. CHR ''/'' \<notin> set other \<and> other \<noteq> m_name m \<longrightarrow>
          read_manifest cd f' (manifest_path (system_root r) other)
            = read_manifest cd f (manifest_path (system_root r) other))"
proof -
  obtain bytes dest f1 where a: "path_starts_with staged (staging_dir r)" "map_of f staged = Some bytes"
    "expected = ''sha256:'' @ sha256_hex cd bytes" "m_digest m' = expected" "m_name m' = m_name m"
    "m_format m' = m_format m" "blob_path (system_root r) expected = Inr dest"
    and f1: "f1 = (if map_of f dest \<noteq> None then AList.delete staged f
           else AList.update dest bytes (AList.delete staged f))"
    and f': "f' = AList.update (manifest_path (system_root r) (m_name m)) (manifest_json cd m') f1"
    and r': "r' = invalidate r"
    using accept_staged_Inr[OF acc] .
  let ?root = "system_root r" and ?mp = "manifest_path (system_root r) (m_name m)"
  have elsewhere: "staged \<noteq> manifest_path ?root n" if "CHR ''/'' \<notin> set n" for n
    using staged_elsewhere(1) a(1) that by (simp add: staging_dir_def manifest_path_plain)
  have held: "\<exists>b. map_of f' dest = Some b \<and> expected = ''sha256:'' @ sha256_hex cd b"
    using accept_staged_store(1)[OF acc name store] a(7) by auto
  have "read_manifest cd f' ?mp = Some m'"
    using json by (simp add: read_manifest_def f' update_conv' json_ok_def)
  then have "resolve cd f' r' (m_name m) None = Inr \<lparr> rs_manifest = m', rs_blob = dest, rs_store = System \<rparr>"
    using no_alias a local_m by (simp add: resolve_def r' invalidate_def blob_for_def is_remote_def)
  moreover have "store_ok cd ?root f'"
    by (rule accept_staged_store(2)[OF acc name store])
  moreover have "read_manifest cd f' (manifest_path ?root n) = read_manifest cd f (manifest_path ?root n)"
    if n: "CHR ''/'' \<notin> set n" "n \<noteq> m_name m" for n
  proof -
    have "manifest_path ?root n \<noteq> ?mp" "manifest_path ?root n \<noteq> dest" "manifest_path ?root n \<noteq> staged"
      using manifest_path_inj[OF n(1) name] n(2) blob_not_manifest[OF a(7) n(1)] elsewhere[OF n(1)] by auto
    then show ?thesis
      by (auto simp: read_manifest_def f' f1 update_conv' delete_conv')
  qed
  ultimately show ?thesis
    using a(4) held by blast
qed


definition sample_manifest :: manifest where
  "sample_manifest =
     \<lparr> m_name = ''tiny'', m_digest = [], m_format = ''gguf'', m_quantization = [], m_license = [],
       m_requirements = \<lparr> weights_bytes = 0, min_memory_bytes = 0, default_ctx = 0, max_ctx = 0 \<rparr>,
       m_template = \<lparr> chat_format = None, bos = None, eos = None \<rparr>, m_backend = [],
       m_capabilities = [''generate''], m_source = [] \<rparr>"

definition zero_hex :: string where
  "zero_hex = replicate 64 (CHR ''0'')"

definition installed_manifest :: manifest where
  "installed_manifest = sample_manifest\<lparr> m_digest := ''sha256:'' @ zero_hex,
     m_requirements := \<lparr> weights_bytes = 2, min_memory_bytes = 0, default_ctx = 0, max_ctx = 0 \<rparr> \<rparr>"

definition sample_codec :: codec where
  "sample_codec =
     \<lparr> sha256_hex = (\<lambda>_. zero_hex), manifest_json = (\<lambda>_. ''M''),
       manifest_of_json = (\<lambda>t. if t = ''M'' then Some installed_manifest else None),
       aliases_json = (\<lambda>_. []), aliases_of_json = (\<lambda>_. None) \<rparr>"

definition sample_registry :: registry where
  "sample_registry = \<lparr> system_root = ''/m'', config_aliases = [], cache = None \<rparr>"

lemma zero_hex_ok: "hex_of (''sha256:'' @ zero_hex) = Inr zero_hex"
  by (simp add: hex_of_Inr zero_hex_def is_ascii_hexdigit_def is_ascii_digit_def code_def list_all_iff)

lemma sample_dest: "blob_path ''/m'' (''sha256:'' @ zero_hex) = Inr (''/m/blobs/sha256/'' @ zero_hex)"
  unfolding blob_path_def zero_hex_ok rbind_simps
  by (simp add: join_path_def starts_with_def zero_hex_def)

lemma sample_accept:
  "accept_staged sample_codec (\<lambda>_. None) ''/m/staging/w'' sample_manifest (''sha256:'' @ zero_hex)
     sample_registry [(''/m/staging/w'', ''ab'')]
   = (Inr installed_manifest, invalidate sample_registry,
      AList.update (manifest_path ''/m'' ''tiny'') ''M''
        (AList.update (''/m/blobs/sha256/'' @ zero_hex) ''ab'' []))"
proof -
  have "path_starts_with ''/m/staging/w'' (staging_dir sample_registry)"
    by (simp add: staging_dir_def sample_registry_def join_path_def starts_with_def path_starts_with_def
        path_components_def)
  moreover have "map_of [(''/m/staging/w'', ''ab'')] (''/m/blobs/sha256/'' @ zero_hex) = None"
    by simp
  ultimately show ?thesis
    unfolding accept_staged_def
    using sample_dest
    by (simp add: sample_codec_def sample_registry_def place_blob_def write_atomic_def Let_def
        installed_manifest_def sample_manifest_def del: append_Cons)
qed

theorem accept_staged_verified_witness:
  "\<exists>blob. map_of (AList.update (manifest_path ''/m'' ''tiny'') ''M''
        (AList.update (''/m/blobs/sha256/'' @ zero_hex) ''ab'' [])) blob \<noteq> None
     \<and> m_digest installed_manifest = ''sha256:'' @ zero_hex"
proof -
  have noalias: "resolve_alias sample_codec f (invalidate sample_registry) n None = None" for f n
    by (simp add: resolve_alias_def sample_registry_def invalidate_def read_aliases_def sample_codec_def
        split: option.splits)
  have json: "json_ok sample_codec installed_manifest"
    by (simp add: json_ok_def sample_codec_def)
  have store: "store_ok sample_codec (system_root sample_registry) [(''/m/staging/w'', ''ab'')]"
    unfolding store_ok_def
    by (auto simp: sample_registry_def split: if_splits elim!: blob_path_Inr)
  have plain: "CHR ''/'' \<notin> set (m_name sample_manifest)" "\<not> is_remote sample_manifest"
    by (simp_all add: sample_manifest_def is_remote_def REMOTE_FORMAT_def)
  show ?thesis
    using accept_staged_verified[OF sample_accept plain noalias json store] by auto
qed

subsection \<open>Removal\<close>

lemma dir_entries_delete_outside:
  assumes "strip_prefix (dir @ ''/'') p = None"
  shows "dir_entries (AList.delete p f) dir = dir_entries f dir"
  unfolding dir_entries_def AList.delete_eq
  using assms by (induction f) (auto simp: List.map_filter_def)

lemma map_filter_cong: "(\<And>x. x \<in> set xs \<Longrightarrow> f x = g x) \<Longrightarrow> List.map_filter f xs = List.map_filter g xs"
  by (induction xs) (simp_all add: List.map_filter_simps split: option.split)

lemma read_manifests_delete_outside:
  assumes "strip_prefix (dir @ ''/'') p = None"
  shows "read_manifests cd (AList.delete p f) dir = read_manifests cd f dir"
proof -
  have "read_manifest cd (AList.delete p f) (join_path dir leaf) = read_manifest cd f (join_path dir leaf)"
    if "leaf \<in> set (dir_entries f dir)" for leaf
  proof -
    have "CHR ''/'' \<notin> set leaf"
      using that by (auto simp: dir_entries_def List.map_filter_def split: option.splits if_splits)
    then have "join_path dir leaf = (dir @ ''/'') @ leaf"
      by (simp add: join_plain)
    then have "strip_prefix (dir @ ''/'') (join_path dir leaf) = Some leaf"
      by (simp only: strip_prefix_append)
    then have "join_path dir leaf \<noteq> p"
      using assms by auto
    then show ?thesis
      by (simp add: read_manifest_def delete_conv')
  qed
  then show ?thesis
    unfolding read_manifests_def dir_entries_delete_outside[OF assms]
    by (intro arg_cong[where f = "sort_key m_name"] map_filter_cong) simp
qed


text \<open>
  Removal is by reference. Removing a model removes its manifest and never a blob that a
  manifest still in the store names: for every local model left, its weights are exactly what
  they were. When no model left has the digest, the blob goes too, so nothing is leaked.
\<close>

theorem remove_model_keeps_shared_blobs:
  assumes "remove_model cd blk name r f = (Inr (), r', f')"
    and "read_manifest cd f (manifest_path (system_root r) name) = Some m"
  shows "(\<forall>m2\<in>set (read_manifests cd f' (join_path (system_root r) ''manifests'')). \<forall>blob.
            blob_path (system_root r) (m_digest m2) = Inr blob \<longrightarrow> map_of f' blob = map_of f blob)
    \<and> map_of f' (manifest_path (system_root r) name) = None
    \<and> (\<forall>blob. \<not> is_remote m \<and> blob_path (system_root r) (m_digest m) = Inr blob
          \<and> m_digest m \<notin> m_digest ` set (read_manifests cd f' (join_path (system_root r) ''manifests''))
        \<longrightarrow> map_of f' blob = None)"
proof -
  let ?base = "system_root r" and ?mp = "manifest_path (system_root r) name"
  let ?dir = "join_path (system_root r) ''manifests''"
  define f1 where "f1 = AList.delete ?mp f"
  define ms where "ms = read_manifests cd f1 ?dir"
  have dir: "?dir = ?base @ ''/manifests''"
    by (simp add: join_path_def starts_with_def)
  have outside: "read_manifests cd (AList.delete blob f1) ?dir = ms"
    if bp: "blob_path ?base d = Inr blob" for d blob
  proof -
    obtain hex where "blob = ?base @ ''/blobs/sha256/'' @ hex"
      using bp by (blast elim: blob_path_Inr)
    then have "strip_prefix (?dir @ ''/'') blob = None"
      by (simp add: dir strip_prefix_def starts_with_def)
    then show ?thesis
      unfolding ms_def by (rule read_manifests_delete_outside)
  qed
  have f': "f' = (if (\<forall>x\<in>set ms. m_digest x \<noteq> m_digest m) \<and> \<not> is_remote m
      then (case blob_path ?base (m_digest m) of Inr blob \<Rightarrow> AList.delete blob f1 | Inl _ \<Rightarrow> f1) else f1)"
    using assms
    by (auto simp: remove_model_def Let_def system_manifests_def invalidate_def ms_def f1_def list_ex_iff
        split: option.splits sum.splits if_splits)
  have left: "read_manifests cd f' ?dir = ms"
    using outside by (auto simp: f' ms_def split: sum.splits)
  have kept: "map_of f' blob = map_of f blob"
    if m2: "m2 \<in> set ms" "blob_path ?base (m_digest m2) = Inr blob" for m2 blob
  proof -
    have "map_of f1 blob = map_of f blob"
      using blob_never_manifest[OF m2(2)] by (simp add: f1_def delete_conv')
    moreover have "blob_path ?base (m_digest m) = Inr blob \<Longrightarrow> m_digest m2 = m_digest m"
      using m2(2) by (blast dest: blob_path_inj)
    ultimately show ?thesis
      using m2(1) by (auto simp: f' delete_conv' split: sum.splits)
  qed
  have gone: "map_of f' ?mp = None"
    by (auto simp: f' f1_def delete_conv' split: sum.splits)
  have freed: "map_of f' blob = None"
    if "\<not> is_remote m" "blob_path ?base (m_digest m) = Inr blob" "m_digest m \<notin> m_digest ` set ms" for blob
  proof -
    have "\<forall>x\<in>set ms. m_digest x \<noteq> m_digest m"
      using that(3) by (metis imageI)
    then show ?thesis
      using that(1,2) by (simp add: f' delete_conv')
  qed
  show ?thesis
    unfolding left using kept gone freed by blast
qed


lemma remove_model_succeeds:
  assumes "read_manifest cd f (manifest_path (system_root r) name) = Some m"
  shows "\<exists>r' f'. remove_model cd (\<lambda>_. None) name r f = (Inr (), r', f')"
  using assms by (simp add: remove_model_def Let_def case_prod_beta split: sum.split)

theorem remove_model_keeps_shared_blobs_witness:
  "\<exists>r' f'. remove_model sample_codec (\<lambda>_. None) ''tiny'' sample_registry
        [(''/m/manifests/tiny.json'', ''M''), (''/m/blobs/sha256/'' @ zero_hex, ''ab'')] = (Inr (), r', f')
      \<and> map_of f' ''/m/manifests/tiny.json'' = None"
proof -
  let ?f = "[(''/m/manifests/tiny.json'', ''M''), (''/m/blobs/sha256/'' @ zero_hex, ''ab'')]"
  have mp: "manifest_path (system_root sample_registry) ''tiny'' = ''/m/manifests/tiny.json''"
    by (simp add: manifest_path_plain sample_registry_def)
  have m: "read_manifest sample_codec ?f (manifest_path (system_root sample_registry) ''tiny'') = Some installed_manifest"
    unfolding mp by (simp add: read_manifest_def sample_codec_def)
  obtain r' f' where "remove_model sample_codec (\<lambda>_. None) ''tiny'' sample_registry ?f = (Inr (), r', f')"
    using remove_model_succeeds[OF m] by blast
  then show ?thesis
    using remove_model_keeps_shared_blobs[OF _ m] unfolding mp by blast
qed

end
