(* ===== verification/Polkit.thy ===== *)
theory Polkit
  imports Identity
begin

text \<open>
  Asking the user through polkit: \<open>crates/ai-daemon/src/polkit.rs\<close>. The bus call to the polkit
  authority is an argument: it takes the subject (pid and start time), the action and the
  details, and answers with an error text or the two flags of the reply.
\<close>

type_synonym bus_call = "nat \<times> nat \<Rightarrow> string \<Rightarrow> (string \<times> string) list \<Rightarrow> string + bool \<times> bool"

definition interpret_reply :: "bool \<Rightarrow> bool \<Rightarrow> string + bool" where
  "interpret_reply authorized challenge =
     (if authorized then Inr True
      else if \<not> challenge then Inr False
      else Inl ''polkit requires authentication for this action and no authentication agent answered; run an agent (pkttyagent works on a terminal) or grant the action in a polkit rule'')"

definition ask_authority :: "bus_call \<Rightarrow> nat \<times> nat \<Rightarrow> string \<Rightarrow> (string \<times> string) list \<Rightarrow> string + bool" where
  "ask_authority call subject action details =
     rbind (call subject action details) (\<lambda>(authorized, challenge). interpret_reply authorized challenge)"

text \<open>Field 22 of the stat line, counted from the last closing parenthesis.\<close>

definition process_start_time :: "files \<Rightarrow> int \<Rightarrow> nat option" where
  "process_start_time read_text pid =
     Option.bind (read_text (proc_path pid ''stat'')) (\<lambda>stat.
     Option.bind (rsplit_once '')'' stat) (\<lambda>(_, tail).
       let fields = split_whitespace tail
       in if 19 < length fields then parse_u64 (fields ! 19) else None))"

definition polkit_subject :: "files \<Rightarrow> identity \<Rightarrow> nat \<times> nat" where
  "polkit_subject read_text i =
     (nat (max (id_pid i) 0), unwrap_or (process_start_time read_text (id_pid i)) 0)"

definition check_authorization :: "bus_call \<Rightarrow> files \<Rightarrow> identity \<Rightarrow> string \<Rightarrow> string + bool" where
  "check_authorization call read_text i action =
     (let details = [(''application'', display i), (''identity.class'', id_class_as_str (id_class i))]
      in case ask_authority call (polkit_subject read_text i) action details of
           Inr authorized \<Rightarrow> Inr authorized
         | Inl e \<Rightarrow>
             if contains_str ''pass details'' e
             then ask_authority call (polkit_subject read_text i) action []
             else Inl e)"

text \<open>An answer that reaches the caller is one the authority gave: an unanswered challenge is not.\<close>

lemma ask_authority_Inr:
  "ask_authority call s a d = Inr b \<Longrightarrow> \<exists>c. call s a d = Inr (b, c) \<and> (b \<or> \<not> c)"
  by (auto simp: ask_authority_def rbind_Inr_iff interpret_reply_def split: if_splits)

lemma check_authorization_Inr:
  assumes "check_authorization call read_text i action = Inr b"
  shows "\<exists>details c. call (polkit_subject read_text i) action details = Inr (b, c) \<and> (b \<or> \<not> c)"
proof -
  have "\<exists>d. ask_authority call (polkit_subject read_text i) action d = Inr b"
    using assms by (auto simp: check_authorization_def Let_def split: sum.splits if_splits)
  then show ?thesis
    using ask_authority_Inr by blast
qed

end
