(* ===== verification/Policy.thy ===== *)
theory Policy
  imports Config Polkit "HOL-Library.AList" "HOL-Library.Product_Lexorder"
begin

text \<open>
  Grants, limits, spend and sessions: \<open>crates/ai-daemon/src/policy.rs\<close>. The state behind the
  engine's lock is a record with the maps of the struct (association lists with one entry per
  key, since reports iterate over them); every method is a function of the configuration, the
  state and what it reads from outside: the clock (nanoseconds), the bus and the process
  files. Writing \<open>grants.json\<close> does not change the state and its failure is only logged, so
  persistence is the list of grants that is written.
\<close>

subsection \<open>Grants and limits\<close>

definition CAP_GENERATE :: string where "CAP_GENERATE = ''generate''"
definition CAP_GENERATE_TOOLS :: string where "CAP_GENERATE_TOOLS = ''generate-tools''"
definition CAP_EMBED :: string where "CAP_EMBED = ''embed''"
definition CAP_MODEL_ADMIN :: string where "CAP_MODEL_ADMIN = ''model-admin''"
definition CAP_GENERATE_MEDIA :: string where "CAP_GENERATE_MEDIA = ''generate-media''"

definition ALL_CAPABILITIES :: "string list" where
  "ALL_CAPABILITIES = [CAP_GENERATE, CAP_GENERATE_TOOLS, CAP_GENERATE_MEDIA, CAP_EMBED, CAP_MODEL_ADMIN]"

lemmas cap_defs = CAP_GENERATE_def CAP_GENERATE_TOOLS_def CAP_EMBED_def CAP_MODEL_ADMIN_def
  CAP_GENERATE_MEDIA_def

datatype decision = Allow | Deny

record grant =
  g_identity :: string
  g_capability :: string
  g_decision :: decision
  g_decided_at :: nat
  g_via :: string

record limits =
  l_max_context :: nat
  l_max_sessions :: nat
  l_tokens_per_minute :: nat
  l_daily_spend_micros :: nat
  l_prelude :: string
  l_mark_provenance :: bool
  l_session_rate :: "nat option"
  l_no_tools :: bool
  l_allowed_models :: "string list"

definition permits_model :: "limits \<Rightarrow> string \<Rightarrow> bool" where
  "permits_model l model \<longleftrightarrow> list_ex (\<lambda>m. m = ''*'' \<or> m = model) (l_allowed_models l)"

definition SPEND_WINDOW :: nat where
  "SPEND_WINDOW = 24 * 60 * 60 * 1000000000"

definition to_micros :: "f64 \<Rightarrow> nat" where
  "to_micros units =
     (if \<not> is_finite units \<or> f_le units (Fin 0) then 0
      else f_to_u64 (f_round (f_mul units (Fin 1000000))))"

text \<open>Three decimal places, the exact value rounded half to even, as the formatter does.\<close>

fun pad3 :: "nat \<Rightarrow> string" where
  "pad3 n = (if n < 10 then ''00'' else if n < 100 then ''0'' else []) @ show_nat n"

definition render_micros :: "nat \<Rightarrow> string" where
  "render_micros micros =
     (case f_div_const (f_of_nat micros) 1000000 of
        Fin x \<Rightarrow> (let n = nat (round_half_even (x * 1000)) in show_nat (n div 1000) @ ''.'' @ pad3 (n mod 1000))
      | PosInf \<Rightarrow> ''inf'' | NegInf \<Rightarrow> ''-inf'' | NaN \<Rightarrow> ''NaN'')"

subsection \<open>Token buckets\<close>

record bucket =
  tokens :: f64
  capacity :: f64
  per_second :: f64
  last_at :: nat

definition bucket_new :: "nat \<Rightarrow> nat \<Rightarrow> bucket" where
  "bucket_new now per_minute =
     (let c = f_of_nat (max per_minute 1)
      in \<lparr> tokens = c, capacity = c, per_second = f_div_const c 60, last_at = now \<rparr>)"

definition bucket_refill :: "nat \<Rightarrow> bucket \<Rightarrow> f64" where
  "bucket_refill now b =
     f_min (f_add (tokens b) (f_mul (as_secs_f64 (now - last_at b)) (per_second b))) (capacity b)"

definition bucket_take :: "nat \<Rightarrow> nat \<Rightarrow> bucket \<Rightarrow> bool \<times> bucket" where
  "bucket_take now n b =
     (let have_now = bucket_refill now b
      in if f_le (f_of_nat n) have_now
         then (True, b\<lparr> last_at := now, tokens := f_sub have_now (f_of_nat n) \<rparr>)
         else (False, b\<lparr> last_at := now, tokens := have_now \<rparr>))"

subsection \<open>The engine\<close>

record policy_state =
  grants :: "((string \<times> string) \<times> grant) list"
  buckets :: "(string \<times> bucket) list"
  sessions :: "(string \<times> nat) list"
  spend :: "(string \<times> (nat \<times> nat) list) list"
  usage :: "(string \<times> (nat \<times> nat) list) list"

definition load_grants :: "(string \<Rightarrow> grant list option) \<Rightarrow> string option \<Rightarrow> ((string \<times> string) \<times> grant) list" where
  "load_grants parse file =
     (case Option.bind file parse of
        None \<Rightarrow> []
      | Some gs \<Rightarrow> fold (\<lambda>g. AList.update (g_identity g, g_capability g) g) gs [])"

definition policy_new :: "(string \<Rightarrow> grant list option) \<Rightarrow> string option \<Rightarrow> policy_state" where
  "policy_new parse file =
     \<lparr> grants = load_grants parse file, buckets = [], sessions = [], spend = [], usage = [] \<rparr>"

text \<open>The identities warned about at start-up: an allowance below one full turn.\<close>

definition starved :: "config \<Rightarrow> string list" where
  "starved c =
     (let p = c_policy c
      in (if p_tokens_per_minute p < p_max_context p then [''the default''] else []) @
         map rule_identity
           (filter (\<lambda>r. unwrap_or (rule_tokens_per_minute r) (p_tokens_per_minute p)
                        < unwrap_or (rule_max_context r) (p_max_context p)) (c_identities c)))"

definition gate :: "config \<Rightarrow> files \<Rightarrow> identity \<Rightarrow> string + unit" where
  "gate c read_text i =
     (let group = trim (gate_group (c_policy c))
      in if group = [] \<or> id_class i = Portal then Inr ()
         else
           (case gid_of_group read_text group of
              None \<Rightarrow> Inl (''the '' @ group @ '' group does not exist on this machine, so nobody is permitted to use the daemon; create it (sysusers.d does this on install) or clear policy.gate_group'')
            | Some gid \<Rightarrow>
                if gid \<in> set (groups_of_pid read_text (id_pid i)) then Inr ()
                else Inl (key i @ '' is not in the '' @ group @ '' group, which is the machine's gate on using local inference at all'')))"

definition limits_for :: "config \<Rightarrow> identity \<Rightarrow> limits" where
  "limits_for c i =
     (let d = c_policy c;
          base = \<lparr> l_max_context = p_max_context d, l_max_sessions = p_max_sessions d,
                   l_tokens_per_minute = p_tokens_per_minute d,
                   l_daily_spend_micros = to_micros (p_daily_spend d), l_prelude = p_prelude d,
                   l_mark_provenance = p_mark_provenance d, l_session_rate = None,
                   l_no_tools = False, l_allowed_models = p_allowed_models d \<rparr>
      in case rule_for c (key i) of
           None \<Rightarrow> base
         | Some r \<Rightarrow>
             base\<lparr> l_max_context := unwrap_or (rule_max_context r) (l_max_context base),
                   l_max_sessions := unwrap_or (rule_max_sessions r) (l_max_sessions base),
                   l_tokens_per_minute := unwrap_or (rule_tokens_per_minute r) (l_tokens_per_minute base),
                   l_daily_spend_micros :=
                     unwrap_or (map_option to_micros (rule_daily_spend r)) (l_daily_spend_micros base),
                   l_prelude := unwrap_or (rule_prelude r) (l_prelude base),
                   l_mark_provenance := unwrap_or (rule_mark_provenance r) (l_mark_provenance base),
                   l_allowed_models := unwrap_or (rule_allowed_models r) (l_allowed_models base) \<rparr>)"

definition remember :: "grant \<Rightarrow> policy_state \<Rightarrow> policy_state" where
  "remember g st = st\<lparr> grants := AList.update (g_identity g, g_capability g) g (grants st) \<rparr>"

definition ask_polkit :: "bus_call option \<Rightarrow> files \<Rightarrow> identity \<Rightarrow> string \<Rightarrow> string + bool" where
  "ask_polkit bus read_text i action =
     (case bus of
        None \<Rightarrow> Inl ''the daemon has no bus connection to reach polkit on''
      | Some call \<Rightarrow> check_authorization call read_text i action)"

definition unreachable_msg :: "identity \<Rightarrow> string \<Rightarrow> string \<Rightarrow> string" where
  "unreachable_msg i capability reason =
     key i @ '' may not '' @ capability @ '': no authority could be reached ('' @ reason @ '')''"

definition action_of :: "string \<Rightarrow> string" where
  "action_of capability =
     (if capability = CAP_EMBED then ''io.github.agraves.aidaemon.embed''
      else if capability = CAP_GENERATE_TOOLS then ''io.github.agraves.aidaemon.generate-tools''
      else if capability = CAP_GENERATE_MEDIA then ''io.github.agraves.aidaemon.generate-media''
      else ''io.github.agraves.aidaemon.generate'')"

text \<open>How an unknown pair is decided: the decision and how it was reached, or nobody to ask.\<close>

definition polkit_decision :: "string + bool \<Rightarrow> string + decision \<times> string" where
  "polkit_decision answer = rbind answer (\<lambda>yes. Inr (if yes then Allow else Deny, ''polkit''))"

definition decide :: "config \<Rightarrow> bus_call option \<Rightarrow> files \<Rightarrow> identity \<Rightarrow> string \<Rightarrow> string + decision \<times> string" where
  "decide c bus read_text i capability =
     (if capability = CAP_MODEL_ADMIN
      then polkit_decision (ask_polkit bus read_text i ''io.github.agraves.aidaemon.model-admin'')
      else
        (case p_consent (c_policy c) of
           Consent_Deny \<Rightarrow> Inr (Deny, ''default'')
         | Consent_Allow \<Rightarrow> Inr (Allow, ''config'')
         | Consent_Polkit \<Rightarrow> polkit_decision (ask_polkit bus read_text i (action_of capability))))"

definition check_unknown :: "config \<Rightarrow> bus_call option \<Rightarrow> files \<Rightarrow> nat \<Rightarrow> identity \<Rightarrow> string \<Rightarrow> policy_state
    \<Rightarrow> (string + unit) \<times> policy_state" where
  "check_unknown c bus read_text now_secs i capability st =
     (case decide c bus read_text i capability of
        Inl e \<Rightarrow> (Inl (unreachable_msg i capability e), st)
      | Inr (d, via) \<Rightarrow>
          ((case d of Allow \<Rightarrow> Inr () | Deny \<Rightarrow> Inl (key i @ '' may not '' @ capability)),
           remember \<lparr> g_identity = key i, g_capability = capability, g_decision = d,
                      g_decided_at = now_secs, g_via = via \<rparr> st))"

definition denied_msg :: "identity \<Rightarrow> string \<Rightarrow> grant \<Rightarrow> string" where
  "denied_msg i capability g =
     key i @ '' was denied '' @ capability @ '' by a decision remembered from '' @ g_via g
     @ '' - aidctl grants lists it and aidctl revoke '' @ key i
     @ '' clears it; until then it is answered here and polkit is not consulted''"

definition check :: "config \<Rightarrow> bus_call option \<Rightarrow> files \<Rightarrow> nat \<Rightarrow> identity \<Rightarrow> string \<Rightarrow> policy_state
    \<Rightarrow> (string + unit) \<times> policy_state" where
  "check c bus read_text now_secs i capability st =
     (case (case rule_for c (key i) of None \<Rightarrow> [] | Some r \<Rightarrow> rule_capabilities r) of
        cap # caps \<Rightarrow>
          (if capability \<in> set (cap # caps) then Inr ()
           else Inl (key i @ '' is not granted '' @ capability @ '' by configuration''), st)
      | [] \<Rightarrow>
          (case map_of (grants st) (key i, capability) of
             Some g \<Rightarrow>
               ((case g_decision g of Allow \<Rightarrow> Inr () | Deny \<Rightarrow> Inl (denied_msg i capability g)), st)
           | None \<Rightarrow> check_unknown c bus read_text now_secs i capability st))"

definition set_grant :: "nat \<Rightarrow> string \<Rightarrow> string \<Rightarrow> decision \<Rightarrow> string \<Rightarrow> policy_state \<Rightarrow> policy_state" where
  "set_grant now_secs who capability d via st =
     remember \<lparr> g_identity = who, g_capability = capability, g_decision = d,
                g_decided_at = now_secs, g_via = via \<rparr> st"

definition list_grants :: "policy_state \<Rightarrow> grant list" where
  "list_grants st = sort_key (\<lambda>g. (g_identity g, g_capability g)) (map snd (grants st))"

definition save_grants :: "policy_state \<Rightarrow> grant list" where
  "save_grants st = sort_key (\<lambda>g. (g_identity g, g_capability g)) (map snd (grants st))"

definition revoke :: "string \<Rightarrow> policy_state \<Rightarrow> nat \<times> policy_state" where
  "revoke who st =
     (let kept = filter (\<lambda>(k, _). fst k \<noteq> who) (grants st)
      in (length (grants st) - length kept,
          st\<lparr> grants := kept, buckets := AList.delete who (buckets st) \<rparr>))"

definition charge_tokens :: "nat \<Rightarrow> identity \<Rightarrow> limits \<Rightarrow> nat \<Rightarrow> policy_state \<Rightarrow> bool \<times> policy_state" where
  "charge_tokens now i l n st =
     (let b = unwrap_or (map_of (buckets st) (key i)) (bucket_new now (l_tokens_per_minute l));
          r = bucket_take now n b
      in (fst r, st\<lparr> buckets := AList.update (key i) (snd r) (buckets st) \<rparr>))"

subsection \<open>Spend and usage\<close>

definition micros_for :: "f64 \<Rightarrow> nat \<Rightarrow> nat" where
  "micros_for per_mtok n =
     (if \<not> is_finite per_mtok \<or> f_le per_mtok (Fin 0) then 0
      else f_to_u64 (f_max (f_ceil (f_mul per_mtok (f_of_nat n))) (Fin 0)))"

definition price_entry :: "config \<Rightarrow> string \<Rightarrow> model_price option" where
  "price_entry c model =
     (case List.find (\<lambda>p. price_model p = model) (c_prices c) of
        Some p \<Rightarrow> Some p
      | None \<Rightarrow> List.find (\<lambda>p. price_model p = ''*'') (c_prices c))"

definition price_of :: "config \<Rightarrow> string \<Rightarrow> nat \<Rightarrow> nat \<Rightarrow> nat" where
  "price_of c model prompt_tokens completion_tokens =
     (case price_entry c model of
        None \<Rightarrow> 0
      | Some p \<Rightarrow> u64_sat_add (micros_for (input_per_mtok p) prompt_tokens)
                    (micros_for (output_per_mtok p) completion_tokens))"

text \<open>Entries still inside the window, and their sum as a release build adds it.\<close>

definition in_window :: "nat \<Rightarrow> (nat \<times> nat) list \<Rightarrow> (nat \<times> nat) list" where
  "in_window now entries = filter (\<lambda>(t, _). now - t < SPEND_WINDOW) entries"

definition sum_u64 :: "nat list \<Rightarrow> nat" where
  "sum_u64 ns = foldl u64_add 0 ns"

definition entry_of :: "(string \<times> (nat \<times> nat) list) list \<Rightarrow> string \<Rightarrow> (nat \<times> nat) list" where
  "entry_of m k = unwrap_or (map_of m k) []"

definition charge_spend :: "nat \<Rightarrow> identity \<Rightarrow> nat \<Rightarrow> policy_state \<Rightarrow> nat \<times> policy_state" where
  "charge_spend now i micros st =
     (let kept = in_window now (entry_of (spend st) (key i));
          entry = (if 0 < micros then kept @ [(now, micros)] else kept)
      in (sum_u64 (map snd entry), st\<lparr> spend := AList.update (key i) entry (spend st) \<rparr>))"

definition record_usage :: "nat \<Rightarrow> identity \<Rightarrow> nat \<Rightarrow> policy_state \<Rightarrow> policy_state" where
  "record_usage now i n st =
     (if n = 0 then st
      else st\<lparr> usage := AList.update (key i) (in_window now (entry_of (usage st) (key i)) @ [(now, n)])
                          (usage st) \<rparr>)"

definition spent_by :: "nat \<Rightarrow> string \<Rightarrow> policy_state \<Rightarrow> nat \<times> policy_state" where
  "spent_by now k st =
     (case map_of (spend st) k of
        None \<Rightarrow> (0, st)
      | Some entry \<Rightarrow>
          let kept = in_window now entry
          in (sum_u64 (map snd kept), st\<lparr> spend := AList.update k kept (spend st) \<rparr>))"

definition used_by :: "nat \<Rightarrow> string \<Rightarrow> policy_state \<Rightarrow> nat \<times> policy_state" where
  "used_by now k st =
     (case map_of (usage st) k of
        None \<Rightarrow> (0, st)
      | Some entry \<Rightarrow>
          let kept = in_window now entry
          in (sum_u64 (map snd kept), st\<lparr> usage := AList.update k kept (usage st) \<rparr>))"

definition spend_permits :: "config \<Rightarrow> nat \<Rightarrow> identity \<Rightarrow> limits \<Rightarrow> string \<Rightarrow> policy_state
    \<Rightarrow> (string + unit) \<times> policy_state" where
  "spend_permits c now i l model st =
     (if l_daily_spend_micros l = 0 then (Inr (), st)
      else if price_of c model 1 1 = 0 then (Inr (), st)
      else
        let (spent, st') = spent_by now (key i) st
        in if l_daily_spend_micros l \<le> spent
           then (Inl (key i @ '' has spent '' @ render_micros spent @ '' of its ''
                   @ render_micros (l_daily_spend_micros l)
                   @ '' daily allowance; the window is a rolling 24 hours, so this clears as the oldest requests age out''),
                 st')
           else (Inr (), st'))"

definition ceiling_of :: "config \<Rightarrow> string \<Rightarrow> nat" where
  "ceiling_of c k =
     unwrap_or (map_option to_micros (Option.bind (rule_for c k) rule_daily_spend))
       (to_micros (p_daily_spend (c_policy c)))"

text \<open>One row of a report; the clock is read once per row and taken here as one instant.\<close>

fun spend_rows :: "config \<Rightarrow> nat \<Rightarrow> string list \<Rightarrow> policy_state \<Rightarrow> (string \<times> nat \<times> nat) list \<times> policy_state" where
  "spend_rows c now [] st = ([], st)"
| "spend_rows c now (k # ks) st =
     (let (spent, st1) = spent_by now k st; (rows, st2) = spend_rows c now ks st1
      in ((k, spent, ceiling_of c k) # rows, st2))"

definition spend_report :: "config \<Rightarrow> nat \<Rightarrow> policy_state \<Rightarrow> (string \<times> nat \<times> nat) list \<times> policy_state" where
  "spend_report c now st =
     (let (rows, st') = spend_rows c now (map fst (spend st)) st
      in (rev (sort_key (\<lambda>(_, spent, _). spent)
            (rev (filter (\<lambda>(_, spent, ceiling). 0 < spent \<or> 0 < ceiling) rows))), st'))"

fun usage_rows :: "config \<Rightarrow> nat \<Rightarrow> string list \<Rightarrow> policy_state
    \<Rightarrow> (string \<times> nat \<times> nat \<times> nat) list \<times> policy_state" where
  "usage_rows c now [] st = ([], st)"
| "usage_rows c now (k # ks) st =
     (let (used, st1) = used_by now k st; (spent, st2) = spent_by now k st1;
          (rows, st3) = usage_rows c now ks st2
      in ((k, used, spent, ceiling_of c k) # rows, st3))"

definition usage_report :: "config \<Rightarrow> nat \<Rightarrow> policy_state
    \<Rightarrow> (string \<times> nat \<times> nat \<times> nat) list \<times> policy_state" where
  "usage_report c now st =
     (let ks = sort (remdups (map fst (usage st) @ map fst (spend st)));
          (rows, st') = usage_rows c now ks st
      in (rev (sort_key (\<lambda>(_, used, _). used)
            (rev (filter (\<lambda>(_, used, spent, _). 0 < used \<or> 0 < spent) rows))), st'))"

subsection \<open>Session counts\<close>

definition count_of :: "policy_state \<Rightarrow> string \<Rightarrow> nat" where
  "count_of st k = unwrap_or (map_of (sessions st) k) 0"

definition open_session :: "identity \<Rightarrow> limits \<Rightarrow> policy_state \<Rightarrow> (string + unit) \<times> policy_state" where
  "open_session i l st =
     (let n = count_of st (key i)
      in if l_max_sessions l \<le> n
         then (Inl (key i @ '' already holds '' @ show_nat n @ '' of '' @ show_nat (l_max_sessions l)
                 @ '' permitted sessions''),
               st\<lparr> sessions := AList.update (key i) n (sessions st) \<rparr>)
         else (Inr (), st\<lparr> sessions := AList.update (key i) (Suc n) (sessions st) \<rparr>))"

definition close_session :: "identity \<Rightarrow> policy_state \<Rightarrow> policy_state" where
  "close_session i st =
     (case map_of (sessions st) (key i) of
        None \<Rightarrow> st
      | Some n \<Rightarrow> st\<lparr> sessions := AList.update (key i) (n - 1) (sessions st) \<rparr>)"


subsection \<open>Decisions\<close>

lemma map_of_update [simp]: "map_of (AList.update k v m) = (map_of m)(k \<mapsto> v)"
  by (rule update_conv')

lemma map_of_delete [simp]: "map_of (AList.delete k m) = (map_of m)(k := None)"
  by (rule delete_conv')

definition configured_caps :: "config \<Rightarrow> identity \<Rightarrow> string list" where
  "configured_caps c i = (case rule_for c (key i) of None \<Rightarrow> [] | Some r \<Rightarrow> rule_capabilities r)"

lemma check_configured:
  "configured_caps c i \<noteq> [] \<Longrightarrow>
     snd (check c bus rd now i cap st) = st
     \<and> (is_ok (fst (check c bus rd now i cap st)) \<longleftrightarrow> cap \<in> set (configured_caps c i))"
  unfolding check_def configured_caps_def[symmetric] by (cases "configured_caps c i") auto

lemma check_remembered:
  "configured_caps c i = [] \<Longrightarrow> map_of (grants st) (key i, cap) = Some g \<Longrightarrow>
     snd (check c bus rd now i cap st) = st
     \<and> (is_ok (fst (check c bus rd now i cap st)) \<longleftrightarrow> g_decision g = Allow)"
  unfolding check_def configured_caps_def[symmetric] by (cases "g_decision g") auto

lemma check_asks:
  "configured_caps c i = [] \<Longrightarrow> map_of (grants st) (key i, cap) = None \<Longrightarrow>
     check c bus rd now i cap st = check_unknown c bus rd now i cap st"
  unfolding check_def configured_caps_def[symmetric] by simp

lemma check_unknown_unreachable:
  "decide c bus rd i cap = Inl e \<Longrightarrow> check_unknown c bus rd now i cap st = (Inl (unreachable_msg i cap e), st)"
  by (simp add: check_unknown_def)

lemma check_unknown_decided:
  assumes "decide c bus rd i cap = Inr (d, via)"
  shows "is_ok (fst (check_unknown c bus rd now i cap st)) \<longleftrightarrow> d = Allow"
    and "map_of (grants (snd (check_unknown c bus rd now i cap st)))
      = (map_of (grants st))((key i, cap) \<mapsto>
          \<lparr> g_identity = key i, g_capability = cap, g_decision = d, g_decided_at = now, g_via = via \<rparr>)"
  using assms by (cases d; simp add: check_unknown_def remember_def)+

lemma polkit_decision_Inr: "polkit_decision a = Inr (d, via) \<longleftrightarrow> a = Inr (d = Allow) \<and> via = ''polkit''"
  by (cases d) (auto simp: polkit_decision_def rbind_Inr_iff)

text \<open>Who said yes: the ways an unknown pair can be allowed.\<close>

definition authority_said_yes :: "bus_call option \<Rightarrow> files \<Rightarrow> identity \<Rightarrow> string \<Rightarrow> bool" where
  "authority_said_yes bus rd i action \<longleftrightarrow>
     (\<exists>call details c. bus = Some call \<and> call (polkit_subject rd i) action details = Inr (True, c))"

lemma ask_polkit_yes: "ask_polkit bus rd i action = Inr True \<Longrightarrow> authority_said_yes bus rd i action"
  using check_authorization_Inr
  by (fastforce simp: ask_polkit_def authority_said_yes_def split: option.splits)

text \<open>
  C3. Nothing is allowed without a basis. When \<open>check\<close> answers yes, the administrator's rule
  for that identity lists the capability, or a remembered grant for exactly that identity and
  capability allows it, or (neither being there) the authority was asked about this process
  and said yes, or the machine's consent mode is \<open>allow\<close>; and consent mode \<open>allow\<close> never
  covers \<open>model-admin\<close>.
\<close>

theorem check_allows_only_with_basis:
  assumes "is_ok (fst (check c bus rd now i cap st))"
  shows "cap \<in> set (configured_caps c i)
    \<or> configured_caps c i = []
      \<and> ((\<exists>g. map_of (grants st) (key i, cap) = Some g \<and> g_decision g = Allow)
         \<or> map_of (grants st) (key i, cap) = None
           \<and> (cap \<noteq> CAP_MODEL_ADMIN \<and> p_consent (c_policy c) = Consent_Allow
              \<or> authority_said_yes bus rd i
                   (if cap = CAP_MODEL_ADMIN then ''io.github.agraves.aidaemon.model-admin''
                    else action_of cap)))"
proof (cases "configured_caps c i = []")
  case False
  then show ?thesis
    using assms check_configured by blast
next
  case free: True
  show ?thesis
  proof (cases "map_of (grants st) (key i, cap)")
    case (Some g)
    then show ?thesis
      using assms free check_remembered by blast
  next
    case None
    obtain via where d: "decide c bus rd i cap = Inr (Allow, via)"
      using assms check_asks[OF free None] check_unknown_unreachable check_unknown_decided(1)
      by (cases "decide c bus rd i cap") (fastforce, metis surj_pair)
    then have "cap \<noteq> CAP_MODEL_ADMIN \<and> p_consent (c_policy c) = Consent_Allow
        \<or> ask_polkit bus rd i
             (if cap = CAP_MODEL_ADMIN then ''io.github.agraves.aidaemon.model-admin''
              else action_of cap) = Inr True"
      by (auto simp: decide_def polkit_decision_Inr split: if_splits consent.splits)
    then show ?thesis
      using free None ask_polkit_yes by blast
  qed
qed


definition sample_identity :: identity where
  "sample_identity =
     \<lparr> id_class = Native, id_uid = 1000, id_gid = 1000, id_pid = 77, id_unit = Some ''org.example.App'',
       id_app_id = None, id_exe = None, id_client = None, id_attested = False \<rparr>"

definition empty_policy :: policy_state where
  "empty_policy = \<lparr> grants = [], buckets = [], sessions = [], spend = [], usage = [] \<rparr>"

definition yes_bus :: bus_call where
  "yes_bus subject action details = Inr (True, False)"

lemma default_free [simp]: "configured_caps default_config i = []"
  by (simp add: configured_caps_def rule_for_def default_config_def)

lemma empty_grants [simp]: "map_of (grants empty_policy) p = None"
  by (simp add: empty_policy_def)

lemma yes_decides: "decide default_config (Some yes_bus) rd i ''embed'' = Inr (Allow, ''polkit'')"
  by (simp add: decide_def cap_defs default_config_def default_policy_def polkit_decision_Inr ask_polkit_def
      check_authorization_def Let_def ask_authority_def yes_bus_def interpret_reply_def)

lemma yes_allows: "is_ok (fst (check default_config (Some yes_bus) rd now i ''embed'' empty_policy))"
  by (simp add: check_asks check_unknown_decided(1)[OF yes_decides])

lemma default_consent [simp]: "p_consent (c_policy default_config) = Consent_Polkit"
  by (simp add: default_config_def default_policy_def)

theorem check_allows_only_with_basis_witness:
  "authority_said_yes (Some yes_bus) (\<lambda>_. None) sample_identity (action_of ''embed'')"
  using check_allows_only_with_basis[OF yes_allows[of "\<lambda>_. None" 0 sample_identity]]
  by (simp add: cap_defs)

text \<open>Whether somebody (a rule, the table, the consent mode, the authority) answers.\<close>

definition answered :: "config \<Rightarrow> bus_call option \<Rightarrow> files \<Rightarrow> identity \<Rightarrow> string \<Rightarrow> policy_state \<Rightarrow> bool" where
  "answered c bus rd i cap st \<longleftrightarrow>
     configured_caps c i \<noteq> [] \<or> map_of (grants st) (key i, cap) \<noteq> None
     \<or> is_ok (decide c bus rd i cap)"

lemma check_frame:
  "p \<noteq> (key i, cap) \<Longrightarrow> map_of (grants (snd (check c bus rd now i cap st))) p = map_of (grants st) p"
proof (cases "configured_caps c i = [] \<and> map_of (grants st) (key i, cap) = None")
  case True
  assume "p \<noteq> (key i, cap)"
  then show ?thesis
    using True check_asks[of c i st cap bus rd now]
    by (cases "decide c bus rd i cap")
      (auto simp: check_unknown_unreachable check_unknown_decided(2))
next
  case False
  then show ?thesis
    using check_configured check_remembered by (metis not_None_eq)
qed

lemma check_again:
  assumes "answered c bus rd i cap st" and st'_def: "st' = snd (check c bus rd now i cap st)"
  shows "snd (check c bus' rd' now' i cap st') = st'
    \<and> is_ok (fst (check c bus' rd' now' i cap st')) = is_ok (fst (check c bus rd now i cap st))"
proof (cases "configured_caps c i = []")
  case False
  then show ?thesis
    using check_configured unfolding st'_def by metis
next
  case free: True
  show ?thesis
  proof (cases "map_of (grants st) (key i, cap)")
    case (Some g)
    then show ?thesis
      using check_remembered[OF free Some] unfolding st'_def by simp
  next
    case None
    then obtain d via where d: "decide c bus rd i cap = Inr (d, via)"
      using assms(1) free by (cases "decide c bus rd i cap") (auto simp: answered_def)
    have g: "map_of (grants st') (key i, cap) = Some \<lparr> g_identity = key i, g_capability = cap,
        g_decision = d, g_decided_at = now, g_via = via \<rparr>"
      unfolding st'_def check_asks[OF free None] by (simp add: check_unknown_decided(2)[OF d])
    show ?thesis
      using check_remembered[OF free g] check_unknown_decided(1)[OF d] check_asks[OF free None] by simp
  qed
qed

text \<open>
  A decision is made once and holds; the lack of one is never recorded. If anybody could
  answer, every later check of the same pair gives the same answer and changes nothing, whatever
  polkit would say by then; if nobody could (no bus, no agent, an unanswered challenge), the
  request is refused and the table is exactly what it was, so the user can still be asked. No
  check touches what is remembered about any other identity or capability.
\<close>

theorem check_decision_sticks:
  "(\<forall>p. p \<noteq> (key i, cap) \<longrightarrow> map_of (grants (snd (check c bus rd now i cap st))) p = map_of (grants st) p)
   \<and> (answered c bus rd i cap st \<longrightarrow>
        (\<forall>bus' rd' now'.
           snd (check c bus' rd' now' i cap (snd (check c bus rd now i cap st)))
             = snd (check c bus rd now i cap st)
           \<and> is_ok (fst (check c bus' rd' now' i cap (snd (check c bus rd now i cap st))))
             = is_ok (fst (check c bus rd now i cap st))))
   \<and> (\<not> answered c bus rd i cap st \<longrightarrow>
        \<not> is_ok (fst (check c bus rd now i cap st)) \<and> snd (check c bus rd now i cap st) = st)"
proof -
  have "\<not> is_ok (fst (check c bus rd now i cap st)) \<and> snd (check c bus rd now i cap st) = st"
    if no: "\<not> answered c bus rd i cap st"
  proof -
    obtain e where "decide c bus rd i cap = Inl e"
      using no by (cases "decide c bus rd i cap") (auto simp: answered_def)
    then show ?thesis
      using no check_asks[of c i st cap bus rd now]
      by (simp add: answered_def check_unknown_unreachable)
  qed
  then show ?thesis
    using check_frame check_again[OF _ refl] by blast
qed

theorem check_decision_sticks_witness:
  "is_ok (fst (check default_config None (\<lambda>_. None) 9 sample_identity ''embed''
     (snd (check default_config (Some yes_bus) (\<lambda>_. None) 5 sample_identity ''embed'' empty_policy))))"
proof -
  have "answered default_config (Some yes_bus) (\<lambda>_. None) sample_identity ''embed'' empty_policy"
    by (simp add: answered_def yes_decides)
  then show ?thesis
    using check_decision_sticks[of sample_identity "''embed''" default_config "Some yes_bus" "\<lambda>_. None" 5
        empty_policy] yes_allows by blast
qed

text \<open>
  Revoking forgets everything about an identity and nothing about anyone else: no grant of
  it is left, its token bucket is gone, the number returned is the number of grants removed,
  and an unconfigured identity that asks again is decided afresh. Repeating it removes nothing.
\<close>

theorem revoke_forgets:
  "(\<forall>who' cap. map_of (grants (snd (revoke who st))) (who', cap)
      = (if who' = who then None else map_of (grants st) (who', cap)))
   \<and> (\<forall>k. map_of (buckets (snd (revoke who st))) k = (if k = who then None else map_of (buckets st) k))
   \<and> length (grants (snd (revoke who st))) + fst (revoke who st) = length (grants st)
   \<and> fst (revoke who (snd (revoke who st))) = 0
   \<and> (key i = who \<and> configured_caps c i = [] \<longrightarrow>
        check c bus rd now i cap (snd (revoke who st)) = check_unknown c bus rd now i cap (snd (revoke who st)))"
proof -
  have filtered: "map_of (filter (\<lambda>(k, _). fst k \<noteq> who) gs) (w, cap)
      = (if w = who then None else map_of gs (w, cap))" for gs :: "((string \<times> string) \<times> grant) list" and w cap
    by (induction gs) auto
  have count: "length (filter (\<lambda>(k, _). fst k \<noteq> who) (grants st)) \<le> length (grants st)"
    by (rule length_filter_le)
  show ?thesis
    using count by (auto simp: revoke_def Let_def filtered check_asks)
qed

theorem revoke_forgets_witness:
  "\<not> is_ok (fst (check default_config None (\<lambda>_. None) 9 sample_identity ''embed''
     (snd (revoke (key sample_identity)
        (snd (check default_config (Some yes_bus) (\<lambda>_. None) 5 sample_identity ''embed'' empty_policy))))))"
  (is "\<not> is_ok (fst (check _ _ _ _ _ _ (snd (revoke _ ?st))))")
proof -
  have "check default_config None (\<lambda>_. None) 9 sample_identity ''embed'' (snd (revoke (key sample_identity) ?st))
      = check_unknown default_config None (\<lambda>_. None) 9 sample_identity ''embed''
          (snd (revoke (key sample_identity) ?st))"
    using revoke_forgets[of "key sample_identity" ?st sample_identity default_config None "\<lambda>_. None" 9 "''embed''"]
    by simp
  moreover have "\<exists>e. decide default_config None (\<lambda>_. None) sample_identity ''embed'' = Inl e"
    by (simp add: decide_def cap_defs default_config_def default_policy_def polkit_decision_def ask_polkit_def)
  ultimately show ?thesis
    by (auto simp: check_unknown_unreachable)
qed


subsection \<open>The spend window\<close>

text \<open>What happens to the ledger: requests are charged and totals are asked for.\<close>

datatype spend_op = Charge nat identity nat | Ask nat string

fun op_time :: "spend_op \<Rightarrow> nat" where
  "op_time (Charge t _ _) = t"
| "op_time (Ask t _) = t"

fun apply_op :: "spend_op \<Rightarrow> policy_state \<Rightarrow> policy_state" where
  "apply_op (Charge t i m) st = snd (charge_spend t i m st)"
| "apply_op (Ask t k) st = snd (spent_by t k st)"

text \<open>The specification keeps the whole history and never prunes.\<close>

fun charges :: "string \<Rightarrow> spend_op list \<Rightarrow> (nat \<times> nat) list" where
  "charges k [] = []"
| "charges k (Charge t i m # ops) = (if key i = k \<and> 0 < m then [(t, m)] else []) @ charges k ops"
| "charges k (Ask _ _ # ops) = charges k ops"

definition spent_spec :: "nat \<Rightarrow> string \<Rightarrow> spend_op list \<Rightarrow> nat" where
  "spent_spec now k ops = sum_list (map snd (in_window now (charges k ops))) mod U64"

lemma charges_snoc: "charges k (ops @ [op]) = charges k ops @ charges k [op]"
  by (induction k ops rule: charges.induct) auto

lemma sum_u64_eq: "sum_u64 ns = sum_list ns mod U64"
proof -
  have "foldl u64_add a ns = (a + sum_list ns) mod U64" if "a < U64" for a
    using that
  proof (induction ns arbitrary: a)
    case (Cons n ns)
    show ?case
      using Cons.IH[of "u64_add a n"] u64_add_bound[of a n]
      by (simp add: u64_add_def mod_simps algebra_simps)
  qed simp
  from this[of 0] show ?thesis
    by (simp add: sum_u64_def)
qed

lemma in_window_later: "now \<le> t \<Longrightarrow> in_window t (in_window now es) = in_window t es"
  unfolding in_window_def filter_filter by (rule filter_cong) auto

lemma in_window_append: "in_window t (a @ b) = in_window t a @ in_window t b"
  by (simp add: in_window_def)

lemma in_window_Nil: "in_window t [] = []"
  by (simp add: in_window_def)

text \<open>The ledger at time \<open>now\<close> tells every later reader what the history would.\<close>

definition ledger_ok :: "nat \<Rightarrow> spend_op list \<Rightarrow> policy_state \<Rightarrow> bool" where
  "ledger_ok now ops st \<longleftrightarrow>
     (\<forall>k t. now \<le> t \<longrightarrow> in_window t (entry_of (spend st) k) = in_window t (charges k ops))"

lemma entry_of_update: "entry_of (AList.update k e m) k' = (if k' = k then e else entry_of m k')"
  by (simp add: entry_of_def)

lemma ledger_ok_step:
  assumes "ledger_ok now ops st" "now \<le> op_time op"
  shows "ledger_ok (op_time op) (ops @ [op]) (apply_op op st)"
proof (cases op)
  case (Charge t i m)
  let ?e = "entry_of (spend st) (key i)"
  have entry: "entry_of (spend (snd (charge_spend t i m st))) k =
      (if k = key i then in_window t ?e @ (if 0 < m then [(t, m)] else []) else entry_of (spend st) k)" for k
    by (simp add: charge_spend_def Let_def entry_of_update)
  show ?thesis
    using assms Charge
    unfolding ledger_ok_def Charge charges_snoc apply_op.simps entry
    by (auto simp: in_window_append in_window_later in_window_Nil)
next
  case (Ask t k)
  have entry: "in_window u (entry_of (spend (snd (spent_by t k st))) k') = in_window u (entry_of (spend st) k')"
    if "t \<le> u" for u k'
    using that
    by (auto simp: spent_by_def Let_def entry_of_update entry_of_def in_window_later split: option.splits)
  show ?thesis
    using assms Ask by (simp add: ledger_ok_def entry charges_snoc)
qed

lemma ledger_ok_later: "ledger_ok now ops st \<Longrightarrow> now \<le> t \<Longrightarrow> ledger_ok t ops st"
  by (auto simp: ledger_ok_def)

lemma ledger_ok_run:
  assumes "spend st = []" "sorted (map op_time ops)" "\<forall>op\<in>set ops. op_time op \<le> t"
  shows "ledger_ok t ops (fold apply_op ops st)"
  using assms(2,3)
proof (induction ops arbitrary: t rule: rev_induct)
  case Nil
  then show ?case
    by (simp add: ledger_ok_def entry_of_def assms(1) in_window_def)
next
  case (snoc op ops)
  have "ledger_ok (op_time op) ops (fold apply_op ops st)"
    using snoc.prems by (intro snoc.IH) (auto simp: sorted_append)
  then have "ledger_ok (op_time op) (ops @ [op]) (fold apply_op (ops @ [op]) st)"
    using ledger_ok_step[of "op_time op" ops _ op] by simp
  then show ?case
    using ledger_ok_later snoc.prems by simp
qed

text \<open>
  C11. The rolling day is exact. Pruning the ledger on every touch loses nothing: after any
  sequence of charges and queries, by any identities and in time order, what an identity has
  spent is the sum of all its charges in the 24 hours before the question (as the \<open>u64\<close> sum of
  a release build), and nobody else's.
\<close>

theorem spend_window_exact:
  assumes "spend st = []" "sorted (map op_time ops)" "\<forall>op\<in>set ops. op_time op \<le> now"
  shows "fst (spent_by now k (fold apply_op ops st)) = spent_spec now k ops"
proof -
  have ok: "in_window now (entry_of (spend (fold apply_op ops st)) k) = in_window now (charges k ops)"
    using ledger_ok_run[OF assms] by (simp add: ledger_ok_def)
  then show ?thesis
    by (cases "map_of (spend (fold apply_op ops st)) k")
      (auto simp: spent_by_def Let_def entry_of_def sum_u64_eq spent_spec_def in_window_def)
qed

theorem spend_window_exact_witness:
  "fst (spent_by (SPEND_WINDOW + 5) (key sample_identity)
     (fold apply_op [Charge 5 sample_identity 700, Charge 6 sample_identity 40] empty_policy)) = 40"
  by (subst spend_window_exact)
    (simp_all add: empty_policy_def SPEND_WINDOW_def spent_spec_def in_window_def)


subsection \<open>The spend ceiling\<close>

text \<open>A price table entry that costs something: a finite positive double on either side.\<close>

definition costs :: "f64 \<Rightarrow> bool" where
  "costs p \<longleftrightarrow> (\<exists>x. p = Fin x \<and> 0 < x)"

definition is_double :: "f64 \<Rightarrow> bool" where
  "is_double p \<longleftrightarrow> (case p of Fin x \<Rightarrow> representable \<bar>x\<bar> \<and> \<bar>x\<bar> < 2 ^ 1024 | _ \<Rightarrow> True)"

lemma micros_for_one:
  assumes "is_double p"
  shows "0 < micros_for p 1 \<longleftrightarrow> costs p"
proof (cases p)
  case (Fin x)
  show ?thesis
  proof (cases "0 < x")
    case True
    have "round64 x = Fin x"
      using assms True by (intro round64_exact) (auto simp: is_double_def Fin)
    moreover have "f_of_nat 1 = Fin 1"
      using f_of_nat_exact[of 1] by simp
    ultimately have "micros_for p 1 = f_to_u64 (f_max (Fin (of_int \<lceil>x\<rceil>)) (Fin 0))"
      using True by (simp add: micros_for_def Fin)
    moreover have "1 \<le> \<lceil>x\<rceil>"
      using True by linarith
    ultimately show ?thesis
      using True by (simp add: f_max_def Fin costs_def)
  next
    case False
    then show ?thesis
      by (simp add: micros_for_def Fin costs_def)
  qed
qed (simp_all add: micros_for_def costs_def)

lemma price_of_one:
  assumes "price_entry c model = Some p" "is_double (input_per_mtok p)" "is_double (output_per_mtok p)"
  shows "0 < price_of c model 1 1 \<longleftrightarrow> costs (input_per_mtok p) \<or> costs (output_per_mtok p)"
  using micros_for_one[OF assms(2)] micros_for_one[OF assms(3)] assms(1)
  by (auto simp: price_of_def u64_sat_add_def)

text \<open>
  The spend ceiling refuses exactly what it should. With a price entry for the model (the
  exact name before the catch-all), a request is refused if and only if the identity has a
  ceiling, the model costs anything at all on either side, and the identity has already spent
  the ceiling inside the window. A model without an entry is never refused, however much was
  spent elsewhere, and asking never changes what anybody has spent.
\<close>

theorem spend_permits_iff:
  assumes "\<And>p. price_entry c model = Some p \<Longrightarrow> is_double (input_per_mtok p) \<and> is_double (output_per_mtok p)"
  shows "is_ok (fst (spend_permits c now i l model st)) \<longleftrightarrow>
    \<not> (0 < l_daily_spend_micros l
       \<and> (\<exists>p. price_entry c model = Some p \<and> (costs (input_per_mtok p) \<or> costs (output_per_mtok p)))
       \<and> l_daily_spend_micros l \<le> fst (spent_by now (key i) st))"
proof (cases "price_entry c model")
  case None
  then show ?thesis
    by (simp add: spend_permits_def price_of_def)
next
  case (Some p)
  show ?thesis
    using price_of_one[OF Some] assms[OF Some] Some
    by (auto simp: spend_permits_def split: prod.splits)
qed

definition priced_config :: config where
  "priced_config = default_config\<lparr> c_prices :=
     [\<lparr> price_model = ''*'', input_per_mtok = Fin 3, output_per_mtok = Fin 15 \<rparr>] \<rparr>"

theorem spend_permits_iff_witness:
  "\<not> is_ok (fst (spend_permits priced_config 9 sample_identity
      (limits_for default_config sample_identity\<lparr> l_daily_spend_micros := 600 \<rparr>) ''big''
      (snd (charge_spend 5 sample_identity 700 empty_policy))))"
proof -
  have e: "price_entry priced_config ''big''
      = Some \<lparr> price_model = ''*'', input_per_mtok = Fin 3, output_per_mtok = Fin 15 \<rparr>"
    by (simp add: price_entry_def priced_config_def)
  have big: "(15 :: rat) < 2 ^ 1024" "(3 :: rat) < 2 ^ 1024"
    by simp_all
  have doubles: "is_double (Fin 3)" "is_double (Fin 15)"
    using representable_nat[of 3] representable_nat[of 15] big by (simp_all only: is_double_def f64.case) simp_all
  have spent: "fst (spent_by 9 (key sample_identity) (snd (charge_spend 5 sample_identity 700 empty_policy))) = 700"
    by (simp add: spent_by_def charge_spend_def empty_policy_def entry_of_def in_window_def SPEND_WINDOW_def
        sum_u64_eq Let_def)
  show ?thesis
    by (subst spend_permits_iff) (simp_all add: e doubles spent costs_def)
qed

subsection \<open>Buckets\<close>

text \<open>A bucket of a rate that a double holds exactly, holding between nothing and its capacity.\<close>

definition bucket_ok :: "nat \<Rightarrow> bucket \<Rightarrow> bool" where
  "bucket_ok cap b \<longleftrightarrow>
     capacity b = Fin (of_nat cap) \<and> 0 < cap \<and> cap < 2 ^ 53
     \<and> nonneg (per_second b) \<and> is_finite (per_second b)
     \<and> (\<exists>v. tokens b = Fin v \<and> 0 \<le> v \<and> v \<le> of_nat cap \<and> representable v)"

fun takes :: "(nat \<times> nat) list \<Rightarrow> bucket \<Rightarrow> nat \<times> bucket" where
  "takes [] b = (0, b)"
| "takes ((now, n) # rest) b =
     (let (ok, b1) = bucket_take now n b; (total, b2) = takes rest b1
      in ((if ok then n else 0) + total, b2))"

lemma f_mul_nonneg: "nonneg x \<Longrightarrow> nonneg y \<Longrightarrow> nonneg (f_mul x y) \<or> f_mul x y = NaN"
  by (cases x; cases y) (auto simp: inf_of_def intro: round64_nonneg)

lemma bucket_new_ok:
  assumes "rate < 2 ^ 53"
  shows "bucket_ok (max rate 1) (bucket_new now rate)"
proof -
  have small: "max rate 1 < 2 ^ 53"
    using assms by simp
  have "(of_nat (max rate 1) :: rat) < of_nat (2 ^ 53)"
    using small by (subst of_nat_less_iff)
  then have "of_nat (max rate 1) / 60 < (2 :: rat) ^ 53"
    by (simp add: pos_divide_less_eq)
  then obtain v where "round64 (of_nat (max rate 1) / 60) = Fin v" "0 \<le> v"
    using round64_finite[of "of_nat (max rate 1) / 60"] by auto
  then show ?thesis
    using small representable_nat[OF small] f_of_nat_exact[OF small]
    by (auto simp: bucket_ok_def bucket_new_def Let_def simp del: of_nat_max)
qed

lemma f_add_representable:
  assumes "nonneg x" "nonneg y" "f_add x y = Fin s"
  shows "representable s"
  using assms by (cases x; cases y) (auto dest: round64_representable[rotated])

lemma bucket_refill_ok:
  assumes "bucket_ok cap b"
  shows "\<exists>v. bucket_refill now b = Fin v \<and> 0 \<le> v \<and> v \<le> of_nat cap \<and> representable v"
proof -
  obtain v where v: "tokens b = Fin v" "0 \<le> v" and cap: "capacity b = Fin (of_nat cap)" "cap < 2 ^ 53"
    and ps: "nonneg (per_second b)"
    using assms by (auto simp: bucket_ok_def)
  define gain where "gain = f_mul (as_secs_f64 (now - last_at b)) (per_second b)"
  define s where "s = f_add (tokens b) gain"
  have refill: "bucket_refill now b = f_min s (Fin (of_nat cap))"
    by (simp add: bucket_refill_def s_def gain_def cap)
  have "nonneg gain \<or> gain = NaN"
    unfolding gain_def by (rule f_mul_nonneg) (simp_all add: ps)
  then consider "s = NaN" | "s = PosInf" | w where "s = Fin w" "0 \<le> w" "representable w"
  proof
    assume g: "nonneg gain"
    have "nonneg s"
      unfolding s_def using v g by (intro f_add_nonneg) simp_all
    then show ?thesis
      using that f_add_representable[of "tokens b" gain] v g unfolding s_def[symmetric]
      by (cases s) auto
  next
    assume "gain = NaN"
    then show ?thesis
      using that v by (simp add: s_def)
  qed
  then show ?thesis
    using representable_nat[OF cap(2)] by cases (auto simp: refill f_min_def)
qed

lemma bucket_take_ok:
  assumes "bucket_ok cap b" "n < 2 ^ 53"
  shows "bucket_ok cap (snd (bucket_take now n b))"
    and "bucket_refill now b = Fin v
      \<Longrightarrow> bucket_take now n b = (of_nat n \<le> v, b\<lparr> last_at := now, tokens := Fin (if of_nat n \<le> v then v - of_nat n else v) \<rparr>)"
proof -
  have n: "f_of_nat n = Fin (of_nat n)"
    by (rule f_of_nat_exact[OF assms(2)])
  have cap: "(of_nat cap :: rat) < 2 ^ 53"
  proof -
    have "(of_nat cap :: rat) < of_nat (2 ^ 53)"
      using assms(1) by (subst of_nat_less_iff) (simp add: bucket_ok_def)
    then show ?thesis
      by simp
  qed
  obtain w where w: "bucket_refill now b = Fin w" "0 \<le> w" "w \<le> of_nat cap" "representable w"
    using bucket_refill_ok[OF assms(1)] by blast
  have small: "w < 2 ^ 53"
    using w(3) cap by simp
  have sub: "f_sub (Fin w) (Fin (of_nat n)) = Fin (w - of_nat n)" if le: "of_nat n \<le> w"
  proof -
    have "w - of_nat n \<le> w"
      by simp
    moreover have "(2 :: rat) ^ 53 \<le> 2 ^ 1024"
      by simp
    ultimately have "w - of_nat n < 2 ^ 1024"
      using small by linarith
    then show ?thesis
      using round64_exact[OF representable_sub[OF w(4) small le]] by (simp add: f_sub_def)
  qed
  have take: "bucket_take now n b
      = (of_nat n \<le> w, b\<lparr> last_at := now, tokens := Fin (if of_nat n \<le> w then w - of_nat n else w) \<rparr>)"
    using sub by (simp add: bucket_take_def Let_def w(1) n)
  have le: "w - of_nat n \<le> of_nat cap"
    using w(3) by (simp add: order_trans[OF _ w(3)])
  show "bucket_ok cap (snd (bucket_take now n b))"
    using assms(1) w le representable_sub[OF w(4) small] by (auto simp: take bucket_ok_def)
  show "bucket_refill now b = Fin v
      \<Longrightarrow> bucket_take now n b = (of_nat n \<le> v, b\<lparr> last_at := now, tokens := Fin (if of_nat n \<le> v then v - of_nat n else v) \<rparr>)"
    using take w(1) by simp
qed


lemma bucket_refill_same_instant:
  assumes "bucket_ok cap b" "tokens b = Fin v" "last_at b = now"
  shows "bucket_refill now b = Fin v"
proof -
  have v: "0 \<le> v" "v \<le> of_nat cap" "representable v" and cap: "cap < 2 ^ 53" "capacity b = Fin (of_nat cap)"
    using assms by (auto simp: bucket_ok_def)
  obtain ps where "per_second b = Fin ps"
    using assms(1) by (cases "per_second b") (auto simp: bucket_ok_def)
  moreover have "round64 v = Fin v"
  proof (rule round64_exact[OF v(3)])
    have "(of_nat cap :: rat) < of_nat (2 ^ 53)"
      using cap by (subst of_nat_less_iff)
    also have "\<dots> \<le> 2 ^ 1024"
      by simp
    finally show "v < 2 ^ 1024"
      using v(2) by simp
  qed
  moreover have "round64 0 = Fin 0"
    by (simp add: round64_def)
  ultimately show ?thesis
    using assms v cap by (simp add: bucket_refill_def f_min_def)
qed

lemma takes_ok: "bucket_ok cap b \<Longrightarrow> \<forall>(t, n)\<in>set reqs. n < 2 ^ 53 \<Longrightarrow> bucket_ok cap (snd (takes reqs b))"
proof (induction reqs arbitrary: b)
  case (Cons r reqs)
  obtain t n where r: "r = (t, n)"
    by (cases r)
  have "bucket_ok cap (snd (bucket_take t n b))"
    using bucket_take_ok(1) Cons.prems by (auto simp: r)
  then have "bucket_ok cap (snd (takes reqs (snd (bucket_take t n b))))"
    using Cons by simp
  then show ?case
    by (simp add: r case_prod_beta Let_def)
qed simp

lemma takes_same_instant:
  "bucket_ok cap b \<Longrightarrow> \<forall>n\<in>set ns. n < 2 ^ 53 \<Longrightarrow> bucket_refill now b = Fin v
    \<Longrightarrow> of_nat (fst (takes (map (Pair now) ns) b)) \<le> v"
proof (induction ns arbitrary: b v)
  case Nil
  then show ?case
    using bucket_refill_ok[OF Nil(1), of now] by auto
next
  case (Cons n ns)
  define w where "w = (if of_nat n \<le> v then v - of_nat n else v)"
  define b1 where "b1 = b\<lparr> last_at := now, tokens := Fin w \<rparr>"
  have take: "bucket_take now n b = (of_nat n \<le> v, b1)"
    using bucket_take_ok(2)[OF Cons.prems(1) _ Cons.prems(3)] Cons.prems(2) by (simp add: b1_def w_def)
  have ok: "bucket_ok cap b1"
    using bucket_take_ok(1)[OF Cons.prems(1), of n now] Cons.prems(2) by (simp add: take)
  then have "bucket_refill now b1 = Fin w"
    by (rule bucket_refill_same_instant) (simp_all add: b1_def)
  then have "of_nat (fst (takes (map (Pair now) ns) b1)) \<le> w"
    using Cons ok by simp
  then show ?case
    by (auto simp: take w_def split: prod.splits if_splits)
qed

text \<open>
  A burst is bounded by the minute's allowance. Whatever an identity did before, the
  requests it makes at one instant are granted at most its per-minute rate in total, and a
  single request above the rate is refused however long it waits. Rates and request sizes are
  below \<open>2 ^ 53\<close>, where the floating point of the bucket counts tokens exactly.
\<close>

theorem bucket_burst_bound:
  assumes "rate < 2 ^ 53" "\<forall>(t, n)\<in>set history. n < 2 ^ 53" "\<forall>n\<in>set burst. n < 2 ^ 53"
  shows "fst (takes (map (Pair now) burst) (snd (takes history (bucket_new t0 rate)))) \<le> max rate 1
    \<and> (\<forall>n. max rate 1 < n \<and> n < 2 ^ 53
          \<longrightarrow> \<not> fst (bucket_take now n (snd (takes history (bucket_new t0 rate)))))"
proof -
  let ?b = "snd (takes history (bucket_new t0 rate))"
  have ok: "bucket_ok (max rate 1) ?b"
    by (rule takes_ok[OF bucket_new_ok[OF assms(1)] assms(2)])
  obtain v where v: "bucket_refill now ?b = Fin v" "v \<le> of_nat (max rate 1)"
    using bucket_refill_ok[OF ok] by blast
  have "(of_nat (fst (takes (map (Pair now) burst) ?b)) :: rat) \<le> of_nat (max rate 1)"
    using takes_same_instant[OF ok assms(3) v(1)] v(2) by (rule order_trans)
  moreover have "\<not> fst (bucket_take now n ?b)" if n: "max rate 1 < n" "n < 2 ^ 53" for n
  proof -
    have "(of_nat (max rate 1) :: rat) < of_nat n"
      using n(1) by (subst of_nat_less_iff)
    then have "\<not> of_nat n \<le> v"
      using v(2) by linarith
    then show ?thesis
      using bucket_take_ok(2)[OF ok n(2) v(1)] by simp
  qed
  ultimately show ?thesis
    by (auto simp only: of_nat_le_iff)
qed

theorem bucket_burst_bound_witness:
  "fst (takes (map (Pair 9) [30, 30, 30]) (snd (takes [(3, 10)] (bucket_new 0 50)))) \<le> 50"
proof -
  have m: "max 50 1 = (50 :: nat)"
    by simp
  have "fst (takes (map (Pair 9) [30, 30, 30]) (snd (takes [(3, 10)] (bucket_new 0 50)))) \<le> max 50 1"
    using bucket_burst_bound[of 50 "[(3, 10)]" "[30, 30, 30]" 9 0] by simp
  then show ?thesis
    unfolding m .
qed

end
