(* ===== verification/State.thy ===== *)
theory State
  imports Backend Registry Policy Sched
begin

text \<open>
  What the daemon holds: \<open>crates/ai-daemon/src/state.rs\<close>. The live backends behind their
  configured specifications, the sessions, and the housekeeping that unloads idle models and
  decides to exit. Starting a backend is an argument (a process and its handshake, the model of
  which is \<open>over\<close>); everything else is a function on the state.
\<close>

subsection \<open>Backends\<close>

record backends =
  specs :: "backend_cfg list"
  live :: "(string \<times> backend) list"
  pinned :: "string list"

type_synonym starter = "backend_cfg \<Rightarrow> string + backend"

definition backends_new :: "backend_cfg list \<Rightarrow> backends" where
  "backends_new cfgs = \<lparr> specs = filter be_enabled cfgs, live = [], pinned = [] \<rparr>"

definition configured :: "backends \<Rightarrow> string list" where
  "configured bs = map be_name (specs bs)"

definition remote_provider :: "backends \<Rightarrow> string \<Rightarrow> string option" where
  "remote_provider bs named =
     map_option be_name
       (List.find (\<lambda>spec. (named = [] \<or> be_name spec = named) \<and> be_connect spec \<noteq> None) (specs bs))"

definition get_backend :: "starter \<Rightarrow> string \<Rightarrow> backends \<Rightarrow> (string + backend) \<times> backends" where
  "get_backend spawn name bs =
     (case map_of (live bs) name of
        Some b \<Rightarrow>
          if b_alive b then (Inr b, bs)
          else
            (case List.find (\<lambda>s. be_name s = name) (specs bs) of
               None \<Rightarrow> (Inl (''no backend named '' @ name @ '' is configured''), bs)
             | Some spec \<Rightarrow>
                 (case spawn spec of
                    Inl e \<Rightarrow> (Inl e, bs)
                  | Inr b' \<Rightarrow> (Inr b', bs\<lparr> live := AList.update name b' (live bs) \<rparr>)))
      | None \<Rightarrow>
          (case List.find (\<lambda>s. be_name s = name) (specs bs) of
             None \<Rightarrow> (Inl (''no backend named '' @ name @ '' is configured''), bs)
           | Some spec \<Rightarrow>
               (case spawn spec of
                  Inl e \<Rightarrow> (Inl e, bs)
                | Inr b' \<Rightarrow> (Inr b', bs\<lparr> live := AList.update name b' (live bs) \<rparr>))))"

fun first_able :: "starter \<Rightarrow> string \<Rightarrow> string \<Rightarrow> backend_cfg list \<Rightarrow> string \<Rightarrow> backends
    \<Rightarrow> (string + backend) \<times> backends" where
  "first_able spawn fmt capability [] last_error bs =
     (Inl (''no backend reads '' @ fmt @ '' with capability '' @ capability @ '' ('' @ last_error @ '')''), bs)"
| "first_able spawn fmt capability (spec # rest) last_error bs =
     (case get_backend spawn (be_name spec) bs of
        (Inr b, bs') \<Rightarrow>
          if handles_format b fmt \<and> can b capability then (Inr b, bs')
          else first_able spawn fmt capability rest (''backend '' @ be_name spec @ '' cannot'') bs'
      | (Inl e, bs') \<Rightarrow> first_able spawn fmt capability rest e bs')"

definition for_manifest :: "starter \<Rightarrow> manifest \<Rightarrow> string \<Rightarrow> backends \<Rightarrow> (string + backend) \<times> backends" where
  "for_manifest spawn m capability bs =
     (if m_backend m \<noteq> [] then
        (case get_backend spawn (m_backend m) bs of
           (Inl e, bs') \<Rightarrow> (Inl e, bs')
         | (Inr b, bs') \<Rightarrow>
             if \<not> can b capability
             then (Inl (''backend '' @ m_backend m @ '' cannot '' @ capability), bs')
             else (Inr b, bs'))
      else first_able spawn (m_format m) capability (specs bs) ''no backend is configured'' bs)"

definition pin :: "string \<Rightarrow> bool \<Rightarrow> backends \<Rightarrow> backends" where
  "pin model on bs =
     bs\<lparr> pinned := (if on then List.insert model (pinned bs) else removeAll model (pinned bs)) \<rparr>"

definition is_pinned :: "backends \<Rightarrow> string \<Rightarrow> bool" where
  "is_pinned bs model \<longleftrightarrow> model \<in> set (pinned bs)"

text \<open>The scheduler's orders, carried to the backend they name.\<close>

definition on_live :: "string \<Rightarrow> (backend \<Rightarrow> backend) \<Rightarrow> backends \<Rightarrow> backends" where
  "on_live name g bs =
     (case map_of (live bs) name of
        None \<Rightarrow> bs
      | Some b \<Rightarrow> bs\<lparr> live := AList.update name (g b) (live bs) \<rparr>)"

definition set_paused :: "string option \<Rightarrow> string \<Rightarrow> nat \<Rightarrow> bool \<Rightarrow> backends \<Rightarrow> backends" where
  "set_paused broken name req_id on =
     on_live name (if on then pause_req broken req_id else resume_req broken req_id)"

definition drop_session_cache :: "string option \<Rightarrow> string \<Rightarrow> string \<Rightarrow> backends \<Rightarrow> backends" where
  "drop_session_cache broken name session = on_live name (drop_cache broken session)"

definition shutdown_all :: "string option \<Rightarrow> backends \<Rightarrow> backends" where
  "shutdown_all broken bs = bs\<lparr> live := map (\<lambda>(n, b). (n, shutdown broken b)) (live bs) \<rparr>"

subsection \<open>Sessions\<close>

record session =
  s_id :: string
  s_object_path :: string
  s_identity :: identity
  s_model :: string
  s_digest :: string
  s_backend :: string
  s_capabilities :: "string list"
  s_local :: bool
  s_class :: sclass
  s_max_context :: nat
  s_created :: nat
  s_blob :: string
  s_usage :: usage_counts
  s_attachment_bytes :: nat
  s_attachments :: "(string \<times> raw_attachment) list"
  s_current_req :: "nat option"
  s_cancelled :: bool
  s_closed :: bool

definition session_state :: "session \<Rightarrow> string" where
  "session_state s =
     (if s_closed s then ''closed'' else if s_current_req s \<noteq> None then ''generating'' else ''idle'')"

subsection \<open>The daemon\<close>

text \<open>What the audit log is told; the log itself is a component of its own.\<close>

datatype audit_note =
    Denied identity string string
  | Session_Start identity string string string bool
  | Session_End identity string string nat nat nat

record daemon =
  d_policy :: policy_state
  d_registry :: registry
  d_scheduler :: inner
  d_backends :: backends
  d_sessions :: "(string \<times> session) list"
  d_next_session :: nat
  d_last_activity :: nat
  d_audit :: "audit_note list"

definition touch :: "nat \<Rightarrow> daemon \<Rightarrow> daemon" where
  "touch now d = d\<lparr> d_last_activity := now \<rparr>"

definition idle_for :: "nat \<Rightarrow> daemon \<Rightarrow> nat" where
  "idle_for now d = now - d_last_activity d"

definition next_session_id :: "daemon \<Rightarrow> string \<times> daemon" where
  "next_session_id d = (''s'' @ show_nat (d_next_session d), d\<lparr> d_next_session := u64_add (d_next_session d) 1 \<rparr>)"

definition insert_session :: "nat \<Rightarrow> session \<Rightarrow> daemon \<Rightarrow> daemon" where
  "insert_session now s d = (touch now d)\<lparr> d_sessions := AList.update (s_id s) s (d_sessions d) \<rparr>"

definition remove_session :: "nat \<Rightarrow> string \<Rightarrow> daemon \<Rightarrow> daemon" where
  "remove_session now i d = (touch now d)\<lparr> d_sessions := AList.delete i (d_sessions d) \<rparr>"

definition session_list :: "daemon \<Rightarrow> session list" where
  "session_list d = sort_key s_created (map snd (d_sessions d))"

text \<open>Which models the janitor asks which backends to unload.\<close>

definition unload_idle_models :: "config \<Rightarrow> nat \<Rightarrow> daemon \<Rightarrow> (string \<times> string) list" where
  "unload_idle_models c now d =
     (let timeout = model_idle_unload_seconds (c_daemon c);
          in_use = map s_model (map snd (d_sessions d))
      in if timeout = 0 \<or> idle_for now d < timeout * 1000000000 then []
         else
           concat (map (\<lambda>(name, b).
              map (\<lambda>lm. (b_name b, lm_model_id lm))
                (filter (\<lambda>lm. lm_model_id lm \<notin> set in_use \<and> \<not> is_pinned (d_backends d) (lm_model_id lm))
                   (loaded_models b))) (live (d_backends d))))"

definition should_exit :: "config \<Rightarrow> nat \<Rightarrow> daemon \<Rightarrow> bool" where
  "should_exit c now d \<longleftrightarrow>
     idle_exit_seconds (c_daemon c) \<noteq> 0 \<and> d_sessions d = []
     \<and> list_all (\<lambda>(_, b). loaded_models b = []) (live (d_backends d))
     \<and> idle_exit_seconds (c_daemon c) * 1000000000 < idle_for now d"

subsection \<open>Facts\<close>

lemma first_able_Inr:
  "first_able spawn fmt capability ss err bs = (Inr b, bs') \<Longrightarrow> handles_format b fmt \<and> can b capability"
  by (induction spawn fmt capability ss err bs rule: first_able.induct) (auto split: prod.splits sum.splits if_splits)

text \<open>A backend chosen for a manifest can do what it was chosen for.\<close>

lemma for_manifest_able:
  "for_manifest spawn m capability bs = (Inr b, bs') \<Longrightarrow> can b capability"
  by (auto simp: for_manifest_def split: if_splits prod.splits sum.splits dest: first_able_Inr)

text \<open>The janitor never unloads a model that a session uses or an administrator pinned.\<close>

lemma unload_spares_used:
  assumes "(bn, mid) \<in> set (unload_idle_models c now d)"
  shows "mid \<notin> s_model ` set (map snd (d_sessions d)) \<and> \<not> is_pinned (d_backends d) mid"
  using assms by (auto simp: unload_idle_models_def Let_def split: if_splits)

end
