(* ===== verification/Dbus.thy ===== *)
theory Dbus
  imports State
begin

text \<open>
  The bus interface: \<open>crates/ai-daemon/src/dbusapi.rs\<close>, and the teardown of a session from
  \<open>crates/ai-daemon/src/session.rs\<close>. Option values are the D-Bus types the code converts from;
  a conversion succeeds exactly on its own type. A method is a function of the configuration,
  what it reads from outside (an \<open>env\<close>: process files, store, backend start-up, the outcomes of
  the fallible system calls) and the daemon's state.
\<close>

subsection \<open>Option values\<close>

datatype dval = VStr string | VU32 nat | VU64 nat | VBool bool | VF64 f64 | VStrs "string list" | VOther

type_synonym options = "(string \<times> dval) list"

fun as_str :: "dval \<Rightarrow> string option" where "as_str (VStr s) = Some s" | "as_str _ = None"
fun as_u32 :: "dval \<Rightarrow> nat option" where "as_u32 (VU32 n) = Some n" | "as_u32 _ = None"
fun as_u64 :: "dval \<Rightarrow> nat option" where "as_u64 (VU64 n) = Some n" | "as_u64 _ = None"
fun as_bool :: "dval \<Rightarrow> bool option" where "as_bool (VBool b) = Some b" | "as_bool _ = None"
fun as_f64 :: "dval \<Rightarrow> f64 option" where "as_f64 (VF64 x) = Some x" | "as_f64 _ = None"
fun as_strs :: "dval \<Rightarrow> string list option" where "as_strs (VStrs xs) = Some xs" | "as_strs _ = None"

definition opt :: "(dval \<Rightarrow> 'a option) \<Rightarrow> string \<Rightarrow> options \<Rightarrow> 'a option" where
  "opt conv k os = Option.bind (map_of os k) conv"

subsection \<open>Who may introduce whom\<close>

text \<open>\<open>trim_end_matches\<close> removes the suffix as often as it is there.\<close>

function trim_end_matches :: "string \<Rightarrow> string \<Rightarrow> string" where
  "trim_end_matches p s =
     (if p \<noteq> [] \<and> ends_with p s then trim_end_matches p (take (length s - length p) s) else s)"
  by pat_completeness auto
termination
proof (relation "measure (\<lambda>(p, s). length s)")
  fix p s :: string
  assume "p \<noteq> [] \<and> ends_with p s"
  then have "0 < length p" "length p \<le> length s"
    by (auto simp: ends_with_def)
  then have "length s - length p < length s"
    by linarith
  then show "((p, take (length s - length p) s), p, s) \<in> measure (\<lambda>(p, s). length s)"
    by simp
qed simp

declare trim_end_matches.simps [simp del]

definition name_matches :: "string \<Rightarrow> string \<Rightarrow> bool" where
  "name_matches candidate name \<longleftrightarrow> candidate = name \<or> strip_suffix ''.service'' candidate = Some name"

definition is_trusted_introducer :: "string list \<Rightarrow> string option \<Rightarrow> string option \<Rightarrow> bool" where
  "is_trusted_introducer allowed unit_name exe \<longleftrightarrow>
     list_ex (\<lambda>configured_name.
        let name = trim_end_matches ''.service'' (trim configured_name)
        in name \<noteq> [] \<and> ((case unit_name of None \<Rightarrow> False | Some u \<Rightarrow> name_matches u name)
                        \<or> (case exe of None \<Rightarrow> False | Some e \<Rightarrow> name_matches e name))) allowed"

definition as_i32 :: "nat \<Rightarrow> int" where
  "as_i32 n = (if n < 2147483648 then int n else int n - 4294967296)"

definition client_ok :: "string \<Rightarrow> bool" where
  "client_ok name \<longleftrightarrow>
     name \<noteq> [] \<and> length name \<le> 64 \<and> list_all (\<lambda>c. is_ascii_alphanumeric c \<or> c \<in> set ''-_.'') name"

definition is_shim :: "config \<Rightarrow> files \<Rightarrow> identity \<Rightarrow> bool" where
  "is_shim c rd i \<longleftrightarrow>
     (let user = trim (shim_user (c_policy c))
      in user \<noteq> [] \<and> uid_of_user rd user = Some (id_uid i))
     \<or> id_unit i = Some ''ai-daemon-shim.service''"

definition identity_of :: "config \<Rightarrow> files \<Rightarrow> files \<Rightarrow> nat \<times> int \<Rightarrow> options \<Rightarrow> string + identity" where
  "identity_of c rd links creds os =
     (let i = from_pid_uid rd links (snd creds) (fst creds) (fst creds) Native
      in case opt as_str ''portal_app_id'' os of
           Some app_id \<Rightarrow>
             if is_trusted_introducer (portal_units (c_policy c)) (id_unit i) (id_exe i)
             then Inr (i\<lparr> id_class := Portal, id_app_id := Some app_id \<rparr>)
             else Inl ''only xdg-desktop-portal may assert an application identity''
         | None \<Rightarrow>
             if map_of os ''shim_client'' \<noteq> None \<and> \<not> is_shim c rd i
             then Inl ''only ai-daemon-shim may name an HTTP caller''
             else
               (case opt as_u32 ''shim_peer_pid'' os of
                  None \<Rightarrow> Inr i
                | Some pid \<Rightarrow>
                    if \<not> is_shim c rd i then Inl ''only ai-daemon-shim may introduce an HTTP caller''
                    else
                      let peer_uid = unwrap_or (opt as_u32 ''shim_peer_uid'' os) (id_uid i);
                          j = from_pid_uid rd links (as_i32 pid) peer_uid peer_uid Shim;
                          named = map_option trim (opt as_str ''shim_client'' os)
                      in Inr (j\<lparr> id_attested := unwrap_or (opt as_bool ''shim_peer_attested'' os) False,
                                 id_client := (case named of
                                                 Some n \<Rightarrow> if client_ok n then Some n else None
                                               | None \<Rightarrow> None) \<rparr>)))"

subsection \<open>Narrowing a session\<close>

definition narrow_rate :: "options \<Rightarrow> limits \<Rightarrow> limits" where
  "narrow_rate os l =
     (case opt as_u64 ''max_tokens_per_minute'' os of
        Some v \<Rightarrow> if v < l_tokens_per_minute l
                  then l\<lparr> l_session_rate := Some v, l_tokens_per_minute := v \<rparr> else l
      | None \<Rightarrow> l)"

definition narrow_sessions :: "options \<Rightarrow> limits \<Rightarrow> limits" where
  "narrow_sessions os l =
     (case opt as_u32 ''max_sessions'' os of
        Some v \<Rightarrow> l\<lparr> l_max_sessions := min (l_max_sessions l) v \<rparr> | None \<Rightarrow> l)"

definition narrow_spend :: "options \<Rightarrow> limits \<Rightarrow> limits" where
  "narrow_spend os l =
     (case opt as_f64 ''daily_spend'' os of
        None \<Rightarrow> l
      | Some v \<Rightarrow>
          let asked = to_micros v
          in if 0 < asked
             then l\<lparr> l_daily_spend_micros :=
                       (if l_daily_spend_micros l = 0 then asked else min (l_daily_spend_micros l) asked) \<rparr>
             else l)"

definition narrow_tools :: "options \<Rightarrow> limits \<Rightarrow> limits" where
  "narrow_tools os l =
     (if unwrap_or (opt as_bool ''no_tools'' os) False then l\<lparr> l_no_tools := True \<rparr> else l)"

definition narrow_models :: "options \<Rightarrow> limits \<Rightarrow> limits" where
  "narrow_models os l =
     (case opt as_strs ''allowed_models'' os of
        None \<Rightarrow> l
      | Some models \<Rightarrow>
          l\<lparr> l_allowed_models :=
               (if list_ex (\<lambda>m. m = ''*'') (l_allowed_models l) then models
                else filter (\<lambda>m. m = ''*'' \<or> list_ex (\<lambda>a. a = m) (l_allowed_models l)) models) \<rparr>)"

definition narrow_prelude :: "options \<Rightarrow> limits \<Rightarrow> limits" where
  "narrow_prelude os l =
     (case opt as_str ''prelude'' os of
        None \<Rightarrow> l
      | Some txt \<Rightarrow>
          if trim txt = [] then l
          else if trim (l_prelude l) = [] then l\<lparr> l_prelude := txt \<rparr>
          else l\<lparr> l_prelude := l_prelude l @ [CHR 0x0A] @ txt \<rparr>)"

definition narrow_marks :: "options \<Rightarrow> limits \<Rightarrow> limits" where
  "narrow_marks os l =
     (if unwrap_or (opt as_bool ''mark_provenance'' os) False then l\<lparr> l_mark_provenance := True \<rparr> else l)"

definition attenuate :: "limits \<Rightarrow> options \<Rightarrow> limits" where
  "attenuate l os =
     narrow_marks os (narrow_prelude os (narrow_models os (narrow_tools os
       (narrow_spend os (narrow_sessions os (narrow_rate os l))))))"

subsection \<open>Opening and closing sessions\<close>

record env =
  e_creds :: "string + nat \<times> int"
  e_read :: files
  e_link :: files
  e_codec :: codec
  e_fs :: fs
  e_spawn :: starter
  e_now :: nat
  e_panics :: bool
  e_pair :: "string option"
  e_path :: "string option"
  e_object :: "string option"
  e_thread :: "string option"

definition session_path :: "string \<Rightarrow> string" where
  "session_path i = ''/io/github/agraves/AIDaemon1/session/'' @ i"

definition set_policy :: "(policy_state \<Rightarrow> policy_state) \<Rightarrow> daemon \<Rightarrow> daemon" where
  "set_policy g d = d\<lparr> d_policy := g (d_policy d) \<rparr>"

definition audit :: "audit_note \<Rightarrow> daemon \<Rightarrow> daemon" where
  "audit a d = d\<lparr> d_audit := d_audit d @ [a] \<rparr>"

text \<open>Everything that must happen when a session stops existing.\<close>

definition retire :: "env \<Rightarrow> session \<Rightarrow> daemon \<Rightarrow> daemon" where
  "retire e s d =
     (let d1 = audit (Session_End (s_identity s) (s_id s) (s_model s) (prompt_tokens (s_usage s))
                 (completion_tokens (s_usage s)) (s_attachment_bytes s)) d;
          d2 = d1\<lparr> d_scheduler := release_kv (s_id s) (d_scheduler d1) \<rparr>;
          d3 = set_policy (close_session (s_identity s)) d2;
          d4 = remove_session (e_now e) (s_id s) d3
      in case get_backend (e_spawn e) (s_backend s) (d_backends d4) of
           (Inr _, bs) \<Rightarrow> d4\<lparr> d_backends := drop_session_cache None (s_backend s) (s_id s) bs \<rparr>
         | (Inl _, bs) \<Rightarrow> d4\<lparr> d_backends := bs \<rparr>)"

text \<open>Dropping the guard that \<open>CreateSession\<close> holds while it is armed.\<close>

definition drop_slot :: "env \<Rightarrow> identity \<Rightarrow> session option \<Rightarrow> daemon \<Rightarrow> daemon" where
  "drop_slot e i s d =
     (case s of Some s' \<Rightarrow> retire e s' d | None \<Rightarrow> set_policy (close_session i) d)"

definition session_class :: "options \<Rightarrow> sclass" where
  "session_class os = (case opt as_str ''priority'' os of Some s \<Rightarrow> class_parse s | None \<Rightarrow> Interactive)"

definition session_context :: "options \<Rightarrow> limits \<Rightarrow> manifest \<Rightarrow> nat" where
  "session_context os l m =
     min (min (unwrap_or (opt as_u32 ''max_context'' os) (l_max_context l)) (l_max_context l))
       (if max_ctx (m_requirements m) = 0 then U32 - 1 else max_ctx (m_requirements m))"

definition new_session :: "env \<Rightarrow> identity \<Rightarrow> limits \<Rightarrow> resolved \<Rightarrow> options \<Rightarrow> backend \<Rightarrow> string \<Rightarrow> session" where
  "new_session e i l rs os b sid =
     \<lparr> s_id = sid, s_object_path = session_path sid, s_identity = i, s_model = m_name (rs_manifest rs),
       s_digest = m_digest (rs_manifest rs), s_backend = b_name b,
       s_capabilities = filter (can b) (m_capabilities (rs_manifest rs)), s_local = bi_local (b_info b),
       s_class = session_class os, s_max_context = session_context os l (rs_manifest rs),
       s_created = e_now e, s_blob = rs_blob rs, s_usage = no_usage, s_attachment_bytes = 0,
       s_attachments = [], s_current_req = None, s_cancelled = False, s_closed = False \<rparr>"

text \<open>
  The part of \<open>CreateSession\<close> after the slot was taken: on every error return the armed guard is
  dropped last.
\<close>

definition build_session :: "env \<Rightarrow> identity \<Rightarrow> limits \<Rightarrow> resolved \<Rightarrow> options \<Rightarrow> daemon
    \<Rightarrow> (string + string) \<times> daemon" where
  "build_session e i granted rs os d =
     (let l = attenuate granted os;
          (outcome, bs) = for_manifest (e_spawn e) (rs_manifest rs) ''generate'' (d_backends d);
          d1 = d\<lparr> d_backends := bs \<rparr>
      in if e_panics e
         then (Inl ''backend startup panicked'', drop_slot e i None (set_policy (close_session i) d))
         else
           (case outcome of
              Inl err \<Rightarrow> (Inl err, drop_slot e i None (set_policy (close_session i) d1))
            | Inr b \<Rightarrow>
                (case e_pair e of
                   Some err \<Rightarrow> (Inl (''socketpair: '' @ err), drop_slot e i None d1)
                 | None \<Rightarrow>
                     let (sid, d2) = next_session_id d1
                     in case e_path e of
                          Some err \<Rightarrow> (Inl err, drop_slot e i None d2)
                        | None \<Rightarrow>
                            let s = new_session e i l rs os b sid;
                                d3 = insert_session (e_now e) s
                                  (audit (Session_Start i sid (s_model s) (s_digest s) (s_local s)) d2)
                            in (case e_object e of
                                  Some err \<Rightarrow>
                                    (Inl (''registering the session object: '' @ err), drop_slot e i (Some s) d3)
                                | None \<Rightarrow>
                                    (case e_thread e of
                                       Some err \<Rightarrow> (Inl err, drop_slot e i (Some s) d3)
                                     | None \<Rightarrow> (Inr (s_object_path s), d3))))))"

definition create_session :: "config \<Rightarrow> env \<Rightarrow> string \<Rightarrow> options \<Rightarrow> daemon \<Rightarrow> (string + string) \<times> daemon" where
  "create_session c e model os d =
     (case rbind (e_creds e) (\<lambda>creds. identity_of c (e_read e) (e_link e) creds os) of
        Inl err \<Rightarrow> (Inl err, d)
      | Inr i \<Rightarrow>
          (case gate c (e_read e) i of
             Inl reason \<Rightarrow> (Inl reason, audit (Denied i ''gate'' reason) d)
           | Inr _ \<Rightarrow>
               let l = limits_for c i
               in case resolve (e_codec e) (e_fs e) (d_registry d) model (Some (id_uid i)) of
                    Inl err \<Rightarrow> (Inl err, d)
                  | Inr rs \<Rightarrow>
                      if \<not> permits_model l (m_name (rs_manifest rs))
                      then (let reason = key i @ '' may not use '' @ m_name (rs_manifest rs)
                            in (Inl reason, audit (Denied i ''generate'' reason) d))
                      else
                        (case open_session i l (d_policy d) of
                           (Inl err, ps) \<Rightarrow> (Inl err, d\<lparr> d_policy := ps \<rparr>)
                         | (Inr _, ps) \<Rightarrow> build_session e i l rs os (d\<lparr> d_policy := ps \<rparr>))))"

subsection \<open>Administration\<close>

definition require_admin :: "config \<Rightarrow> bus_call option \<Rightarrow> env \<Rightarrow> nat \<Rightarrow> daemon \<Rightarrow> (string + identity) \<times> daemon" where
  "require_admin c bus e now_secs d =
     (case e_creds e of
        Inl err \<Rightarrow> (Inl err, d)
      | Inr (uid, pid) \<Rightarrow>
          let i = from_pid_uid (e_read e) (e_link e) pid uid uid Native
          in case check c bus (e_read e) now_secs i CAP_MODEL_ADMIN (d_policy d) of
               (Inr _, ps) \<Rightarrow> (Inr i, d\<lparr> d_policy := ps \<rparr>)
             | (Inl reason, ps) \<Rightarrow>
                 (Inl reason, audit (Denied i CAP_MODEL_ADMIN reason) (d\<lparr> d_policy := ps \<rparr>)))"

definition admin_set_grant :: "config \<Rightarrow> bus_call option \<Rightarrow> env \<Rightarrow> nat \<Rightarrow> string \<Rightarrow> string \<Rightarrow> bool \<Rightarrow> daemon
    \<Rightarrow> (string + unit) \<times> daemon" where
  "admin_set_grant c bus e now_secs who capability allow d =
     (case require_admin c bus e now_secs d of
        (Inl err, d') \<Rightarrow> (Inl err, d')
      | (Inr _, d') \<Rightarrow>
          if capability \<notin> set ALL_CAPABILITIES then (Inl (''no such capability '' @ capability), d')
          else (Inr (), set_policy (set_grant now_secs who capability (if allow then Allow else Deny) ''admin'') d'))"

definition cancel_in_flight :: "env \<Rightarrow> string \<Rightarrow> daemon \<Rightarrow> daemon" where
  "cancel_in_flight e sid d =
     (case map_of (d_sessions d) sid of
        None \<Rightarrow> d
      | Some s \<Rightarrow>
          let d1 = d\<lparr> d_sessions := AList.update sid (s\<lparr> s_cancelled := True \<rparr>) (d_sessions d) \<rparr>
          in case s_current_req s of
               None \<Rightarrow> d1
             | Some req_id \<Rightarrow>
                 (case get_backend (e_spawn e) (s_backend s) (d_backends d1) of
                    (Inl _, bs) \<Rightarrow> d1\<lparr> d_backends := bs \<rparr>
                  | (Inr _, bs) \<Rightarrow>
                      d1\<lparr> d_backends := on_live (s_backend s) (cancel_req None req_id) bs \<rparr>))"

definition close_live_session :: "env \<Rightarrow> string \<Rightarrow> daemon \<Rightarrow> daemon" where
  "close_live_session e sid d =
     (case map_of (d_sessions d) sid of
        None \<Rightarrow> d
      | Some s \<Rightarrow>
          cancel_in_flight e sid
            (d\<lparr> d_sessions := AList.update sid (s\<lparr> s_closed := True \<rparr>) (d_sessions d) \<rparr>))"

definition admin_revoke :: "config \<Rightarrow> bus_call option \<Rightarrow> env \<Rightarrow> nat \<Rightarrow> string \<Rightarrow> daemon \<Rightarrow> (string + nat) \<times> daemon" where
  "admin_revoke c bus e now_secs who d =
     (case require_admin c bus e now_secs d of
        (Inl err, d') \<Rightarrow> (Inl err, d')
      | (Inr _, d') \<Rightarrow>
          let (removed, ps) = revoke who (d_policy d');
              d2 = d'\<lparr> d_policy := ps \<rparr>;
              doomed = map s_id (filter (\<lambda>s. key (s_identity s) = who) (session_list d2))
          in (Inr removed, fold (close_live_session e) doomed d2))"


subsection \<open>Attenuation\<close>

text \<open>Each step changes its own fields only.\<close>

lemma narrow_rate_frame [simp]:
  "l_max_context (narrow_rate os l) = l_max_context l"
  "l_max_sessions (narrow_rate os l) = l_max_sessions l"
  "l_daily_spend_micros (narrow_rate os l) = l_daily_spend_micros l"
  "l_prelude (narrow_rate os l) = l_prelude l"
  "l_mark_provenance (narrow_rate os l) = l_mark_provenance l"
  "l_no_tools (narrow_rate os l) = l_no_tools l"
  "l_allowed_models (narrow_rate os l) = l_allowed_models l"
  by (simp_all add: narrow_rate_def Let_def split: option.split)

lemma narrow_sessions_frame [simp]:
  "l_max_context (narrow_sessions os l) = l_max_context l"
  "l_tokens_per_minute (narrow_sessions os l) = l_tokens_per_minute l"
  "l_daily_spend_micros (narrow_sessions os l) = l_daily_spend_micros l"
  "l_prelude (narrow_sessions os l) = l_prelude l"
  "l_mark_provenance (narrow_sessions os l) = l_mark_provenance l"
  "l_session_rate (narrow_sessions os l) = l_session_rate l"
  "l_no_tools (narrow_sessions os l) = l_no_tools l"
  "l_allowed_models (narrow_sessions os l) = l_allowed_models l"
  by (simp_all add: narrow_sessions_def Let_def split: option.split)

lemma narrow_spend_frame [simp]:
  "l_max_context (narrow_spend os l) = l_max_context l"
  "l_max_sessions (narrow_spend os l) = l_max_sessions l"
  "l_tokens_per_minute (narrow_spend os l) = l_tokens_per_minute l"
  "l_prelude (narrow_spend os l) = l_prelude l"
  "l_mark_provenance (narrow_spend os l) = l_mark_provenance l"
  "l_session_rate (narrow_spend os l) = l_session_rate l"
  "l_no_tools (narrow_spend os l) = l_no_tools l"
  "l_allowed_models (narrow_spend os l) = l_allowed_models l"
  by (simp_all add: narrow_spend_def Let_def split: option.split)

lemma narrow_tools_frame [simp]:
  "l_max_context (narrow_tools os l) = l_max_context l"
  "l_max_sessions (narrow_tools os l) = l_max_sessions l"
  "l_tokens_per_minute (narrow_tools os l) = l_tokens_per_minute l"
  "l_daily_spend_micros (narrow_tools os l) = l_daily_spend_micros l"
  "l_prelude (narrow_tools os l) = l_prelude l"
  "l_mark_provenance (narrow_tools os l) = l_mark_provenance l"
  "l_session_rate (narrow_tools os l) = l_session_rate l"
  "l_allowed_models (narrow_tools os l) = l_allowed_models l"
  by (simp_all add: narrow_tools_def Let_def split: option.split)

lemma narrow_models_frame [simp]:
  "l_max_context (narrow_models os l) = l_max_context l"
  "l_max_sessions (narrow_models os l) = l_max_sessions l"
  "l_tokens_per_minute (narrow_models os l) = l_tokens_per_minute l"
  "l_daily_spend_micros (narrow_models os l) = l_daily_spend_micros l"
  "l_prelude (narrow_models os l) = l_prelude l"
  "l_mark_provenance (narrow_models os l) = l_mark_provenance l"
  "l_session_rate (narrow_models os l) = l_session_rate l"
  "l_no_tools (narrow_models os l) = l_no_tools l"
  by (simp_all add: narrow_models_def Let_def split: option.split)

lemma narrow_prelude_frame [simp]:
  "l_max_context (narrow_prelude os l) = l_max_context l"
  "l_max_sessions (narrow_prelude os l) = l_max_sessions l"
  "l_tokens_per_minute (narrow_prelude os l) = l_tokens_per_minute l"
  "l_daily_spend_micros (narrow_prelude os l) = l_daily_spend_micros l"
  "l_mark_provenance (narrow_prelude os l) = l_mark_provenance l"
  "l_session_rate (narrow_prelude os l) = l_session_rate l"
  "l_no_tools (narrow_prelude os l) = l_no_tools l"
  "l_allowed_models (narrow_prelude os l) = l_allowed_models l"
  by (simp_all add: narrow_prelude_def Let_def split: option.split)

lemma narrow_marks_frame [simp]:
  "l_max_context (narrow_marks os l) = l_max_context l"
  "l_max_sessions (narrow_marks os l) = l_max_sessions l"
  "l_tokens_per_minute (narrow_marks os l) = l_tokens_per_minute l"
  "l_daily_spend_micros (narrow_marks os l) = l_daily_spend_micros l"
  "l_prelude (narrow_marks os l) = l_prelude l"
  "l_session_rate (narrow_marks os l) = l_session_rate l"
  "l_no_tools (narrow_marks os l) = l_no_tools l"
  "l_allowed_models (narrow_marks os l) = l_allowed_models l"
  by (simp_all add: narrow_marks_def Let_def split: option.split)

text \<open>A daily ceiling is at most another; zero is no ceiling.\<close>

definition ceiling_le :: "nat \<Rightarrow> nat \<Rightarrow> bool" where
  "ceiling_le a b \<longleftrightarrow> b = 0 \<or> (0 < a \<and> a \<le> b)"

lemma narrow_own:
  "l_tokens_per_minute (narrow_rate os l) = (case opt as_u64 ''max_tokens_per_minute'' os of
     Some v \<Rightarrow> min v (l_tokens_per_minute l) | None \<Rightarrow> l_tokens_per_minute l)"
  "l_session_rate (narrow_rate os l) = (case opt as_u64 ''max_tokens_per_minute'' os of
     Some v \<Rightarrow> if v < l_tokens_per_minute l then Some v else l_session_rate l | None \<Rightarrow> l_session_rate l)"
  "l_max_sessions (narrow_sessions os l) = (case opt as_u32 ''max_sessions'' os of
     Some v \<Rightarrow> min (l_max_sessions l) v | None \<Rightarrow> l_max_sessions l)"
  "l_no_tools (narrow_tools os l) = (unwrap_or (opt as_bool ''no_tools'' os) False \<or> l_no_tools l)"
  "l_mark_provenance (narrow_marks os l) =
     (unwrap_or (opt as_bool ''mark_provenance'' os) False \<or> l_mark_provenance l)"
  by (simp_all add: narrow_rate_def narrow_sessions_def narrow_tools_def narrow_marks_def min_def
      split: option.split)

lemma narrow_spend_ceiling: "ceiling_le (l_daily_spend_micros (narrow_spend os l)) (l_daily_spend_micros l)"
  by (auto simp: narrow_spend_def ceiling_le_def Let_def split: option.split)

lemma narrow_prelude_keeps:
  "trim (l_prelude l) \<noteq> [] \<Longrightarrow> starts_with (l_prelude l) (l_prelude (narrow_prelude os l))"
  by (auto simp: narrow_prelude_def starts_with_def split: option.split)

lemma narrow_models_models:
  "l_allowed_models (narrow_models os l) = (case opt as_strs ''allowed_models'' os of
     None \<Rightarrow> l_allowed_models l
   | Some models \<Rightarrow>
       if ''*'' \<in> set (l_allowed_models l) then models
       else filter (\<lambda>m. m = ''*'' \<or> m \<in> set (l_allowed_models l)) models)"
  by (auto simp: narrow_models_def list_ex_iff split: option.split intro: filter_cong)

text \<open>
  C18. Attenuation only takes away, save for one request. Whatever options a caller sends, the
  narrowed session has at most the rate (and its own bucket when the rate was lowered), the
  sessions and the spend of the identity; tools stay refused and marking stays on; a prelude the
  administrator wrote stays in front; and, provided the caller does not ask for the model
  \<open>*\<close>, every model the session permits the identity was permitted.
\<close>

theorem attenuate_only_takes_away:
  assumes "\<And>models. opt as_strs ''allowed_models'' os = Some models \<Longrightarrow> ''*'' \<notin> set models"
  shows "l_max_context (attenuate l os) \<le> l_max_context l
    \<and> l_tokens_per_minute (attenuate l os) \<le> l_tokens_per_minute l
    \<and> (l_tokens_per_minute (attenuate l os) < l_tokens_per_minute l
        \<longrightarrow> l_session_rate (attenuate l os) = Some (l_tokens_per_minute (attenuate l os)))
    \<and> l_max_sessions (attenuate l os) \<le> l_max_sessions l
    \<and> ceiling_le (l_daily_spend_micros (attenuate l os)) (l_daily_spend_micros l)
    \<and> (l_no_tools l \<longrightarrow> l_no_tools (attenuate l os))
    \<and> (l_mark_provenance l \<longrightarrow> l_mark_provenance (attenuate l os))
    \<and> (trim (l_prelude l) \<noteq> [] \<longrightarrow> starts_with (l_prelude l) (l_prelude (attenuate l os)))
    \<and> (\<forall>m. permits_model (attenuate l os) m \<longrightarrow> permits_model l m)"
proof -
  have models: "permits_model l m" if "permits_model (attenuate l os) m" for m
    using that assms
    by (auto simp: permits_model_def attenuate_def narrow_models_models list_ex_iff split: option.splits if_splits)
  have rate: "l_tokens_per_minute (attenuate l os) \<le> l_tokens_per_minute l"
    "l_tokens_per_minute (attenuate l os) < l_tokens_per_minute l
      \<Longrightarrow> l_session_rate (attenuate l os) = Some (l_tokens_per_minute (attenuate l os))"
    "l_max_sessions (attenuate l os) \<le> l_max_sessions l"
    by (simp_all add: attenuate_def narrow_own min_def split: option.splits if_splits)
  have spend: "ceiling_le (l_daily_spend_micros (attenuate l os)) (l_daily_spend_micros l)"
    using narrow_spend_ceiling[of os "narrow_sessions os (narrow_rate os l)"] by (simp add: attenuate_def)
  have prelude: "starts_with (l_prelude l) (l_prelude (attenuate l os))" if "trim (l_prelude l) \<noteq> []"
    using that narrow_prelude_keeps[of "narrow_models os (narrow_tools os (narrow_spend os
        (narrow_sessions os (narrow_rate os l))))" os]
    by (simp add: attenuate_def)
  show ?thesis
    using models rate spend prelude by (auto simp: attenuate_def narrow_own)
qed

definition narrow_options :: options where
  "narrow_options = [(''allowed_models'', VStrs [''small'']), (''max_sessions'', VU32 1), (''no_tools'', VBool True)]"

theorem attenuate_only_takes_away_witness:
  "l_max_sessions (attenuate (limits_for default_config sample_identity) narrow_options)
     \<le> l_max_sessions (limits_for default_config sample_identity)"
  using attenuate_only_takes_away[of narrow_options "limits_for default_config sample_identity"]
  by (simp add: narrow_options_def opt_def)

text \<open>
  Asking for the model \<open>*\<close> widens. An identity restricted to named models that sends
  \<open>allowed_models = [*]\<close> gets limits that permit every model, where the code says that a star
  on either side means what the other side says and that every field can only take away.
\<close>

theorem star_widens_the_models:
  assumes "opt as_strs ''allowed_models'' os = Some [''*'']" "''*'' \<notin> set (l_allowed_models l)"
    and "m \<notin> set (l_allowed_models l)"
  shows "\<not> permits_model l m \<and> permits_model (attenuate l os) m"
  using assms by (auto simp: permits_model_def attenuate_def narrow_models_models list_ex_iff)

theorem star_widens_the_models_witness:
  "permits_model (attenuate ((limits_for default_config sample_identity)\<lparr> l_allowed_models := [''small''] \<rparr>)
      [(''allowed_models'', VStrs [''*''])]) ''big''"
  using star_widens_the_models[of "[(''allowed_models'', VStrs [''*''])]"
      "(limits_for default_config sample_identity)\<lparr> l_allowed_models := [''small''] \<rparr>" "''big''"]
  by (simp add: opt_def)


subsection \<open>The session count\<close>

abbreviation held :: "identity \<Rightarrow> daemon \<Rightarrow> nat" where
  "held i d \<equiv> count_of (d_policy d) (key i)"

lemma count_close [simp]: "count_of (close_session i ps) (key i) = count_of ps (key i) - 1"
  by (auto simp: close_session_def count_of_def split: option.splits)

lemma held_close [simp]: "held i (set_policy (close_session i) d) = held i d - 1"
  by (simp add: set_policy_def)

lemma retire_held: "s_identity s = i \<Longrightarrow> held i (retire e s d) = held i d - 1"
  by (simp add: retire_def Let_def audit_def set_policy_def remove_session_def touch_def
      split: prod.split sum.split)

lemma retire_sessions: "map_of (d_sessions (retire e s d)) k = (if k = s_id s then None else map_of (d_sessions d) k)"
  by (simp add: retire_def Let_def audit_def set_policy_def remove_session_def touch_def
      split: prod.split sum.split)

lemma open_session_room:
  assumes "count_of ps (key i) < l_max_sessions l"
  shows "\<exists>ps'. open_session i l ps = (Inr (), ps') \<and> count_of ps' (key i) = Suc (count_of ps (key i))"
proof -
  have "open_session i l ps
      = (Inr (), ps\<lparr> sessions := AList.update (key i) (Suc (count_of ps (key i))) (sessions ps) \<rparr>)"
    using assms by (simp add: open_session_def Let_def)
  moreover have "count_of (ps\<lparr> sessions := AList.update (key i) n (sessions ps) \<rparr>) (key i) = n" for n
    by (simp add: count_of_def)
  ultimately show ?thesis
    by blast
qed

text \<open>A caller for whom everything before the backend succeeds.\<close>

definition admitted :: "config \<Rightarrow> env \<Rightarrow> string \<Rightarrow> options \<Rightarrow> daemon \<Rightarrow> identity \<Rightarrow> resolved \<Rightarrow> bool" where
  "admitted c e model os d i rs \<longleftrightarrow>
     rbind (e_creds e) (\<lambda>creds. identity_of c (e_read e) (e_link e) creds os) = Inr i
     \<and> gate c (e_read e) i = Inr ()
     \<and> resolve (e_codec e) (e_fs e) (d_registry d) model (Some (id_uid i)) = Inr rs
     \<and> permits_model (limits_for c i) (m_name (rs_manifest rs))
     \<and> held i d < l_max_sessions (limits_for c i)"

lemma create_session_admitted:
  assumes "admitted c e model os d i rs"
  obtains ps where "create_session c e model os d = build_session e i (limits_for c i) rs os (d\<lparr> d_policy := ps \<rparr>)"
    "count_of ps (key i) = Suc (held i d)"
proof -
  obtain ps where "open_session i (limits_for c i) (d_policy d) = (Inr (), ps)" "count_of ps (key i) = Suc (held i d)"
    using open_session_room[of "d_policy d" i "limits_for c i"] assms by (auto simp: admitted_def)
  then show thesis
    using that assms by (simp add: create_session_def admitted_def Let_def)
qed

lemma build_session_fails_twice:
  assumes "e_panics e \<or> (\<exists>err. fst (for_manifest (e_spawn e) (rs_manifest rs) ''generate'' (d_backends d)) = Inl err)"
  shows "\<not> is_ok (fst (build_session e i l rs os d))
    \<and> held i (snd (build_session e i l rs os d)) = held i d - 2
    \<and> d_sessions (snd (build_session e i l rs os d)) = d_sessions d"
  using assms
  by (auto simp: build_session_def Let_def drop_slot_def set_policy_def split: prod.splits sum.splits)

text \<open>
  A failing backend gives a session back twice. When a caller is admitted and then its
  backend cannot be started, the slot it took is released explicitly and once more by the guard:
  the call fails, no session was opened or closed, and the identity is recorded as holding one
  session fewer than before. Every such failure lets the identity open one session more than
  its limit allows.
\<close>

theorem failed_backend_frees_a_held_session:
  assumes "admitted c e model os d i rs"
    and "e_panics e \<or> (\<exists>err. fst (for_manifest (e_spawn e) (rs_manifest rs) ''generate'' (d_backends d)) = Inl err)"
  shows "\<not> is_ok (fst (create_session c e model os d))
    \<and> held i (snd (create_session c e model os d)) = held i d - 1
    \<and> d_sessions (snd (create_session c e model os d)) = d_sessions d"
proof -
  obtain ps where "create_session c e model os d
      = build_session e i (limits_for c i) rs os (d\<lparr> d_policy := ps \<rparr>)"
    "count_of ps (key i) = Suc (held i d)"
    using create_session_admitted[OF assms(1)] by blast
  then show ?thesis
    using build_session_fails_twice[of e rs "d\<lparr> d_policy := ps \<rparr>" i "limits_for c i" os] assms(2) by simp
qed


definition open_config :: config where
  "open_config = default_config\<lparr> c_policy := default_policy\<lparr> gate_group := [] \<rparr> \<rparr>"

definition plain_identity :: "nat \<Rightarrow> int \<Rightarrow> identity" where
  "plain_identity uid pid =
     \<lparr> id_class = Native, id_uid = uid, id_gid = uid, id_pid = pid, id_unit = None, id_app_id = None,
       id_exe = None, id_client = None, id_attested = False \<rparr>"

definition sample_env :: env where
  "sample_env =
     \<lparr> e_creds = Inr (1000, 77), e_read = (\<lambda>_. None), e_link = (\<lambda>_. None), e_codec = sample_codec,
       e_fs = [(''/m/manifests/tiny.json'', ''M'')], e_spawn = (\<lambda>_. Inl ''no such file''), e_now = 9,
       e_panics = False, e_pair = None, e_path = None, e_object = None, e_thread = None \<rparr>"

definition sample_daemon :: daemon where
  "sample_daemon =
     \<lparr> d_policy = empty_policy\<lparr> sessions := [(key (plain_identity 1000 77), 1)] \<rparr>, d_registry = sample_registry,
       d_scheduler = inner_new, d_backends = backends_new [], d_sessions = [], d_next_session = 1,
       d_last_activity = 0, d_audit = [] \<rparr>"

lemma sample_resolve:
  "resolve sample_codec [(''/m/manifests/tiny.json'', ''M'')] sample_registry ''tiny'' (Some 1000)
   = Inr \<lparr> rs_manifest = installed_manifest, rs_blob = ''/m/blobs/sha256/'' @ zero_hex, rs_store = System \<rparr>"
proof -
  have no_alias: "resolve_alias sample_codec [(''/m/manifests/tiny.json'', ''M'')] sample_registry ''tiny'' (Some 1000) = None"
    by (simp add: resolve_alias_def user_root_def home_of_uid_def sample_registry_def read_aliases_def
        aliases_path_def join_path_def starts_with_def)
  have m: "read_manifest sample_codec [(''/m/manifests/tiny.json'', ''M'')] (manifest_path ''/m'' ''tiny'') = Some installed_manifest"
    by (simp add: manifest_path_plain read_manifest_def sample_codec_def)
  have "blob_for ''/m'' installed_manifest = Inr (''/m/blobs/sha256/'' @ zero_hex)"
    using sample_dest
    by (simp add: blob_for_def is_remote_def REMOTE_FORMAT_def installed_manifest_def sample_manifest_def)
  then show ?thesis
    using m no_alias
    by (simp add: resolve_def user_root_def home_of_uid_def sample_registry_def)
qed

lemma sample_admitted:
  "admitted open_config sample_env ''tiny'' [] sample_daemon (plain_identity 1000 77)
     \<lparr> rs_manifest = installed_manifest, rs_blob = ''/m/blobs/sha256/'' @ zero_hex, rs_store = System \<rparr>"
proof -
  have "identity_of open_config (\<lambda>_. None) (\<lambda>_. None) (1000, 77) [] = Inr (plain_identity 1000 77)"
    by (simp add: identity_of_def Let_def opt_def from_pid_uid_def unit_of_pid_def exe_of_pid_def plain_identity_def)
  moreover have "gate open_config (\<lambda>_. None) i = Inr ()" for i
    by (simp add: gate_def open_config_def trim_def trim_start_def trim_end_def)
  moreover have "l_max_sessions (limits_for open_config i) = 8" "l_allowed_models (limits_for open_config i) = [''*'']" for i
    by (simp_all add: limits_for_def rule_for_def open_config_def default_config_def default_policy_def Let_def)
  moreover have "held (plain_identity 1000 77) sample_daemon = 1"
    by (simp add: sample_daemon_def count_of_def)
  moreover have "id_uid (plain_identity 1000 77) = 1000" "d_registry sample_daemon = sample_registry"
    by (simp_all add: plain_identity_def sample_daemon_def)
  ultimately show ?thesis
    using sample_resolve by (simp add: admitted_def sample_env_def permits_model_def)
qed

theorem failed_backend_frees_a_held_session_witness:
  "held (plain_identity 1000 77) sample_daemon = 1
   \<and> held (plain_identity 1000 77) (snd (create_session open_config sample_env ''tiny'' [] sample_daemon)) = 0"
proof -
  have one: "held (plain_identity 1000 77) sample_daemon = 1"
    by (simp add: sample_daemon_def count_of_def)
  have "\<exists>err. fst (for_manifest (e_spawn sample_env) m ''generate'' (d_backends sample_daemon)) = Inl err" for m
    by (simp add: for_manifest_def sample_daemon_def backends_new_def get_backend_def)
  then show ?thesis
    using failed_backend_frees_a_held_session[OF sample_admitted] one by simp
qed


subsection \<open>Introducers\<close>

text \<open>
  The files a process sees to by asking its own user's service manager for a scope of a chosen
  name, as \<open>ai-run --as\<close> does.
\<close>

definition own_scope :: "int \<Rightarrow> string \<Rightarrow> files" where
  "own_scope pid name p =
     (if p = proc_path pid ''cgroup''
      then Some (''0::/user.slice/user-1000.slice/user@1000.service/app.slice'' @ ''/'' @
                 (''app-airun-'' @ name @ ''-'' @ ''1'' @ ''.scope'') @ [CHR 0x0A])
      else None)"

lemma own_scope_unit:
  assumes "CHR '':'' \<notin> set name" "CHR ''/'' \<notin> set name" "CHR 0x0A \<notin> set name"
  shows "id_unit (from_pid_uid (own_scope pid name) links pid uid gid cls) = Some name"
proof -
  have "is_launch_token ''1''"
    by (simp add: is_launch_token_def is_ascii_digit_def code_def)
  then have "launch_scope name (''app-airun-'' @ name @ ''-'' @ ''1'' @ ''.scope'')"
    by (rule launch_scope.airun)
  then have "unit_from_cgroup (''0::/user.slice/user-1000.slice/user@1000.service/app.slice'' @ ''/'' @
      (''app-airun-'' @ name @ ''-'' @ ''1'' @ ''.scope'') @ [CHR 0x0A]) = Some name"
    by (rule unit_from_cgroup_launch) (use assms in simp_all)
  then show ?thesis
    unfolding from_pid_uid_def unit_of_pid_def own_scope_def by simp
qed

lemma portal_trusted:
  "is_trusted_introducer default_portal_units (Some ''xdg-desktop-portal'') exe"
proof -
  have "trim ''xdg-desktop-portal'' = ''xdg-desktop-portal''"
    by (simp add: trim_def trim_start_def trim_end_def is_space_def code_def)
  moreover have "trim_end_matches ''.service'' ''xdg-desktop-portal'' = ''xdg-desktop-portal''"
    by (subst trim_end_matches.simps) (simp add: ends_with_def)
  ultimately show ?thesis
    by (simp add: is_trusted_introducer_def default_portal_units_def name_matches_def Let_def)
qed

text \<open>
  The trusted introducers can be impersonated. Under the default configuration, a process of
  any user that runs in a scope it named itself is believed to be the desktop portal, and may
  then assert any application id; or to be the HTTP shim, and may then name any client and any
  other user's uid as its caller. The unit name is the caller's own claim, as the code notes
  where it derives it; these two checks take it for proof.
\<close>

theorem introducers_can_be_impersonated:
  "(\<exists>i. identity_of default_config (own_scope pid ''xdg-desktop-portal'') links (uid, pid)
           [(''portal_app_id'', VStr app)] = Inr i
        \<and> id_class i = Portal \<and> key i = ''portal:'' @ app)
   \<and> (\<exists>i. identity_of default_config (own_scope pid ''ai-daemon-shim.service'') links (uid, pid)
           [(''shim_peer_pid'', VU32 7), (''shim_peer_uid'', VU32 other_uid)] = Inr i
        \<and> id_class i = Shim \<and> id_uid i = other_uid \<and> key i = ''shim:uid:'' @ show_nat other_uid)"
proof
  let ?i = "from_pid_uid (own_scope pid ''xdg-desktop-portal'') links pid uid uid Native"
  have "id_unit ?i = Some ''xdg-desktop-portal''"
    by (rule own_scope_unit) simp_all
  then have "identity_of default_config (own_scope pid ''xdg-desktop-portal'') links (uid, pid)
      [(''portal_app_id'', VStr app)] = Inr (?i\<lparr> id_class := Portal, id_app_id := Some app \<rparr>)"
    using portal_trusted by (simp add: identity_of_def Let_def opt_def default_config_def default_policy_def)
  then show "\<exists>i. identity_of default_config (own_scope pid ''xdg-desktop-portal'') links (uid, pid)
      [(''portal_app_id'', VStr app)] = Inr i \<and> id_class i = Portal \<and> key i = ''portal:'' @ app"
    by (simp add: key_def)
next
  let ?rd = "own_scope pid ''ai-daemon-shim.service''"
  have "id_unit (from_pid_uid ?rd links pid uid uid Native) = Some ''ai-daemon-shim.service''"
    by (rule own_scope_unit) simp_all
  then have "is_shim default_config ?rd (from_pid_uid ?rd links pid uid uid Native)"
    by (simp add: is_shim_def)
  then show "\<exists>i. identity_of default_config ?rd links (uid, pid)
      [(''shim_peer_pid'', VU32 7), (''shim_peer_uid'', VU32 other_uid)] = Inr i
      \<and> id_class i = Shim \<and> id_uid i = other_uid \<and> key i = ''shim:uid:'' @ show_nat other_uid"
    by (simp add: identity_of_def Let_def opt_def key_def from_pid_uid_def)
qed

end
