(* ===== verification/Grammar.thy ===== *)
theory Grammar
  imports Messages Rust_Text
begin

text \<open>
  Compiling tool schemas into a decoding grammar: \<open>crates/ai-daemon/src/grammar.rs\<close>. The
  compiler is the code's, producing the same text; a rule is kept as its name and its body until
  the grammar is printed. Printing a JSON value is serde_json's and an argument. The theorems
  read the text the compiler writes as a grammar: which objects a rule body accepts, and that
  text taken from a schema cannot leave the literal it is put in.
\<close>

subsection \<open>The compiler\<close>

definition quote :: char where "quote = CHR 0x22"
definition backslash :: char where "backslash = CHR 0x5C"

definition escape_gbnf :: "string \<Rightarrow> string" where
  "escape_gbnf s =
     concat (map (\<lambda>c. if c = quote then [backslash, quote] else [c])
       (concat (map (\<lambda>c. if c = backslash then [backslash, backslash] else [c]) s)))"

definition lit :: "string \<Rightarrow> string" where
  "lit s = [quote] @ s @ [quote]"

definition optional_tail :: "string \<Rightarrow> string" where
  "optional_tail part = '' (ws '' @ lit '','' @ '' ws '' @ part @ '')?''"

fun optional_alternatives :: "string list \<Rightarrow> string list" where
  "optional_alternatives [] = []"
| "optional_alternatives (first # later) =
     (first @ concat (map optional_tail later)) # optional_alternatives later"

definition object_body :: "string list \<Rightarrow> string list \<Rightarrow> string" where
  "object_body required optional =
     (case (required, optional) of
        ([], []) \<Rightarrow> lit ''{'' @ '' ws '' @ lit ''}''
      | ([], _) \<Rightarrow>
          lit ''{'' @ '' ws'' @ '' ('' @ join '' | '' (optional_alternatives optional) @ '')?'' @ '' ws '' @ lit ''}''
      | (part # parts, _) \<Rightarrow>
          lit ''{'' @ '' ws'' @ '' '' @ part
          @ concat (map (\<lambda>p. '' ws '' @ lit '','' @ '' ws '' @ p) parts)
          @ concat (map optional_tail optional) @ '' ws '' @ lit ''}'')"

record gst =
  g_rules :: "(string \<times> string) list"
  g_widened :: bool
  g_counter :: nat

definition fresh :: "nat \<Rightarrow> string \<Rightarrow> gst \<Rightarrow> string \<times> gst" where
  "fresh index kind st =
     (''t'' @ show_nat index @ ''-'' @ kind @ ''-'' @ show_nat (g_counter st + 1),
      st\<lparr> g_counter := g_counter st + 1 \<rparr>)"

definition widen :: "gst \<Rightarrow> gst" where
  "widen st = st\<lparr> g_widened := True \<rparr>"

definition push_rule :: "string \<Rightarrow> string \<Rightarrow> gst \<Rightarrow> gst" where
  "push_rule name body st = st\<lparr> g_rules := g_rules st @ [(name, body)] \<rparr>"

fun as_json_str :: "json \<Rightarrow> string option" where
  "as_json_str (JStr s) = Some s"
| "as_json_str _ = None"

definition required_names :: "(string \<times> json) list \<Rightarrow> string list" where
  "required_names schema =
     (case map_of schema ''required'' of Some (JArr rs) \<Rightarrow> List.map_filter as_json_str rs | _ \<Rightarrow> [])"

definition enum_choices :: "(json \<Rightarrow> string) \<Rightarrow> (string \<times> json) list \<Rightarrow> string list" where
  "enum_choices show_json schema =
     (case map_of schema ''enum'' of
        Some (JArr choices) \<Rightarrow> map (\<lambda>c. lit (escape_gbnf (show_json c))) choices
      | _ \<Rightarrow> [])"

definition pair_text :: "string \<Rightarrow> string \<Rightarrow> string" where
  "pair_text k value_rule =
     lit ([backslash, quote] @ escape_gbnf k @ [backslash, quote]) @ '' ws '' @ lit '':'' @ '' ws '' @ value_rule"

lemma map_of_size: "map_of kvs k = Some v \<Longrightarrow> size v < size (JObj kvs)"
proof -
  assume "map_of kvs k = Some v"
  then have "(k, v) \<in> set kvs"
    by (rule map_of_SomeD)
  then show ?thesis
    by (induction kvs) auto
qed

function schema_value :: "(json \<Rightarrow> string) \<Rightarrow> nat \<Rightarrow> json \<Rightarrow> gst \<Rightarrow> string \<times> gst"
  and props :: "(json \<Rightarrow> string) \<Rightarrow> nat \<Rightarrow> string list \<Rightarrow> (string \<times> json) list \<Rightarrow> gst
    \<Rightarrow> string list \<times> string list \<times> gst" where
  "schema_value show_json index schema st =
     (case schema of
        JObj kvs \<Rightarrow>
          if enum_choices show_json kvs \<noteq> []
          then (''('' @ join '' | '' (enum_choices show_json kvs) @ '')'', st)
          else
            (case Option.bind (map_of kvs ''type'') as_json_str of
               None \<Rightarrow> (''json'', widen st)
             | Some ty \<Rightarrow>
                 if ty = ''string'' then (''string'', st)
                 else if ty = ''integer'' then (''integer'', st)
                 else if ty = ''number'' then (''number'', st)
                 else if ty = ''boolean'' then (''boolean'', st)
                 else if ty = ''null'' then (lit ''null'', st)
                 else if ty = ''array'' then
                   (let (item, st1) =
                          (case map_of kvs ''items'' of
                             Some items \<Rightarrow> schema_value show_json index items st
                           | None \<Rightarrow> (''json'', widen st));
                        (rule, st2) = fresh index ''array'' st1
                    in (rule, push_rule rule
                          (lit ''['' @ '' ws ('' @ item @ '' (ws '' @ lit '','' @ '' ws '' @ item @ '')*)? ws '' @ lit '']'')
                          st2))
                 else if ty = ''object'' then
                   (case map_of kvs ''properties'' of
                      Some (JObj properties) \<Rightarrow>
                        (let (req, opts, st1) = props show_json index (required_names kvs) properties st;
                             (rule, st2) = fresh index ''obj'' st1
                         in (rule, push_rule rule (object_body req opts) st2))
                    | _ \<Rightarrow> (''object'', widen st))
                 else (''json'', widen st))
      | _ \<Rightarrow> (''json'', widen st))"
| "props show_json index required [] st = ([], [], st)"
| "props show_json index required ((k, sub) # rest) st =
     (let (value_rule, st1) = schema_value show_json index sub st;
          pair = pair_text k value_rule;
          (req, opts, st2) = props show_json index required rest st1
      in if k \<in> set required then (pair # req, opts, st2) else (req, pair # opts, st2))"
  by pat_completeness auto
termination
  by (relation "measure (\<lambda>x. case x of Inl (_, _, j, _) \<Rightarrow> size j
        | Inr (_, _, _, kvs, _) \<Rightarrow> size (JObj kvs))")
    (auto dest: map_of_size)


definition qlit :: "string \<Rightarrow> string" where
  "qlit s = lit ([backslash, quote] @ s @ [backslash, quote])"

definition plain_name :: "string \<Rightarrow> bool" where
  "plain_name name \<longleftrightarrow> list_all (\<lambda>c. is_ascii_alphanumeric c \<or> c = CHR ''_'' \<or> c = CHR ''-'') name"

definition args_rule :: "nat \<Rightarrow> string" where "args_rule index = ''args-'' @ show_nat index"
definition call_rule :: "nat \<Rightarrow> string" where "call_rule index = ''call-'' @ show_nat index"

definition call_body :: "nat \<Rightarrow> string \<Rightarrow> string" where
  "call_body index name =
     join '' '' [lit ''{'', ''ws'', qlit ''name'', ''ws'', lit '':'', ''ws'', qlit name, ''ws'', lit '','', ''ws'',
                 qlit ''arguments'', ''ws'', lit '':'', ''ws'', args_rule index, ''ws'', lit ''}'']"

datatype grammar_error = No_tools | Not_plain_identifier string

fun compile_tools :: "(json \<Rightarrow> string) \<Rightarrow> nat \<Rightarrow> tool_schema list \<Rightarrow> (string \<times> string) list \<Rightarrow> bool
    \<Rightarrow> grammar_error + (string \<times> string) list \<times> bool" where
  "compile_tools show_json index [] rules widened = Inr (rules, widened)"
| "compile_tools show_json index (tool # tools) rules widened =
     (if \<not> plain_name (tool_name tool)
      then Inl (Not_plain_identifier (tool_name tool))
      else
        let (args_body, st) = schema_value show_json index (tool_json_schema tool)
              \<lparr> g_rules = rules, g_widened = widened, g_counter = 0 \<rparr>
        in compile_tools show_json (Suc index) tools
             (g_rules st @ [(args_rule index, args_body), (call_rule index, call_body index (tool_name tool))])
             (g_widened st))"

definition PRELUDE :: string where
  "PRELUDE = concat (map (\<lambda>l. l @ [CHR 0x0A])
     [[],
      ''ws ::= [ '' @ [backslash] @ ''t'' @ [backslash] @ ''n]*'',
      ''string ::= '' @ lit [backslash, quote] @ '' char* '' @ lit [backslash, quote],
      ''char ::= [^'' @ [quote, backslash, backslash] @ ''] | '' @ lit [backslash, backslash] @ '' ([''
        @ [quote, backslash, backslash] @ ''/bfnrt] | '' @ lit ''u'' @ '' hex hex hex hex)'',
      ''hex ::= [0-9a-fA-F]'',
      ''integer ::= '' @ lit ''-'' @ ''? ('' @ lit ''0'' @ '' | [1-9] [0-9]*)'',
      ''number ::= integer ('' @ lit ''.'' @ '' [0-9]+)? ([eE] [-+]? [0-9]+)?'',
      ''boolean ::= '' @ lit ''true'' @ '' | '' @ lit ''false'',
      ''object ::= '' @ lit ''{'' @ '' ws (string ws '' @ lit '':'' @ '' ws json (ws '' @ lit '',''
        @ '' ws string ws '' @ lit '':'' @ '' ws json)*)? ws '' @ lit ''}'',
      ''array ::= '' @ lit ''['' @ '' ws (json (ws '' @ lit '','' @ '' ws json)*)? ws '' @ lit '']'',
      ''json ::= string | number | object | array | boolean | '' @ lit ''null''])"

record compiled =
  gbnf :: string
  names :: "string list"
  widened :: bool

definition compile :: "(json \<Rightarrow> string) \<Rightarrow> tool_schema list \<Rightarrow> grammar_error + compiled" where
  "compile show_json tools =
     (if tools = [] then Inl No_tools
      else
        rbind (compile_tools show_json 0 tools [] False) (\<lambda>(rules, w).
          Inr \<lparr> gbnf =
                  ''root ::= '' @ join '' | '' (map call_rule [0..<length tools]) @ [CHR 0x0A]
                  @ concat (map (\<lambda>(name, body). name @ '' ::= '' @ body @ [CHR 0x0A]) rules) @ PRELUDE,
                names = map tool_name tools, widened = w \<rparr>))"

subsection \<open>What a rule body accepts\<close>

text \<open>
  The grammar expressions that object bodies are written in, how they print, and the token
  sequences they accept; white space is not a token, and what a pair accepts is a parameter.
\<close>

datatype gexp = Ws | Tok string | Part string | Seq "gexp list" | Alt "gexp list" | Opt gexp

fun gprint :: "gexp \<Rightarrow> string" where
  "gprint Ws = ''ws''"
| "gprint (Tok t) = lit t"
| "gprint (Part p) = p"
| "gprint (Seq es) = join '' '' (map gprint es)"
| "gprint (Alt es) = join '' | '' (map gprint es)"
| "gprint (Opt e) = ''('' @ gprint e @ '')?''"

definition conc :: "string list set \<Rightarrow> string list set \<Rightarrow> string list set" where
  "conc A B = {a @ b | a b. a \<in> A \<and> b \<in> B}"

fun lang :: "(string \<Rightarrow> string list set) \<Rightarrow> gexp \<Rightarrow> string list set" where
  "lang P Ws = {[]}"
| "lang P (Tok t) = {[t]}"
| "lang P (Part p) = P p"
| "lang P (Seq es) = foldr conc (map (lang P) es) {[]}"
| "lang P (Alt es) = \<Union> (set (map (lang P) es))"
| "lang P (Opt e) = insert [] (lang P e)"

definition tail_exp :: "string \<Rightarrow> gexp" where
  "tail_exp p = Opt (Seq [Ws, Tok '','', Ws, Part p])"

fun alt_exps :: "string list \<Rightarrow> gexp list" where
  "alt_exps [] = []"
| "alt_exps (first # later) = Seq (Part first # map tail_exp later) # alt_exps later"

definition object_exp :: "string list \<Rightarrow> string list \<Rightarrow> gexp" where
  "object_exp required optional =
     (case (required, optional) of
        ([], []) \<Rightarrow> Seq [Tok ''{'', Ws, Tok ''}'']
      | ([], _) \<Rightarrow> Seq [Tok ''{'', Ws, Opt (Alt (alt_exps optional)), Ws, Tok ''}'']
      | (part # parts, _) \<Rightarrow>
          Seq ([Tok ''{'', Ws, Part part] @ concat (map (\<lambda>p. [Ws, Tok '','', Ws, Part p]) parts)
               @ map tail_exp optional @ [Ws, Tok ''}'']))"

lemma join_space: "join '' '' (x # xs) = x @ concat (map (\<lambda>y. '' '' @ y) xs)"
  by (induction xs arbitrary: x) auto

lemma tail_print: "'' '' @ gprint (tail_exp p) = optional_tail p"
  by (simp add: tail_exp_def optional_tail_def)

lemma tails_print: "concat (map (\<lambda>y. '' '' @ y) (map gprint (map tail_exp ps))) = concat (map optional_tail ps)"
  by (induction ps) (use tail_print in auto)

lemma alts_print: "map gprint (alt_exps ps) = optional_alternatives ps"
proof (induction ps)
  case (Cons p ps)
  then show ?case
    using join_space[of p "map gprint (map tail_exp ps)"] tails_print[of ps] by simp
qed simp

lemma commas_print:
  "concat (map (\<lambda>y. '' '' @ y) (map gprint (concat (map (\<lambda>p. [Ws, Tok '','', Ws, Part p]) ps))))
   = concat (map (\<lambda>p. '' ws '' @ lit '','' @ '' ws '' @ p) ps)"
  by (induction ps) auto

lemma object_exp_prints: "gprint (object_exp required optional) = object_body required optional"
proof (cases required)
  case Nil
  then show ?thesis
    by (cases optional) (simp_all add: object_exp_def object_body_def alts_print[symmetric])
next
  case (Cons part parts)
  have "gprint (object_exp required optional)
      = lit ''{'' @ concat (map (\<lambda>y. '' '' @ y) ([''ws'', part]
          @ map gprint (concat (map (\<lambda>p. [Ws, Tok '','', Ws, Part p]) parts))
          @ map gprint (map tail_exp optional) @ [''ws'', lit ''}'']))"
    unfolding Cons object_exp_def prod.case list.case gprint.simps list.map append.simps map_append join_space
    by simp
  also have "\<dots> = object_body required optional"
    unfolding concat_append map_append commas_print tails_print by (simp add: Cons object_body_def)
  finally show ?thesis .
qed


text \<open>The specification: a list of accepted pairs, separated by commas.\<close>

fun commas :: "string list list \<Rightarrow> string list" where
  "commas [] = []"
| "commas (w # ws) = w @ concat (map (\<lambda>v. '','' # v) ws)"

definition accepted :: "(string \<Rightarrow> string list set) \<Rightarrow> string list \<Rightarrow> string list list \<Rightarrow> bool" where
  "accepted P parts ws \<longleftrightarrow> list_all2 (\<lambda>w p. w \<in> P p) ws parts"

lemma conc_assoc: "conc (conc A B) C = conc A (conc B C)"
  by (auto simp: conc_def) (metis append_assoc)+

lemma conc_unit [simp]: "conc {[]} A = A" "conc A {[]} = A"
  by (auto simp: conc_def)

lemma lang_Seq_append: "lang P (Seq (xs @ ys)) = conc (lang P (Seq xs)) (lang P (Seq ys))"
  by (induction xs) (simp_all add: conc_assoc)

lemma lang_Seq_Cons: "lang P (Seq (x # xs)) = conc (lang P x) (lang P (Seq xs))"
  by simp

lemma lang_tail: "lang P (tail_exp p) = insert [] ((\<lambda>w. '','' # w) ` P p)"
  by (auto simp: tail_exp_def conc_def)

lemma lang_tails:
  "lang P (Seq (map tail_exp ps))
    = {concat (map (\<lambda>v. '','' # v) ws) | ws picked. picked \<in> set (subseqs ps) \<and> accepted P picked ws}"
proof (induction ps)
  case Nil
  then show ?case
    by (auto simp: accepted_def)
next
  case (Cons p ps)
  show ?case (is "_ = ?R")
  proof (intro set_eqI iffI)
    fix x
    assume "x \<in> lang P (Seq (map tail_exp (p # ps)))"
    then obtain a b where x: "x = a @ b" and a: "a \<in> lang P (tail_exp p)"
      and b: "b \<in> lang P (Seq (map tail_exp ps))"
      by (auto simp: conc_def)
    then obtain ws picked where b': "b = concat (map (\<lambda>v. '','' # v) ws)" "picked \<in> set (subseqs ps)"
      "accepted P picked ws"
      unfolding Cons by blast
    from a consider "a = []" | w where "a = '','' # w" "w \<in> P p"
      by (auto simp: lang_tail)
    then show "x \<in> ?R"
    proof cases
      case 1
      then show ?thesis
        using x b' by (auto simp: Let_def)
    next
      case 2
      then have "x = concat (map (\<lambda>v. '','' # v) (w # ws))" "p # picked \<in> set (subseqs (p # ps))"
        "accepted P (p # picked) (w # ws)"
        using x b' by (auto simp: Let_def accepted_def)
      then show ?thesis
        by blast
    qed
  next
    fix x
    assume "x \<in> ?R"
    then obtain ws picked where x: "x = concat (map (\<lambda>v. '','' # v) ws)"
      and pick: "picked \<in> set (subseqs (p # ps))" and acc: "accepted P picked ws"
      by blast
    from pick consider rest where "picked = p # rest" "rest \<in> set (subseqs ps)" | "picked \<in> set (subseqs ps)"
      by (auto simp: Let_def)
    then show "x \<in> lang P (Seq (map tail_exp (p # ps)))"
    proof cases
      case 1
      then obtain w ws' where ws: "ws = w # ws'" "w \<in> P p" "accepted P rest ws'"
        using acc by (auto simp: accepted_def list_all2_Cons2)
      then have "concat (map (\<lambda>v. '','' # v) ws') \<in> lang P (Seq (map tail_exp ps))"
        unfolding Cons using 1 by blast
      then have "('','' # w) @ concat (map (\<lambda>v. '','' # v) ws') \<in> conc (lang P (tail_exp p)) (lang P (Seq (map tail_exp ps)))"
        using ws(2) unfolding conc_def lang_tail by blast
      then show ?thesis
        using x ws(1) by simp
    next
      case 2
      then have "x \<in> lang P (Seq (map tail_exp ps))"
        unfolding Cons using x acc by blast
      then have "[] @ x \<in> conc (lang P (tail_exp p)) (lang P (Seq (map tail_exp ps)))"
        unfolding conc_def lang_tail by blast
      then show ?thesis
        by simp
    qed
  qed
qed

lemma conc_commas:
  "conc {['','']} (conc (P p) {concat (map (\<lambda>v. '','' # v) ws) | ws. accepted P ps ws})
    = {concat (map (\<lambda>v. '','' # v) ws) | ws. accepted P (p # ps) ws}" (is "?L = ?R")
proof (intro set_eqI iffI)
  fix x
  assume "x \<in> ?L"
  then obtain w ws where "x = ['',''] @ w @ concat (map (\<lambda>v. '','' # v) ws)" "w \<in> P p" "accepted P ps ws"
    unfolding conc_def by blast
  then have "x = concat (map (\<lambda>v. '','' # v) (w # ws))" "accepted P (p # ps) (w # ws)"
    by (simp_all add: accepted_def)
  then show "x \<in> ?R"
    by blast
next
  fix x
  assume "x \<in> ?R"
  then obtain w ws where "x = concat (map (\<lambda>v. '','' # v) (w # ws))" "w \<in> P p" "accepted P ps ws"
    by (auto simp: accepted_def list_all2_Cons2)
  then have "x = ['',''] @ w @ concat (map (\<lambda>v. '','' # v) ws)" "w \<in> P p" "accepted P ps ws"
    by simp_all
  then show "x \<in> ?L"
    unfolding conc_def by blast
qed

lemma lang_commas:
  "lang P (Seq (concat (map (\<lambda>p. [Ws, Tok '','', Ws, Part p]) ps)))
    = {concat (map (\<lambda>v. '','' # v) ws) | ws. accepted P ps ws}"
proof (induction ps)
  case Nil
  then show ?case
    by (simp add: accepted_def)
next
  case (Cons p ps)
  have "lang P (Seq (concat (map (\<lambda>p. [Ws, Tok '','', Ws, Part p]) (p # ps))))
      = conc {['','']} (conc (P p) {concat (map (\<lambda>v. '','' # v) ws) | ws. accepted P ps ws})"
    using Cons by simp
  then show ?case
    unfolding conc_commas .
qed

lemma lang_first:
  "conc (P p) {concat (map (\<lambda>v. '','' # v) ws) | ws picked. picked \<in> S \<and> accepted P picked ws}
    = {commas ws | ws picked. picked \<in> S \<and> accepted P (p # picked) ws}" (is "?L = ?R")
proof (intro set_eqI iffI)
  fix x
  assume "x \<in> ?L"
  then obtain w ws picked where "x = w @ concat (map (\<lambda>v. '','' # v) ws)" "w \<in> P p" "picked \<in> S" "accepted P picked ws"
    unfolding conc_def by blast
  then have "x = commas (w # ws)" "picked \<in> S" "accepted P (p # picked) (w # ws)"
    by (simp_all add: accepted_def)
  then show "x \<in> ?R"
    by blast
next
  fix x
  assume "x \<in> ?R"
  then obtain w ws picked where "x = commas (w # ws)" "w \<in> P p" "picked \<in> S" "accepted P picked ws"
    by (auto simp: accepted_def list_all2_Cons2)
  then have "x = w @ concat (map (\<lambda>v. '','' # v) ws)" "w \<in> P p" "picked \<in> S" "accepted P picked ws"
    by simp_all
  then show "x \<in> ?L"
    unfolding conc_def by blast
qed

lemma lang_alts:
  "insert [] (lang P (Alt (alt_exps ps)))
    = {commas ws | ws picked. picked \<in> set (subseqs ps) \<and> accepted P picked ws}"
proof (induction ps)
  case Nil
  then show ?case
    by (auto simp: accepted_def)
next
  case (Cons p ps)
  have "insert [] (lang P (Alt (alt_exps (p # ps))))
      = conc (P p) (lang P (Seq (map tail_exp ps))) \<union> insert [] (lang P (Alt (alt_exps ps)))"
    by simp
  also have "\<dots> = {commas ws | ws picked. picked \<in> set (subseqs ps) \<and> accepted P (p # picked) ws}
      \<union> {commas ws | ws picked. picked \<in> set (subseqs ps) \<and> accepted P picked ws}"
    unfolding Cons lang_tails lang_first ..
  also have "\<dots> = {commas ws | ws picked. picked \<in> set (subseqs (p # ps)) \<and> accepted P picked ws}"
    by (simp add: Let_def) blast
  finally show ?case .
qed

lemma concat_accepted_append:
  "conc {concat (map f ws) | ws. accepted P ps ws} {concat (map f ws) | ws picked. picked \<in> S \<and> accepted P picked ws}
    = {concat (map f ws) | ws picked. picked \<in> (\<lambda>q. ps @ q) ` S \<and> accepted P picked ws}" (is "?L = ?R")
proof (intro set_eqI iffI)
  fix x
  assume "x \<in> ?L"
  then obtain ws vs picked where "x = concat (map f (ws @ vs))" "accepted P ps ws" "picked \<in> S" "accepted P picked vs"
    unfolding conc_def by fastforce
  then have "x = concat (map f (ws @ vs))" "ps @ picked \<in> (\<lambda>q. ps @ q) ` S" "accepted P (ps @ picked) (ws @ vs)"
    by (auto simp: accepted_def intro: list_all2_appendI)
  then show "x \<in> ?R"
    by blast
next
  fix x
  assume "x \<in> ?R"
  then obtain us picked where x: "x = concat (map f us)" and S: "picked \<in> S" and acc: "accepted P (ps @ picked) us"
    by blast
  from acc obtain ws vs where "us = ws @ vs" "accepted P ps ws" "accepted P picked vs"
    unfolding accepted_def list_all2_append2 by blast
  then have "x = concat (map f ws) @ concat (map f vs)" "accepted P ps ws" "accepted P picked vs"
    using x by simp_all
  then show "x \<in> ?L"
    unfolding conc_def using S by blast
qed

lemma braces: "conc {[a]} (conc A {[b]}) = (\<lambda>x. [a] @ x @ [b]) ` A"
  by (auto simp: conc_def)

lemma lang_object:
  "lang P (object_exp required optional)
    = (\<lambda>x. [''{''] @ x @ [''}'']) `
        {commas ws | ws picked. picked \<in> set (subseqs optional) \<and> accepted P (required @ picked) ws}"
proof (cases required)
  case Nil
  show ?thesis
  proof (cases optional)
    case Nil
    with \<open>required = []\<close> show ?thesis
      by (auto simp: object_exp_def accepted_def conc_def)
  next
    case (Cons q qs)
    have "lang P (object_exp required optional)
        = conc {[''{'']} (conc (insert [] (lang P (Alt (alt_exps optional)))) {[''}'']})"
      using \<open>required = []\<close> Cons by (simp add: object_exp_def)
    then show ?thesis
      unfolding braces lang_alts using \<open>required = []\<close> by simp
  qed
next
  case (Cons part parts)
  have "lang P (object_exp required optional)
      = conc {[''{'']} (conc (P part) (conc (lang P (Seq (concat (map (\<lambda>p. [Ws, Tok '','', Ws, Part p]) parts))))
          (conc (lang P (Seq (map tail_exp optional))) {[''}'']})))"
    unfolding Cons object_exp_def prod.case list.case lang_Seq_append by (simp add: conc_assoc)
  also have "\<dots> = conc {[''{'']} (conc (conc (P part)
      (conc {concat (map (\<lambda>v. '','' # v) ws) | ws. accepted P parts ws}
        {concat (map (\<lambda>v. '','' # v) ws) | ws picked. picked \<in> set (subseqs optional) \<and> accepted P picked ws})) {[''}'']})"
    unfolding lang_commas lang_tails conc_assoc ..
  finally show ?thesis
    unfolding braces concat_accepted_append lang_first Cons by (simp add: image_iff) blast
qed

text \<open>
  C19. The body of an object rule is the text of a grammar expression, and that expression accepts
  exactly the objects whose pairs are every required one, in order, followed by any subset of the
  optional ones, in order, with commas between pairs and none elsewhere: each optional property is
  present or absent on its own, and no property beyond the declared ones is offered.
\<close>

theorem object_body_language:
  "gprint (object_exp required optional) = object_body required optional
   \<and> lang P (object_exp required optional)
       = {[''{''] @ commas ws @ [''}''] | ws picked.
            picked \<in> set (subseqs optional) \<and> accepted P (required @ picked) ws}"
  unfolding lang_object object_exp_prints by blast

subsection \<open>Text of a schema inside a literal\<close>

text \<open>Reading a literal of the grammar: a backslash takes the next character as it is.\<close>

fun literal_tail :: "string \<Rightarrow> (string \<times> string) option" where
  "literal_tail [] = None"
| "literal_tail (c # cs) =
     (if c = quote then Some ([], cs)
      else if c = backslash then
        (case cs of
           [] \<Rightarrow> None
         | d # ds \<Rightarrow> (case literal_tail ds of None \<Rightarrow> None | Some (t, rest) \<Rightarrow> Some (d # t, rest)))
      else (case literal_tail cs of None \<Rightarrow> None | Some (t, rest) \<Rightarrow> Some (c # t, rest)))"

fun read_literal :: "string \<Rightarrow> (string \<times> string) option" where
  "read_literal (c # cs) = (if c = quote then literal_tail cs else None)"
| "read_literal [] = None"

lemma quote_backslash [simp]: "quote \<noteq> backslash" "backslash \<noteq> quote"
  by (simp_all add: quote_def backslash_def)

lemma escape_gbnf_Nil [simp]: "escape_gbnf [] = []"
  by (simp add: escape_gbnf_def)

lemma escape_gbnf_Cons:
  "escape_gbnf (c # cs) =
     (if c = quote then [backslash, quote] else if c = backslash then [backslash, backslash] else [c]) @ escape_gbnf cs"
  by (auto simp: escape_gbnf_def)

lemma literal_tail_escaped:
  "literal_tail (escape_gbnf t @ rest) = map_option (\<lambda>(u, r). (t @ u, r)) (literal_tail rest)"
  by (induction t) (auto simp: escape_gbnf_Cons map_option_case split: option.splits)

lemma read_literal_escaped: "read_literal (lit (escape_gbnf t) @ rest) = Some (t, rest)"
  by (simp add: lit_def literal_tail_escaped)

text \<open>
  Text taken from a schema cannot leave the literal it is written into, whatever characters it
  has: reading the literal of a property gives the key between quotation marks and stops exactly
  where the compiler closed it, before the colon and the value's rule, and reading the choices of
  an enumeration gives back the printed values, nothing left over.
\<close>

theorem schema_text_stays_in_literal:
  "read_literal (pair_text k value_rule @ rest)
     = Some ([quote] @ k @ [quote], '' ws '' @ lit '':'' @ '' ws '' @ value_rule @ rest)
   \<and> map read_literal (enum_choices show_json ((''enum'', JArr choices) # others))
     = map (\<lambda>c. Some (show_json c, [])) choices"
proof
  have "read_literal (pair_text k value_rule @ rest)
      = map_option (\<lambda>(u, r). (quote # u, r))
          (literal_tail (escape_gbnf k @ backslash # quote # quote # '' ws '' @ lit '':'' @ '' ws '' @ value_rule @ rest))"
    by (simp add: pair_text_def lit_def split: option.splits)
  then show "read_literal (pair_text k value_rule @ rest)
      = Some ([quote] @ k @ [quote], '' ws '' @ lit '':'' @ '' ws '' @ value_rule @ rest)"
    unfolding literal_tail_escaped by simp
  show "map read_literal (enum_choices show_json ((''enum'', JArr choices) # others))
      = map (\<lambda>c. Some (show_json c, [])) choices"
    using read_literal_escaped[where rest = "[]"] by (simp add: enum_choices_def)
qed

end
