(* ===== verification/Audit_Log.thy ===== *)
theory Audit_Log
  imports Identity Messages Registry
begin

text \<open>
  The audit log: \<open>crates/ai-daemon/src/audit.rs\<close>, and the verifier that \<open>aidctl\<close> carries. Files
  are those of the registry's model; what a write reached is an argument of the write, and
  SHA-256, writing and reading JSON are the fields of \<open>log_codec\<close>. The theorems: the chain a
  writer leaves verifies over any number of restarts; an accepted file is determined by its last
  line; a record that did not reach the disk whole breaks the chain for good; what goes to the
  journal can be read back.
\<close>

subsection \<open>Records\<close>

record audit_record =
  ar_at :: nat
  ar_event :: string
  ar_identity :: string
  ar_class :: string
  ar_uid :: nat
  ar_pid :: int
  ar_session :: "string option"
  ar_model :: "string option"
  ar_digest :: "string option"
  ar_local :: "bool option"
  ar_prompt_tokens :: "nat option"
  ar_completion_tokens :: "nat option"
  ar_attachment_bytes :: "nat option"
  ar_detail :: "string option"
  ar_prev :: "string option"

record log_codec =
  lc_to_json :: "audit_record \<Rightarrow> string option"
  lc_of_json :: "string \<Rightarrow> json option"
  lc_sha256 :: "string \<Rightarrow> string"

definition hash_line :: "log_codec \<Rightarrow> string \<Rightarrow> string" where
  "hash_line lc line = lc_sha256 lc line"

text \<open>
  \<open>fs::read_to_string\<close> refuses a file that is not UTF-8. A character boundary is a place where
  no continuation byte starts; a slice of a string that ends elsewhere panics.
\<close>

definition utf8_cont :: "char \<Rightarrow> bool" where
  "utf8_cont c \<longleftrightarrow> 128 \<le> code c \<and> code c < 192"

definition utf8_first :: "string \<Rightarrow> nat option" where
  "utf8_first s =
     (if s = [] then None
      else if code (s ! 0) < 128 then Some 1
      else if 194 \<le> code (s ! 0) \<and> code (s ! 0) < 224 \<and> 2 \<le> length s \<and> utf8_cont (s ! 1) then Some 2
      else if 224 \<le> code (s ! 0) \<and> code (s ! 0) < 240 \<and> 3 \<le> length s
              \<and> utf8_cont (s ! 1) \<and> (code (s ! 0) = 224 \<longrightarrow> 160 \<le> code (s ! 1))
              \<and> (code (s ! 0) = 237 \<longrightarrow> code (s ! 1) < 160) \<and> utf8_cont (s ! 2) then Some 3
      else if 240 \<le> code (s ! 0) \<and> code (s ! 0) < 245 \<and> 4 \<le> length s
              \<and> utf8_cont (s ! 1) \<and> (code (s ! 0) = 240 \<longrightarrow> 144 \<le> code (s ! 1))
              \<and> (code (s ! 0) = 244 \<longrightarrow> code (s ! 1) < 144) \<and> utf8_cont (s ! 2) \<and> utf8_cont (s ! 3) then Some 4
      else None)"

lemma utf8_first_bounds: "utf8_first s = Some n \<Longrightarrow> 0 < n \<and> n \<le> length s"
  by (cases s) (auto simp: utf8_first_def split: if_splits)

function utf8_valid :: "string \<Rightarrow> bool" where
  "utf8_valid s =
     (s = [] \<or> (case utf8_first s of None \<Rightarrow> False | Some n \<Rightarrow> utf8_valid (drop n s)))"
  by pat_completeness auto
termination
  by (relation "measure length") (auto dest: utf8_first_bounds)

declare utf8_valid.simps [simp del]

definition read_to_string :: "fs \<Rightarrow> string \<Rightarrow> string option" where
  "read_to_string f path =
     (case map_of f path of Some t \<Rightarrow> if utf8_valid t then Some t else None | None \<Rightarrow> None)"

definition slice_to :: "nat \<Rightarrow> string \<Rightarrow> string option" where
  "slice_to n s = (if n < length s \<and> utf8_cont (s ! n) then None else Some (take n s))"

definition first16 :: "string \<Rightarrow> string option" where
  "first16 s = slice_to (min 16 (length s)) s"

subsection \<open>The writer\<close>

record audit =
  au_open :: bool
  au_path :: "string option"
  au_head :: "string option"
  au_journal :: bool
  au_sent :: "string list"
  au_stderr :: "audit_record list"

definition head_of :: "log_codec \<Rightarrow> fs \<Rightarrow> string \<Rightarrow> string option" where
  "head_of lc f path =
     (case read_to_string f path of
        None \<Rightarrow> None
      | Some content \<Rightarrow>
          (case List.find (\<lambda>l. trim l \<noteq> []) (rev (rust_lines content)) of
             None \<Rightarrow> None
           | Some l \<Rightarrow> (case lc_of_json lc l of None \<Rightarrow> None | Some _ \<Rightarrow> Some (hash_line lc l))))"

definition audit_path :: "string \<Rightarrow> string" where
  "audit_path dir = join_path dir ''audit.jsonl''"

text \<open>Opening for append creates the file; \<open>opens\<close> says whether it succeeds. The line that names
  the head slices it, and a digest is ASCII.\<close>

definition audit_new :: "log_codec \<Rightarrow> bool \<Rightarrow> bool \<Rightarrow> string \<Rightarrow> fs \<Rightarrow> audit \<times> fs" where
  "audit_new lc opens journal dir f =
     (let path = audit_path dir; h = head_of lc f path
      in if opens
         then (\<lparr> au_open = True, au_path = Some path, au_head = h, au_journal = journal,
                 au_sent = [], au_stderr = [] \<rparr>,
               if map_of f path = None then AList.update path [] f else f)
         else (\<lparr> au_open = False, au_path = None, au_head = None, au_journal = journal,
                 au_sent = [], au_stderr = [] \<rparr>, f))"

definition le64 :: "nat \<Rightarrow> string" where
  "le64 n = map (\<lambda>i. char_of (n div 256 ^ i mod 256)) [0..<8]"

definition journal_field :: "string \<Rightarrow> string \<Rightarrow> string" where
  "journal_field name v = name @ [CHR 0x0A] @ le64 (length v) @ v @ [CHR 0x0A]"

definition opt_field :: "string \<Rightarrow> ('a \<Rightarrow> string) \<Rightarrow> 'a option \<Rightarrow> (string \<times> string) list" where
  "opt_field name sh v = (case v of None \<Rightarrow> [] | Some x \<Rightarrow> [(name, sh x)])"

definition journal_message :: "audit_record \<Rightarrow> string" where
  "journal_message r =
     ''audit '' @ ar_event r @ '' identity='' @ ar_identity r @ '' model='' @ unwrap_or (ar_model r) ''-''
     @ '' tokens='' @ show_nat (unwrap_or (ar_prompt_tokens r) 0) @ ''/''
     @ show_nat (unwrap_or (ar_completion_tokens r) 0)"

definition journal_fields :: "audit_record \<Rightarrow> (string \<times> string) list" where
  "journal_fields r =
     [(''MESSAGE'', journal_message r), (''PRIORITY'', ''6''), (''SYSLOG_IDENTIFIER'', ''ai-daemon''),
      (''AI_EVENT'', ar_event r), (''AI_IDENTITY'', ar_identity r), (''AI_CLASS'', ar_class r),
      (''AI_UID'', show_nat (ar_uid r)), (''AI_PID'', show_int (ar_pid r))]
     @ opt_field ''AI_SESSION'' id (ar_session r)
     @ opt_field ''AI_MODEL'' id (ar_model r)
     @ opt_field ''AI_DIGEST'' id (ar_digest r)
     @ opt_field ''AI_LOCAL'' (\<lambda>b. if b then ''true'' else ''false'') (ar_local r)
     @ opt_field ''AI_PROMPT_TOKENS'' show_nat (ar_prompt_tokens r)
     @ opt_field ''AI_COMPLETION_TOKENS'' show_nat (ar_completion_tokens r)
     @ opt_field ''AI_ATTACHMENT_BYTES'' show_nat (ar_attachment_bytes r)
     @ opt_field ''AI_DETAIL'' id (ar_detail r)"

definition journal_payload :: "audit_record \<Rightarrow> string" where
  "journal_payload r = concat (map (\<lambda>(name, v). journal_field name v) (journal_fields r))"

text \<open>
  \<open>writeln!\<close> may fail after some of the bytes: \<open>reached\<close> is how many got into the file. Its result
  is dropped, and the head is replaced whatever it was.
\<close>

definition append_file :: "fs \<Rightarrow> string \<Rightarrow> string \<Rightarrow> fs" where
  "append_file f path bytes =
     AList.update path ((case map_of f path of None \<Rightarrow> [] | Some t \<Rightarrow> t) @ bytes) f"

definition audit_append :: "log_codec \<Rightarrow> nat \<Rightarrow> audit_record \<Rightarrow> audit \<times> fs \<Rightarrow> audit \<times> fs" where
  "audit_append lc reached r = (\<lambda>(a, f).
     (case (au_open a, au_path a) of
        (True, Some path) \<Rightarrow>
          (case lc_to_json lc (r\<lparr> ar_prev := au_head a \<rparr>) of
             None \<Rightarrow> (a, f)
           | Some line \<Rightarrow>
               (a\<lparr> au_head := Some (hash_line lc line) \<rparr>,
                append_file f path (take reached (line @ [CHR 0x0A]))))
      | _ \<Rightarrow> (a, f)))"

definition audit_write :: "log_codec \<Rightarrow> bool \<Rightarrow> nat \<Rightarrow> audit_record \<Rightarrow> audit \<times> fs \<Rightarrow> audit \<times> fs" where
  "audit_write lc send_ok reached r = (\<lambda>(a, f).
     if au_journal a \<and> send_ok
     then audit_append lc reached r (a\<lparr> au_sent := au_sent a @ [journal_payload r] \<rparr>, f)
     else audit_append lc reached r (a\<lparr> au_stderr := au_stderr a @ [r] \<rparr>, f))"

definition empty_record :: "nat \<Rightarrow> string \<Rightarrow> identity \<Rightarrow> audit_record" where
  "empty_record now event i =
     \<lparr> ar_at = now, ar_event = event, ar_identity = key i, ar_class = id_class_as_str (id_class i),
       ar_uid = id_uid i, ar_pid = id_pid i, ar_session = None, ar_model = None, ar_digest = None,
       ar_local = None, ar_prompt_tokens = None, ar_completion_tokens = None,
       ar_attachment_bytes = None, ar_detail = None, ar_prev = None \<rparr>"

definition session_start_record :: "nat \<Rightarrow> identity \<Rightarrow> string \<Rightarrow> string \<Rightarrow> string \<Rightarrow> bool \<Rightarrow> audit_record" where
  "session_start_record now i session model digest local =
     (empty_record now ''session-start'' i)\<lparr> ar_session := Some session, ar_model := Some model,
       ar_digest := Some digest, ar_local := Some local \<rparr>"

definition session_end_record :: "nat \<Rightarrow> identity \<Rightarrow> string \<Rightarrow> string \<Rightarrow> nat \<Rightarrow> nat \<Rightarrow> nat \<Rightarrow> audit_record" where
  "session_end_record now i session model prompt completion attached =
     (empty_record now ''session-end'' i)\<lparr> ar_session := Some session, ar_model := Some model,
       ar_prompt_tokens := Some prompt, ar_completion_tokens := Some completion,
       ar_attachment_bytes := Some attached \<rparr>"

definition denied_record :: "nat \<Rightarrow> identity \<Rightarrow> string \<Rightarrow> string \<Rightarrow> audit_record" where
  "denied_record now i capability reason =
     (empty_record now ''denied'' i)\<lparr> ar_model := Some capability, ar_detail := Some reason \<rparr>"

subsection \<open>The verifier\<close>

datatype chain_error =
    Unreadable_log
  | Not_a_record nat
  | Missing_before nat string
  | No_link nat
  | Mismatch nat string string
  | Slice_panic

definition carried :: "json \<Rightarrow> string option" where
  "carried v = (case v of JObj kvs \<Rightarrow> (case map_of kvs ''prev'' of Some (JStr s) \<Rightarrow> Some s | _ \<Rightarrow> None) | _ \<Rightarrow> None)"

definition check_link :: "nat \<Rightarrow> string option \<Rightarrow> string option \<Rightarrow> chain_error + unit" where
  "check_link number expected got =
     (case (expected, got) of
        (None, None) \<Rightarrow> Inr ()
      | (None, Some p) \<Rightarrow> rbind (ok_or (first16 p) Slice_panic) (\<lambda>s. Inl (Missing_before number s))
      | (Some _, None) \<Rightarrow> Inl (No_link number)
      | (Some want, Some p) \<Rightarrow>
          if want \<noteq> p
          then rbind (ok_or (first16 p) Slice_panic) (\<lambda>s.
                 rbind (ok_or (first16 want) Slice_panic) (\<lambda>t. Inl (Mismatch number s t)))
          else Inr ())"

fun verify_lines :: "log_codec \<Rightarrow> nat \<Rightarrow> string option \<Rightarrow> nat \<Rightarrow> string list \<Rightarrow> chain_error + nat" where
  "verify_lines lc number expected checked [] = Inr checked"
| "verify_lines lc number expected checked (line # rest) =
     (if trim line = [] then verify_lines lc (Suc number) expected checked rest
      else
        (case lc_of_json lc line of
           None \<Rightarrow> Inl (Not_a_record number)
         | Some v \<Rightarrow>
             (case check_link number expected (carried v) of
                Inl e \<Rightarrow> Inl e
              | Inr _ \<Rightarrow> verify_lines lc (Suc number) (Some (hash_line lc line)) (Suc checked) rest)))"

definition verify :: "log_codec \<Rightarrow> fs \<Rightarrow> string \<Rightarrow> chain_error + nat" where
  "verify lc f path =
     (case read_to_string f path of
        None \<Rightarrow> Inl Unreadable_log
      | Some content \<Rightarrow> verify_lines lc 1 None 0 (rust_lines content))"

subsection \<open>Chains\<close>

definition last_hash :: "log_codec \<Rightarrow> string list \<Rightarrow> string option" where
  "last_hash lc ls = (if ls = [] then None else Some (hash_line lc (last ls)))"

definition carries :: "log_codec \<Rightarrow> string \<Rightarrow> string option \<Rightarrow> bool" where
  "carries lc l e \<longleftrightarrow> (\<exists>v. lc_of_json lc l = Some v \<and> carried v = e)"

fun chain :: "log_codec \<Rightarrow> string option \<Rightarrow> string list \<Rightarrow> bool" where
  "chain lc e [] \<longleftrightarrow> True"
| "chain lc e (l # ls) \<longleftrightarrow> carries lc l e \<and> chain lc (Some (hash_line lc l)) ls"

definition records_of :: "string \<Rightarrow> string list" where
  "records_of content = filter (\<lambda>l. trim l \<noteq> []) (rust_lines content)"

lemma check_link_ok [simp]: "check_link number expected got = Inr u \<longleftrightarrow> expected = got"
  by (cases expected; cases got) (simp_all add: check_link_def ok_or_def rbind_def split: option.split)

lemma check_link_bad: "check_link number expected got = Inl e \<Longrightarrow> expected \<noteq> got"
  by (metis Inl_Inr_False check_link_ok)

lemma carries_iff [simp]: "lc_of_json lc l = Some v \<Longrightarrow> carries lc l e \<longleftrightarrow> carried v = e"
  by (simp add: carries_def)

lemma verify_lines_ok:
  "verify_lines lc number e n ls = Inr m
    \<longleftrightarrow> chain lc e (filter (\<lambda>l. trim l \<noteq> []) ls) \<and> m = n + length (filter (\<lambda>l. trim l \<noteq> []) ls)"
proof (induction ls arbitrary: number e n)
  case (Cons l ls)
  show ?case
  proof (cases "trim l = []")
    case True
    with Cons show ?thesis
      by simp
  next
    case False
    with Cons show ?thesis
      by (cases "lc_of_json lc l"; cases "\<exists>v. lc_of_json lc l = Some v \<and> e = carried v")
        (auto simp: carries_def dest: check_link_bad split: sum.splits)
  qed
qed auto

lemma verify_ok:
  "verify lc f path = Inr m
    \<longleftrightarrow> (\<exists>content. read_to_string f path = Some content
          \<and> chain lc None (records_of content) \<and> m = length (records_of content))"
  by (auto simp: verify_def verify_lines_ok records_of_def split: option.splits)

lemma chain_append:
  "chain lc e (ls @ [l]) \<longleftrightarrow> chain lc e ls \<and> carries lc l (if ls = [] then e else last_hash lc ls)"
  by (induction ls arbitrary: e) (auto simp: last_hash_def)

lemma chain_mid: "chain lc e (xs @ y # ys) \<Longrightarrow> \<exists>e'. carries lc y e'"
  by (induction xs arbitrary: e) auto

lemma utf8_valid_Nil [simp]: "utf8_valid []"
  by (simp add: utf8_valid.simps)

lemma utf8_first_append: "utf8_first a = Some n \<Longrightarrow> utf8_first (a @ b) = Some n"
proof -
  assume a: "utf8_first a = Some n"
  have i: "(a @ b) ! i = a ! i" if "i < length a" for i
    using that by (simp add: nth_append)
  from a have "a \<noteq> []"
    by (auto simp: utf8_first_def)
  then consider "length a = 1" | "length a = 2" | "length a = 3" | "4 \<le> length a"
    unfolding length_0_conv[symmetric] by linarith
  then show ?thesis
  proof cases
    case 1
    with a \<open>a \<noteq> []\<close> show ?thesis
      by (simp add: utf8_first_def i split: if_splits)
  next
    case 2
    with a \<open>a \<noteq> []\<close> show ?thesis
      by (simp add: utf8_first_def i split: if_splits)
  next
    case 3
    with a \<open>a \<noteq> []\<close> show ?thesis
      by (simp add: utf8_first_def i split: if_splits)
  next
    case 4
    with \<open>a \<noteq> []\<close> have "utf8_first (a @ b) = utf8_first a"
      by (simp add: utf8_first_def i)
    with a show ?thesis
      by simp
  qed
qed

lemma utf8_valid_append: "utf8_valid a \<Longrightarrow> utf8_valid (a @ b) = utf8_valid b"
proof (induction a rule: utf8_valid.induct)
  case (1 s)
  show ?case
  proof (cases "s = []")
    case False
    with 1(2) obtain n where n: "utf8_first s = Some n" "utf8_valid (drop n s)"
      by (auto simp: utf8_valid.simps[of s] split: option.splits)
    with 1(1)[OF n] show ?thesis
      using utf8_first_bounds[OF n(1)] False
      by (simp add: utf8_valid.simps[of "s @ b"] utf8_first_append)
  qed simp
qed

lemma utf8_valid_ascii [simp]: "code c < 128 \<Longrightarrow> utf8_valid (c # s) = utf8_valid s"
  by (simp add: utf8_valid.simps[of "c # s"] utf8_first_def)

definition log_text :: "string list \<Rightarrow> string" where
  "log_text ls = concat (map (\<lambda>l. l @ [CHR 0x0A]) ls)"

definition clean_line :: "string \<Rightarrow> bool" where
  "clean_line l \<longleftrightarrow> CHR 0x0A \<notin> set l \<and> last l \<noteq> CHR 0x0D \<and> trim l \<noteq> [] \<and> utf8_valid l"

lemma rust_lines_line:
  "CHR 0x0A \<notin> set l \<Longrightarrow> rust_lines (l @ CHR 0x0A # s) = strip_cr l # rust_lines s"
  by (rule rust_lines_cons)

lemma rust_lines_log:
  "list_all clean_line ls \<Longrightarrow> rust_lines (log_text ls @ rest) = ls @ rust_lines rest"
  by (induction ls) (auto simp: log_text_def clean_line_def rust_lines_line strip_cr_def)

lemma utf8_valid_log:
  "list_all clean_line ls \<Longrightarrow> utf8_valid (log_text ls @ rest) = utf8_valid rest"
proof (induction ls)
  case (Cons l ls)
  then show ?case
    by (simp add: log_text_def clean_line_def utf8_valid_append code_def)
qed (simp add: log_text_def)

lemma records_of_log: "list_all clean_line ls \<Longrightarrow> records_of (log_text ls) = ls"
  using rust_lines_log[of ls "[]"]
  by (simp add: records_of_def) (auto simp: list_all_iff clean_line_def filter_id_conv)

lemma log_text_append: "log_text (ls @ [l]) = log_text ls @ l @ [CHR 0x0A]"
  by (simp add: log_text_def)

subsection \<open>The chain over writes and restarts\<close>

text \<open>What the writer relies on of JSON: a record is written on one line of text that is not
  blank, and reading it back finds the link it carries.\<close>

definition codec_ok :: "log_codec \<Rightarrow> bool" where
  "codec_ok lc \<longleftrightarrow> (\<forall>r l. lc_to_json lc r = Some l \<longrightarrow> clean_line l \<and> carries lc l (ar_prev r))"

text \<open>The states of the log, with the number of records written; \<open>whole\<close> says that a write reached
  the file entirely.\<close>

definition whole :: "log_codec \<Rightarrow> nat \<Rightarrow> audit_record \<Rightarrow> audit \<Rightarrow> bool" where
  "whole lc reached r a \<longleftrightarrow>
     (case lc_to_json lc (r\<lparr> ar_prev := au_head a \<rparr>) of None \<Rightarrow> True | Some l \<Rightarrow> length l < reached)"

definition adds :: "log_codec \<Rightarrow> audit_record \<Rightarrow> audit \<Rightarrow> nat" where
  "adds lc r a = (if au_open a \<and> lc_to_json lc (r\<lparr> ar_prev := au_head a \<rparr>) \<noteq> None then 1 else 0)"

definition log_start :: "log_codec \<Rightarrow> string \<Rightarrow> nat \<times> audit \<times> fs \<Rightarrow> bool" where
  "log_start lc dir s \<longleftrightarrow>
     (\<exists>f opens journal. map_of f (audit_path dir) = None \<and> s = (0, audit_new lc opens journal dir f))"

inductive log_step :: "log_codec \<Rightarrow> string \<Rightarrow> nat \<times> audit \<times> fs \<Rightarrow> nat \<times> audit \<times> fs \<Rightarrow> bool"
  for lc dir where
  wrote: "whole lc reached r a \<Longrightarrow> log_step lc dir (n, a, f) (n + adds lc r a, audit_write lc send_ok reached r (a, f))"
| restarted: "log_step lc dir (n, a, f) (n, audit_new lc opens journal dir f)"

inductive_cases log_stepE: "log_step lc dir s t"

definition log_of :: "log_codec \<Rightarrow> string \<Rightarrow> fs \<Rightarrow> string list \<Rightarrow> bool" where
  "log_of lc dir f ls \<longleftrightarrow>
     (case map_of f (audit_path dir) of None \<Rightarrow> ls = [] | Some t \<Rightarrow> t = log_text ls)
     \<and> list_all clean_line ls \<and> chain lc None ls"

definition log_inv :: "log_codec \<Rightarrow> string \<Rightarrow> nat \<times> audit \<times> fs \<Rightarrow> bool" where
  "log_inv lc dir = (\<lambda>(n, a, f). \<exists>ls. log_of lc dir f ls \<and> n = length ls
     \<and> (au_open a \<longrightarrow> map_of f (audit_path dir) \<noteq> None \<and> au_path a = Some (audit_path dir)
          \<and> au_head a = last_hash lc ls))"

lemma read_log:
  assumes "map_of f path = Some (log_text ls)" "list_all clean_line ls"
  shows "read_to_string f path = Some (log_text ls)"
  using assms utf8_valid_log[of ls "[]"] by (simp add: read_to_string_def)

lemma head_of_log:
  assumes "log_of lc dir f ls"
  shows "head_of lc f (audit_path dir) = last_hash lc ls"
proof (cases "map_of f (audit_path dir)")
  case None
  with assms show ?thesis
    by (simp add: head_of_def read_to_string_def log_of_def last_hash_def)
next
  case (Some t)
  with assms have t: "map_of f (audit_path dir) = Some (log_text ls)" and clean: "list_all clean_line ls"
    and ch: "chain lc None ls"
    by (auto simp: log_of_def)
  have lines: "rust_lines (log_text ls) = ls"
    using rust_lines_log[OF clean, of "[]"] by simp
  show ?thesis
  proof (cases ls rule: rev_cases)
    case Nil
    then show ?thesis
      by (simp add: head_of_def read_log[OF t clean] lines[unfolded Nil] Nil last_hash_def)
  next
    case (snoc ks l)
    then have "carries lc l (if ks = [] then None else last_hash lc ks)" "trim l \<noteq> []"
      using ch clean by (simp_all add: chain_append clean_line_def)
    then show ?thesis
      by (auto simp: head_of_def read_log[OF t clean] lines snoc[symmetric])
        (auto simp: snoc last_hash_def carries_def)
  qed
qed

lemma log_inv_new:
  assumes "log_of lc dir f ls"
  shows "log_inv lc dir (length ls, audit_new lc opens journal dir f)"
proof -
  have "log_of lc dir (AList.update (audit_path dir) [] f) ls" if none: "map_of f (audit_path dir) = None"
    using assms none by (simp add: log_of_def update_conv' log_text_def)
  then show ?thesis
    using assms head_of_log[OF assms]
    by (auto simp: log_inv_def audit_new_def Let_def update_conv' intro: exI[of _ ls])
qed

lemma log_of_append:
  assumes ok: "codec_ok lc" and log: "log_of lc dir f ls" and there: "map_of f (audit_path dir) \<noteq> None"
    and l: "lc_to_json lc (r\<lparr> ar_prev := last_hash lc ls \<rparr>) = Some l"
  shows "log_of lc dir (append_file f (audit_path dir) (l @ [CHR 0x0A])) (ls @ [l])"
proof -
  have "clean_line l" "carries lc l (last_hash lc ls)"
    using ok l unfolding codec_ok_def by fastforce+
  moreover have "last_hash lc [] = None"
    by (simp add: last_hash_def)
  ultimately show ?thesis
    using log there by (auto simp: log_of_def append_file_def update_conv' log_text_append chain_append)
qed

lemma log_inv_append:
  assumes ok: "codec_ok lc" and inv: "log_inv lc dir (n, a, f)" and w: "whole lc reached r a"
  shows "log_inv lc dir (n + adds lc r a, audit_append lc reached r (a, f))"
proof (cases "au_open a \<and> lc_to_json lc (r\<lparr> ar_prev := au_head a \<rparr>) \<noteq> None")
  case False
  then have "audit_append lc reached r (a, f) = (a, f)" "adds lc r a = 0"
    by (auto simp: audit_append_def adds_def split: option.splits bool.splits)
  with inv show ?thesis
    by simp
next
  case True
  then obtain l where l: "lc_to_json lc (r\<lparr> ar_prev := au_head a \<rparr>) = Some l"
    by auto
  from inv True obtain ls where ls: "log_of lc dir f ls" "n = length ls" "au_path a = Some (audit_path dir)"
    "au_head a = last_hash lc ls" "map_of f (audit_path dir) \<noteq> None"
    by (auto simp: log_inv_def)
  have "take reached (l @ [CHR 0x0A]) = l @ [CHR 0x0A]"
    using w by (simp add: whole_def l)
  then have "audit_append lc reached r (a, f)
      = (a\<lparr> au_head := Some (hash_line lc l) \<rparr>, append_file f (audit_path dir) (l @ [CHR 0x0A]))"
    using True l ls(3) by (simp add: audit_append_def)
  moreover have "log_of lc dir (append_file f (audit_path dir) (l @ [CHR 0x0A])) (ls @ [l])"
    using log_of_append[OF ok ls(1,5)] l ls(4) by simp
  ultimately show ?thesis
    using True ls by (auto simp: log_inv_def adds_def last_hash_def append_file_def update_conv'
        intro!: exI[of _ "ls @ [l]"])
qed

lemma log_inv_ignores [simp]:
  "log_inv lc dir (n, a\<lparr> au_sent := x \<rparr>, f) = log_inv lc dir (n, a, f)"
  "log_inv lc dir (n, a\<lparr> au_stderr := y \<rparr>, f) = log_inv lc dir (n, a, f)"
  by (simp_all add: log_inv_def)

lemma log_inv_write:
  assumes "codec_ok lc" "log_inv lc dir (n, a, f)" "whole lc reached r a"
  shows "log_inv lc dir (n + adds lc r a, audit_write lc send_ok reached r (a, f))"
proof -
  have "log_inv lc dir (n + adds lc r (a\<lparr> au_sent := x \<rparr>), audit_append lc reached r (a\<lparr> au_sent := x \<rparr>, f))"
    "log_inv lc dir (n + adds lc r (a\<lparr> au_stderr := y \<rparr>), audit_append lc reached r (a\<lparr> au_stderr := y \<rparr>, f))" for x y
    using assms by (auto intro!: log_inv_append simp: whole_def)
  then show ?thesis
    by (simp add: audit_write_def adds_def)
qed

interpretation logging: invariant_system "log_start lc dir" "log_step lc dir"
  "\<lambda>s. codec_ok lc \<longrightarrow> log_inv lc dir s" for lc dir
proof
  fix s
  assume "log_start lc dir s"
  then obtain f opens journal where "map_of f (audit_path dir) = None"
    and s: "s = (length ([] :: string list), audit_new lc opens journal dir f)"
    by (auto simp: log_start_def)
  then have "log_of lc dir f []"
    by (simp add: log_of_def)
  then show "codec_ok lc \<longrightarrow> log_inv lc dir s"
    unfolding s by (blast intro: log_inv_new)
next
  fix s t
  assume inv: "codec_ok lc \<longrightarrow> log_inv lc dir s" and "log_step lc dir s t"
  from this(2) show "codec_ok lc \<longrightarrow> log_inv lc dir t"
  proof cases
    case wrote
    with inv show ?thesis
      using log_inv_write by blast
  next
    case restarted
    with inv show ?thesis
      using log_inv_new[of lc dir] unfolding log_inv_def[of lc dir, THEN fun_cong, of s] by auto
  qed
qed

lemma log_of_verifies:
  assumes "log_of lc dir f ls" "map_of f (audit_path dir) \<noteq> None"
  shows "verify lc f (audit_path dir) = Inr (length ls)"
proof -
  have t: "map_of f (audit_path dir) = Some (log_text ls)" "list_all clean_line ls" "chain lc None ls"
    using assms by (auto simp: log_of_def)
  then show ?thesis
    by (simp add: verify_ok read_log records_of_log)
qed

text \<open>
  C20. Over any sequence of records, restarts and restarts that could not open the file, as long as
  each write reaches the file whole, the log verifies, with exactly the number of records written:
  a restart is not a break in the chain.
\<close>

theorem log_verifies:
  assumes "codec_ok lc" "log_start lc dir s" "(log_step lc dir)\<^sup>*\<^sup>* s (n, a, f)"
  shows "verify lc f (audit_path dir) = (if map_of f (audit_path dir) = None then Inl Unreadable_log else Inr n)
    \<and> (au_open a \<longrightarrow> map_of f (audit_path dir) \<noteq> None)"
proof -
  have "log_inv lc dir (n, a, f)"
    using logging.reachable_inv[OF assms(2,3)] assms(1) by blast
  moreover have "verify lc f (audit_path dir) = Inl Unreadable_log" if "map_of f (audit_path dir) = None"
    using that by (simp add: verify_def read_to_string_def)
  ultimately show ?thesis
    using log_of_verifies[of lc dir f] by (auto simp: log_inv_def)
qed

text \<open>A small instance of the format for concrete logs: the event, a colon and the link.\<close>

definition plain_word :: "string \<Rightarrow> bool" where
  "plain_word w \<longleftrightarrow> list_all is_ascii_lower w"

definition small_codec :: log_codec where
  "small_codec =
     \<lparr> lc_to_json = (\<lambda>r. if plain_word (ar_event r) \<and> plain_word (unwrap_or (ar_prev r) [])
          then Some (''{'' @ ar_event r @ '':'' @ (case ar_prev r of None \<Rightarrow> [] | Some p \<Rightarrow> ''+'' @ p) @ ''}'')
          else None),
       lc_of_json = (\<lambda>l. if starts_with ''{'' l \<and> ends_with ''}'' l \<and> length (filter (\<lambda>c. c = CHR ''{'') l) = 1
          then Some (JObj (case dropWhile (\<lambda>c. c \<noteq> CHR ''+'') l of
                             [] \<Rightarrow> [] | _ # p \<Rightarrow> [(''prev'', JStr (butlast p))]))
          else None),
       lc_sha256 = filter is_ascii_lower \<rparr>"

lemma lower_ascii: "is_ascii_lower c \<Longrightarrow> 97 \<le> code c \<and> code c \<le> 122"
  by (simp add: is_ascii_lower_def)

lemma word_not_in: "plain_word w \<Longrightarrow> code c < 97 \<or> 122 < code c \<Longrightarrow> c \<notin> set w"
  by (fastforce simp: plain_word_def list_all_iff dest: lower_ascii)

lemma word_utf8: "plain_word w \<Longrightarrow> utf8_valid (w @ s) = utf8_valid s"
  by (induction w) (auto simp: plain_word_def dest: lower_ascii)

lemma small_codec_ok: "codec_ok small_codec"
proof -
  have "clean_line l \<and> carries small_codec l (ar_prev r)" if l: "lc_to_json small_codec r = Some l" for r l
  proof -
    from l have w: "plain_word (ar_event r)" "plain_word (unwrap_or (ar_prev r) [])"
      and l: "l = ''{'' @ ar_event r @ '':'' @ (case ar_prev r of None \<Rightarrow> [] | Some p \<Rightarrow> ''+'' @ p) @ ''}''"
      by (auto simp: small_codec_def split: if_splits)
    define q where "q = (case ar_prev r of None \<Rightarrow> [] | Some p \<Rightarrow> ''+'' @ p)"
    have outside: "CHR 0x0A \<notin> set (ar_event r)" "CHR ''{'' \<notin> set (ar_event r)" "CHR ''+'' \<notin> set (ar_event r)"
      by (rule word_not_in[OF w(1)], simp add: code_def)+
    have inside: "CHR 0x0A \<notin> set q" "CHR ''{'' \<notin> set q" "utf8_valid (q @ ''}'')"
      using w(2) word_not_in[OF w(2), of "CHR 0x0A"] word_not_in[OF w(2), of "CHR ''{''"]
        word_utf8[OF w(2), of "''}''"]
      by (auto simp: q_def unwrap_or_def code_def split: option.splits)
    have nolink: "filter (\<lambda>c. c = CHR ''{'') (ar_event r) = []" "filter (\<lambda>c. c = CHR ''{'') q = []"
      using outside inside by (auto simp: filter_empty_conv)
    have "clean_line l"
      using outside inside w(1) unfolding l q_def[symmetric]
      by (simp add: clean_line_def trim_def trim_start_def trim_end_def is_space_def word_utf8 code_def)
    moreover have "carries small_codec l (ar_prev r)"
    proof -
      have "dropWhile (\<lambda>c. c \<noteq> CHR ''+'') l = dropWhile (\<lambda>c. c \<noteq> CHR ''+'') (q @ ''}'')"
        using outside(3) unfolding l q_def[symmetric]
        by (simp add: dropWhile_append) (metis (mono_tags, lifting))
      moreover have "lc_of_json small_codec l
          = Some (JObj (case dropWhile (\<lambda>c. c \<noteq> CHR ''+'') l of [] \<Rightarrow> [] | _ # p \<Rightarrow> [(''prev'', JStr (butlast p))]))"
        using nolink unfolding l q_def[symmetric]
        by (simp add: small_codec_def starts_with_def ends_with_iff)
      ultimately show ?thesis
        by (auto simp: carries_def carried_def q_def split: option.splits)
    qed
    ultimately show ?thesis ..
  qed
  then show ?thesis
    by (simp add: codec_ok_def)
qed

definition sample_record :: "string \<Rightarrow> audit_record" where
  "sample_record event =
     \<lparr> ar_at = 0, ar_event = event, ar_identity = ''uid:1'', ar_class = ''native'', ar_uid = 1, ar_pid = 2,
       ar_session = None, ar_model = None, ar_digest = None, ar_local = None, ar_prompt_tokens = None,
       ar_completion_tokens = None, ar_attachment_bytes = None, ar_detail = None, ar_prev = None \<rparr>"

definition sample_first :: "audit \<times> fs" where
  "sample_first = audit_write small_codec True 99 (sample_record ''one'') (audit_new small_codec True False ''/v'' [])"

definition sample_again :: "audit \<times> fs" where
  "sample_again = audit_new small_codec True False ''/v'' (snd sample_first)"

definition sample_log :: "audit \<times> fs" where
  "sample_log = audit_write small_codec True 99 (sample_record ''two'') sample_again"

theorem log_verifies_witness: "verify small_codec (snd sample_log) (audit_path ''/v'') = Inr 2"
proof -
  have start: "log_start small_codec ''/v'' (0, audit_new small_codec True False ''/v'' [])"
    unfolding log_start_def by (rule exI[of _ "[]"], rule exI[of _ True], rule exI[of _ False]) simp
  have step: "log_step small_codec ''/v'' (n, s) (n + adds small_codec r (fst s), audit_write small_codec b k r s)"
    if "whole small_codec k r (fst s)" for n s b k r
    using wrote[of small_codec k r "fst s" "''/v''" n "snd s" b] that by simp
  have first: "whole small_codec 99 (sample_record ''one'') (fst (audit_new small_codec True False ''/v'' []))"
    "adds small_codec (sample_record ''one'') (fst (audit_new small_codec True False ''/v'' [])) = 1"
    by code_simp+
  have second: "whole small_codec 99 (sample_record ''two'') (fst sample_again)"
    "adds small_codec (sample_record ''two'') (fst sample_again) = 1"
    by code_simp+
  have "log_step small_codec ''/v'' (0, audit_new small_codec True False ''/v'' []) (0 + 1, sample_first)"
    using step[OF first(1), of 0 True] unfolding sample_first_def first(2) .
  moreover have "log_step small_codec ''/v'' (0 + 1, sample_first) (0 + 1, sample_again)"
    using restarted[of small_codec "''/v''" "0 + 1" "fst sample_first" "snd sample_first" True False]
    unfolding sample_again_def by simp
  moreover have "log_step small_codec ''/v'' (0 + 1, sample_again) (2, sample_log)"
    using step[OF second(1), of "0 + 1" True] unfolding sample_log_def second(2) by (simp add: numeral_2_eq_2)
  ultimately have "(log_step small_codec ''/v'')\<^sup>*\<^sup>* (0, audit_new small_codec True False ''/v'' [])
      (2, fst sample_log, snd sample_log)"
    by (simp add: converse_rtranclp_into_rtranclp)
  moreover have "au_open (fst sample_log)"
    by code_simp
  ultimately show ?thesis
    using log_verifies[OF small_codec_ok start, of 2 "fst sample_log" "snd sample_log"] by simp
qed

subsection \<open>What the verifier sees\<close>

lemma carries_unique: "carries lc l e \<Longrightarrow> carries lc l e' \<Longrightarrow> e = e'"
  by (auto simp: carries_def)

lemma chain_snoc: "chain lc None (ls @ [l]) \<longleftrightarrow> chain lc None ls \<and> carries lc l (last_hash lc ls)"
  by (simp add: chain_append last_hash_def)

lemma chain_determined:
  "chain lc None xs \<Longrightarrow> chain lc None ys \<Longrightarrow> xs \<noteq> [] \<Longrightarrow> ys \<noteq> [] \<Longrightarrow> last xs = last ys
    \<Longrightarrow> xs = ys \<or> (\<exists>x\<in>set xs. \<exists>y\<in>set ys. x \<noteq> y \<and> hash_line lc x = hash_line lc y)"
proof (induction xs arbitrary: ys rule: rev_induct)
  case (snoc l xs)
  then obtain zs where ys: "ys = zs @ [l]"
    by (cases ys rule: rev_cases) auto
  then have ch: "chain lc None xs" "chain lc None zs" "last_hash lc xs = last_hash lc zs"
    using snoc.prems by (auto simp: chain_snoc intro: carries_unique)
  show ?case
  proof (cases "xs = []")
    case True
    with ch(3) ys show ?thesis
      by (auto simp: last_hash_def split: if_splits)
  next
    case False
    with ch(3) have zs: "zs \<noteq> []" "hash_line lc (last xs) = hash_line lc (last zs)"
      by (auto simp: last_hash_def split: if_splits)
    show ?thesis
    proof (cases "last xs = last zs")
      case True
      from snoc.IH[OF ch(1,2) False zs(1) True] show ?thesis
        unfolding ys by auto
    next
      case diff: False
      have "last xs \<in> set (xs @ [l])" "last zs \<in> set (zs @ [l])"
        using False zs by auto
      with diff zs show ?thesis
        unfolding ys by blast
    qed
  qed
qed simp

lemma chain_nth:
  "chain lc e ls \<Longrightarrow> i < length ls \<Longrightarrow> carries lc (ls ! i) (if i = 0 then e else Some (hash_line lc (ls ! (i - 1))))"
proof (induction ls arbitrary: e i)
  case (Cons l ls)
  show ?case
  proof (cases i)
    case (Suc j)
    with Cons.IH[of "Some (hash_line lc l)" j] Cons.prems show ?thesis
      by (cases j) auto
  qed (use Cons.prems in simp)
qed simp

lemma chain_take: "chain lc e ls \<Longrightarrow> chain lc e (take k ls)"
  by (induction ls arbitrary: e k) (auto simp: take_Cons split: nat.splits)

lemma chain_agrees_up_to:
  assumes "chain lc None xs" "chain lc None ys" "i < length xs" "k < length ys" "xs ! i = ys ! k"
  shows "take (Suc i) xs = take (Suc k) ys \<or> (\<exists>x\<in>set xs. \<exists>y\<in>set ys. x \<noteq> y \<and> hash_line lc x = hash_line lc y)"
proof -
  have "last (take (Suc i) xs) = last (take (Suc k) ys)"
    using assms(3-5) by (simp add: take_Suc_conv_app_nth)
  moreover have "take (Suc i) xs \<noteq> []" "take (Suc k) ys \<noteq> []"
    using assms(3,4) by auto
  ultimately show ?thesis
    using chain_determined[OF chain_take[OF assms(1)] chain_take[OF assms(2)]] by (meson in_set_takeD)
qed

text \<open>
  C7. What the verifier can tell. Take any two files it accepts, say the log as it was and the log
  as somebody left it. Wherever they have a record in common, in whatever places, they have the
  same records up to there, and so the same number of them, unless two of their lines collide
  under the hash. So whoever edits, deletes, inserts or exchanges records and leaves a file that
  is accepted has replaced every record after the first change. A record that follows another is
  accepted only if it carries the hash of that line, and the first only if it carries none.
\<close>

theorem verifier_sees:
  assumes "verify lc f p = Inr n" "verify lc g q = Inr m"
    and "read_to_string f p = Some a" "read_to_string g q = Some b"
    and "i < length (records_of a)" "k < length (records_of b)" "records_of a ! i = records_of b ! k"
  shows "(i = k \<and> take (Suc i) (records_of a) = take (Suc k) (records_of b)
      \<or> (\<exists>x\<in>set (records_of a). \<exists>y\<in>set (records_of b). x \<noteq> y \<and> lc_sha256 lc x = lc_sha256 lc y))
    \<and> (\<exists>v. lc_of_json lc (records_of a ! i) = Some v
        \<and> carried v = (if i = 0 then None else Some (lc_sha256 lc (records_of a ! (i - 1)))))"
proof
  have chains: "chain lc None (records_of a)" "chain lc None (records_of b)"
    using assms by (auto simp: verify_ok)
  have "i = k" if "take (Suc i) (records_of a) = take (Suc k) (records_of b)"
    using arg_cong[OF that, of length] assms(5,6) by simp
  then show "i = k \<and> take (Suc i) (records_of a) = take (Suc k) (records_of b)
      \<or> (\<exists>x\<in>set (records_of a). \<exists>y\<in>set (records_of b). x \<noteq> y \<and> lc_sha256 lc x = lc_sha256 lc y)"
    using chain_agrees_up_to[OF chains assms(5-7)] by (auto simp: hash_line_def)
  show "\<exists>v. lc_of_json lc (records_of a ! i) = Some v
      \<and> carried v = (if i = 0 then None else Some (lc_sha256 lc (records_of a ! (i - 1))))"
    using chain_nth[OF chains(1) assms(5)] by (auto simp: carries_def hash_line_def)
qed

definition two_lines :: "string list" where
  "two_lines = [''{one:}'', ''{two:+one}'']"

theorem verifier_sees_witness:
  "\<exists>v. lc_of_json small_codec ''{two:+one}'' = Some v \<and> carried v = Some (lc_sha256 small_codec ''{one:}'')"
proof -
  have ok: "verify small_codec [(''log'', log_text two_lines)] ''log'' = Inr 2"
    "read_to_string [(''log'', log_text two_lines)] ''log'' = Some (log_text two_lines)"
    "records_of (log_text two_lines) = two_lines"
    by code_simp+
  have "1 < length (records_of (log_text two_lines))"
    unfolding ok(3) by (simp add: two_lines_def)
  from verifier_sees[OF ok(1,1,2,2) this this refl] show ?thesis
    unfolding ok(3) by (simp add: two_lines_def)
qed

text \<open>
  What it cannot tell: a log cut back to any number of its records is accepted with that number;
  nothing shows that its tail is missing.
\<close>

lemma truncated_log_is_accepted:
  assumes "verify lc f p = Inr n" "read_to_string f p = Some a" "list_all clean_line (records_of a)"
    and "map_of h r = Some (log_text (take k (records_of a)))"
  shows "verify lc h r = Inr (min k n)"
proof -
  have chain: "chain lc None (records_of a)" "n = length (records_of a)"
    using assms by (auto simp: verify_ok)
  have clean: "list_all clean_line (take k (records_of a))"
    using assms(3) by (auto simp: list_all_iff dest: in_set_takeD)
  show ?thesis
    using chain_take[OF chain(1), of k] chain(2)
    by (simp add: verify_ok read_log[OF assms(4) clean] records_of_log[OF clean] min.commute)
qed

subsection \<open>A record cut short\<close>

lemma rust_lines_open: "CHR 0x0A \<notin> set s \<Longrightarrow> s \<noteq> [] \<Longrightarrow> rust_lines s = [s]"
  by (simp add: rust_lines_def split_on_none)

lemma read_to_string_cases:
  "map_of f path = Some t \<Longrightarrow> read_to_string f path = (if utf8_valid t then Some t else None)"
  by (simp add: read_to_string_def)

lemma torn_head:
  assumes "list_all clean_line ls" "map_of f path = Some (log_text ls @ part)"
    and "CHR 0x0A \<notin> set part" "trim part \<noteq> []" "lc_of_json lc part = None"
  shows "head_of lc f path = None"
proof -
  have "part \<noteq> []"
    using assms(4) by (auto simp: trim_def trim_start_def trim_end_def)
  then show ?thesis
    using assms rust_lines_log[OF assms(1), of part] rust_lines_open[OF assms(3)]
    by (simp add: head_of_def read_to_string_cases[OF assms(2)])
qed

lemma verify_stops:
  assumes "list_all clean_line ls" "map_of f path = Some (log_text ls @ bad @ CHR 0x0A # later)"
    and "CHR 0x0A \<notin> set bad" "trim (strip_cr bad) \<noteq> []" "lc_of_json lc (strip_cr bad) = None"
  shows "verify lc f path \<noteq> Inr m"
proof
  assume "verify lc f path = Inr m"
  then have ch: "chain lc None (records_of (log_text ls @ bad @ CHR 0x0A # later))"
    by (auto simp: verify_ok read_to_string_cases[OF assms(2)] split: if_splits)
  have "records_of (log_text ls @ bad @ CHR 0x0A # later)
      = records_of (log_text ls) @ strip_cr bad # filter (\<lambda>l. trim l \<noteq> []) (rust_lines later)"
    using assms(4) rust_lines_log[OF assms(1), of "[]"] rust_lines_log[OF assms(1), of "bad @ CHR 0x0A # later"]
      rust_lines_cons[OF assms(3), of later]
    by (simp add: records_of_def)
  with ch have "\<exists>e. carries lc (strip_cr bad) e"
    by (metis chain_mid)
  with assms(5) show False
    by (simp add: carries_def)
qed

lemma trim_Nil_iff: "trim s = [] \<longleftrightarrow> list_all is_space s"
proof -
  have "trim s = [] \<longleftrightarrow> dropWhile is_space (rev (dropWhile is_space s)) = []"
    by (simp add: trim_def trim_end_def trim_start_def)
  also have "\<dots> \<longleftrightarrow> (\<forall>c\<in>set (dropWhile is_space s). is_space c)"
    by (simp add: dropWhile_eq_Nil_conv)
  also have "\<dots> \<longleftrightarrow> list_all is_space s"
    by (induction s) (auto simp: list_all_iff)
  finally show ?thesis .
qed

text \<open>
  A record that reached the file only in part, when the daemon was killed or the disk was
  full, breaks the chain for good. The next start finds no head, although whole records come
  before the cut; the next record is written onto the same line, and whatever is logged after it
  the file never verifies again.
\<close>

theorem torn_write_breaks_chain:
  assumes ok: "codec_ok lc" and inv: "log_inv lc dir (n, a, f)" and opened: "au_open a"
    and l1: "lc_to_json lc (r\<lparr> ar_prev := au_head a \<rparr>) = Some l1"
    and cut: "reached \<le> length l1" "trim (take reached l1) \<noteq> []" "lc_of_json lc (take reached l1) = None"
    and restart: "(a2, f2) = audit_new lc True journal dir (snd (audit_append lc reached r (a, f)))"
    and l2: "lc_to_json lc (r2\<lparr> ar_prev := None \<rparr>) = Some l2" "lc_of_json lc (take reached l1 @ l2) = None"
    and whole2: "length l2 < reached2"
  shows "au_head a2 = None
    \<and> (\<forall>g later m. map_of g (audit_path dir)
          = Some (the (map_of (snd (audit_append lc reached2 r2 (a2, f2))) (audit_path dir)) @ later)
        \<longrightarrow> verify lc g (audit_path dir) \<noteq> Inr m)"
proof -
  define p where "p = audit_path dir"
  from inv opened obtain ls where ls: "log_of lc dir f ls" "au_path a = Some p" "map_of f p \<noteq> None"
    by (auto simp: log_inv_def p_def)
  then have clean: "list_all clean_line ls" and f: "map_of f p = Some (log_text ls)"
    by (auto simp: log_of_def p_def)
  have c1: "clean_line l1" and c2: "clean_line l2"
    using ok l1 l2 by (auto simp: codec_ok_def)
  define torn where "torn = take reached l1"
  have torn: "CHR 0x0A \<notin> set torn" "trim torn \<noteq> []" "lc_of_json lc torn = None"
    using c1 cut by (auto simp: torn_def clean_line_def dest: in_set_takeD)
  define f1 where "f1 = snd (audit_append lc reached r (a, f))"
  have f1: "map_of f1 p = Some (log_text ls @ torn)"
    using opened ls(2) l1 f cut(1) by (simp add: f1_def audit_append_def append_file_def update_conv' torn_def)
  have head: "head_of lc f1 p = None"
    by (rule torn_head[OF clean f1 torn])
  have a2: "au_open a2" "au_path a2 = Some p" "au_head a2 = None" "f2 = f1"
    using restart f1 head by (simp_all add: audit_new_def Let_def p_def f1_def[symmetric])
  define bad where "bad = torn @ l2"
  have "l2 \<noteq> []"
    using c2 by (auto simp: clean_line_def trim_Nil_iff)
  then have bad: "CHR 0x0A \<notin> set bad" "strip_cr bad = bad" "trim bad \<noteq> []" "lc_of_json lc bad = None"
    using torn c2 l2(2) by (auto simp: bad_def strip_cr_def clean_line_def torn_def trim_Nil_iff)
  have "map_of (snd (audit_append lc reached2 r2 (a2, f2))) p = Some (log_text ls @ bad @ [CHR 0x0A])"
    using a2 l2(1) whole2 f1 by (simp add: audit_append_def append_file_def update_conv' bad_def)
  then have "verify lc g p \<noteq> Inr m"
    if "map_of g p = Some (the (map_of (snd (audit_append lc reached2 r2 (a2, f2))) p) @ later)" for g later m
    using verify_stops[OF clean, of g p bad later] that bad by simp
  with a2(3) show ?thesis
    by (auto simp: p_def)
qed

definition torn_restart :: "audit \<times> fs" where
  "torn_restart = audit_new small_codec True False ''/v''
     (snd (audit_append small_codec 4 (sample_record ''two'') (fst sample_first, snd sample_first)))"

lemma sample_first_inv: "log_inv small_codec ''/v'' (1, fst sample_first, snd sample_first)"
proof -
  have "log_of small_codec ''/v'' [] []"
    by (simp add: log_of_def)
  then have "log_inv small_codec ''/v'' (0, audit_new small_codec True False ''/v'' [])"
    using log_inv_new[of small_codec "''/v''" "[]" "[]" True False] by simp
  moreover have "whole small_codec 99 (sample_record ''one'') (fst (audit_new small_codec True False ''/v'' []))"
    "adds small_codec (sample_record ''one'') (fst (audit_new small_codec True False ''/v'' [])) = 1"
    by code_simp+
  ultimately show ?thesis
    using log_inv_write[OF small_codec_ok, of "''/v''" 0 "fst (audit_new small_codec True False ''/v'' [])"
        "snd (audit_new small_codec True False ''/v'' [])" 99 "sample_record ''one''" True]
    by (simp add: sample_first_def)
qed

theorem torn_write_breaks_chain_witness:
  "au_head (fst torn_restart) = None
   \<and> verify small_codec (snd (audit_append small_codec 99 (sample_record ''three'') torn_restart)) (audit_path ''/v'') \<noteq> Inr 2"
proof -
  have "(fst torn_restart, snd torn_restart) = audit_new small_codec True False ''/v''
      (snd (audit_append small_codec 4 (sample_record ''two'') (fst sample_first, snd sample_first)))"
    by (simp add: torn_restart_def)
  moreover have "au_open (fst sample_first)"
    "lc_to_json small_codec (sample_record ''two''\<lparr> ar_prev := au_head (fst sample_first) \<rparr>) = Some ''{two:+one}''"
    "lc_to_json small_codec (sample_record ''three''\<lparr> ar_prev := None \<rparr>) = Some ''{three:}''"
    "trim (take 4 ''{two:+one}'') \<noteq> []" "lc_of_json small_codec (take 4 ''{two:+one}'') = None"
    "lc_of_json small_codec (take 4 ''{two:+one}'' @ ''{three:}'') = None"
    by code_simp+
  moreover have "map_of (snd (audit_append small_codec 99 (sample_record ''three'') torn_restart)) (audit_path ''/v'') \<noteq> None"
    by code_simp
  moreover have "(4 :: nat) \<le> length ''{two:+one}''" "length ''{three:}'' < 99"
    by simp_all
  ultimately show ?thesis
    using torn_write_breaks_chain[OF small_codec_ok sample_first_inv, of "sample_record ''two''" "''{two:+one}''" 4
        "fst torn_restart" "snd torn_restart" False "sample_record ''three''" "''{three:}''" 99]
    by (auto dest!: spec[of _ "snd (audit_append small_codec 99 (sample_record ''three'') torn_restart)"] spec[of _ "[] :: string"])
qed

subsection \<open>The journal\<close>

text \<open>Reading the journal's native protocol: a name up to a line feed, the length of the value in
  eight bytes, the value and a line feed.\<close>

definition of_le64 :: "string \<Rightarrow> nat" where
  "of_le64 bs = foldr (\<lambda>c n. code c + 256 * n) bs 0"

definition read_field :: "string \<Rightarrow> ((string \<times> string) \<times> string) option" where
  "read_field s =
     (let name = takeWhile (\<lambda>c. c \<noteq> CHR 0x0A) s; s1 = drop (Suc (length name)) s;
          n = of_le64 (take 8 s1); s2 = drop 8 s1
      in if length s1 < 8 \<or> length s2 \<le> n \<or> s2 ! n \<noteq> CHR 0x0A then None
         else Some ((name, take n s2), drop (Suc n) s2))"

fun read_fields :: "nat \<Rightarrow> string \<Rightarrow> (string \<times> string) list option" where
  "read_fields 0 s = (if s = [] then Some [] else None)"
| "read_fields (Suc fuel) s =
     (if s = [] then Some []
      else (case read_field s of
              None \<Rightarrow> None
            | Some (kv, rest) \<Rightarrow> map_option (\<lambda>kvs. kv # kvs) (read_fields fuel rest)))"

lemma of_le64_digits: "of_le64 (map (\<lambda>i. char_of (n div 256 ^ i mod 256)) [k..<k + j]) = n div 256 ^ k mod 256 ^ j"
proof (induction j arbitrary: k)
  case (Suc j)
  have "[k..<k + Suc j] = k # [Suc k..<Suc k + j]"
    by (simp add: upt_rec)
  then have "of_le64 (map (\<lambda>i. char_of (n div 256 ^ i mod 256)) [k..<k + Suc j])
      = n div 256 ^ k mod 256 + 256 * (n div 256 ^ Suc k mod 256 ^ j)"
    using Suc[of "Suc k"] by (simp add: of_le64_def code_def)
  also have "\<dots> = n div 256 ^ k mod 256 ^ Suc j"
    using mod_mult2_eq[of "n div 256 ^ k" 256 "256 ^ j"] div_mult2_eq[of n "256 ^ k" 256]
    by (simp add: mult.commute)
  finally show ?case .
qed (simp add: of_le64_def)

lemma of_le64_le64: "n < U64 \<Longrightarrow> of_le64 (le64 n) = n"
  using of_le64_digits[of n 0 8] by (simp add: le64_def)

lemma le64_length [simp]: "length (le64 n) = 8"
  by (simp add: le64_def)

lemma read_field_journal:
  assumes "CHR 0x0A \<notin> set name" "length v < U64"
  shows "read_field (journal_field name v @ rest) = Some ((name, v), rest)"
proof -
  have "takeWhile (\<lambda>c. c \<noteq> CHR 0x0A) (journal_field name v @ rest) = name"
    using assms(1) by (simp add: journal_field_def takeWhile_append)
  moreover have "drop (Suc (length name)) (journal_field name v @ rest) = le64 (length v) @ v @ CHR 0x0A # rest"
    by (simp add: journal_field_def)
  ultimately show ?thesis
    unfolding read_field_def Let_def by (simp only:) (simp add: of_le64_le64[OF assms(2)])
qed

lemma read_fields_journal:
  "list_all (\<lambda>(name, v). CHR 0x0A \<notin> set name \<and> length v < U64) kvs \<Longrightarrow> length kvs \<le> fuel
    \<Longrightarrow> read_fields fuel (concat (map (\<lambda>(name, v). journal_field name v) kvs)) = Some kvs"
proof (induction kvs arbitrary: fuel)
  case Nil
  then show ?case
    by (cases fuel) auto
next
  case (Cons kv kvs)
  then obtain k where "fuel = Suc k" "length kvs \<le> k"
    by (cases fuel) auto
  moreover have "journal_field (fst kv) (snd kv) \<noteq> []"
    by (simp add: journal_field_def)
  ultimately show ?case
    using Cons by (cases kv) (simp add: read_field_journal)
qed

lemma journal_names: "(name, v) \<in> set (journal_fields r) \<Longrightarrow> CHR 0x0A \<notin> set name"
  by (auto simp: journal_fields_def opt_field_def split: option.splits)

text \<open>Whatever the values hold, line feeds and equals signs included, what is sent to the journal
  reads back as the fields of the record, so no value can forge a field.\<close>

lemma journal_roundtrip:
  assumes "list_all (\<lambda>(name, v). length v < U64) (journal_fields r)"
  shows "read_fields 16 (journal_payload r) = Some (journal_fields r)"
  unfolding journal_payload_def
proof (rule read_fields_journal)
  show "list_all (\<lambda>(name, v). CHR 0x0A \<notin> set name \<and> length v < U64) (journal_fields r)"
    using assms journal_names by (fastforce simp: list_all_iff)
  show "length (journal_fields r) \<le> 16"
    by (simp add: journal_fields_def opt_field_def split: option.split)
qed

end
