(* ===== verification/Inflate.thy ===== *)
theory Inflate
  imports Prelude
begin

text \<open>
  DEFLATE in the confined decoder: module \<open>inflate\<close> of \<open>crates/ai-daemon-decode/src/main.rs\<close>.
  The reader is a byte array and a position in bits; every indexing of the source is checked and
  gives \<open>Panic\<close> outside its range. The loops end because each round reads at least one bit. The
  theorems: no input makes the decoder index outside an array; the output is bounded; a
  canonical Huffman code as RFC 1951 defines it is decoded; stored blocks read back.
\<close>

unbundle bit_operations_syntax

subsection \<open>Bits\<close>

definition bit :: "byte list \<Rightarrow> nat \<Rightarrow> (nat \<times> nat) res" where
  "bit bs pos =
     (if pos div 8 < length bs
      then Inr (unat (drop_bit (pos mod 8) (bs ! (pos div 8)) AND 1), Suc pos)
      else Inl (Err ''deflate stream ended early''))"

text \<open>The bits from \<open>index\<close> up to \<open>count\<close>, the first one lowest.\<close>

function bits_from :: "byte list \<Rightarrow> nat \<Rightarrow> nat \<Rightarrow> nat \<Rightarrow> nat \<Rightarrow> (nat \<times> nat) res" where
  "bits_from bs count index acc pos =
     (if index < count
      then rbind (bit bs pos) (\<lambda>(b, pos1). bits_from bs count (Suc index) (acc OR push_bit index b) pos1)
      else Inr (acc, pos))"
  by pat_completeness auto
termination
  by (relation "measure (\<lambda>(bs, count, index, acc, pos). count - index)") auto

declare bits_from.simps [simp del]

definition bits :: "byte list \<Rightarrow> nat \<Rightarrow> nat \<Rightarrow> (nat \<times> nat) res" where
  "bits bs count pos = bits_from bs count 0 0 pos"

definition align :: "nat \<Rightarrow> nat" where
  "align pos = (pos + 7) div 8 * 8"

lemma bit_Inr: "bit bs pos = Inr (b, pos') \<Longrightarrow> b < 2 \<and> pos' = Suc pos \<and> pos < 8 * length bs"
  by (auto simp: bit_def and_one_eq unat_mod_distrib split: if_splits)

lemma bits_from_pos:
  "bits_from bs count index acc pos = Inr (v, pos') \<Longrightarrow> pos' = pos + (count - index) \<and> (pos \<le> 8 * length bs \<longrightarrow> pos' \<le> 8 * length bs)"
proof (induction bs count index acc pos rule: bits_from.induct)
  case (1 bs count index acc pos)
  show ?case
  proof (cases "index < count")
    case True
    with 1(2) obtain b where b: "bit bs pos = Inr (b, Suc pos)" "pos < 8 * length bs"
      and "bits_from bs count (Suc index) (acc OR push_bit index b) (Suc pos) = Inr (v, pos')"
      by (subst (asm) bits_from.simps) (auto simp: result_simps dest: bit_Inr)
    with 1(1)[OF True] show ?thesis
      using True by fastforce
  next
    case False
    with 1(2) show ?thesis
      by (subst (asm) bits_from.simps) auto
  qed
qed

lemma bits_pos:
  "bits bs count pos = Inr (v, pos') \<Longrightarrow> pos' = pos + count \<and> (pos \<le> 8 * length bs \<longrightarrow> pos' \<le> 8 * length bs)"
  unfolding bits_def by (metis bits_from_pos diff_zero)

subsection \<open>Huffman tables\<close>

record huffman =
  h_counts :: "nat list"
  h_symbols :: "nat list"

definition panics :: "bool \<Rightarrow> 'a res \<Rightarrow> 'a res" where
  "panics bad r = (if bad then Inl Panic else r)"

lemma panics_simps [simp]: "panics True r = Inl Panic" "panics False r = r"
  by (simp_all add: panics_def)

lemma panics_cong [fundef_cong]: "b = b' \<Longrightarrow> (\<not> b' \<Longrightarrow> r = r') \<Longrightarrow> panics b r = panics b' r'"
  by (simp add: panics_def)

lemma panics_Inr [result_simps]: "panics b r = Inr x \<longleftrightarrow> \<not> b \<and> r = Inr x"
  by (simp add: panics_def)

fun count_lengths :: "nat list \<Rightarrow> nat list \<Rightarrow> nat list res" where
  "count_lengths counts [] = Inr counts"
| "count_lengths counts (l # ls) =
     panics (length counts \<le> l) (count_lengths (counts[l := counts ! l + 1]) ls)"

fun offsets_from :: "nat \<Rightarrow> nat list \<Rightarrow> nat list" where
  "offsets_from acc [] = []"
| "offsets_from acc (c # cs) = acc # offsets_from (acc + c) cs"

fun place_symbols :: "nat \<Rightarrow> nat list \<Rightarrow> nat list \<Rightarrow> nat list \<Rightarrow> nat list res" where
  "place_symbols symbol [] offsets symbols = Inr symbols"
| "place_symbols symbol (l # ls) offsets symbols =
     (if l = 0 then place_symbols (Suc symbol) ls offsets symbols
      else
        panics (length offsets \<le> l) (panics (length symbols \<le> offsets ! l)
          (place_symbols (Suc symbol) ls (offsets[l := offsets ! l + 1]) (symbols[offsets ! l := symbol]))))"

text \<open>The code lengths are at most 15, and the offset of a length is the number of shorter codes.\<close>

definition huffman_new :: "nat list \<Rightarrow> huffman res" where
  "huffman_new lengths =
     rbind (count_lengths (replicate 16 0) lengths) (\<lambda>counts0.
       let counts = counts0[0 := 0]
       in rbind (place_symbols 0 lengths (offsets_from 0 counts) (replicate (length lengths) 0)) (\<lambda>symbols.
            Inr \<lparr> h_counts = counts, h_symbols = symbols \<rparr>))"

function decode_from :: "huffman \<Rightarrow> byte list \<Rightarrow> nat \<Rightarrow> int \<Rightarrow> int \<Rightarrow> int \<Rightarrow> nat \<Rightarrow> (nat \<times> nat) res" where
  "decode_from h bs len code first index pos =
     (if len < 16
      then
        rbind (bit bs pos) (\<lambda>(b, pos1).
          panics (length (h_counts h) \<le> len)
            (let code1 = code OR int b; count = int (h_counts h ! len)
             in if code1 - first < count
                then panics (index + (code1 - first) < 0 \<or> int (length (h_symbols h)) \<le> index + (code1 - first))
                       (Inr (h_symbols h ! nat (index + (code1 - first)), pos1))
                else decode_from h bs (Suc len) (push_bit 1 code1) (push_bit 1 (first + count)) (index + count) pos1))
      else Inl (Err ''invalid Huffman code''))"
  by pat_completeness auto
termination
  by (relation "measure (\<lambda>(h, bs, len, code, first, index, pos). 16 - len)") auto

declare decode_from.simps [simp del]

definition decode_symbol :: "huffman \<Rightarrow> byte list \<Rightarrow> nat \<Rightarrow> (nat \<times> nat) res" where
  "decode_symbol h bs pos = decode_from h bs 1 0 0 0 pos"

lemma decode_from_pos:
  "decode_from h bs len code first index pos = Inr (s, pos') \<Longrightarrow> pos < pos' \<and> pos' \<le> 8 * length bs"
proof (induction h bs len code first index pos rule: decode_from.induct)
  case (1 h bs len code first index pos)
  then have "len < 16"
    by (subst (asm) (2) decode_from.simps) (auto split: if_splits)
  with 1(2) obtain b where b: "bit bs pos = Inr (b, Suc pos)" "pos < 8 * length bs"
    by (subst (asm) decode_from.simps) (auto simp: result_simps dest: bit_Inr)
  let ?code1 = "code OR int b" and ?count = "int (h_counts h ! len)"
  show ?case
  proof (cases "?code1 - first < ?count")
    case True
    with 1(2) \<open>len < 16\<close> b show ?thesis
      by (subst (asm) decode_from.simps) (auto simp: result_simps Let_def)
  next
    case False
    with 1(2) \<open>len < 16\<close> b have "decode_from h bs (Suc len) (push_bit 1 ?code1) (push_bit 1 (first + ?count)) (index + ?count) (Suc pos) = Inr (s, pos')"
      "\<not> length (h_counts h) \<le> len"
      by (subst (asm) decode_from.simps, auto simp: result_simps Let_def)+
    with 1(1)[OF \<open>len < 16\<close> b(1)] False show ?thesis
      by fastforce
  qed
qed

lemma decode_symbol_pos: "decode_symbol h bs pos = Inr (s, pos') \<Longrightarrow> pos < pos' \<and> pos' \<le> 8 * length bs"
  unfolding decode_symbol_def by (rule decode_from_pos)

subsection \<open>Blocks\<close>

definition LENGTH_BASE :: "nat list" where
  "LENGTH_BASE = [3, 4, 5, 6, 7, 8, 9, 10, 11, 13, 15, 17, 19, 23, 27, 31, 35, 43, 51, 59, 67, 83, 99, 115,
     131, 163, 195, 227, 258]"

definition LENGTH_EXTRA :: "nat list" where
  "LENGTH_EXTRA = [0, 0, 0, 0, 0, 0, 0, 0, 1, 1, 1, 1, 2, 2, 2, 2, 3, 3, 3, 3, 4, 4, 4, 4, 5, 5, 5, 5, 0]"

definition DISTANCE_BASE :: "nat list" where
  "DISTANCE_BASE = [1, 2, 3, 4, 5, 7, 9, 13, 17, 25, 33, 49, 65, 97, 129, 193, 257, 385, 513, 769, 1025, 1537,
     2049, 3073, 4097, 6145, 8193, 12289, 16385, 24577]"

definition DISTANCE_EXTRA :: "nat list" where
  "DISTANCE_EXTRA = [0, 0, 0, 0, 1, 1, 2, 2, 3, 3, 4, 4, 5, 5, 6, 6, 7, 7, 8, 8, 9, 9, 10, 10, 11, 11, 12, 12,
     13, 13]"

text \<open>\<open>xs[i]\<close> of the source.\<close>

definition at_index :: "'a list \<Rightarrow> nat \<Rightarrow> 'a res" where
  "at_index xs i = (if i < length xs then Inr (xs ! i) else Inl Panic)"

lemma at_index_Inr [result_simps]: "at_index xs i = Inr x \<longleftrightarrow> i < length xs \<and> x = xs ! i"
  by (auto simp: at_index_def)

lemma at_index_in [simp]: "i < length xs \<Longrightarrow> at_index xs i = Inr (xs ! i)"
  by (simp add: at_index_def)

text \<open>\<open>&xs[m..n]\<close> of the source.\<close>

definition subslice :: "'a list \<Rightarrow> nat \<Rightarrow> nat \<Rightarrow> 'a list res" where
  "subslice xs m n = panics (n < m \<or> length xs < n) (Inr (take (n - m) (drop m xs)))"

lemma subslice_in [simp]: "m \<le> n \<Longrightarrow> n \<le> length xs \<Longrightarrow> subslice xs m n = Inr (take (n - m) (drop m xs))"
  by (simp add: subslice_def)

lemma subslice_Inr [result_simps]:
  "subslice xs m n = Inr ys \<longleftrightarrow> m \<le> n \<and> n \<le> length xs \<and> ys = take (n - m) (drop m xs)"
  by (auto simp: subslice_def result_simps)

fun copy_back :: "nat \<Rightarrow> nat \<Rightarrow> byte list \<Rightarrow> byte list res" where
  "copy_back 0 start out = Inr out"
| "copy_back (Suc k) start out =
     rbind (at_index out start) (\<lambda>b. copy_back k (Suc start) (out @ [b]))"

definition back_reference :: "huffman \<Rightarrow> byte list \<Rightarrow> nat \<Rightarrow> byte list \<Rightarrow> nat \<Rightarrow> (byte list \<times> nat) res" where
  "back_reference distances bs index out pos =
     rbind (at_index LENGTH_BASE index) (\<lambda>base.
     rbind (at_index LENGTH_EXTRA index) (\<lambda>extra.
     rbind (bits bs extra pos) (\<lambda>(n, pos1).
     rbind (decode_symbol distances bs pos1) (\<lambda>(d, pos2).
       if length DISTANCE_BASE \<le> d then Inl (Err ''bad distance symbol'')
       else
         rbind (at_index DISTANCE_BASE d) (\<lambda>dbase.
         rbind (at_index DISTANCE_EXTRA d) (\<lambda>dextra.
         rbind (bits bs dextra pos2) (\<lambda>(m, pos3).
           if dbase + m > length out then Inl (Err ''back-reference before the start of the stream'')
           else
             rbind (copy_back (base + n) (length out - (dbase + m)) out) (\<lambda>out1. Inr (out1, pos3)))))))))"

lemma back_reference_pos:
  "back_reference distances bs index out pos = Inr (out1, pos') \<Longrightarrow> pos < pos' \<and> pos' \<le> 8 * length bs"
  by (auto simp: back_reference_def result_simps split: if_splits dest!: bits_pos decode_symbol_pos)

function block :: "byte list \<Rightarrow> huffman \<Rightarrow> huffman \<Rightarrow> nat \<Rightarrow> byte list \<Rightarrow> nat \<Rightarrow> (byte list \<times> nat) res" where
  "block bs literals distances max_output out pos =
     (if length out > max_output then Inl (Err ''decoded output exceeded the caller's limit'')
      else
        rbind (decode_symbol literals bs pos) (\<lambda>(symbol, pos1).
          if symbol \<le> 255 then block bs literals distances max_output (out @ [of_nat symbol]) pos1
          else if symbol = 256 then Inr (out, pos1)
          else if symbol \<le> 285 then
            rbind (back_reference distances bs (symbol - 257) out pos1) (\<lambda>(out1, pos2).
              block bs literals distances max_output out1 pos2)
          else Inl (Err (''bad literal/length symbol '' @ show_nat symbol))))"
  by pat_completeness auto
termination
proof (relation "measure (\<lambda>(bs, literals, distances, max_output, out, pos). 8 * length bs - pos)")
  show "wf (measure (\<lambda>(bs, literals, distances, max_output, out, pos). 8 * length bs - pos))"
    by simp
qed (auto dest!: decode_symbol_pos back_reference_pos)

declare block.simps [simp del]

definition fixed_lengths :: "nat list" where
  "fixed_lengths = map (\<lambda>symbol. if symbol \<le> 143 then 8 else if symbol \<le> 255 then 9 else if symbol \<le> 279 then 7 else 8) [0..<288]"

definition CODE_ORDER :: "nat list" where
  "CODE_ORDER = [16, 17, 18, 0, 8, 7, 9, 6, 10, 5, 11, 4, 12, 3, 13, 2, 14, 1, 15]"

fun read_code_lengths :: "byte list \<Rightarrow> nat list \<Rightarrow> nat list \<Rightarrow> nat \<Rightarrow> (nat list \<times> nat) res" where
  "read_code_lengths bs [] lengths pos = Inr (lengths, pos)"
| "read_code_lengths bs (index # rest) lengths pos =
     rbind (bits bs 3 pos) (\<lambda>(v, pos1).
       panics (length lengths \<le> index) (read_code_lengths bs rest (lengths[index := v]) pos1))"

fun repeat_length :: "nat \<Rightarrow> nat \<Rightarrow> nat \<Rightarrow> nat list \<Rightarrow> (nat list \<times> nat) res" where
  "repeat_length 0 v index lengths = Inr (lengths, index)"
| "repeat_length (Suc k) v index lengths =
     (if length lengths \<le> index then Inl (Err ''code length overrun'')
      else panics (length lengths \<le> index) (repeat_length k v (Suc index) (lengths[index := v])))"

function read_lengths :: "byte list \<Rightarrow> huffman \<Rightarrow> nat list \<Rightarrow> nat \<Rightarrow> nat \<Rightarrow> (nat list \<times> nat \<times> nat) res" where
  "read_lengths bs h lengths index pos =
     (if index < length lengths
      then
        rbind (decode_symbol h bs pos) (\<lambda>(symbol, pos1).
          if symbol \<le> 15 then
            panics (length lengths \<le> index) (read_lengths bs h (lengths[index := symbol]) (Suc index) pos1)
          else if symbol = 16 then
            (if index = 0 then Inl (Err ''repeat with nothing to repeat'')
             else
               rbind (at_index lengths (index - 1)) (\<lambda>previous.
               rbind (bits bs 2 pos1) (\<lambda>(n, pos2).
               rbind (repeat_length (3 + n) previous index lengths) (\<lambda>(lengths1, index1).
                 read_lengths bs h lengths1 index1 pos2))))
          else if symbol = 17 then
            rbind (bits bs 3 pos1) (\<lambda>(n, pos2). read_lengths bs h lengths (index + 3 + n) pos2)
          else if symbol = 18 then
            rbind (bits bs 7 pos1) (\<lambda>(n, pos2). read_lengths bs h lengths (index + 11 + n) pos2)
          else Inl (Err (''bad code length symbol '' @ show_nat symbol)))
      else Inr (lengths, index, pos))"
  by pat_completeness auto
termination
proof (relation "measure (\<lambda>(bs, h, lengths, index, pos). 8 * length bs - pos)")
  show "wf (measure (\<lambda>(bs, h, lengths, index, pos). 8 * length bs - pos))"
    by simp
qed (auto dest!: decode_symbol_pos bits_pos)

declare read_lengths.simps [simp del]

definition le16 :: "byte \<Rightarrow> byte \<Rightarrow> nat" where
  "le16 a b = unat a + 256 * unat b"

text \<open>\<open>!nlen & 0xffff\<close> is the complement in sixteen bits.\<close>

definition stored_block :: "byte list \<Rightarrow> byte list \<Rightarrow> nat \<Rightarrow> (byte list \<times> nat) res" where
  "stored_block bs out pos =
     (let start = align pos div 8 in
      if start + 4 > length bs then Inl (Err ''truncated stored block'')
      else
        rbind (at_index bs start) (\<lambda>b0. rbind (at_index bs (start + 1)) (\<lambda>b1.
        rbind (at_index bs (start + 2)) (\<lambda>b2. rbind (at_index bs (start + 3)) (\<lambda>b3.
          let len = le16 b0 b1; nlen = le16 b2 b3; first = start + 4; last = first + len
          in if len \<noteq> 65535 - nlen then Inl (Err ''stored block length check failed'')
             else if last > length bs then Inl (Err ''truncated stored block'')
             else rbind (subslice bs first last) (\<lambda>part. Inr (out @ part, last * 8)))))))"

definition fixed_block :: "byte list \<Rightarrow> nat \<Rightarrow> byte list \<Rightarrow> nat \<Rightarrow> (byte list \<times> nat) res" where
  "fixed_block bs max_output out pos =
     rbind (huffman_new fixed_lengths) (\<lambda>literals.
     rbind (huffman_new (replicate 30 5)) (\<lambda>distances.
       block bs literals distances max_output out pos))"

definition dynamic_body :: "byte list \<Rightarrow> nat \<Rightarrow> nat \<Rightarrow> nat \<Rightarrow> nat \<Rightarrow> byte list \<Rightarrow> nat \<Rightarrow> (byte list \<times> nat) res" where
  "dynamic_body bs max_output hlit hdist hclen out pos =
     rbind (read_code_lengths bs (take hclen CODE_ORDER) (replicate 19 0) pos) (\<lambda>(code_lengths, pos4).
     rbind (huffman_new code_lengths) (\<lambda>code_huffman.
     rbind (read_lengths bs code_huffman (replicate (hlit + hdist) 0) 0 pos4) (\<lambda>(lengths, index, pos5).
       if index > length lengths then Inl (Err ''code length overrun'')
       else
         panics (length lengths < hlit)
           (rbind (huffman_new (take hlit lengths)) (\<lambda>literals.
            rbind (huffman_new (drop hlit lengths)) (\<lambda>distances.
              block bs literals distances max_output out pos5))))))"

definition dynamic_block :: "byte list \<Rightarrow> nat \<Rightarrow> byte list \<Rightarrow> nat \<Rightarrow> (byte list \<times> nat) res" where
  "dynamic_block bs max_output out pos =
     rbind (bits bs 5 pos) (\<lambda>(a, pos1).
     rbind (bits bs 5 pos1) (\<lambda>(b, pos2).
     rbind (bits bs 4 pos2) (\<lambda>(c, pos3).
       dynamic_body bs max_output (a + 257) (b + 1) (c + 4) out pos3)))"

definition any_block :: "byte list \<Rightarrow> nat \<Rightarrow> nat \<Rightarrow> byte list \<Rightarrow> nat \<Rightarrow> (byte list \<times> nat) res" where
  "any_block bs max_output kind out pos =
     (if kind = 0 then stored_block bs out pos
      else if kind = 1 then fixed_block bs max_output out pos
      else if kind = 2 then dynamic_block bs max_output out pos
      else Inl (Err ''reserved deflate block type''))"

lemma block_pos: "block bs literals distances max_output out pos = Inr (out1, pos') \<Longrightarrow> pos < pos' \<and> pos' \<le> 8 * length bs"
proof (induction bs literals distances max_output out pos rule: block.induct)
  case (1 bs literals distances max_output out pos)
  from 1(3) have small: "\<not> length out > max_output"
    by (subst (asm) block.simps) (auto split: if_splits)
  with 1(3) obtain s pos1 where s: "decode_symbol literals bs pos = Inr (s, pos1)"
    by (subst (asm) block.simps) (auto simp: result_simps)
  consider "s \<le> 255" | "s = 256" | "257 \<le> s" "s \<le> 285" | "285 < s"
    by linarith
  then show ?case
  proof cases
    case 1
    with "1.prems" s small show ?thesis
      using "1.IH"(1)[OF small s refl] decode_symbol_pos[OF s] by (subst (asm) block.simps) fastforce
  next
    case 2
    with "1.prems" s small show ?thesis
      using decode_symbol_pos[OF s] by (subst (asm) block.simps) auto
  next
    case 3
    with "1.prems" s small obtain out2 pos2 where r: "back_reference distances bs (s - 257) out pos1 = Inr (out2, pos2)"
      and "block bs literals distances max_output out2 pos2 = Inr (out1, pos')"
      by (subst (asm) block.simps) (auto simp: result_simps)
    with "1.IH"(2)[OF small s refl _ _ _ r refl] 3 show ?thesis
      using decode_symbol_pos[OF s] back_reference_pos[OF r] by auto
  next
    case 4
    with "1.prems" s small show ?thesis
      by (subst (asm) block.simps) auto
  qed
qed

lemma read_code_lengths_pos:
  "read_code_lengths bs order lengths pos = Inr (ls, pos') \<Longrightarrow> pos \<le> 8 * length bs \<Longrightarrow> pos \<le> pos' \<and> pos' \<le> 8 * length bs"
  by (induction order arbitrary: lengths pos) (fastforce simp: result_simps dest: bits_pos)+

lemma read_lengths_pos:
  "read_lengths bs h lengths index pos = Inr (ls, i, pos') \<Longrightarrow> pos \<le> 8 * length bs \<Longrightarrow> pos \<le> pos' \<and> pos' \<le> 8 * length bs"
proof (induction bs h lengths index pos rule: read_lengths.induct)
  case (1 bs h lengths index pos)
  show ?case
  proof (cases "index < length lengths")
    case False
    with 1(5,6) show ?thesis
      by (subst (asm) read_lengths.simps) auto
  next
    case True
    with 1(5) obtain s pos1 where s: "decode_symbol h bs pos = Inr (s, pos1)"
      by (subst (asm) read_lengths.simps) (auto simp: result_simps)
    note p1 = decode_symbol_pos[OF s]
    note unfolded = "1.prems"(1)[unfolded read_lengths.simps[of bs h lengths index pos] s rbind_simps prod.case]
    consider "s \<le> 15" | "s = 16" | "s = 17" | "s = 18" | "18 < s"
      by linarith
    then show ?thesis
    proof cases
      case 1
      with True unfolded "1.IH"(1)[OF True s refl] p1 show ?thesis
        by (fastforce simp: panics_def)
    next
      case 2
      with True unfolded obtain n pos2 ls1 i1 where n: "index \<noteq> 0" "bits bs 2 pos1 = Inr (n, pos2)"
        "repeat_length (3 + n) (lengths ! (index - 1)) index lengths = Inr (ls1, i1)"
        "read_lengths bs h ls1 i1 pos2 = Inr (ls, i, pos')"
        by (auto simp: result_simps split: if_splits)
      have "at_index lengths (index - 1) = Inr (lengths ! (index - 1))"
        using True by (intro at_index_in) linarith
      with n "1.IH"(2)[OF True s refl _ _ _ _ n(2) refl n(3) refl n(4)] 2 show ?thesis
        using p1 bits_pos[OF n(2)] by auto
    next
      case 3
      with True unfolded obtain n pos2 where n: "bits bs 3 pos1 = Inr (n, pos2)"
        "read_lengths bs h lengths (index + 3 + n) pos2 = Inr (ls, i, pos')"
        by (auto simp: result_simps split: if_splits)
      with "1.IH"(3)[OF True s refl _ _ _ n(1) refl n(2)] 3 show ?thesis
        using p1 bits_pos[OF n(1)] by auto
    next
      case 4
      with True unfolded obtain n pos2 where n: "bits bs 7 pos1 = Inr (n, pos2)"
        "read_lengths bs h lengths (index + 11 + n) pos2 = Inr (ls, i, pos')"
        by (auto simp: result_simps split: if_splits)
      with "1.IH"(4)[OF True s refl _ _ _ _ n(1) refl n(2)] 4 show ?thesis
        using p1 bits_pos[OF n(1)] by auto
    next
      case 5
      with True unfolded show ?thesis
        by simp
    qed
  qed
qed

lemma align_bounds: "pos \<le> align pos" "align pos div 8 * 8 = align pos"
  by (simp_all add: align_def)

lemma stored_block_pos: "stored_block bs out pos = Inr (out1, pos') \<Longrightarrow> pos \<le> pos' \<and> pos' \<le> 8 * length bs"
  using align_bounds[of pos] by (auto simp: stored_block_def Let_def result_simps split: if_splits)

lemma any_block_pos:
  assumes "any_block bs max_output kind out pos = Inr (out1, pos')" "pos \<le> 8 * length bs"
  shows "pos \<le> pos' \<and> pos' \<le> 8 * length bs"
proof -
  consider "kind = 0" | "kind = 1" | "kind = 2"
    using assms(1) by (auto simp: any_block_def split: if_splits)
  then show ?thesis
  proof cases
    case 1
    with assms show ?thesis
      using stored_block_pos by (simp add: any_block_def)
  next
    case 2
    with assms show ?thesis
      by (auto simp: any_block_def fixed_block_def result_simps dest: block_pos)
  next
    case 3
    with assms(1) obtain a p1 b p2 c p3 cl p4 ls i p5 lits dists where
      "bits bs 5 pos = Inr (a, p1)" "bits bs 5 p1 = Inr (b, p2)" "bits bs 4 p2 = Inr (c, p3)"
      "read_code_lengths bs (take (c + 4) CODE_ORDER) (replicate 19 0) p3 = Inr (cl, p4)"
      and rl: "\<exists>h l. read_lengths bs h l 0 p4 = Inr (ls, i, p5)"
      and "block bs lits dists max_output out p5 = Inr (out1, pos')"
      by (auto simp: any_block_def dynamic_block_def dynamic_body_def result_simps split: if_splits) metis
    then show ?thesis
      using assms(2) by (auto dest!: bits_pos read_code_lengths_pos read_lengths_pos block_pos)
  qed
qed

function inflate_from :: "byte list \<Rightarrow> nat \<Rightarrow> byte list \<Rightarrow> nat \<Rightarrow> byte list res" where
  "inflate_from bs max_output out pos =
     rbind (bit bs pos) (\<lambda>(final_block, pos1).
     rbind (bits bs 2 pos1) (\<lambda>(kind, pos2).
     rbind (any_block bs max_output kind out pos2) (\<lambda>(out1, pos3).
       if final_block = 1 then Inr out1 else inflate_from bs max_output out1 pos3)))"
  by pat_completeness auto
termination
proof (relation "measure (\<lambda>(bs, max_output, out, pos). 8 * length bs - pos)")
  show "wf (measure (\<lambda>(bs, max_output, out, pos). 8 * length bs - pos))"
    by simp
qed (auto dest!: bit_Inr bits_pos any_block_pos)

declare inflate_from.simps [simp del]

definition inflate :: "byte list \<Rightarrow> nat \<Rightarrow> byte list res" where
  "inflate bs max_output = inflate_from bs max_output [] 0"

definition zlib :: "byte list \<Rightarrow> nat \<Rightarrow> byte list res" where
  "zlib bs max_output =
     (case bs of
        cmf # flg # rest \<Rightarrow>
          if cmf AND 15 \<noteq> 8 then Inl (Err ''not a deflate stream'')
          else if (unat cmf * 256 + unat flg) mod 31 \<noteq> 0 then Inl (Err ''bad zlib header check'')
          else if flg AND 32 \<noteq> 0 then Inl (Err ''preset dictionaries are not supported'')
          else inflate rest max_output
      | _ \<Rightarrow> Inl (Err ''no zlib stream''))"

subsection \<open>Tables of a code\<close>

text \<open>The symbols of a code length, in order, and how many there are.\<close>

fun of_length :: "nat \<Rightarrow> nat \<Rightarrow> nat list \<Rightarrow> nat list" where
  "of_length l base [] = []"
| "of_length l base (x # xs) = (if x = l then base # of_length l (Suc base) xs else of_length l (Suc base) xs)"

abbreviation cnt :: "nat \<Rightarrow> nat list \<Rightarrow> nat" where
  "cnt l ls \<equiv> length (filter (\<lambda>x. x = l) ls)"

lemma length_of_length [simp]: "length (of_length l base ls) = cnt l ls"
  by (induction ls arbitrary: base) auto

lemma count_lengths_ok:
  "list_all (\<lambda>x. x < length counts) ls
    \<Longrightarrow> count_lengths counts ls = Inr (map (\<lambda>l. counts ! l + cnt l ls) [0..<length counts])"
proof (induction ls arbitrary: counts)
  case Nil
  then show ?case
    by (simp add: map_nth)
next
  case (Cons x xs)
  then show ?case
    by (auto intro!: nth_equalityI simp: nth_list_update)
qed

definition regions_ok :: "nat list \<Rightarrow> nat list \<Rightarrow> nat \<Rightarrow> bool" where
  "regions_ok ls off n \<longleftrightarrow>
     (\<forall>l<16. 0 < l \<longrightarrow> off ! l + cnt l ls \<le> n)
     \<and> (\<forall>l<16. \<forall>m<16. 0 < l \<longrightarrow> 0 < m \<longrightarrow> l < m \<longrightarrow> off ! l + cnt l ls \<le> off ! m)"

lemma regions_okD: "regions_ok ls off n \<Longrightarrow> 0 < l \<Longrightarrow> l < m \<Longrightarrow> m < 16 \<Longrightarrow> off ! l + cnt l ls \<le> off ! m"
  by (simp add: regions_ok_def)

lemma place_symbols_ok:
  assumes "list_all (\<lambda>x. x < 16) ls" "length off = 16" "regions_ok ls off (length syms)"
  shows "\<exists>syms'. place_symbols base ls off syms = Inr syms' \<and> length syms' = length syms
    \<and> (\<forall>l<16. 0 < l \<longrightarrow> (\<forall>k<cnt l ls. syms' ! (off ! l + k) = of_length l base ls ! k))
    \<and> (\<forall>i. (\<forall>l<16. 0 < l \<longrightarrow> i < off ! l \<or> off ! l + cnt l ls \<le> i) \<longrightarrow> syms' ! i = syms ! i)"
  using assms
proof (induction ls arbitrary: base off syms)
  case (Cons x xs)
  show ?case
  proof (cases "x = 0")
    case True
    with Cons.prems have "regions_ok xs off (length syms)"
      by (auto simp: regions_ok_def)
    with Cons True show ?thesis
      by fastforce
  next
    case False
    let ?off = "off[x := off ! x + 1]" and ?syms = "syms[off ! x := base]"
    have x: "x < 16" "off ! x + Suc (cnt x xs) \<le> length syms"
      using Cons.prems False by (auto simp: regions_ok_def dest!: spec[of _ x])
    have "regions_ok xs ?off (length ?syms)"
      unfolding regions_ok_def
    proof (intro conjI allI impI)
      fix l :: nat
      assume "l < 16" "0 < l"
      then have "off ! l + cnt l (x # xs) \<le> length syms"
        using Cons.prems(3) by (simp add: regions_ok_def)
      then show "?off ! l + cnt l xs \<le> length ?syms"
        using x Cons.prems(2) by (cases "l = x") auto
    next
      fix l m :: nat
      assume lm: "l < 16" "m < 16" "0 < l" "0 < m" "l < m"
      then have "off ! l + cnt l (x # xs) \<le> off ! m"
        using Cons.prems(3) by (simp add: regions_ok_def)
      then show "?off ! l + cnt l xs \<le> ?off ! m"
        using x lm Cons.prems(2) by (cases "l = x"; cases "m = x") auto
    qed
    with Cons.IH[of ?off ?syms "Suc base"] Cons.prems obtain syms' where
      s: "place_symbols (Suc base) xs ?off ?syms = Inr syms'" "length syms' = length syms"
      and at: "\<And>l k. l < 16 \<Longrightarrow> 0 < l \<Longrightarrow> k < cnt l xs \<Longrightarrow> syms' ! (?off ! l + k) = of_length l (Suc base) xs ! k"
      and rest: "\<And>i. (\<forall>l<16. 0 < l \<longrightarrow> i < ?off ! l \<or> ?off ! l + cnt l xs \<le> i) \<Longrightarrow> syms' ! i = ?syms ! i"
      by auto
    have "place_symbols base (x # xs) off syms = Inr syms'"
      using False x s(1) Cons.prems by simp
    moreover have "syms' ! (off ! l + k) = of_length l base (x # xs) ! k"
      if l: "l < 16" "0 < l" "k < cnt l (x # xs)" for l k
    proof (cases "l = x")
      case True
      show ?thesis
      proof (cases k)
        case 0
        have "syms' ! (off ! x) = ?syms ! (off ! x)"
        proof (rule rest, intro allI impI)
          fix m :: nat
          assume m: "m < 16" "0 < m"
          consider "m = x" | "m < x" | "x < m"
            by linarith
          then show "off ! x < ?off ! m \<or> ?off ! m + cnt m xs \<le> off ! x"
          proof cases
            case 1
            then show ?thesis
              using x Cons.prems(2) by simp
          next
            case 2
            then have "off ! m + cnt m (x # xs) \<le> off ! x"
              using regions_okD[OF Cons.prems(3)] m x by blast
            with 2 show ?thesis
              by simp
          next
            case 3
            then have "off ! x + cnt x (x # xs) \<le> off ! m"
              using regions_okD[OF Cons.prems(3)] m x False by blast
            with 3 show ?thesis
              by simp
          qed
        qed
        with True 0 x show ?thesis
          by simp
      next
        case (Suc j)
        with at[of x j] l True x Cons.prems(2) show ?thesis
          by simp
      qed
    next
      case neq: False
      with at[of l k] l show ?thesis
        by simp
    qed
    moreover have "syms' ! i = syms ! i"
      if i: "\<forall>l<16. 0 < l \<longrightarrow> i < off ! l \<or> off ! l + cnt l (x # xs) \<le> i" for i
    proof -
      have "i \<noteq> off ! x"
        using i x False by fastforce
      moreover have "syms' ! i = ?syms ! i"
        using i Cons.prems(2) x False by (intro rest) (fastforce simp: nth_list_update)
      ultimately show ?thesis
        by simp
    qed
    ultimately show ?thesis
      using s(2) by blast
  qed
qed simp

text \<open>What a table holds: the number of codes of each length, and the symbols by length.\<close>

definition below :: "nat list \<Rightarrow> nat \<Rightarrow> nat" where
  "below counts l = (\<Sum>j<l. counts ! j)"

definition table_of :: "nat list \<Rightarrow> huffman \<Rightarrow> bool" where
  "table_of lengths h \<longleftrightarrow>
     length (h_counts h) = 16 \<and> h_counts h ! 0 = 0 \<and> (\<forall>l<16. 0 < l \<longrightarrow> h_counts h ! l = cnt l lengths)
     \<and> length (h_symbols h) = length lengths
     \<and> (\<forall>l<16. 0 < l \<longrightarrow> (\<forall>k<cnt l lengths. h_symbols h ! (below (h_counts h) l + k) = of_length l 0 lengths ! k))"

lemma offsets_from_nth: "l < length cs \<Longrightarrow> offsets_from acc cs ! l = acc + below cs l"
proof (induction cs arbitrary: acc l)
  case (Cons c cs)
  then show ?case
    by (cases l) (auto simp: below_def sum.lessThan_Suc_shift simp del: sum.lessThan_Suc)
qed simp

lemma offsets_from_length [simp]: "length (offsets_from acc cs) = length cs"
  by (induction cs arbitrary: acc) auto

lemma below_Suc: "below counts (Suc l) = below counts l + counts ! l"
  by (simp add: below_def)

lemma below_mono: "l \<le> m \<Longrightarrow> below counts l \<le> below counts m"
  unfolding below_def by (rule sum_mono2) auto

lemma below_cnt: "(\<Sum>j<n. if j = 0 then 0 else cnt j ls) \<le> length ls"
proof -
  have "(\<Sum>j<n. cnt j ls) \<le> length ls"
  proof (induction ls)
    case (Cons x xs)
    have "(\<Sum>j<n. cnt j (x # xs)) = (\<Sum>j<n. cnt j xs + (if x = j then 1 else 0))"
      by (rule sum.cong) auto
    also have "\<dots> = (\<Sum>j<n. cnt j xs) + (\<Sum>j<n. if x = j then 1 else 0)"
      by (rule sum.distrib)
    also have "(\<Sum>j<n. if x = j then 1 else 0) \<le> (1 :: nat)"
      by (simp add: sum.delta)
    finally show ?case
      using Cons by simp
  qed simp
  moreover have "(\<Sum>j<n. if j = 0 then 0 else cnt j ls) \<le> (\<Sum>j<n. cnt j ls)"
    by (rule sum_mono) auto
  ultimately show ?thesis
    by simp
qed

lemma huffman_new_ok:
  assumes "list_all (\<lambda>x. x < 16) lengths"
  obtains h where "huffman_new lengths = Inr h" "table_of lengths h"
proof -
  define counts where "counts = map (\<lambda>l. if l = 0 then 0 else cnt l lengths) [0..<16]"
  have c: "count_lengths (replicate 16 0) lengths = Inr (map (\<lambda>l. cnt l lengths) [0..<16])"
    using count_lengths_ok[of "replicate 16 0" lengths] assms by (simp add: map_equality_iff)
  have counts: "(map (\<lambda>l. cnt l lengths) [0..<16])[0 := 0] = counts"
    by (rule nth_equalityI) (auto simp: counts_def nth_list_update)
  have nth: "counts ! l = (if l = 0 then 0 else cnt l lengths)" if "l < 16" for l
    using that by (simp add: counts_def)
  have len: "length counts = 16"
    by (simp add: counts_def)
  have "below counts 16 = (\<Sum>j<16. if j = 0 then 0 else cnt j lengths)"
    unfolding below_def by (rule sum.cong) (simp_all only: lessThan_iff nth)
  then have "below counts 16 \<le> length lengths"
    using below_cnt[where n = 16 and ls = lengths] by (simp only:)
  then have bound: "below counts l + cnt l lengths \<le> length lengths" if "0 < l" "l < 16" for l
    using that below_mono[of "Suc l" 16 counts] nth[of l] by (simp add: below_Suc)
  have step: "below counts l + cnt l lengths \<le> below counts m" if "0 < l" "l < m" "m < 16" for l m
    using that below_mono[of "Suc l" m counts] nth[of l] by (simp add: below_Suc)
  have off: "offsets_from 0 counts ! l = below counts l" if "l < 16" for l
    using offsets_from_nth[of l counts 0] that len by simp
  have "regions_ok lengths (offsets_from 0 counts) (length (replicate (length lengths) (0 :: nat)))"
    unfolding regions_ok_def using bound step by (simp add: off)
  then obtain syms where "place_symbols 0 lengths (offsets_from 0 counts) (replicate (length lengths) 0) = Inr syms"
    "length syms = length lengths"
    "\<forall>l<16. 0 < l \<longrightarrow> (\<forall>k<cnt l lengths. syms ! (offsets_from 0 counts ! l + k) = of_length l 0 lengths ! k)"
    using place_symbols_ok[OF assms, of "offsets_from 0 counts" "replicate (length lengths) 0" 0] len by auto
  then have "huffman_new lengths = Inr \<lparr> h_counts = counts, h_symbols = syms \<rparr>"
    "table_of lengths \<lparr> h_counts = counts, h_symbols = syms \<rparr>"
    by (simp_all add: huffman_new_def c counts table_of_def len nth off)
  then show thesis
    by (rule that)
qed

lemma table_below:
  assumes "table_of lengths h" "l \<le> 16"
  shows "below (h_counts h) l \<le> length (h_symbols h)"
proof -
  have "h_counts h ! j = (if j = 0 then 0 else cnt j lengths)" if "j < 16" for j
    using assms(1) that by (simp add: table_of_def)
  then have "below (h_counts h) 16 = (\<Sum>j<16. if j = 0 then 0 else cnt j lengths)"
    unfolding below_def by (intro sum.cong) simp_all
  then have "below (h_counts h) 16 \<le> length lengths"
    using below_cnt[where n = 16 and ls = lengths] by (simp only:)
  then show ?thesis
    using below_mono[OF assms(2), of "h_counts h"] assms(1) by (simp add: table_of_def)
qed

subsection \<open>No index out of range\<close>

definition safe :: "'a res \<Rightarrow> bool" where
  "safe r \<longleftrightarrow> r \<noteq> Inl Panic"

lemma safe_simps [simp]: "safe (Inr x)" "safe (Inl (Err e))"
  by (simp_all add: safe_def)

lemma safe_rbind: "safe m \<Longrightarrow> (\<And>x. m = Inr x \<Longrightarrow> safe (k x)) \<Longrightarrow> safe (rbind m k)"
  by (cases m) (auto simp: safe_def)

lemma safe_bit [simp]: "safe (bit bs pos)"
  by (simp add: bit_def)

lemma safe_bits_from: "safe (bits_from bs count index acc pos)"
proof (induction bs count index acc pos rule: bits_from.induct)
  case (1 bs count index acc pos)
  then show ?case
    by (subst bits_from.simps) (auto intro!: safe_rbind)
qed

lemma safe_bits [simp]: "safe (bits bs count pos)"
  by (simp add: bits_def safe_bits_from)

lemma or_bit: "even code \<Longrightarrow> b < 2 \<Longrightarrow> code OR int b = code + int b"
  by (auto simp: less_2_cases_iff or_one_eq)

lemma safe_decode_from:
  assumes "table_of lengths h" "1 \<le> len" "even code" "first \<le> code" "index = int (below (h_counts h) len)"
  shows "safe (decode_from h bs len code first index pos)"
  using assms
proof (induction h bs len code first index pos rule: decode_from.induct)
  case (1 h bs len code first index pos)
  show ?case
  proof (cases "len < 16")
    case True
    have "safe (panics (length (h_counts h) \<le> len)
            (let code1 = code OR int b; count = int (h_counts h ! len)
             in if code1 - first < count
                then panics (index + (code1 - first) < 0 \<or> int (length (h_symbols h)) \<le> index + (code1 - first))
                       (Inr (h_symbols h ! nat (index + (code1 - first)), pos1))
                else decode_from h bs (Suc len) (push_bit 1 code1) (push_bit 1 (first + count)) (index + count) pos1))"
      if b: "bit bs pos = Inr (b, pos1)" for b pos1
    proof -
      let ?code1 = "code OR int b" and ?count = "int (h_counts h ! len)"
      have code1: "?code1 = code + int b"
        using or_bit[OF "1.prems"(3)] bit_Inr[OF b] by simp
      have len: "length (h_counts h) = 16"
        using "1.prems"(1) by (simp add: table_of_def)
      show ?thesis
      proof (cases "?code1 - first < ?count")
        case less: True
        have "below (h_counts h) (Suc len) \<le> length (h_symbols h)"
          using table_below[OF "1.prems"(1), of "Suc len"] True by simp
        then have "\<not> (index + (?code1 - first) < 0 \<or> int (length (h_symbols h)) \<le> index + (?code1 - first))"
          using less "1.prems"(4,5) code1 by (simp add: below_Suc)
        with less len True show ?thesis
          by (simp add: Let_def panics_def)
      next
        case False
        have "safe (decode_from h bs (Suc len) (push_bit 1 ?code1) (push_bit 1 (first + ?count)) (index + ?count) pos1)"
          using "1.prems" False True
          by (intro "1.IH"[OF True b refl]) (auto simp: len push_bit_eq_mult below_Suc)
        with False len True show ?thesis
          by (simp add: Let_def)
      qed
    qed
    then show ?thesis
      using True by (subst decode_from.simps) (auto intro!: safe_rbind)
  next
    case False
    then show ?thesis
      by (subst decode_from.simps) simp
  qed
qed

lemma safe_decode_symbol: "table_of lengths h \<Longrightarrow> safe (decode_symbol h bs pos)"
  unfolding decode_symbol_def
  by (rule safe_decode_from) (auto simp: below_def table_of_def)

lemma safe_copy_back: "i < length out \<Longrightarrow> safe (copy_back k i out)"
  by (induction k arbitrary: i out) (auto simp: at_index_def)

lemma table_lengths:
  "length LENGTH_BASE = 29" "length LENGTH_EXTRA = 29" "length DISTANCE_BASE = 30" "length DISTANCE_EXTRA = 30"
  by (simp_all add: LENGTH_BASE_def LENGTH_EXTRA_def DISTANCE_BASE_def DISTANCE_EXTRA_def)

lemma distance_pos: "d < 30 \<Longrightarrow> 0 < DISTANCE_BASE ! d"
proof -
  assume "d < 30"
  then have "DISTANCE_BASE ! d \<in> set DISTANCE_BASE"
    by (simp add: table_lengths)
  then show ?thesis
    by (auto simp: DISTANCE_BASE_def)
qed

lemma safe_back_reference:
  assumes "table_of ds distances" "index < 29"
  shows "safe (back_reference distances bs index out pos)"
  unfolding back_reference_def
proof (intro safe_rbind, goal_cases)
  case 1
  then show ?case
    using assms(2) by (simp add: at_index_def table_lengths)
next
  case (2 base)
  then show ?case
    using assms(2) by (simp add: at_index_def table_lengths)
next
  case (3 base extra)
  then show ?case
    by simp
next
  case (4 base extra np)
  have "safe (rbind (at_index DISTANCE_BASE d) (\<lambda>dbase. rbind (at_index DISTANCE_EXTRA d) (\<lambda>dextra.
         rbind (bits bs dextra pos2) (\<lambda>(m, pos3).
           if dbase + m > length out then Inl (Err ''back-reference before the start of the stream'')
           else rbind (copy_back (base + n) (length out - (dbase + m)) out) (\<lambda>out1. Inr (out1, pos3))))))"
    if "d < 30" for d n pos2
    using that distance_pos[OF that]
    by (auto simp: at_index_def table_lengths split: prod.splits intro!: safe_rbind safe_copy_back)
  then show ?case
    by (auto simp: table_lengths not_le split: prod.splits intro!: safe_rbind safe_decode_symbol[OF assms(1)])
qed

lemma safe_block:
  assumes "table_of ls literals" "table_of ds distances"
  shows "safe (block bs literals distances max_output out pos)"
  using assms
proof (induction bs literals distances max_output out pos rule: block.induct)
  case (1 bs literals distances max_output out pos)
  then show ?case
    by (subst block.simps)
      (auto intro!: safe_rbind safe_decode_symbol safe_back_reference split: prod.splits)
qed

lemma bits_from_bound:
  "bits_from bs count index acc pos = Inr (v, pos') \<Longrightarrow> acc < 2 ^ index \<Longrightarrow> index \<le> count \<Longrightarrow> v < 2 ^ count"
proof (induction bs count index acc pos rule: bits_from.induct)
  case (1 bs count index acc pos)
  show ?case
  proof (cases "index < count")
    case True
    with 1(2) obtain b where b: "bit bs pos = Inr (b, Suc pos)" "b < 2"
      and r: "bits_from bs count (Suc index) (acc OR push_bit index b) (Suc pos) = Inr (v, pos')"
      by (subst (asm) bits_from.simps) (auto simp: result_simps dest: bit_Inr)
    have "acc < 2 ^ Suc index"
      using 1(3) by simp
    moreover have "push_bit index b < 2 ^ Suc index"
      using b(2) by (simp add: push_bit_eq_mult mult.commute)
    ultimately have "take_bit (Suc index) (acc OR push_bit index b) = acc OR push_bit index b"
      unfolding take_bit_or by (metis take_bit_nat_eq_self)
    then have "acc OR push_bit index b < 2 ^ Suc index"
      by (metis take_bit_nat_less_exp)
    then show ?thesis
      using 1(1)[OF True b(1) refl r] True by simp
  next
    case False
    with 1(2,3,4) show ?thesis
      by (subst (asm) bits_from.simps) auto
  qed
qed

lemma bits_bound: "bits bs count pos = Inr (v, pos') \<Longrightarrow> v < 2 ^ count"
  unfolding bits_def by (drule bits_from_bound) simp_all

lemma safe_read_code_lengths:
  "list_all (\<lambda>i. i < length lengths) order \<Longrightarrow> safe (read_code_lengths bs order lengths pos)"
  by (induction order arbitrary: lengths pos) (auto intro!: safe_rbind simp: panics_def split: prod.splits)

lemma read_code_lengths_ok:
  "read_code_lengths bs order lengths pos = Inr (ls, pos') \<Longrightarrow> list_all (\<lambda>x. x < 16) lengths \<Longrightarrow> list_all (\<lambda>x. x < 16) ls"
proof (induction order arbitrary: lengths pos)
  case (Cons i order)
  then obtain v pos1 where v: "bits bs 3 pos = Inr (v, pos1)"
    "read_code_lengths bs order (lengths[i := v]) pos1 = Inr (ls, pos')"
    by (auto simp: result_simps)
  moreover have "list_all (\<lambda>x. x < 16) (lengths[i := v])"
    using Cons.prems(2) bits_bound[OF v(1)] by (auto simp: list_all_iff dest!: set_update_subset_insert[THEN subsetD])
  ultimately show ?case
    using Cons.IH by blast
qed simp

lemma repeat_length_ok:
  "repeat_length k v index lengths = Inr (ls, i) \<Longrightarrow> list_all (\<lambda>x. x < 16) lengths \<Longrightarrow> v < 16
    \<Longrightarrow> list_all (\<lambda>x. x < 16) ls \<and> length ls = length lengths"
proof (induction k arbitrary: index lengths)
  case (Suc k)
  then have "list_all (\<lambda>x. x < 16) (lengths[index := v])"
    by (auto simp: list_all_iff dest!: set_update_subset_insert[THEN subsetD])
  with Suc show ?case
    by (fastforce split: if_splits)
qed simp

lemma safe_repeat_length [simp]: "safe (repeat_length k v index lengths)"
  by (induction k arbitrary: index lengths) auto

lemma list_all_nth_less: "list_all (\<lambda>x. x < (16 :: nat)) xs \<Longrightarrow> i < length xs \<Longrightarrow> xs ! i < 16"
  by (simp add: list_all_length)

lemma list_all_update: "list_all P xs \<Longrightarrow> P v \<Longrightarrow> list_all P (xs[i := v])"
  by (auto simp: list_all_iff dest!: set_update_subset_insert[THEN subsetD])

lemma read_lengths_ok:
  assumes "table_of cl h" "list_all (\<lambda>x. x < 16) lengths"
  shows "safe (read_lengths bs h lengths index pos)
    \<and> (\<forall>ls i pos'. read_lengths bs h lengths index pos = Inr (ls, i, pos')
          \<longrightarrow> list_all (\<lambda>x. x < 16) ls \<and> length ls = length lengths)"
  using assms
proof (induction bs h lengths index pos rule: read_lengths.induct)
  case (1 bs h lengths index pos)
  show ?case
  proof (cases "index < length lengths")
    case False
    with "1.prems" show ?thesis
      by (subst (1 2) read_lengths.simps) simp
  next
    case True
    show ?thesis
    proof (cases "decode_symbol h bs pos")
      case (Inl e)
      with safe_decode_symbol[OF "1.prems"(1), of bs pos] True show ?thesis
        by (subst (1 2) read_lengths.simps) (simp add: safe_def)
    next
      case (Inr sp)
      then obtain s pos1 where s: "decode_symbol h bs pos = Inr (s, pos1)"
        by (cases sp) auto
      note unfolded = read_lengths.simps[of bs h lengths index pos] s rbind_simps prod.case
      consider "s \<le> 15" | "s = 16" | "s = 17" | "s = 18" | "18 < s"
        by linarith
      then show ?thesis
      proof cases
        case 1
        then show ?thesis
          using "1.IH"(1)[OF True s refl 1 _ "1.prems"(1)] list_all_update[OF "1.prems"(2), of s index] True
          unfolding unfolded by simp
      next
        case 2
        have prev: "at_index lengths (index - 1) = Inr (lengths ! (index - 1))"
          using True by (intro at_index_in) linarith
        have "safe (read_lengths bs h ls1 i1 pos2)
            \<and> (\<forall>ls i pos'. read_lengths bs h ls1 i1 pos2 = Inr (ls, i, pos') \<longrightarrow> list_all (\<lambda>x. x < 16) ls \<and> length ls = length lengths)"
          if n: "index \<noteq> 0" "bits bs 2 pos1 = Inr (n, pos2)"
            "repeat_length (3 + n) (lengths ! (index - 1)) index lengths = Inr (ls1, i1)" for n pos2 ls1 i1
        proof -
          have "lengths ! (index - 1) < 16"
            using list_all_nth_less[OF "1.prems"(2), of "index - 1"] True by linarith
          then have ls1: "list_all (\<lambda>x. x < 16) ls1" "length ls1 = length lengths"
            using repeat_length_ok[OF n(3) "1.prems"(2)] by blast+
          have "\<not> s \<le> 15"
            using 2 by simp
          from "1.IH"(2)[OF True s refl this 2 n(1) prev n(2) refl n(3) refl "1.prems"(1) ls1(1)] ls1(2) show ?thesis
            by simp
        qed
        with True 2 prev show ?thesis
          unfolding unfolded by (auto intro!: safe_rbind simp: result_simps)
      next
        case 3
        have "safe (read_lengths bs h lengths (index + 3 + n) pos2)
            \<and> (\<forall>ls i pos'. read_lengths bs h lengths (index + 3 + n) pos2 = Inr (ls, i, pos') \<longrightarrow> list_all (\<lambda>x. x < 16) ls \<and> length ls = length lengths)"
          if n: "bits bs 3 pos1 = Inr (n, pos2)" for n pos2
          using "1.IH"(3)[OF True s refl _ _ 3 n refl "1.prems"] 3 by simp
        with True 3 show ?thesis
          unfolding unfolded by (auto intro!: safe_rbind simp: result_simps)
      next
        case 4
        have "safe (read_lengths bs h lengths (index + 11 + n) pos2)
            \<and> (\<forall>ls i pos'. read_lengths bs h lengths (index + 11 + n) pos2 = Inr (ls, i, pos') \<longrightarrow> list_all (\<lambda>x. x < 16) ls \<and> length ls = length lengths)"
          if n: "bits bs 7 pos1 = Inr (n, pos2)" for n pos2
          using "1.IH"(4)[OF True s refl _ _ _ 4 n refl "1.prems"] 4 by simp
        with True 4 show ?thesis
          unfolding unfolded by (auto intro!: safe_rbind simp: result_simps)
      next
        case 5
        with True show ?thesis
          unfolding unfolded by simp
      qed
    qed
  qed
qed

lemma code_order: "list_all (\<lambda>i. i < 19) CODE_ORDER"
  by (simp add: CODE_ORDER_def)

lemma safe_dynamic_body: "safe (dynamic_body bs max_output hlit hdist hclen out pos3)"
  unfolding dynamic_body_def
proof (rule safe_rbind)
  have "list_all (\<lambda>i. i < length (replicate 19 (0 :: nat))) (take hclen CODE_ORDER)"
    using code_order by (auto simp: list_all_iff dest: in_set_takeD)
  then show "safe (read_code_lengths bs (take hclen CODE_ORDER) (replicate 19 0) pos3)"
    by (rule safe_read_code_lengths)
next
  fix x
  assume x: "read_code_lengths bs (take hclen CODE_ORDER) (replicate 19 0) pos3 = Inr x"
  obtain cl pos4 where cl: "x = (cl, pos4)"
    by (cases x)
  have "list_all (\<lambda>x. x < 16) cl"
    using read_code_lengths_ok[OF x[unfolded cl]] by (simp add: list_all_iff)
  then obtain h where h: "huffman_new cl = Inr h" "table_of cl h"
    by (rule huffman_new_ok)
  have zeros: "list_all (\<lambda>x. x < 16) (replicate (hlit + hdist) (0 :: nat))"
    by (simp add: list_all_iff)
  note rl = read_lengths_ok[OF h(2) zeros, of bs 0 pos4]
  have "safe (if index > length lengths then Inl (Err ''code length overrun'')
       else panics (length lengths < hlit)
           (rbind (huffman_new (take hlit lengths)) (\<lambda>literals.
            rbind (huffman_new (drop hlit lengths)) (\<lambda>distances.
              block bs literals distances max_output out pos5))))"
    if ls: "read_lengths bs h (replicate (hlit + hdist) 0) 0 pos4 = Inr (lengths, index, pos5)" for lengths index pos5
  proof -
    have all: "list_all (\<lambda>x. x < 16) lengths" "length lengths = hlit + hdist"
      using rl ls by auto
    have "list_all (\<lambda>x. x < 16) (take hlit lengths)" "list_all (\<lambda>x. x < 16) (drop hlit lengths)"
      using all(1) by (auto simp: list_all_iff dest: in_set_takeD in_set_dropD)
    then obtain lt dt where "huffman_new (take hlit lengths) = Inr lt" "table_of (take hlit lengths) lt"
      "huffman_new (drop hlit lengths) = Inr dt" "table_of (drop hlit lengths) dt"
      by (metis huffman_new_ok)
    then show ?thesis
      using all(2) by (simp add: safe_block)
  qed
  then show "safe (case x of (code_lengths, pos4) \<Rightarrow>
     rbind (huffman_new code_lengths) (\<lambda>code_huffman.
     rbind (read_lengths bs code_huffman (replicate (hlit + hdist) 0) 0 pos4) (\<lambda>(lengths, index, pos5).
       if index > length lengths then Inl (Err ''code length overrun'')
       else
         panics (length lengths < hlit)
           (rbind (huffman_new (take hlit lengths)) (\<lambda>literals.
            rbind (huffman_new (drop hlit lengths)) (\<lambda>distances.
              block bs literals distances max_output out pos5))))))"
    unfolding cl prod.case h rbind_simps using rl by (intro safe_rbind) auto
qed

lemma safe_dynamic_block: "safe (dynamic_block bs max_output out pos)"
  unfolding dynamic_block_def by (auto intro!: safe_rbind safe_dynamic_body split: prod.splits)

lemma fixed_lengths_ok: "list_all (\<lambda>x. x < 16) fixed_lengths" "list_all (\<lambda>x. x < 16) (replicate 30 (5 :: nat))"
  by (auto simp: fixed_lengths_def list_all_iff)

lemma safe_stored_block: "safe (stored_block bs out pos)"
proof (cases "align pos div 8 + 4 > length bs")
  case False
  then show ?thesis
    by (simp add: stored_block_def Let_def safe_def)
qed (simp add: stored_block_def Let_def)

lemma safe_any_block: "safe (any_block bs max_output kind out pos)"
proof -
  obtain lt dt where "huffman_new fixed_lengths = Inr lt" "table_of fixed_lengths lt"
    "huffman_new (replicate 30 5) = Inr dt" "table_of (replicate 30 5) dt"
    by (metis huffman_new_ok fixed_lengths_ok)
  then have "safe (fixed_block bs max_output out pos)"
    by (simp add: fixed_block_def safe_block)
  then show ?thesis
    by (simp add: any_block_def safe_dynamic_block safe_stored_block)
qed

lemma safe_inflate_from: "safe (inflate_from bs max_output out pos)"
proof (induction bs max_output out pos rule: inflate_from.induct)
  case (1 bs max_output out pos)
  then show ?case
    by (subst inflate_from.simps) (auto intro!: safe_rbind safe_any_block split: prod.splits)
qed

subsection \<open>How much it can produce\<close>

lemma block_bound: "block bs literals distances max_output out pos = Inr (out1, pos') \<Longrightarrow> length out1 \<le> max_output"
proof (induction bs literals distances max_output out pos rule: block.induct)
  case (1 bs literals distances max_output out pos)
  from 1(3) have small: "\<not> length out > max_output"
    by (subst (asm) block.simps) (auto split: if_splits)
  with 1(3) obtain s pos1 where s: "decode_symbol literals bs pos = Inr (s, pos1)"
    by (subst (asm) block.simps) (auto simp: result_simps)
  note unfolded = "1.prems"[unfolded block.simps[of bs literals distances max_output out pos] s rbind_simps prod.case]
  consider "s \<le> 255" | "s = 256" | "257 \<le> s" "s \<le> 285" | "285 < s"
    by linarith
  then show ?case
  proof cases
    case 1
    with unfolded small "1.IH"(1)[OF small s refl 1] show ?thesis
      by simp
  next
    case 2
    with unfolded small show ?thesis
      by simp
  next
    case 3
    with unfolded small obtain out2 pos2 where r: "back_reference distances bs (s - 257) out pos1 = Inr (out2, pos2)"
      and "block bs literals distances max_output out2 pos2 = Inr (out1, pos')"
      by (auto simp: result_simps)
    with "1.IH"(2)[OF small s refl _ _ _ r refl] 3 show ?thesis
      by auto
  next
    case 4
    with unfolded small show ?thesis
      by simp
  qed
qed

lemma stored_block_bound:
  assumes "stored_block bs out pos = Inr (out1, pos')"
  shows "8 * length out1 + pos \<le> 8 * length out + pos'"
proof -
  obtain n ys where "out1 = out @ take n ys" "pos' = (align pos div 8 + 4 + n) * 8"
    using assms by (auto simp: stored_block_def Let_def result_simps split: if_splits)
  moreover have "length (take n ys) \<le> n"
    by simp
  ultimately show ?thesis
    using align_bounds[of pos] by (simp del: length_take)
qed

lemma any_block_bound:
  assumes "any_block bs max_output kind out pos = Inr (out1, pos')" "pos \<le> 8 * length bs"
    and "8 * length out \<le> 8 * max_output + pos"
  shows "8 * length out1 \<le> 8 * max_output + pos'"
proof (cases "kind = 0")
  case True
  with assms show ?thesis
    using stored_block_bound[of bs out pos out1 pos'] by (simp add: any_block_def)
next
  case False
  then have "length out1 \<le> max_output"
    using assms(1)
    by (auto simp: any_block_def fixed_block_def dynamic_block_def dynamic_body_def result_simps split: if_splits dest: block_bound)
  then show ?thesis
    by simp
qed

lemma inflate_from_bound:
  "inflate_from bs max_output out pos = Inr out1 \<Longrightarrow> 8 * length out \<le> 8 * max_output + pos
    \<Longrightarrow> length out1 \<le> max_output + length bs"
proof (induction bs max_output out pos rule: inflate_from.induct)
  case (1 bs max_output out pos)
  from 1(2) obtain f pos1 k pos2 out2 pos3 where
    r: "bit bs pos = Inr (f, pos1)" "bits bs 2 pos1 = Inr (k, pos2)"
      "any_block bs max_output k out pos2 = Inr (out2, pos3)"
    and e: "(if f = 1 then Inr out2 else inflate_from bs max_output out2 pos3) = Inr out1"
    unfolding inflate_from.simps[of bs max_output out pos] by (auto simp: result_simps)
  have p2: "pos \<le> pos2" "pos2 \<le> 8 * length bs"
    using bits_pos[OF r(2)] bit_Inr[OF r(1)] by auto
  have b: "8 * length out2 \<le> 8 * max_output + pos3" "pos3 \<le> 8 * length bs"
    using any_block_bound[OF r(3) p2(2)] any_block_pos[OF r(3) p2(2)] p2(1) 1(3) by auto
  show ?case
  proof (cases "f = 1")
    case True
    with e b show ?thesis
      by simp
  next
    case False
    with e 1(1)[OF r(1) refl r(2) refl r(3) refl False] b show ?thesis
      by simp
  qed
qed

text \<open>
  C8. Whatever bytes it is given, the DEFLATE decoder ends (it is a total function), never indexes
  outside an array, and when it succeeds has produced at most the caller's limit and as many bytes
  again as it was given: a stored block is not checked against the limit, and is bounded by the
  input only.
\<close>

theorem inflate_safe_and_bounded:
  "inflate bs max_output \<noteq> Inl Panic
   \<and> (\<forall>out. inflate bs max_output = Inr out \<longrightarrow> length out \<le> max_output + length bs)"
  using safe_inflate_from[of bs max_output "[]" 0] inflate_from_bound[of bs max_output "[]" 0]
  by (auto simp: inflate_def safe_def)

theorem inflate_safe_and_bounded_witness:
  "inflate [1, 1, 0, 254, 255, 7] 0 = Inr [7] \<and> length [7 :: byte] \<le> 0 + length [1, 1, 0, 254, 255, 7 :: byte]"
proof -
  have "bits [1, 1, 0, 254, 255, 7] 2 1 = Inr (0, 3)"
    by (simp add: bits_def bits_from.simps[of _ 2 0] bits_from.simps[of _ 2 "Suc 0"] bits_from.simps[of _ 2 2]
        bits_from.simps[of _ 2 "Suc (Suc 0)"] bit_def)
  then have "inflate [1, 1, 0, 254, 255, 7] 0 = Inr [7]"
    by (simp add: inflate_def inflate_from.simps[of _ _ _ 0] bit_def any_block_def stored_block_def align_def le16_def)
  with inflate_safe_and_bounded[of "[1, 1, 0, 254, 255, 7]" 0] show ?thesis
    by blast
qed

subsection \<open>The canonical code\<close>

text \<open>
  RFC 1951, section 3.2.2: the codes of one length are consecutive numbers in the order of their
  symbols, and start at twice the number after the last shorter code. A code is sent from its
  highest bit.
\<close>

fun first_code :: "nat list \<Rightarrow> nat \<Rightarrow> nat" where
  "first_code ls 0 = 0"
| "first_code ls (Suc l) = 2 * (first_code ls l + (if l = 0 then 0 else cnt l ls))"

definition rfc_code :: "nat list \<Rightarrow> nat \<Rightarrow> nat" where
  "rfc_code ls s = first_code ls (ls ! s) + cnt (ls ! s) (take s ls)"

definition code_bits :: "nat \<Rightarrow> nat \<Rightarrow> nat list" where
  "code_bits len c = map (\<lambda>i. c div 2 ^ (len - Suc i) mod 2) [0..<len]"

definition reads :: "byte list \<Rightarrow> nat \<Rightarrow> nat list \<Rightarrow> bool" where
  "reads bs pos ds \<longleftrightarrow> (\<forall>i<length ds. bit bs (pos + i) = Inr (ds ! i, Suc (pos + i)))"

lemma first_code_ge:
  "0 < m \<Longrightarrow> m < l \<Longrightarrow> 2 ^ (l - m) * (first_code ls m + cnt m ls) \<le> first_code ls l"
proof (induction l)
  case (Suc l)
  show ?case
  proof (cases "m = l")
    case True
    with Suc.prems show ?thesis
      by simp
  next
    case False
    with Suc have "2 * (2 ^ (l - m) * (first_code ls m + cnt m ls)) \<le> 2 * first_code ls l"
      by simp
    moreover have "Suc l - m = Suc (l - m)"
      using Suc.prems by (simp add: Suc_diff_le)
    ultimately show ?thesis
      by simp
  qed
qed simp

lemma of_length_rank:
  "s < length ls \<Longrightarrow> ls ! s = l
    \<Longrightarrow> cnt l (take s ls) < cnt l ls \<and> of_length l base ls ! cnt l (take s ls) = base + s"
proof (induction ls arbitrary: base s)
  case (Cons x xs)
  then show ?case
    by (cases s) auto
qed simp

lemma half_join: "2 * int (x div 2) + int (x mod 2) = int x"
  by (simp add: zdiv_int zmod_int)

lemma decode_canonical_from:
  assumes "table_of ls h" "list_all (\<lambda>x. x < 16) ls" "s < length ls" "ls ! s = l" "0 < l"
    and c: "c = rfc_code ls s" and rd: "reads bs pos (code_bits l c)"
    and m: "1 \<le> m" "m \<le> l"
    and st: "code = int (2 * (c div 2 ^ (Suc l - m)))" "first = int (first_code ls m)"
      "index = int (below (h_counts h) m)"
  shows "decode_from h bs m code first index (pos + (m - 1)) = Inr (s, pos + l)"
  using m st
proof (induction "l - m" arbitrary: m code first index)
  case 0
  then have [simp]: "m = l"
    by simp
  have l: "l < 16"
    using list_all_nth_less[OF assms(2,3)] assms(4) by simp
  have b: "bit bs (pos + (l - 1)) = Inr (c mod 2, pos + l)"
    using rd assms(5) by (auto simp: reads_def code_bits_def dest!: spec[of _ "l - 1"])
  have code1: "code OR int (c mod 2) = int c"
    using or_bit[of code "c mod 2"] 0 half_join[of c] by (simp add: Suc_diff_le)
  have rank: "cnt l (take s ls) < cnt l ls" "of_length l 0 ls ! cnt l (take s ls) = s"
    using of_length_rank[OF assms(3,4)] by simp_all
  have tab: "length (h_counts h) = 16" "h_counts h ! l = cnt l ls"
    "h_symbols h ! (below (h_counts h) l + cnt l (take s ls)) = s"
    using assms(1) l assms(5) rank by (simp_all add: table_of_def)
  have d: "int c - first = int (cnt l (take s ls))"
    using 0 c assms(4) by (simp add: rfc_code_def)
  have "below (h_counts h) (Suc l) \<le> length (h_symbols h)"
    using table_below[OF assms(1), of "Suc l"] l by simp
  then have "below (h_counts h) l + cnt l (take s ls) < length (h_symbols h)"
    using rank(1) tab(2) by (simp add: below_Suc)
  then show ?case
    unfolding \<open>m = l\<close> decode_from.simps[of h bs l] b rbind_simps prod.case code1 Let_def d
    using l 0 tab rank(1) by (simp add: panics_def nat_add_distrib)
next
  case (Suc d)
  then have ml: "m < l"
    by simp
  have l: "m < 16"
    using list_all_nth_less[OF assms(2,3)] assms(4) ml by simp
  let ?p = "c div 2 ^ (l - m)"
  have b: "bit bs (pos + (m - 1)) = Inr (?p mod 2, pos + m)"
    using rd ml Suc.prems(1) by (auto simp: reads_def code_bits_def dest!: spec[of _ "m - 1"])
  have "c div 2 ^ (Suc l - m) = ?p div 2"
    using ml by (simp add: Suc_diff_le div_mult2_eq[symmetric] mult.commute)
  then have code1: "code OR int (?p mod 2) = int ?p"
    using or_bit[of code "?p mod 2"] Suc.prems(3) half_join[of ?p] by simp
  have "2 ^ (l - m) * (first_code ls m + cnt m ls) \<le> c"
    using first_code_ge[of m l ls] ml Suc.prems(1) c assms(4) by (simp add: rfc_code_def)
  then have ge: "first_code ls m + cnt m ls \<le> ?p"
    by (simp add: less_eq_div_iff_mult_less_eq mult.commute)
  have tab: "length (h_counts h) = 16" "h_counts h ! m = cnt m ls"
    using assms(1) l Suc.prems(1) by (simp_all add: table_of_def)
  have "decode_from h bs (Suc m) (push_bit 1 (int ?p)) (push_bit 1 (first + int (cnt m ls))) (index + int (cnt m ls))
      (pos + (Suc m - 1)) = Inr (s, pos + l)"
    using Suc.hyps(2) ml Suc.prems tab
    by (intro Suc.hyps(1)) (auto simp: push_bit_eq_mult below_Suc)
  moreover have "\<not> int ?p - first < int (cnt m ls)"
    using ge Suc.prems(4) by linarith
  ultimately show ?case
    unfolding decode_from.simps[of h bs m] b rbind_simps prod.case code1 Let_def tab
    using l by simp
qed

text \<open>
  C21. The table the decoder builds from a list of code lengths decodes the canonical code of
  RFC 1951: where the next bits are the code of a symbol, and the code fits its length, the decoder
  answers that symbol and has read exactly its bits. Building the table never fails on lengths
  below sixteen.
\<close>

theorem huffman_decodes_canonical:
  assumes "list_all (\<lambda>x. x < 16) ls" "s < length ls" "0 < ls ! s" "rfc_code ls s < 2 ^ (ls ! s)"
    and "reads bs pos (code_bits (ls ! s) (rfc_code ls s))"
  shows "\<exists>h. huffman_new ls = Inr h \<and> decode_symbol h bs pos = Inr (s, pos + ls ! s)"
proof -
  obtain h where h: "huffman_new ls = Inr h" "table_of ls h"
    by (rule huffman_new_ok[OF assms(1)])
  have "rfc_code ls s div 2 ^ (ls ! s) = 0" "below (h_counts h) 1 = 0"
    using assms(4) h(2) by (simp_all add: below_def table_of_def)
  then have "decode_from h bs 1 0 0 0 (pos + (1 - 1)) = Inr (s, pos + ls ! s)"
    using decode_canonical_from[OF h(2) assms(1,2) refl assms(3) refl assms(5), of 1 0 0 0] assms(3) by simp
  with h(1) show ?thesis
    by (simp add: decode_symbol_def)
qed

text \<open>Three symbols with the codes 0, 10 and 11; the byte starts with 1, 1 and the last symbol.\<close>

theorem huffman_decodes_canonical_witness:
  "\<exists>h. huffman_new [1, 2, 2] = Inr h \<and> decode_symbol h [3] 0 = Inr (2, 2)"
proof -
  have "bit [3] 0 = Inr (1, 1)" "bit [3] 1 = Inr (1, 2)"
    by (simp_all add: bit_def)
  moreover have "code_bits ([1, 2, 2] ! 2) (rfc_code [1, 2, 2] 2) = [1, 1]"
    by code_simp
  ultimately have "reads [3] 0 (code_bits ([1, 2, 2] ! 2) (rfc_code [1, 2, 2] 2))"
    by (simp add: reads_def less_Suc_eq numeral_2_eq_2)
  moreover have "rfc_code [1, 2, 2] 2 < 2 ^ ([1, 2, 2] ! 2)"
    by (simp add: rfc_code_def numeral_2_eq_2)
  ultimately show ?thesis
    using huffman_decodes_canonical[of "[1, 2, 2]" 2 "[3]" 0] by (simp add: numeral_2_eq_2)
qed

end
