(* ===== verification/Media.thy ===== *)
theory Media
  imports Inflate Frame
begin

text \<open>
  The image half of the confined decoder: module \<open>png\<close> of
  \<open>crates/ai-daemon-decode/src/main.rs\<close>. Sizes are 64-bit and wrap as in a release build. The
  indexing of the row loops is checked and gives \<open>Panic\<close> out of range; the slices of chunks and of
  the header, each right after a check of the length, are \<open>take\<close> and \<open>drop\<close>. The theorems: a PNG with any choice of row filters decodes to its pixels,
  and a decoded image has exactly the size its header gives, within the caller's limit.
\<close>

subsection \<open>Headers\<close>

record png_header =
  ph_width :: nat
  ph_height :: nat
  ph_colour :: byte

record decoded =
  dc_w :: "nat option"
  dc_h :: "nat option"
  dc_fmt :: "string option"
  dc_rate :: "nat option"
  dc_data :: "byte list"

definition be32 :: "byte list \<Rightarrow> nat res" where
  "be32 bs = (if length bs < 4 then Inl (Err ''truncated integer'') else Inr (from_be_bytes (take 4 bs)))"

definition header_parse :: "byte list \<Rightarrow> png_header res" where
  "header_parse bs =
     (if length bs < 13 then Inl (Err ''short IHDR'')
      else
        rbind (be32 bs) (\<lambda>width.
        rbind (be32 (drop 4 bs)) (\<lambda>height.
          let depth = bs ! 8; colour = bs ! 9; interlace = bs ! 12 in
          if width = 0 \<or> height = 0 then Inl (Err ''zero-sized image'')
          else if depth \<noteq> 8 then Inl (Err (''only 8-bit PNG is accepted, got '' @ show_nat (unat depth) @ ''-bit''))
          else if interlace \<noteq> 0 then Inl (Err ''interlaced PNG is not accepted'')
          else if colour \<noteq> 2 \<and> colour \<noteq> 6 then Inl (Err ''only truecolour PNG (with or without alpha) is accepted'')
          else Inr \<lparr> ph_width = width, ph_height = height, ph_colour = colour \<rparr>)))"

definition channels :: "png_header \<Rightarrow> nat" where
  "channels h = (if ph_colour h = 6 then 4 else 3)"

subsection \<open>Row filters\<close>

definition paeth :: "byte \<Rightarrow> byte \<Rightarrow> byte \<Rightarrow> byte" where
  "paeth a b c =
     (let p = uint a + uint b - uint c; pa = \<bar>p - uint a\<bar>; pb = \<bar>p - uint b\<bar>; pc = \<bar>p - uint c\<bar>
      in if pa \<le> pb \<and> pa \<le> pc then a else if pb \<le> pc then b else c)"

definition unfilter_byte :: "byte \<Rightarrow> byte \<Rightarrow> byte \<Rightarrow> byte \<Rightarrow> byte \<Rightarrow> byte res" where
  "unfilter_byte filt x a b c =
     (if filt = 0 then Inr x
      else if filt = 1 then Inr (x + a)
      else if filt = 2 then Inr (x + b)
      else if filt = 3 then Inr (x + of_nat ((unat a + unat b) div 2))
      else if filt = 4 then Inr (x + paeth a b c)
      else Inl (Err (''unknown row filter '' @ show_nat (unat filt))))"

text \<open>The bytes of one row, from the \<open>length cur\<close>-th on.\<close>

fun unfilter_row :: "byte \<Rightarrow> nat \<Rightarrow> byte list option \<Rightarrow> byte list \<Rightarrow> byte list \<Rightarrow> byte list res" where
  "unfilter_row filt ch prev [] cur = Inr cur"
| "unfilter_row filt ch prev (x # xs) cur =
     (let i = length cur in
      rbind (if ch \<le> i then at_index cur (i - ch) else Inr 0) (\<lambda>a.
      rbind (case prev of Some p \<Rightarrow> at_index p i | None \<Rightarrow> Inr 0) (\<lambda>b.
      rbind (if ch \<le> i then (case prev of Some p \<Rightarrow> at_index p (i - ch) | None \<Rightarrow> Inr 0) else Inr 0) (\<lambda>c.
      rbind (unfilter_byte filt x a b c) (\<lambda>v.
        unfilter_row filt ch prev xs (cur @ [v]))))))"

text \<open>
  The output vector of \<open>room\<close> bytes is filled row by row; \<open>out\<close> holds the rows done. A slice
  outside the input or the output panics.
\<close>

function unfilter_rows :: "byte list \<Rightarrow> nat \<Rightarrow> nat \<Rightarrow> nat \<Rightarrow> nat \<Rightarrow> nat \<Rightarrow> byte list \<Rightarrow> byte list res" where
  "unfilter_rows raw stride ch height room row out =
     (if row < height
      then
        (let o0 = u64_mul row (stride + 1) in
         rbind (at_index raw o0) (\<lambda>filt.
         panics (length raw < o0 + 1 + stride)
           (panics (room < row * stride \<or> room - row * stride < stride)
              (rbind (unfilter_row filt ch (if row = 0 then None else Some (drop ((row - 1) * stride) out))
                        (take stride (drop (o0 + 1) raw)) []) (\<lambda>cur.
                 unfilter_rows raw stride ch height room (Suc row) (out @ cur))))))
      else Inr out)"
  by pat_completeness auto
termination
  by (relation "measure (\<lambda>(raw, stride, ch, height, room, row, out). height - row)") auto

declare unfilter_rows.simps [simp del]

definition unfilter :: "byte list \<Rightarrow> png_header \<Rightarrow> nat \<Rightarrow> byte list res" where
  "unfilter raw h ch =
     (let stride = ph_width h * ch; expected = u64_mul (stride + 1) (ph_height h);
          room = u64_mul stride (ph_height h)
      in if length raw < expected
         then Inl (Err (''expected '' @ show_nat expected @ '' filtered bytes, got '' @ show_nat (length raw)))
         else if 2 ^ 63 \<le> room then Inl Panic
         else unfilter_rows raw stride ch (ph_height h) room 0 [])"

subsection \<open>Chunks\<close>

definition PNG_MAGIC :: "byte list" where
  "PNG_MAGIC = [0x89, 80, 78, 71, 0x0d, 0x0a, 0x1a, 0x0a]"

definition IHDR :: "byte list" where "IHDR = [73, 72, 68, 82]"
definition IDAT :: "byte list" where "IDAT = [73, 68, 65, 84]"
definition IEND :: "byte list" where "IEND = [73, 69, 78, 68]"

function png_chunks :: "byte list \<Rightarrow> nat \<Rightarrow> png_header option \<Rightarrow> byte list \<Rightarrow> (png_header option \<times> byte list) res" where
  "png_chunks bs offset header idat =
     (if offset + 8 \<le> length bs
      then
        rbind (be32 (drop offset bs)) (\<lambda>len.
          let kind = take 4 (drop (offset + 4) bs); start = offset + 8; stop = start + len in
          if stop + 4 > length bs then Inl (Err ''truncated chunk'')
          else if kind = IHDR then
            rbind (header_parse (take len (drop start bs))) (\<lambda>h. png_chunks bs (stop + 4) (Some h) idat)
          else if kind = IDAT then png_chunks bs (stop + 4) header (idat @ take len (drop start bs))
          else if kind = IEND then Inr (header, idat)
          else png_chunks bs (stop + 4) header idat)
      else Inr (header, idat))"
  by pat_completeness auto
termination
  by (relation "measure (\<lambda>(bs, offset, header, idat). length bs - offset)") auto

declare png_chunks.simps [simp del]

definition png_decode :: "byte list \<Rightarrow> nat \<Rightarrow> decoded res" where
  "png_decode bs max_output =
     (if length bs < 8 \<or> take 8 bs \<noteq> PNG_MAGIC then Inl (Err ''not a PNG'')
      else
        rbind (png_chunks bs 8 None []) (\<lambda>(header, idat).
        rbind (ok_or header (Err ''no IHDR'')) (\<lambda>h.
          let ch = channels h; pixels = ph_width h * ph_height h; output_len = u64_mul pixels ch in
          if output_len > max_output then Inl (Err (''decoded size '' @ show_nat output_len @ '' exceeds the caller's limit''))
          else
            rbind (zlib idat (u64_add output_len (ph_height h * 2))) (\<lambda>raw.
            rbind (unfilter raw h ch) (\<lambda>dat.
              Inr \<lparr> dc_w = Some (ph_width h), dc_h = Some (ph_height h),
                    dc_fmt = Some (if ch = 4 then ''rgba8'' else ''rgb8''), dc_rate = None, dc_data = dat \<rparr>)))))"

subsection \<open>The size of a decoded image\<close>

lemma unfilter_row_length:
  "unfilter_row filt ch prev src cur = Inr row \<Longrightarrow> length row = length cur + length src"
  by (induction src arbitrary: cur) (fastforce simp: result_simps Let_def)+

lemma unfilter_rows_length:
  "unfilter_rows raw stride ch height room row out = Inr dat \<Longrightarrow> length out = row * stride \<Longrightarrow> row \<le> height
    \<Longrightarrow> row * stride \<le> room
    \<Longrightarrow> length dat = height * stride \<and> height * stride \<le> room"
proof (induction raw stride ch height room row out rule: unfilter_rows.induct)
  case (1 raw stride ch height room row out)
  show ?case
  proof (cases "row < height")
    case True
    let ?o = "u64_mul row (stride + 1)"
    from 1(2) True obtain filt cur where r:
      "at_index raw ?o = Inr filt" "\<not> length raw < ?o + 1 + stride" "\<not> (room < row * stride \<or> room - row * stride < stride)"
      "unfilter_row filt ch (if row = 0 then None else Some (drop ((row - 1) * stride) out)) (take stride (drop (?o + 1) raw)) [] = Inr cur"
      "unfilter_rows raw stride ch height room (Suc row) (out @ cur) = Inr dat"
      unfolding unfilter_rows.simps[of raw stride ch height room row out] by (auto simp: result_simps Let_def)
    have "length cur = stride"
      using unfilter_row_length[OF r(4)] r(2) by simp
    moreover have "Suc row * stride \<le> room"
      unfolding mult_Suc using r(3) by arith
    ultimately show ?thesis
      using 1(1)[OF True refl r(1-3) r(4) r(5)] 1(3) True by simp
  next
    case False
    with 1(2-5) show ?thesis
      unfolding unfilter_rows.simps[of raw stride ch height room row out] by auto
  qed
qed

lemma unfilter_length:
  assumes "unfilter raw h ch = Inr dat"
  shows "length dat = ph_width h * ph_height h * ch \<and> ph_width h * ph_height h * ch < U64"
proof -
  let ?stride = "ph_width h * ch"
  have "unfilter_rows raw ?stride ch (ph_height h) (u64_mul ?stride (ph_height h)) 0 [] = Inr dat"
    using assms by (auto simp: unfilter_def Let_def split: if_splits)
  then have "length dat = ph_height h * ?stride" "ph_height h * ?stride \<le> u64_mul ?stride (ph_height h)"
    using unfilter_rows_length by fastforce+
  then show ?thesis
    using u64_mul_bound[of ?stride "ph_height h"] by (simp add: mult_ac)
qed

definition header_ok :: "png_header \<Rightarrow> bool" where
  "header_ok h \<longleftrightarrow> 0 < ph_width h \<and> 0 < ph_height h \<and> ph_width h < U32 \<and> ph_height h < U32
     \<and> (ph_colour h = 2 \<or> ph_colour h = 6)"

lemma be32_bound: "be32 bs = Inr n \<Longrightarrow> n < U32"
proof -
  assume "be32 bs = Inr n"
  then have n: "n = unat (take 4 bs ! 0) * 16777216 + unat (take 4 bs ! 1) * 65536 + unat (take 4 bs ! 2) * 256 + unat (take 4 bs ! 3)"
    by (auto simp: be32_def from_be_bytes_def split: if_splits)
  have "unat (x :: byte) \<le> 255" for x
    using unsigned_less[where 'a = nat, of x] by simp
  from this[of "take 4 bs ! 0"] this[of "take 4 bs ! 1"] this[of "take 4 bs ! 2"] this[of "take 4 bs ! 3"] show ?thesis
    unfolding n by linarith
qed

lemma header_parse_ok: "header_parse bs = Inr h \<Longrightarrow> header_ok h"
  by (auto simp: header_parse_def header_ok_def result_simps Let_def split: if_splits dest: be32_bound)

lemma png_chunks_header:
  "png_chunks bs offset header idat = Inr (Some h, dat) \<Longrightarrow> pred_option header_ok header \<Longrightarrow> header_ok h"
proof (induction bs offset header idat rule: png_chunks.induct)
  case (1 bs offset header idat)
  show ?case
  proof (cases "offset + 8 \<le> length bs")
    case False
    with 1(4,5) show ?thesis
      unfolding png_chunks.simps[of bs offset] by auto
  next
    case True
    with 1(4) obtain len where len: "be32 (drop offset bs) = Inr len" "\<not> offset + 8 + len + 4 > length bs"
      unfolding png_chunks.simps[of bs offset] by (auto simp: result_simps Let_def split: if_splits)
    let ?kind = "take 4 (drop (offset + 4) bs)"
    consider "?kind = IHDR" | "?kind \<noteq> IHDR" "?kind = IDAT" | "?kind \<noteq> IHDR" "?kind \<noteq> IDAT" "?kind = IEND"
      | "?kind \<noteq> IHDR" "?kind \<noteq> IDAT" "?kind \<noteq> IEND"
      by blast
    then show ?thesis
    proof cases
      case 1
      with "1.prems"(1) True len obtain g where
        g: "header_parse (take len (drop (offset + 8) bs)) = Inr g"
          "png_chunks bs (offset + 8 + len + 4) (Some g) idat = Inr (Some h, dat)"
        unfolding png_chunks.simps[of bs offset] by (auto simp: result_simps Let_def)
      with "1.IH"(1)[OF True len(1) refl refl refl len(2) 1 g(1,2)] header_parse_ok[OF g(1)] show ?thesis
        by simp
    next
      case 2
      with "1.prems" True len "1.IH"(2)[OF True len(1) refl refl refl len(2) 2] show ?thesis
        unfolding png_chunks.simps[of bs offset] by (simp add: Let_def)
    next
      case 3
      with "1.prems" True len show ?thesis
        unfolding png_chunks.simps[of bs offset] by (simp add: Let_def)
    next
      case 4
      with "1.prems" True len "1.IH"(3)[OF True len(1) refl refl refl len(2) 4] show ?thesis
        unfolding png_chunks.simps[of bs offset] by (simp add: Let_def)
    qed
  qed
qed

subsection \<open>Reading back what an encoder writes\<close>

text \<open>
  The encoder side, as the PNG specification gives it: a row is sent as the differences from the
  prediction of its filter, the rows in stored DEFLATE blocks, in a zlib stream, in chunks.
\<close>

text \<open>
  The prediction of filter 4 in the words of the specification: of the left, the upper and the
  upper left neighbour, the one nearest to \<open>left + upper - upper left\<close>; of equally near ones the
  first in that order.
\<close>

definition nearest_neighbour :: "byte \<Rightarrow> byte \<Rightarrow> byte \<Rightarrow> byte" where
  "nearest_neighbour left upper corner =
     (let away = (\<lambda>x. \<bar>uint x - (uint left + uint upper - uint corner)\<bar>)
      in hd (filter (\<lambda>x. list_all (\<lambda>y. away x \<le> away y) [left, upper, corner]) [left, upper, corner]))"

definition predictor :: "byte \<Rightarrow> byte \<Rightarrow> byte \<Rightarrow> byte \<Rightarrow> byte" where
  "predictor filt a b c =
     (if filt = 0 then 0 else if filt = 1 then a else if filt = 2 then b
      else if filt = 3 then of_nat ((unat a + unat b) div 2) else nearest_neighbour a b c)"

lemma paeth_is_nearest: "paeth a b c = nearest_neighbour a b c"
  unfolding paeth_def nearest_neighbour_def Let_def by (auto simp: abs_minus_commute)

definition left_of :: "nat \<Rightarrow> byte list \<Rightarrow> nat \<Rightarrow> byte" where
  "left_of ch row i = (if ch \<le> i then row ! (i - ch) else 0)"

definition filter_row :: "byte \<Rightarrow> nat \<Rightarrow> byte list option \<Rightarrow> byte list \<Rightarrow> byte list" where
  "filter_row filt ch prev row =
     map (\<lambda>i. row ! i - predictor filt (left_of ch row i)
            (case prev of Some p \<Rightarrow> p ! i | None \<Rightarrow> 0) (case prev of Some p \<Rightarrow> left_of ch p i | None \<Rightarrow> 0))
       [0..<length row]"

fun filter_rows :: "nat \<Rightarrow> byte list option \<Rightarrow> (byte \<times> byte list) list \<Rightarrow> byte list" where
  "filter_rows ch prev [] = []"
| "filter_rows ch prev ((filt, row) # rows) = filt # filter_row filt ch prev row @ filter_rows ch (Some row) rows"

lemma unfilter_predicted:
  "filt \<le> 4 \<Longrightarrow> unfilter_byte filt (x - predictor filt a b c) a b c = Inr x"
  by (auto simp: unfilter_byte_def predictor_def paeth_is_nearest word_le_nat_alt unat_arith_simps)

lemma unfilter_filter_from:
  assumes "filt \<le> 4" "0 < ch" "pred_option (\<lambda>p. length p = length row) prev" "k \<le> length row"
  shows "unfilter_row filt ch prev (drop k (filter_row filt ch prev row)) (take k row) = Inr row"
  using assms(4)
proof (induction "length row - k" arbitrary: k)
  case 0
  then show ?case
    by (simp add: filter_row_def)
next
  case (Suc n)
  then have k: "k < length row"
    by simp
  let ?a = "left_of ch row k" and ?b = "case prev of Some p \<Rightarrow> p ! k | None \<Rightarrow> 0"
    and ?c = "case prev of Some p \<Rightarrow> left_of ch p k | None \<Rightarrow> 0"
  have d: "drop k (filter_row filt ch prev row) = (row ! k - predictor filt ?a ?b ?c) # drop (Suc k) (filter_row filt ch prev row)"
    using k by (simp add: filter_row_def Cons_nth_drop_Suc[symmetric] split: option.split)
  have a: "(if ch \<le> k then at_index (take k row) (k - ch) else Inr 0) = Inr ?a"
    using k assms(2) by (simp add: at_index_def left_of_def)
  have b: "(case prev of Some p \<Rightarrow> at_index p k | None \<Rightarrow> Inr 0) = Inr ?b"
    using k assms(3) by (cases prev) (simp_all add: at_index_def)
  have c: "(if ch \<le> k then (case prev of Some p \<Rightarrow> at_index p (k - ch) | None \<Rightarrow> Inr 0) else Inr 0) = Inr ?c"
    using k assms(3) by (cases prev) (auto simp: at_index_def left_of_def)
  have "unfilter_row filt ch prev (drop k (filter_row filt ch prev row)) (take k row)
      = unfilter_row filt ch prev (drop (Suc k) (filter_row filt ch prev row)) (take (Suc k) row)"
    using k a b c by (simp add: d Let_def unfilter_predicted[OF assms(1)] take_Suc_conv_app_nth)
  also have "\<dots> = Inr row"
    using Suc by simp
  finally show ?case .
qed

lemma unfilter_filter_row:
  assumes "filt \<le> 4" "0 < ch" "pred_option (\<lambda>p. length p = length row) prev"
  shows "unfilter_row filt ch prev (filter_row filt ch prev row) [] = Inr row"
  using unfilter_filter_from[OF assms, of 0] by simp

definition row_ok :: "nat \<Rightarrow> byte \<times> byte list \<Rightarrow> bool" where
  "row_ok stride = (\<lambda>(filt, row). filt \<le> 4 \<and> length row = stride)"

lemma filter_row_length [simp]: "length (filter_row filt ch prev row) = length row"
  by (simp add: filter_row_def)

lemma unfilter_filter_rows:
  assumes "raw = pre @ filter_rows ch prev rows @ rest" "length pre = row * (stride + 1)"
    and "list_all (row_ok stride) rows" "0 < ch" "length out = row * stride"
    and "prev = (if row = 0 then None else Some (drop ((row - 1) * stride) out))"
    and "height = row + length rows" "height * stride \<le> room" "height * (stride + 1) < U64"
  shows "unfilter_rows raw stride ch height room row out = Inr (out @ concat (map snd rows))"
  using assms
proof (induction rows arbitrary: pre prev row out)
  case Nil
  then show ?case
    by (simp add: unfilter_rows.simps)
next
  case (Cons fr rows)
  obtain filt cur where fr: "fr = (filt, cur)"
    by (cases fr)
  have ok: "filt \<le> 4" "length cur = stride"
    using Cons.prems(3) by (simp_all add: row_ok_def fr)
  have row: "row < height"
    using Cons.prems(7) by simp
  have "row * (stride + 1) \<le> height * (stride + 1)"
    using row by (intro mult_le_mono1) simp
  then have o0: "u64_mul row (stride + 1) = row * (stride + 1)"
    using Cons.prems(9) by (simp add: u64_mul_def)
  have rm: "Suc row * stride \<le> room"
    using mult_le_mono1[of "Suc row" height stride] row Cons.prems(8) by simp
  have fits: "\<not> (room < row * stride \<or> room - row * stride < stride)"
    using rm by auto
  have raw: "raw = pre @ filt # filter_row filt ch prev cur @ filter_rows ch (Some cur) rows @ rest"
    using Cons.prems(1) by (simp add: fr)
  have at: "at_index raw (row * (stride + 1)) = Inr filt"
    using Cons.prems(2) by (simp add: raw at_index_def nth_append)
  have src: "take stride (drop (row * (stride + 1) + 1) raw) = filter_row filt ch prev cur"
    unfolding Cons.prems(2)[symmetric] using ok(2) by (simp add: raw)
  have long: "\<not> length raw < row * (stride + 1) + 1 + stride"
    unfolding Cons.prems(2)[symmetric] using ok(2) by (simp add: raw)
  have "pred_option (\<lambda>p. length p = length cur) prev"
    using Cons.prems(5,6) ok(2) by (cases row) simp_all
  then have un: "unfilter_row filt ch prev (filter_row filt ch prev cur) [] = Inr cur"
    by (rule unfilter_filter_row[OF ok(1) Cons.prems(4)])
  have "unfilter_rows raw stride ch height room row out = unfilter_rows raw stride ch height room (Suc row) (out @ cur)"
    unfolding unfilter_rows.simps[of raw stride ch height room row out] Let_def o0 at rbind_simps src
    using row fits long un Cons.prems(6) by (simp add: panics_def)
  also have "\<dots> = Inr ((out @ cur) @ concat (map snd rows))"
  proof (rule Cons.IH)
    show "raw = (pre @ filt # filter_row filt ch prev cur) @ filter_rows ch (Some cur) rows @ rest"
      by (simp add: raw)
    show "length (pre @ filt # filter_row filt ch prev cur) = Suc row * (stride + 1)"
      using Cons.prems(2) ok(2) by simp
    show "Some cur = (if Suc row = 0 then None else Some (drop ((Suc row - 1) * stride) (out @ cur)))"
      using Cons.prems(5) by simp
  qed (use Cons.prems ok in \<open>simp_all add: fr\<close>)
  finally show ?case
    by (simp add: fr)
qed

text \<open>Stored blocks.\<close>

definition stored_header :: "bool \<Rightarrow> nat \<Rightarrow> byte list" where
  "stored_header final n =
     [of_bool final, of_nat n, of_nat (n div 256), of_nat (65535 - n), of_nat ((65535 - n) div 256)]"

fun stored_stream :: "byte list list \<Rightarrow> byte list" where
  "stored_stream [] = []"
| "stored_stream (c # cs) = stored_header (cs = []) (length c) @ c @ stored_stream cs"

lemma le16_of_nat: "n < 65536 \<Longrightarrow> le16 (of_nat n) (of_nat (n div 256)) = n"
  by (simp add: le16_def unat_of_nat)

lemma bits_two:
  "bit bs p = Inr (0, Suc p) \<Longrightarrow> bit bs (Suc p) = Inr (0, Suc (Suc p)) \<Longrightarrow> bits bs 2 p = Inr (0, Suc (Suc p))"
  unfolding bits_def numeral_2_eq_2
  by (simp add: bits_from.simps[of bs "Suc (Suc 0)" 0] bits_from.simps[of bs "Suc (Suc 0)" "Suc 0"]
      bits_from.simps[of bs "Suc (Suc 0)" "Suc (Suc 0)"])

lemma bits_zero:
  assumes "bs ! k = of_bool final" "k < length bs"
  shows "bit bs (8 * k) = Inr (of_bool final, Suc (8 * k))" "bits bs 2 (Suc (8 * k)) = Inr (0, 8 * k + 3)"
proof -
  show "bit bs (8 * k) = Inr (of_bool final, Suc (8 * k))"
    using assms by (simp add: bit_def)
  have d: "Suc (8 * k) div 8 = k" "Suc (Suc (8 * k)) div 8 = k" "Suc (8 * k) mod 8 = 1" "Suc (Suc (8 * k)) mod 8 = 2"
    by presburger+
  have "bit bs (Suc (8 * k)) = Inr (0, Suc (Suc (8 * k)))" "bit bs (Suc (Suc (8 * k))) = Inr (0, Suc (Suc (Suc (8 * k))))"
    using assms by (cases final; simp add: bit_def d)+
  then show "bits bs 2 (Suc (8 * k)) = Inr (0, 8 * k + 3)"
    using bits_two[of bs "Suc (8 * k)"] by (simp add: numeral_3_eq_3)
qed

lemma stored_block_reads:
  assumes "k + 1 + 4 + length c \<le> length bs" "length c < 65536"
    and "drop (k + 1) bs = of_nat (length c) # of_nat (length c div 256) # of_nat (65535 - length c)
           # of_nat ((65535 - length c) div 256) # c @ rest"
  shows "stored_block bs out (8 * k + 3) = Inr (out @ c, 8 * (k + 5 + length c))"
proof -
  have start: "align (8 * k + 3) div 8 = k + 1"
    by (simp add: align_def)
  have nth: "bs ! (k + 1 + i) = drop (k + 1) bs ! i" if "i < 4" for i
    using assms(1) that by simp
  have head: "bs ! (k + 1) = of_nat (length c)" "bs ! (k + 1 + 1) = of_nat (length c div 256)"
    "bs ! (k + 1 + 2) = of_nat (65535 - length c)" "bs ! (k + 1 + 3) = of_nat ((65535 - length c) div 256)"
    using nth[of 0] nth[of 1] nth[of 2] nth[of 3] unfolding assms(3) by simp_all
  have "drop (k + 1 + 4) bs = drop 4 (drop (k + 1) bs)"
    by (simp add: add.commute)
  then have body: "take (length c) (drop (k + 1 + 4) bs) = c"
    unfolding assms(3) by simp
  have at: "at_index bs (k + 1) = Inr (of_nat (length c))" "at_index bs (k + 1 + 1) = Inr (of_nat (length c div 256))"
    "at_index bs (k + 1 + 2) = Inr (of_nat (65535 - length c))"
    "at_index bs (k + 1 + 3) = Inr (of_nat ((65535 - length c) div 256))"
    using assms(1) by (simp_all only: at_index_Inr head, simp_all)
  have "le16 (of_nat (65535 - length c)) (of_nat ((65535 - length c) div 256)) = 65535 - length c"
    by (rule le16_of_nat) simp
  then show ?thesis
    unfolding stored_block_def Let_def start at rbind_simps le16_of_nat[OF assms(2)]
    using assms(1,2) body by simp
qed

lemma inflate_stored:
  assumes "cs \<noteq> []" "list_all (\<lambda>c. length c < 65536) cs" "bs = pre @ stored_stream cs @ rest"
  shows "inflate_from bs max_output out (8 * length pre) = Inr (out @ concat cs)"
  using assms
proof (induction cs arbitrary: pre out)
  case (Cons c cs)
  let ?k = "length pre"
  have bs: "bs = pre @ stored_header (cs = []) (length c) @ c @ stored_stream cs @ rest"
    using Cons.prems(3) by simp
  have k: "bs ! ?k = of_bool (cs = [])" "?k < length bs"
    by (simp_all add: bs stored_header_def)
  have blk: "stored_block bs out (8 * ?k + 3) = Inr (out @ c, 8 * (?k + 5 + length c))"
    using Cons.prems(2) by (intro stored_block_reads) (simp_all add: bs stored_header_def)
  show ?case
  proof (cases "cs = []")
    case True
    with blk bits_zero[OF k] show ?thesis
      by (simp add: inflate_from.simps[of bs max_output out] any_block_def)
  next
    case False
    have "inflate_from bs max_output (out @ c) (8 * length (pre @ stored_header (cs = []) (length c) @ c))
        = Inr ((out @ c) @ concat cs)"
      using Cons.prems(2) False by (intro Cons.IH) (simp_all add: bs)
    moreover have "length (pre @ stored_header (cs = []) (length c) @ c) = ?k + 5 + length c"
      by (simp add: stored_header_def)
    ultimately show ?thesis
      using False blk bits_zero[OF k]
      by (simp add: inflate_from.simps[of bs max_output out "8 * ?k"] any_block_def add.assoc)
  qed
qed simp

definition zlib_stored :: "byte list list \<Rightarrow> byte list \<Rightarrow> byte list" where
  "zlib_stored cs adler = [0x78, 0x01] @ stored_stream cs @ adler"

lemma zlib_zlib_stored:
  assumes "cs \<noteq> []" "list_all (\<lambda>c. length c < 65536) cs"
  shows "zlib (zlib_stored cs adler) max_output = Inr (concat cs)"
  using inflate_stored[OF assms, of "stored_stream cs @ adler" "[]" adler max_output "[]"]
  by (simp add: zlib_def zlib_stored_def inflate_def)

text \<open>Chunks, each closed by four bytes of checksum that the decoder does not read.\<close>

definition png_chunk :: "byte list \<Rightarrow> byte list \<Rightarrow> byte list \<Rightarrow> byte list" where
  "png_chunk kind payload crc = to_be_bytes (length payload) @ kind @ payload @ crc"

definition ihdr_payload :: "nat \<Rightarrow> nat \<Rightarrow> byte \<Rightarrow> byte list" where
  "ihdr_payload w h colour = to_be_bytes w @ to_be_bytes h @ [8, colour, 0, 0, 0]"

definition png_file :: "nat \<Rightarrow> nat \<Rightarrow> byte \<Rightarrow> byte list \<Rightarrow> byte list \<Rightarrow> byte list \<Rightarrow> byte list \<Rightarrow> byte list" where
  "png_file w h colour dat c1 c2 c3 =
     PNG_MAGIC @ png_chunk IHDR (ihdr_payload w h colour) c1 @ png_chunk IDAT dat c2 @ png_chunk IEND [] c3"

lemma png_chunks_at:
  assumes bs: "bs = pre @ png_chunk kind payload crc @ rest"
    and len: "length kind = 4" "length crc = 4" "length payload < U32"
  shows "png_chunks bs (length pre) header idat =
     (if kind = IHDR then rbind (header_parse payload) (\<lambda>h. png_chunks bs (length (pre @ png_chunk kind payload crc)) (Some h) idat)
      else if kind = IDAT then png_chunks bs (length (pre @ png_chunk kind payload crc)) header (idat @ payload)
      else if kind = IEND then Inr (header, idat)
      else png_chunks bs (length (pre @ png_chunk kind payload crc)) header idat)"
proof -
  let ?k = "length pre"
  have "be32 (drop ?k bs) = Inr (length payload)"
    using from_to_be_bytes[OF len(3)] by (simp add: be32_def bs png_chunk_def)
  moreover have "take 4 (drop (?k + 4) bs) = kind"
    using len by (simp add: bs png_chunk_def)
  moreover have "take (length payload) (drop (?k + 8) bs) = payload"
    using len by (simp add: bs png_chunk_def)
  moreover have "?k + 8 \<le> length bs" "\<not> ?k + 8 + length payload + 4 > length bs"
    "length (pre @ png_chunk kind payload crc) = ?k + 8 + length payload + 4"
    using len by (simp_all add: bs png_chunk_def)
  ultimately show ?thesis
    unfolding png_chunks.simps[of bs ?k] Let_def by (simp only: rbind_simps if_True if_False)
qed

lemma header_parse_ihdr:
  assumes "0 < w" "w < U32" "0 < h" "h < U32" "colour = 2 \<or> colour = 6"
  shows "header_parse (ihdr_payload w h colour) = Inr \<lparr> ph_width = w, ph_height = h, ph_colour = colour \<rparr>"
proof -
  have "be32 (ihdr_payload w h colour) = Inr w" "be32 (drop 4 (ihdr_payload w h colour)) = Inr h"
    using from_to_be_bytes[OF assms(2)] from_to_be_bytes[OF assms(4)] by (simp_all add: be32_def ihdr_payload_def)
  moreover have "ihdr_payload w h colour ! 8 = 8" "ihdr_payload w h colour ! 9 = colour" "ihdr_payload w h colour ! 12 = 0"
    "length (ihdr_payload w h colour) = 13"
    by (simp_all add: ihdr_payload_def nth_append)
  ultimately show ?thesis
    using assms unfolding header_parse_def Let_def by auto
qed

lemma kinds_differ: "IDAT \<noteq> IHDR" "IEND \<noteq> IHDR" "IEND \<noteq> IDAT" "length IHDR = 4" "length IDAT = 4" "length IEND = 4"
  by (simp_all add: IHDR_def IDAT_def IEND_def)

lemma png_chunks_file:
  assumes "0 < w" "w < U32" "0 < h" "h < U32" "colour = 2 \<or> colour = 6"
    and crc: "length c1 = 4" "length c2 = 4" "length c3 = 4" and "length dat < U32"
  shows "png_chunks (png_file w h colour dat c1 c2 c3) 8 None []
    = Inr (Some \<lparr> ph_width = w, ph_height = h, ph_colour = colour \<rparr>, dat)"
proof -
  let ?bs = "png_file w h colour dat c1 c2 c3"
  let ?i = "png_chunk IHDR (ihdr_payload w h colour) c1" and ?d = "png_chunk IDAT dat c2" and ?e = "png_chunk IEND [] c3"
  have m: "length PNG_MAGIC = 8"
    by (simp add: PNG_MAGIC_def)
  have "length (ihdr_payload w h colour) < U32"
    by (simp add: ihdr_payload_def)
  then have "png_chunks ?bs 8 None []
      = png_chunks ?bs (length (PNG_MAGIC @ ?i)) (Some \<lparr> ph_width = w, ph_height = h, ph_colour = colour \<rparr>) []"
    using png_chunks_at[of ?bs PNG_MAGIC IHDR "ihdr_payload w h colour" c1 "?d @ ?e" None "[]"] crc(1)
      header_parse_ihdr[OF assms(1-5)]
    by (simp add: png_file_def kinds_differ m)
  also have "\<dots> = png_chunks ?bs (length (PNG_MAGIC @ ?i @ ?d)) (Some \<lparr> ph_width = w, ph_height = h, ph_colour = colour \<rparr>) dat"
    using png_chunks_at[of ?bs "PNG_MAGIC @ ?i" IDAT dat c2 ?e _ "[]"] crc(2) assms(9)
    by (simp add: png_file_def kinds_differ)
  also have "\<dots> = Inr (Some \<lparr> ph_width = w, ph_height = h, ph_colour = colour \<rparr>, dat)"
    using png_chunks_at[of ?bs "PNG_MAGIC @ ?i @ ?d" IEND "[]" c3 "[]" _ dat] crc(3)
    by (simp add: png_file_def kinds_differ)
  finally show ?thesis .
qed

lemma filter_rows_length: "list_all (row_ok stride) rows \<Longrightarrow> length (filter_rows ch prev rows) = length rows * (stride + 1)"
  by (induction rows arbitrary: prev) (auto simp: row_ok_def)

lemma decode_encoded:
  assumes dims: "0 < w" "w < U32" "rows \<noteq> []" "length rows < U32"
    and colour: "colour = 2 \<and> ch = 3 \<or> colour = 6 \<and> ch = 4"
    and rows: "list_all (row_ok (w * ch)) rows"
    and blocks: "cs \<noteq> []" "list_all (\<lambda>c. length c < 65536) cs" "concat cs = filter_rows ch None rows"
    and sizes: "length (zlib_stored cs adler) < U32" "w * length rows * ch \<le> max_output"
    and crcs: "length c1 = 4" "length c2 = 4" "length c3 = 4"
  shows "png_decode (png_file w (length rows) colour (zlib_stored cs adler) c1 c2 c3) max_output
    = Inr \<lparr> dc_w = Some w, dc_h = Some (length rows), dc_fmt = Some (if ch = 4 then ''rgba8'' else ''rgb8''),
            dc_rate = None, dc_data = concat (map snd rows) \<rparr>"
proof -
  let ?bs = "png_file w (length rows) colour (zlib_stored cs adler) c1 c2 c3"
  let ?h = "\<lparr> ph_width = w, ph_height = length rows, ph_colour = colour \<rparr>" and ?stride = "w * ch"
  have "length (concat cs) \<le> length (stored_stream cs)"
    by (induction cs) simp_all
  then have len: "length rows * (?stride + 1) < U32"
    using sizes(1) filter_rows_length[OF rows, of ch None] by (simp add: zlib_stored_def blocks(3))
  have ch: "channels ?h = ch" "0 < ch"
    using colour by (auto simp: channels_def)
  have mul: "u64_mul ?stride (length rows) = length rows * ?stride" "u64_mul (?stride + 1) (length rows) = length rows * (?stride + 1)"
    "u64_mul (w * length rows) ch = w * length rows * ch" "length rows * ?stride < 2 ^ 63"
    using len by (simp_all add: u64_mul_def algebra_simps)
  have start: "take 8 ?bs = PNG_MAGIC" "\<not> length ?bs < 8"
    by (simp_all add: png_file_def PNG_MAGIC_def)
  have chunks: "png_chunks ?bs 8 None [] = Inr (Some ?h, zlib_stored cs adler)"
    using dims colour crcs sizes(1) by (intro png_chunks_file) auto
  have "unfilter_rows (concat cs) ?stride ch (length rows) (length rows * ?stride) 0 [] = Inr ([] @ concat (map snd rows))"
    using rows ch(2) len by (intro unfilter_filter_rows[where pre = "[]" and prev = None and rest = "[]"]) (simp_all add: blocks(3))
  then have "unfilter (concat cs) ?h ch = Inr (concat (map snd rows))"
    using filter_rows_length[OF rows, of ch None] mul(4) by (simp add: unfilter_def Let_def mul(1) mul(2)[simplified] blocks(3))
  then show ?thesis
    using start chunks sizes(2) zlib_zlib_stored[OF blocks(1,2), of adler]
    by (simp add: png_decode_def ch mul(3) Let_def)
qed

text \<open>
  C22. A PNG as an encoder writes it is decoded to its pixels: any truecolour image, with or without
  alpha, any choice of the five row filters for each row, the filtered rows cut into stored blocks
  in any way, any checksums, as long as the pixels are within the caller's limit.
\<close>

theorem png_round_trip:
  assumes dims: "0 < w" "w < U32" "rows \<noteq> []" "length rows < U32"
    and colour: "colour = 2 \<and> ch = 3 \<or> colour = 6 \<and> ch = 4"
    and rows: "list_all (row_ok (w * ch)) rows"
    and blocks: "cs \<noteq> []" "list_all (\<lambda>c. length c < 65536) cs" "concat cs = filter_rows ch None rows"
    and sizes: "length (zlib_stored cs adler) < U32" "w * length rows * ch \<le> max_output"
    and crcs: "length c1 = 4" "length c2 = 4" "length c3 = 4"
  shows "png_decode (png_file w (length rows) colour (zlib_stored cs adler) c1 c2 c3) max_output
    = Inr \<lparr> dc_w = Some w, dc_h = Some (length rows), dc_fmt = Some (if ch = 4 then ''rgba8'' else ''rgb8''),
            dc_rate = None, dc_data = concat (map snd rows) \<rparr>"
  using decode_encoded[OF assms] .

text \<open>A one-pixel image, its row sent with the second filter.\<close>

definition sample_png :: "byte list" where
  "sample_png = png_file 1 1 2 (zlib_stored [[1, 10, 20, 30]] []) [0, 0, 0, 0] [0, 0, 0, 0] [0, 0, 0, 0]"

definition sample_image :: decoded where
  "sample_image = \<lparr> dc_w = Some 1, dc_h = Some 1, dc_fmt = Some ''rgb8'', dc_rate = None, dc_data = [10, 20, 30] \<rparr>"

lemma sample_filtered: "concat [[1, 10, 20, 30]] = filter_rows 3 None [(1 :: byte, [10, 20, 30])]"
  by (simp add: filter_row_def predictor_def left_of_def upt_rec)

lemma sample_decodes: "3 \<le> max_output \<Longrightarrow> png_decode sample_png max_output = Inr sample_image"
  using decode_encoded[of 1 "[(1, [10, 20, 30])]" 2 3 "[[1, 10, 20, 30]]" "[]" max_output "[0, 0, 0, 0]" "[0, 0, 0, 0]" "[0, 0, 0, 0]"]
    sample_filtered
  by (simp add: row_ok_def zlib_stored_def stored_header_def sample_png_def sample_image_def)

theorem png_round_trip_witness: "png_decode sample_png 3 = Inr sample_image"
  using png_round_trip[of 1 "[(1, [10, 20, 30])]" 2 3 "[[1, 10, 20, 30]]" "[]" 3 "[0, 0, 0, 0]" "[0, 0, 0, 0]" "[0, 0, 0, 0]"]
    sample_filtered
  by (simp add: row_ok_def zlib_stored_def stored_header_def sample_png_def sample_image_def)

lemma png_size:
  assumes "png_decode bs max_output = Inr d"
  shows "\<exists>w h ch. dc_w d = Some w \<and> dc_h d = Some h \<and> 0 < w \<and> 0 < h
    \<and> (ch = 3 \<and> dc_fmt d = Some ''rgb8'' \<or> ch = 4 \<and> dc_fmt d = Some ''rgba8'')
    \<and> length (dc_data d) = w * h * ch \<and> w * h * ch \<le> max_output"
proof -
  from assms obtain h idat raw where
    c: "png_chunks bs 8 None [] = Inr (Some h, idat)"
    and lim: "\<not> u64_mul (ph_width h * ph_height h) (channels h) > max_output"
    and u: "unfilter raw h (channels h) = Inr (dc_data d)"
    and d: "dc_w d = Some (ph_width h)" "dc_h d = Some (ph_height h)"
      "dc_fmt d = Some (if channels h = 4 then ''rgba8'' else ''rgb8'')"
    by (auto simp: png_decode_def result_simps Let_def ok_or_def split: if_splits option.splits)
  have "header_ok h"
    using png_chunks_header[OF c] by simp
  moreover have "u64_mul (ph_width h * ph_height h) (channels h) = ph_width h * ph_height h * channels h"
    using unfilter_length[OF u] by (simp add: u64_mul_def)
  ultimately show ?thesis
    using unfilter_length[OF u] lim d by (auto simp: header_ok_def channels_def)
qed

text \<open>
  A decoded image has exactly the size its header gives, width times height times channels,
  that size is within the caller's limit, and the format names the channels. This holds although
  the limit is checked on a product that wraps: an image whose size does not fit 64 bits passes the
  check and fails later.
\<close>

theorem png_size_exact:
  assumes "png_decode bs max_output = Inr d"
  shows "\<exists>w h ch. dc_w d = Some w \<and> dc_h d = Some h \<and> 0 < w \<and> 0 < h
    \<and> (ch = 3 \<and> dc_fmt d = Some ''rgb8'' \<or> ch = 4 \<and> dc_fmt d = Some ''rgba8'')
    \<and> length (dc_data d) = w * h * ch \<and> w * h * ch \<le> max_output"
  using png_size[OF assms] .

theorem png_size_exact_witness:
  "\<exists>w h ch. dc_w sample_image = Some w \<and> dc_h sample_image = Some h \<and> 0 < w \<and> 0 < h
    \<and> (ch = 3 \<and> dc_fmt sample_image = Some ''rgb8'' \<or> ch = 4 \<and> dc_fmt sample_image = Some ''rgba8'')
    \<and> length (dc_data sample_image) = w * h * ch \<and> w * h * ch \<le> 3"
  by (rule png_size_exact[OF sample_decodes]) simp

text \<open>An image of 2^31 by 2^31 pixels with alpha passes the check of the limit, whatever the limit,
  because the product of its size is zero in 64 bits; the stream is inflated with a limit of 2^32
  bytes, and at best the decoder then panics.\<close>

lemma huge_image_passes_limit:
  assumes "take 8 bs = PNG_MAGIC" "png_chunks bs 8 None [] = Inr (Some \<lparr> ph_width = 2 ^ 31, ph_height = 2 ^ 31, ph_colour = 6 \<rparr>, idat)"
  shows "png_decode bs max_output = rbind (zlib idat (2 ^ 32)) (\<lambda>raw.
     if length raw < 2 ^ 31 then Inl (Err (''expected '' @ show_nat (2 ^ 31) @ '' filtered bytes, got '' @ show_nat (length raw)))
     else Inl Panic)"
proof -
  have "\<not> length bs < 8"
    using arg_cong[OF assms(1), of length] by (simp add: PNG_MAGIC_def)
  moreover have "unfilter raw \<lparr> ph_width = 2 ^ 31, ph_height = 2 ^ 31, ph_colour = 6 \<rparr> 4
      = (if length raw < 2 ^ 31 then Inl (Err (''expected '' @ show_nat (2 ^ 31) @ '' filtered bytes, got '' @ show_nat (length raw)))
     else Inl Panic)" for raw
    by (simp add: unfilter_def Let_def u64_mul_def unfilter_rows.simps[of _ _ _ _ _ 0] at_index_def panics_def)
  ultimately show ?thesis
    using assms by (simp add: png_decode_def Let_def channels_def u64_mul_def u64_add_def rbind_def split: sum.split)
qed

end
