(* ===== verification/Decode_Proc.thy ===== *)
theory Decode_Proc
  imports Media Messages
begin

text \<open>
  The decoder process and the daemon's side of it: the seccomp filter, the WAVE reader and \<open>main\<close>
  of \<open>crates/ai-daemon-decode/src/main.rs\<close>, and \<open>crates/ai-daemon/src/decode.rs\<close>. Installing the
  filter is the kernel's and an argument, as are CBOR, the numbers of the system calls and the
  mean of 32-bit floats. Spawning the child is left out; what it writes and when, its death, the
  daemon's reading against the deadline, the kill and the wait are modelled (\<open>decode_within\<close>). The
  theorems: the filter allows exactly the calls of its list on its architecture, and what those
  can reach; what the daemon reads from the decoder is what the decoder decoded; a decoder that
  hangs, floods or dies costs the daemon at most its deadline and never outlives the request.
\<close>

unbundle bit_operations_syntax

subsection \<open>The filter\<close>

record sock_filter =
  sf_code :: nat
  sf_jt :: nat
  sf_jf :: nat
  sf_k :: nat

definition LD_W_ABS :: nat where "LD_W_ABS = 0x20"
definition JMP_JEQ_K :: nat where "JMP_JEQ_K = 0x15"
definition RET_K :: nat where "RET_K = 0x06"
definition ARCH_OFFSET :: nat where "ARCH_OFFSET = 4"
definition NR_OFFSET :: nat where "NR_OFFSET = 0"
definition SECCOMP_ALLOW :: nat where "SECCOMP_ALLOW = 0x7fff0000"
definition KILL_PROCESS :: nat where "KILL_PROCESS = 0x80000000"
definition AUDIT_ARCH_X86_64 :: nat where "AUDIT_ARCH_X86_64 = 0xc000003e"
definition AUDIT_ARCH_AARCH64 :: nat where "AUDIT_ARCH_AARCH64 = 0xc00000b7"

definition allowed_calls :: "bool \<Rightarrow> string list" where
  "allowed_calls x86 =
     [''read'', ''write'', ''readv'', ''writev'', ''lseek'', ''close'', ''fstat'', ''statx'', ''ppoll'',
      ''mmap'', ''munmap'', ''mremap'', ''mprotect'', ''brk'', ''madvise'',
      ''futex'', ''rt_sigreturn'', ''rt_sigprocmask'', ''rt_sigaction'', ''sigaltstack'', ''set_robust_list'',
      ''rseq'', ''getpid'', ''gettid'', ''tgkill'', ''getrandom'', ''sched_yield'', ''clock_gettime'',
      ''clock_nanosleep'', ''nanosleep'', ''restart_syscall'', ''prlimit64'', ''exit'', ''exit_group'']
     @ (if x86 then [''poll''] else [])"

definition seccomp_program :: "nat \<Rightarrow> nat list \<Rightarrow> sock_filter list" where
  "seccomp_program arch allowed =
     [\<lparr> sf_code = LD_W_ABS, sf_jt = 0, sf_jf = 0, sf_k = ARCH_OFFSET \<rparr>,
      \<lparr> sf_code = JMP_JEQ_K, sf_jt = 1, sf_jf = 0, sf_k = arch \<rparr>,
      \<lparr> sf_code = RET_K, sf_jt = 0, sf_jf = 0, sf_k = KILL_PROCESS \<rparr>,
      \<lparr> sf_code = LD_W_ABS, sf_jt = 0, sf_jf = 0, sf_k = NR_OFFSET \<rparr>]
     @ concat (map (\<lambda>nr. [\<lparr> sf_code = JMP_JEQ_K, sf_jt = 0, sf_jf = 1, sf_k = nr mod U32 \<rparr>,
                          \<lparr> sf_code = RET_K, sf_jt = 0, sf_jf = 0, sf_k = SECCOMP_ALLOW \<rparr>]) allowed)
     @ [\<lparr> sf_code = RET_K, sf_jt = 0, sf_jf = 0, sf_k = KILL_PROCESS \<rparr>]"

text \<open>
  Classic BPF, as far as the filter uses it: a load of a word of the call's data, a jump forward on
  equality with the accumulator, a return. Running off the end or an unknown instruction is no
  answer.
\<close>

function bpf :: "(nat \<Rightarrow> nat) \<Rightarrow> nat \<Rightarrow> sock_filter list \<Rightarrow> nat option" where
  "bpf dat acc [] = None"
| "bpf dat acc (i # is) =
     (if sf_code i = LD_W_ABS then bpf dat (dat (sf_k i)) is
      else if sf_code i = JMP_JEQ_K then bpf dat acc (drop (if acc = sf_k i then sf_jt i else sf_jf i) is)
      else if sf_code i = RET_K then Some (sf_k i)
      else None)"
  by pat_completeness auto
termination
  by (relation "measure (\<lambda>(dat, acc, is). length is)") auto

lemma opcodes [simp]: "LD_W_ABS = 32" "JMP_JEQ_K = 21" "RET_K = 6"
  by (simp_all add: LD_W_ABS_def JMP_JEQ_K_def RET_K_def)

lemma bpf_list:
  "bpf dat acc (concat (map (\<lambda>nr. [\<lparr> sf_code = JMP_JEQ_K, sf_jt = 0, sf_jf = 1, sf_k = nr mod U32 \<rparr>,
       \<lparr> sf_code = RET_K, sf_jt = 0, sf_jf = 0, sf_k = SECCOMP_ALLOW \<rparr>]) allowed)
     @ [\<lparr> sf_code = RET_K, sf_jt = 0, sf_jf = 0, sf_k = KILL_PROCESS \<rparr>])
   = Some (if acc \<in> set (map (\<lambda>nr. nr mod U32) allowed) then SECCOMP_ALLOW else KILL_PROCESS)"
  by (induction allowed) auto

text \<open>
  System calls by what they can reach, after the Linux manual pages. First the calls that reach
  nothing but what the process already has: descriptors that are open, its own memory, its own
  signals and threads, the clock, its own end.
\<close>

definition on_open_descriptors :: "string list" where
  "on_open_descriptors = [''read'', ''write'', ''readv'', ''writev'', ''pread64'', ''pwrite64'', ''preadv'', ''pwritev'',
     ''lseek'', ''close'', ''fstat'', ''fsync'', ''fdatasync'', ''dup'', ''dup2'', ''dup3'', ''poll'', ''ppoll'', ''select'', ''pselect6'']"

definition on_own_memory :: "string list" where
  "on_own_memory = [''mmap'', ''munmap'', ''mremap'', ''mprotect'', ''brk'', ''madvise'', ''mincore'', ''msync'', ''mlock'',
     ''munlock'', ''membarrier'']"

definition on_itself :: "string list" where
  "on_itself = [''futex'', ''rt_sigreturn'', ''rt_sigprocmask'', ''rt_sigaction'', ''rt_sigpending'', ''rt_sigsuspend'',
     ''sigaltstack'', ''set_robust_list'', ''set_tid_address'', ''rseq'', ''getpid'', ''gettid'', ''getppid'', ''getuid'',
     ''geteuid'', ''getgid'', ''getegid'', ''getrandom'', ''sched_yield'', ''clock_gettime'', ''clock_getres'',
     ''gettimeofday'', ''clock_nanosleep'', ''nanosleep'', ''restart_syscall'', ''exit'', ''exit_group'']"

text \<open>
  Then the calls that open or create a file or a descriptor, that make or use a socket, and that
  start, replace, trace or enter a process.
\<close>

definition opening_calls :: "string list" where
  "opening_calls = [''open'', ''openat'', ''openat2'', ''creat'', ''open_by_handle_at'', ''open_tree'', ''memfd_create'',
     ''memfd_secret'', ''mknod'', ''mknodat'', ''mkdir'', ''mkdirat'', ''link'', ''linkat'', ''symlink'', ''symlinkat'',
     ''rename'', ''renameat'', ''renameat2'', ''unlink'', ''unlinkat'', ''rmdir'', ''truncate'', ''chroot'', ''pivot_root'',
     ''mount'', ''umount2'', ''fsopen'', ''fspick'', ''fsmount'', ''move_mount'', ''io_uring_setup'', ''io_uring_enter'',
     ''io_setup'', ''io_submit'', ''perf_event_open'', ''bpf'', ''userfaultfd'', ''inotify_init1'', ''fanotify_init'',
     ''pidfd_open'', ''pidfd_getfd'', ''shmget'', ''shmat'', ''mq_open'', ''ioctl'', ''fcntl'']"

definition socket_calls :: "string list" where
  "socket_calls = [''socket'', ''socketpair'', ''connect'', ''bind'', ''listen'', ''accept'', ''accept4'', ''sendto'',
     ''sendmsg'', ''sendmmsg'', ''recvfrom'', ''recvmsg'', ''recvmmsg'', ''setsockopt'', ''getsockopt'', ''shutdown'']"

definition process_calls :: "string list" where
  "process_calls = [''execve'', ''execveat'', ''fork'', ''vfork'', ''clone'', ''clone3'', ''ptrace'', ''process_vm_readv'',
     ''process_vm_writev'', ''process_madvise'', ''pidfd_send_signal'', ''kill'', ''tkill'', ''rt_sigqueueinfo'', ''unshare'',
     ''setns'', ''kexec_load'', ''init_module'', ''finit_module'', ''prctl'', ''seccomp'']"

definition stays_inside :: "string \<Rightarrow> bool" where
  "stays_inside c \<longleftrightarrow>
     List.member ([''statx'', ''tgkill'', ''prlimit64''] @ on_open_descriptors @ on_own_memory @ on_itself) c
     \<and> \<not> List.member (opening_calls @ socket_calls @ process_calls) c"

lemma calls_stay_inside: "list_all stays_inside (allowed_calls x86)"
proof -
  have "list_all stays_inside (allowed_calls True)" "list_all stays_inside (allowed_calls False)"
    by code_simp+
  then show ?thesis
    by (cases x86) simp_all
qed

text \<open>
  C23. The cage allows exactly its list. Whatever call the confined process makes, the filter answers
  allow when it is made through the architecture the decoder was built for and its number is one of
  the listed calls', and kill otherwise. Every listed call but three works only on descriptors that
  are already open, on the process's own memory, or on its own signals, threads, clock and end; the
  three are \<open>statx\<close>, which looks at a path, and \<open>tgkill\<close> and \<open>prlimit64\<close>, which name a process. None
  of the calls that open or create a file or a descriptor, make or use a socket, or start, replace,
  trace or enter a process is listed.
\<close>

theorem filter_allows_exactly:
  "bpf (\<lambda>off. if off = ARCH_OFFSET then call_arch else if off = NR_OFFSET then call_nr else other off) 0
     (seccomp_program arch (map number (allowed_calls x86)))
   = Some (if call_arch = arch \<and> call_nr \<in> (\<lambda>name. number name mod U32) ` set (allowed_calls x86)
           then 0x7fff0000 else 0x80000000)
   \<and> set (allowed_calls x86) - {''statx'', ''tgkill'', ''prlimit64''}
       \<subseteq> set on_open_descriptors \<union> set on_own_memory \<union> set on_itself
   \<and> set (allowed_calls x86) \<inter> (set opening_calls \<union> set socket_calls \<union> set process_calls) = {}"
proof (intro conjI)
  show "bpf (\<lambda>off. if off = ARCH_OFFSET then call_arch else if off = NR_OFFSET then call_nr else other off) 0
     (seccomp_program arch (map number (allowed_calls x86)))
   = Some (if call_arch = arch \<and> call_nr \<in> (\<lambda>name. number name mod U32) ` set (allowed_calls x86)
           then 0x7fff0000 else 0x80000000)"
    using bpf_list[of _ call_nr "map number (allowed_calls x86)"]
    by (simp add: seccomp_program_def ARCH_OFFSET_def NR_OFFSET_def KILL_PROCESS_def SECCOMP_ALLOW_def image_image)
  show "set (allowed_calls x86) - {''statx'', ''tgkill'', ''prlimit64''}
      \<subseteq> set on_open_descriptors \<union> set on_own_memory \<union> set on_itself"
    using calls_stay_inside[of x86] by (auto simp: list_all_iff stays_inside_def)
  show "set (allowed_calls x86) \<inter> (set opening_calls \<union> set socket_calls \<union> set process_calls) = {}"
    using calls_stay_inside[of x86] by (auto simp: list_all_iff stays_inside_def)
qed

subsection \<open>WAVE\<close>

definition le32 :: "byte list \<Rightarrow> nat" where
  "le32 bs = unat (bs ! 0) + 256 * unat (bs ! 1) + 65536 * unat (bs ! 2) + 16777216 * unat (bs ! 3)"

definition to_le32 :: "f32 \<Rightarrow> byte list" where
  "to_le32 w = map (\<lambda>i. ucast (drop_bit (8 * i) w)) [0..<4]"

text \<open>
  \<open>i16 as f32 / 32768.0\<close> as its bits: sixteen bits fit the significand, so the quotient is exact. The
  sign, the exponent biased by 127, and the significand without its leading one.
\<close>

fun top_bit :: "nat \<Rightarrow> nat" where
  "top_bit n = (if n < 2 then 0 else Suc (top_bit (n div 2)))"

declare top_bit.simps [simp del]

definition pcm_sample :: "nat \<Rightarrow> f32" where
  "pcm_sample v =
     (let m = (if v < 32768 then v else 65536 - v); e = top_bit m
      in if m = 0 then 0
         else (if v < 32768 then 0 else push_bit 31 1)
              OR push_bit 23 (of_nat (e + 112)) OR of_nat (m * 2 ^ (23 - e) - 2 ^ 23))"

definition chunks_exact :: "nat \<Rightarrow> 'a list \<Rightarrow> 'a list list" where
  "chunks_exact n xs = filter (\<lambda>c. length c = n) (chunks n xs)"

type_synonym wav_fmt = "nat \<times> nat \<times> nat \<times> nat"

function wav_chunks :: "byte list \<Rightarrow> nat \<Rightarrow> wav_fmt option \<Rightarrow> byte list option \<Rightarrow> (wav_fmt option \<times> byte list option) res" where
  "wav_chunks bs offset fmt dat =
     (if offset + 8 \<le> length bs
      then
        (let ident = take 4 (drop offset bs); n = le32 (drop (offset + 4) bs); start = offset + 8;
             stop = min (start + n) (length bs); chunk = take (stop - start) (drop start bs);
             after = stop + n mod 2
         in if ident = [102, 109, 116, 32]
            then (if stop - start < 16 then Inl (Err ''short fmt chunk'')
                  else wav_chunks bs after
                         (Some (le16 (chunk ! 0) (chunk ! 1), le16 (chunk ! 2) (chunk ! 3),
                                le32 (drop 4 chunk), le16 (chunk ! 14) (chunk ! 15))) dat)
            else if ident = [100, 97, 116, 97] then wav_chunks bs after fmt (Some chunk)
            else wav_chunks bs after fmt dat)
      else Inr (fmt, dat))"
  by pat_completeness auto
termination
  by (relation "measure (\<lambda>(bs, offset, fmt, dat). length bs - offset)") auto

declare wav_chunks.simps [simp del]

definition wav_samples :: "nat \<Rightarrow> nat \<Rightarrow> byte list \<Rightarrow> f32 list res" where
  "wav_samples tag depth dat =
     (if tag = 1 \<and> depth = 16 then Inr (map (\<lambda>s. pcm_sample (le16 (s ! 0) (s ! 1))) (chunks_exact 2 dat))
      else if tag = 3 \<and> depth = 32 then Inr (map (\<lambda>s. of_nat (le32 s)) (chunks_exact 4 dat))
      else Inl (Err ''unsupported WAVE format''))"

definition wav_decode :: "(f32 list \<Rightarrow> nat \<Rightarrow> f32) \<Rightarrow> byte list \<Rightarrow> nat \<Rightarrow> decoded res" where
  "wav_decode mean bs max_output =
     (if length bs < 12 \<or> take 4 bs \<noteq> [82, 73, 70, 70] \<or> take 4 (drop 8 bs) \<noteq> [87, 65, 86, 69]
      then Inl (Err ''not a RIFF/WAVE file'')
      else
        rbind (wav_chunks bs 12 None None) (\<lambda>(fmt, dat0).
        rbind (ok_or fmt (Err ''no fmt chunk'')) (\<lambda>(tag, chans, rate, depth).
        rbind (ok_or dat0 (Err ''no data chunk'')) (\<lambda>dat.
        rbind (wav_samples tag depth dat) (\<lambda>samples.
          let ch = max chans 1;
              mono = (if ch = 1 then samples else map (\<lambda>frame. mean frame ch) (chunks ch samples))
          in if length mono * 4 > max_output then Inl (Err ''decoded size exceeds the caller's limit'')
             else Inr \<lparr> dc_w = None, dc_h = None, dc_fmt = None, dc_rate = Some rate,
                        dc_data = concat (map to_le32 mono) \<rparr>)))))"

lemma to_le32_length [simp]: "length (to_le32 w) = 4"
  by (simp add: to_le32_def)

lemma wav_size: "wav_decode mean bs max_output = Inr d \<Longrightarrow> length (dc_data d) \<le> max_output"
  by (auto simp: wav_decode_def result_simps Let_def length_concat comp_def sum_list_triv mult.commute split: if_splits)

text \<open>A mono file of 32-bit floats comes out as it went in.\<close>

lemma le_digits:
  fixes a b c d :: nat
  assumes "a < 256" "b < 256" "c < 256"
  shows "(a + 256 * b + 65536 * c + 16777216 * d) mod 256 = a"
    "(a + 256 * b + 65536 * c + 16777216 * d) div 256 mod 256 = b"
    "(a + 256 * b + 65536 * c + 16777216 * d) div 65536 mod 256 = c"
    "(a + 256 * b + 65536 * c + 16777216 * d) div 16777216 = d"
proof -
  define x y z where "x = c + 256 * d" and "y = b + 256 * x" and "z = a + 256 * y"
  have z: "a + 256 * b + 65536 * c + 16777216 * d = z"
    by (simp add: x_def y_def z_def)
  have "z mod 256 = a" "z div 256 = y"
    using assms by (simp_all add: z_def)
  moreover have "y mod 256 = b" "y div 256 = x"
    using assms by (simp_all add: y_def)
  moreover have "x mod 256 = c" "x div 256 = d"
    using assms by (simp_all add: x_def)
  ultimately have d: "z mod 256 = a" "z div 256 = y" "y mod 256 = b" "y div 256 = x" "x mod 256 = c" "x div 256 = d"
    by simp_all
  have "z div 65536 = z div 256 div 256" "z div 16777216 = z div 256 div 256 div 256"
    by (simp_all flip: div_mult2_eq)
  then show "(a + 256 * b + 65536 * c + 16777216 * d) mod 256 = a"
    "(a + 256 * b + 65536 * c + 16777216 * d) div 256 mod 256 = b"
    "(a + 256 * b + 65536 * c + 16777216 * d) div 65536 mod 256 = c"
    "(a + 256 * b + 65536 * c + 16777216 * d) div 16777216 = d"
    unfolding z by (simp_all add: d)
qed

lemma to_le32_le32: "length s = 4 \<Longrightarrow> to_le32 (of_nat (le32 s)) = s"
proof -
  assume "length s = 4"
  then obtain a b c d where s: "s = [a, b, c, d]"
    by (auto simp: eval_nat_numeral length_Suc_conv)
  have u: "unat x < 256" for x :: byte
    using unsigned_less[where 'a = nat, of x] by simp
  have "unat (ucast (drop_bit (8 * i) (of_nat (le32 s) :: f32)) :: byte) = le32 s div 256 ^ i mod 256" if "i < 4" for i
  proof -
    have "le32 s < 2 ^ 32"
      using u[of a] u[of b] u[of c] u[of d] by (simp add: le32_def s)
    then have "unat (of_nat (le32 s) :: f32) = le32 s"
      by (simp add: unat_of_nat take_bit_nat_eq_self)
    moreover have "(256 :: nat) ^ i = 2 ^ (8 * i)"
      by (simp add: power_mult)
    moreover have "unat (drop_bit (8 * i) (of_nat (le32 s) :: f32)) = unat (of_nat (le32 s) :: f32) div 2 ^ (8 * i)"
      by (simp only: unat_drop_bit_eq drop_bit_eq_div[where 'a = nat])
    ultimately show ?thesis
      by (simp add: unsigned_ucast_eq take_bit_eq_mod)
  qed
  then have "map unat (to_le32 (of_nat (le32 s))) = map (\<lambda>i. le32 s div 256 ^ i mod 256) [0..<4]"
    by (simp add: to_le32_def)
  also have "\<dots> = map unat s"
    using u[of d] by (simp add: s le32_def upt_rec le_digits[OF u u u])
  finally show ?thesis
    by (metis (mono_tags, lifting) inj_map_eq_map inj_onI word_unat_eq_iff)
qed

lemma mono_floats_pass:
  assumes "wav_chunks bs 12 None None = Inr (Some (3, chans, rate, 32), Some dat)" "chans \<le> 1" "length dat mod 4 = 0"
    and "take 4 bs = [82, 73, 70, 70]" "take 4 (drop 8 bs) = [87, 65, 86, 69]" "12 \<le> length bs"
    and "length dat \<le> max_output"
  shows "wav_decode mean bs max_output
    = Inr \<lparr> dc_w = None, dc_h = None, dc_fmt = None, dc_rate = Some rate, dc_data = dat \<rparr>"
proof -
  have exact: "chunks_exact 4 xs = chunks 4 xs \<and> length (chunks 4 xs) * 4 = length xs
      \<and> concat (map (\<lambda>s. to_le32 (of_nat (le32 s))) (chunks 4 xs)) = xs" if "length xs mod 4 = 0" for xs
    using that
  proof (induction "length xs" arbitrary: xs rule: less_induct)
    case less
    show ?case
    proof (cases "xs = []")
      case True
      then show ?thesis
        by (simp add: chunks_exact_def)
    next
      case False
      then have l: "4 \<le> length xs" "length (drop 4 xs) mod 4 = 0"
        using less.prems by (cases xs; simp; presburger)+
      then show ?thesis
        using less.hyps[of "drop 4 xs"] False by (simp add: chunks_exact_def chunks_nonempty to_le32_le32)
    qed
  qed
  have "max chans 1 = 1"
    using assms(2) by simp
  then show ?thesis
    using assms exact[OF assms(3)] by (simp add: wav_decode_def wav_samples_def Let_def comp_def)
qed

subsection \<open>The process\<close>

record decode_request =
  dq_kind :: string
  dq_hint :: string
  dq_len :: nat
  dq_max_output :: nat

record decode_reply =
  dr_ok :: bool
  dr_error :: string
  dr_w :: "nat option"
  dr_h :: "nat option"
  dr_fmt :: "string option"
  dr_rate :: "nat option"
  dr_len :: nat

definition failed_reply :: "string \<Rightarrow> decode_reply" where
  "failed_reply message =
     \<lparr> dr_ok = False, dr_error = message, dr_w = None, dr_h = None, dr_fmt = None, dr_rate = None, dr_len = 0 \<rparr>"

definition decode_fail :: "(decode_reply \<Rightarrow> string + byte list) \<Rightarrow> string \<Rightarrow> byte list" where
  "decode_fail enc message = (case write_cbor enc (failed_reply message) of Inl _ \<Rightarrow> [] | Inr out \<Rightarrow> out)"

definition decode_kind :: "(f32 list \<Rightarrow> nat \<Rightarrow> f32) \<Rightarrow> string \<Rightarrow> byte list \<Rightarrow> nat \<Rightarrow> decoded res" where
  "decode_kind mean kind encoded max_output =
     (if kind = ''image'' then png_decode encoded max_output
      else if kind = ''audio'' then wav_decode mean encoded max_output
      else Inl (Err ''unsupported attachment kind''))"

definition reply_of :: "decoded \<Rightarrow> decode_reply" where
  "reply_of d =
     \<lparr> dr_ok = True, dr_error = [], dr_w = dc_w d, dr_h = dc_h d, dr_fmt = dc_fmt d, dr_rate = dc_rate d,
       dr_len = length (dc_data d) \<rparr>"

text \<open>What the process writes to its standard output; a panic ends it with nothing written.\<close>

definition decoder_main :: "(byte list \<Rightarrow> string + 'v) \<Rightarrow> ('v \<Rightarrow> string + decode_request)
    \<Rightarrow> (decode_reply \<Rightarrow> string + byte list) \<Rightarrow> (string + unit) \<Rightarrow> (f32 list \<Rightarrow> nat \<Rightarrow> f32) \<Rightarrow> reader \<Rightarrow> byte list" where
  "decoder_main dec deser enc confined mean r =
     (case read_typed dec deser r of
        (Inl _, _) \<Rightarrow> decode_fail enc ''unreadable request''
      | (Inr None, _) \<Rightarrow> decode_fail enc ''no request arrived''
      | (Inr (Some q), r1) \<Rightarrow>
          (case read_payload dec (dq_len q) [] r1 of
             (Inl e, _) \<Rightarrow> decode_fail enc e
           | (Inr encoded, _) \<Rightarrow>
               (case confined of
                  Inl e \<Rightarrow> decode_fail enc (''refusing to decode unconfined: '' @ e)
                | Inr _ \<Rightarrow>
                    (case decode_kind mean (dq_kind q) encoded (dq_max_output q) of
                       Inl Panic \<Rightarrow> []
                     | Inl (Err e) \<Rightarrow> decode_fail enc (e @ '' ('' @ dq_hint q @ '')'')
                     | Inr d \<Rightarrow>
                         (case write_cbor enc (reply_of d) of
                            Inl _ \<Rightarrow> []
                          | Inr out \<Rightarrow> out @ (case write_blob (dc_data d) of Inl _ \<Rightarrow> [] | Inr b \<Rightarrow> b))))))"

subsection \<open>The daemon's side\<close>

definition MAX_DECODED :: nat where "MAX_DECODED = 256 * 1024 * 1024"

definition attach_str :: "attach_kind \<Rightarrow> string" where
  "attach_str kind = (case kind of Attach_Image \<Rightarrow> ''image'' | Attach_Audio \<Rightarrow> ''audio'')"

definition request_of :: "attach_kind \<Rightarrow> string \<Rightarrow> byte list \<Rightarrow> decode_request" where
  "request_of kind hint encoded =
     \<lparr> dq_kind = attach_str kind, dq_hint = hint, dq_len = length encoded, dq_max_output = MAX_DECODED \<rparr>"

text \<open>What the writer thread sends to the child.\<close>

definition send_request :: "(decode_request \<Rightarrow> string + byte list) \<Rightarrow> attach_kind \<Rightarrow> string \<Rightarrow> byte list \<Rightarrow> io_error + byte list" where
  "send_request enc kind hint encoded =
     rbind (write_cbor enc (request_of kind hint encoded)) (\<lambda>a.
     rbind (write_blob encoded) (\<lambda>b. Inr (a @ b)))"

text \<open>The text of an I/O error; the two wordings of an early end are not told apart.\<close>

fun io_message :: "io_error \<Rightarrow> string" where
  "io_message UnexpectedEof = ''unexpected end of file''"
| "io_message Interrupted = ''operation interrupted''"
| "io_message (Other e) = e"

function reply_data :: "(byte list \<Rightarrow> string + 'v) \<Rightarrow> nat \<Rightarrow> byte list \<Rightarrow> reader \<Rightarrow> string + byte list" where
  "reply_data dec len dat r =
     (if length dat < len
      then (case read_frame dec r of
              (Inr (Some (Blob chunk)), r') \<Rightarrow> reply_data dec len (dat @ chunk) r'
            | (Inr (Some (Cbor _)), _) \<Rightarrow> Inl ''decoder interleaved a structured frame''
            | (Inr None, _) \<Rightarrow> Inl ''decoder stopped mid-payload''
            | (Inl e, _) \<Rightarrow> Inl (''decoder payload: '' @ io_message e))
      else Inr dat)"
  by pat_completeness auto
termination
  by (relation "measure (\<lambda>(dec, len, dat, r). reader_size r)") (auto dest: read_frame_size [OF sym])

declare reply_data.simps [simp del]

definition read_reply :: "(byte list \<Rightarrow> string + 'v) \<Rightarrow> ('v \<Rightarrow> string + decode_reply) \<Rightarrow> reader \<Rightarrow> string + decoded" where
  "read_reply dec deser r =
     (case read_typed dec deser r of
        (Inl e, _) \<Rightarrow> Inl (''decoder reply: '' @ io_message e)
      | (Inr None, _) \<Rightarrow> Inl ''the decoder produced nothing''
      | (Inr (Some rep), r1) \<Rightarrow>
          if \<not> dr_ok rep then Inl (if dr_error rep = [] then ''decode failed'' else dr_error rep)
          else if dr_len rep > MAX_DECODED then Inl ''decoded output is over the limit''
          else
            rbind (reply_data dec (dr_len rep) [] r1) (\<lambda>dat.
              Inr \<lparr> dc_w = dr_w rep, dc_h = dr_h rep, dc_fmt = dr_fmt rep, dc_rate = dr_rate rep, dc_data = dat \<rparr>))"

subsection \<open>The deadline\<close>

text \<open>
  What comes out of the child's pipe, as polling finds it: each poll with the time left before it, and how it ended.
  A poll that was interrupted is repeated; running out of time is an error of the read.
\<close>

datatype polled = P_Ready delivery | P_Late | P_Signal | P_Fault string

definition OUT_OF_TIME :: string where "OUT_OF_TIME = ''the decoder ran out of time''"

fun deadline_reader :: "(nat \<times> polled) list \<Rightarrow> reader" where
  "deadline_reader [] = []"
| "deadline_reader ((remaining, p) # rest) =
     (if remaining = 0 then [IoErr OUT_OF_TIME]
      else
        (case p of
           P_Ready d \<Rightarrow> d # deadline_reader rest
         | P_Late \<Rightarrow> [IoErr OUT_OF_TIME]
         | P_Signal \<Rightarrow> deadline_reader rest
         | P_Fault err \<Rightarrow> [IoErr err]))"

text \<open>What the daemon does to the child process, and how the calls around it end.\<close>

datatype child_act = Spawned | Group_Killed | Child_Waited

record decode_env =
  dw_installed :: bool
  dw_spawn :: "string option"
  dw_polls :: "(nat \<times> polled) list"
  dw_wait :: "string option"
  dw_signal :: "nat option"

definition SIGKILL :: nat where "SIGKILL = 9"
definition SIGSYS :: nat where "SIGSYS = 31"

definition decode_within :: "(byte list \<Rightarrow> string + 'v) \<Rightarrow> ('v \<Rightarrow> string + decode_reply) \<Rightarrow> decode_env \<Rightarrow> child_act list \<times> (string + decoded)" where
  "decode_within dec deser w =
     (if \<not> dw_installed w then ([], Inl ''ai-daemon-decode is not installed'')
      else
        (case dw_spawn w of
           Some err \<Rightarrow> ([], Inl (''spawning the decoder: '' @ err))
         | None \<Rightarrow>
             let outcome = read_reply dec deser (deadline_reader (dw_polls w));
                 timed_out = (case outcome of Inl e \<Rightarrow> contains_str ''ran out of time'' e | Inr _ \<Rightarrow> False)
             in ([Spawned, Group_Killed, Child_Waited],
                 (case dw_wait w of
                    Some err \<Rightarrow> Inl (''waiting for the decoder: '' @ err)
                  | None \<Rightarrow>
                      if timed_out then Inl ''the decoder did not answer in time and was killed''
                      else
                        (case outcome of
                           Inr d \<Rightarrow> Inr d
                         | Inl e \<Rightarrow>
                             Inl (case dw_signal w of
                                    None \<Rightarrow> e
                                  | Some n \<Rightarrow>
                                      if n = SIGSYS then ''the decoder was killed by its own seccomp filter, which means it attempted a syscall the filter does not allow: '' @ e
                                      else if n = SIGKILL then e
                                      else ''the decoder died on signal '' @ show_nat n @ '': '' @ e))))))"

subsection \<open>Across the pipe\<close>

text \<open>What both sides rely on of CBOR for one message: it is encoded within a frame and read back.\<close>

definition carried_over :: "('t \<Rightarrow> string + byte list) \<Rightarrow> (byte list \<Rightarrow> string + 'v) \<Rightarrow> ('v \<Rightarrow> string + 't) \<Rightarrow> 't \<Rightarrow> bool" where
  "carried_over enc dec deser x \<longleftrightarrow>
     (\<exists>buf v. enc x = Inr buf \<and> length buf \<le> MAX_FRAME \<and> dec buf = Inr v \<and> deser v = Inr x)"

lemma read_typed_write_cbor:
  assumes "carried_over enc dec deser x"
  shows "\<exists>out. write_cbor enc x = Inr out \<and>
    (\<forall>r rest. healthy r \<longrightarrow> pending r = out @ rest
      \<longrightarrow> (\<exists>r'. read_typed dec deser r = (Inr (Some x), r') \<and> healthy r' \<and> pending r' = rest))"
proof -
  from assms obtain buf v where b: "enc x = Inr buf" "length buf \<le> MAX_FRAME" "dec buf = Inr v" "deser v = Inr x"
    by (auto simp: carried_over_def)
  then obtain out where out: "write_raw KIND_CBOR buf = Inr out"
    by (simp add: write_raw_ok)
  have "\<exists>r'. read_typed dec deser r = (Inr (Some x), r') \<and> healthy r' \<and> pending r' = rest"
    if r: "healthy r" "pending r = out @ rest" for r rest
  proof -
    have "frame_at dec (pending r) = Inr (Some (Cbor v))"
      using b(3) by (simp add: r(2) frame_at_write_raw(1)[OF out])
    with read_frame_refines[OF r(1), of dec] frame_at_write_raw(2)[OF out, of rest] r(2)
    obtain r' where "read_frame dec r = (Inr (Some (Cbor v)), r')" "healthy r'" "pending r' = rest"
      by metis
    with b(4) show ?thesis
      by (auto simp: read_typed_def)
  qed
  moreover have "write_cbor enc x = Inr out"
    using b(1) out by (simp add: write_cbor_def)
  ultimately show ?thesis
    by blast
qed

lemma write_blob_reads:
  fixes dec :: "byte list \<Rightarrow> string + 'v"
  shows "\<exists>out. write_blob bytes = Inr out \<and>
    (\<forall>r rest. healthy r \<longrightarrow> pending r = out @ rest \<longrightarrow> (\<exists>r'. read_payload dec (length bytes) [] r = (Inr bytes, r')))"
proof -
  have cs: "c \<in> set (chunks BLOB_CHUNK bytes) \<Longrightarrow> c \<noteq> [] \<and> length c \<le> MAX_FRAME" for c
    using chunks_bounds [of c BLOB_CHUNK bytes] by (auto simp: BLOB_CHUNK_def MAX_FRAME_def)
  then obtain out where out: "write_blob bytes = Inr out"
    using write_raws_total [of "chunks BLOB_CHUNK bytes" KIND_BLOB] by (auto simp: write_blob_def)
  have "concat (chunks BLOB_CHUNK bytes) = bytes"
    by (rule concat_chunks) (simp add: BLOB_CHUNK_def)
  then have "\<exists>r'. read_payload dec (length bytes) [] r = (Inr bytes, r')"
    if "healthy r" "pending r = out @ rest" for r rest
    using read_payload_raws [of "chunks BLOB_CHUNK bytes" out r rest dec "[]"] cs out that
    by (auto simp: write_blob_def)
  with out show ?thesis
    by blast
qed

lemma reply_data_payload: "read_payload dec len acc r = (Inr dat, r') \<Longrightarrow> reply_data dec len acc r = Inr dat"
proof (induction dec len acc r rule: read_payload.induct)
  case (1 dec len acc r)
  show ?case
  proof (cases "length acc < len")
    case False
    with 1(2) show ?thesis
      unfolding read_payload.simps[of dec len acc r] reply_data.simps[of dec len acc r] by simp
  next
    case True
    with 1(2) obtain chunk r1 where c: "read_frame dec r = (Inr (Some (Blob chunk)), r1)"
      "read_payload dec len (acc @ chunk) r1 = (Inr dat, r')"
      unfolding read_payload.simps[of dec len acc r]
      by (auto split: prod.splits sum.splits option.splits frame.splits)
    with 1(1)[OF True c(1)[symmetric]] True show ?thesis
      unfolding reply_data.simps[of dec len acc r] by simp
  qed
qed

lemma decode_kind_size: "decode_kind mean kind encoded max_output = Inr d \<Longrightarrow> length (dc_data d) \<le> max_output"
  using png_size[of encoded max_output d] wav_size[of mean encoded max_output d]
  by (auto simp: decode_kind_def split: if_splits)

definition outcome_reply :: "string \<Rightarrow> decoded res \<Rightarrow> decode_reply" where
  "outcome_reply hint res =
     (case res of Inr d \<Rightarrow> reply_of d | Inl (Err e) \<Rightarrow> failed_reply (e @ '' ('' @ hint @ '')'') | Inl Panic \<Rightarrow> failed_reply [])"

lemma main_reads_request:
  assumes q: "carried_over qenc qdec qdeser (request_of kind hint encoded)"
    and r: "healthy r" "send_request qenc kind hint encoded = Inr (pending r)"
  shows "\<exists>r1 r2. read_typed qdec qdeser r = (Inr (Some (request_of kind hint encoded)), r1)
    \<and> read_payload qdec (length encoded) [] r1 = (Inr encoded, r2)"
proof -
  obtain a where a: "write_cbor qenc (request_of kind hint encoded) = Inr a"
    "\<forall>r rest. healthy r \<longrightarrow> pending r = a @ rest
      \<longrightarrow> (\<exists>r'. read_typed qdec qdeser r = (Inr (Some (request_of kind hint encoded)), r') \<and> healthy r' \<and> pending r' = rest)"
    using read_typed_write_cbor[OF q] by blast
  obtain b where b: "write_blob encoded = Inr b"
    "\<forall>r rest. healthy r \<longrightarrow> pending r = b @ rest \<longrightarrow> (\<exists>r'. read_payload qdec (length encoded) [] r = (Inr encoded, r'))"
    using write_blob_reads[of encoded qdec] by blast
  have "pending r = a @ b"
    using r(2) by (simp add: send_request_def a(1) b(1))
  then obtain r1 where "read_typed qdec qdeser r = (Inr (Some (request_of kind hint encoded)), r1)" "healthy r1" "pending r1 = b @ []"
    using a(2) r(1) by auto
  with b(2) show ?thesis
    by blast
qed

text \<open>
  C24. What the daemon reads from its decoder is what the decoder decoded. Whatever attachment the
  daemon sends, however the bytes arrive on either pipe, the confined decoder's reply is read by
  the daemon as exactly the decoded image or sound, within the daemon's own ceiling; a refusal
  comes back as its message with the client's hint; a decoder that panicked is reported as having
  produced nothing.
\<close>

theorem decoder_pipeline:
  fixes qdec :: "byte list \<Rightarrow> string + 'a" and rdec :: "byte list \<Rightarrow> string + 'b"
  assumes q: "carried_over qenc qdec qdeser (request_of kind hint encoded)"
    and rep: "carried_over renc rdec rdeser (outcome_reply hint (decode_kind mean (attach_str kind) encoded MAX_DECODED))"
    and r: "healthy r" "send_request qenc kind hint encoded = Inr (pending r)"
    and s: "healthy s" "pending s = decoder_main qdec qdeser renc (Inr ()) mean r"
  shows "read_reply rdec rdeser s =
    (case decode_kind mean (attach_str kind) encoded MAX_DECODED of
       Inr d \<Rightarrow> Inr d
     | Inl (Err e) \<Rightarrow> Inl (e @ '' ('' @ hint @ '')'')
     | Inl Panic \<Rightarrow> Inl ''the decoder produced nothing'')"
proof -
  let ?res = "decode_kind mean (attach_str kind) encoded MAX_DECODED"
  obtain out where out: "write_cbor renc (outcome_reply hint ?res) = Inr out"
    "\<forall>r rest. healthy r \<longrightarrow> pending r = out @ rest
      \<longrightarrow> (\<exists>r'. read_typed rdec rdeser r = (Inr (Some (outcome_reply hint ?res)), r') \<and> healthy r' \<and> pending r' = rest)"
    using read_typed_write_cbor[OF rep] by blast
  obtain r1 r2 where rd: "read_typed qdec qdeser r = (Inr (Some (request_of kind hint encoded)), r1)"
    "read_payload qdec (length encoded) [] r1 = (Inr encoded, r2)"
    using main_reads_request[OF q r] by blast
  have main: "pending s = (case ?res of
      Inl Panic \<Rightarrow> []
    | Inl (Err e) \<Rightarrow> decode_fail renc (e @ '' ('' @ hint @ '')'')
    | Inr d \<Rightarrow> (case write_cbor renc (reply_of d) of
          Inl _ \<Rightarrow> [] | Inr out \<Rightarrow> out @ (case write_blob (dc_data d) of Inl _ \<Rightarrow> [] | Inr b \<Rightarrow> b)))"
    unfolding s(2) by (simp add: decoder_main_def rd request_of_def split: sum.split fault.split)
  consider d where "?res = Inr d" | e where "?res = Inl (Err e)" | "?res = Inl Panic"
    by (cases ?res) (auto, metis fault.exhaust)
  then show ?thesis
  proof cases
    case (1 d)
    obtain b where b: "write_blob (dc_data d) = Inr b"
      "\<forall>r rest. healthy r \<longrightarrow> pending r = b @ rest \<longrightarrow> (\<exists>r'. read_payload rdec (length (dc_data d)) [] r = (Inr (dc_data d), r'))"
      using write_blob_reads[of "dc_data d" rdec] by blast
    have "pending s = out @ b"
      using main out(1) 1 b(1) by (simp add: outcome_reply_def)
    then obtain s1 where s1: "read_typed rdec rdeser s = (Inr (Some (reply_of d)), s1)" "healthy s1" "pending s1 = b @ []"
      using out(2) s(1) 1 by (auto simp: outcome_reply_def)
    then have "reply_data rdec (length (dc_data d)) [] s1 = Inr (dc_data d)"
      using b(2) reply_data_payload by fastforce
    then show ?thesis
      using s1(1) decode_kind_size[OF 1] 1 by (simp add: read_reply_def reply_of_def)
  next
    case (2 e)
    then have "pending s = out @ []"
      using main out(1) by (simp add: outcome_reply_def decode_fail_def)
    then obtain s1 where "read_typed rdec rdeser s = (Inr (Some (failed_reply (e @ '' ('' @ hint @ '')''))), s1)"
      using out(2)[THEN spec[of _ s], THEN spec[of _ "[]"]] s(1) 2 by (auto simp: outcome_reply_def)
    then show ?thesis
      using 2 by (simp add: read_reply_def failed_reply_def)
  next
    case 3
    then have "pending s = []"
      using main by simp
    then have "fst (read_frame rdec s) = Inr None"
      using read_frame_refines[OF s(1), of rdec] by (auto simp: frame_at_def)
    then show ?thesis
      using 3 by (cases "read_frame rdec s") (simp add: read_reply_def read_typed_def)
  qed
qed

text \<open>A one-pixel image over a codec of single bytes.\<close>

definition sample_sent :: "byte list" where
  "sample_sent = (case send_request (\<lambda>_. Inr [7]) Attach_Image ''a.png'' sample_png of Inl _ \<Rightarrow> [] | Inr b \<Rightarrow> b)"

definition sample_answer :: "byte list" where
  "sample_answer = decoder_main (\<lambda>_. Inr ()) (\<lambda>_. Inr (request_of Attach_Image ''a.png'' sample_png))
     (\<lambda>_. Inr [8]) (Inr ()) (\<lambda>_ _. 0) [Data sample_sent]"

theorem decoder_pipeline_witness:
  "read_reply (\<lambda>_. Inr ()) (\<lambda>_. Inr (reply_of sample_image)) [Data sample_answer] = Inr sample_image"
proof -
  have res: "decode_kind (\<lambda>_ _. 0) (attach_str Attach_Image) sample_png MAX_DECODED = Inr sample_image"
    by (simp add: decode_kind_def attach_str_def sample_decodes MAX_DECODED_def)
  have sent: "send_request (\<lambda>_. Inr [7]) Attach_Image ''a.png'' sample_png = Inr sample_sent" "sample_sent \<noteq> []"
  proof -
    obtain b where "write_blob sample_png = Inr b"
      using write_blob_reads by blast
    then show "send_request (\<lambda>_. Inr [7]) Attach_Image ''a.png'' sample_png = Inr sample_sent" "sample_sent \<noteq> []"
      by (simp_all add: sample_sent_def send_request_def write_cbor_def write_raw_ok MAX_FRAME_def)
  qed
  have q: "carried_over (\<lambda>_. Inr [7]) (\<lambda>_. Inr ()) (\<lambda>_. Inr (request_of Attach_Image ''a.png'' sample_png))
      (request_of Attach_Image ''a.png'' sample_png)"
    by (simp add: carried_over_def MAX_FRAME_def)
  have rep: "carried_over (\<lambda>_. Inr [8]) (\<lambda>_. Inr ()) (\<lambda>_. Inr (reply_of sample_image))
      (outcome_reply ''a.png'' (decode_kind (\<lambda>_ _. 0) (attach_str Attach_Image) sample_png MAX_DECODED))"
    by (simp add: carried_over_def MAX_FRAME_def outcome_reply_def res)
  have "healthy [Data sample_sent]" "pending [Data sample_sent] = sample_sent"
    using sent(2) by simp_all
  note r = this
  have "sample_answer \<noteq> []"
    using main_reads_request[OF q r(1)] sent(1) r(2) res
    by (auto simp: sample_answer_def decoder_main_def request_of_def write_cbor_def write_raw_ok MAX_FRAME_def)
  then have s: "healthy [Data sample_answer]" "pending [Data sample_answer] = sample_answer"
    by simp_all
  show ?thesis
    using decoder_pipeline[OF q rep r(1) _ s(1), unfolded r(2) s(2)] sent(1) res by (simp add: sample_answer_def)
qed

subsection \<open>A decoder that misbehaves\<close>

lemma read_length: "read k r = (Inr bs, r') \<Longrightarrow> length bs \<le> k"
  by (cases "(k, r)" rule: read.cases) auto

lemma read_exact_length: "read_exact n acc r = (Inr out, r') \<Longrightarrow> length acc \<le> n \<Longrightarrow> length out = n"
proof (induction n acc r rule: read_exact.induct)
  case (1 n acc r)
  obtain res1 r1 where rd: "read (n - length acc) r = (res1, r1)"
    by fastforce
  show ?case
  proof (cases "length acc < n")
    case True
    with "1.prems"(1) consider (more) b bs where "res1 = Inr (b # bs)" "read_exact n (acc @ b # bs) r1 = (Inr out, r')"
      | (again) "res1 = Inl Interrupted" "read_exact n acc r1 = (Inr out, r')"
      by (auto simp: read_exact.simps [of n acc r] rd split: sum.splits list.splits io_error.splits)
    then show ?thesis
    proof cases
      case more
      then show ?thesis
        using "1.IH"(2) [OF True rd [symmetric] more(1) refl more(2)] read_length [of "n - length acc" r "b # bs" r1] rd by simp
    next
      case again
      then show ?thesis
        using "1.IH"(1) [OF True rd [symmetric] again(1) refl again(2)] "1.prems"(2) by simp
    qed
  qed (use "1.prems" in \<open>simp add: read_exact.simps [of n acc r]\<close>)
qed

lemma blob_frame_size: "read_frame dec r = (Inr (Some (Blob chunk)), r') \<Longrightarrow> length chunk \<le> MAX_FRAME"
  by (auto simp: read_frame_def Let_def dest!: read_exact_length split: prod.splits sum.splits option.splits if_splits)

lemma reply_data_size: "reply_data dec len dat r = Inr out \<Longrightarrow> length dat \<le> len + MAX_FRAME \<Longrightarrow> length out \<le> len + MAX_FRAME"
proof (induction dec len dat r rule: reply_data.induct)
  case (1 dec len dat r)
  show ?case
  proof (cases "length dat < len")
    case True
    with "1.prems"(1) obtain chunk r' where f: "read_frame dec r = (Inr (Some (Blob chunk)), r')"
      and rest: "reply_data dec len (dat @ chunk) r' = Inr out"
      by (auto simp: reply_data.simps [of dec len dat r] split: prod.splits sum.splits option.splits frame.splits)
    show ?thesis
      using "1.IH" [OF True f [symmetric] refl refl refl rest] blob_frame_size [OF f] True by simp
  next
    case False
    with "1.prems" show ?thesis
      by (simp add: reply_data.simps [of dec len dat r])
  qed
qed

lemma nothing_after_the_deadline: "deadline_reader (pre @ (0, p) # rest) = deadline_reader (pre @ [(0, p)])"
  by (induction pre) (auto split: polled.split)

text \<open>
  C37. A decoder that misbehaves costs its attachment and nothing else. Whatever the child process writes, however slowly, and
  however it dies: once it was started its process group is killed and it is waited for; nothing that arrives after
  the deadline is looked at; and what is accepted as a decoded attachment is the reply read until then, never
  longer than the ceiling and one frame.
\<close>

theorem decoder_is_contained:
  assumes "decode_within dec deser w = (acts, result)"
  shows "(acts = [] \<or> acts = [Spawned, Group_Killed, Child_Waited])
    \<and> (\<forall>pre p rest. dw_polls w = pre @ (0, p) # rest \<longrightarrow> decode_within dec deser (w\<lparr> dw_polls := pre @ [(0, p)] \<rparr>) = (acts, result))
    \<and> (\<forall>d. result = Inr d \<longrightarrow> acts \<noteq> [] \<and> read_reply dec deser (deadline_reader (dw_polls w)) = Inr d
         \<and> length (dc_data d) \<le> MAX_DECODED + MAX_FRAME)"
proof -
  have size: "length (dc_data d) \<le> MAX_DECODED + MAX_FRAME" if "read_reply dec deser r = Inr d" for r d
    using that
    by (fastforce simp: read_reply_def result_simps dest: reply_data_size split: prod.splits sum.splits option.splits if_splits)
  have "acts = [] \<or> acts = [Spawned, Group_Killed, Child_Waited]"
    using assms by (auto simp: decode_within_def Let_def split: if_splits option.splits)
  moreover have "decode_within dec deser (w\<lparr> dw_polls := pre @ [(0, p)] \<rparr>) = (acts, result)" if "dw_polls w = pre @ (0, p) # rest" for pre p rest
  proof (cases w)
    case (fields a b ps q r)
    then show ?thesis
      unfolding assms [symmetric] decode_within_def using that
      by (simp only: decode_env.simps nothing_after_the_deadline [of pre p rest])
  qed
  moreover have "acts \<noteq> [] \<and> read_reply dec deser (deadline_reader (dw_polls w)) = Inr d" if "result = Inr d" for d
    using assms that by (auto simp: decode_within_def Let_def split: if_splits option.splits sum.splits)
  ultimately show ?thesis
    using size by blast
qed

theorem decoder_is_contained_witness:
  "decode_within (\<lambda>bs. Inr bs) (\<lambda>_. Inl []) \<lparr> dw_installed = True, dw_spawn = None, dw_polls = [(5, P_Signal), (0, P_Late), (9, P_Late)],
     dw_wait = None, dw_signal = Some SIGKILL \<rparr>
   = decode_within (\<lambda>bs. Inr bs) (\<lambda>_. Inl []) \<lparr> dw_installed = True, dw_spawn = None, dw_polls = [(5, P_Signal), (0, P_Late)],
     dw_wait = None, dw_signal = Some SIGKILL \<rparr>"
proof -
  let ?w = "\<lparr> dw_installed = True, dw_spawn = None, dw_polls = [(5, P_Signal), (0, P_Late), (9, P_Late)],
     dw_wait = None, dw_signal = Some SIGKILL \<rparr>"
  obtain acts result where r: "decode_within (\<lambda>bs. Inr bs) (\<lambda>_. Inl []) ?w = (acts, result)"
    by (rule prod.exhaust)
  from decoder_is_contained [OF r] have "dw_polls ?w = [(5, P_Signal)] @ (0, P_Late) # [(9, P_Late)] \<longrightarrow>
      decode_within (\<lambda>bs. Inr bs) (\<lambda>_. Inl []) (?w\<lparr> dw_polls := [(5, P_Signal)] @ [(0, P_Late)] \<rparr>) = (acts, result)"
    by blast
  then show ?thesis
    using r by simp
qed

end
