(* ===== verification/Session.thy ===== *)
theory Session
  imports Dbus Grammar Decode_Proc Provenance
begin

text \<open>
  The session data plane: \<open>crates/ai-daemon/src/session.rs\<close>. A worker owns one socket; its state is
  the \<open>Worker\<close> of the source with what it has written and how its coming writes will go (\<open>k_writes\<close>,
  exhausted meaning the client keeps reading). The fields of a session that change (\<open>cancelled\<close>,
  \<open>current_req\<close>, \<open>usage\<close>, \<open>attachments\<close>) are read and written in the daemon's map, which the reader
  thread and the bus share; \<open>k_session\<close> is used for the fields that never change. What the world
  does during a request is an argument, the \<open>host\<close>: files and clocks, the replies of backends, and
  the ticks of a wait, in which other threads may also change the daemon.
\<close>

subsection \<open>Waiting for a backend\<close>

definition BACKEND_SILENCE_TIMEOUT :: nat where
  "BACKEND_SILENCE_TIMEOUT = 900 * 1000000000"

definition SILENCE_SLICE :: nat where
  "SILENCE_SLICE = 5 * 1000000000"

definition MILLI :: nat where
  "MILLI = 1000000"

datatype wait_error = Wait_Timeout | Wait_Disconnected

definition stalled :: "string \<Rightarrow> nat \<Rightarrow> wait_error \<Rightarrow> string" where
  "stalled backend silence reason =
     (case reason of
        Wait_Timeout \<Rightarrow> ''backend '' @ backend @ '' went silent for '' @ show_nat (silence div 1000000000)
          @ ''s without finishing the request''
      | Wait_Disconnected \<Rightarrow> ''backend '' @ backend @ '' stopped answering'')"

definition slice_of :: "nat \<Rightarrow> nat \<Rightarrow> nat \<Rightarrow> nat" where
  "slice_of silence slice_len silent_for = max (min slice_len (sat_sub silence silent_for)) MILLI"

text \<open>A slice that produced nothing: how long the silence is now, or that it was too long.\<close>

definition quiet_slice :: "nat \<Rightarrow> nat \<Rightarrow> bool \<Rightarrow> nat \<Rightarrow> nat option" where
  "quiet_slice silence slice_len paused silent_for =
     (if paused then Some silent_for
      else
        let silent = silent_for + slice_of silence slice_len silent_for
        in if silence \<le> silent then None else Some silent)"

text \<open>What one \<open>recv_timeout\<close> returned; after a time-out, whether the slot was paused.\<close>

datatype recv = Got backend_event | Quiet bool | Gone

fun wait_for_event_with :: "nat \<Rightarrow> nat \<Rightarrow> nat \<Rightarrow> recv list \<Rightarrow> ((wait_error + backend_event) \<times> recv list) option" where
  "wait_for_event_with silence slice_len silent_for [] = None"
| "wait_for_event_with silence slice_len silent_for (Got ev # rest) = Some (Inr ev, rest)"
| "wait_for_event_with silence slice_len silent_for (Gone # rest) = Some (Inl Wait_Disconnected, rest)"
| "wait_for_event_with silence slice_len silent_for (Quiet paused # rest) =
     (case quiet_slice silence slice_len paused silent_for of
        None \<Rightarrow> Some (Inl Wait_Timeout, rest)
      | Some silent \<Rightarrow> wait_for_event_with silence slice_len silent rest)"

subsection \<open>The worker\<close>

datatype out = Out_Event event | Out_Blob "byte list" | Out_Notice string event

record worker =
  k_session :: session
  k_limits :: limits
  k_history :: "message list"
  k_tools :: "tool_schema list option"
  k_params :: params
  k_grammar :: "string option"
  k_pending :: "string list"
  k_proto :: nat
  k_nonce :: string
  k_budget :: "bucket option"
  k_out :: "out list"
  k_writes :: "bool list"

type_synonym sys = "worker \<times> daemon"

datatype tick =
    Tick_Event backend_event
  | Tick_Quiet
  | Tick_Closed
  | Tick_Cancel
  | Tick_Other "daemon \<Rightarrow> daemon"

record host =
  h_env :: env
  h_bus :: "bus_call option"
  h_secs :: nat
  h_now :: nat
  h_end :: nat
  h_broken :: "string option"
  h_control :: "backend_event list"
  h_json_ok :: "string \<Rightarrow> bool"
  h_show_json :: "json \<Rightarrow> string"
  h_decode :: "attach_kind \<Rightarrow> string \<Rightarrow> byte list \<Rightarrow> string + decoded"
  h_admit :: "(daemon \<Rightarrow> daemon) list"
  h_ticks :: "(nat \<times> tick) list"

definition new_worker :: "nat \<Rightarrow> byte list option \<Rightarrow> session \<Rightarrow> limits \<Rightarrow> worker" where
  "new_worker now urandom s l =
     \<lparr> k_session = s, k_limits = l, k_history = [], k_tools = None, k_params = default_params,
       k_grammar = None, k_pending = [], k_proto = MIN_DATA_PROTO, k_nonce = mint_nonce urandom,
       k_budget = map_option (bucket_new now) (l_session_rate l), k_out = [], k_writes = [] \<rparr>"

abbreviation k_sid :: "worker \<Rightarrow> string" where
  "k_sid k \<equiv> s_id (k_session k)"

definition write_out :: "out \<Rightarrow> worker \<Rightarrow> bool \<times> worker" where
  "write_out x k =
     (case k_writes k of
        False # ws \<Rightarrow> (False, k\<lparr> k_writes := ws \<rparr>)
      | True # ws \<Rightarrow> (True, k\<lparr> k_writes := ws, k_out := k_out k @ [x] \<rparr>)
      | [] \<Rightarrow> (True, k\<lparr> k_out := k_out k @ [x] \<rparr>))"

definition send_ok :: "event \<Rightarrow> worker \<Rightarrow> bool \<times> worker" where
  "send_ok ev k = write_out (Out_Event ev) k"

definition say :: "event \<Rightarrow> worker \<Rightarrow> worker" where
  "say ev k = snd (send_ok ev k)"

text \<open>The shared session: what it is now, and a change of it.\<close>

definition shared :: "worker \<Rightarrow> daemon \<Rightarrow> session" where
  "shared k d = unwrap_or (map_of (d_sessions d) (k_sid k)) (k_session k)"

definition on_session :: "string \<Rightarrow> (session \<Rightarrow> session) \<Rightarrow> daemon \<Rightarrow> daemon" where
  "on_session sid g d =
     (case map_of (d_sessions d) sid of
        None \<Rightarrow> d
      | Some s \<Rightarrow> d\<lparr> d_sessions := AList.update sid (g s) (d_sessions d) \<rparr>)"

subsection \<open>Steps that may refuse\<close>

text \<open>
  The early returns of the handlers: a step either refuses, having told the client, or goes on
  with a value.
\<close>

type_synonym 'a op = "sys \<Rightarrow> sys + 'a \<times> sys"

definition ret :: "'a \<Rightarrow> 'a op" where
  "ret x s = Inr (x, s)"

definition next_op :: "'a op \<Rightarrow> ('a \<Rightarrow> 'b op) \<Rightarrow> 'b op" where
  "next_op m f s = (case m s of Inl s' \<Rightarrow> Inl s' | Inr (x, s') \<Rightarrow> f x s')"

definition refuse :: "string \<Rightarrow> string \<Rightarrow> 'a op" where
  "refuse cd msg s = (case s of (k, d) \<Rightarrow> Inl (say (event_error cd msg) k, d))"

definition need :: "bool \<Rightarrow> string \<Rightarrow> string \<Rightarrow> unit op" where
  "need ok cd msg = (if ok then ret () else refuse cd msg)"

text \<open>Consent for a capability, asked of the policy engine and audited when refused.\<close>

definition permit :: "config \<Rightarrow> host \<Rightarrow> string \<Rightarrow> unit op" where
  "permit c h capability s =
     (case s of (k, d) \<Rightarrow>
        let i = s_identity (k_session k)
        in case check c (h_bus h) (e_read (h_env h)) (h_secs h) i capability (d_policy d) of
             (Inr _, ps) \<Rightarrow> Inr ((), k, d\<lparr> d_policy := ps \<rparr>)
           | (Inl reason, ps) \<Rightarrow>
               Inl (say (event_error ''policy-denied'' reason) k,
                    audit (Denied i capability reason) (d\<lparr> d_policy := ps \<rparr>)))"

definition model_serves :: "session \<Rightarrow> string \<Rightarrow> string + unit" where
  "model_serves s capability =
     (if list_ex (\<lambda>c. c = capability) (s_capabilities s) then Inr ()
      else Inl (''model '' @ s_model s @ '' does not offer '' @ capability @ '' (it offers: ''
             @ (if s_capabilities s = [] then ''nothing'' else join '', '' (s_capabilities s))
             @ ''). If it should, an administrator can reinstall it with `aidctl install --capability ''
             @ capability @ ''`; otherwise ask for a model that does.''))"

definition serving :: "string \<Rightarrow> unit op" where
  "serving capability s =
     (case model_serves (k_session (fst s)) capability of
        Inr _ \<Rightarrow> Inr ((), s)
      | Inl reason \<Rightarrow> refuse ''attachment-unsupported'' reason s)"

definition connect :: "host \<Rightarrow> backend op" where
  "connect h s =
     (case s of (k, d) \<Rightarrow>
        (case get_backend (e_spawn (h_env h)) (s_backend (k_session k)) (d_backends d) of
           (Inr b, bs) \<Rightarrow> Inr (b, k, d\<lparr> d_backends := bs \<rparr>)
         | (Inl e, bs) \<Rightarrow> Inl (say (event_error ''backend-failed'' e) k, d\<lparr> d_backends := bs \<rparr>)))"

definition set_live :: "string \<Rightarrow> backend \<Rightarrow> daemon \<Rightarrow> daemon" where
  "set_live name b d = d\<lparr> d_backends := on_live name (\<lambda>_. b) (d_backends d) \<rparr>"

definition load_weights :: "host \<Rightarrow> backend \<Rightarrow> loaded_model op" where
  "load_weights h b s =
     (case s of (k, d) \<Rightarrow>
        let ss = k_session k
        in case load_model (h_broken h) (s_model ss) (s_blob ss) (s_digest ss) (s_max_context ss) (h_control h) b of
             (Inr lm, b') \<Rightarrow> Inr (lm, k, set_live (s_backend ss) b' d)
           | (Inl e, b') \<Rightarrow>
               Inl (say (event_error ''backend-failed'' (''loading '' @ s_model ss @ '': '' @ e)) k,
                    set_live (s_backend ss) b' d))"

definition within_spend :: "config \<Rightarrow> host \<Rightarrow> unit op" where
  "within_spend c h s =
     (case s of (k, d) \<Rightarrow>
        let i = s_identity (k_session k)
        in case spend_permits c (h_now h) i (k_limits k) (s_model (k_session k)) (d_policy d) of
             (Inr _, ps) \<Rightarrow> Inr ((), k, d\<lparr> d_policy := ps \<rparr>)
           | (Inl reason, ps) \<Rightarrow>
               Inl (say (event_error ''rate-limited'' reason) k,
                    audit (Denied i ''spend'' reason) (d\<lparr> d_policy := ps \<rparr>)))"

definition within_session_rate :: "host \<Rightarrow> nat \<Rightarrow> unit op" where
  "within_session_rate h n s =
     (case s of (k, d) \<Rightarrow>
        (case k_budget k of
           None \<Rightarrow> Inr ((), s)
         | Some b \<Rightarrow>
             let (ok, b') = bucket_take (h_now h) n b; k' = k\<lparr> k_budget := Some b' \<rparr>
             in if ok then Inr ((), k', d)
                else refuse ''rate-limited''
                       (''this session was opened at '' @ show_nat (l_tokens_per_minute (k_limits k))
                        @ '' tokens/minute and has spent them; the identity's own allowance is untouched'')
                       (k', d)))"

definition over_allowance :: "worker \<Rightarrow> string" where
  "over_allowance k =
     key (s_identity (k_session k)) @ '' is over its '' @ show_nat (l_tokens_per_minute (k_limits k))
     @ '' tokens/minute allowance''"

definition within_rate :: "host \<Rightarrow> nat \<Rightarrow> string \<Rightarrow> unit op" where
  "within_rate h n msg s =
     (case s of (k, d) \<Rightarrow>
        let (ok, ps) = charge_tokens (h_now h) (s_identity (k_session k)) (k_limits k) n (d_policy d);
            d' = d\<lparr> d_policy := ps \<rparr>
        in if ok then Inr ((), k, d') else refuse ''rate-limited'' msg (k, d'))"

subsection \<open>Reserving the KV cache and a decode slot\<close>

definition sched_of :: "config \<Rightarrow> limits_cfg" where
  "sched_of c =
     scheduler_new (max_concurrent_interactive (c_scheduler c)) (max_concurrent_background (c_scheduler c))
       (kv_budget_bytes (c_scheduler c))"

definition kv_error_text :: "kv_error \<Rightarrow> string" where
  "kv_error_text e =
     (case e of
        ExceedsBudget extra budget \<Rightarrow>
          show_nat extra @ '' bytes of context exceeds the whole '' @ show_nat budget @ '' byte KV budget''
      | Exhausted used budget freed extra \<Rightarrow>
          ''KV budget exhausted: '' @ show_nat used @ '' of '' @ show_nat budget @ '' bytes in use, only ''
          @ show_nat freed @ '' of it evictable, and '' @ show_nat extra @ '' more needed'')"

text \<open>The scheduler's orders, carried out on the backends.\<close>

fun obey1 :: "string option \<Rightarrow> preempt \<Rightarrow> backends \<Rightarrow> backends" where
  "obey1 broken (SetPaused b q p) bs = set_paused broken b q p bs"
| "obey1 broken (DropCache b sid) bs = drop_session_cache broken b sid bs"

definition obey :: "string option \<Rightarrow> inner \<times> preempt list \<Rightarrow> daemon \<Rightarrow> daemon" where
  "obey broken r d =
     d\<lparr> d_scheduler := fst r, d_backends := fold (obey1 broken) (snd r) (d_backends d) \<rparr>"

definition eviction_notice :: event where
  "eviction_notice =
     Ev_Notice ''context-evicted'' ''the scheduler reclaimed this session's KV cache; replay to continue''"

definition announce_evictions :: "string list \<Rightarrow> daemon \<Rightarrow> worker \<Rightarrow> worker" where
  "announce_evictions evicted d k =
     k\<lparr> k_out := k_out k @ map (\<lambda>sid. Out_Notice sid eviction_notice)
                             (filter (\<lambda>sid. map_of (d_sessions d) sid \<noteq> None) evicted) \<rparr>"

definition reserve_cache :: "config \<Rightarrow> host \<Rightarrow> nat \<Rightarrow> unit op" where
  "reserve_cache c h bytes s =
     (case s of (k, d) \<Rightarrow>
        let ss = k_session k
        in case reserve_kv (sched_of c) (h_now h) (s_id ss) (s_backend ss) (s_class ss) bytes (d_scheduler d) of
             (Inr evicted, r) \<Rightarrow>
               (let d' = obey (h_broken h) r d in Inr ((), announce_evictions evicted d' k, d'))
           | (Inl e, _) \<Rightarrow> refuse ''rate-limited'' (kv_error_text e) s)"

text \<open>
  \<open>admit\<close>: join the queue, and look again whenever another thread has changed something; the flag
  says whether the slot was granted before the recorded changes ran out.
\<close>

fun wait_slot :: "config \<Rightarrow> host \<Rightarrow> nat \<Rightarrow> session \<Rightarrow> (daemon \<Rightarrow> daemon) list \<Rightarrow> daemon \<Rightarrow> bool \<times> daemon" where
  "wait_slot c h ticket ss others d =
     (case admit_poll (sched_of c) ticket (s_id ss) (s_class ss) (d_scheduler d) of
        Some r \<Rightarrow> (True, obey (h_broken h) r d)
      | None \<Rightarrow> (case others of [] \<Rightarrow> (False, d) | g # rest \<Rightarrow> wait_slot c h ticket ss rest (g d)))"

declare wait_slot.simps [simp del]

definition admit :: "config \<Rightarrow> host \<Rightarrow> session \<Rightarrow> daemon \<Rightarrow> bool \<times> nat \<times> daemon" where
  "admit c h ss d =
     (let (ticket, inn) = admit_enqueue (s_id ss) (s_class ss) (d_scheduler d);
          (granted, d') = wait_slot c h ticket ss (h_admit h) (d\<lparr> d_scheduler := inn \<rparr>)
      in (granted, ticket, d'))"

definition drop_slot_of :: "host \<Rightarrow> nat \<Rightarrow> daemon \<Rightarrow> daemon" where
  "drop_slot_of h ticket d = obey (h_broken h) (release ticket (d_scheduler d)) d"

definition begin_on :: "host \<Rightarrow> string \<Rightarrow> (nat \<Rightarrow> backend_request) \<Rightarrow> daemon \<Rightarrow> (string + nat) \<times> daemon" where
  "begin_on h name mk d =
     (case map_of (live (d_backends d)) name of
        None \<Rightarrow> (Inl (''backend '' @ name @ '' is not running''), d)
      | Some b \<Rightarrow> (case begin_req (h_broken h) mk b of (r, b') \<Rightarrow> (r, set_live name b' d)))"

definition change_live :: "string \<Rightarrow> (backend \<Rightarrow> backend) \<Rightarrow> daemon \<Rightarrow> daemon" where
  "change_live name g d = d\<lparr> d_backends := on_live name g (d_backends d) \<rparr>"

subsection \<open>Estimates\<close>

definition div_ceil :: "nat \<Rightarrow> nat \<Rightarrow> nat" where
  "div_ceil a b = (a + b - 1) div b"

definition estimate_tokens :: "string \<Rightarrow> nat" where
  "estimate_tokens s = div_ceil (length s) 4"

definition estimate_prompt_tokens :: "message list \<Rightarrow> nat" where
  "estimate_prompt_tokens history = sum_list (map (\<lambda>m. estimate_tokens (msg_content m) + 4) history)"

definition estimate_attachment_tokens :: "raw_attachment \<Rightarrow> nat" where
  "estimate_attachment_tokens a =
     (if ra_kind a = ''image'' then
        div_ceil (u64_sat_mul (unwrap_or (ra_w a) 0) (unwrap_or (ra_h a) 0)) 784
      else if ra_kind a = ''audio'' then
        div_ceil (length (ra_data a) div 4 * 50) (max (unwrap_or (ra_rate a) 16000) 1)
      else 0)"

definition kind_str :: "attach_kind \<Rightarrow> string" where
  "kind_str kind = (case kind of Attach_Image \<Rightarrow> ''image'' | Attach_Audio \<Rightarrow> ''audio'')"

definition backend_silence :: "config \<Rightarrow> nat" where
  "backend_silence c =
     (let n = backend_silence_seconds (c_daemon c)
      in if n = 0 then BACKEND_SILENCE_TIMEOUT else n * 1000000000)"

text \<open>The meter always, the ledger only where there is a price or a ceiling.\<close>

definition charge_for :: "config \<Rightarrow> nat \<Rightarrow> worker \<Rightarrow> nat \<Rightarrow> nat \<Rightarrow> daemon \<Rightarrow> daemon" where
  "charge_for c now k prompt completion d =
     (let i = s_identity (k_session k);
          ps = record_usage now i (u64_add prompt completion) (d_policy d);
          micros = price_of c (s_model (k_session k)) prompt completion
      in if micros = 0 \<and> l_daily_spend_micros (k_limits k) = 0 then d\<lparr> d_policy := ps \<rparr>
         else d\<lparr> d_policy := snd (charge_spend now i micros ps) \<rparr>)"

subsection \<open>What a turn needs before it may run\<close>

text \<open>\<open>{:?}\<close> of a string: the escapes of quote, backslash and the common control characters.\<close>

definition quoted :: "string \<Rightarrow> string" where
  "quoted s =
     [CHR 0x22]
     @ concat (map (\<lambda>x. if x = CHR 0x22 then [CHR 0x5C, CHR 0x22] else if x = CHR 0x5C then [CHR 0x5C, CHR 0x5C]
                        else if x = CHR 0x0A then [CHR 0x5C, CHR ''n''] else if x = CHR 0x0D then [CHR 0x5C, CHR ''r'']
                        else if x = CHR 0x09 then [CHR 0x5C, CHR ''t''] else [x]) s)
     @ [CHR 0x22]"

definition turn_capability :: "worker \<Rightarrow> string" where
  "turn_capability k = (if k_tools k \<noteq> None then CAP_GENERATE_TOOLS else CAP_GENERATE)"

definition grammar_error_text :: "grammar_error \<Rightarrow> string" where
  "grammar_error_text e =
     (case e of
        No_tools \<Rightarrow> ''no tools to compile''
      | Not_plain_identifier n \<Rightarrow> ''tool name '' @ quoted n @ '' is not a plain identifier'')"

text \<open>Tools override a grammar of the client's; a backend without grammars gets the schemas only.\<close>

definition effective_grammar :: "host \<Rightarrow> backend \<Rightarrow> string option op" where
  "effective_grammar h b s =
     (let k = fst s
      in case k_tools k of
           None \<Rightarrow> Inr (k_grammar k, s)
         | Some tools \<Rightarrow>
             if l_no_tools (k_limits k)
             then refuse ''policy-denied'' ''this session was opened without tool calling and cannot be widened'' s
             else if \<not> can b ''tools''
             then refuse ''attachment-unsupported'' (''backend '' @ b_name b @ '' does not offer tool calling'') s
             else if can b ''grammar''
             then (case compile (h_show_json h) tools of
                     Inr g \<Rightarrow> Inr (Some (gbnf g), s)
                   | Inl e \<Rightarrow> refuse ''protocol'' (''tool schema: '' @ grammar_error_text e) s)
             else Inr (k_grammar k, s))"

definition fits_context :: "loaded_model \<Rightarrow> nat \<Rightarrow> nat \<Rightarrow> unit op" where
  "fits_context lm prompt maxt s =
     (let ctx = min (s_max_context (k_session (fst s))) (max (lm_n_ctx lm) 1)
      in need (prompt + maxt \<le> ctx) ''policy-denied''
           (''roughly '' @ show_nat prompt @ '' prompt tokens plus '' @ show_nat maxt
            @ '' of output exceeds this session's '' @ show_nat ctx @ '' token context'') s)"

text \<open>The attachments a history names that the session holds, in order.\<close>

definition held_attachments :: "message list \<Rightarrow> (string \<times> raw_attachment) list \<Rightarrow> raw_attachment list" where
  "held_attachments history atts = List.map_filter (map_of atts) (concat (map msg_attachments history))"

definition carried_attachments :: "backend \<Rightarrow> raw_attachment list op" where
  "carried_attachments b s =
     (let atts = held_attachments (k_history (fst s)) (s_attachments (shared (fst s) (snd s)));
          needed = (if list_ex (\<lambda>a. ra_kind a = ''audio'') atts then ''audio-in'' else ''vision'');
          total = sum_list (map (\<lambda>a. length (ra_data a)) atts)
      in next_op
           (if atts = [] then ret ()
            else next_op (need (can b needed) ''attachment-unsupported'' (''backend '' @ b_name b @ '' cannot '' @ needed))
                   (\<lambda>_. serving needed))
           (\<lambda>_. next_op (need (total \<le> MAX_ATTACHMENT_PAYLOAD) ''policy-denied''
                (show_nat (length atts) @ '' attachment(s) totalling '' @ show_nat total
                 @ '' decoded bytes exceed the '' @ show_nat MAX_ATTACHMENT_PAYLOAD
                 @ '' bytes one request can carry; send fewer, or smaller ones''))
           (\<lambda>_. ret atts)) s)"

record plan =
  pl_backend :: backend
  pl_prompt :: nat
  pl_reserve :: nat
  pl_grammar :: "string option"
  pl_attachments :: "raw_attachment list"

definition turn_plan :: "config \<Rightarrow> host \<Rightarrow> plan op" where
  "turn_plan c h s =
     (let k = fst s;
          prompt = estimate_prompt_tokens (k_history k);
          maxt = unwrap_or (max_tokens (k_params k)) 512;
          reserve = prompt + maxt
      in next_op (permit c h (turn_capability k)) (\<lambda>_.
         next_op (serving ''generate'') (\<lambda>_.
         next_op (connect h) (\<lambda>b.
         next_op (effective_grammar h b) (\<lambda>g.
         next_op (load_weights h b) (\<lambda>lm.
         next_op (fits_context lm prompt maxt) (\<lambda>_.
         next_op (within_spend c h) (\<lambda>_.
         next_op (within_session_rate h reserve) (\<lambda>_.
         next_op (within_rate h reserve (over_allowance k)) (\<lambda>_.
         next_op (reserve_cache c h (u64_sat_mul reserve (lm_kv_bytes_per_token lm))) (\<lambda>_.
         next_op (carried_attachments b) (\<lambda>atts.
           ret \<lparr> pl_backend = b, pl_prompt = prompt, pl_reserve = reserve, pl_grammar = g,
                 pl_attachments = atts \<rparr>))))))))))) s)"

subsection \<open>Running a request\<close>

record pump =
  pu_req :: nat
  pu_silent :: nat
  pu_usage :: usage_counts
  pu_emitted :: bool
  pu_cancel_sent :: bool
  pu_produced :: nat

definition new_pump :: "nat \<Rightarrow> nat \<Rightarrow> pump" where
  "new_pump req att_tokens =
     \<lparr> pu_req = req, pu_silent = 0, pu_usage = no_usage\<lparr> attachment_tokens := att_tokens \<rparr>,
       pu_emitted = False, pu_cancel_sent = False, pu_produced = 0 \<rparr>"

type_synonym running_request = "pump \<times> sys"

definition cancel_on :: "host \<Rightarrow> worker \<Rightarrow> nat \<Rightarrow> daemon \<Rightarrow> daemon" where
  "cancel_on h k req d = change_live (s_backend (k_session k)) (cancel_req (h_broken h) req) d"

text \<open>The look at the cancel flag: at the top of a turn's loop, and on every quiet slice.\<close>

definition check_cancel :: "host \<Rightarrow> running_request \<Rightarrow> running_request" where
  "check_cancel h r =
     (case r of (p, k, d) \<Rightarrow>
        if \<not> pu_cancel_sent p \<and> s_cancelled (shared k d)
        then (p\<lparr> pu_cancel_sent := True \<rparr>, k, cancel_on h k (pu_req p) d)
        else r)"

definition is_held :: "nat option \<Rightarrow> daemon \<Rightarrow> bool" where
  "is_held ticket d = (case ticket of None \<Rightarrow> False | Some t \<Rightarrow> is_paused t (d_scheduler d))"

definition say_stalled :: "worker \<Rightarrow> string \<Rightarrow> nat \<Rightarrow> wait_error \<Rightarrow> worker" where
  "say_stalled k name silence reason = say (event_error ''backend-failed'' (stalled name silence reason)) k"

text \<open>
  The loop around \<open>wait_for_event\<close>, which the three kinds of request share: \<open>handle\<close> is its match on
  an event, which says whether to stop, \<open>before\<close> what it does before each wait and \<open>between\<close> what it
  does on a quiet slice. The flag of the result says whether it has stopped.
\<close>

fun pump_loop ::
  "config \<Rightarrow> host \<Rightarrow> nat option \<Rightarrow> (nat \<Rightarrow> backend_event \<Rightarrow> running_request \<Rightarrow> bool \<times> running_request)
   \<Rightarrow> (running_request \<Rightarrow> running_request) \<Rightarrow> (running_request \<Rightarrow> running_request)
   \<Rightarrow> (nat \<times> tick) list \<Rightarrow> running_request \<Rightarrow> bool \<times> running_request" where
  "pump_loop c h ticket handle before between [] r = (False, r)"
| "pump_loop c h ticket handle before between ((now, tick) # ticks) (p, k, d) =
     (case tick of
        Tick_Event ev \<Rightarrow>
          (case handle now ev (p\<lparr> pu_silent := 0 \<rparr>, k, d) of
             (True, r) \<Rightarrow> (True, r)
           | (False, r) \<Rightarrow> pump_loop c h ticket handle before between ticks (before r))
      | Tick_Quiet \<Rightarrow>
          (case quiet_slice (backend_silence c) SILENCE_SLICE (is_held ticket d) (pu_silent p) of
             None \<Rightarrow> (True, p, say_stalled k (s_backend (k_session k)) (backend_silence c) Wait_Timeout, d)
           | Some silent \<Rightarrow>
               pump_loop c h ticket handle before between ticks (between (p\<lparr> pu_silent := silent \<rparr>, k, d)))
      | Tick_Closed \<Rightarrow> (True, p, say_stalled k (s_backend (k_session k)) (backend_silence c) Wait_Disconnected, d)
      | Tick_Cancel \<Rightarrow>
          pump_loop c h ticket handle before between ticks (p, k, cancel_in_flight (h_env h) (k_sid k) d)
      | Tick_Other g \<Rightarrow> pump_loop c h ticket handle before between ticks (p, k, g d))"

subsection \<open>A turn\<close>

definition offered :: "worker \<Rightarrow> string \<Rightarrow> bool" where
  "offered k name = (case k_tools k of None \<Rightarrow> False | Some tools \<Rightarrow> list_ex (\<lambda>t. tool_name t = name) tools)"

fun check_calls :: "host \<Rightarrow> worker \<Rightarrow> tool_call list \<Rightarrow> string + unit" where
  "check_calls h k [] = Inr ()"
| "check_calls h k (call # calls) =
     (if \<not> offered k (tc_name call)
      then Inl (''backend '' @ s_backend (k_session k) @ '' called '' @ quoted (tc_name call)
             @ '', which this turn did not offer'')
      else if \<not> h_json_ok h (tc_arguments call)
      then Inl (''backend '' @ s_backend (k_session k) @ '' sent arguments for '' @ quoted (tc_name call)
             @ '' that are not JSON'')
      else check_calls h k calls)"

definition calls_are_ones_we_offered :: "host \<Rightarrow> worker \<Rightarrow> tool_call list \<Rightarrow> string + unit" where
  "calls_are_ones_we_offered h k calls =
     (if k_tools k = None
      then Inl (''backend '' @ s_backend (k_session k) @ '' sent a tool call for a turn that offered no tools'')
      else check_calls h k calls)"

definition call_message :: "tool_call \<Rightarrow> message" where
  "call_message call =
     (let q = [CHR 0x22]
      in \<lparr> msg_role = ''assistant'',
           msg_content = ''{'' @ q @ ''tool_call'' @ q @ '':{'' @ q @ ''id'' @ q @ '':'' @ q @ tc_id call @ q @ '',''
             @ q @ ''name'' @ q @ '':'' @ q @ tc_name call @ q @ '','' @ q @ ''arguments'' @ q @ '':''
             @ tc_arguments call @ ''}}'',
           msg_attachments = [], msg_tool_call_id = Some (tc_id call) \<rparr>)"

definition take_calls :: "host \<Rightarrow> tool_call list \<Rightarrow> event \<Rightarrow> running_request \<Rightarrow> bool \<times> running_request" where
  "take_calls h calls ev r =
     (case r of (p, k, d) \<Rightarrow>
        (case calls_are_ones_we_offered h k calls of
           Inl e \<Rightarrow> (True, p, say (event_error ''backend-failed'' e) k, d)
         | Inr _ \<Rightarrow>
             (False, p\<lparr> pu_emitted := True \<rparr>,
              say ev (k\<lparr> k_history := k_history k @ map call_message calls,
                         k_pending := k_pending k @ map tc_id calls \<rparr>), d)))"

definition turn_event :: "config \<Rightarrow> host \<Rightarrow> bool \<Rightarrow> nat \<Rightarrow> nat \<Rightarrow> backend_event \<Rightarrow> running_request
    \<Rightarrow> bool \<times> running_request" where
  "turn_event c h stream prompt now ev r =
     (case r of (p, k, d) \<Rightarrow>
        (case ev of
           BE_Token _ tok lp \<Rightarrow>
             let u = pu_usage p;
                 p1 = p\<lparr> pu_usage := u\<lparr> completion_tokens := u64_add (completion_tokens u) 1 \<rparr> \<rparr>;
                 d1 = d\<lparr> d_scheduler := charge now (k_sid k) 1 (d_scheduler d) \<rparr>
             in if \<not> stream then (False, p1, k, d1)
                else (case send_ok (Ev_Token tok lp) k of
                        (True, k1) \<Rightarrow> (False, p1, k1, d1)
                      | (False, k1) \<Rightarrow> (True, p1, k1, cancel_on h k (pu_req p) d1))
         | BE_ToolCalls _ calls \<Rightarrow> take_calls h calls (Ev_ToolCalls calls) r
         | BE_ToolCall _ call \<Rightarrow> take_calls h [call] (Ev_ToolCall call) r
         | BE_Done _ bu reason \<Rightarrow>
             let u = (pu_usage p)\<lparr> prompt_tokens := max (prompt_tokens bu) prompt,
                        completion_tokens := max (completion_tokens bu) (completion_tokens (pu_usage p)) \<rparr>;
                 d1 = charge_for c now k (prompt_tokens u) (completion_tokens u) d;
                 why = (case reason of Some x \<Rightarrow> Some x | None \<Rightarrow> if pu_emitted p then Some ''tool_call'' else None)
             in (True, p\<lparr> pu_usage := u \<rparr>, say (Ev_Done True u why) k, d1)
         | BE_Error _ cd msg \<Rightarrow> (True, p, say (event_error cd msg) k, d)
         | _ \<Rightarrow> (False, r)))"

definition turn_request :: "plan \<Rightarrow> worker \<Rightarrow> nat \<Rightarrow> backend_request" where
  "turn_request pl k req =
     B_Generate req (s_model (k_session k)) (k_sid k) (framed_messages (k_limits k) (k_nonce k) (k_history k))
       (k_params k) (pl_grammar pl) (k_tools k) (2 \<le> k_proto k \<and> can (pl_backend pl) ''parallel-tools'')
       (pl_attachments pl)"

text \<open>What every request does when its loop has stopped.\<close>

definition end_request :: "host \<Rightarrow> nat \<Rightarrow> nat \<Rightarrow> worker \<Rightarrow> daemon \<Rightarrow> daemon" where
  "end_request h ticket req k d =
     (let d1 = change_live (s_backend (k_session k)) (finish_req req) d;
          d2 = on_session (k_sid k) (\<lambda>s. s\<lparr> s_current_req := None \<rparr>) d1;
          d3 = drop_slot_of h ticket d2
      in d3\<lparr> d_scheduler := mark_idle (h_end h) (k_sid k) (d_scheduler d3) \<rparr>)"

definition end_turn :: "host \<Rightarrow> nat \<Rightarrow> plan \<Rightarrow> running_request \<Rightarrow> sys" where
  "end_turn h ticket pl r =
     (case r of (p, k, d) \<Rightarrow>
        let d1 = end_request h ticket (pu_req p) k d;
            u = pu_usage p;
            actual = u64_add (u64_add (prompt_tokens u) (completion_tokens u)) (attachment_tokens u);
            ps = (if pl_reserve pl < actual
                  then snd (charge_tokens (h_end h) (s_identity (k_session k)) (k_limits k)
                              (actual - pl_reserve pl) (d_policy d1))
                  else d_policy d1)
        in (k, on_session (k_sid k)
                 (\<lambda>s. s\<lparr> s_usage := (s_usage s)\<lparr>
                          prompt_tokens := u64_add (prompt_tokens (s_usage s)) (prompt_tokens u),
                          completion_tokens := u64_add (completion_tokens (s_usage s)) (completion_tokens u),
                          attachment_tokens := u64_add (attachment_tokens (s_usage s)) (attachment_tokens u) \<rparr> \<rparr>)
                 (d1\<lparr> d_policy := ps \<rparr>)))"

text \<open>Clear the flag, take a slot, start the request: the number it runs under, or that it did not start.\<close>

definition start_request :: "config \<Rightarrow> host \<Rightarrow> (nat \<Rightarrow> backend_request) \<Rightarrow> string \<Rightarrow> sys
    \<Rightarrow> (bool \<times> sys) + (nat \<times> nat \<times> sys)" where
  "start_request c h mk failure s =
     (case s of (k, d) \<Rightarrow>
        let ss = k_session k; (granted, ticket, d1) = admit c h ss d
        in if \<not> granted then Inl (False, k, d1)
           else
             (case begin_on h (s_backend ss) mk d1 of
                (Inl e, d2) \<Rightarrow>
                  Inl (True, say (event_error ''backend-failed'' (if failure = [] then e else failure)) k,
                       drop_slot_of h ticket d2)
              | (Inr req, d2) \<Rightarrow>
                  Inr (ticket, req, k, obey (h_broken h) (attach ticket (s_backend ss) req (d_scheduler d2)) d2)))"

definition turn_run :: "config \<Rightarrow> host \<Rightarrow> bool \<Rightarrow> plan \<Rightarrow> sys \<Rightarrow> bool \<times> sys" where
  "turn_run c h stream pl s =
     (case s of (k, d) \<Rightarrow>
        (case start_request c h (turn_request pl k) []
                (k, on_session (k_sid k) (\<lambda>s. s\<lparr> s_cancelled := False \<rparr>) d) of
           Inl res \<Rightarrow> res
         | Inr (ticket, req, k1, d1) \<Rightarrow>
             let p = new_pump req (sum_list (map estimate_attachment_tokens (pl_attachments pl)));
                 d2 = on_session (k_sid k) (\<lambda>s. s\<lparr> s_current_req := Some req \<rparr>) d1
             in case pump_loop c h (Some ticket) (turn_event c h stream (pl_prompt pl)) (check_cancel h)
                       (check_cancel h) (h_ticks h) (check_cancel h (p, k1, d2)) of
                  (False, _, s') \<Rightarrow> (False, s')
                | (True, r) \<Rightarrow> (True, end_turn h ticket pl r)))"

definition turn :: "config \<Rightarrow> host \<Rightarrow> bool \<Rightarrow> sys \<Rightarrow> bool \<times> sys" where
  "turn c h stream s =
     (case turn_plan c h s of Inl s' \<Rightarrow> (True, s') | Inr (pl, s') \<Rightarrow> turn_run c h stream pl s')"

subsection \<open>Media\<close>

definition media_event :: "host \<Rightarrow> nat \<Rightarrow> backend_event \<Rightarrow> running_request \<Rightarrow> bool \<times> running_request" where
  "media_event h now ev r =
     (case r of (p, k, d) \<Rightarrow>
        (case ev of
           BE_Media _ kind w ht fmt rate dat \<Rightarrow>
             if MAX_ATTACHMENT_PAYLOAD < length dat
             then (True, p, say (event_error ''backend-failed'' (''the backend produced '' @ show_nat (length dat)
                     @ '' bytes, past the '' @ show_nat MAX_ATTACHMENT_PAYLOAD @ '' one request can carry'')) k, d)
             else
               let u = pu_usage p;
                   n = (pu_produced p + 1) mod U32;
                   p1 = p\<lparr> pu_produced := n, pu_usage := u\<lparr> media_bytes := u64_add (media_bytes u) (length dat) \<rparr> \<rparr>;
                   header = \<lparr> mo_id = k_sid k @ ''-'' @ show_nat n, mo_kind = kind, mo_w = w, mo_h = ht,
                              mo_fmt = fmt, mo_rate = rate, mo_len = length dat \<rparr>
               in (case send_ok (Ev_Media header) k of
                     (False, k1) \<Rightarrow> (True, p1, k1, cancel_on h k (pu_req p) d)
                   | (True, k1) \<Rightarrow>
                       (case write_out (Out_Blob dat) k1 of
                          (False, k2) \<Rightarrow> (True, p1, k2, cancel_on h k (pu_req p) d)
                        | (True, k2) \<Rightarrow> (False, p1, k2, d)))
         | BE_Done _ bu reason \<Rightarrow>
             let u = (pu_usage p)\<lparr> media_bytes := max (media_bytes (pu_usage p)) (media_bytes bu) \<rparr>
             in (True, p\<lparr> pu_usage := u \<rparr>, say (Ev_Done True u reason) k, d)
         | BE_Error _ cd msg \<Rightarrow> (True, p, say (event_error cd msg) k, d)
         | _ \<Rightarrow> (False, r)))"

text \<open>\<open>u32::clamp\<close>, which panics when its bounds are the wrong way round.\<close>

definition clamp :: "nat \<Rightarrow> nat \<Rightarrow> nat \<Rightarrow> nat option" where
  "clamp n lo hi = (if hi < lo then None else Some (min (max n lo) hi))"

definition media_guard :: "config \<Rightarrow> host \<Rightarrow> media_kind \<Rightarrow> backend op" where
  "media_guard c h kind s =
     next_op (need (2 \<le> k_proto (fst s)) ''protocol'' ''media output needs data protocol 2; say hello with it'') (\<lambda>_.
     next_op (permit c h CAP_GENERATE_MEDIA) (\<lambda>_.
     next_op (connect h) (\<lambda>b.
     next_op (need (can b (media_capability kind)) ''attachment-unsupported''
                (''backend '' @ b_name b @ '' does not '' @ media_capability kind)) (\<lambda>_.
     next_op (serving (media_capability kind)) (\<lambda>_. ret b))))) s"

definition media_charge :: "host \<Rightarrow> backend \<Rightarrow> string \<Rightarrow> nat \<Rightarrow> unit op" where
  "media_charge h b prompt n s =
     next_op (load_weights h b) (\<lambda>_.
       within_rate h (estimate_tokens prompt + n * 64) (over_allowance (fst s))) s"

definition media_run :: "config \<Rightarrow> host \<Rightarrow> media_kind \<Rightarrow> string \<Rightarrow> params \<Rightarrow> nat \<Rightarrow> sys \<Rightarrow> bool \<times> sys" where
  "media_run c h kind prompt ps n s =
     (case s of (k, d) \<Rightarrow>
        (case start_request c h
                (\<lambda>req. B_GenerateMedia req (s_model (k_session k)) (k_sid k) kind prompt ps n) []
                (k, on_session (k_sid k) (\<lambda>s. s\<lparr> s_cancelled := False \<rparr>) d) of
           Inl res \<Rightarrow> res
         | Inr (ticket, req, k1, d1) \<Rightarrow>
             let d2 = on_session (k_sid k) (\<lambda>s. s\<lparr> s_current_req := Some req \<rparr>) d1
             in case pump_loop c h (Some ticket) (media_event h) id (check_cancel h) (h_ticks h)
                       (new_pump req 0, k1, d2) of
                  (False, _, s') \<Rightarrow> (False, s')
                | (True, p, k2, d3) \<Rightarrow>
                    (True, k2, on_session (k_sid k)
                       (\<lambda>s. s\<lparr> s_attachment_bytes := u64_add (s_attachment_bytes s) (media_bytes (pu_usage p)) \<rparr>)
                       (end_request h ticket req k2 d3))))"

text \<open>\<open>None\<close> is the panic of the clamp in a daemon configured for no attachments at all.\<close>

definition generate_media :: "config \<Rightarrow> host \<Rightarrow> media_kind \<Rightarrow> string \<Rightarrow> params \<Rightarrow> nat \<Rightarrow> sys \<Rightarrow> (bool \<times> sys) option" where
  "generate_media c h kind prompt ps asked s =
     (case media_guard c h kind s of
        Inl s' \<Rightarrow> Some (True, s')
      | Inr (b, s1) \<Rightarrow>
          (case clamp asked 1 (max_per_session (c_attachments c)) of
             None \<Rightarrow> None
           | Some n \<Rightarrow>
               Some (case media_charge h b prompt n s1 of
                       Inl s' \<Rightarrow> (True, s')
                     | Inr (_, s2) \<Rightarrow> media_run c h kind prompt ps n s2)))"

subsection \<open>Embeddings and tokens\<close>

definition simple_event :: "config \<Rightarrow> nat \<Rightarrow> backend_event \<Rightarrow> running_request \<Rightarrow> bool \<times> running_request" where
  "simple_event c now ev r =
     (case r of (p, k, d) \<Rightarrow>
        (case ev of
           BE_Vectors _ vs \<Rightarrow> (False, p, say (Ev_Vectors vs) k, d)
         | BE_Tokens _ ts \<Rightarrow> (False, p, say (Ev_Tokens ts) k, d)
         | BE_Done _ u reason \<Rightarrow>
             (True, p, say (Ev_Done True u reason) k,
              charge_for c now k (prompt_tokens u) (completion_tokens u) d)
         | BE_Error _ cd msg \<Rightarrow> (True, p, say (event_error cd msg) k, d)
         | _ \<Rightarrow> (False, r)))"

definition pump_simple :: "config \<Rightarrow> host \<Rightarrow> nat option \<Rightarrow> nat \<Rightarrow> sys \<Rightarrow> bool \<times> sys" where
  "pump_simple c h ticket req s =
     (case pump_loop c h ticket (simple_event c) id id (h_ticks h) (new_pump req 0, s) of
        (False, _, s') \<Rightarrow> (False, s')
      | (True, _, k, d) \<Rightarrow> (True, k, change_live (s_backend (k_session k)) (finish_req req) d))"

definition embed_plan :: "config \<Rightarrow> host \<Rightarrow> string list \<Rightarrow> unit op" where
  "embed_plan c h inputs s =
     next_op (permit c h CAP_EMBED) (\<lambda>_.
     next_op (connect h) (\<lambda>b.
     next_op (need (can b ''embed'') ''attachment-unsupported'' (''backend '' @ b_name b @ '' does not embed'')) (\<lambda>_.
     next_op (serving ''embed'') (\<lambda>_.
     next_op (within_spend c h) (\<lambda>_.
       within_rate h (sum_list (map estimate_tokens inputs)) ''over the tokens/minute allowance''))))) s"

definition embed :: "config \<Rightarrow> host \<Rightarrow> string list \<Rightarrow> sys \<Rightarrow> bool \<times> sys" where
  "embed c h inputs s =
     (case embed_plan c h inputs s of
        Inl s' \<Rightarrow> (True, s')
      | Inr (_, s') \<Rightarrow>
          (case start_request c h (\<lambda>req. B_Embed req (s_model (k_session (fst s'))) inputs)
                  ''could not start an embedding request'' s' of
             Inl res \<Rightarrow> res
           | Inr (ticket, req, s2) \<Rightarrow>
               (case pump_simple c h (Some ticket) req s2 of
                  (False, s3) \<Rightarrow> (False, s3)
                | (True, k, d) \<Rightarrow> (True, k, drop_slot_of h ticket d))))"

definition tokenize :: "config \<Rightarrow> host \<Rightarrow> string \<Rightarrow> sys \<Rightarrow> bool \<times> sys" where
  "tokenize c h txt s =
     (case connect h s of
        Inl s' \<Rightarrow> (True, s')
      | Inr (_, k, d) \<Rightarrow>
          (case begin_on h (s_backend (k_session k)) (\<lambda>req. B_Tokenize req (s_model (k_session k)) txt) d of
             (Inl _, d1) \<Rightarrow> (True, say (event_error ''backend-failed'' ''could not start a tokenize request'') k, d1)
           | (Inr req, d1) \<Rightarrow> pump_simple c h None req (k, d1)))"

subsection \<open>Tool results\<close>

definition tool_message :: "tool_result_item \<Rightarrow> message" where
  "tool_message r =
     \<lparr> msg_role = ''tool'', msg_content = tr_content r, msg_attachments = [], msg_tool_call_id = Some (tr_id r) \<rparr>"

text \<open>The loop over the results: it stops at the first one nobody waits for.\<close>

fun take_results :: "tool_result_item list \<Rightarrow> worker \<Rightarrow> bool \<times> worker" where
  "take_results [] k = (True, k)"
| "take_results (r # rs) k =
     (if tr_id r \<notin> set (k_pending k)
      then (False, say (event_error ''protocol'' (''this session is waiting on [''
                     @ join '', '' (map quoted (k_pending k)) @ ''], not '' @ tr_id r)) k)
      else take_results rs (k\<lparr> k_pending := remove1 (tr_id r) (k_pending k),
                               k_history := k_history k @ [tool_message r] \<rparr>))"

definition answer_tools :: "config \<Rightarrow> host \<Rightarrow> tool_result_item list \<Rightarrow> sys \<Rightarrow> bool \<times> sys" where
  "answer_tools c h results s =
     (case s of (k, d) \<Rightarrow>
        if k_pending k = []
        then (True, say (event_error ''protocol'' ''no tool call is outstanding on this session'') k, d)
        else
          (case take_results results k of
             (False, k') \<Rightarrow> (True, k', d)
           | (True, k') \<Rightarrow> if k_pending k' = [] then turn c h True (k', d) else (True, k', d)))"

subsection \<open>Attachments\<close>

definition check_attachment_budget :: "attach_cfg \<Rightarrow> attach_kind \<Rightarrow> raw_attachment \<Rightarrow> string + unit" where
  "check_attachment_budget budget kind raw =
     (case kind of
        Attach_Image \<Rightarrow>
          let w = unwrap_or (ra_w raw) 0; ht = unwrap_or (ra_h raw) 0; pixels = u64_sat_mul w ht
          in if w = 0 \<or> ht = 0 then Inl ''an image attachment needs w and h''
             else if max_pixels budget < pixels
             then Inl (show_nat pixels @ '' pixels exceeds the '' @ show_nat (max_pixels budget) @ '' pixel limit'')
             else
               rbind (case ra_fmt raw of
                        None \<Rightarrow> Inr 4
                      | Some f \<Rightarrow> if f = ''rgb8'' then Inr 3 else if f = ''rgba8'' then Inr 4
                                  else Inl (''unsupported pixel format '' @ quoted f)) (\<lambda>bpp.
               let expected = u64_sat_mul pixels bpp
               in if length (ra_data raw) \<noteq> expected
                  then Inl (show_nat w @ ''x'' @ show_nat ht @ '' '' @ unwrap_or (ra_fmt raw) ''rgba8'' @ '' needs ''
                         @ show_nat expected @ '' bytes, got '' @ show_nat (length (ra_data raw)))
                  else Inr ())
      | Attach_Audio \<Rightarrow>
          let samples = length (ra_data raw) div 4
          in if unwrap_or (ra_rate raw) 0 = 0 then Inl ''an audio attachment needs a sample rate''
             else if max_samples budget < samples
             then Inl (show_nat samples @ '' samples exceeds the '' @ show_nat (max_samples budget) @ '' sample limit'')
             else if length (ra_data raw) mod 4 \<noteq> 0 then Inl ''audio must be mono float32 PCM''
             else Inr ())"

datatype 'v drained = Drained "byte list" "'v frame list" | Interrupted_By_Request | Too_Long | Client_Gone

text \<open>Reading the declared payload off the frames that follow.\<close>

fun drain :: "nat \<Rightarrow> byte list \<Rightarrow> 'v frame list \<Rightarrow> 'v drained" where
  "drain len payload fs =
     (if length payload < len
      then (case fs of
              [] \<Rightarrow> Client_Gone
            | Cbor _ # _ \<Rightarrow> Interrupted_By_Request
            | Blob chunk # rest \<Rightarrow>
                if len < length (payload @ chunk) then Too_Long else drain len (payload @ chunk) rest)
      else Drained payload fs)"

declare drain.simps [simp del]

text \<open>The attachment as declared, or as the confined decoder returned it.\<close>

definition raw_of :: "config \<Rightarrow> host \<Rightarrow> string \<Rightarrow> attach_kind \<Rightarrow> attach_meta \<Rightarrow> byte list \<Rightarrow> string + raw_attachment" where
  "raw_of c h i kind meta payload =
     (case am_encoded meta of
        None \<Rightarrow>
          Inr \<lparr> ra_id = i, ra_kind = kind_str kind, ra_w = am_w meta, ra_h = am_h meta, ra_fmt = am_fmt meta,
                ra_rate = am_rate meta, ra_data = payload \<rparr>
      | Some hint \<Rightarrow>
          if \<not> allow_encoded (c_attachments c)
          then Inl ''this install accepts raw pixels and PCM only; decode client-side''
          else
            rbind (h_decode h kind hint payload) (\<lambda>x.
              Inr \<lparr> ra_id = i, ra_kind = kind_str kind, ra_w = dc_w x, ra_h = dc_h x, ra_fmt = dc_fmt x,
                    ra_rate = dc_rate x, ra_data = dc_data x \<rparr>))"

datatype verdict = Served | Failed | Fatal

definition worker_attach :: "config \<Rightarrow> host \<Rightarrow> string \<Rightarrow> attach_kind \<Rightarrow> attach_meta \<Rightarrow> nat \<Rightarrow> 'v frame list \<Rightarrow> sys
    \<Rightarrow> verdict \<times> 'v frame list \<times> sys" where
  "worker_attach c h i kind meta len fs s =
     (case s of (k, d) \<Rightarrow>
        let budget = c_attachments c
        in if max_bytes budget < len
           then (Fatal, fs, say (event_error ''policy-denied'' (''attachment of '' @ show_nat len
                   @ '' bytes exceeds the '' @ show_nat (max_bytes budget) @ '' byte limit'')) k, d)
           else if max_per_session budget \<le> length (s_attachments (shared k d)) mod U32
           then (Fatal, fs, say (event_error ''policy-denied'' (''this session may hold ''
                   @ show_nat (max_per_session budget) @ '' attachments'')) k, d)
           else
             (case drain len [] fs of
                Client_Gone \<Rightarrow> (Fatal, [], s)
              | Interrupted_By_Request \<Rightarrow>
                  (Fatal, fs, say (event_error ''protocol'' ''attachment interrupted by a request frame'') k, d)
              | Too_Long \<Rightarrow>
                  (Fatal, fs, say (event_error ''protocol'' ''attachment BLOBs exceeded the declared length'') k, d)
              | Drained payload rest \<Rightarrow>
                  (case raw_of c h i kind meta payload of
                     Inl e \<Rightarrow> (Failed, rest, say (event_error ''attachment-unsupported'' e) k, d)
                   | Inr raw \<Rightarrow>
                       (case check_attachment_budget budget kind raw of
                          Inl e \<Rightarrow> (Failed, rest, say (event_error ''policy-denied'' e) k, d)
                        | Inr _ \<Rightarrow>
                            (Served, rest, k,
                             on_session (k_sid k)
                               (\<lambda>ss. ss\<lparr> s_attachment_bytes := u64_add (s_attachment_bytes ss) (length (ra_data raw)),
                                         s_attachments := AList.update i raw (s_attachments ss) \<rparr>) d)))))"

subsection \<open>Requests\<close>

definition hello :: "nat \<Rightarrow> worker \<Rightarrow> verdict \<times> worker" where
  "hello proto k =
     (let asked = (if proto = 0 then DATA_PROTO else proto); ss = k_session k
      in if \<not> (MIN_DATA_PROTO \<le> asked \<and> asked \<le> DATA_PROTO)
         then (Fatal, say (event_error ''protocol'' (''this daemon speaks data protocol '' @ show_nat MIN_DATA_PROTO
                 @ '' to '' @ show_nat DATA_PROTO @ '', not '' @ show_nat asked)) k)
         else
           (Served, say (Ev_Hello True asked
              \<lparr> si_session = s_id ss, si_model = s_model ss, si_identity = key (s_identity ss), si_local = s_local ss,
                si_capabilities = s_capabilities ss, si_max_context = s_max_context ss \<rparr>) (k\<lparr> k_proto := asked \<rparr>)))"

text \<open>\<open>None\<close> is a panic; the flag says whether the handler has returned.\<close>

definition dispatch :: "config \<Rightarrow> host \<Rightarrow> request \<Rightarrow> 'v frame list \<Rightarrow> sys \<Rightarrow> (bool \<times> verdict \<times> 'v frame list \<times> sys) option" where
  "dispatch c h req fs s =
     (case s of (k, d) \<Rightarrow>
        (case req of
           Hello proto \<Rightarrow> (case hello proto k of (v, k') \<Rightarrow> Some (True, v, fs, k', d))
         | Attach i kind meta len \<Rightarrow> Some (True, worker_attach c h i kind meta len fs s)
         | Generate msgs stream ps g tools \<Rightarrow>
             (case turn c h stream
                     (k\<lparr> k_history := msgs, k_params := unwrap_or ps default_params, k_tools := tools,
                         k_grammar := g, k_pending := [] \<rparr>, d) of
                (fin, s') \<Rightarrow> Some (fin, Served, fs, s'))
         | ToolResult i content \<Rightarrow>
             (case answer_tools c h [\<lparr> tr_id = i, tr_content = content \<rparr>] s of (fin, s') \<Rightarrow> Some (fin, Served, fs, s'))
         | ToolResults results \<Rightarrow>
             (case answer_tools c h results s of (fin, s') \<Rightarrow> Some (fin, Served, fs, s'))
         | GenerateMedia kind prompt ps n \<Rightarrow>
             (case generate_media c h kind prompt (unwrap_or ps default_params) n s of
                None \<Rightarrow> None
              | Some (fin, s') \<Rightarrow> Some (fin, Served, fs, s'))
         | Embed inputs \<Rightarrow> (case embed c h inputs s of (fin, s') \<Rightarrow> Some (fin, Served, fs, s'))
         | Tokenize txt \<Rightarrow> (case tokenize c h txt s of (fin, s') \<Rightarrow> Some (fin, Served, fs, s'))
         | Cancel \<Rightarrow> Some (True, Served, fs, s)))"

lemma drain_shorter: "drain len payload fs = Drained dat rest \<Longrightarrow> length rest \<le> length fs"
proof (induction len payload fs rule: drain.induct)
  case (1 len payload fs)
  then show ?case
    by (subst (asm) (2) drain.simps) (fastforce split: if_splits list.splits frame.splits)
qed

lemma worker_attach_shorter: "length (fst (snd (worker_attach c h i kind meta len fs s))) \<le> length fs"
  by (auto simp: worker_attach_def Let_def split: prod.split drained.split sum.split dest: drain_shorter)

lemma dispatch_shorter: "dispatch c h req fs s = Some (fin, v, rest, s') \<Longrightarrow> length rest \<le> length fs"
  using worker_attach_shorter[of c h _ _ _ _ fs s]
  by (auto simp: dispatch_def split: prod.splits request.splits option.splits) (metis fst_conv snd_conv)+

text \<open>
  The worker's loop over the frames its reader hands it; \<open>hosts\<close> is the world during each request
  in turn. It ends with the frames, on a fatal verdict, when the session was closed, or waiting.
\<close>

datatype ended = Ended | Still_Waiting | Panicked

function run :: "config \<Rightarrow> ('v \<Rightarrow> string + request) \<Rightarrow> (nat \<Rightarrow> host) \<Rightarrow> nat \<Rightarrow> 'v frame list \<Rightarrow> sys \<Rightarrow> ended \<times> sys" where
  "run c deser hosts n fs s =
     (case s of (k, d) \<Rightarrow>
        if s_closed (shared k d) then (Ended, s)
        else
          (case fs of
             [] \<Rightarrow> (Ended, s)
           | Blob _ # _ \<Rightarrow>
               (Ended, say (event_error ''protocol'' ''a BLOB arrived with no attachment to own it'') k, d)
           | Cbor v # rest \<Rightarrow>
               (case deser v of
                  Inl e \<Rightarrow>
                    run c deser hosts n rest (say (event_error ''protocol'' (''unrecognised request: '' @ e)) k, d)
                | Inr req \<Rightarrow>
                    (case dispatch c (hosts n) req rest (k, touch (h_now (hosts n)) d) of
                       None \<Rightarrow> (Panicked, s)
                     | Some (fin, verdict, rest', s') \<Rightarrow>
                         if \<not> fin then (Still_Waiting, s')
                         else if verdict = Fatal then (Ended, s')
                         else run c deser hosts (Suc n) rest' s'))))"
  by pat_completeness auto
termination
  by (relation "measure (\<lambda>(c, deser, hosts, n, fs, s). length fs)") (auto dest: dispatch_shorter)

declare run.simps [simp del]

text \<open>The thread: the loop and then the teardown, which a panic skips.\<close>

definition session_thread :: "config \<Rightarrow> ('v \<Rightarrow> string + request) \<Rightarrow> (nat \<Rightarrow> host) \<Rightarrow> byte list option \<Rightarrow> session \<Rightarrow> limits
    \<Rightarrow> 'v frame list \<Rightarrow> daemon \<Rightarrow> ended \<times> sys" where
  "session_thread c deser hosts urandom ss l fs d =
     (case run c deser hosts 0 fs (new_worker (h_now (hosts 0)) urandom ss l, d) of
        (Ended, k, d') \<Rightarrow> (Ended, k, retire (h_env (hosts 0)) (shared k d') d')
      | r \<Rightarrow> r)"

text \<open>
  The reader thread, up to what it does: a cancel at once, everything else to the worker, and a
  cancel when the client is gone; it just stops when the worker is.
\<close>

datatype 'v reader_act = Act_Cancel | Act_Forward "'v frame"

fun read_socket :: "('v \<Rightarrow> string + request) \<Rightarrow> (io_error + 'v frame option) list \<Rightarrow> 'v reader_act list" where
  "read_socket deser [] = []"
| "read_socket deser (Inr (Some (Cbor v)) # rest) =
     (if deser v = Inr Cancel then Act_Cancel # read_socket deser rest
      else Act_Forward (Cbor v) # read_socket deser rest)"
| "read_socket deser (Inr (Some (Blob bs)) # rest) = Act_Forward (Blob bs) # read_socket deser rest"
| "read_socket deser (Inr None # rest) = [Act_Cancel]"
| "read_socket deser (Inl _ # rest) = [Act_Cancel]"

end
