(* ===== verification/Session_Safety.thy ===== *)
theory Session_Safety
  imports Session "HOL-Library.Multiset"
begin

text \<open>
  What the session data plane guarantees: the silence net counts exactly the unpaused slices; a
  turn runs only within every limit of its session; the calls shown to a client are ones it
  offered; tool results resume a turn exactly when the last one is in; an accepted attachment is
  within its budget and drained; and a request that has ended leaves nothing running.
\<close>

subsection \<open>The silence net\<close>

text \<open>
  The specification: the wait gives up at the \<open>budget\<close>-th slice that passed in silence while the
  request was free to speak; paused slices neither count nor reset the count.
\<close>

fun wait_spec :: "nat \<Rightarrow> recv list \<Rightarrow> ((wait_error + backend_event) \<times> recv list) option" where
  "wait_spec budget [] = None"
| "wait_spec budget (Got ev # rest) = Some (Inr ev, rest)"
| "wait_spec budget (Gone # rest) = Some (Inl Wait_Disconnected, rest)"
| "wait_spec budget (Quiet True # rest) = wait_spec budget rest"
| "wait_spec budget (Quiet False # rest) =
     (if budget \<le> 1 then Some (Inl Wait_Timeout, rest) else wait_spec (budget - 1) rest)"

lemma div_ceil_le_iff: "0 < b \<Longrightarrow> div_ceil a b \<le> n \<longleftrightarrow> a \<le> n * b"
  by (simp add: div_ceil_def less_Suc_eq_le[symmetric] div_less_iff_less_mult) linarith

lemma quiet_slice_counts:
  assumes "MILLI dvd silence" "MILLI dvd slice_len" "0 < slice_len" "j * slice_len < silence"
  shows "quiet_slice silence slice_len False (j * slice_len) =
    (if silence \<le> Suc j * slice_len then None else Some (Suc j * slice_len))"
proof -
  have "MILLI dvd silence - j * slice_len"
    using assms by (simp add: dvd_diff_nat)
  then have "MILLI \<le> silence - j * slice_len" "MILLI \<le> slice_len"
    using assms by (auto intro: dvd_imp_le)
  then have "slice_of silence slice_len (j * slice_len) = min slice_len (silence - j * slice_len)"
    by (simp add: slice_of_def)
  then show ?thesis
    using assms(4) by (auto simp: quiet_slice_def Let_def min_def)
qed

lemma wait_counts:
  assumes "MILLI dvd silence" "MILLI dvd slice_len" "0 < slice_len"
  shows "j * slice_len < silence \<Longrightarrow>
    wait_for_event_with silence slice_len (j * slice_len) rs = wait_spec (div_ceil silence slice_len - j) rs"
proof (induction rs arbitrary: j)
  case (Cons r rs)
  have last: "div_ceil silence slice_len - j \<le> 1 \<longleftrightarrow> silence \<le> Suc j * slice_len"
    using div_ceil_le_iff[OF assms(3), of silence "Suc j"] by linarith
  show ?case
  proof (cases r)
    case (Quiet paused)
    then show ?thesis
      using Cons.IH[of j] Cons.IH[of "Suc j"] Cons.prems last quiet_slice_counts[OF assms Cons.prems]
      by (cases paused) (auto simp: quiet_slice_def[of _ _ True])
  qed simp_all
qed simp

lemma backend_silence_milli: "MILLI dvd backend_silence c \<and> 0 < backend_silence c"
  by (auto simp: backend_silence_def BACKEND_SILENCE_TIMEOUT_def MILLI_def Let_def)

text \<open>
  The silence net is exact. Whatever the configured window, waiting in slices with the floor
  of a millisecond is the specification above: the wait ends at the event, at the close of the
  channel, or at the slice that makes the unpaused silence reach the window, which is the
  \<open>ceil(window / 5 s)\<close>-th unpaused quiet slice, however many paused ones came between.
\<close>

theorem silence_net_exact:
  "wait_for_event_with (backend_silence c) SILENCE_SLICE 0 rs
     = wait_spec (div_ceil (backend_silence c) SILENCE_SLICE) rs"
proof -
  have "MILLI dvd SILENCE_SLICE" "0 < SILENCE_SLICE"
    by (simp_all add: SILENCE_SLICE_def MILLI_def)
  then show ?thesis
    using wait_counts[of "backend_silence c" SILENCE_SLICE 0 rs] backend_silence_milli[of c] by simp
qed

subsection \<open>Steps that may refuse\<close>

lemma next_op_Inr [result_simps]:
  "next_op m f s = Inr r \<longleftrightarrow> (\<exists>x s'. m s = Inr (x, s') \<and> f x s' = Inr r)"
  by (auto simp: next_op_def split: sum.splits prod.splits)

lemma refuse_not_Inr [simp]: "refuse cd msg s \<noteq> Inr r"
  by (simp add: refuse_def split: prod.split)

lemma ret_Inr [result_simps]: "ret x s = Inr (y, s') \<longleftrightarrow> y = x \<and> s' = s"
  by (auto simp: ret_def)

lemma need_Inr [result_simps]: "need ok cd msg s = Inr (y, s') \<longleftrightarrow> ok \<and> s' = s"
  by (auto simp: need_def ret_def)

lemma permit_Inr [result_simps]:
  "permit c h cap (k, d) = Inr (y, s') \<longleftrightarrow>
     (\<exists>ps. check c (h_bus h) (e_read (h_env h)) (h_secs h) (s_identity (k_session k)) cap (d_policy d) = (Inr (), ps)
        \<and> s' = (k, d\<lparr> d_policy := ps \<rparr>))"
  by (auto simp: permit_def Let_def split: sum.splits prod.splits)

lemma serving_Inr [result_simps]:
  "serving cap s = Inr (y, s') \<longleftrightarrow> cap \<in> set (s_capabilities (k_session (fst s))) \<and> s' = s"
  by (auto simp: serving_def model_serves_def list_ex_iff split: sum.splits if_splits)

lemma connect_Inr [result_simps]:
  "connect h (k, d) = Inr (b, s') \<longleftrightarrow>
     (\<exists>bs. get_backend (e_spawn (h_env h)) (s_backend (k_session k)) (d_backends d) = (Inr b, bs)
        \<and> s' = (k, d\<lparr> d_backends := bs \<rparr>))"
  by (auto simp: connect_def split: sum.splits prod.splits)

lemma load_weights_Inr [result_simps]:
  "load_weights h b (k, d) = Inr (lm, s') \<longleftrightarrow>
     (\<exists>b'. load_model (h_broken h) (s_model (k_session k)) (s_blob (k_session k)) (s_digest (k_session k))
            (s_max_context (k_session k)) (h_control h) b = (Inr lm, b')
        \<and> s' = (k, set_live (s_backend (k_session k)) b' d))"
  by (auto simp: load_weights_def Let_def split: sum.splits prod.splits)

lemma effective_grammar_Inr [result_simps]:
  "effective_grammar h b s = Inr (g, s') \<longleftrightarrow>
     s' = s \<and>
     (case k_tools (fst s) of
        None \<Rightarrow> g = k_grammar (fst s)
      | Some tools \<Rightarrow> \<not> l_no_tools (k_limits (fst s)) \<and> can b ''tools''
          \<and> (if can b ''grammar'' then \<exists>x. compile (h_show_json h) tools = Inr x \<and> g = Some (gbnf x)
             else g = k_grammar (fst s)))"
  by (auto simp: effective_grammar_def Let_def split: option.splits sum.splits)

lemma within_spend_Inr [result_simps]:
  "within_spend c h (k, d) = Inr (y, s') \<longleftrightarrow>
     (\<exists>ps. spend_permits c (h_now h) (s_identity (k_session k)) (k_limits k) (s_model (k_session k)) (d_policy d)
             = (Inr (), ps) \<and> s' = (k, d\<lparr> d_policy := ps \<rparr>))"
  by (auto simp: within_spend_def Let_def split: sum.splits prod.splits)

lemma within_session_rate_Inr [result_simps]:
  "within_session_rate h n (k, d) = Inr (y, s') \<longleftrightarrow>
     (\<exists>bo. (case k_budget k of
              None \<Rightarrow> bo = None
            | Some b \<Rightarrow> fst (bucket_take (h_now h) n b) \<and> bo = Some (snd (bucket_take (h_now h) n b)))
       \<and> s' = (k\<lparr> k_budget := bo \<rparr>, d))"
  by (auto simp: within_session_rate_def Let_def split: option.splits prod.splits)

lemma within_rate_Inr [result_simps]:
  "within_rate h n msg (k, d) = Inr (y, s') \<longleftrightarrow>
     fst (charge_tokens (h_now h) (s_identity (k_session k)) (k_limits k) n (d_policy d))
     \<and> s' = (k, d\<lparr> d_policy := snd (charge_tokens (h_now h) (s_identity (k_session k)) (k_limits k) n (d_policy d)) \<rparr>)"
  by (auto simp: within_rate_def Let_def split: prod.splits)

lemma reserve_cache_Inr [result_simps]:
  "reserve_cache c h bytes (k, d) = Inr (y, s') \<longleftrightarrow>
     (\<exists>evicted r. reserve_kv (sched_of c) (h_now h) (k_sid k) (s_backend (k_session k)) (s_class (k_session k))
          bytes (d_scheduler d) = (Inr evicted, r)
        \<and> s' = (announce_evictions evicted (obey (h_broken h) r d) k, obey (h_broken h) r d))"
  by (auto simp: reserve_cache_def Let_def split: sum.splits prod.splits)

lemma carried_attachments_Inr [result_simps]:
  "carried_attachments b (k, d) = Inr (atts, s') \<longleftrightarrow>
     s' = (k, d) \<and> atts = held_attachments (k_history k) (s_attachments (shared k d))
     \<and> sum_list (map (\<lambda>a. length (ra_data a)) atts) \<le> MAX_ATTACHMENT_PAYLOAD
     \<and> (atts \<noteq> [] \<longrightarrow>
          (let needed = (if list_ex (\<lambda>a. ra_kind a = ''audio'') atts then ''audio-in'' else ''vision'')
           in can b needed \<and> needed \<in> set (s_capabilities (k_session k))))"
  by (auto simp: carried_attachments_def Let_def result_simps split: if_splits)

lemma fits_context_Inr [result_simps]:
  "fits_context lm prompt maxt s = Inr (y, s') \<longleftrightarrow>
     prompt + maxt \<le> min (s_max_context (k_session (fst s))) (max (lm_n_ctx lm) 1) \<and> s' = s"
  by (simp add: fits_context_def Let_def need_Inr)

text \<open>What the steps leave alone.\<close>

lemma check_keeps [simp]:
  assumes "check c bus rd now i cap ps = (r, ps')"
  shows "buckets ps' = buckets ps" "spend ps' = spend ps" "sessions ps' = sessions ps"
  using assms
  by (auto simp: check_def check_unknown_def remember_def split: list.splits option.splits sum.splits prod.splits)

lemma spend_permits_keeps_buckets:
  "spend_permits c now i l model ps = (r, ps') \<Longrightarrow> buckets ps' = buckets ps"
  by (auto simp: spend_permits_def spent_by_def Let_def split: if_splits option.splits prod.splits)

lemma spent_by_cong: "spend ps = spend ps' \<Longrightarrow> fst (spent_by now who ps) = fst (spent_by now who ps')"
  by (simp add: spent_by_def Let_def split: option.split)

lemma charge_tokens_cong:
  "buckets ps = buckets ps' \<Longrightarrow> fst (charge_tokens now i l n ps) = fst (charge_tokens now i l n ps')"
  by (simp add: charge_tokens_def Let_def)

lemma spend_permits_Inr:
  assumes "spend_permits c now i l model ps = (Inr (), ps')"
  shows "l_daily_spend_micros l = 0 \<or> price_of c model 1 1 = 0
    \<or> fst (spent_by now (key i) ps) < l_daily_spend_micros l"
  using assms by (auto simp: spend_permits_def Let_def split: if_splits prod.splits)

lemma reserve_kv_entry:
  assumes "reserve_kv cfg now u b cl n inn = (Inr evicted, inn', ms)"
  shows "\<exists>e. map_of (kv inn') u = Some e \<and> kv_bytes e = n \<and> kv_active e"
  using assms refl by (cases rule: reserve_kv_cases) (auto simp: map_of_kv_insert)

lemma obey_fields [simp]:
  "d_scheduler (obey broken r d) = fst r" "d_policy (obey broken r d) = d_policy d"
  "d_sessions (obey broken r d) = d_sessions d"
  by (simp_all add: obey_def)

lemma set_live_fields [simp]:
  "d_scheduler (set_live n b d) = d_scheduler d" "d_policy (set_live n b d) = d_policy d"
  "d_sessions (set_live n b d) = d_sessions d"
  by (simp_all add: set_live_def)

lemma announce_fields [simp]:
  "k_session (announce_evictions ev d k) = k_session k" "k_history (announce_evictions ev d k) = k_history k"
  "k_tools (announce_evictions ev d k) = k_tools k" "k_limits (announce_evictions ev d k) = k_limits k"
  by (simp_all add: announce_evictions_def)

text \<open>Everything a turn was held against before it may start.\<close>

definition turn_allowed :: "config \<Rightarrow> host \<Rightarrow> worker \<Rightarrow> daemon \<Rightarrow> nat \<Rightarrow> bool" where
  "turn_allowed c h k d n \<longleftrightarrow>
     fst (check c (h_bus h) (e_read (h_env h)) (h_secs h) (s_identity (k_session k)) (turn_capability k) (d_policy d))
       = Inr ()
     \<and> ''generate'' \<in> set (s_capabilities (k_session k))
     \<and> (k_tools k = None \<or> \<not> l_no_tools (k_limits k))
     \<and> n \<le> s_max_context (k_session k)
     \<and> (l_daily_spend_micros (k_limits k) = 0 \<or> price_of c (s_model (k_session k)) 1 1 = 0
        \<or> fst (spent_by (h_now h) (key (s_identity (k_session k))) (d_policy d)) < l_daily_spend_micros (k_limits k))
     \<and> (case k_budget k of None \<Rightarrow> True | Some b \<Rightarrow> fst (bucket_take (h_now h) n b))
     \<and> fst (charge_tokens (h_now h) (s_identity (k_session k)) (k_limits k) n (d_policy d))"

text \<open>The steps of a plan that went through, in two halves: up to the context, and the allowances.\<close>

lemma turn_plan_front:
  assumes "permit c h (turn_capability k) (k, d) = Inr ((), s1)" "serving ''generate'' s1 = Inr ((), s2)"
    "connect h s2 = Inr (b, s3)" "effective_grammar h b s3 = Inr (g, s4)" "load_weights h b s4 = Inr (lm, s5)"
    "fits_context lm prompt maxt s5 = Inr ((), s6)"
  shows "\<exists>ps d6. s6 = (k, d6) \<and> d_policy d6 = ps \<and> d_scheduler d6 = d_scheduler d \<and> d_sessions d6 = d_sessions d
    \<and> check c (h_bus h) (e_read (h_env h)) (h_secs h) (s_identity (k_session k)) (turn_capability k) (d_policy d)
        = (Inr (), ps)
    \<and> ''generate'' \<in> set (s_capabilities (k_session k))
    \<and> (k_tools k = None \<or> \<not> l_no_tools (k_limits k) \<and> can b ''tools'')
    \<and> prompt + maxt \<le> s_max_context (k_session k)"
proof -
  obtain ps where s1: "s1 = (k, d\<lparr> d_policy := ps \<rparr>)" and checked:
    "check c (h_bus h) (e_read (h_env h)) (h_secs h) (s_identity (k_session k)) (turn_capability k) (d_policy d)
       = (Inr (), ps)"
    using assms(1) by (auto simp: permit_Inr)
  have s2: "s2 = s1" "''generate'' \<in> set (s_capabilities (k_session k))"
    using assms(2) s1 by (auto simp: serving_Inr)
  obtain bs where s3: "s3 = (k, d\<lparr> d_policy := ps, d_backends := bs \<rparr>)"
    using assms(3) s1 s2 by (auto simp: connect_Inr)
  have s4: "s4 = s3" "k_tools k = None \<or> \<not> l_no_tools (k_limits k) \<and> can b ''tools''"
    using assms(4) s3 by (auto simp: effective_grammar_Inr split: option.splits)
  obtain b' where s5: "s5 = (k, set_live (s_backend (k_session k)) b' (d\<lparr> d_policy := ps, d_backends := bs \<rparr>))"
    using assms(5) s3 s4 by (auto simp: load_weights_Inr)
  have "s6 = s5" "prompt + maxt \<le> s_max_context (k_session k)"
    using assms(6) s5 by (auto simp: fits_context_Inr)
  then show ?thesis
    using checked s2(2) s4(2) s5 by simp
qed

lemma turn_plan_back:
  assumes "within_spend c h (k, d) = Inr ((), s7)" "within_session_rate h n s7 = Inr ((), s8)"
    "within_rate h n msg s8 = Inr ((), s9)" "reserve_cache c h bytes s9 = Inr ((), s10)"
    "carried_attachments b s10 = Inr (atts, (k', d'))"
  shows "\<exists>ps2 evicted ms bo. spend_permits c (h_now h) (s_identity (k_session k)) (k_limits k) (s_model (k_session k))
      (d_policy d) = (Inr (), ps2)
    \<and> (case k_budget k of None \<Rightarrow> True | Some b \<Rightarrow> fst (bucket_take (h_now h) n b))
    \<and> fst (charge_tokens (h_now h) (s_identity (k_session k)) (k_limits k) n ps2)
    \<and> reserve_kv (sched_of c) (h_now h) (k_sid k) (s_backend (k_session k)) (s_class (k_session k))
        bytes (d_scheduler d) = (Inr evicted, d_scheduler d', ms)
    \<and> sum_list (map (\<lambda>a. length (ra_data a)) atts) \<le> MAX_ATTACHMENT_PAYLOAD
    \<and> (\<exists>notes. k' = k\<lparr> k_budget := bo, k_out := k_out k @ notes \<rparr> \<and> set notes \<subseteq> range (\<lambda>i. Out_Notice i eviction_notice))"
proof -
  obtain ps2 where s7: "s7 = (k, d\<lparr> d_policy := ps2 \<rparr>)" and spend:
    "spend_permits c (h_now h) (s_identity (k_session k)) (k_limits k) (s_model (k_session k)) (d_policy d) = (Inr (), ps2)"
    using assms(1) by (auto simp: within_spend_Inr)
  obtain bo where s8: "s8 = (k\<lparr> k_budget := bo \<rparr>, d\<lparr> d_policy := ps2 \<rparr>)"
    and budget: "case k_budget k of None \<Rightarrow> True | Some b \<Rightarrow> fst (bucket_take (h_now h) n b)"
    using assms(2) s7 by (auto simp: within_session_rate_Inr split: option.splits)
  obtain ps3 where s9: "s9 = (k\<lparr> k_budget := bo \<rparr>, d\<lparr> d_policy := ps3 \<rparr>)"
    and rate: "fst (charge_tokens (h_now h) (s_identity (k_session k)) (k_limits k) n ps2)"
    using assms(3) s8 by (auto simp: within_rate_Inr)
  obtain evicted inn ms where cache:
    "reserve_kv (sched_of c) (h_now h) (k_sid k) (s_backend (k_session k)) (s_class (k_session k))
       bytes (d_scheduler d) = (Inr evicted, inn, ms)"
    and s10: "s10 = (announce_evictions evicted (obey (h_broken h) (inn, ms) (snd s9)) (fst s9),
                obey (h_broken h) (inn, ms) (snd s9))"
    using assms(4) s9 by (auto simp: reserve_cache_Inr)
  have "(k', d') = s10" "sum_list (map (\<lambda>a. length (ra_data a)) atts) \<le> MAX_ATTACHMENT_PAYLOAD"
    using assms(5) s10 by (auto simp: carried_attachments_Inr)
  moreover have "\<exists>notes. fst s10 = k\<lparr> k_budget := bo, k_out := k_out k @ notes \<rparr>
      \<and> set notes \<subseteq> range (\<lambda>i. Out_Notice i eviction_notice)"
    unfolding s10 s9 announce_evictions_def by (auto intro!: exI)
  ultimately show ?thesis
    using spend budget rate cache s10 s9
    by (intro exI[of _ ps2] exI[of _ evicted] exI[of _ ms] exI[of _ bo]) (auto dest: arg_cong[where f = fst])
qed

lemma turn_plan_Inr:
  assumes "turn_plan c h (k, d) = Inr (pl, k', d')"
  shows "pl_reserve pl = estimate_prompt_tokens (k_history k) + unwrap_or (max_tokens (k_params k)) 512
    \<and> turn_allowed c h k d (pl_reserve pl)
    \<and> (k_tools k = None \<or> can (pl_backend pl) ''tools'')
    \<and> sum_list (map (\<lambda>a. length (ra_data a)) (pl_attachments pl)) \<le> MAX_ATTACHMENT_PAYLOAD
    \<and> (\<exists>evicted bytes ms. reserve_kv (sched_of c) (h_now h) (k_sid k) (s_backend (k_session k))
           (s_class (k_session k)) bytes (d_scheduler d) = (Inr evicted, d_scheduler d', ms))
    \<and> (\<exists>bo notes. k' = k\<lparr> k_budget := bo, k_out := k_out k @ notes \<rparr> \<and> set notes \<subseteq> range (\<lambda>i. Out_Notice i eviction_notice))"
proof -
  let ?n = "estimate_prompt_tokens (k_history k) + unwrap_or (max_tokens (k_params k)) 512"
  obtain b g lm atts s1 s2 s3 s4 s5 s6 s7 s8 s9 s10 where front:
    "permit c h (turn_capability k) (k, d) = Inr ((), s1)" "serving ''generate'' s1 = Inr ((), s2)"
    "connect h s2 = Inr (b, s3)" "effective_grammar h b s3 = Inr (g, s4)" "load_weights h b s4 = Inr (lm, s5)"
    "fits_context lm (estimate_prompt_tokens (k_history k)) (unwrap_or (max_tokens (k_params k)) 512) s5 = Inr ((), s6)"
    and rear: "within_spend c h s6 = Inr ((), s7)" "within_session_rate h ?n s7 = Inr ((), s8)"
    "within_rate h ?n (over_allowance k) s8 = Inr ((), s9)"
    "reserve_cache c h (u64_sat_mul ?n (lm_kv_bytes_per_token lm)) s9 = Inr ((), s10)"
    "carried_attachments b s10 = Inr (atts, (k', d'))"
    and pl: "pl = \<lparr> pl_backend = b, pl_prompt = estimate_prompt_tokens (k_history k), pl_reserve = ?n,
      pl_grammar = g, pl_attachments = atts \<rparr>"
    using assms by (auto simp: turn_plan_def Let_def next_op_Inr ret_Inr)
  obtain ps d6 where s6: "s6 = (k, d6)" "d_policy d6 = ps" "d_scheduler d6 = d_scheduler d"
    and checked: "check c (h_bus h) (e_read (h_env h)) (h_secs h) (s_identity (k_session k)) (turn_capability k)
        (d_policy d) = (Inr (), ps)"
    and facts: "''generate'' \<in> set (s_capabilities (k_session k))"
      "k_tools k = None \<or> \<not> l_no_tools (k_limits k) \<and> can b ''tools''" "?n \<le> s_max_context (k_session k)"
    using turn_plan_front[OF front] by blast
  obtain ps2 where spend: "spend_permits c (h_now h) (s_identity (k_session k)) (k_limits k)
      (s_model (k_session k)) ps = (Inr (), ps2)"
    and rate: "fst (charge_tokens (h_now h) (s_identity (k_session k)) (k_limits k) ?n ps2)"
    and rest: "case k_budget k of None \<Rightarrow> True | Some b \<Rightarrow> fst (bucket_take (h_now h) ?n b)"
      "\<exists>evicted bytes ms. reserve_kv (sched_of c) (h_now h) (k_sid k) (s_backend (k_session k))
         (s_class (k_session k)) bytes (d_scheduler d) = (Inr evicted, d_scheduler d', ms)"
      "sum_list (map (\<lambda>a. length (ra_data a)) atts) \<le> MAX_ATTACHMENT_PAYLOAD"
      "\<exists>bo notes. k' = k\<lparr> k_budget := bo, k_out := k_out k @ notes \<rparr> \<and> set notes \<subseteq> range (\<lambda>i. Out_Notice i eviction_notice)"
    using turn_plan_back[OF rear(1)[unfolded s6] rear(2-)] s6 by auto
  have "fst (charge_tokens (h_now h) (s_identity (k_session k)) (k_limits k) ?n (d_policy d))"
    using rate charge_tokens_cong[of ps2 "d_policy d"] spend_permits_keeps_buckets[OF spend]
      check_keeps(1)[OF checked] by metis
  moreover have "fst (spent_by (h_now h) who ps) = fst (spent_by (h_now h) who (d_policy d))" for who
    using spent_by_cong check_keeps(2)[OF checked] by metis
  ultimately have "turn_allowed c h k d ?n"
    using checked facts rest(1) spend_permits_Inr[OF spend] by (auto simp: turn_allowed_def)
  then show ?thesis
    using pl facts(2) rest(2-) by auto
qed

text \<open>
  C2. A turn runs only within every limit of its session. When the plan of a turn goes through,
  consent was given for its capability, the model serves generation, tools are not asked of a
  session opened without them nor of a backend that cannot call them, prompt and output fit the
  session's context, the day's spend is below the ceiling (or there is no ceiling, or the model is
  free), the session's own bucket and the identity's bucket each held the whole reservation, the
  attachments fit one request, and the cache of the session is reserved and marked in use in a KV
  budget that still holds its invariant.
\<close>

theorem turn_runs_only_within_limits:
  assumes "turn_plan c h (k, d) = Inr (pl, k', d')"
    and "kv_inv (sched_of c) (d_scheduler d)" and "2 * kv_budget_bytes (c_scheduler c) < U64"
  shows "turn_allowed c h k d (pl_reserve pl)
    \<and> pl_reserve pl = estimate_prompt_tokens (k_history k) + unwrap_or (max_tokens (k_params k)) 512
    \<and> (k_tools k = None \<or> can (pl_backend pl) ''tools'')
    \<and> sum_list (map (\<lambda>a. length (ra_data a)) (pl_attachments pl)) \<le> MAX_ATTACHMENT_PAYLOAD
    \<and> kv_inv (sched_of c) (d_scheduler d')
    \<and> (\<exists>e. map_of (kv (d_scheduler d')) (k_sid k) = Some e \<and> kv_active e)"
proof -
  have plan: "pl_reserve pl = estimate_prompt_tokens (k_history k) + unwrap_or (max_tokens (k_params k)) 512"
    "turn_allowed c h k d (pl_reserve pl)" "k_tools k = None \<or> can (pl_backend pl) ''tools''"
    "sum_list (map (\<lambda>a. length (ra_data a)) (pl_attachments pl)) \<le> MAX_ATTACHMENT_PAYLOAD"
    "\<exists>evicted bytes ms. reserve_kv (sched_of c) (h_now h) (k_sid k) (s_backend (k_session k))
       (s_class (k_session k)) bytes (d_scheduler d) = (Inr evicted, d_scheduler d', ms)"
    using turn_plan_Inr[OF assms(1)] by blast+
  have "2 * kv_budget (sched_of c) < U64"
    using assms(3) by (simp add: sched_of_def scheduler_new_def)
  then have "kv_inv (sched_of c) (d_scheduler d')"
    using plan(5) reserve_kv_inv[OF assms(2)] by blast
  then show ?thesis
    using plan reserve_kv_entry by blast
qed

text \<open>A session on a loaded model, its identity remembered as allowed, and a one-message turn.\<close>

definition demo_backend :: backend where
  "demo_backend =
     \<lparr> b_name = ''mock'',
       b_info = \<lparr> bi_name = ''mock'', bi_version = ''1'', bi_formats = [''mock''], bi_quantizations = [], bi_devices = [],
                  bi_device_memory = None, bi_capabilities = [''generate'', ''tools''], bi_local = True \<rparr>,
       b_owned = True, b_sent = [], b_inflight = [], b_control = [],
       b_loaded = [(''tiny'', \<lparr> lm_model_id = ''tiny'', lm_kv_bytes_per_token = 1, lm_n_ctx = 4096 \<rparr>)],
       b_next_req = 1, b_alive = True \<rparr>"

definition demo_session :: session where
  "demo_session =
     \<lparr> s_id = ''s1'', s_object_path = ''/s1'', s_identity = sample_identity, s_model = ''tiny'', s_digest = ''d'',
       s_backend = ''mock'', s_capabilities = [''generate''], s_local = True, s_class = Interactive,
       s_max_context = 4096, s_created = 0, s_blob = ''/b'', s_usage = no_usage, s_attachment_bytes = 0,
       s_attachments = [], s_current_req = None, s_cancelled = False, s_closed = False \<rparr>"

definition demo_grant :: grant where
  "demo_grant =
     \<lparr> g_identity = key sample_identity, g_capability = CAP_GENERATE, g_decision = Allow, g_decided_at = 0, g_via = ''admin'' \<rparr>"

definition demo_policy :: policy_state where
  "demo_policy =
     empty_policy\<lparr> grants := [((key sample_identity, CAP_GENERATE), demo_grant)] \<rparr>"

definition demo_daemon :: daemon where
  "demo_daemon =
     sample_daemon\<lparr> d_policy := demo_policy, d_scheduler := inner_new,
       d_backends := \<lparr> specs = [], live = [(''mock'', demo_backend)], pinned = [] \<rparr>,
       d_sessions := [(''s1'', demo_session)] \<rparr>"

definition demo_host :: "(nat \<times> tick) list \<Rightarrow> host" where
  "demo_host ticks =
     \<lparr> h_env = sample_env, h_bus = None, h_secs = 0, h_now = 0, h_end = 0, h_broken = None, h_control = [],
       h_json_ok = (\<lambda>_. True), h_show_json = (\<lambda>_. []), h_decode = (\<lambda>_ _ _. Inl []), h_admit = [], h_ticks = ticks \<rparr>"

definition demo_worker :: worker where
  "demo_worker =
     (new_worker 0 None demo_session (marking_limits\<lparr> l_tokens_per_minute := 1000 \<rparr>))\<lparr> k_history := [user_message ''hi''] \<rparr>"

lemma fresh_bucket_pays:
  assumes "rate < 2 ^ 53" "n \<le> max rate 1"
  shows "fst (bucket_take now n (bucket_new now rate))"
proof -
  have ok: "bucket_ok (max rate 1) (bucket_new now rate)"
    using assms(1) by (rule bucket_new_ok)
  have "max rate 1 < 2 ^ 53"
    using assms(1) by simp
  then have tok: "tokens (bucket_new now rate) = Fin (of_nat (max rate 1))"
    by (simp add: bucket_new_def Let_def f_of_nat_exact del: of_nat_max)
  have "bucket_refill now (bucket_new now rate) = Fin (of_nat (max rate 1))"
    by (rule bucket_refill_same_instant[OF ok tok]) (simp add: bucket_new_def Let_def)
  moreover have "(of_nat n :: rat) \<le> of_nat (max rate 1)"
    using assms(2) by (subst of_nat_le_iff)
  moreover have "n < 2 ^ 53"
    using assms by simp
  ultimately show ?thesis
    using bucket_take_ok(2)[OF ok] by (simp del: of_nat_max)
qed

lemma demo_charge: "fst (charge_tokens 0 sample_identity (marking_limits\<lparr> l_tokens_per_minute := 1000 \<rparr>) 517 demo_policy)"
  using fresh_bucket_pays[of 1000 517 0]
  by (simp add: charge_tokens_def Let_def demo_policy_def empty_policy_def unwrap_or_def)

lemma demo_simps [simp]:
  "k_session demo_worker = demo_session" "k_tools demo_worker = None" "k_budget demo_worker = None"
  "k_grammar demo_worker = None" "k_history demo_worker = [user_message ''hi'']"
  "k_limits demo_worker = marking_limits\<lparr> l_tokens_per_minute := 1000 \<rparr>" "k_params demo_worker = default_params"
  "s_id demo_session = ''s1''" "s_identity demo_session = sample_identity" "s_model demo_session = ''tiny''"
  "s_backend demo_session = ''mock''" "s_capabilities demo_session = [''generate'']" "s_class demo_session = Interactive"
  "s_max_context demo_session = 4096" "s_attachments demo_session = []"
  "d_policy demo_daemon = demo_policy" "d_scheduler demo_daemon = inner_new"
  "d_backends demo_daemon = \<lparr> specs = [], live = [(''mock'', demo_backend)], pinned = [] \<rparr>"
  "d_sessions demo_daemon = [(''s1'', demo_session)]"
  "h_now (demo_host ticks) = 0" "h_broken (demo_host ticks) = None" "h_admit (demo_host ticks) = []"
  "h_ticks (demo_host ticks) = ticks" "h_end (demo_host ticks) = 0" "h_env (demo_host ticks) = sample_env"
  "b_alive demo_backend" "b_name demo_backend = ''mock''"
  by (simp_all add: demo_worker_def new_worker_def marking_limits_def demo_session_def demo_daemon_def demo_host_def
      demo_backend_def)

lemma demo_same [simp]: "demo_daemon\<lparr> d_policy := demo_policy \<rparr> = demo_daemon"
  "demo_daemon\<lparr> d_backends := \<lparr> specs = [], live = [(''mock'', demo_backend)], pinned = [] \<rparr> \<rparr> = demo_daemon"
  by (simp_all add: demo_daemon_def)

lemma demo_steps:
  "permit default_config (demo_host ticks) CAP_GENERATE (demo_worker, demo_daemon) = Inr ((), demo_worker, demo_daemon)"
  "serving ''generate'' (demo_worker, demo_daemon) = Inr ((), demo_worker, demo_daemon)"
  "connect (demo_host ticks) (demo_worker, demo_daemon) = Inr (demo_backend, demo_worker, demo_daemon)"
  "effective_grammar (demo_host ticks) demo_backend (demo_worker, demo_daemon) = Inr (None, demo_worker, demo_daemon)"
  "load_weights (demo_host ticks) demo_backend (demo_worker, demo_daemon)
     = Inr (\<lparr> lm_model_id = ''tiny'', lm_kv_bytes_per_token = 1, lm_n_ctx = 4096 \<rparr>, demo_worker, demo_daemon)"
  "within_spend default_config (demo_host ticks) (demo_worker, demo_daemon) = Inr ((), demo_worker, demo_daemon)"
  "within_session_rate (demo_host ticks) n (demo_worker, demo_daemon) = Inr ((), demo_worker, demo_daemon)"
proof -
  have g: "grants demo_policy = [((key sample_identity, CAP_GENERATE), demo_grant)]" "g_decision demo_grant = Allow"
    by (simp_all add: demo_policy_def demo_grant_def)
  have "check default_config bus rd n sample_identity CAP_GENERATE demo_policy = (Inr (), demo_policy)" for bus rd n
    by (simp add: check_def rule_for_def default_config_def g)
  then show "permit default_config (demo_host ticks) CAP_GENERATE (demo_worker, demo_daemon) = Inr ((), demo_worker, demo_daemon)"
    by (simp add: permit_def Let_def)
  show "serving ''generate'' (demo_worker, demo_daemon) = Inr ((), demo_worker, demo_daemon)"
    by (simp add: serving_def model_serves_def)
  show "connect (demo_host ticks) (demo_worker, demo_daemon) = Inr (demo_backend, demo_worker, demo_daemon)"
    by (simp add: connect_def get_backend_def)
  show "effective_grammar (demo_host ticks) demo_backend (demo_worker, demo_daemon) = Inr (None, demo_worker, demo_daemon)"
    by (simp add: effective_grammar_def Let_def)
  have "b_loaded demo_backend = [(''tiny'', \<lparr> lm_model_id = ''tiny'', lm_kv_bytes_per_token = 1, lm_n_ctx = 4096 \<rparr>)]"
    by (simp add: demo_backend_def)
  then show "load_weights (demo_host ticks) demo_backend (demo_worker, demo_daemon)
     = Inr (\<lparr> lm_model_id = ''tiny'', lm_kv_bytes_per_token = 1, lm_n_ctx = 4096 \<rparr>, demo_worker, demo_daemon)"
    by (simp add: load_weights_def Let_def load_model_def lookup_loaded_def set_live_def on_live_def)
  show "within_spend default_config (demo_host ticks) (demo_worker, demo_daemon) = Inr ((), demo_worker, demo_daemon)"
    by (simp add: within_spend_def Let_def spend_permits_def marking_limits_def)
  show "within_session_rate (demo_host ticks) n (demo_worker, demo_daemon) = Inr ((), demo_worker, demo_daemon)"
    by (simp add: within_session_rate_def)
qed

lemma demo_plan:
  "\<exists>pl k' d'. turn_plan default_config (demo_host ticks) (demo_worker, demo_daemon) = Inr (pl, k', d')"
proof -
  have cap: "turn_capability demo_worker = CAP_GENERATE"
    by (simp add: turn_capability_def)
  have n: "estimate_prompt_tokens (k_history demo_worker) = 5" "unwrap_or (max_tokens (k_params demo_worker)) 512 = 512"
    by (simp_all add: default_params_def estimate_prompt_tokens_def estimate_tokens_def
        div_ceil_def user_message_def unwrap_or_def)
  obtain ps where ps: "charge_tokens 0 sample_identity (marking_limits\<lparr> l_tokens_per_minute := 1000 \<rparr>) 517 demo_policy
      = (True, ps)"
    using demo_charge by (metis prod.collapse)
  let ?d = "demo_daemon\<lparr> d_policy := ps \<rparr>"
  have rate: "within_rate (demo_host ticks) 517 msg (demo_worker, demo_daemon) = Inr ((), demo_worker, ?d)" for msg
    by (simp add: within_rate_def ps)
  have "fits (sched_of default_config) inner_new 0 517"
    by (simp add: fits_def sched_of_def scheduler_new_def default_config_def default_scheduler_def inner_new_def u64_add_def)
  then obtain r where "reserve_kv (sched_of default_config) 0 ''s1'' ''mock'' Interactive 517 inner_new = (Inr [], r)"
    by (simp add: reserve_kv_def Let_def inner_new_def sched_of_def scheduler_new_def default_config_def default_scheduler_def)
  then have cache: "reserve_cache default_config (demo_host ticks) (u64_sat_mul 517 1) (demo_worker, ?d)
      = Inr ((), announce_evictions [] (obey None r ?d) demo_worker, obey None r ?d)"
    by (simp add: reserve_cache_def Let_def u64_sat_mul_def)
  have "held_attachments [user_message ''hi''] atts = []" for atts
    by (simp add: held_attachments_def user_message_def map_filter_simps)
  then have "carried_attachments demo_backend (announce_evictions [] (obey None r ?d) demo_worker, obey None r ?d)
      = Inr ([], announce_evictions [] (obey None r ?d) demo_worker, obey None r ?d)"
    by (simp add: carried_attachments_def Let_def next_op_def ret_def need_def)
  then show ?thesis
    unfolding turn_plan_def Let_def fst_conv cap n
    using rate cache
    by (simp add: next_op_def demo_steps fits_context_def need_def ret_def)
qed

text \<open>The hypotheses hold for the demonstration session, whose turn goes through.\<close>

theorem turn_runs_only_within_limits_witness:
  "\<exists>(pl :: plan) (d' :: daemon). turn_allowed default_config (demo_host []) demo_worker demo_daemon (pl_reserve pl)
    \<and> pl_reserve pl = 517 \<and> kv_inv (sched_of default_config) (d_scheduler d')
    \<and> (\<exists>e. map_of (kv (d_scheduler d')) ''s1'' = Some e \<and> kv_active e)"
proof -
  obtain pl k' d' where plan: "turn_plan default_config (demo_host []) (demo_worker, demo_daemon) = Inr (pl, k', d')"
    using demo_plan by blast
  have inv: "kv_inv (sched_of default_config) (d_scheduler demo_daemon)"
    by (simp add: kv_inv_def inner_new_def)
  have width: "2 * kv_budget_bytes (c_scheduler default_config) < U64"
    by (simp add: default_config_def default_scheduler_def)
  have "estimate_prompt_tokens (k_history demo_worker) + unwrap_or (max_tokens (k_params demo_worker)) 512 = 517"
    by (simp add: default_params_def estimate_prompt_tokens_def estimate_tokens_def div_ceil_def user_message_def unwrap_or_def)
  then show ?thesis
    using turn_runs_only_within_limits[OF plan inv width] by (intro exI[of _ pl] exI[of _ d']) auto
qed

subsection \<open>Tool calls\<close>

text \<open>
  What a request loop promises its caller: an invariant of the worker that its handlers keep and
  that telling the client about a stall keeps holds when it stops, whatever the ticks were.
\<close>

locale request_loop =
  fixes handle :: "nat \<Rightarrow> backend_event \<Rightarrow> running_request \<Rightarrow> bool \<times> running_request"
    and before :: "running_request \<Rightarrow> running_request"
    and between :: "running_request \<Rightarrow> running_request"
    and inv :: "worker \<Rightarrow> bool"
  assumes handle_keeps: "inv k \<Longrightarrow> inv (fst (snd (snd (handle now ev (p, k, d)))))"
    and before_keeps: "inv k \<Longrightarrow> inv (fst (snd (before (p, k, d))))"
    and between_keeps: "inv k \<Longrightarrow> inv (fst (snd (between (p, k, d))))"
    and stall_keeps: "inv k \<Longrightarrow> inv (say_stalled k name silence reason)"
begin

lemma loop_keeps:
  "inv k \<Longrightarrow> inv (fst (snd (snd (pump_loop c h ticket handle before between ticks (p, k, d)))))"
proof (induction ticks arbitrary: p k d)
  case (Cons t ticks)
  obtain now tick where t: "t = (now, tick)"
    by (cases t)
  have again: "inv (fst (snd r)) \<Longrightarrow> inv (fst (snd (snd (pump_loop c h ticket handle before between ticks r))))" for r
    using Cons.IH by (cases r) auto
  show ?case
  proof (cases tick)
    case (Tick_Event ev)
    have "inv (fst (snd (before r)))" if "handle now ev (p\<lparr> pu_silent := 0 \<rparr>, k, d) = (False, r)" for r
      using before_keeps[of "fst (snd r)" "fst r" "snd (snd r)"]
        handle_keeps[OF Cons.prems, of now ev "p\<lparr> pu_silent := 0 \<rparr>" d] that by simp
    then show ?thesis
      using handle_keeps[OF Cons.prems, of now ev "p\<lparr> pu_silent := 0 \<rparr>" d] again
      by (auto simp: t Tick_Event split: prod.split bool.split)
  next
    case Tick_Quiet
    then show ?thesis
      using again between_keeps[OF Cons.prems] stall_keeps[OF Cons.prems] by (auto simp: t split: option.split)
  qed (use Cons stall_keeps in \<open>auto simp: t\<close>)
qed simp

end

fun calls_of :: "out \<Rightarrow> tool_call list" where
  "calls_of (Out_Event (Ev_ToolCall call)) = [call]"
| "calls_of (Out_Event (Ev_ToolCalls calls)) = calls"
| "calls_of _ = []"

definition call_ok :: "host \<Rightarrow> worker \<Rightarrow> tool_call \<Rightarrow> bool" where
  "call_ok h k call \<longleftrightarrow> offered k (tc_name call) \<and> h_json_ok h (tc_arguments call)"

text \<open>
  How a worker may have moved on from another: by calls, each to a tool that was offered with
  arguments that are JSON, all of them in the history and outstanding in order, and everything
  written since showing the client no other call.
\<close>

definition calls_since :: "host \<Rightarrow> worker \<Rightarrow> worker \<Rightarrow> bool" where
  "calls_since h k0 k \<longleftrightarrow>
     (\<exists>calls new. list_all (call_ok h k0) calls
        \<and> k_history k = k_history k0 @ map call_message calls \<and> k_pending k = k_pending k0 @ map tc_id calls
        \<and> k_out k = k_out k0 @ new \<and> list_all (\<lambda>x. set (calls_of x) \<subseteq> set calls) new)
     \<and> k_tools k = k_tools k0 \<and> k_session k = k_session k0"

lemma calls_since_refl [simp]: "calls_since h k k"
  by (simp add: calls_since_def exI[of _ "[]"])

lemma write_out_cases:
  "snd (write_out x k) = k\<lparr> k_writes := tl (k_writes k) \<rparr>
   \<or> snd (write_out x k) = k\<lparr> k_writes := tl (k_writes k), k_out := k_out k @ [x] \<rparr>"
  by (auto simp: write_out_def split: list.split bool.split)

lemma calls_since_more:
  assumes "calls_since h k0 k" "list_all (call_ok h k0) calls" "set (calls_of x) \<subseteq> set calls"
  shows "calls_since h k0 (snd (write_out x (k\<lparr> k_history := k_history k @ map call_message calls,
    k_pending := k_pending k @ map tc_id calls \<rparr>)))"
proof -
  obtain cs new where old: "list_all (call_ok h k0) cs"
    "k_history k = k_history k0 @ map call_message cs" "k_pending k = k_pending k0 @ map tc_id cs"
    "k_out k = k_out k0 @ new" "list_all (\<lambda>y. set (calls_of y) \<subseteq> set cs) new"
    and same: "k_tools k = k_tools k0" "k_session k = k_session k0"
    using assms(1) unfolding calls_since_def by blast
  let ?k = "k\<lparr> k_history := k_history k @ map call_message calls, k_pending := k_pending k @ map tc_id calls \<rparr>"
  have shown: "list_all (\<lambda>y. set (calls_of y) \<subseteq> set (cs @ calls)) (new @ [x])"
    using old(5) assms(3) by (auto simp: list_all_iff)
  consider "snd (write_out x ?k) = ?k\<lparr> k_writes := tl (k_writes ?k) \<rparr>"
    | "snd (write_out x ?k) = ?k\<lparr> k_writes := tl (k_writes ?k), k_out := k_out ?k @ [x] \<rparr>"
    using write_out_cases[of x ?k] by blast
  then show ?thesis
  proof cases
    case 1
    then show ?thesis
      unfolding calls_since_def 1 using old same assms(2) shown
      by (intro conjI exI[of _ "cs @ calls"] exI[of _ new]) simp_all
  next
    case 2
    then show ?thesis
      unfolding calls_since_def 2 using old same assms(2) shown
      by (intro conjI exI[of _ "cs @ calls"] exI[of _ "new @ [x]"]) simp_all
  qed
qed

lemma calls_since_write:
  "calls_since h k0 k \<Longrightarrow> calls_of x = [] \<Longrightarrow> calls_since h k0 (snd (write_out x k))"
  using calls_since_more[of h k0 k "[]" x] by simp

lemma calls_since_say:
  "calls_since h k0 k \<Longrightarrow> calls_of (Out_Event ev) = [] \<Longrightarrow> calls_since h k0 (say ev k)"
  by (simp add: say_def send_ok_def calls_since_write)

lemma calls_since_error: "calls_since h k0 k \<Longrightarrow> calls_since h k0 (say (event_error cd msg) k)"
  by (rule calls_since_say) (simp_all add: event_error_def)

text \<open>Steps that may refuse keep a property of the worker that errors and their own changes keep.\<close>

definition op_keeps :: "(worker \<Rightarrow> bool) \<Rightarrow> 'a op \<Rightarrow> bool" where
  "op_keeps I m \<longleftrightarrow>
     (\<forall>k d. I k \<longrightarrow> (case m (k, d) of Inl s' \<Rightarrow> I (fst s') | Inr (x, s') \<Rightarrow> I (fst s')))"

lemma op_keeps_at:
  "op_keeps I m \<Longrightarrow> I k \<Longrightarrow> (case m (k, d) of Inl s' \<Rightarrow> I (fst s') | Inr (x, s') \<Rightarrow> I (fst s'))"
  unfolding op_keeps_def by blast

lemma op_keeps_next:
  assumes m: "op_keeps I m" and f: "\<And>x. op_keeps I (f x)"
  shows "op_keeps I (next_op m f)"
proof -
  have "case next_op m f (k, d) of Inl s' \<Rightarrow> I (fst s') | Inr (x, s') \<Rightarrow> I (fst s')" if k: "I k" for k d
  proof (cases "m (k, d)")
    case (Inl s')
    then show ?thesis
      using op_keeps_at[where I = I, OF m k, of d] by (simp add: next_op_def)
  next
    case (Inr r)
    obtain x k' d' where r: "r = (x, k', d')"
      by (metis prod.exhaust)
    have "I k'"
      using op_keeps_at[where I = I, OF m k, of d] by (simp add: Inr r)
    then show ?thesis
      using op_keeps_at[where I = I, OF f, of k' x d'] by (simp add: next_op_def Inr r)
  qed
  then show ?thesis
    unfolding op_keeps_def by blast
qed

lemma next_op_at:
  assumes "I k" and "op_keeps I m" and "\<And>x. op_keeps I (f x)"
  shows "case next_op m f (k, d) of Inl s' \<Rightarrow> I (fst s') | Inr (x, s') \<Rightarrow> I (fst s')"
  using op_keeps_next[of I m f] assms unfolding op_keeps_def by blast

lemma op_keeps_if: "op_keeps I m \<Longrightarrow> op_keeps I n \<Longrightarrow> op_keeps I (if b then m else n)"
  by simp

lemma op_keeps_basic:
  "op_keeps (calls_since h0 k0) (ret x)" "op_keeps (calls_since h0 k0) (refuse cd msg)"
  "op_keeps (calls_since h0 k0) (need ok cd msg)"
  by (simp_all add: op_keeps_def ret_def refuse_def need_def calls_since_error)

lemma op_keeps_calls:
  "op_keeps (calls_since h0 k0) (permit c h cap)" "op_keeps (calls_since h0 k0) (serving cap)"
  "op_keeps (calls_since h0 k0) (connect h)" "op_keeps (calls_since h0 k0) (load_weights h b)"
  "op_keeps (calls_since h0 k0) (within_spend c h)" "op_keeps (calls_since h0 k0) (within_rate h n msg)"
  "op_keeps (calls_since h0 k0) (effective_grammar h b)" "op_keeps (calls_since h0 k0) (fits_context lm p m)"
proof -
  show "op_keeps (calls_since h0 k0) (permit c h cap)"
    by (simp add: op_keeps_def permit_def Let_def calls_since_error split: sum.split prod.split)
  show "op_keeps (calls_since h0 k0) (serving cap)"
    by (simp add: op_keeps_def serving_def refuse_def calls_since_error split: sum.split)
  show "op_keeps (calls_since h0 k0) (connect h)"
    by (simp add: op_keeps_def connect_def calls_since_error split: sum.split prod.split)
  show "op_keeps (calls_since h0 k0) (load_weights h b)"
    by (simp add: op_keeps_def load_weights_def Let_def calls_since_error split: sum.split prod.split)
  show "op_keeps (calls_since h0 k0) (within_spend c h)"
    by (simp add: op_keeps_def within_spend_def Let_def calls_since_error split: sum.split prod.split)
  show "op_keeps (calls_since h0 k0) (within_rate h n msg)"
    by (simp add: op_keeps_def within_rate_def refuse_def Let_def calls_since_error split: prod.split)
  show "op_keeps (calls_since h0 k0) (effective_grammar h b)"
    by (simp add: op_keeps_def effective_grammar_def refuse_def Let_def calls_since_error split: sum.split option.split)
  show "op_keeps (calls_since h0 k0) (fits_context lm p m)"
    by (simp add: op_keeps_def fits_context_def need_def ret_def refuse_def Let_def calls_since_error)
qed

lemma calls_since_budget [simp]: "calls_since h0 k0 (k\<lparr> k_budget := bo \<rparr>) = calls_since h0 k0 k"
  by (simp add: calls_since_def)

lemma op_keeps_rate: "op_keeps (calls_since h0 k0) (within_session_rate h n)"
  by (auto simp: op_keeps_def within_session_rate_def refuse_def Let_def calls_since_error
      split: prod.splits option.splits)

lemma calls_since_announce: "calls_since h0 k0 k \<Longrightarrow> calls_since h0 k0 (announce_evictions ev d k)"
  unfolding calls_since_def announce_evictions_def by (force simp: list_all_iff)

lemma op_keeps_reserve: "op_keeps (calls_since h0 k0) (reserve_cache c h n)"
  by (auto simp: op_keeps_def reserve_cache_def refuse_def Let_def calls_since_error calls_since_announce
      split: sum.splits prod.splits)

lemma op_keeps_attachments: "op_keeps (calls_since h0 k0) (carried_attachments b)"
proof -
  have "case carried_attachments b (k, d) of Inl s' \<Rightarrow> calls_since h0 k0 (fst s') | Inr (x, s') \<Rightarrow> calls_since h0 k0 (fst s')"
    if "calls_since h0 k0 k" for k d
    unfolding carried_attachments_def Let_def
    by (rule next_op_at[where I = "calls_since h0 k0", OF that];
      intro op_keeps_next op_keeps_if op_keeps_basic op_keeps_calls)
  then show ?thesis
    unfolding op_keeps_def by blast
qed

lemma turn_plan_calls:
  "case turn_plan c h (k, d) of Inl s' \<Rightarrow> calls_since h0 k (fst s') | Inr (pl, s') \<Rightarrow> calls_since h0 k (fst s')"
  unfolding turn_plan_def Let_def
  by (rule next_op_at[where I = "calls_since h0 k", OF calls_since_refl];
      intro op_keeps_next op_keeps_calls op_keeps_rate op_keeps_reserve op_keeps_attachments op_keeps_basic)

lemma offered_tools: "k_tools k = k_tools k0 \<Longrightarrow> offered k = offered k0"
  by (simp add: offered_def fun_eq_iff split: option.split)

lemma check_calls_ok:
  "check_calls h k calls = Inr () \<longleftrightarrow> list_all (call_ok h k) calls"
  by (induction calls) (auto simp: call_ok_def)

lemma take_calls_keeps:
  assumes "calls_since h k0 k" "set (calls_of (Out_Event ev)) \<subseteq> set calls"
  shows "calls_since h k0 (fst (snd (snd (take_calls h calls ev (p, k, d)))))"
proof (cases "calls_are_ones_we_offered h k calls")
  case (Inl e)
  then show ?thesis
    using assms(1) by (simp add: take_calls_def calls_since_error)
next
  case (Inr u)
  then have "list_all (call_ok h k) calls"
    by (auto simp: calls_are_ones_we_offered_def check_calls_ok split: if_splits)
  moreover have "call_ok h k = call_ok h k0"
    using offered_tools[of k k0] assms(1) by (auto simp: calls_since_def call_ok_def fun_eq_iff)
  ultimately show ?thesis
    using calls_since_more[OF assms(1) _ assms(2)] Inr by (simp add: take_calls_def say_def send_ok_def)
qed

lemma turn_event_keeps:
  assumes "calls_since h k0 k"
  shows "calls_since h k0 (fst (snd (snd (turn_event c h stream prompt now ev (p, k, d)))))"
proof (cases ev)
  case (BE_Token r tok lp)
  have "calls_since h k0 (snd (send_ok (Ev_Token tok lp) k))"
    using assms by (simp add: send_ok_def calls_since_write)
  then show ?thesis
    using assms by (auto simp: turn_event_def BE_Token Let_def split: prod.split bool.split)
next
  case (BE_ToolCall r call)
  then show ?thesis
    using take_calls_keeps[OF assms, of "Ev_ToolCall call" "[call]"] by (simp add: turn_event_def)
next
  case (BE_ToolCalls r calls)
  then show ?thesis
    using take_calls_keeps[OF assms, of "Ev_ToolCalls calls" calls] by (simp add: turn_event_def)
qed (use assms in \<open>simp_all add: turn_event_def Let_def calls_since_error calls_since_say\<close>)

lemma check_cancel_worker [simp]: "fst (snd (check_cancel h r)) = fst (snd r)"
  by (auto simp: check_cancel_def split: prod.split)

interpretation turning: request_loop "turn_event c h stream prompt" "check_cancel h" "check_cancel h"
  "calls_since h k0" for c h stream prompt k0
  by unfold_locales (auto intro: turn_event_keeps calls_since_error simp: say_stalled_def)

lemma start_request_worker:
  "(case start_request c h mk failure (k, d) of
      Inl r \<Rightarrow> fst (snd r) = k \<or> (\<exists>cd msg. fst (snd r) = say (event_error cd msg) k)
    | Inr r \<Rightarrow> fst (snd (snd r)) = k)"
  by (auto simp: start_request_def Let_def split: prod.split sum.split)

lemma turn_loop_calls:
  "calls_since h k0 (fst (snd r)) \<Longrightarrow>
   calls_since h k0 (fst (snd (snd (pump_loop c h ticket (turn_event c h stream prompt) (check_cancel h)
     (check_cancel h) ticks r))))"
  by (cases r) (auto intro: turning.loop_keeps)

lemma end_turn_worker [simp]: "fst (end_turn h ticket pl r) = fst (snd r)"
  by (simp add: end_turn_def Let_def split: prod.split)

lemma turn_run_calls:
  assumes "calls_since h k0 k"
  shows "calls_since h k0 (fst (snd (turn_run c h stream pl (k, d))))"
proof -
  let ?d = "on_session (k_sid k) (\<lambda>s. s\<lparr> s_cancelled := False \<rparr>) d"
  show ?thesis
  proof (cases "start_request c h (turn_request pl k) [] (k, ?d)")
    case (Inl r)
    then show ?thesis
      using start_request_worker[of k c h "turn_request pl k" "[]" ?d] assms
      by (auto simp: turn_run_def calls_since_error)
  next
    case (Inr r)
    obtain ticket req k1 d1 where r: "r = (ticket, req, k1, d1)"
      by (metis prod.exhaust)
    then have k1: "k1 = k"
      using start_request_worker[of k c h "turn_request pl k" "[]" ?d] Inr by simp
    define p where "p = new_pump req (sum_list (map estimate_attachment_tokens (pl_attachments pl)))"
    define d2 where "d2 = on_session (k_sid k) (\<lambda>s. s\<lparr> s_current_req := Some req \<rparr>) d1"
    have "calls_since h k0 (fst (snd (snd (pump_loop c h (Some ticket) (turn_event c h stream (pl_prompt pl))
        (check_cancel h) (check_cancel h) (h_ticks h) (check_cancel h (p, k, d2))))))"
      using assms by (intro turn_loop_calls) simp
    then show ?thesis
      unfolding turn_run_def using Inr r k1
      by (auto simp: Let_def p_def d2_def split: prod.splits bool.splits)
  qed
qed

text \<open>
  C9. A client is only ever shown calls to tools it offered. However a turn goes (refused,
  streaming, stalled, cancelled, its writes failing), every call in what it wrote names a tool the
  request offered and has arguments that parse as JSON; the same calls, in order, were appended to
  the history and to the outstanding ids, and the offered tools were not changed.
\<close>

theorem tool_calls_are_offered_ones:
  "calls_since h k (fst (snd (turn c h stream (k, d))))"
proof (cases "turn_plan c h (k, d)")
  case (Inl s')
  then show ?thesis
    using turn_plan_calls[of h k c h d] by (simp add: turn_def)
next
  case (Inr r)
  obtain pl k1 d1 where r: "r = (pl, k1, d1)"
    by (metis prod.exhaust)
  then have "calls_since h k k1"
    using turn_plan_calls[of h k c h d] Inr by simp
  then show ?thesis
    using turn_run_calls[of h k k1 c stream pl d1] Inr r by (simp add: turn_def)
qed

subsection \<open>Tool results\<close>

abbreviation take_off :: "string list \<Rightarrow> string list \<Rightarrow> string list" where
  "take_off ids waiting \<equiv> foldl (\<lambda>ps i. remove1 i ps) waiting ids"

lemma mset_take_off: "mset ids \<subseteq># mset waiting \<Longrightarrow> mset (take_off ids waiting) = mset waiting - mset ids"
proof (induction ids arbitrary: waiting)
  case (Cons i ids)
  then have "i \<in># mset waiting" "mset ids \<subseteq># mset (remove1 i waiting)"
    by (auto simp: insert_subset_eq_iff)
  then show ?case
    using Cons.IH[of "remove1 i waiting"] by simp
qed simp

lemma take_results_iff:
  "fst (take_results rs k) \<longleftrightarrow> mset (map tr_id rs) \<subseteq># mset (k_pending k)"
proof (induction rs arbitrary: k)
  case (Cons r rs)
  then show ?case
    by (auto simp: insert_subset_eq_iff)
qed simp

lemma take_results_all:
  "mset (map tr_id rs) \<subseteq># mset (k_pending k) \<Longrightarrow>
   take_results rs k = (True, k\<lparr> k_pending := take_off (map tr_id rs) (k_pending k),
                                k_history := k_history k @ map tool_message rs \<rparr>)"
proof (induction rs arbitrary: k)
  case (Cons r rs)
  then have "tr_id r \<in> set (k_pending k)"
    "mset (map tr_id rs) \<subseteq># mset (k_pending (k\<lparr> k_pending := remove1 (tr_id r) (k_pending k),
       k_history := k_history k @ [tool_message r] \<rparr>))"
    by (auto simp: insert_subset_eq_iff)
  then show ?case
    using Cons.IH by simp
qed simp

text \<open>
  Tool results resume a turn exactly when the last outstanding call is answered. Results whose
  ids, counted, are among the outstanding ones are taken off them and appended to the history in
  the order given, and the turn resumes if and only if that leaves none outstanding (as many
  results as calls); any result beyond them starts no turn and leaves the daemon as it was.
\<close>

theorem tool_results_resume_when_answered:
  assumes "k_pending k \<noteq> []"
  shows "if mset (map tr_id rs) \<subseteq># mset (k_pending k)
    then answer_tools c h rs (k, d) =
      (let k' = k\<lparr> k_pending := take_off (map tr_id rs) (k_pending k),
                   k_history := k_history k @ map tool_message rs \<rparr>
       in if length rs = length (k_pending k) then turn c h True (k', d) else (True, k', d))
    else (\<exists>k'. answer_tools c h rs (k, d) = (True, k', d))"
proof (cases "mset (map tr_id rs) \<subseteq># mset (k_pending k)")
  case True
  have "length (take_off (map tr_id rs) (k_pending k)) = length (k_pending k) - length rs"
    "length rs \<le> length (k_pending k)"
    using mset_take_off[OF True] size_Diff_submset[OF True] size_mset_mono[OF True]
    by (metis length_map size_mset)+
  then have "take_off (map tr_id rs) (k_pending k) = [] \<longleftrightarrow> length rs = length (k_pending k)"
    by (metis diff_is_0_eq' diff_self_eq_0 le_antisym le_refl length_0_conv diff_is_0_eq)
  then show ?thesis
    using True assms take_results_all[OF True] by (simp add: answer_tools_def Let_def)
next
  case False
  then have "\<not> fst (take_results rs k)"
    by (simp add: take_results_iff)
  then obtain k' where "take_results rs k = (False, k')"
    by (metis (full_types) prod.collapse)
  then show ?thesis
    using False assms by (simp add: answer_tools_def)
qed

text \<open>One of two answers: nothing resumes yet.\<close>

theorem tool_results_resume_when_answered_witness:
  "answer_tools default_config (demo_host []) [\<lparr> tr_id = ''b'', tr_content = ''x'' \<rparr>]
     (demo_worker\<lparr> k_pending := [''a'', ''b''] \<rparr>, demo_daemon)
   = (True, demo_worker\<lparr> k_pending := [''a''],
              k_history := [user_message ''hi'', tool_message \<lparr> tr_id = ''b'', tr_content = ''x'' \<rparr>] \<rparr>, demo_daemon)"
  using tool_results_resume_when_answered[of "demo_worker\<lparr> k_pending := [''a'', ''b''] \<rparr>"
      "[\<lparr> tr_id = ''b'', tr_content = ''x'' \<rparr>]" default_config "demo_host []" demo_daemon]
  by simp

text \<open>
  The results before one that nobody waits for have been taken all the same: the session has
  lost the call and grown the history, and the client was told of a protocol error.
\<close>

lemma refused_results_are_half_taken:
  "let (fin, k', d') = answer_tools c h [\<lparr> tr_id = ''a'', tr_content = x \<rparr>, \<lparr> tr_id = ''z'', tr_content = y \<rparr>]
         (k\<lparr> k_pending := [''a'', ''b''] \<rparr>, d)
   in k_pending k' = [''b''] \<and> k_history k' = k_history k @ [tool_message \<lparr> tr_id = ''a'', tr_content = x \<rparr>]"
proof -
  have keep: "k_pending (say ev j) = k_pending j" "k_history (say ev j) = k_history j" for ev j
    using write_out_cases[of "Out_Event ev" j] by (auto simp: say_def send_ok_def)
  show ?thesis
    by (simp add: answer_tools_def keep)
qed

subsection \<open>Attachments\<close>

lemma drain_spec:
  "drain len payload fs = Drained dat rest \<Longrightarrow> length payload \<le> len \<Longrightarrow>
   \<exists>blobs. fs = map Blob blobs @ rest \<and> dat = payload @ concat blobs \<and> length dat = len"
proof (induction len payload fs rule: drain.induct)
  case (1 len payload fs)
  show ?case
  proof (cases "length payload < len")
    case True
    then obtain chunk fs' where fs: "fs = Blob chunk # fs'" and short: "length (payload @ chunk) \<le> len"
      and more: "drain len (payload @ chunk) fs' = Drained dat rest"
      using 1(2) by (subst (asm) drain.simps) (auto split: list.splits frame.splits if_splits)
    obtain blobs where "fs' = map Blob blobs @ rest" "dat = (payload @ chunk) @ concat blobs" "length dat = len"
      using 1(1)[OF True fs, of chunk] more short by auto
    then show ?thesis
      using fs by (intro exI[of _ "chunk # blobs"]) simp
  next
    case False
    then show ?thesis
      using 1(2,3) by (subst (asm) drain.simps) (auto intro!: exI[of _ "[]"])
  qed
qed

text \<open>The budget as a statement: the exact size of an image, whole samples of audio, both within the limits.\<close>

definition within_budget :: "attach_cfg \<Rightarrow> attach_kind \<Rightarrow> raw_attachment \<Rightarrow> bool" where
  "within_budget budget kind raw \<longleftrightarrow>
     (case kind of
        Attach_Image \<Rightarrow>
          (\<exists>w ht bpp. ra_w raw = Some w \<and> ra_h raw = Some ht \<and> 0 < w \<and> 0 < ht \<and> w * ht \<le> max_pixels budget
             \<and> ra_fmt raw \<in> {None, Some ''rgb8'', Some ''rgba8''}
             \<and> bpp = (if ra_fmt raw = Some ''rgb8'' then 3 else 4) \<and> length (ra_data raw) = w * ht * bpp)
      | Attach_Audio \<Rightarrow>
          (\<exists>rate. ra_rate raw = Some rate \<and> 0 < rate) \<and> length (ra_data raw) mod 4 = 0
          \<and> length (ra_data raw) div 4 \<le> max_samples budget)"

lemma unwrap_or_nonzero: "unwrap_or x 0 = n \<Longrightarrow> 0 < n \<Longrightarrow> x = Some n" for n :: nat
  by (auto simp: unwrap_or_def split: option.splits)

lemma check_attachment_budget_sound:
  assumes "check_attachment_budget budget kind raw = Inr ()" and "max_pixels budget * 4 < U64 - 1"
  shows "within_budget budget kind raw"
proof (cases kind)
  case Attach_Image
  define w where "w = unwrap_or (ra_w raw) 0"
  define ht where "ht = unwrap_or (ra_h raw) 0"
  define bpp where "bpp = (if ra_fmt raw = Some ''rgb8'' then 3 else 4 :: nat)"
  have pos: "0 < w" "0 < ht" and px: "u64_sat_mul w ht \<le> max_pixels budget"
    and fmt: "ra_fmt raw \<in> {None, Some ''rgb8'', Some ''rgba8''}"
    and len: "length (ra_data raw) = u64_sat_mul (u64_sat_mul w ht) bpp"
    using assms(1)
    by (auto simp: check_attachment_budget_def Attach_Image Let_def w_def ht_def bpp_def rbind_Inr_iff
        split: if_splits option.splits)
  have exact: "u64_sat_mul w ht = w * ht"
    using px assms(2) by (auto simp: u64_sat_mul_def min_def split: if_splits)
  have "w * ht * bpp \<le> max_pixels budget * 4"
    using px exact by (intro mult_le_mono) (simp_all add: bpp_def)
  then have "length (ra_data raw) = w * ht * bpp"
    using len exact assms(2) by (simp add: u64_sat_mul_def)
  then show ?thesis
    using pos px exact fmt unwrap_or_nonzero[OF w_def[symmetric]] unwrap_or_nonzero[OF ht_def[symmetric]]
    by (auto simp: within_budget_def Attach_Image bpp_def)
next
  case Attach_Audio
  then show ?thesis
    using assms(1)
    by (auto simp: check_attachment_budget_def within_budget_def Let_def unwrap_or_def split: if_splits option.splits)
qed

lemma length_update_le: "length (AList.update x v m) \<le> Suc (length m)"
  by (induction m) auto

lemma on_session_here:
  "map_of (d_sessions d) sid = Some ss \<Longrightarrow> map_of (d_sessions (on_session sid g d)) sid = Some (g ss)"
  by (simp add: on_session_def)

text \<open>
  C25. An attachment that leaves the session alive was drained exactly, and one that was accepted is
  within its budget. The frames taken were blobs of the declared length, which is within the byte
  limit; a failed attachment changes nothing of the daemon; an accepted one, decoded or raw, has
  exactly the size its dimensions and format need (or is whole samples with a rate), within the
  limits on pixels and samples, is what the session holds under its id, and the session holds at
  most as many as configured.
\<close>

theorem attachment_drained_and_within_budget:
  assumes "worker_attach c h i kind meta len fs (k, d) = (v, rest, k', d')" and "v \<noteq> Fatal"
    and "map_of (d_sessions d) (k_sid k) = Some ss" and "length (s_attachments ss) < U32"
    and "max_pixels (c_attachments c) * 4 < U64 - 1"
  shows "(\<exists>blobs. fs = map Blob blobs @ rest \<and> length (concat blobs) = len) \<and> len \<le> max_bytes (c_attachments c)
    \<and> (if v = Failed then d' = d
       else \<exists>raw ss'. within_budget (c_attachments c) kind raw \<and> map_of (d_sessions d') (k_sid k) = Some ss'
              \<and> map_of (s_attachments ss') i = Some raw
              \<and> length (s_attachments ss') \<le> max_per_session (c_attachments c))"
proof -
  let ?b = "c_attachments c"
  have here: "shared k d = ss"
    using assms(3) by (simp add: shared_def unwrap_or_def)
  have room: "len \<le> max_bytes ?b" "length (s_attachments ss) < max_per_session ?b"
    using assms(1,2,4) by (auto simp: worker_attach_def Let_def here split: if_splits)
  have open_slot: "\<not> max_per_session ?b \<le> length (s_attachments ss) mod U32" "\<not> max_bytes ?b < len"
    using room assms(4) by simp_all
  obtain payload rest' where dr: "drain len [] fs = Drained payload rest'"
  proof (cases "drain len [] fs")
    case (Drained payload rest')
    then show ?thesis
      using that by blast
  qed (use assms(1,2) open_slot in \<open>simp_all add: worker_attach_def Let_def here\<close>)
  obtain blobs where blobs: "fs = map Blob blobs @ rest'" "length (concat blobs) = len"
    using drain_spec[OF dr] by auto
  have tail: "rest = rest'"
    using assms(1,2) open_slot dr by (simp add: worker_attach_def Let_def here split: sum.splits)
  show ?thesis
  proof (cases "v = Failed")
    case True
    then have "d' = d"
      using assms(1) open_slot dr by (simp add: worker_attach_def Let_def here split: sum.splits)
    then show ?thesis
      using True blobs tail room by auto
  next
    case False
    then obtain raw where raw: "check_attachment_budget ?b kind raw = Inr ()"
      and d': "d' = on_session (k_sid k)
          (\<lambda>ss. ss\<lparr> s_attachment_bytes := u64_add (s_attachment_bytes ss) (length (ra_data raw)),
                    s_attachments := AList.update i raw (s_attachments ss) \<rparr>) d"
      using assms(1,2) open_slot dr by (simp add: worker_attach_def Let_def here split: sum.splits) blast
    have "length (AList.update i raw (s_attachments ss)) \<le> max_per_session ?b"
      using length_update_le[of i raw "s_attachments ss"] room(2) by linarith
    then show ?thesis
      using False blobs tail room check_attachment_budget_sound[OF raw assms(5)]
      by (auto simp: d' on_session_here[OF assms(3)])
  qed
qed

text \<open>A two-pixel image sent in two blobs, with a frame behind it that is left alone.\<close>

theorem attachment_drained_and_within_budget_witness:
  "\<exists>raw ss' (d' :: daemon). within_budget (c_attachments default_config) Attach_Image raw
     \<and> map_of (d_sessions d') ''s1'' = Some ss' \<and> map_of (s_attachments ss') ''a'' = Some raw
     \<and> length (s_attachments ss') \<le> 16"
proof -
  let ?meta = "\<lparr> am_w = Some 2, am_h = Some 1, am_fmt = Some ''rgb8'', am_rate = None, am_encoded = None \<rparr>"
  let ?fs = "[Blob [1, 2], Blob [3, 4, 5, 6], Cbor ()]"
  obtain d' where run: "worker_attach default_config (demo_host []) ''a'' Attach_Image ?meta 6 ?fs (demo_worker, demo_daemon)
      = (Served, [Cbor ()], demo_worker, d')"
    by (simp add: worker_attach_def default_config_def default_attachments_def shared_def unwrap_or_def raw_of_def
        check_attachment_budget_def Let_def u64_sat_mul_def drain.simps[of 6])
  show ?thesis
    using attachment_drained_and_within_budget[OF run, of demo_session]
    by (auto simp: default_config_def default_attachments_def)
qed

subsection \<open>A request that has ended leaves nothing running\<close>

definition inflight_on :: "string \<Rightarrow> daemon \<Rightarrow> nat \<Rightarrow> bool" where
  "inflight_on name d req \<longleftrightarrow>
     (case map_of (live (d_backends d)) name of None \<Rightarrow> False | Some b \<Rightarrow> map_of (b_inflight b) req \<noteq> None)"

definition inflights :: "backends \<Rightarrow> string \<Rightarrow> (nat \<times> backend_event list) list option" where
  "inflights bs name = map_option b_inflight (map_of (live bs) name)"

lemma inflight_on_iff:
  "inflight_on name d req \<longleftrightarrow> (\<exists>m. inflights (d_backends d) name = Some m \<and> map_of m req \<noteq> None)"
  by (auto simp: inflight_on_def inflights_def split: option.splits)

lemma on_live_keeps:
  "(\<And>b. b_inflight (g b) = b_inflight b) \<Longrightarrow> inflights (on_live n g bs) name = inflights bs name"
  by (auto simp: on_live_def inflights_def split: option.splits)

lemma obey1_keeps: "inflights (obey1 broken x bs) name = inflights bs name"
  by (cases x) (auto simp: set_paused_def drop_session_cache_def pause_req_def resume_req_def drop_cache_def
      intro!: on_live_keeps)

lemma obey_keeps: "inflights (d_backends (obey broken r d)) name = inflights (d_backends d) name"
proof -
  have "inflights (fold (obey1 broken) xs bs) name = inflights bs name" for xs bs
    by (induction xs arbitrary: bs) (simp_all add: obey1_keeps)
  then show ?thesis
    by (simp add: obey_def)
qed

lemma release_frees: "ticket \<notin> r_ticket ` set (runs (fst (release ticket inn)))"
  by (auto simp: release_def Let_def)

lemma mark_idle_runs [simp]: "runs (mark_idle now u inn) = runs inn"
  by (simp add: mark_idle_def)

lemma mark_idle_inactive: "map_of (kv (mark_idle now u inn)) u = Some e \<Longrightarrow> \<not> kv_active e"
  by (auto simp: mark_idle_def map_of_kv_modify)

lemma change_live_fields [simp]:
  "d_scheduler (change_live n g d) = d_scheduler d" "d_policy (change_live n g d) = d_policy d"
  "d_sessions (change_live n g d) = d_sessions d"
  by (simp_all add: change_live_def)

lemma on_session_fields [simp]:
  "d_scheduler (on_session sid g d) = d_scheduler d" "d_policy (on_session sid g d) = d_policy d"
  "d_backends (on_session sid g d) = d_backends d"
  by (simp_all add: on_session_def split: option.split)

lemma on_session_shared:
  assumes "map_of (d_sessions d) (k_sid k) = Some ss"
  shows "map_of (d_sessions (on_session (k_sid k) g d)) (k_sid k) = Some (g ss)"
    and "shared k (on_session (k_sid k) g d) = g ss"
  using assms by (simp_all add: on_session_def shared_def unwrap_or_def)

text \<open>Everything of a request that must be gone: its slot, its channel, its number, its hold on the cache.\<close>

definition nothing_left :: "nat \<Rightarrow> nat \<Rightarrow> worker \<Rightarrow> daemon \<Rightarrow> bool" where
  "nothing_left ticket req k d \<longleftrightarrow>
     ticket \<notin> r_ticket ` set (runs (d_scheduler d))
     \<and> \<not> inflight_on (s_backend (k_session k)) d req
     \<and> (case map_of (d_sessions d) (k_sid k) of None \<Rightarrow> True | Some ss \<Rightarrow> s_current_req ss = None)
     \<and> (case map_of (kv (d_scheduler d)) (k_sid k) of None \<Rightarrow> True | Some e \<Rightarrow> \<not> kv_active e)"

lemma end_request_nothing_left: "nothing_left ticket req k (end_request h ticket req k d)"
proof -
  have "\<not> inflight_on (s_backend (k_session k)) (end_request h ticket req k d) req"
  proof -
    have "inflights (d_backends (end_request h ticket req k d)) name
        = inflights (d_backends (change_live (s_backend (k_session k)) (finish_req req) d)) name" for name
      by (simp add: end_request_def Let_def drop_slot_of_def obey_keeps)
    then show ?thesis
      by (auto simp: inflight_on_iff inflights_def change_live_def on_live_def finish_req_def split: option.splits)
  qed
  moreover have "case map_of (d_sessions (end_request h ticket req k d)) (k_sid k) of
      None \<Rightarrow> True | Some ss \<Rightarrow> s_current_req ss = None"
    by (simp add: end_request_def Let_def drop_slot_of_def on_session_def split: option.split)
  moreover have "case map_of (kv (d_scheduler (end_request h ticket req k d))) (k_sid k) of
      None \<Rightarrow> True | Some e \<Rightarrow> \<not> kv_active e"
    by (simp add: end_request_def Let_def mark_idle_inactive split: option.split)
  ultimately show ?thesis
    using release_frees by (simp add: nothing_left_def end_request_def Let_def drop_slot_of_def)
qed

lemma nothing_left_policy [simp]: "nothing_left ticket req k (d\<lparr> d_policy := ps \<rparr>) = nothing_left ticket req k d"
  by (simp add: nothing_left_def inflight_on_def)

lemma nothing_left_on_session:
  "nothing_left ticket req k d \<Longrightarrow> (\<And>ss. s_current_req (g ss) = s_current_req ss)
    \<Longrightarrow> nothing_left ticket req k (on_session (k_sid k) g d)"
  by (auto simp: nothing_left_def inflight_on_def on_session_def split: option.splits)

lemma end_turn_nothing_left:
  "end_turn h ticket pl (p, k, d) = (k', d') \<Longrightarrow> nothing_left ticket (pu_req p) k d'"
  using end_request_nothing_left[of ticket "pu_req p" k h d]
  by (auto simp: end_turn_def Let_def intro!: nothing_left_on_session)

text \<open>The request number never changes while a loop runs.\<close>

lemma pump_loop_req:
  assumes "\<And>now ev r. pu_req (fst (snd (handle now ev r))) = pu_req (fst r)"
    and "\<And>r. pu_req (fst (before r)) = pu_req (fst r)" and "\<And>r. pu_req (fst (between r)) = pu_req (fst r)"
  shows "pu_req (fst (snd (pump_loop c h ticket handle before between ticks r))) = pu_req (fst r)"
proof (induction ticks arbitrary: r)
  case (Cons t ticks)
  obtain now tick p k d where t: "t = (now, tick)" "r = (p, k, d)"
    by (metis prod.exhaust)
  show ?case
  proof (cases tick)
    case (Tick_Event ev)
    obtain fin r' where ev: "handle now ev (p\<lparr> pu_silent := 0 \<rparr>, k, d) = (fin, r')"
      by (metis prod.exhaust)
    then have "pu_req (fst r') = pu_req p"
      using assms(1)[of now ev "(p\<lparr> pu_silent := 0 \<rparr>, k, d)"] by simp
    then show ?thesis
      using Cons.IH assms(2) by (cases fin) (simp_all add: t Tick_Event ev)
  next
    case Tick_Quiet
    then show ?thesis
      using Cons.IH assms(3) by (simp add: t split: option.split)
  qed (use Cons.IH in \<open>simp_all add: t\<close>)
qed simp

lemma check_cancel_req [simp]: "pu_req (fst (check_cancel h r)) = pu_req (fst r)"
  by (auto simp: check_cancel_def split: prod.split)

lemma turn_event_req: "pu_req (fst (snd (turn_event c h stream prompt now ev r))) = pu_req (fst r)"
  by (cases ev) (auto simp: turn_event_def take_calls_def Let_def split: prod.split sum.split bool.split)

lemma admit_ticket: "admit c h ss d = (granted, ticket, d') \<Longrightarrow> ticket = next_ticket (d_scheduler d)"
  by (auto simp: admit_def admit_enqueue_def Let_def split: prod.splits)

lemma start_request_ticket:
  "start_request c h mk failure (k, d) = Inr (ticket, req, s1) \<Longrightarrow> ticket = next_ticket (d_scheduler d)"
  by (auto simp: start_request_def Let_def split: prod.splits sum.splits if_splits dest: admit_ticket)

text \<open>
  What is left when the request could not be started: no slot, and beside it the daemon as it was when the slot was
  granted. The last line is the mark on the cache, which nothing takes away here.
\<close>

definition only_the_mark_left :: "nat \<Rightarrow> worker \<Rightarrow> daemon \<Rightarrow> daemon \<Rightarrow> bool" where
  "only_the_mark_left ticket k d1 d \<longleftrightarrow>
     ticket \<notin> r_ticket ` set (runs (d_scheduler d))
     \<and> (\<forall>name req. inflight_on name d req \<longrightarrow> inflight_on name d1 req)
     \<and> map_of (d_sessions d) (k_sid k) = map_of (d_sessions d1) (k_sid k)
     \<and> map_of (kv (d_scheduler d)) (k_sid k) = map_of (kv (d_scheduler d1)) (k_sid k)"

lemma begin_on_failed:
  assumes "begin_on h name mk d = (Inl e, d')"
  shows "inflight_on n d' req \<Longrightarrow> inflight_on n d req" "d_sessions d' = d_sessions d" "d_scheduler d' = d_scheduler d"
  using assms
  by (auto simp: begin_on_def set_live_def begin_req_def Let_def send_def on_live_def inflight_on_def AList.delete_conv' AList.update_conv'
      split: option.splits if_splits prod.splits)

lemma start_request_failed:
  assumes "start_request c h mk failure (k, d) = Inl (True, k', d')"
  shows "\<exists>d1 why. admit c h (k_session k) d = (True, next_ticket (d_scheduler d), d1)
    \<and> only_the_mark_left (next_ticket (d_scheduler d)) k d1 d' \<and> k' = say (event_error ''backend-failed'' why) k"
proof -
  obtain ticket d1 e d2 where admitted: "admit c h (k_session k) d = (True, ticket, d1)"
    and failed: "begin_on h (s_backend (k_session k)) mk d1 = (Inl e, d2)"
    and k': "k' = say (event_error ''backend-failed'' (if failure = [] then e else failure)) k" and d': "d' = drop_slot_of h ticket d2"
    using assms by (auto simp: start_request_def Let_def split: prod.splits sum.splits if_splits)
  have "inflight_on n d' req = inflight_on n d2 req" for n req
    by (simp add: d' drop_slot_of_def inflight_on_iff obey_keeps)
  then have "only_the_mark_left ticket k d1 d'"
    using begin_on_failed [OF failed] release_frees [of ticket "d_scheduler d2"]
    by (auto simp: only_the_mark_left_def d' drop_slot_of_def slot_ops_kv)
  then show ?thesis
    using admitted k' admit_ticket [OF admitted] by blast
qed

lemma end_turn_nothing_left_for:
  assumes "end_turn h ticket pl (p, k2, d2) = (k', d')" and "k_session k2 = k_session k"
  shows "nothing_left ticket (pu_req p) k d'"
  using end_turn_nothing_left[OF assms(1)] assms(2) by (simp add: nothing_left_def)

text \<open>
  C5. A turn that has ended leaves nothing running, whatever other threads did meanwhile: its decode slot is free.
  If its request was started, then however it ended the backend's channel for it is gone, the session has no current
  request and its cache is no longer marked in use. If the backend could not be given the request, the client was told so,
  no backend has a channel it did not have when the slot was granted, and the session is as it was then; its cache too,
  so that the mark which reserving it has set is not taken away on this path.
\<close>

theorem ended_turn_leaves_nothing:
  assumes "turn_run c h stream pl (k, d) = (True, k', d')"
  shows "next_ticket (d_scheduler d) \<notin> r_ticket ` set (runs (d_scheduler d'))
    \<and> (case start_request c h (turn_request pl k) [] (k, on_session (k_sid k) (\<lambda>s. s\<lparr> s_cancelled := False \<rparr>) d) of
         Inl _ \<Rightarrow> \<exists>d1 why. admit c h (k_session k) (on_session (k_sid k) (\<lambda>s. s\<lparr> s_cancelled := False \<rparr>) d)
                      = (True, next_ticket (d_scheduler d), d1)
             \<and> only_the_mark_left (next_ticket (d_scheduler d)) k d1 d' \<and> k' = say (event_error ''backend-failed'' why) k
       | Inr (ticket, req, _) \<Rightarrow> nothing_left ticket req k d')"
proof -
  let ?d = "on_session (k_sid k) (\<lambda>s. s\<lparr> s_cancelled := False \<rparr>) d"
  show ?thesis
  proof (cases "start_request c h (turn_request pl k) [] (k, ?d)")
    case (Inl r)
    then have "start_request c h (turn_request pl k) [] (k, ?d) = Inl (True, k', d')"
      using assms by (simp add: turn_run_def)
    then show ?thesis
      using start_request_failed[of c h "turn_request pl k" "[]" k ?d] Inl by (auto simp: only_the_mark_left_def)
  next
    case (Inr r)
    obtain ticket req k1 d1 where r: "r = (ticket, req, k1, d1)"
      by (metis prod.exhaust)
    then have k1: "k1 = k"
      using start_request_worker[of k c h "turn_request pl k" "[]" ?d] Inr by simp
    let ?p = "new_pump req (sum_list (map estimate_attachment_tokens (pl_attachments pl)))"
    let ?r0 = "check_cancel h (?p, k, on_session (k_sid k) (\<lambda>s. s\<lparr> s_current_req := Some req \<rparr>) d1)"
    obtain p2 k2 d2 where loop: "pump_loop c h (Some ticket) (turn_event c h stream (pl_prompt pl)) (check_cancel h)
        (check_cancel h) (h_ticks h) ?r0 = (True, p2, k2, d2)" and fin: "end_turn h ticket pl (p2, k2, d2) = (k', d')"
      using assms Inr r k1 by (auto simp: turn_run_def Let_def split: prod.splits bool.splits)
    have req: "pu_req p2 = req"
      using pump_loop_req[of "turn_event c h stream (pl_prompt pl)" "check_cancel h" "check_cancel h" c h "Some ticket"
          "h_ticks h" ?r0] loop turn_event_req by (simp add: new_pump_def)
    have "calls_since h k k2"
      using turn_loop_calls[of h k ?r0 c "Some ticket" stream "pl_prompt pl" "h_ticks h"] loop by simp
    then have "nothing_left ticket req k d'"
      using end_turn_nothing_left_for[OF fin] req by (simp add: calls_since_def)
    moreover have "ticket = next_ticket (d_scheduler d)"
      using start_request_ticket Inr r by fastforce
    ultimately show ?thesis
      using Inr r by (simp add: nothing_left_def)
  qed
qed

text \<open>The demonstration session runs a turn whose backend goes away at once.\<close>

definition demo_plan_value :: plan where
  "demo_plan_value =
     \<lparr> pl_backend = demo_backend, pl_prompt = 5, pl_reserve = 517, pl_grammar = None, pl_attachments = [] \<rparr>"

lemma demo_admit:
  "\<exists>d'. admit default_config (demo_host ticks) demo_session (demo_daemon\<lparr> d_sessions := ss \<rparr>) = (True, 1, d')
     \<and> live (d_backends d') = [(''mock'', demo_backend)]"
  by (simp add: admit_def admit_enqueue_def Let_def wait_slot.simps admit_poll_def is_turn_def running_in_class_def
      cap_of_def sched_of_def scheduler_new_def default_config_def default_scheduler_def inner_new_def obey_def
      pause_messages_def)

lemma demo_start:
  "\<exists>d1. start_request default_config (demo_host ticks) mk [] (demo_worker, demo_daemon\<lparr> d_sessions := ss \<rparr>)
     = Inr (1, 1, demo_worker, d1)"
proof -
  have "b_next_req demo_backend = 1" "b_inflight demo_backend = []" "b_sent demo_backend = []"
    by (simp_all add: demo_backend_def)
  then show ?thesis
    using demo_admit[of ticks ss]
    by (auto simp: start_request_def begin_on_def begin_req_def send_def Let_def)
qed

lemma demo_turn:
  "\<exists>k' d'. turn_run default_config (demo_host [(0, Tick_Closed)]) False demo_plan_value (demo_worker, demo_daemon)
     = (True, k', d')"
proof -
  let ?h = "demo_host [(0, Tick_Closed)]"
  have d: "on_session ''s1'' g demo_daemon = demo_daemon\<lparr> d_sessions := [(''s1'', g demo_session)] \<rparr>" for g
    by (simp add: on_session_def)
  obtain d1 where start: "start_request default_config ?h (turn_request demo_plan_value demo_worker) []
      (demo_worker, demo_daemon\<lparr> d_sessions := [(''s1'', demo_session\<lparr> s_cancelled := False \<rparr>)] \<rparr>) = Inr (1, 1, demo_worker, d1)"
    using demo_start by blast
  have stop: "fst (pump_loop default_config ?h t e a b [(0, Tick_Closed)] r)" for t e a b r
    by (cases r) simp
  obtain r' where "pump_loop default_config ?h (Some 1) (turn_event default_config ?h False (pl_prompt demo_plan_value))
      (check_cancel ?h) (check_cancel ?h) [(0, Tick_Closed)]
      (check_cancel ?h (new_pump 1 (sum_list (map estimate_attachment_tokens (pl_attachments demo_plan_value))), demo_worker,
         on_session ''s1'' (\<lambda>s. s\<lparr> s_current_req := Some 1 \<rparr>) d1)) = (True, r')"
    using stop by (metis (full_types) prod.collapse)
  then show ?thesis
    by (simp add: turn_run_def d start Let_def)
qed

theorem ended_turn_leaves_nothing_witness:
  "\<exists>k' d'. turn_run default_config (demo_host [(0, Tick_Closed)]) False demo_plan_value (demo_worker, demo_daemon)
      = (True, k', d') \<and> 1 \<notin> r_ticket ` set (runs (d_scheduler d')) \<and> nothing_left 1 1 demo_worker d'"
proof -
  obtain k' d' where run: "turn_run default_config (demo_host [(0, Tick_Closed)]) False demo_plan_value
      (demo_worker, demo_daemon) = (True, k', d')"
    using demo_turn by blast
  have first: "next_ticket (d_scheduler demo_daemon) = 1"
    by (simp add: inner_new_def)
  obtain d1 where "start_request default_config (demo_host [(0, Tick_Closed)]) (turn_request demo_plan_value demo_worker) []
      (demo_worker, on_session ''s1'' (\<lambda>s. s\<lparr> s_cancelled := False \<rparr>) demo_daemon) = Inr (1, 1, demo_worker, d1)"
    using demo_start[of "[(0, Tick_Closed)]" "turn_request demo_plan_value demo_worker"
        "[(''s1'', demo_session\<lparr> s_cancelled := False \<rparr>)]"] by (auto simp: on_session_def)
  then show ?thesis
    using ended_turn_leaves_nothing[OF run] run first by auto
qed

subsection \<open>Behaviour beside the intent\<close>

text \<open>
  A turn refused for its attachments has already reserved the cache and marked it in use; only the
  end of a request or of the session takes the mark away, so until then it cannot be evicted.
\<close>

lemma refused_attachments_hold_the_cache:
  assumes "reserve_cache c h n (k, d) = Inr ((), s1)" and "carried_attachments b s1 = Inl (k', d')"
  shows "\<exists>e. map_of (kv (d_scheduler d')) (k_sid k) = Some e \<and> kv_active e"
proof -
  have "snd s2 = d1" if "need ok cd msg (k1, d1) = Inl s2" for ok cd msg k1 d1 s2
    using that by (auto simp: need_def ret_def refuse_def split: if_splits)
  moreover have "snd s2 = d1" if "serving cap (k1, d1) = Inl s2" for cap k1 d1 s2
    using that by (auto simp: serving_def refuse_def split: sum.splits)
  ultimately have "d' = snd s1"
    using assms(2) by (cases s1)
      (auto simp: carried_attachments_def Let_def next_op_def ret_def need_Inr serving_Inr split: sum.splits if_splits prod.splits)
  then show ?thesis
    using assms(1) reserve_kv_entry by (fastforce simp: reserve_cache_Inr)
qed

lemma cancel_sends:
  assumes "map_of (live (d_backends d)) name = Some b" "b_alive b"
  shows "map_of (live (d_backends (change_live name (cancel_req None req) d))) name
    = Some (b\<lparr> b_sent := b_sent b @ [B_Cancel req] \<rparr>)"
  using assms by (simp add: change_live_def on_live_def cancel_req_def send_def)

text \<open>
  A cancel during a turn reaches the backend at once, from the reading thread; the loop then
  sees the flag and sends it a second time.
\<close>

lemma cancel_is_sent_twice:
  assumes "map_of (d_sessions d) (k_sid k) = Some ss" "s_current_req ss = Some (pu_req p)"
    and "s_backend ss = s_backend (k_session k)" "h_broken h = None" "\<not> pu_cancel_sent p"
    and "map_of (live (d_backends d)) (s_backend (k_session k)) = Some b" "b_alive b"
  shows "\<exists>p' d'. check_cancel h (p, k, cancel_in_flight (h_env h) (k_sid k) d) = (p', k, d')
    \<and> map_of (live (d_backends d')) (s_backend (k_session k))
        = Some (b\<lparr> b_sent := b_sent b @ [B_Cancel (pu_req p), B_Cancel (pu_req p)] \<rparr>)"
proof -
  have live: "get_backend spawn (s_backend (k_session k)) (d_backends d) = (Inr b, d_backends d)" for spawn
    using assms(6,7) by (simp add: get_backend_def)
  have first: "cancel_in_flight (h_env h) (k_sid k) d
      = change_live (s_backend (k_session k)) (cancel_req None (pu_req p)) (on_session (k_sid k) (\<lambda>s. s\<lparr> s_cancelled := True \<rparr>) d)"
    using assms(1-3) live by (simp add: cancel_in_flight_def Let_def change_live_def on_session_def)
  have "s_cancelled (shared k (cancel_in_flight (h_env h) (k_sid k) d))"
    using assms(1) by (simp add: first shared_def on_session_here[OF assms(1)] unwrap_or_def)
  then show ?thesis
    using assms(4-7) cancel_sends[of "on_session (k_sid k) (\<lambda>s. s\<lparr> s_cancelled := True \<rparr>) d" "s_backend (k_session k)" b "pu_req p"]
      cancel_sends[of "cancel_in_flight (h_env h) (k_sid k) d" "s_backend (k_session k)"
        "b\<lparr> b_sent := b_sent b @ [B_Cancel (pu_req p)] \<rparr>" "pu_req p"]
    by (auto simp: check_cancel_def cancel_on_def first)
qed

text \<open>A daemon configured for no attachments panics on a request for media that its guards let through.\<close>

lemma media_panics_without_attachments:
  assumes "media_guard c h kind s = Inr (b, s1)" "max_per_session (c_attachments c) = 0"
  shows "generate_media c h kind prompt ps n s = None"
  using assms by (simp add: generate_media_def clamp_def)

text \<open>
  A cancel that arrives while the turn is still being prepared (consent, loading the weights) sets
  only the flag, and the turn clears the flag before it asks for a slot: the turn runs as if the
  client had never cancelled.
\<close>

lemma update_update: "AList.update x a (AList.update x b m) = AList.update x a m"
  by (induction m) auto

lemma early_cancel_is_lost:
  "turn_run c h stream pl (k, on_session (k_sid k) (\<lambda>s. s\<lparr> s_cancelled := True \<rparr>) d) = turn_run c h stream pl (k, d)"
proof -
  have "on_session (k_sid k) (\<lambda>s. s\<lparr> s_cancelled := False \<rparr>) (on_session (k_sid k) (\<lambda>s. s\<lparr> s_cancelled := True \<rparr>) d)
      = on_session (k_sid k) (\<lambda>s. s\<lparr> s_cancelled := False \<rparr>) d"
    by (simp add: on_session_def update_update split: option.split)
  then show ?thesis
    by (simp add: turn_run_def)
qed

end
