(* ===== verification/Install.thy ===== *)
theory Install
  imports Dbus Audit_Log
begin

text \<open>
  Installing a model: \<open>crates/ai-daemon/src/install.rs\<close>. The fetch helper has the network and is not
  trusted: what it leaves in the file system and what it reports are arguments (\<open>fetch_env\<close>), and
  so are the bus, which systemd is asked over, and the JSON of reports. Files are an association
  list, as in the registry. The texts of refusals are shortened.
\<close>

subsection \<open>The source\<close>

record fetch_report =
  fr_ok :: bool
  fr_error :: string
  fr_path :: string
  fr_bytes :: nat
  fr_digest :: string

definition default_report :: fetch_report where
  "default_report = \<lparr> fr_ok = False, fr_error = [], fr_path = [], fr_bytes = 0, fr_digest = [] \<rparr>"

record install_options =
  io_max_ctx :: "nat option"
  io_format :: "string option"
  io_backend :: "string option"
  io_license :: "string option"
  io_capabilities :: "string list option"

text \<open>
  What surrounds a fetch: whether there is a bus and systemd starts the unit, what the helper
  did to the files before it reported or the hour was over, what it printed when run directly, the
  JSON of jobs and reports, and the clock.
\<close>

record fetch_env =
  fe_bus :: bool
  fe_job_writable :: bool
  fe_starts :: bool
  fe_direct :: "string + string"
  fe_parse :: "string \<Rightarrow> fetch_report option"
  fe_effect :: "fs \<Rightarrow> fs"
  fe_job_text :: "string \<Rightarrow> string \<Rightarrow> string \<Rightarrow> string"
  fe_secs :: nat

definition is_name_char :: "char \<Rightarrow> bool" where
  "is_name_char c \<longleftrightarrow> is_ascii_alphanumeric c \<or> c = CHR ''-'' \<or> c = CHR ''_'' \<or> c = CHR ''.''"

definition name_ok :: "string \<Rightarrow> bool" where
  "name_ok name \<longleftrightarrow> \<not> (name = [] \<or> \<not> list_all is_name_char name \<or> starts_with ''.'' name)"

definition guess_quantization :: "string \<Rightarrow> string" where
  "guess_quantization source =
     (let low = to_ascii_lowercase source
      in case List.find (\<lambda>cand. contains_str cand low)
                [''q4_k_m'', ''q4_k_s'', ''q5_k_m'', ''q6_k'', ''q8_0'', ''f16'', ''bf16'', ''f32''] of
           Some cand \<Rightarrow> cand
         | None \<Rightarrow> [])"

definition magic :: "fs \<Rightarrow> string \<Rightarrow> string + string" where
  "magic f path =
     (case map_of f path of
        None \<Rightarrow> Inl ''no such file''
      | Some bytes \<Rightarrow> if length bytes < 4 then Inl ''failed to fill whole buffer'' else Inr (take 4 bytes))"

definition POLICY_ONLY :: "(string \<times> string) list" where
  "POLICY_ONLY = [(''generate-tools'', ''tools''), (''generate-media'', ''image-out` or `audio-out'')]"

fun servable :: "starter \<Rightarrow> manifest \<Rightarrow> string list \<Rightarrow> backends \<Rightarrow> (string + unit) \<times> backends" where
  "servable spawn m [] bs = (Inr (), bs)"
| "servable spawn m (capability # rest) bs =
     (case map_of POLICY_ONLY capability of
        Some model_word \<Rightarrow>
          (Inl (capability @ '' is a policy capability, not a model capability; for this one the word is ''
             @ model_word), bs)
      | None \<Rightarrow>
          (case for_manifest spawn m capability bs of
             (Inl e, bs') \<Rightarrow>
               (Inl (m_name m @ '' was declared '' @ capability @ '' and no configured backend serves that for a ''
                  @ m_format m @ '' model ('' @ e @ '')''), bs')
           | (Inr _, bs') \<Rightarrow> servable spawn m rest bs'))"

subsection \<open>Fetching\<close>

text \<open>\<open>None\<close> is that there is no systemd to ask.\<close>

definition fetch_via_systemd :: "fetch_env \<Rightarrow> string \<Rightarrow> string \<Rightarrow> string \<Rightarrow> string \<Rightarrow> string \<Rightarrow> fs \<Rightarrow> fetch_report option \<times> fs" where
  "fetch_via_systemd e staging name source digest target f =
     (let job_id = name @ ''-'' @ show_nat (fe_secs e);
          job_path = join_path staging (job_id @ ''.job'');
          report_path = join_path staging (job_id @ ''.report'')
      in if \<not> fe_bus e \<or> \<not> fe_job_writable e then (None, f)
         else
           let f1 = AList.delete report_path (AList.update job_path (fe_job_text e source target digest) f)
           in if \<not> fe_starts e then (None, AList.delete job_path f1)
              else
                let f2 = fe_effect e f1
                in case read_to_string f2 report_path of
                     Some txt \<Rightarrow>
                       (Some (unwrap_or (fe_parse e txt)
                          (default_report\<lparr> fr_error := ''the fetch helper wrote an unreadable report'' \<rparr>)),
                        AList.delete report_path (AList.delete job_path f2))
                   | None \<Rightarrow>
                       (Some (default_report\<lparr> fr_error :=
                          ''ai-daemon-fetch@'' @ job_id @ ''.service did not finish within an hour'' \<rparr>),
                        AList.delete job_path f2))"

definition fetch_directly :: "fetch_env \<Rightarrow> fs \<Rightarrow> (string + fetch_report) \<times> fs" where
  "fetch_directly e f =
     (case fe_direct e of
        Inl err \<Rightarrow> (Inl (''running the fetch helper: '' @ err), f)
      | Inr stdout \<Rightarrow>
          ((case fe_parse e stdout of
              Some r \<Rightarrow> Inr r
            | None \<Rightarrow> Inl ''the fetch helper said something unreadable''), fe_effect e f))"

definition fetch :: "fetch_env \<Rightarrow> string \<Rightarrow> string \<Rightarrow> string \<Rightarrow> string \<Rightarrow> string \<Rightarrow> fs \<Rightarrow> (string + fetch_report) \<times> fs" where
  "fetch e staging name source digest target f =
     (case fetch_via_systemd e staging name source digest target f of
        (Some r, f') \<Rightarrow> (Inr r, f')
      | (None, f') \<Rightarrow> fetch_directly e f')"

subsection \<open>Installing\<close>

definition stated_ctx :: "install_options \<Rightarrow> nat \<Rightarrow> requirements" where
  "stated_ctx os bytes =
     \<lparr> weights_bytes = bytes, min_memory_bytes = 0, default_ctx = unwrap_or (io_max_ctx os) 0,
       max_ctx = unwrap_or (io_max_ctx os) 0 \<rparr>"

definition no_template :: template where
  "no_template = \<lparr> chat_format = None, bos = None, eos = None \<rparr>"

definition install_remote :: "codec \<Rightarrow> blocked \<Rightarrow> starter \<Rightarrow> string \<Rightarrow> string \<Rightarrow> install_options \<Rightarrow> daemon \<Rightarrow> fs
    \<Rightarrow> (string + string) \<times> daemon \<times> fs" where
  "install_remote cd blk spawn endpoint_model name os d f =
     (if endpoint_model = [] \<or> \<not> list_all (\<lambda>c. is_name_char c \<or> c = CHR ''/'' \<or> c = CHR '':'') endpoint_model
      then (Inl (endpoint_model @ '' is not usable as a remote model identifier''), d, f)
      else if (case io_format os of Some fmt \<Rightarrow> fmt \<noteq> REMOTE_FORMAT | None \<Rightarrow> False)
      then (Inl (''a remote: source is format remote, not '' @ unwrap_or (io_format os) []), d, f)
      else
        let asked = unwrap_or (io_backend os) []
        in case remote_provider (d_backends d) asked of
             None \<Rightarrow>
               (Inl (if asked = [] then ''no remote provider is configured; a remote: model needs a backend with a connect socket (see /etc/ai-daemon/remote.toml)''
                     else ''backend '' @ asked @ '' is not a configured remote provider''), d, f)
           | Some serving \<Rightarrow>
               let m = \<lparr> m_name = name, m_digest = ''remote:'' @ endpoint_model, m_format = REMOTE_FORMAT,
                         m_quantization = [], m_license = unwrap_or (io_license os) [],
                         m_requirements = stated_ctx os 0, m_template = no_template, m_backend = serving,
                         m_capabilities = unwrap_or (io_capabilities os) [''generate''],
                         m_source = ''remote:'' @ endpoint_model \<rparr>
               in case servable spawn m (m_capabilities m) (d_backends d) of
                    (Inl e, bs) \<Rightarrow> (Inl e, d\<lparr> d_backends := bs \<rparr>, f)
                  | (Inr _, bs) \<Rightarrow>
                      (case register_remote cd blk m (d_registry d) f of
                         (Inl e, r, f') \<Rightarrow> (Inl e, d\<lparr> d_backends := bs, d_registry := r \<rparr>, f')
                       | (Inr m', r, f') \<Rightarrow> (Inr (m_name m'), d\<lparr> d_backends := bs, d_registry := r \<rparr>, f')))"

text \<open>After the helper reported success: the magic, the manifest, the capabilities, the store.\<close>

definition install_landed :: "codec \<Rightarrow> blocked \<Rightarrow> starter \<Rightarrow> string \<Rightarrow> string \<Rightarrow> string \<Rightarrow> install_options \<Rightarrow> nat \<Rightarrow> string
    \<Rightarrow> daemon \<Rightarrow> fs \<Rightarrow> (string + string) \<times> daemon \<times> fs" where
  "install_landed cd blk spawn source digest name os bytes landed d f =
     (let fmt = unwrap_or (io_format os) ''gguf'';
          m = \<lparr> m_name = name, m_digest = digest, m_format = fmt, m_quantization = guess_quantization source,
                m_license = unwrap_or (io_license os) [], m_requirements = stated_ctx os bytes,
                m_template = no_template, m_backend = unwrap_or (io_backend os) [],
                m_capabilities = unwrap_or (io_capabilities os) [''generate''], m_source = source \<rparr>
      in if fmt = ''gguf'' \<and> \<not> is_ok (magic f landed)
         then (Inl (''reading '' @ landed), d, f)
         else if fmt = ''gguf'' \<and> magic f landed \<noteq> Inr ''GGUF''
         then (Inl (name @ '' was declared gguf but does not start with the GGUF magic''), d, AList.delete landed f)
         else
           (case servable spawn m (m_capabilities m) (d_backends d) of
              (Inl e, bs) \<Rightarrow> (Inl e, d\<lparr> d_backends := bs \<rparr>, AList.delete landed f)
            | (Inr _, bs) \<Rightarrow>
                (case accept_staged cd blk landed m digest (d_registry d) f of
                   (Inl e, r, f') \<Rightarrow> (Inl e, d\<lparr> d_backends := bs, d_registry := r \<rparr>, f')
                 | (Inr m', r, f') \<Rightarrow> (Inr (m_name m'), d\<lparr> d_backends := bs, d_registry := r \<rparr>, f'))))"

definition install :: "codec \<Rightarrow> blocked \<Rightarrow> starter \<Rightarrow> fetch_env \<Rightarrow> config \<Rightarrow> string \<Rightarrow> string \<Rightarrow> string \<Rightarrow> install_options
    \<Rightarrow> daemon \<Rightarrow> fs \<Rightarrow> (string + string) \<times> daemon \<times> fs" where
  "install cd blk spawn e c source digest name os d f =
     (if \<not> name_ok name then (Inl (name @ '' is not usable as a model name''), d, f)
      else
        (case strip_prefix ''remote:'' source of
           Some endpoint_model \<Rightarrow> install_remote cd blk spawn endpoint_model name os d f
         | None \<Rightarrow>
             if \<not> starts_with ''sha256:'' digest
             then (Inl ''a sha256 digest is required; installing unverified weights is not offered'', d, f)
             else
               (case blk (staging_dir (d_registry d)) of
                  Some err \<Rightarrow> (Inl (''staging directory: '' @ err), d, f)
                | None \<Rightarrow>
                    let staging = staging_dir (d_registry d);
                        target = join_path staging (name @ ''.part'');
                        f0 = AList.delete target f;
                        helper = join_path (libexec_dir (c_daemon c)) ''ai-daemon-fetch''
                    in if map_of f0 helper = None then (Inl (helper @ '' is not installed''), d, f0)
                       else
                         (case fetch e staging name source digest target f0 of
                            (Inl err, f1) \<Rightarrow> (Inl err, d, f1)
                          | (Inr r, f1) \<Rightarrow>
                              if \<not> fr_ok r
                              then (Inl (if fr_error r = [] then ''the fetch helper failed without saying why''
                                         else fr_error r), d, AList.delete target f1)
                              else
                                install_landed cd blk spawn source digest name os (fr_bytes r)
                                  (if fr_path r = [] then target else fr_path r) d f1))))"

subsection \<open>What an install guarantees\<close>

text \<open>The helper's confinement: its unit may write below the staging directory and nowhere else.\<close>

definition helper_confined :: "fetch_env \<Rightarrow> string \<Rightarrow> bool" where
  "helper_confined e staging \<longleftrightarrow>
     (\<forall>f p. \<not> path_starts_with p staging \<longrightarrow> map_of (fe_effect e f) p = map_of f p)"

lemma name_ok_plain: "name_ok name \<Longrightarrow> CHR ''/'' \<notin> set name"
  by (auto simp: name_ok_def list_all_iff is_name_char_def is_ascii_alphanumeric_def is_ascii_digit_def
      is_ascii_upper_def is_ascii_lower_def code_def)

lemma path_starts_with_join:
  "CHR ''/'' \<notin> set b \<Longrightarrow> path_starts_with (join_path staging b) staging"
  using path_components_append[of staging b] by (simp add: path_starts_with_def join_plain)

lemma store_ok_same:
  assumes "store_ok cd base f" "\<And>d p. blob_path base d = Inr p \<Longrightarrow> map_of f' p = None \<or> map_of f' p = map_of f p"
  shows "store_ok cd base f'"
  using assms unfolding store_ok_def by (metis option.distinct(1))

lemma blob_not_staged: "blob_path (system_root r) d = Inr p \<Longrightarrow> \<not> path_starts_with p (staging_dir r)"
  using staged_elsewhere(2) by (metis blob_path_Inr staging_dir_def)

text \<open>Fetching touches the blobs in no way.\<close>

lemma fetch_keeps_blobs:
  assumes "fetch e (staging_dir r) name source digest target f = (res, f')" "helper_confined e (staging_dir r)" "CHR ''/'' \<notin> set name"
    and "\<not> path_starts_with p (staging_dir r)"
  shows "map_of f' p = map_of f p"
proof -
  have "CHR ''/'' \<notin> set (name @ ''-'' @ show_nat n @ ''.job'')" "CHR ''/'' \<notin> set (name @ ''-'' @ show_nat n @ ''.report'')" for n
    using assms(3) not_digit_show_nat[of "CHR ''/''"] by (auto simp: is_ascii_digit_def code_def)
  then have "p \<noteq> join_path (staging_dir r) (name @ ''-'' @ show_nat n @ ''.job'')"
    "p \<noteq> join_path (staging_dir r) (name @ ''-'' @ show_nat n @ ''.report'')" for n
    using path_starts_with_join assms(4) by blast+
  then show ?thesis
    using assms(1,2,4)
    by (auto simp: fetch_def fetch_via_systemd_def fetch_directly_def helper_confined_def Let_def
        split: if_splits option.splits sum.splits)
qed

lemma servable_all:
  "servable spawn m caps bs = (Inr (), bs') \<Longrightarrow> cap \<in> set caps \<Longrightarrow> map_of POLICY_ONLY cap = None"
  by (induction spawn m caps bs rule: servable.induct) (auto split: option.splits prod.splits sum.splits)

text \<open>An install that went through passed the magic, the capability check and the store.\<close>

lemma install_landed_Inr:
  assumes "install_landed cd blk spawn source digest name os bytes landed d f = (Inr installed, d', f')"
  obtains m m' bs r' where "m_name m = name" "m_capabilities m = unwrap_or (io_capabilities os) [''generate'']"
    "servable spawn m (m_capabilities m) (d_backends d) = (Inr (), bs)"
    "accept_staged cd blk landed m digest (d_registry d) f = (Inr m', r', f')"
    "installed = m_name m'"
    "unwrap_or (io_format os) ''gguf'' \<noteq> ''gguf'' \<or> magic f landed = Inr ''GGUF''"
proof -
  define m where "m = \<lparr> m_name = name, m_digest = digest, m_format = unwrap_or (io_format os) ''gguf'',
    m_quantization = guess_quantization source, m_license = unwrap_or (io_license os) [],
    m_requirements = stated_ctx os bytes, m_template = no_template, m_backend = unwrap_or (io_backend os) [],
    m_capabilities = unwrap_or (io_capabilities os) [''generate''], m_source = source \<rparr>"
  have magic: "unwrap_or (io_format os) ''gguf'' \<noteq> ''gguf'' \<or> magic f landed = Inr ''GGUF''"
    using assms by (auto simp: install_landed_def Let_def split: if_splits)
  obtain sv bs where sv: "servable spawn m (m_capabilities m) (d_backends d) = (sv, bs)"
    by fastforce
  obtain acc r' f'' where acc: "accept_staged cd blk landed m digest (d_registry d) f = (acc, r', f'')"
    by (cases "accept_staged cd blk landed m digest (d_registry d) f") auto
  have "install_landed cd blk spawn source digest name os bytes landed d f =
    (case sv of Inl e \<Rightarrow> (Inl e, d\<lparr> d_backends := bs \<rparr>, AList.delete landed f)
     | Inr _ \<Rightarrow> (case acc of
         Inl e \<Rightarrow> (Inl e, d\<lparr> d_backends := bs, d_registry := r' \<rparr>, f'')
       | Inr m' \<Rightarrow> (Inr (m_name m'), d\<lparr> d_backends := bs, d_registry := r' \<rparr>, f'')))"
    using magic sv acc unfolding install_landed_def Let_def m_def[symmetric]
    by (auto simp: is_ok_def split: sum.splits)
  then obtain m' where "sv = Inr ()" "acc = Inr m'" "installed = m_name m'" "f' = f''"
    using assms by (cases sv; cases acc) auto
  then show ?thesis
    using that[of m bs m' r'] sv acc magic by (simp add: m_def)
qed

text \<open>
  C26. Only verified weights are installed, whatever the fetch helper reports. When installing from a
  source that is not remote succeeds, the name is plain and is the one returned; the file that
  landed has exactly the digest the caller asked for, and starts with the GGUF magic when it was
  declared so; the store holds under that digest bytes that have it; no policy word was taken for
  a capability; and the store, content-addressed before, still is, as long as the helper could
  write only into the staging directory.
\<close>

theorem install_only_verified_weights:
  assumes ins: "install cd blk spawn e c source digest name os d f = (Inr installed, d', f')"
    and local_src: "strip_prefix ''remote:'' source = None"
    and confined: "helper_confined e (staging_dir (d_registry d))"
    and store: "store_ok cd (system_root (d_registry d)) f"
  shows "installed = name \<and> name_ok name \<and> store_ok cd (system_root (d_registry d)) f'
    \<and> (\<exists>bytes dest stored. digest = ''sha256:'' @ sha256_hex cd bytes
        \<and> (unwrap_or (io_format os) ''gguf'' \<noteq> ''gguf'' \<or> take 4 bytes = ''GGUF'')
        \<and> blob_path (system_root (d_registry d)) digest = Inr dest
        \<and> map_of f' dest = Some stored \<and> digest = ''sha256:'' @ sha256_hex cd stored)
    \<and> list_all (\<lambda>cap. map_of POLICY_ONLY cap = None) (unwrap_or (io_capabilities os) [''generate''])"
proof -
  let ?r = "d_registry d" and ?target = "join_path (staging_dir (d_registry d)) (name @ ''.part'')"
  have ok: "name_ok name"
    using ins by (auto simp: install_def split: if_splits)
  then have plain: "CHR ''/'' \<notin> set name"
    by (rule name_ok_plain)
  obtain rep f1 where fetched: "fetch e (staging_dir ?r) name source digest ?target (AList.delete ?target f) = (Inr rep, f1)"
    and landed: "install_landed cd blk spawn source digest name os (fr_bytes rep)
        (if fr_path rep = [] then ?target else fr_path rep) d f1 = (Inr installed, d', f')"
    using ins local_src ok by (auto simp: install_def Let_def split: if_splits option.splits sum.splits prod.splits)
  define land where "land = (if fr_path rep = [] then ?target else fr_path rep)"
  have store1: "store_ok cd (system_root ?r) f1"
  proof (rule store_ok_same[OF store])
    fix dg p assume blob: "blob_path (system_root ?r) dg = Inr p"
    have "map_of f1 p = map_of (AList.delete ?target f) p"
      using fetch_keeps_blobs[OF fetched confined plain] blob_not_staged[OF blob] by blast
    then show "map_of f1 p = None \<or> map_of f1 p = map_of f p"
      by simp
  qed
  obtain m m' bs r' where m: "m_name m = name" "m_capabilities m = unwrap_or (io_capabilities os) [''generate'']"
    and caps: "servable spawn m (m_capabilities m) (d_backends d) = (Inr (), bs)"
    and acc: "accept_staged cd blk land m digest ?r f1 = (Inr m', r', f')"
    and res: "installed = m_name m'"
    and gguf: "unwrap_or (io_format os) ''gguf'' \<noteq> ''gguf'' \<or> magic f1 land = Inr ''GGUF''"
    by (rule install_landed_Inr[OF landed[folded land_def]])
  have slash: "CHR ''/'' \<notin> set (m_name m)"
    using plain m by simp
  obtain bytes dest stored where "map_of f1 land = Some bytes" "digest = ''sha256:'' @ sha256_hex cd bytes"
    "blob_path (system_root ?r) digest = Inr dest" "map_of f' dest = Some stored"
    "digest = ''sha256:'' @ sha256_hex cd stored"
    using accept_staged_store(1)[OF acc slash store1] by blast
  moreover from this gguf have "unwrap_or (io_format os) ''gguf'' \<noteq> ''gguf'' \<or> take 4 bytes = ''GGUF''"
    by (auto simp: magic_def split: if_splits)
  moreover have "m_name m' = m_name m"
    using accept_staged_Inr[OF acc] by metis
  ultimately show ?thesis
    using ok res m servable_all[OF caps] accept_staged_store(2)[OF acc slash store1] by (auto simp: list_all_iff)
qed

text \<open>A small install: the helper is run directly and leaves six bytes in the staging directory.\<close>

definition small_fetch :: fetch_env where
  "small_fetch =
     \<lparr> fe_bus = False, fe_job_writable = True, fe_starts = False, fe_direct = Inr ''ok'',
       fe_parse = (\<lambda>_. Some (default_report\<lparr> fr_ok := True, fr_bytes := 6 \<rparr>)),
       fe_effect = (\<lambda>f. AList.update ''/m/staging/tiny.part'' ''GGUFab'' f), fe_job_text = (\<lambda>_ _ _. []), fe_secs = 9 \<rparr>"

definition small_options :: install_options where
  "small_options = \<lparr> io_max_ctx = None, io_format = None, io_backend = None, io_license = None, io_capabilities = Some [] \<rparr>"

definition small_files :: fs where
  "small_files = [(''/usr/lib/ai-daemon/ai-daemon-fetch'', ''#!'')]"

abbreviation small_staged :: fs where
  "small_staged \<equiv> AList.update ''/m/staging/tiny.part'' ''GGUFab'' small_files"

lemma small_fetched:
  "fetch small_fetch ''/m/staging'' ''tiny'' source digest ''/m/staging/tiny.part'' small_files
   = (Inr (default_report\<lparr> fr_ok := True, fr_bytes := 6 \<rparr>), small_staged)"
  by (simp add: fetch_def fetch_via_systemd_def fetch_directly_def small_fetch_def)

lemma small_accept:
  assumes "m_name m = ''tiny''"
  shows "\<exists>m' r' f'. m_name m' = ''tiny'' \<and> accept_staged sample_codec (\<lambda>_. None) ''/m/staging/tiny.part'' m (''sha256:'' @ zero_hex)
     sample_registry small_staged = (Inr m', r', f')"
proof -
  have "path_starts_with ''/m/staging/tiny.part'' (staging_dir sample_registry)"
    by (simp add: staging_dir_def sample_registry_def join_path_def starts_with_def path_starts_with_def
        path_components_def)
  moreover have "map_of small_staged (''/m/blobs/sha256/'' @ zero_hex) = None"
    by (simp add: small_files_def)
  ultimately show ?thesis
    unfolding accept_staged_def
    using sample_dest assms
    by (simp add: sample_codec_def sample_registry_def place_blob_def write_atomic_def Let_def
        small_files_def del: append_Cons)
qed

lemma small_install:
  "\<exists>d' f'. install sample_codec (\<lambda>_. None) spawn small_fetch default_config ''hf'' (''sha256:'' @ zero_hex) ''tiny''
     small_options (d\<lparr> d_registry := sample_registry \<rparr>) small_files = (Inr ''tiny'', d', f')"
proof -
  have ok: "name_ok ''tiny''"
    by (simp add: name_ok_def is_name_char_def is_ascii_alphanumeric_def is_ascii_digit_def
        is_ascii_upper_def is_ascii_lower_def code_def starts_with_def)
  have dirs: "staging_dir sample_registry = ''/m/staging''" "join_path ''/m/staging'' ''tiny.part'' = ''/m/staging/tiny.part''"
    "join_path ''/usr/lib/ai-daemon'' ''ai-daemon-fetch'' = ''/usr/lib/ai-daemon/ai-daemon-fetch''"
    by (simp_all add: staging_dir_def sample_registry_def join_path_def starts_with_def)
  have magic: "magic small_staged ''/m/staging/tiny.part'' = Inr ''GGUF''"
    by (simp add: magic_def update_conv')
  have gone: "AList.delete ''/m/staging/tiny.part'' small_files = small_files"
    by (simp add: small_files_def)
  have "\<exists>d' f'. install_landed sample_codec (\<lambda>_. None) spawn ''hf'' (''sha256:'' @ zero_hex) ''tiny''
      small_options 6 ''/m/staging/tiny.part'' (d\<lparr> d_registry := sample_registry \<rparr>) small_staged = (Inr ''tiny'', d', f')"
    unfolding install_landed_def Let_def
    using magic small_accept[of "\<lparr> m_name = ''tiny'', m_digest = ''sha256:'' @ zero_hex, m_format = ''gguf'',
      m_quantization = guess_quantization ''hf'', m_license = [], m_requirements = stated_ctx small_options 6,
      m_template = no_template, m_backend = [], m_capabilities = [], m_source = ''hf'' \<rparr>"]
    by (auto simp: small_options_def)
  then show ?thesis
    using ok dirs gone small_fetched
    by (simp add: install_def Let_def strip_prefix_def starts_with_def default_config_def default_daemon_def
        small_files_def default_report_def)
qed

theorem install_only_verified_weights_witness:
  "\<exists>d' f'. install sample_codec (\<lambda>_. None) (\<lambda>_. Inl []) small_fetch default_config ''hf'' (''sha256:'' @ zero_hex) ''tiny''
     small_options (sample_daemon\<lparr> d_registry := sample_registry \<rparr>) small_files = (Inr ''tiny'', d', f')
     \<and> store_ok sample_codec ''/m'' f'"
proof -
  obtain d' f' where ins: "install sample_codec (\<lambda>_. None) (\<lambda>_. Inl []) small_fetch default_config ''hf''
      (''sha256:'' @ zero_hex) ''tiny'' small_options (sample_daemon\<lparr> d_registry := sample_registry \<rparr>) small_files
      = (Inr ''tiny'', d', f')"
    using small_install by blast
  have "strip_prefix ''remote:'' ''hf'' = None"
    by (simp add: strip_prefix_def starts_with_def)
  moreover have "helper_confined small_fetch (staging_dir (d_registry (sample_daemon\<lparr> d_registry := sample_registry \<rparr>)))"
    unfolding helper_confined_def
    by (auto simp: small_fetch_def update_conv' staging_dir_def sample_registry_def join_path_def starts_with_def
        path_starts_with_def path_components_def)
  moreover have "store_ok sample_codec (system_root (d_registry (sample_daemon\<lparr> d_registry := sample_registry \<rparr>))) small_files"
    unfolding store_ok_def
    by (auto simp: sample_registry_def small_files_def split: if_splits elim!: blob_path_Inr)
  ultimately show ?thesis
    using install_only_verified_weights[OF ins] ins by (auto simp: sample_registry_def)
qed

subsection \<open>What the helper's report can still do\<close>

text \<open>
  The path in the helper's report is used before it is checked to lie in the staging directory: a
  file without the GGUF magic is deleted wherever the report says it is.
\<close>

lemma reported_path_is_deleted:
  assumes "name_ok name" "strip_prefix ''remote:'' source = None" "starts_with ''sha256:'' digest"
    and "blk (staging_dir (d_registry d)) = None"
    and "map_of (AList.delete (join_path (staging_dir (d_registry d)) (name @ ''.part'')) f)
           (join_path (libexec_dir (c_daemon c)) ''ai-daemon-fetch'') \<noteq> None"
    and "fetch e (staging_dir (d_registry d)) name source digest
           (join_path (staging_dir (d_registry d)) (name @ ''.part''))
           (AList.delete (join_path (staging_dir (d_registry d)) (name @ ''.part'')) f) = (Inr rep, f1)"
    and "fr_ok rep" "fr_path rep \<noteq> []" "magic f1 (fr_path rep) = Inr four" "four \<noteq> ''GGUF''" "io_format os = None"
  shows "install cd blk spawn e c source digest name os d f
    = (Inl (name @ '' was declared gguf but does not start with the GGUF magic''), d, AList.delete (fr_path rep) f1)"
  using assms by (auto simp: install_def install_landed_def Let_def)

text \<open>A \<open>bf16\<close> file is recorded as \<open>f16\<close>: the shorter name is looked for first.\<close>

lemma bf16_is_never_guessed: "guess_quantization source \<noteq> ''bf16''"
proof
  assume "guess_quantization source = ''bf16''"
  then have no: "\<not> contains_str ''f16'' (to_ascii_lowercase source)" and yes: "contains_str ''bf16'' (to_ascii_lowercase source)"
    by (auto simp: guess_quantization_def Let_def split: if_splits)
  obtain a b where "to_ascii_lowercase source = (a @ ''b'') @ ''f16'' @ b"
    using yes by (auto simp: contains_str_iff)
  then show False
    using no unfolding contains_str_iff by blast
qed

end
