(* ===== verification/Fetch_Helper.thy ===== *)
theory Fetch_Helper
  imports Install
begin

text \<open>
  The fetch helper, \<open>crates/ai-daemon-fetch/src/main.rs\<close>: the one program with a network. It is run
  with a job (or arguments), copies a local file or has \<open>curl\<close> transfer one, and reports. What
  \<open>curl\<close> does to the files and prints, serde's JSON and the writes that fail are arguments; a command is its
  list of arguments, and every command that is run is kept in order.
\<close>

subsection \<open>The program\<close>

record helper_env =
  he_curl :: "string list \<Rightarrow> fs \<Rightarrow> string + (bool \<times> string \<times> string) \<times> fs"
  he_quote :: "string \<Rightarrow> string"
  he_debug :: "string \<Rightarrow> string"
  he_json :: "string \<Rightarrow> json option"
  he_job :: "string \<Rightarrow> string + string \<times> string \<times> string"
  he_blocked :: blocked

record helper =
  hp_files :: fs
  hp_out :: string
  hp_ran :: "string list list"

record fetch_args =
  fa_source :: string
  fa_output :: string
  fa_expected :: string
  fa_job :: "string option"

definition no_fetch_args :: fetch_args where
  "no_fetch_args = \<lparr> fa_source = [], fa_output = [], fa_expected = [], fa_job = None \<rparr>"

datatype early_exit = Printed | Unknown_Argument string

definition next_arg :: "string list \<Rightarrow> string" where
  "next_arg rest = (case rest of [] \<Rightarrow> [] | v # _ \<Rightarrow> v)"

function read_fetch_args :: "string list \<Rightarrow> fetch_args \<Rightarrow> early_exit + fetch_args" where
  "read_fetch_args [] a = Inr a"
| "read_fetch_args (arg # rest) a =
     (if arg = ''--job'' then read_fetch_args (drop 1 rest) (a\<lparr> fa_job := (case rest of [] \<Rightarrow> None | v # _ \<Rightarrow> Some v) \<rparr>)
      else if arg = ''--source'' then read_fetch_args (drop 1 rest) (a\<lparr> fa_source := next_arg rest \<rparr>)
      else if arg = ''--output'' then read_fetch_args (drop 1 rest) (a\<lparr> fa_output := next_arg rest \<rparr>)
      else if arg = ''--expect-digest'' then read_fetch_args (drop 1 rest) (a\<lparr> fa_expected := next_arg rest \<rparr>)
      else if arg = ''--version'' \<or> arg = ''-V'' \<or> arg = ''--help'' \<or> arg = ''-h'' then Inl Printed
      else Inl (Unknown_Argument arg))"
  by pat_completeness auto
termination
  by (relation "measure (\<lambda>(args, a). length args)") auto

text \<open>
  \<open>Path::with_extension\<close> on a path whose last component is a name: what follows its last dot is
  replaced, unless the dot is the first character.
\<close>

definition with_extension :: "string \<Rightarrow> string \<Rightarrow> string" where
  "with_extension ext path =
     (let (dir, name) = (case rsplit_once ''/'' path of Some (d, n) \<Rightarrow> (d @ ''/'', n) | None \<Rightarrow> ([], path))
      in if name = [] \<or> name = ''..'' then path
         else dir @ (case rsplit_once ''.'' name of Some (stem, _) \<Rightarrow> if stem = [] then name else stem | None \<Rightarrow> name)
                @ ''.'' @ ext)"

fun report_path :: "string list \<Rightarrow> string option" where
  "report_path [] = None"
| "report_path (arg # rest) =
     (if arg = ''--job'' then (case rest of [] \<Rightarrow> None | p # _ \<Rightarrow> Some (with_extension ''report'' p))
      else report_path rest)"

text \<open>The line on the standard output, and the file beside the job, written aside and renamed.\<close>

definition helper_report :: "helper_env \<Rightarrow> string list \<Rightarrow> string \<Rightarrow> helper \<Rightarrow> helper" where
  "helper_report e args json h =
     (let h1 = h\<lparr> hp_out := hp_out h @ json @ [CHR 0x0A] \<rparr>
      in case report_path args of
           None \<Rightarrow> h1
         | Some path \<Rightarrow>
             let tmp = with_extension ''report.tmp'' path
             in if he_blocked e tmp \<noteq> None then h1
                else if he_blocked e path \<noteq> None then h1\<lparr> hp_files := AList.update tmp json (hp_files h1) \<rparr>
                else h1\<lparr> hp_files := AList.update path json (AList.delete tmp (hp_files h1)) \<rparr>)"

definition failure_json :: "helper_env \<Rightarrow> string \<Rightarrow> string" where
  "failure_json e message = ''{\"ok\":false,\"error\":'' @ he_quote e message @ ''}''"

definition success_json :: "helper_env \<Rightarrow> string \<Rightarrow> nat \<Rightarrow> string \<Rightarrow> string" where
  "success_json e path n digest =
     ''{\"ok\":true,\"path\":'' @ he_quote e path @ '',\"bytes\":'' @ show_nat n @ '',\"digest\":'' @ he_quote e digest @ ''}''"

definition fail_with :: "helper_env \<Rightarrow> string list \<Rightarrow> string \<Rightarrow> helper \<Rightarrow> nat \<times> helper" where
  "fail_with e args message h = (1, helper_report e args (failure_json e message) h)"

definition local_copy_error :: "string \<Rightarrow> string \<Rightarrow> string" where
  "local_copy_error path err =
     (let base = ''copying '' @ path @ '': '' @ err
      in if starts_with ''/home/'' path \<or> starts_with ''/root/'' path
         then base @ [CHR 0x0A] @ ''this helper runs with ProtectHome=yes and cannot read home directories, ''
              @ ''so a file:// source under one is never visible to it regardless of its ''
              @ ''permissions; stage the file somewhere outside /home (/var/cache, /srv ''
              @ ''and /tmp all work) and install from there, or serve it over https://''
         else base)"

text \<open>A copy opens its source, then truncates its destination: onto itself, it empties the file.\<close>

definition copy_file :: "helper_env \<Rightarrow> string \<Rightarrow> string \<Rightarrow> helper \<Rightarrow> (string + nat) \<times> helper" where
  "copy_file e path output h =
     (case map_of (hp_files h) path of
        None \<Rightarrow> (Inl ''No such file or directory (os error 2)'', h)
      | Some bytes \<Rightarrow>
          (case he_blocked e output of
             Some err \<Rightarrow> (Inl err, h)
           | None \<Rightarrow>
               let landed = (if path = output then [] else bytes)
               in (Inr (length landed), h\<lparr> hp_files := AList.update output landed (hp_files h) \<rparr>)))"

definition run_curl :: "helper_env \<Rightarrow> string list \<Rightarrow> helper \<Rightarrow> (string + bool \<times> string \<times> string) \<times> helper" where
  "run_curl e args h =
     (let h1 = h\<lparr> hp_ran := hp_ran h @ [args] \<rparr>
      in case he_curl e args (hp_files h) of
           Inl err \<Rightarrow> (Inl err, h1)
         | Inr (r, f) \<Rightarrow> (Inr r, h1\<lparr> hp_files := f \<rparr>))"

definition CURL_FIXED :: "string list" where
  "CURL_FIXED = [''-sS'', ''--fail'', ''--location'', ''--proto'', ''=https'', ''--proto-redir'', ''=https'',
     ''--max-redirs'', ''5'', ''--connect-timeout'', ''30'', ''--retry'', ''3'', ''--retry-delay'', ''2'', ''-o'']"

definition curl :: "helper_env \<Rightarrow> string \<Rightarrow> string \<Rightarrow> string list \<Rightarrow> helper \<Rightarrow> (string + nat) \<times> helper" where
  "curl e url output extra h =
     (case run_curl e (CURL_FIXED @ [output] @ extra @ [url]) h of
        (Inl err, h1) \<Rightarrow> (Inl (''running curl: '' @ err), h1)
      | (Inr (success, status, _), h1) \<Rightarrow>
          if \<not> success then (Inl (''curl failed with '' @ status @ '' fetching '' @ url), h1)
          else
            (case map_of (hp_files h1) output of
               None \<Rightarrow> (Inl ''stat of the download: No such file or directory (os error 2)'', h1)
             | Some bytes \<Rightarrow> (Inr (length bytes), h1)))"

definition token_url :: "string \<Rightarrow> string \<Rightarrow> string" where
  "token_url reg repository =
     ''https://'' @ reg @ ''/token?service='' @ reg @ ''&scope=repository:'' @ repository @ '':pull''"

definition registry_token :: "helper_env \<Rightarrow> string \<Rightarrow> string \<Rightarrow> helper \<Rightarrow> string option \<times> helper" where
  "registry_token e reg repository h =
     (case run_curl e [''-sS'', ''--max-time'', ''30'', ''--fail'', token_url reg repository] h of
        (Inl _, h1) \<Rightarrow> (None, h1)
      | (Inr (success, _, stdout), h1) \<Rightarrow>
          if \<not> success then (None, h1)
          else
            (Option.bind (he_json e stdout) (\<lambda>body.
               Option.bind (case jget ''token'' body of Some t \<Rightarrow> Some t | None \<Rightarrow> jget ''access_token'' body) jstr), h1))"

definition fetch_oci :: "helper_env \<Rightarrow> string \<Rightarrow> string \<Rightarrow> helper \<Rightarrow> (string + nat) \<times> helper" where
  "fetch_oci e reference output h =
     (case rsplit_once ''@'' reference of
        None \<Rightarrow> (Inl ''an oci:// reference must be pinned by @sha256:...'', h)
      | Some (repository, digest) \<Rightarrow>
          if \<not> starts_with ''sha256:'' digest then (Inl ''only sha256 digests are supported'', h)
          else
            (case split_once ''/'' repository of
               None \<Rightarrow> (Inl ''an oci:// reference needs a registry and a repository'', h)
             | Some (reg, path) \<Rightarrow>
                 let (token, h1) = registry_token e reg path h
                 in curl e (''https://'' @ reg @ ''/v2/'' @ path @ ''/blobs/'' @ digest) output
                      ([''-H'', ''Accept: application/octet-stream'']
                       @ (if unwrap_or token [] = [] then [] else [''-H'', ''Authorization: Bearer '' @ unwrap_or token []])) h1))"

definition local_source :: "string \<Rightarrow> string option" where
  "local_source source =
     (case strip_prefix ''file://'' source of
        Some path \<Rightarrow> Some path
      | None \<Rightarrow> if starts_with ''/'' source then Some source else None)"

definition fetch_source :: "helper_env \<Rightarrow> string \<Rightarrow> string \<Rightarrow> helper \<Rightarrow> (string + nat) \<times> helper" where
  "fetch_source e source output h =
     (case local_source source of
        Some path \<Rightarrow>
          (case copy_file e path output h of
             (Inl err, h1) \<Rightarrow> (Inl (local_copy_error path err), h1)
           | (Inr n, h1) \<Rightarrow> (Inr n, h1))
      | None \<Rightarrow>
          (case strip_prefix ''oci://'' source of
             Some reference \<Rightarrow> fetch_oci e reference output h
           | None \<Rightarrow>
               if starts_with ''https://'' source then curl e source output [] h
               else if starts_with ''http://'' source
               then (Inl ''http:// sources are refused; use https:// or a digest-pinned oci:// reference'', h)
               else (Inl (''unsupported source scheme in '' @ he_debug e source), h)))"

text \<open>After the arguments and the job are known.\<close>

definition fetch_and_report :: "codec \<Rightarrow> helper_env \<Rightarrow> string list \<Rightarrow> string \<Rightarrow> string \<Rightarrow> helper \<Rightarrow> nat \<times> helper" where
  "fetch_and_report cd e args source output h =
     (if source = [] \<or> output = []
      then fail_with e args ''--source and --output are both required, or --job naming a file with them'' h
      else
        (case fetch_source e source output h of
           (Inl err, h1) \<Rightarrow> fail_with e args err (h1\<lparr> hp_files := AList.delete output (hp_files h1) \<rparr>)
         | (Inr n, h1) \<Rightarrow>
             (case digest_file cd (hp_files h1) output of
                None \<Rightarrow>
                  fail_with e args ''hashing what was fetched: No such file or directory (os error 2)''
                    (h1\<lparr> hp_files := AList.delete output (hp_files h1) \<rparr>)
              | Some digest \<Rightarrow> (0, helper_report e args (success_json e output n digest) h1))))"

definition helper_main :: "codec \<Rightarrow> helper_env \<Rightarrow> string list \<Rightarrow> helper \<Rightarrow> nat \<times> helper" where
  "helper_main cd e args h =
     (case read_fetch_args args no_fetch_args of
        Inl Printed \<Rightarrow> (0, h)
      | Inl (Unknown_Argument arg) \<Rightarrow> fail_with e args (''unknown argument '' @ he_debug e arg) h
      | Inr a \<Rightarrow>
          (case fa_job a of
             None \<Rightarrow> fetch_and_report cd e args (fa_source a) (fa_output a) h
           | Some path \<Rightarrow>
               (case read_to_string (hp_files h) path of
                  None \<Rightarrow> fail_with e args (''reading the job file '' @ path) h
                | Some txt \<Rightarrow>
                    (case he_job e txt of
                       Inl err \<Rightarrow> fail_with e args (''the job file is unreadable: '' @ err) h
                     | Inr (source, output, expected) \<Rightarrow> fetch_and_report cd e args source output h))))"

subsection \<open>What the helper does\<close>

text \<open>
  What \<open>curl\<close> documents of its files: with one \<open>-o\<close> it writes the file named after it and no other;
  without, none.
\<close>

definition curl_confined :: "helper_env \<Rightarrow> bool" where
  "curl_confined e \<longleftrightarrow>
     (\<forall>output extra f r f' p. he_curl e (CURL_FIXED @ output # extra) f = Inr (r, f') \<longrightarrow> ''-o'' \<notin> set extra
        \<longrightarrow> p \<noteq> output \<longrightarrow> map_of f' p = map_of f p)
     \<and> (\<forall>args f r f' p. he_curl e args f = Inr (r, f') \<longrightarrow> ''-o'' \<notin> set args \<longrightarrow> map_of f' p = map_of f p)"

text \<open>The two commands: a transfer that never leaves https, and the question for a token.\<close>

definition https_transfer :: "string \<Rightarrow> string list \<Rightarrow> bool" where
  "https_transfer output cmd \<longleftrightarrow>
     (\<exists>headers url. cmd = CURL_FIXED @ output # concat (map (\<lambda>hd. [''-H'', hd]) headers) @ [''https://'' @ url])"

definition https_question :: "string list \<Rightarrow> bool" where
  "https_question cmd \<longleftrightarrow> (\<exists>url. cmd = [''-sS'', ''--max-time'', ''30'', ''--fail'', ''https://'' @ url])"

definition https_only :: "string \<Rightarrow> string list list \<Rightarrow> bool" where
  "https_only output cmds \<longleftrightarrow> length cmds \<le> 2 \<and> list_all (\<lambda>cmd. https_transfer output cmd \<or> https_question cmd) cmds"

definition kept_but :: "string set \<Rightarrow> fs \<Rightarrow> fs \<Rightarrow> bool" where
  "kept_but ps f f' \<longleftrightarrow> (\<forall>p. p \<notin> ps \<longrightarrow> map_of f' p = map_of f p)"

lemma kept_but_trans: "kept_but ps f f' \<Longrightarrow> kept_but qs f' f'' \<Longrightarrow> kept_but (ps \<union> qs) f f''"
  by (simp add: kept_but_def)

lemma kept_but_simps [simp]:
  "kept_but ps f f" "kept_but {p} f (AList.update p v f)" "kept_but {p} f (AList.delete p f)"
  by (simp_all add: kept_but_def update_conv' delete_conv')

lemma run_transfer:
  assumes "curl_confined e" "curl e (''https://'' @ url) output (concat (map (\<lambda>hd. [''-H'', hd]) headers)) h = (r, h')"
    and "''-o'' \<notin> set headers"
  shows "\<exists>cmd. https_transfer output cmd \<and> hp_ran h' = hp_ran h @ [cmd]"
    and "kept_but {output} (hp_files h) (hp_files h')" and "hp_out h' = hp_out h"
    and "r = Inr n \<Longrightarrow> \<exists>bytes. map_of (hp_files h') output = Some bytes \<and> n = length bytes"
proof -
  let ?extra = "concat (map (\<lambda>hd. [''-H'', hd]) headers) @ [''https://'' @ url]"
  have o: "''-o'' \<notin> set ?extra"
    using assms(3) by auto
  have cmd: "https_transfer output (CURL_FIXED @ output # ?extra)"
    unfolding https_transfer_def by blast
  show "\<exists>cmd. https_transfer output cmd \<and> hp_ran h' = hp_ran h @ [cmd]"
    by (rule exI[of _ "CURL_FIXED @ output # ?extra"])
      (use assms(2) cmd in \<open>auto simp: curl_def run_curl_def Let_def split: sum.splits prod.splits if_splits option.splits\<close>)
  show "hp_out h' = hp_out h"
    using assms(2) by (auto simp: curl_def run_curl_def Let_def split: sum.splits prod.splits if_splits option.splits)
  show "kept_but {output} (hp_files h) (hp_files h')"
  proof (cases "he_curl e (CURL_FIXED @ output # ?extra) (hp_files h)")
    case (Inr rf)
    obtain a f where "rf = (a, f)"
      by (rule prod.exhaust)
    with Inr show ?thesis
      using assms(1,2) o
      by (auto simp: kept_but_def curl_def run_curl_def Let_def curl_confined_def split: prod.splits if_splits option.splits)
  qed (use assms(2) in \<open>auto simp: curl_def run_curl_def Let_def\<close>)
  show "\<exists>bytes. map_of (hp_files h') output = Some bytes \<and> n = length bytes" if "r = Inr n"
    using assms(2) that by (auto simp: curl_def run_curl_def Let_def split: sum.splits prod.splits if_splits option.splits)
qed

lemma ask_token:
  assumes "curl_confined e" "registry_token e reg repo h = (t, h')"
  shows "\<exists>cmd. https_question cmd \<and> hp_ran h' = hp_ran h @ [cmd]"
    and "kept_but {} (hp_files h) (hp_files h')" and "hp_out h' = hp_out h"
proof -
  let ?cmd = "[''-sS'', ''--max-time'', ''30'', ''--fail'', token_url reg repo]"
  have cmd: "https_question ?cmd"
    by (simp add: https_question_def token_url_def)
  have o: "''-o'' \<notin> set ?cmd"
    by (simp add: token_url_def)
  show "\<exists>cmd. https_question cmd \<and> hp_ran h' = hp_ran h @ [cmd]"
    by (rule exI[of _ ?cmd])
      (use assms(2) cmd in \<open>auto simp: registry_token_def run_curl_def Let_def split: sum.splits prod.splits if_splits\<close>)
  show "hp_out h' = hp_out h"
    using assms(2) by (auto simp: registry_token_def run_curl_def Let_def split: sum.splits prod.splits if_splits)
  show "kept_but {} (hp_files h) (hp_files h')"
  proof (cases "he_curl e ?cmd (hp_files h)")
    case (Inr rf)
    obtain a f where rf: "rf = (a, f)"
      by (rule prod.exhaust)
    have "map_of f p = map_of (hp_files h) p" for p
      using assms(1) o Inr rf unfolding curl_confined_def by blast
    with Inr rf show ?thesis
      using assms(2) by (auto simp: kept_but_def registry_token_def run_curl_def Let_def split: prod.splits if_splits)
  qed (use assms(2) in \<open>auto simp: registry_token_def run_curl_def Let_def\<close>)
qed

text \<open>What one fetch does, however its source is spelt.\<close>

definition fetch_effect :: "string \<Rightarrow> helper \<Rightarrow> (string + nat) \<times> helper \<Rightarrow> bool" where
  "fetch_effect output h rh \<longleftrightarrow>
     (\<exists>cmds. hp_ran (snd rh) = hp_ran h @ cmds \<and> https_only output cmds)
     \<and> kept_but {output} (hp_files h) (hp_files (snd rh)) \<and> hp_out (snd rh) = hp_out h
     \<and> (\<forall>n. fst rh = Inr n \<longrightarrow> (\<exists>bytes. map_of (hp_files (snd rh)) output = Some bytes \<and> n = length bytes))"

lemma fetch_effect_idle: "fetch_effect output h (Inl err, h)"
  by (auto simp: fetch_effect_def https_only_def)

lemma fetch_effect_transfer:
  assumes "curl_confined e" "''-o'' \<notin> set headers" "hp_ran h1 = hp_ran h @ asked" "list_all https_question asked" "length asked \<le> 1"
    and "kept_but {} (hp_files h) (hp_files h1)" "hp_out h1 = hp_out h"
  shows "fetch_effect output h (curl e (''https://'' @ url) output (concat (map (\<lambda>hd. [''-H'', hd]) headers)) h1)"
proof -
  obtain r h' where run: "curl e (''https://'' @ url) output (concat (map (\<lambda>hd. [''-H'', hd]) headers)) h1 = (r, h')"
    by (rule prod.exhaust)
  note t = run_transfer[OF assms(1) run assms(2)]
  obtain cmd where cmd: "https_transfer output cmd" "hp_ran h' = hp_ran h1 @ [cmd]"
    using t(1) by blast
  have "https_only output (asked @ [cmd])" "hp_ran h' = hp_ran h @ asked @ [cmd]"
    using assms(3,4,5) cmd by (auto simp: https_only_def list_all_iff)
  moreover have "kept_but {output} (hp_files h) (hp_files h')"
    using kept_but_trans[OF assms(6) t(2)] by simp
  ultimately show ?thesis
    using t(3,4) assms(7) unfolding fetch_effect_def run by auto
qed

lemma copy_file_effect: "fetch_effect output h (copy_file e path output h)"
  by (auto simp: fetch_effect_def copy_file_def https_only_def Let_def update_conv' split: option.splits)

lemma fetch_oci_effect:
  assumes "curl_confined e"
  shows "fetch_effect output h (fetch_oci e reference output h)"
proof (cases "rsplit_once ''@'' reference")
  case (Some pinned)
  obtain repository digest where p: "pinned = (repository, digest)"
    by (rule prod.exhaust)
  show ?thesis
  proof (cases "split_once ''/'' repository")
    case two: (Some parts)
    obtain reg path where q: "parts = (reg, path)"
      by (rule prod.exhaust)
    obtain t h1 where tok: "registry_token e reg path h = (t, h1)"
      by (rule prod.exhaust)
    let ?auth = "''Authorization: Bearer '' @ unwrap_or t []"
    let ?headers = "''Accept: application/octet-stream'' # (if unwrap_or t [] = [] then [] else [?auth])"
    note ask = ask_token[OF assms tok]
    obtain cmd where cmd: "https_question cmd" "hp_ran h1 = hp_ran h @ [cmd]"
      using ask(1) by blast
    have "fetch_effect output h (curl e (''https://'' @ (reg @ ''/v2/'' @ path @ ''/blobs/'' @ digest)) output
        (concat (map (\<lambda>hd. [''-H'', hd]) ?headers)) h1)"
      by (rule fetch_effect_transfer[OF assms, where asked = "[cmd]"]) (use cmd ask in auto)
    then show ?thesis
      using Some p two q tok by (auto simp: fetch_oci_def fetch_effect_idle)
  qed (use Some p in \<open>simp add: fetch_oci_def fetch_effect_idle\<close>)
qed (simp add: fetch_oci_def fetch_effect_idle)

lemma fetch_source_effect:
  assumes "curl_confined e"
  shows "fetch_effect output h (fetch_source e source output h)"
proof (cases "local_source source")
  case (Some path)
  obtain r h' where c: "copy_file e path output h = (r, h')"
    by (rule prod.exhaust)
  then show ?thesis
    using Some copy_file_effect[of "output" h e path] by (cases r) (auto simp: fetch_source_def fetch_effect_def)
next
  case None
  have "fetch_effect output h (curl e source output [] h)" if https: "starts_with ''https://'' source"
  proof -
    obtain url where "source = ''https://'' @ url"
      using https by (metis append_take_drop_id starts_with_def)
    then show ?thesis
      using fetch_effect_transfer[OF assms, of "[]" h h "[]" "output" url] by simp
  qed
  then show ?thesis
    using None fetch_oci_effect[OF assms]
    by (auto simp: fetch_source_def fetch_effect_idle split: option.split)
qed

subsection \<open>The contract of a run\<close>

text \<open>The report beside the job; the writes there are not refused.\<close>

definition reports_to :: "helper_env \<Rightarrow> string list \<Rightarrow> string \<Rightarrow> string \<Rightarrow> bool" where
  "reports_to e args report tmp \<longleftrightarrow> report_path args = Some report \<and> tmp = with_extension ''report.tmp'' report
     \<and> he_blocked e tmp = None \<and> he_blocked e report = None \<and> tmp \<noteq> report"

lemma helper_report_files:
  assumes "reports_to e args report tmp"
  shows "hp_files (helper_report e args json h) = AList.update report json (AList.delete tmp (hp_files h))"
    and "hp_ran (helper_report e args json h) = hp_ran h"
    and "hp_out (helper_report e args json h) = hp_out h @ json @ [CHR 0x0A]"
  using assms by (auto simp: helper_report_def reports_to_def Let_def)

lemma fetch_and_report_contract:
  assumes "curl_confined e" "reports_to e args report tmp" "output \<noteq> report" "output \<noteq> tmp" "source \<noteq> []" "output \<noteq> []"
    and "fetch_and_report cd e args source output h = (ec, h')"
  shows "(\<exists>cmds. hp_ran h' = hp_ran h @ cmds \<and> https_only output cmds)
    \<and> kept_but {output, report, tmp} (hp_files h) (hp_files h')
    \<and> (if ec = 0
       then \<exists>bytes. map_of (hp_files h') output = Some bytes
         \<and> map_of (hp_files h') report = Some (success_json e output (length bytes) (''sha256:'' @ sha256_hex cd bytes))
       else map_of (hp_files h') output = None \<and> (\<exists>message. map_of (hp_files h') report = Some (failure_json e message)))"
proof -
  obtain r h1 where f: "fetch_source e source output h = (r, h1)"
    by (rule prod.exhaust)
  have eff: "fetch_effect output h (r, h1)"
    using fetch_source_effect[OF assms(1), of "output" h source] f by simp
  have kept: "kept_but {output} (hp_files h) (hp_files h1)"
    using eff by (simp add: fetch_effect_def)
  show ?thesis
  proof (cases r)
    case (Inl err)
    then show ?thesis
      using assms(2-7) f eff kept
      by (auto simp: fetch_and_report_def fail_with_def helper_report_files fetch_effect_def kept_but_def update_conv' delete_conv')
  next
    case (Inr n)
    then obtain bytes where b: "map_of (hp_files h1) output = Some bytes" "n = length bytes"
      using eff by (auto simp: fetch_effect_def)
    then show ?thesis
      using assms(2-7) f eff kept Inr
      by (auto simp: fetch_and_report_def digest_file_def helper_report_files fetch_effect_def kept_but_def update_conv' delete_conv')
  qed
qed

text \<open>
  A run of the fetch helper does exactly its job. For a job that names a source and an output, at most
  two commands are run, each of them over https only and with nothing of the job in an option's
  place; no file changes but the output, the report and its temporary file; a run that succeeded
  leaves the output and a report with its true length and digest, and one that failed leaves no output
  and a report of the failure.
\<close>

theorem helper_does_its_job:
  assumes "curl_confined e" "reports_to e [''--job'', job] report tmp"
    and "read_to_string (hp_files h) job = Some txt" "he_job e txt = Inr (source, output, expected)"
    and "source \<noteq> []" "output \<noteq> []" "output \<noteq> report" "output \<noteq> tmp"
    and "helper_main cd e [''--job'', job] h = (ec, h')"
  shows "(\<exists>cmds. hp_ran h' = hp_ran h @ cmds \<and> https_only output cmds)
    \<and> kept_but {output, report, tmp} (hp_files h) (hp_files h')
    \<and> (if ec = 0
       then \<exists>bytes. map_of (hp_files h') output = Some bytes
         \<and> map_of (hp_files h') report = Some (success_json e output (length bytes) (''sha256:'' @ sha256_hex cd bytes))
       else map_of (hp_files h') output = None \<and> (\<exists>message. map_of (hp_files h') report = Some (failure_json e message)))"
proof -
  have "helper_main cd e [''--job'', job] h = fetch_and_report cd e [''--job'', job] source output h"
    using assms(3,4) by (simp add: helper_main_def no_fetch_args_def)
  then show ?thesis
    by (intro fetch_and_report_contract[OF assms(1,2,7,8,5,6)]) (use assms(9) in simp)
qed

definition copying_env :: helper_env where
  "copying_env =
     \<lparr> he_curl = (\<lambda>_ _. Inl ''not found''), he_quote = (\<lambda>s. CHR 0x22 # s @ [CHR 0x22]), he_debug = (\<lambda>s. s), he_json = (\<lambda>_. None),
       he_job = (\<lambda>_. Inr (''file:///w.gguf'', ''/s/tiny.part'', [])), he_blocked = (\<lambda>_. None) \<rparr>"

lemma copying_reports: "reports_to copying_env [''--job'', ''/s/j.job''] ''/s/j.report'' ''/s/j.report.tmp''"
  by (simp add: reports_to_def copying_env_def with_extension_def rsplit_once_def starts_with_def upt_rec)

theorem helper_does_its_job_witness:
  "\<exists>h'. helper_main sample_codec copying_env [''--job'', ''/s/j.job'']
       \<lparr> hp_files = [(''/s/j.job'', ''J''), (''/w.gguf'', ''GGUFab'')], hp_out = [], hp_ran = [] \<rparr> = (0, h')
     \<and> kept_but {''/s/tiny.part'', ''/s/j.report'', ''/s/j.report.tmp''} [(''/s/j.job'', ''J''), (''/w.gguf'', ''GGUFab'')] (hp_files h')"
proof -
  let ?h = "\<lparr> hp_files = [(''/s/j.job'', ''J''), (''/w.gguf'', ''GGUFab'')], hp_out = [], hp_ran = [] \<rparr>"
  have job: "read_to_string (hp_files ?h) ''/s/j.job'' = Some ''J''"
    by (simp add: read_to_string_def code_def)
  obtain h' where run: "helper_main sample_codec copying_env [''--job'', ''/s/j.job''] ?h = (0, h')"
    using job by (simp add: helper_main_def no_fetch_args_def copying_env_def fetch_and_report_def fetch_source_def local_source_def
        strip_prefix_def starts_with_def copy_file_def Let_def digest_file_def)
  show ?thesis
    using helper_does_its_job[OF _ copying_reports job _ _ _ _ _ run, of "''file:///w.gguf''" "''/s/tiny.part''" "[]"] run
    by (auto simp: copying_env_def curl_confined_def)
qed

subsection \<open>Installing through the helper\<close>

lemma with_extension_plain:
  assumes "CHR ''/'' \<notin> set b" "b \<noteq> []" "CHR ''.'' \<notin> set x" "CHR ''/'' \<notin> set x" "x \<noteq> []"
  shows "with_extension y (d @ ''/'' @ b @ ''.'' @ x) = d @ ''/'' @ b @ ''.'' @ y"
proof -
  have "rsplit_once ''/'' (d @ ''/'' @ b @ ''.'' @ x) = Some (d, b @ ''.'' @ x)"
    using assms rsplit_once_last[of "CHR ''/''" "b @ ''.'' @ x" d] by simp
  moreover have "rsplit_once ''.'' (b @ ''.'' @ x) = Some (b, x)"
    using assms rsplit_once_last[of "CHR ''.''" x b] by simp
  moreover have "b @ ''.'' @ x \<noteq> ''..''"
    using assms(2,3,5) by (cases b; cases "tl b") auto
  ultimately show ?thesis
    using assms(2) by (simp add: with_extension_def)
qed

text \<open>
  The unit the helper runs in, \<open>packaging/systemd/ai-daemon-fetch@.service\<close>: home directories are
  empty (\<open>ProtectHome\<close>), the temporary directories are its own (\<open>PrivateTmp\<close>), of the state directory
  only staging is there (\<open>TemporaryFileSystem\<close>, \<open>BindPaths\<close>), and nothing it writes outside staging
  is seen by anyone else.
\<close>

definition UNIT_STAGING :: string where
  "UNIT_STAGING = ''/var/lib/ai-daemon/models/staging''"

definition hidden_from_unit :: "string \<Rightarrow> bool" where
  "hidden_from_unit p \<longleftrightarrow>
     list_ex (path_starts_with p) [''/home'', ''/root'', ''/run/user'', ''/tmp'', ''/var/tmp'']
     \<or> path_starts_with p ''/var/lib/ai-daemon'' \<and> \<not> path_starts_with p UNIT_STAGING"

definition unit_view :: "fs \<Rightarrow> fs" where
  "unit_view f = filter (\<lambda>(p, _). \<not> hidden_from_unit p) f"

definition fetch_unit :: "codec \<Rightarrow> helper_env \<Rightarrow> string \<Rightarrow> fs \<Rightarrow> fs" where
  "fetch_unit cd he job f =
     filter (\<lambda>(p, _). path_starts_with p UNIT_STAGING)
       (hp_files (snd (helper_main cd he [''--job'', job] \<lparr> hp_files = unit_view f, hp_out = [], hp_ran = [] \<rparr>)))
     @ filter (\<lambda>(p, _). \<not> path_starts_with p UNIT_STAGING) f"

lemma map_of_filter_keys: "map_of (filter (\<lambda>(p, _). P p) f) p = (if P p then map_of f p else None)"
  by (induction f) auto

lemma map_of_unit_view: "map_of (unit_view f) p = (if hidden_from_unit p then None else map_of f p)"
  unfolding unit_view_def map_of_filter_keys by simp

lemma map_of_fetch_unit:
  "map_of (fetch_unit cd he job f) p =
     (if path_starts_with p UNIT_STAGING
      then map_of (hp_files (snd (helper_main cd he [''--job'', job] \<lparr> hp_files = unit_view f, hp_out = [], hp_ran = [] \<rparr>))) p
      else map_of f p)"
  by (auto simp: fetch_unit_def map_add_def map_of_filter_keys split: option.split)

lemma staged_is_seen: "path_starts_with p UNIT_STAGING \<Longrightarrow> \<not> hidden_from_unit p"
proof -
  assume p: "path_starts_with p UNIT_STAGING"
  have "path_components UNIT_STAGING = [''var'', ''lib'', ''ai-daemon'', ''models'', ''staging'']"
    by (simp add: UNIT_STAGING_def path_components_def)
  with p obtain rest where "path_components p = [''var'', ''lib'', ''ai-daemon'', ''models'', ''staging''] @ rest"
    by (metis append_take_drop_id path_starts_with_def)
  moreover have "path_components ''/home'' = [''home'']" "path_components ''/root'' = [''root'']"
      "path_components ''/run/user'' = [''run'', ''user'']" "path_components ''/tmp'' = [''tmp'']"
      "path_components ''/var/tmp'' = [''var'', ''tmp'']"
    by (simp_all add: path_components_def)
  ultimately show ?thesis
    using p by (simp add: hidden_from_unit_def path_starts_with_def)
qed

text \<open>
  The daemon and the helper joined: systemd starts the unit, which runs the helper on the job in its
  own view of the files; serde reads back the job and the report that were written; no write into
  staging is refused.
\<close>

definition wired :: "codec \<Rightarrow> helper_env \<Rightarrow> fetch_env \<Rightarrow> string \<Rightarrow> string \<Rightarrow> string \<Rightarrow> nat \<Rightarrow> bool" where
  "wired cd he e name source digest n \<longleftrightarrow>
     (let target = join_path UNIT_STAGING (name @ ''.part'');
          job = join_path UNIT_STAGING (name @ ''-'' @ show_nat (fe_secs e) @ ''.job'');
          said = success_json he target n digest
      in fe_bus e \<and> fe_job_writable e \<and> fe_starts e
       \<and> fe_effect e = fetch_unit cd he job
       \<and> he_job he (fe_job_text e source target digest) = Inr (source, target, digest)
       \<and> utf8_valid (fe_job_text e source target digest)
       \<and> fe_parse e said = Some \<lparr> fr_ok = True, fr_error = [], fr_path = target, fr_bytes = n, fr_digest = digest \<rparr>
       \<and> utf8_valid said \<and> (\<forall>p. path_starts_with p UNIT_STAGING \<longrightarrow> he_blocked he p = None))"

lemma fetch_through_helper:
  assumes "wired cd he e name source digest (length bytes)" "CHR ''/'' \<notin> set name" "name \<noteq> []"
    and "local_source source = Some src" "map_of f src = Some bytes" "\<not> path_starts_with src staging" "source \<noteq> []"
    and "digest = ''sha256:'' @ sha256_hex cd bytes"
    and "target = join_path staging (name @ ''.part'')" "staging = UNIT_STAGING" "\<not> hidden_from_unit src"
  shows "\<exists>f'. fetch e staging name source digest target f
      = (Inr \<lparr> fr_ok = True, fr_error = [], fr_path = target, fr_bytes = length bytes, fr_digest = digest \<rparr>, f')
    \<and> map_of f' target = Some bytes \<and> (\<forall>p. \<not> path_starts_with p staging \<longrightarrow> map_of f' p = map_of f p)"
proof -
  let ?id = "name @ ''-'' @ show_nat (fe_secs e)"
  define job where "job = join_path staging (?id @ ''.job'')"
  define report where "report = join_path staging (?id @ ''.report'')"
  define tmp where "tmp = join_path staging (?id @ ''.report.tmp'')"
  have noslash: "CHR ''/'' \<notin> set ?id"
    using assms(2) not_digit_show_nat[of "CHR ''/''"] by (auto simp: is_ascii_digit_def code_def)
  then have paths: "job = staging @ ''/'' @ ?id @ ''.job''" "report = staging @ ''/'' @ ?id @ ''.report''"
      "tmp = staging @ ''/'' @ ?id @ ''.report.tmp''" "target = staging @ ''/'' @ name @ ''.part''"
    using assms(2) unfolding job_def report_def tmp_def assms(9)
    by (subst join_plain; simp)+
  have ext: "with_extension ''report'' job = report" "with_extension ''report.tmp'' report = tmp"
    unfolding paths using with_extension_plain[OF noslash, of "''job''" "''report''" staging]
      with_extension_plain[OF noslash, of "''report''" "''report.tmp''" staging] by simp_all
  have staged: "path_starts_with job staging" "path_starts_with report staging" "path_starts_with tmp staging"
      "path_starts_with target staging"
    unfolding job_def report_def tmp_def assms(9) using noslash assms(2) by (intro path_starts_with_join; simp)+
  have diff: "target \<noteq> job" "target \<noteq> report" "target \<noteq> tmp" "job \<noteq> report" "job \<noteq> tmp" "tmp \<noteq> report"
    by (simp_all add: paths)
  have src: "src \<noteq> job" "src \<noteq> report" "src \<noteq> target"
    using staged assms(6) by auto
  define f1 where "f1 = AList.delete report (AList.update job (fe_job_text e source target digest) f)"
  define said where "said = success_json he target (length bytes) digest"
  have "he_job he (fe_job_text e source target digest) = Inr (source, target, digest)
      \<and> utf8_valid (fe_job_text e source target digest) \<and> utf8_valid said
      \<and> (\<forall>p. path_starts_with p UNIT_STAGING \<longrightarrow> he_blocked he p = None)
      \<and> fe_parse e said = Some \<lparr> fr_ok = True, fr_error = [], fr_path = target, fr_bytes = length bytes, fr_digest = digest \<rparr>
      \<and> fe_bus e \<and> fe_job_writable e \<and> fe_starts e \<and> fe_effect e = fetch_unit cd he job"
    using assms(1) unfolding wired_def Let_def assms(10)[symmetric] assms(9)[symmetric] said_def[symmetric] job_def append_assoc
    by blast
  then have w: "he_job he (fe_job_text e source target digest) = Inr (source, target, digest)"
      "utf8_valid (fe_job_text e source target digest)" "utf8_valid said"
      "he_blocked he target = None" "he_blocked he tmp = None" "he_blocked he report = None"
      "fe_parse e said = Some \<lparr> fr_ok = True, fr_error = [], fr_path = target, fr_bytes = length bytes, fr_digest = digest \<rparr>"
      "fe_bus e" "fe_job_writable e" "fe_starts e" "fe_effect e = fetch_unit cd he job"
    using staged unfolding assms(10) by blast+
  have "map_of (unit_view f1) job = Some (fe_job_text e source target digest)" "map_of (unit_view f1) src = Some bytes"
    using diff src assms(5,11) staged_is_seen staged(1)[unfolded assms(10)]
    by (simp_all add: map_of_unit_view f1_def update_conv' delete_conv')
  moreover have "target \<noteq> []"
    by (simp add: paths)
  ultimately have "hp_files (snd (helper_main cd he [''--job'', job] \<lparr> hp_files = unit_view f1, hp_out = [], hp_ran = [] \<rparr>))
      = AList.update report said (AList.delete tmp (AList.update target bytes (unit_view f1)))"
    using w(1,2,4-6) assms(4,7) src(3) ext
    by (simp add: helper_main_def no_fetch_args_def read_to_string_def fetch_and_report_def fetch_source_def copy_file_def
        Let_def digest_file_def helper_report_def update_conv' assms(8) said_def)
  then have after: "map_of (fe_effect e f1) p
      = (if path_starts_with p staging
         then map_of (AList.update report said (AList.delete tmp (AList.update target bytes (unit_view f1)))) p else map_of f1 p)" for p
    by (simp add: w(11) map_of_fetch_unit assms(10))
  have "fetch e staging name source digest target f
      = (Inr \<lparr> fr_ok = True, fr_error = [], fr_path = target, fr_bytes = length bytes, fr_digest = digest \<rparr>,
         AList.delete report (AList.delete job (fe_effect e f1)))"
    using w(3,7-10) staged(2) after[of report]
    unfolding fetch_def fetch_via_systemd_def Let_def job_def[symmetric] report_def[symmetric] f1_def[symmetric]
    by (simp add: read_to_string_def update_conv')
  moreover have "p \<noteq> job \<and> p \<noteq> report \<and> p \<noteq> tmp \<and> p \<noteq> target" if "\<not> path_starts_with p staging" for p
    using staged that by auto
  moreover have "map_of f1 p = (if p = report then None else if p = job then Some (fe_job_text e source target digest) else map_of f p)" for p
    by (simp add: f1_def update_conv' delete_conv')
  ultimately show ?thesis
    using diff staged(4) by (auto simp: update_conv' delete_conv' after)
qed

lemma accept_staged_goes_through:
  assumes "path_starts_with staged (staging_dir r)" "map_of f staged = Some bytes" "digest = ''sha256:'' @ sha256_hex cd bytes"
    and "blob_path (system_root r) digest = Inr dest" "blk = (\<lambda>_. None)"
  shows "\<exists>m' f'. accept_staged cd blk staged m digest r f = (Inr m', invalidate r, f')"
  using assms by (simp add: accept_staged_def place_blob_def write_atomic_def Let_def)

text \<open>
  C29. A local file is installed, end to end. With the daemon at its packaged place, systemd and the
  fetch helper in the view of its unit joined, and no write refused, installing a GGUF file under
  its own digest and a plain name, from a place the unit can see (not a home directory, not a
  temporary directory, not the daemon's state), with a backend that serves \<open>generate\<close> for the format,
  succeeds: the store holds under that digest bytes that have it, the manifest of the name records
  the digest, and the store is still content-addressed.
\<close>

theorem local_file_is_installed:
  assumes "wired cd he e name source digest (length bytes)" "staging_dir (d_registry d) = UNIT_STAGING"
    and "name_ok name" "source \<noteq> []" "local_source source = Some src" "strip_prefix ''remote:'' source = None"
    and "map_of f src = Some bytes" "\<not> hidden_from_unit src" "\<not> path_starts_with src UNIT_STAGING"
    and "digest = ''sha256:'' @ sha256_hex cd bytes" "take 4 bytes = ''GGUF''"
    and "blob_path (system_root (d_registry d)) digest = Inr dest" "store_ok cd (system_root (d_registry d)) f"
    and "map_of f (join_path (libexec_dir (c_daemon c)) ''ai-daemon-fetch'') \<noteq> None"
        "\<not> path_starts_with (join_path (libexec_dir (c_daemon c)) ''ai-daemon-fetch'') UNIT_STAGING"
    and "\<And>m. m_name m = name \<Longrightarrow> m_format m = ''gguf'' \<Longrightarrow> m_backend m = []
           \<Longrightarrow> fst (servable spawn m [''generate''] (d_backends d)) = Inr ()"
  shows "\<exists>d' f' stored m. install cd (\<lambda>_. None) spawn e c source digest name
        \<lparr> io_max_ctx = None, io_format = None, io_backend = None, io_license = None, io_capabilities = None \<rparr> d f = (Inr name, d', f')
    \<and> map_of f' dest = Some stored \<and> digest = ''sha256:'' @ sha256_hex cd stored
    \<and> map_of f' (manifest_path (system_root (d_registry d)) name) = Some (manifest_json cd m) \<and> m_digest m = digest
    \<and> store_ok cd (system_root (d_registry d)) f'"
proof -
  let ?r = "d_registry d" and ?os = "\<lparr> io_max_ctx = None, io_format = None, io_backend = None, io_license = None, io_capabilities = None \<rparr>"
  let ?helper = "join_path (libexec_dir (c_daemon c)) ''ai-daemon-fetch''"
  define target where "target = join_path (staging_dir ?r) (name @ ''.part'')"
  have plain: "CHR ''/'' \<notin> set name" and named: "name \<noteq> []"
    using name_ok_plain assms(3) by (auto simp: name_ok_def)
  have staged: "path_starts_with target (staging_dir ?r)"
    unfolding target_def using plain by (intro path_starts_with_join) simp
  have "map_of (AList.delete target f) src = Some bytes"
    using staged assms(2,7,9) by (auto simp: delete_conv')
  moreover have "\<not> path_starts_with src (staging_dir ?r)"
    using assms(2,9) by simp
  ultimately obtain f1 where
    fetched: "fetch e (staging_dir ?r) name source digest target (AList.delete target f)
      = (Inr \<lparr> fr_ok = True, fr_error = [], fr_path = target, fr_bytes = length bytes, fr_digest = digest \<rparr>, f1)"
    and f1: "map_of f1 target = Some bytes" "\<And>p. \<not> path_starts_with p (staging_dir ?r) \<Longrightarrow> map_of f1 p = map_of (AList.delete target f) p"
    using fetch_through_helper[OF assms(1) plain named assms(5) _ _ assms(4,10) target_def assms(2,8)] by blast
  have store1: "store_ok cd (system_root ?r) f1"
    by (rule store_ok_same[OF assms(13)]) (use f1(2) blob_not_staged in \<open>auto simp: delete_conv'\<close>)
  define m where "m = \<lparr> m_name = name, m_digest = digest, m_format = ''gguf'', m_quantization = guess_quantization source,
    m_license = [], m_requirements = stated_ctx ?os (length bytes), m_template = no_template, m_backend = [],
    m_capabilities = [''generate''], m_source = source \<rparr>"
  obtain bs where serv: "servable spawn m [''generate''] (d_backends d) = (Inr (), bs)"
    using assms(16)[of m] by (cases "servable spawn m [''generate''] (d_backends d)") (simp add: m_def)
  obtain m' f' where acc: "accept_staged cd (\<lambda>_. None) target m digest ?r f1 = (Inr m', invalidate ?r, f')"
    using accept_staged_goes_through[OF staged f1(1) assms(10,12) refl] by blast
  have "magic f1 target = Inr ''GGUF''"
    using f1(1) assms(11) by (auto simp: magic_def)
  then have "install_landed cd (\<lambda>_. None) spawn source digest name ?os (length bytes) target d f1
      = (Inr (m_name m'), d\<lparr> d_backends := bs, d_registry := invalidate ?r \<rparr>, f')"
    using serv acc by (simp add: install_landed_def Let_def is_ok_def m_def)
  moreover have "starts_with ''sha256:'' digest" "map_of (AList.delete target f) ?helper \<noteq> None" "target \<noteq> []"
    using assms(2,10,14,15) staged by (auto simp: starts_with_def delete_conv' target_def join_path_def)
  moreover have m': "m_name m' = name" "m_digest m' = digest"
      "map_of f' (manifest_path (system_root ?r) name) = Some (manifest_json cd m')"
    by (rule accept_staged_Inr[OF acc], simp add: m_def update_conv')+
  ultimately have ins: "\<exists>d'. install cd (\<lambda>_. None) spawn e c source digest name ?os d f = (Inr name, d', f')"
    using assms(3,6) fetched unfolding install_def Let_def target_def[symmetric] by simp
  have "CHR ''/'' \<notin> set (m_name m)"
    using plain by (simp add: m_def)
  note st = accept_staged_store[OF acc this store1]
  obtain stored where "map_of f' dest = Some stored" "digest = ''sha256:'' @ sha256_hex cd stored"
    using st(1) assms(12) by auto
  then show ?thesis
    using ins m' st(2) by blast
qed

text \<open>A daemon with one backend, systemd and the helper joined, and a file to install.\<close>

definition gguf_backend :: backend where
  "gguf_backend =
     \<lparr> b_name = ''b'', b_info = \<lparr> bi_name = ''b'', bi_version = [], bi_formats = [''gguf''], bi_quantizations = [], bi_devices = [],
         bi_device_memory = None, bi_capabilities = [''generate''], bi_local = True \<rparr>,
       b_owned = True, b_sent = [], b_inflight = [], b_control = [], b_loaded = [], b_next_req = 1, b_alive = True \<rparr>"

definition gguf_backends :: backends where
  "gguf_backends = \<lparr> specs = [\<lparr> be_name = ''b'', be_exec = [], be_connect = None, be_args = [], be_enabled = True, be_env = [] \<rparr>],
     live = [(''b'', gguf_backend)], pinned = [] \<rparr>"

definition local_env :: helper_env where
  "local_env = copying_env\<lparr> he_job := (\<lambda>_. Inr (''file:///srv/w.gguf'', UNIT_STAGING @ ''/tiny.part'', ''sha256:'' @ zero_hex)),
     he_blocked := (\<lambda>p. if path_starts_with p UNIT_STAGING then None else Some ''Read-only file system (os error 30)'') \<rparr>"

definition local_fetch :: fetch_env where
  "local_fetch =
     \<lparr> fe_bus = True, fe_job_writable = True, fe_starts = True, fe_direct = Inl [],
       fe_parse = (\<lambda>_. Some \<lparr> fr_ok = True, fr_error = [], fr_path = UNIT_STAGING @ ''/tiny.part'', fr_bytes = 6, fr_digest = ''sha256:'' @ zero_hex \<rparr>),
       fe_effect = fetch_unit sample_codec local_env (UNIT_STAGING @ ''/tiny-9.job''),
       fe_job_text = (\<lambda>_ _ _. ''J''), fe_secs = 9 \<rparr>"

definition local_files :: fs where
  "local_files = [(''/usr/lib/ai-daemon/ai-daemon-fetch'', ''#!''), (''/srv/w.gguf'', ''GGUFab'')]"

definition packaged_daemon :: daemon where
  "packaged_daemon = sample_daemon\<lparr> d_backends := gguf_backends,
     d_registry := \<lparr> system_root = ''/var/lib/ai-daemon/models'', config_aliases = [], cache = None \<rparr> \<rparr>"

lemma local_wired: "wired sample_codec local_env local_fetch ''tiny'' ''file:///srv/w.gguf'' (''sha256:'' @ zero_hex) (length ''GGUFab'')"
proof -
  have "utf8_valid zero_hex"
    by (simp add: zero_hex_def numeral_eq_Suc code_def)
  moreover have "show_nat 9 = ''9''" "show_nat (length ''GGUFab'') = ''6''"
    by (simp_all add: show_nat.simps char_of_def bit_Suc bit_0)
  moreover have "join_path UNIT_STAGING ''tiny.part'' = UNIT_STAGING @ ''/tiny.part''" "join_path UNIT_STAGING ''tiny-9.job'' = UNIT_STAGING @ ''/tiny-9.job''"
    "utf8_valid UNIT_STAGING"
    by (simp_all add: join_path_def starts_with_def UNIT_STAGING_def code_def)
  ultimately show ?thesis
    by (simp add: wired_def local_fetch_def local_env_def copying_env_def success_json_def Let_def utf8_valid_append code_def)
qed

theorem local_file_is_installed_witness:
  "\<exists>d' f' stored. install sample_codec (\<lambda>_. None) (\<lambda>_. Inl []) local_fetch default_config ''file:///srv/w.gguf'' (''sha256:'' @ zero_hex) ''tiny''
      \<lparr> io_max_ctx = None, io_format = None, io_backend = None, io_license = None, io_capabilities = None \<rparr>
      packaged_daemon local_files = (Inr ''tiny'', d', f')
     \<and> map_of f' (''/var/lib/ai-daemon/models/blobs/sha256/'' @ zero_hex) = Some stored"
proof -
  have dirs: "staging_dir (d_registry packaged_daemon) = UNIT_STAGING" "system_root (d_registry packaged_daemon) = ''/var/lib/ai-daemon/models''"
    by (simp_all add: staging_dir_def packaged_daemon_def join_path_def starts_with_def UNIT_STAGING_def)
  have helper: "join_path (libexec_dir (c_daemon default_config)) ''ai-daemon-fetch'' = ''/usr/lib/ai-daemon/ai-daemon-fetch''"
    by (simp add: default_config_def default_daemon_def join_path_def starts_with_def)
  have names: "name_ok ''tiny''" "local_source ''file:///srv/w.gguf'' = Some ''/srv/w.gguf''" "strip_prefix ''remote:'' ''file:///srv/w.gguf'' = None"
    by (simp_all add: name_ok_def is_name_char_def is_ascii_alphanumeric_def is_ascii_digit_def is_ascii_upper_def
        is_ascii_lower_def code_def starts_with_def local_source_def strip_prefix_def)
  have outside: "\<not> path_starts_with ''/srv/w.gguf'' UNIT_STAGING" "\<not> path_starts_with ''/usr/lib/ai-daemon/ai-daemon-fetch'' UNIT_STAGING"
    "\<not> hidden_from_unit ''/srv/w.gguf''"
    by (simp_all add: path_starts_with_def path_components_def UNIT_STAGING_def hidden_from_unit_def)
  have dest: "blob_path ''/var/lib/ai-daemon/models'' (''sha256:'' @ zero_hex) = Inr (''/var/lib/ai-daemon/models/blobs/sha256/'' @ zero_hex)"
    unfolding blob_path_def zero_hex_ok rbind_simps by (simp add: join_path_def starts_with_def zero_hex_def numeral_eq_Suc)
  have store: "store_ok sample_codec ''/var/lib/ai-daemon/models'' local_files"
    unfolding store_ok_def by (auto simp: local_files_def split: if_splits elim!: blob_path_Inr)
  have served: "fst (servable (\<lambda>_. Inl []) m [''generate''] (d_backends packaged_daemon)) = Inr ()" if "m_name m = ''tiny''" "m_format m = ''gguf''" "m_backend m = []" for m
    using that(2,3) by (simp add: packaged_daemon_def gguf_backends_def gguf_backend_def POLICY_ONLY_def for_manifest_def get_backend_def
        handles_format_def can_def)
  have files: "map_of local_files ''/srv/w.gguf'' = Some ''GGUFab''" "map_of local_files ''/usr/lib/ai-daemon/ai-daemon-fetch'' \<noteq> None"
    by (simp_all add: local_files_def)
  have bytes: "''file:///srv/w.gguf'' \<noteq> []" "take 4 ''GGUFab'' = ''GGUF''"
    by simp_all
  have digest: "''sha256:'' @ zero_hex = ''sha256:'' @ sha256_hex sample_codec ''GGUFab''"
    by (simp add: sample_codec_def)
  show ?thesis
    using local_file_is_installed[where d = packaged_daemon and c = default_config, unfolded dirs(2) helper,
        OF local_wired dirs(1) names(1) bytes(1) names(2,3) files(1) outside(3,1) digest bytes(2) dest store files(2) outside(2) served]
    by blast
qed

text \<open>
  A source the unit cannot see is reported missing, whatever its permissions, and leaves nothing in
  staging. That goes for the home directories the message names, and for \<open>/tmp\<close>, which it recommends.
\<close>

lemma hidden_source_fails:
  assumes "he_job he txt = Inr (source, target, digest)" "local_source source = Some src" "hidden_from_unit src"
    and "read_to_string (unit_view f) job = Some txt" "source \<noteq> []" "target \<noteq> []"
    and "reports_to he [''--job'', job] report tmp" "target \<noteq> report" "target \<noteq> tmp"
    and "helper_main cd he [''--job'', job] \<lparr> hp_files = unit_view f, hp_out = [], hp_ran = [] \<rparr> = (ec, h)"
  shows "ec = 1 \<and> map_of (hp_files h) target = None
    \<and> map_of (hp_files h) report = Some (failure_json he (local_copy_error src ''No such file or directory (os error 2)''))"
proof -
  have "helper_main cd he [''--job'', job] \<lparr> hp_files = unit_view f, hp_out = [], hp_ran = [] \<rparr>
      = fail_with he [''--job'', job] (local_copy_error src ''No such file or directory (os error 2)'')
          \<lparr> hp_files = AList.delete target (unit_view f), hp_out = [], hp_ran = [] \<rparr>"
    using assms(1-6) by (simp add: helper_main_def no_fetch_args_def fetch_and_report_def fetch_source_def copy_file_def map_of_unit_view)
  then show ?thesis
    using assms(8-10) by (auto simp: fail_with_def helper_report_files[OF assms(7)] update_conv' delete_conv')
qed

lemma tmp_is_hidden: "hidden_from_unit ''/tmp/w.gguf''"
  by (simp add: hidden_from_unit_def path_starts_with_def path_components_def)

end
