(* ===== verification/Unblock.thy ===== *)
theory Unblock
  imports Prelude
begin

text \<open>
  Blocking work of a bus method on a thread of its own: \<open>crates/ai-daemon/src/unblock.rs\<close>. The two
  critical sections, the end of the work and a poll, are functions on the state behind the lock;
  their interleaving with an executor, which polls a task that was woken and may poll for no
  reason, is a step relation. A panic of the work is the outcome \<open>Inl ()\<close>, a waker is the task it wakes.
\<close>

subsection \<open>The code\<close>

record 'a un_cell =
  ub_result :: "(unit + 'a) option"
  ub_waker :: "nat option"

definition unblock_new :: "bool \<Rightarrow> 'a un_cell" where
  "unblock_new spawned = \<lparr> ub_result = (if spawned then None else Some (Inl ())), ub_waker = None \<rparr>"

text \<open>The end of the thread: the outcome is stored and the waker, if there is one, taken and woken.\<close>

definition work_ends :: "unit + 'a \<Rightarrow> 'a un_cell \<Rightarrow> 'a un_cell \<times> nat option" where
  "work_ends outcome s = (s\<lparr> ub_result := Some outcome, ub_waker := None \<rparr>, ub_waker s)"

definition poll :: "nat \<Rightarrow> 'a un_cell \<Rightarrow> (unit + 'a) option \<times> 'a un_cell" where
  "poll waker s =
     (case ub_result s of
        Some r \<Rightarrow> (Some r, s\<lparr> ub_result := None \<rparr>)
      | None \<Rightarrow> (None, s\<lparr> ub_waker := Some waker \<rparr>))"

subsection \<open>The thread and the executor\<close>

datatype 'a task = Runnable | Parked | Got "unit + 'a"

record 'a un_run =
  un_shared :: "'a un_cell"
  un_working :: bool
  un_task :: "'a task"
  un_id :: nat

definition unblock_start :: "bool \<Rightarrow> nat \<Rightarrow> 'a un_run" where
  "unblock_start spawned i =
     \<lparr> un_shared = unblock_new spawned, un_working = spawned, un_task = Runnable, un_id = i \<rparr>"

definition do_end :: "unit + 'a \<Rightarrow> 'a un_run \<Rightarrow> 'a un_run" where
  "do_end outcome s =
     (let (sh, woken) = work_ends outcome (un_shared s)
      in s\<lparr> un_shared := sh, un_working := False,
            un_task := (if un_task s = Parked \<and> woken = Some (un_id s) then Runnable else un_task s) \<rparr>)"

definition do_poll :: "'a un_run \<Rightarrow> 'a un_run" where
  "do_poll s =
     (let (r, sh) = poll (un_id s) (un_shared s)
      in s\<lparr> un_shared := sh, un_task := (case r of Some v \<Rightarrow> Got v | None \<Rightarrow> Parked) \<rparr>)"

inductive un_step :: "unit + 'a \<Rightarrow> 'a un_run \<Rightarrow> 'a un_run \<Rightarrow> bool" for outcome where
  ends: "un_working s \<Longrightarrow> un_step outcome s (do_end outcome s)"
| polls: "un_task s = Runnable \<Longrightarrow> un_step outcome s (do_poll s)"

text \<open>An executor may also poll a task nobody woke.\<close>

inductive un_any_step :: "unit + 'a \<Rightarrow> 'a un_run \<Rightarrow> 'a un_run \<Rightarrow> bool" for outcome where
  useful: "un_step outcome s t \<Longrightarrow> un_any_step outcome s t"
| spurious: "un_task s = Parked \<Longrightarrow> un_any_step outcome s (do_poll s)"

inductive_cases un_stepE: "un_step outcome s t"
inductive_cases un_any_stepE: "un_any_step outcome s t"

subsection \<open>No wake-up is lost\<close>

text \<open>What may be owed: the end of the work, then at most one poll.\<close>

definition un_inv :: "unit + 'a \<Rightarrow> 'a un_run \<Rightarrow> bool" where
  "un_inv outcome s \<longleftrightarrow>
     (case un_task s of
        Got r \<Rightarrow> r = outcome \<and> \<not> un_working s
      | Parked \<Rightarrow> un_working s \<and> ub_result (un_shared s) = None \<and> ub_waker (un_shared s) = Some (un_id s)
      | Runnable \<Rightarrow> (if un_working s then ub_result (un_shared s) = None else ub_result (un_shared s) = Some outcome))"

definition un_start :: "unit + 'a \<Rightarrow> 'a un_run \<Rightarrow> bool" where
  "un_start outcome s \<longleftrightarrow> (\<exists>spawned i. s = unblock_start spawned i \<and> (spawned \<or> outcome = Inl ()))"

interpretation unblocking: invariant_system "un_start outcome" "un_any_step outcome" "un_inv outcome"
proof
  fix s t :: "'a un_run"
  show "un_start outcome s \<Longrightarrow> un_inv outcome s"
    by (auto simp: un_start_def un_inv_def unblock_start_def unblock_new_def)
  show "un_any_step outcome s t \<Longrightarrow> un_inv outcome t" if "un_inv outcome s"
    using that
    by (auto simp: un_inv_def do_end_def do_poll_def work_ends_def poll_def Let_def
        elim!: un_any_stepE un_stepE split: task.splits option.splits if_splits)
qed

fun owed :: "'a un_run \<Rightarrow> nat" where
  "owed s = (case un_task s of Got _ \<Rightarrow> 0 | Parked \<Rightarrow> 2 | Runnable \<Rightarrow> if un_working s then 3 else 1)"

text \<open>
  C30. Work handed to a thread is always answered. Over any interleaving of the thread with an executor
  that polls a task when it is woken, and whenever else it likes, the task that has an answer has
  the outcome of the work, a panic and a thread that could not be started included; as long
  as it has none, the thread can end or the task is to be polled; and each of those brings the
  answer nearer: at most three of them.
\<close>

theorem unblock_answers:
  assumes "un_start outcome s" "(un_any_step outcome)\<^sup>*\<^sup>* s t"
  shows "(\<forall>r. un_task t = Got r \<longrightarrow> r = outcome)
    \<and> (owed t = 0 \<longleftrightarrow> un_task t = Got outcome) \<and> (owed t \<noteq> 0 \<longrightarrow> (\<exists>u. un_step outcome t u))
    \<and> (\<forall>u. un_step outcome t u \<longrightarrow> owed u < owed t) \<and> owed t \<le> 3"
proof -
  have inv: "un_inv outcome t"
    by (rule unblocking.reachable_inv[OF assms])
  have "owed u < owed t" if "un_step outcome t u" for u
    using that inv
    by (auto simp: un_inv_def do_end_def do_poll_def work_ends_def poll_def Let_def
        elim!: un_stepE split: task.splits option.splits if_splits)
  moreover have "\<exists>u. un_step outcome t u" if "owed t \<noteq> 0"
    using that inv un_step.ends[of t outcome] un_step.polls[of t outcome] by (cases "un_task t") (auto simp: un_inv_def split: if_splits)
  ultimately show ?thesis
    using inv by (auto simp: un_inv_def split: task.splits)
qed

theorem unblock_answers_witness:
  "owed (do_end (Inr True) (do_poll (unblock_start True 7))) = 1
   \<and> un_task (do_poll (do_end (Inr True) (do_poll (unblock_start True 7)))) = Got (Inr True)"
proof -
  let ?s = "unblock_start True 7" and ?u = "do_end (Inr True) (do_poll (unblock_start True 7))"
  have start: "un_start (Inr True) ?s"
    by (auto simp: un_start_def)
  have "un_step (Inr True) ?s (do_poll ?s)" "un_step (Inr True) (do_poll ?s) ?u"
    by (rule un_step.intros; simp add: unblock_start_def do_poll_def poll_def unblock_new_def)+
  moreover have "un_step (Inr True) ?u (do_poll ?u)"
    by (rule un_step.polls) (simp add: unblock_start_def do_end_def do_poll_def work_ends_def poll_def unblock_new_def)
  ultimately have steps: "(un_any_step (Inr True))\<^sup>*\<^sup>* ?s ?u" "(un_any_step (Inr True))\<^sup>*\<^sup>* ?s (do_poll ?u)"
    by (meson rtranclp.intros un_any_step.useful)+
  have "owed ?u = 1" "owed (do_poll ?u) = 0"
    by (simp_all add: unblock_start_def do_end_def do_poll_def work_ends_def poll_def unblock_new_def)
  then show ?thesis
    using unblock_answers[OF start steps(2)] by blast
qed

end
