(* ===== verification/Manager.thy ===== *)
theory Manager
  imports Install
begin

text \<open>
  The rest of \<open>crates/ai-daemon/src/dbusapi.rs\<close>: the listing and reporting methods of the manager object, the
  methods that change models, and the session objects; with the methods of \<open>Dbus\<close> they are all that
  can be called over the bus. A dictionary is a list of its entries. The clock, the replies of backends and
  what a fetch does are arguments.
\<close>

subsection \<open>The surroundings of a call\<close>

record manager_env =
  me_env :: env
  me_bus :: "bus_call option"
  me_secs :: nat
  me_blocked :: blocked
  me_fetch :: fetch_env
  me_panic :: "(fs \<Rightarrow> fs) option"
  me_broken :: "string option"
  me_arrivals :: "backend_event list"
  me_uptime :: nat
  me_log :: "string option"

text \<open>
  \<open>me_panic\<close> is what the files are like after the blocking work of a method panicked, if it does;
  \<open>me_broken\<close> and \<open>me_arrivals\<close> are how a backend's socket fails and what arrives on it.
\<close>

definition DAEMON_VERSION :: string where "DAEMON_VERSION = ''1.0.0''"

definition caller_uid :: "manager_env \<Rightarrow> nat option" where
  "caller_uid me = (case e_creds (me_env me) of Inr (uid, _) \<Rightarrow> Some uid | Inl _ \<Rightarrow> None)"

subsection \<open>Listing and reporting\<close>

fun store_name :: "store \<Rightarrow> string" where
  "store_name System = ''system''"
| "store_name User = ''user''"

definition model_dict :: "manifest \<Rightarrow> store \<Rightarrow> bool \<Rightarrow> options" where
  "model_dict m where_at pin_it =
     [(''name'', VStr (m_name m)), (''digest'', VStr (m_digest m)), (''format'', VStr (m_format m)),
      (''quantization'', VStr (m_quantization m)), (''license'', VStr (m_license m)), (''backend'', VStr (m_backend m)),
      (''source'', VStr (m_source m)), (''store'', VStr (store_name where_at)), (''pinned'', VBool pin_it),
      (''weights_bytes'', VU64 (weights_bytes (m_requirements m))), (''default_ctx'', VU32 (default_ctx (m_requirements m))),
      (''max_ctx'', VU32 (max_ctx (m_requirements m))), (''capabilities'', VStrs (m_capabilities m))]"

definition bus_list_models :: "manager_env \<Rightarrow> daemon \<Rightarrow> fs \<Rightarrow> options list \<times> daemon" where
  "bus_list_models me d f =
     (let (ms, r) = list_models (e_codec (me_env me)) f (d_registry d) (caller_uid me)
      in (map (\<lambda>(m, where_at). model_dict m where_at (is_pinned (d_backends d) (m_name m))) ms, d\<lparr> d_registry := r \<rparr>))"

definition bus_resolve :: "manager_env \<Rightarrow> string \<Rightarrow> daemon \<Rightarrow> fs \<Rightarrow> string + string" where
  "bus_resolve me name d f =
     rbind (resolve (e_codec (me_env me)) f (d_registry d) name (caller_uid me)) (\<lambda>rs. Inr (m_name (rs_manifest rs)))"

definition bus_list_aliases :: "manager_env \<Rightarrow> daemon \<Rightarrow> fs \<Rightarrow> (string \<times> string) list" where
  "bus_list_aliases me d f = aliases (e_codec (me_env me)) f (d_registry d) (caller_uid me)"

definition session_dict :: "session \<Rightarrow> options" where
  "session_dict s =
     [(''id'', VStr (s_id s)), (''path'', VStr (s_object_path s)), (''identity'', VStr (key (s_identity s))),
      (''class'', VStr (id_class_as_str (id_class (s_identity s)))), (''model'', VStr (s_model s)), (''backend'', VStr (s_backend s)),
      (''priority'', VStr (class_as_str (s_class s))), (''state'', VStr (session_state s)), (''local'', VBool (s_local s)),
      (''prompt_tokens'', VU64 (prompt_tokens (s_usage s))), (''completion_tokens'', VU64 (completion_tokens (s_usage s))),
      (''attachment_bytes'', VU64 (s_attachment_bytes s))]"

definition bus_list_sessions :: "daemon \<Rightarrow> options list" where
  "bus_list_sessions d = map session_dict (session_list d)"

definition bus_spend :: "config \<Rightarrow> manager_env \<Rightarrow> daemon \<Rightarrow> (string \<times> string \<times> string) list \<times> daemon" where
  "bus_spend c me d =
     (let (rows, ps) = spend_report c (e_now (me_env me)) (d_policy d)
      in (map (\<lambda>(who, spent, ceiling). (who, render_micros spent, if ceiling = 0 then ''no ceiling'' else render_micros ceiling)) rows,
          d\<lparr> d_policy := ps \<rparr>))"

definition bus_usage :: "config \<Rightarrow> manager_env \<Rightarrow> daemon \<Rightarrow> (string \<times> nat \<times> nat \<times> nat) list \<times> daemon" where
  "bus_usage c me d =
     (let (rows, ps) = usage_report c (e_now (me_env me)) (d_policy d) in (rows, d\<lparr> d_policy := ps \<rparr>))"

definition bus_list_grants :: "daemon \<Rightarrow> (string \<times> string \<times> string \<times> nat \<times> string) list" where
  "bus_list_grants d =
     map (\<lambda>g. (g_identity g, g_capability g, case g_decision g of Allow \<Rightarrow> ''allow'' | Deny \<Rightarrow> ''deny'', g_decided_at g, g_via g))
       (list_grants (d_policy d))"

fun consent_name :: "consent \<Rightarrow> string" where
  "consent_name Consent_Polkit = ''polkit''"
| "consent_name Consent_Allow = ''allow''"
| "consent_name Consent_Deny = ''deny''"

definition backend_line :: "backend \<Rightarrow> string" where
  "backend_line b =
     b_name b @ '' '' @ bi_version (b_info b) @ '' ['' @ join '','' (bi_capabilities (b_info b)) @ ''] models=''
     @ show_nat (length (loaded_models b))"

definition running_line :: "string \<times> string \<times> bool \<Rightarrow> string" where
  "running_line r = (case r of (s, cls, on_hold) \<Rightarrow> s @ '' '' @ cls @ (if on_hold then '' paused'' else []))"

definition status :: "config \<Rightarrow> limits_cfg \<Rightarrow> manager_env \<Rightarrow> daemon \<Rightarrow> options" where
  "status c lc me d =
     [(''version'', VStr DAEMON_VERSION), (''uptime_seconds'', VU64 (me_uptime me)),
      (''idle_seconds'', VU64 (idle_for (e_now (me_env me)) d div 1000000000)),
      (''sessions'', VU32 (length (d_sessions d) mod U32)), (''kv_used_bytes'', VU64 (kv_used (d_scheduler d))),
      (''kv_budget_bytes'', VU64 (kv_budget lc)), (''consent_mode'', VStr (consent_name (p_consent (c_policy c)))),
      (''backends'', VStrs (map (\<lambda>(_, b). backend_line b) (live (d_backends d)))),
      (''running'', VStrs (map running_line (running_report (d_scheduler d)))),
      (''audit_log'', VStr (unwrap_or (me_log me) ''journal only''))]"

fun manager_property :: "string \<Rightarrow> daemon \<Rightarrow> dval option" where
  "manager_property name d =
     (if name = ''Version'' then Some (VStr DAEMON_VERSION)
      else if name = ''DataProtocol'' then Some (VU32 DATA_PROTO)
      else if name = ''Backends'' then Some (VStrs (configured (d_backends d)))
      else None)"

subsection \<open>Changing models\<close>

definition install_options_of :: "options \<Rightarrow> install_options" where
  "install_options_of os =
     \<lparr> io_max_ctx = opt as_u32 ''max_ctx'' os, io_format = opt as_str ''format'' os, io_backend = opt as_str ''backend'' os,
       io_license = opt as_str ''license'' os, io_capabilities = opt as_strs ''capabilities'' os \<rparr>"

definition admin :: "config \<Rightarrow> manager_env \<Rightarrow> daemon \<Rightarrow> (string + identity) \<times> daemon" where
  "admin c me d = require_admin c (me_bus me) (me_env me) (me_secs me) d"

definition install_model :: "config \<Rightarrow> manager_env \<Rightarrow> string \<Rightarrow> string \<Rightarrow> string \<Rightarrow> options \<Rightarrow> daemon \<Rightarrow> fs
    \<Rightarrow> (string + string) \<times> daemon \<times> fs" where
  "install_model c me source digest name os d f =
     (case admin c me d of
        (Inl err, d1) \<Rightarrow> (Inl err, d1, f)
      | (Inr _, d1) \<Rightarrow>
          (case me_panic me of
             Some g \<Rightarrow> (Inl ''the installer panicked'', d1, g f)
           | None \<Rightarrow>
               install (e_codec (me_env me)) (me_blocked me) (e_spawn (me_env me)) (me_fetch me) c source digest name
                 (install_options_of os) d1 f))"

definition bus_remove_model :: "config \<Rightarrow> manager_env \<Rightarrow> string \<Rightarrow> daemon \<Rightarrow> fs \<Rightarrow> (string + unit) \<times> daemon \<times> fs" where
  "bus_remove_model c me name d f =
     (case admin c me d of
        (Inl err, d1) \<Rightarrow> (Inl err, d1, f)
      | (Inr _, d1) \<Rightarrow>
          (case remove_model (e_codec (me_env me)) (me_blocked me) name (d_registry d1) f of
             (outcome, r, f1) \<Rightarrow> (outcome, d1\<lparr> d_registry := r \<rparr>, f1)))"

definition bus_set_alias :: "config \<Rightarrow> manager_env \<Rightarrow> string \<Rightarrow> string \<Rightarrow> daemon \<Rightarrow> fs \<Rightarrow> (string + unit) \<times> daemon \<times> fs" where
  "bus_set_alias c me short target d f =
     (case admin c me d of
        (Inl err, d1) \<Rightarrow> (Inl err, d1, f)
      | (Inr _, d1) \<Rightarrow>
          (case resolve (e_codec (me_env me)) f (d_registry d1) target None of
             Inl err \<Rightarrow> (Inl err, d1, f)
           | Inr _ \<Rightarrow>
               (case set_alias (e_codec (me_env me)) (me_blocked me) (d_registry d1) short target f of
                  (outcome, f1) \<Rightarrow> (outcome, d1, f1))))"

text \<open>The blocking part of \<open>PinModel\<close>: the backend that serves the model, and its load.\<close>

definition warm :: "config \<Rightarrow> manager_env \<Rightarrow> resolved \<Rightarrow> backends \<Rightarrow> (string + unit) \<times> backends" where
  "warm c me rs bs =
     (case for_manifest (e_spawn (me_env me)) (rs_manifest rs) ''generate'' bs of
        (Inl err, bs1) \<Rightarrow> (Inl err, bs1)
      | (Inr b, bs1) \<Rightarrow>
          let stated = default_ctx (m_requirements (rs_manifest rs));
              ctx = (if stated = 0 then p_max_context (c_policy c) else stated)
          in case load_model (me_broken me) (m_name (rs_manifest rs)) (rs_blob rs) (m_digest (rs_manifest rs)) ctx
                    (me_arrivals me) b of
               (Inl err, b1) \<Rightarrow> (Inl err, on_live (b_name b) (\<lambda>_. b1) bs1)
             | (Inr _, b1) \<Rightarrow> (Inr (), on_live (b_name b) (\<lambda>_. b1) bs1))"

definition pin_model :: "config \<Rightarrow> manager_env \<Rightarrow> string \<Rightarrow> bool \<Rightarrow> daemon \<Rightarrow> fs \<Rightarrow> (string + unit) \<times> daemon" where
  "pin_model c me model on d f =
     (case admin c me d of
        (Inl err, d1) \<Rightarrow> (Inl err, d1)
      | (Inr _, d1) \<Rightarrow>
          (case resolve (e_codec (me_env me)) f (d_registry d1) model None of
             Inl err \<Rightarrow> (Inl err, d1)
           | Inr rs \<Rightarrow>
               let d2 = d1\<lparr> d_backends := pin (m_name (rs_manifest rs)) on (d_backends d1) \<rparr>
               in if \<not> on then (Inr (), d2)
                  else if me_panic me \<noteq> None then (Inl ''pinning panicked'', d2)
                  else
                    (case warm c me rs (d_backends d2) of
                       (outcome, bs) \<Rightarrow> (outcome, d2\<lparr> d_backends := bs \<rparr>))))"

subsection \<open>Session objects\<close>

definition so_cancel :: "manager_env \<Rightarrow> string \<Rightarrow> daemon \<Rightarrow> daemon" where
  "so_cancel me sid d = cancel_in_flight (me_env me) sid d"

definition so_close :: "manager_env \<Rightarrow> string \<Rightarrow> daemon \<Rightarrow> daemon" where
  "so_close me sid d = close_live_session (me_env me) sid d"

fun session_property :: "string \<Rightarrow> session \<Rightarrow> dval option" where
  "session_property name s =
     (if name = ''Identity'' then Some (VStr (key (s_identity s)))
      else if name = ''Model'' then Some (VStr (s_model s))
      else if name = ''Digest'' then Some (VStr (s_digest s))
      else if name = ''Backend'' then Some (VStr (s_backend s))
      else if name = ''Local'' then Some (VBool (s_local s))
      else if name = ''Priority'' then Some (VStr (class_as_str (s_class s)))
      else if name = ''State'' then Some (VStr (session_state s))
      else if name = ''PromptTokens'' then Some (VU64 (prompt_tokens (s_usage s)))
      else if name = ''CompletionTokens'' then Some (VU64 (completion_tokens (s_usage s)))
      else if name = ''AttachmentBytes'' then Some (VU64 (s_attachment_bytes s))
      else None)"

subsection \<open>Everything that can be called\<close>

datatype bus_method =
    List_Models
  | Resolve string
  | List_Aliases
  | Create_Session string options
  | List_Sessions
  | Spend_Report
  | Usage_Report
  | List_Grants
  | Set_Grant string string bool
  | Revoke string
  | Install_Model string string string options
  | Remove_Model string
  | Set_Alias string string
  | Pin_Model string bool
  | Status
  | Get_Property string
  | Session_Cancel string
  | Session_Close string

text \<open>
  What a call does to the daemon and its files; the replies are those of the functions above. \<open>Resolve\<close>, \<open>ListAliases\<close>,
  \<open>ListSessions\<close>, \<open>ListGrants\<close>, \<open>Status\<close> and the properties are functions of the state alone: their methods read it under
  its locks and call nothing that writes.
\<close>

fun serve_call :: "config \<Rightarrow> manager_env \<Rightarrow> bus_method \<Rightarrow> daemon \<times> fs \<Rightarrow> daemon \<times> fs" where
  "serve_call c me List_Models (d, f) = (snd (bus_list_models me d f), f)"
| "serve_call c me (Resolve name) (d, f) = (d, f)"
| "serve_call c me List_Aliases (d, f) = (d, f)"
| "serve_call c me (Create_Session model os) (d, f) =
     (snd (create_session c ((me_env me)\<lparr> e_fs := f \<rparr>) model os d), f)"
| "serve_call c me List_Sessions (d, f) = (d, f)"
| "serve_call c me Spend_Report (d, f) = (snd (bus_spend c me d), f)"
| "serve_call c me Usage_Report (d, f) = (snd (bus_usage c me d), f)"
| "serve_call c me List_Grants (d, f) = (d, f)"
| "serve_call c me (Set_Grant who capability yes) (d, f) =
     (snd (admin_set_grant c (me_bus me) (me_env me) (me_secs me) who capability yes d), f)"
| "serve_call c me (Revoke who) (d, f) = (snd (admin_revoke c (me_bus me) (me_env me) (me_secs me) who d), f)"
| "serve_call c me (Install_Model source digest name os) (d, f) = snd (install_model c me source digest name os d f)"
| "serve_call c me (Remove_Model name) (d, f) = snd (bus_remove_model c me name d f)"
| "serve_call c me (Set_Alias short target) (d, f) = snd (bus_set_alias c me short target d f)"
| "serve_call c me (Pin_Model model on) (d, f) = (snd (pin_model c me model on d f), f)"
| "serve_call c me Status (d, f) = (d, f)"
| "serve_call c me (Get_Property name) (d, f) = (d, f)"
| "serve_call c me (Session_Cancel sid) (d, f) = (so_cancel me sid d, f)"
| "serve_call c me (Session_Close sid) (d, f) = (so_close me sid d, f)"

subsection \<open>Who may change what\<close>

definition caller :: "manager_env \<Rightarrow> identity option" where
  "caller me =
     (case e_creds (me_env me) of
        Inl _ \<Rightarrow> None
      | Inr (uid, pid) \<Rightarrow> Some (from_pid_uid (e_read (me_env me)) (e_link (me_env me)) pid uid uid Native))"

definition administers :: "config \<Rightarrow> manager_env \<Rightarrow> daemon \<Rightarrow> bool" where
  "administers c me d \<longleftrightarrow>
     (case caller me of
        None \<Rightarrow> False
      | Some i \<Rightarrow>
          is_ok (fst (check c (me_bus me) (e_read (me_env me)) (me_secs me) i CAP_MODEL_ADMIN (d_policy d))))"

text \<open>The one grant a refused call may add: the answer to its own question.\<close>

definition own_question :: "manager_env \<Rightarrow> string \<times> string \<Rightarrow> bool" where
  "own_question me pair \<longleftrightarrow> (case caller me of None \<Rightarrow> False | Some i \<Rightarrow> pair = (key i, CAP_MODEL_ADMIN))"

definition same_rights :: "manager_env \<Rightarrow> daemon \<Rightarrow> daemon \<Rightarrow> bool" where
  "same_rights me d d' \<longleftrightarrow>
     pinned (d_backends d') = pinned (d_backends d)
     \<and> (\<forall>pair. own_question me pair \<or> map_of (grants (d_policy d')) pair = map_of (grants (d_policy d)) pair)"

lemma same_rightsI:
  "pinned (d_backends d') = pinned (d_backends d) \<Longrightarrow> grants (d_policy d') = grants (d_policy d) \<Longrightarrow> same_rights me d d'"
  by (simp add: same_rights_def)

lemma same_rights_refl [simp]: "same_rights me d d"
  by (simp add: same_rights_def)

lemma check_grants_elsewhere:
  "pair \<noteq> (key i, capability) \<Longrightarrow>
   map_of (grants (snd (check c bus rd now i capability ps))) pair = map_of (grants ps) pair"
  by (auto simp: check_def check_unknown_def remember_def update_conv' split: list.splits option.splits sum.splits decision.splits)

lemma admin_refuses:
  assumes "\<not> administers c me d"
  shows "\<exists>err d1. admin c me d = (Inl err, d1) \<and> same_rights me d d1"
proof (cases "e_creds (me_env me)")
  case (Inl err)
  then show ?thesis
    by (simp add: admin_def require_admin_def)
next
  case (Inr creds)
  obtain uid pid where creds: "creds = (uid, pid)"
    by (cases creds)
  let ?i = "from_pid_uid (e_read (me_env me)) (e_link (me_env me)) pid uid uid Native"
  have who: "caller me = Some ?i"
    by (simp add: caller_def Inr creds)
  obtain ans ps where chk: "check c (me_bus me) (e_read (me_env me)) (me_secs me) ?i CAP_MODEL_ADMIN (d_policy d) = (ans, ps)"
    by (rule prod.exhaust)
  obtain why where ans: "ans = Inl why"
    using assms by (cases ans) (simp_all add: administers_def who chk)
  have "map_of (grants ps) pair = map_of (grants (d_policy d)) pair" if "pair \<noteq> (key ?i, CAP_MODEL_ADMIN)" for pair
    using check_grants_elsewhere [OF that, of c "me_bus me" "e_read (me_env me)" "me_secs me" "d_policy d"] by (simp add: chk)
  then show ?thesis
    by (auto simp: admin_def require_admin_def Inr creds chk ans audit_def same_rights_def own_question_def who)
qed

text \<open>What opening a session leaves alone.\<close>

lemma get_backend_pinned: "get_backend spawn name bs = (outcome, bs') \<Longrightarrow> pinned bs' = pinned bs"
  by (auto simp: get_backend_def split: option.splits sum.splits if_splits)

lemma first_able_pinned: "pinned (snd (first_able spawn fmt capability ss err bs)) = pinned bs"
proof (induction spawn fmt capability ss err bs rule: first_able.induct)
  case (2 spawn fmt capability spec rest err bs)
  obtain o' bs' where g: "get_backend spawn (be_name spec) bs = (o', bs')"
    by (rule prod.exhaust)
  have "pinned bs' = pinned bs"
    by (rule get_backend_pinned [OF g])
  then show ?case
    using 2 by (simp add: g split: sum.split)
qed simp

lemma for_manifest_pinned: "for_manifest spawn m capability bs = (outcome, bs') \<Longrightarrow> pinned bs' = pinned bs"
  using first_able_pinned [of spawn "m_format m" capability "specs bs" "''no backend is configured''" bs]
  by (auto simp: for_manifest_def dest: get_backend_pinned split: prod.splits sum.splits if_splits)

lemma on_live_pinned [simp]: "pinned (on_live name g bs) = pinned bs"
  by (simp add: on_live_def split: option.split)

lemma open_session_grants [simp]: "grants (snd (open_session i l ps)) = grants ps"
  by (auto simp: open_session_def Let_def)

lemma close_session_grants [simp]: "grants (close_session i ps) = grants ps"
  by (auto simp: close_session_def Let_def split: option.split)

lemma retire_rights [simp]:
  "pinned (d_backends (retire e s d)) = pinned (d_backends d)"
  "grants (d_policy (retire e s d)) = grants (d_policy d)"
  by (auto simp: retire_def Let_def audit_def set_policy_def remove_session_def touch_def drop_session_cache_def
      dest: get_backend_pinned split: prod.splits sum.splits)

lemma drop_slot_rights [simp]:
  "pinned (d_backends (drop_slot e i so d)) = pinned (d_backends d)"
  "grants (d_policy (drop_slot e i so d)) = grants (d_policy d)"
  by (simp_all add: drop_slot_def set_policy_def split: option.split)

lemma build_session_rights:
  "pinned (d_backends (snd (build_session e i l rs os d))) = pinned (d_backends d)
   \<and> grants (d_policy (snd (build_session e i l rs os d))) = grants (d_policy d)"
  by (auto simp: build_session_def Let_def set_policy_def next_session_id_def insert_session_def touch_def audit_def
      dest: for_manifest_pinned split: prod.splits sum.splits option.splits)

lemma create_session_rights: "same_rights me d (snd (create_session c e model os d))"
proof (rule same_rightsI)
  have "pinned (d_backends (snd (create_session c e model os d))) = pinned (d_backends d)
    \<and> grants (d_policy (snd (create_session c e model os d))) = grants (d_policy d)"
  proof -
    have opened: "grants ps = grants (d_policy d)" if "open_session i l (d_policy d) = (o', ps)" for i l o' ps
      using open_session_grants [of i l "d_policy d"] that by simp
    show ?thesis
      using opened build_session_rights
      by (auto simp: create_session_def Let_def audit_def split: sum.split prod.split)
  qed
  then show "pinned (d_backends (snd (create_session c e model os d))) = pinned (d_backends d)"
    and "grants (d_policy (snd (create_session c e model os d))) = grants (d_policy d)"
    by simp_all
qed

lemma cancel_in_flight_rights [simp]:
  "pinned (d_backends (cancel_in_flight e sid d)) = pinned (d_backends d)"
  "d_policy (cancel_in_flight e sid d) = d_policy d"
proof -
  have "pinned (d_backends (cancel_in_flight e sid d)) = pinned (d_backends d) \<and> d_policy (cancel_in_flight e sid d) = d_policy d"
  proof (cases "map_of (d_sessions d) sid")
    case (Some s)
    then show ?thesis
      by (auto simp: cancel_in_flight_def Let_def dest: get_backend_pinned split: option.split prod.splits sum.splits)
  qed (simp add: cancel_in_flight_def)
  then show "pinned (d_backends (cancel_in_flight e sid d)) = pinned (d_backends d)"
    and "d_policy (cancel_in_flight e sid d) = d_policy d"
    by simp_all
qed

lemma spent_by_grants [simp]: "grants (snd (spent_by now who ps)) = grants ps"
  by (simp add: spent_by_def Let_def split: option.split)

lemma used_by_grants [simp]: "grants (snd (used_by now who ps)) = grants ps"
  by (simp add: used_by_def Let_def split: option.split)

lemma spend_rows_grants [simp]: "grants (snd (spend_rows c now ws ps)) = grants ps"
  by (induction ws arbitrary: ps) (simp_all add: Let_def case_prod_beta)

lemma usage_rows_grants [simp]: "grants (snd (usage_rows c now ws ps)) = grants ps"
  by (induction ws arbitrary: ps) (simp_all add: Let_def case_prod_beta)

lemma reports_keep_rights [simp]:
  "same_rights me d (snd (bus_spend c me d))"
  "same_rights me d (snd (bus_usage c me d))"
  "same_rights me d (snd (bus_list_models me d f))"
  by (simp_all add: same_rights_def bus_spend_def bus_usage_def bus_list_models_def spend_report_def usage_report_def
      Let_def case_prod_beta)

lemma session_objects_keep_rights [simp]:
  "same_rights me d (so_cancel me' sid d)"
  "same_rights me d (so_close me' sid d)"
  by (simp_all add: same_rights_def so_cancel_def so_close_def close_live_session_def split: option.split)

lemma administration_refused:
  assumes "\<not> administers c me d"
  shows "same_rights me d (snd (admin_set_grant c (me_bus me) (me_env me) (me_secs me) who capability yes d))"
    and "same_rights me d (snd (admin_revoke c (me_bus me) (me_env me) (me_secs me) who d))"
    and "same_rights me d (fst (snd (install_model c me source digest name os d f)))"
    and "snd (snd (install_model c me source digest name os d f)) = f"
    and "same_rights me d (fst (snd (bus_remove_model c me name d f)))"
    and "snd (snd (bus_remove_model c me name d f)) = f"
    and "same_rights me d (fst (snd (bus_set_alias c me short target d f)))"
    and "snd (snd (bus_set_alias c me short target d f)) = f"
    and "same_rights me d (snd (pin_model c me model on d f))"
proof -
  obtain err d1 where no: "admin c me d = (Inl err, d1)" and same: "same_rights me d d1"
    using admin_refuses [OF assms] by blast
  note no' = no [unfolded admin_def]
  show "same_rights me d (snd (admin_set_grant c (me_bus me) (me_env me) (me_secs me) who capability yes d))"
    and "same_rights me d (snd (admin_revoke c (me_bus me) (me_env me) (me_secs me) who d))"
    using same by (simp_all add: admin_set_grant_def admin_revoke_def no')
  show "same_rights me d (fst (snd (install_model c me source digest name os d f)))"
    and "snd (snd (install_model c me source digest name os d f)) = f"
    and "same_rights me d (fst (snd (bus_remove_model c me name d f)))"
    and "snd (snd (bus_remove_model c me name d f)) = f"
    and "same_rights me d (fst (snd (bus_set_alias c me short target d f)))"
    and "snd (snd (bus_set_alias c me short target d f)) = f"
    and "same_rights me d (snd (pin_model c me model on d f))"
    using same by (simp_all add: install_model_def bus_remove_model_def bus_set_alias_def pin_model_def no)
qed

lemma refused_call_changes_no_rights:
  assumes "\<not> administers c me d"
  shows "same_rights me d (fst (serve_call c me m (d, f))) \<and> snd (serve_call c me m (d, f)) = f"
  using administration_refused [OF assms] create_session_rights
  by (cases m) (simp_all only: serve_call.simps fst_conv snd_conv same_rights_refl reports_keep_rights
      session_objects_keep_rights simp_thms)

text \<open>
  A history of calls: each with its own caller, clock and replies. While no caller is an
  administrator the models are safe.
\<close>

fun serve_calls :: "config \<Rightarrow> (manager_env \<times> bus_method) list \<Rightarrow> daemon \<times> fs \<Rightarrow> daemon \<times> fs" where
  "serve_calls c [] s = s"
| "serve_calls c ((me, m) # rest) s = serve_calls c rest (serve_call c me m s)"

fun no_administrator :: "config \<Rightarrow> (manager_env \<times> bus_method) list \<Rightarrow> daemon \<times> fs \<Rightarrow> bool" where
  "no_administrator c [] s \<longleftrightarrow> True"
| "no_administrator c ((me, m) # rest) s \<longleftrightarrow>
     \<not> administers c me (fst s) \<and> no_administrator c rest (serve_call c me m s)"

text \<open>
  C17. Only an administrator changes models, pins or decisions: after any sequence of calls on the manager and
  its session objects, none of whose callers the policy engine recognises as an administrator when it
  calls, the files of the store are as before, so is the set of pinned models, and so is every
  remembered decision, except for the answers to the callers' own requests to administer.
\<close>

theorem models_change_only_for_administrators:
  assumes "no_administrator c calls (d, f)"
  shows "snd (serve_calls c calls (d, f)) = f
    \<and> pinned (d_backends (fst (serve_calls c calls (d, f)))) = pinned (d_backends d)
    \<and> (\<forall>pair. list_ex (\<lambda>(me, _). own_question me pair) calls
         \<or> map_of (grants (d_policy (fst (serve_calls c calls (d, f))))) pair = map_of (grants (d_policy d)) pair)"
  using assms
proof (induction calls arbitrary: d)
  case (Cons a rest)
  obtain me m where a: "a = (me, m)"
    by (rule prod.exhaust)
  obtain d1 f1 where s: "serve_call c me m (d, f) = (d1, f1)"
    by (rule prod.exhaust)
  have "\<not> administers c me d" and later: "no_administrator c rest (d1, f1)"
    using Cons.prems by (simp_all add: a s)
  from refused_call_changes_no_rights [OF this(1), of m f] have "f1 = f" and "same_rights me d d1"
    by (simp_all add: s)
  then have ih: "snd (serve_calls c rest (d1, f)) = f"
      "pinned (d_backends (fst (serve_calls c rest (d1, f)))) = pinned (d_backends d)"
      "list_ex (\<lambda>(me, _). own_question me pair) rest
         \<or> map_of (grants (d_policy (fst (serve_calls c rest (d1, f))))) pair = map_of (grants (d_policy d1)) pair"
      "own_question me pair \<or> map_of (grants (d_policy d1)) pair = map_of (grants (d_policy d)) pair" for pair
    using later Cons.IH [of d1] by (simp_all add: same_rights_def del: split_paired_All)
  have "own_question me pair \<or> list_ex (\<lambda>(me, _). own_question me pair) rest
      \<or> map_of (grants (d_policy (fst (serve_calls c rest (d1, f))))) pair = map_of (grants (d_policy d)) pair" for pair
    using ih(3) [of pair] ih(4) [of pair] by argo
  then show ?case
    using ih(1,2) \<open>f1 = f\<close> by (simp add: a s)
qed simp

definition sample_caller :: manager_env where
  "sample_caller =
     \<lparr> me_env = sample_env, me_bus = None, me_secs = 0, me_blocked = (\<lambda>_. None), me_fetch = small_fetch,
       me_panic = None, me_broken = None, me_arrivals = [], me_uptime = 0, me_log = None \<rparr>"

theorem models_change_only_for_administrators_witness:
  "no_administrator open_config [(sample_caller, Install_Model ''a'' ''b'' ''n'' [])] (sample_daemon, small_files)
   \<and> snd (serve_calls open_config [(sample_caller, Install_Model ''a'' ''b'' ''n'' [])] (sample_daemon, small_files)) = small_files"
proof -
  have "no_administrator open_config [(sample_caller, Install_Model ''a'' ''b'' ''n'' [])] (sample_daemon, small_files)"
    by (simp add: administers_def caller_def sample_caller_def sample_env_def sample_daemon_def check_def rule_for_def
        open_config_def default_config_def check_unknown_def decide_def polkit_decision_def ask_polkit_def empty_policy_def)
  then show ?thesis
    using models_change_only_for_administrators
      [of open_config "[(sample_caller, Install_Model ''a'' ''b'' ''n'' [])]" sample_daemon small_files] by blast
qed

text \<open>
  Session objects ask nobody: whoever calls, with whatever credentials or none, cancels and closes any
  session.
\<close>

lemma anyone_closes_any_session:
  "so_close (me\<lparr> me_env := (me_env me)\<lparr> e_creds := whoever \<rparr> \<rparr>) sid d = so_close me sid d"
  "so_cancel (me\<lparr> me_env := (me_env me)\<lparr> e_creds := whoever \<rparr> \<rparr>) sid d = so_cancel me sid d"
  by (simp_all add: so_close_def so_cancel_def close_live_session_def cancel_in_flight_def Let_def cong: option.case_cong)

lemma any_session_can_be_closed:
  assumes "map_of (d_sessions d) sid = Some s"
  shows "\<exists>s'. map_of (d_sessions (so_close me sid d)) sid = Some s' \<and> s_closed s' \<and> s_cancelled s'"
  using assms
  by (auto simp: so_close_def close_live_session_def cancel_in_flight_def update_conv' Let_def
      split: option.split sum.split prod.split)

end
