(* ===== verification/Mock.thy ===== *)
theory Mock
  imports Messages "HOL-Library.AList" "HOL-Library.Sublist"
begin

text \<open>
  The conformance backend: \<open>crates/ai-daemon-backend-mock/src/main.rs\<close>. The thread of a generation is cut at
  every read of a shared flag and at every event it writes; the threads and the reader of requests are
  interleaved by a step relation. A flag lives in the job that owns it, and the two tables of the
  source lead from a request to such a job, as they lead to a shared flag there. Single precision
  arithmetic (the embedding, the sine wave, the ladder of log probabilities), the file system and the printing of JSON
  are arguments (\<open>mock_env\<close>).
\<close>

unbundle bit_operations_syntax

subsection \<open>Deterministic text, bytes and hashes\<close>

record mock_env =
  mv_exists :: "string \<Rightarrow> bool"
  mv_json :: "json \<Rightarrow> string"
  mv_embed :: "string \<Rightarrow> f32 list"
  mv_wave :: "nat \<Rightarrow> byte list"
  mv_ladder :: "nat \<Rightarrow> f32"

definition MOCK_NAME :: string where "MOCK_NAME = ''mock''"
definition KV_BYTES_PER_TOKEN :: nat where "KV_BYTES_PER_TOKEN = 131072"

definition fnv :: "string \<Rightarrow> 64 word" where
  "fnv s = foldl (\<lambda>h c. (h XOR word_of_nat (code c)) * 0x100000001b3) 0xcbf29ce484222325 s"

definition word_token :: "string \<Rightarrow> nat" where
  "word_token w = unat (foldl (\<lambda>h c. (h XOR word_of_nat (code c)) * 16777619) (2166136261 :: 32 word) w) mod 32000"

definition mock_tokenize :: "string \<Rightarrow> nat list" where
  "mock_tokenize s = map word_token (split_whitespace s)"

definition quarter :: "string \<Rightarrow> nat" where
  "quarter s = (length s + 3) div 4"

text \<open>\<open>str::chars().count()\<close> on the bytes of a text: all but the continuation bytes.\<close>

definition chars_count :: "string \<Rightarrow> nat" where
  "chars_count s = length (filter (\<lambda>c. \<not> (128 \<le> code c \<and> code c < 192)) s)"

fun split_inclusive_acc :: "char \<Rightarrow> string \<Rightarrow> string \<Rightarrow> string list" where
  "split_inclusive_acc sep acc [] = (if acc = [] then [] else [acc])"
| "split_inclusive_acc sep acc (c # cs) =
     (if c = sep then (acc @ [c]) # split_inclusive_acc sep [] cs else split_inclusive_acc sep (acc @ [c]) cs)"

definition split_inclusive :: "char \<Rightarrow> string \<Rightarrow> string list" where
  "split_inclusive sep s = split_inclusive_acc sep [] s"

definition last_of :: "string \<Rightarrow> message list \<Rightarrow> string" where
  "last_of role ms = (case List.find (\<lambda>m. msg_role m = role) (rev ms) of Some m \<Rightarrow> msg_content m | None \<Rightarrow> [])"

definition attachment_line :: "raw_attachment \<Rightarrow> string" where
  "attachment_line a =
     (if ra_kind a = ''image''
      then ''Image '' @ ra_id a @ '' is '' @ show_nat (case ra_w a of Some w \<Rightarrow> w | None \<Rightarrow> 0) @ ''x''
        @ show_nat (case ra_h a of Some h \<Rightarrow> h | None \<Rightarrow> 0) @ '' ''
        @ (case ra_fmt a of Some f \<Rightarrow> f | None \<Rightarrow> ''rgba8'') @ '' ('' @ show_nat (length (ra_data a)) @ '' bytes).''
      else if ra_kind a = ''audio''
      then ''Audio '' @ ra_id a @ '' is '' @ show_nat (length (ra_data a) div 4) @ '' sample(s) at ''
        @ show_nat (case ra_rate a of Some r \<Rightarrow> r | None \<Rightarrow> 0) @ '' Hz.''
      else ''Attachment '' @ ra_id a @ '' of unknown kind '' @ ra_kind a @ ''.'')"

definition compose :: "string \<Rightarrow> message list \<Rightarrow> string option \<Rightarrow> raw_attachment list \<Rightarrow> bool \<Rightarrow> string" where
  "compose session ms grammar as after_tool =
     join '' ''
       ([''[mock:'' @ session @ ''] '' @ show_nat (length ms) @ '' message(s); last user prompt was ''
           @ show_nat (chars_count (last_of ''user'' ms)) @ '' character(s).'']
        @ (if after_tool then [''Tool result seen: '' @ last_of ''tool'' ms @ ''.''] else [])
        @ map attachment_line as
        @ (if grammar \<noteq> None then [''A decoding grammar was supplied.''] else []))"

text \<open>The filler: a middle dot (two bytes), a number and a space.\<close>

definition filler :: "nat \<Rightarrow> string" where
  "filler n = [CHR 0xC2, CHR 0xB7] @ show_nat n @ '' ''"

definition mock_tokens :: "nat \<Rightarrow> string \<Rightarrow> string list" where
  "mock_tokens limit reply = take limit (split_inclusive (CHR '' '') reply @ map filler [0..<limit])"

subsection \<open>An instance of a schema\<close>

lemma member_size: "(k, w) \<in> set kvs \<Longrightarrow> size w < size (JObj kvs)"
  by (auto dest!: split_list)

lemma jget_size: "jget k v = Some w \<Longrightarrow> size w < size v"
  by (cases v) (auto dest!: map_of_SomeD member_size)

lemma object_schema_size: "jfield jobj k v = Some kvs \<Longrightarrow> (k', w) \<in> set kvs \<Longrightarrow> size w < size v"
proof -
  assume "jfield jobj k v = Some kvs" and mem: "(k', w) \<in> set kvs"
  then have "jget k v = Some (JObj kvs)"
    by (auto simp: jfield_def bind_eq_Some_conv elim!: jobj.elims)
  from jget_size [OF this] member_size [OF mem] show ?thesis
    by linarith
qed

definition required_of :: "json \<Rightarrow> string list" where
  "required_of schema = (case jfield jarr ''required'' schema of Some rs \<Rightarrow> List.map_filter jstr rs | None \<Rightarrow> [])"

function sample_value :: "json \<Rightarrow> json" where
  "sample_value schema =
     (if jobj schema = None then JObj []
      else
        (case jfield jarr ''enum'' schema of
           Some (first # _) \<Rightarrow> first
         | _ \<Rightarrow>
             (let kind = jfield jstr ''type'' schema
              in if kind = Some ''string'' then JStr ''mock''
                 else if kind = Some ''integer'' then JNum ''1''
                 else if kind = Some ''number'' then JNum ''1.0''
                 else if kind = Some ''boolean'' then JBool True
                 else if kind = Some ''array''
                 then (case jget ''items'' schema of Some items \<Rightarrow> JArr [sample_value items] | None \<Rightarrow> JArr [])
                 else if kind = Some ''object'' \<or> kind = None
                 then JObj
                   (case jfield jobj ''properties'' schema of
                      None \<Rightarrow> []
                    | Some kvs \<Rightarrow>
                        map (\<lambda>(k, sub). (k, sample_value sub))
                          (filter (\<lambda>(k, _). required_of schema = [] \<or> k \<in> set (required_of schema)) kvs))
                 else JNull)))"
  by pat_completeness auto
termination
  by (relation "measure size") (auto dest: jget_size object_schema_size)

declare sample_value.simps [simp del]

definition sample_arguments :: "mock_env \<Rightarrow> json \<Rightarrow> string" where
  "sample_arguments v schema = mv_json v (sample_value schema)"

subsection \<open>Threads\<close>

text \<open>
  Where a thread is: before its start, at the read of the pause flag before a token, at the read of the cancel
  flag inside the waiting loop, at the read of the cancel flag after it, at the write of the token, writing
  the events that are left, removing its flags, gone.
\<close>

datatype mphase =
    MP_Start
  | MP_Pause
  | MP_Hold
  | MP_Cancel
  | MP_Send
  | MP_Say "backend_event list"
  | MP_Clear_Paused
  | MP_Clear_Cancelled
  | MP_Gone

record mjob =
  mj_asked :: backend_request
  mj_phase :: mphase
  mj_todo :: "string list"
  mj_emitted :: nat
  mj_paused :: bool
  mj_cancelled :: bool

record mock =
  mk_models :: "(string \<times> nat) list"
  mk_paused :: "(nat \<times> nat) list"
  mk_cancelled :: "(nat \<times> nat) list"
  mk_dropped :: "string list"
  mk_jobs :: "mjob list"
  mk_out :: "(nat option \<times> backend_event) list"

definition mock_start :: mock where
  "mock_start = \<lparr> mk_models = [], mk_paused = [], mk_cancelled = [], mk_dropped = [], mk_jobs = [], mk_out = [] \<rparr>"

text \<open>Every event goes out under the writer's lock; who wrote it is recorded.\<close>

definition mock_send :: "nat option \<Rightarrow> backend_event \<Rightarrow> mock \<Rightarrow> mock" where
  "mock_send who e s = s\<lparr> mk_out := mk_out s @ [(who, e)] \<rparr>"

definition mock_info :: backend_info where
  "mock_info =
     \<lparr> bi_name = MOCK_NAME, bi_version = ''1.0.0'', bi_formats = [''mock'', ''gguf''], bi_quantizations = [''none''],
       bi_devices = [], bi_device_memory = None,
       bi_capabilities = [''generate'', ''embed'', ''logprobs'', ''grammar'', ''tools'', ''parallel-tools'', ''vision'',
         ''audio-in'', ''image-out'', ''audio-out''],
       bi_local = True \<rparr>"

definition new_job :: "backend_request \<Rightarrow> mjob" where
  "new_job q = \<lparr> mj_asked = q, mj_phase = MP_Start, mj_todo = [], mj_emitted = 0, mj_paused = False, mj_cancelled = False \<rparr>"

definition set_flag :: "(mjob \<Rightarrow> mjob) \<Rightarrow> nat option \<Rightarrow> mock \<Rightarrow> mock" where
  "set_flag g owner s =
     (case owner of
        None \<Rightarrow> s
      | Some j \<Rightarrow> if j < length (mk_jobs s) then s\<lparr> mk_jobs := (mk_jobs s)[j := g (mk_jobs s ! j)] \<rparr> else s)"

definition prompt_done :: "nat \<Rightarrow> nat \<Rightarrow> backend_event" where
  "prompt_done req n = BE_Done req (no_usage\<lparr> prompt_tokens := n mod U64 \<rparr>) (Some ''stop'')"

fun mock_handle :: "mock_env \<Rightarrow> backend_request \<Rightarrow> mock \<Rightarrow> bool \<times> mock" where
  "mock_handle v (B_Hello proto) s =
     (if proto \<noteq> BACKEND_PROTO
      then (False, mock_send None (BE_Error None ''protocol'' (MOCK_NAME @ '' speaks protocol '' @ show_nat BACKEND_PROTO)) s)
      else (True, mock_send None (BE_Hello BACKEND_PROTO mock_info) s))"
| "mock_handle v (B_Load model path digest n) s =
     (if path \<noteq> [] \<and> \<not> mv_exists v path
      then (True, mock_send None (BE_Error None ''no-such-model'' (path @ '' does not exist'')) s)
      else
        let n_ctx = (if n = 0 then 4096 else n)
        in (True, mock_send None (BE_Loaded model KV_BYTES_PER_TOKEN n_ctx) (s\<lparr> mk_models := AList.update model n_ctx (mk_models s) \<rparr>)))"
| "mock_handle v (B_Unload model) s =
     (True, mock_send None (BE_Unloaded model) (s\<lparr> mk_models := AList.delete model (mk_models s) \<rparr>))"
| "mock_handle v (B_Generate req model session ms ps grammar tools par as) s =
     (let j = length (mk_jobs s)
      in (True, s\<lparr> mk_paused := AList.update req j (mk_paused s), mk_cancelled := AList.update req j (mk_cancelled s),
                   mk_jobs := mk_jobs s @ [new_job (B_Generate req model session ms ps grammar tools par as)] \<rparr>))"
| "mock_handle v (B_Embed req model inputs) s =
     (True, mock_send None (prompt_done req (sum_list (map quarter inputs)))
              (mock_send None (BE_Vectors req (map (mv_embed v) inputs)) s))"
| "mock_handle v (B_Tokenize req model words) s =
     (True, mock_send None (prompt_done req (length (mock_tokenize words))) (mock_send None (BE_Tokens req (mock_tokenize words)) s))"
| "mock_handle v (B_Cancel req) s = (True, set_flag (\<lambda>jb. jb\<lparr> mj_cancelled := True \<rparr>) (map_of (mk_cancelled s) req) s)"
| "mock_handle v (B_Pause req) s = (True, set_flag (\<lambda>jb. jb\<lparr> mj_paused := True \<rparr>) (map_of (mk_paused s) req) s)"
| "mock_handle v (B_Resume req) s = (True, set_flag (\<lambda>jb. jb\<lparr> mj_paused := False \<rparr>) (map_of (mk_paused s) req) s)"
| "mock_handle v (B_DropCache session) s = (True, s\<lparr> mk_dropped := mk_dropped s @ [session] \<rparr>)"
| "mock_handle v (B_GenerateMedia req model session kind prompt ps n) s =
     (True, s\<lparr> mk_jobs := mk_jobs s @ [new_job (B_GenerateMedia req model session kind prompt ps n)] \<rparr>)"
| "mock_handle v B_Shutdown s = (False, s)"

subsection \<open>Media\<close>

definition gradient :: "nat \<Rightarrow> byte list" where
  "gradient salt =
     concat (map (\<lambda>y. concat (map (\<lambda>x.
        [word_of_nat (x * 8 + salt mod 256), word_of_nat (y * 10), word_of_nat ((x + y) * 4), 0xff]) [0..<32])) [0..<24])"

definition media_piece :: "mock_env \<Rightarrow> nat \<Rightarrow> media_kind \<Rightarrow> nat \<Rightarrow> backend_event" where
  "media_piece v req kind salt =
     (case kind of
        Media_Image \<Rightarrow> BE_Media req kind (Some 32) (Some 24) (Some ''rgba8'') None (gradient salt)
      | Media_Audio \<Rightarrow> BE_Media req kind None None None (Some 16000) (mv_wave v (salt mod 440)))"

fun media_length :: "backend_event \<Rightarrow> nat" where
  "media_length (BE_Media _ _ _ _ _ _ bytes) = length bytes"
| "media_length _ = 0"

definition not_loaded :: "nat \<Rightarrow> string \<Rightarrow> backend_event" where
  "not_loaded req model = BE_Error (Some req) ''no-such-model'' (model @ '' is not loaded'')"

definition media_events :: "mock_env \<Rightarrow> (string \<times> nat) list \<Rightarrow> nat \<Rightarrow> string \<Rightarrow> media_kind \<Rightarrow> string \<Rightarrow> params \<Rightarrow> nat
    \<Rightarrow> backend_event list" where
  "media_events v models req model kind prompt ps n =
     (if map_of models model = None then [not_loaded req model]
      else
        let base = (case seed ps of Some x \<Rightarrow> x | None \<Rightarrow> unat (fnv prompt));
            pieces = map (\<lambda>i. media_piece v req kind (u64_add base i)) [0..<max n 1]
        in pieces @ [BE_Done req (no_usage\<lparr> media_bytes := sum_list (map media_length pieces) mod U64 \<rparr>) (Some ''stop'')])"

subsection \<open>A generation\<close>

definition prompt_estimate :: "message list \<Rightarrow> nat" where
  "prompt_estimate ms = sum_list (map (\<lambda>m. quarter (msg_content m) + 4) ms) mod U64"

definition answered_a_tool :: "message list \<Rightarrow> bool" where
  "answered_a_tool ms \<longleftrightarrow> list_ex (\<lambda>m. msg_role m = ''tool'') ms"

definition mock_calls :: "mock_env \<Rightarrow> nat \<Rightarrow> tool_schema list \<Rightarrow> tool_call list" where
  "mock_calls v req ts =
     map (\<lambda>(i, t). \<lparr> tc_id = ''call-'' @ show_nat req @ ''-'' @ show_nat i, tc_name = tool_name t,
                      tc_arguments = sample_arguments v (tool_json_schema t) \<rparr>) (enumerate 0 ts)"

definition calling_events :: "mock_env \<Rightarrow> nat \<Rightarrow> nat \<Rightarrow> bool \<Rightarrow> tool_schema list \<Rightarrow> backend_event list" where
  "calling_events v req prompt par ts =
     (let calls = mock_calls v req ts
      in [if length calls = 1 \<or> \<not> par then BE_ToolCall req (hd calls) else BE_ToolCalls req calls,
          BE_Done req (no_usage\<lparr> prompt_tokens := prompt, completion_tokens := 8 \<rparr>) (Some ''tool_call'')])"

definition limit_of :: "params \<Rightarrow> nat" where
  "limit_of ps = max (case max_tokens ps of Some n \<Rightarrow> n | None \<Rightarrow> 64) 1"

text \<open>What a generation does once it has looked its model up: the events of a refusal or of tool calls, or the tokens to come.\<close>

definition generation_plan :: "mock_env \<Rightarrow> (string \<times> nat) list \<Rightarrow> nat \<Rightarrow> string \<Rightarrow> string \<Rightarrow> message list \<Rightarrow> params
    \<Rightarrow> string option \<Rightarrow> tool_schema list option \<Rightarrow> bool \<Rightarrow> raw_attachment list \<Rightarrow> backend_event list + string list" where
  "generation_plan v models req model session ms ps grammar tools par as =
     (if (case map_of models model of Some n \<Rightarrow> n = 0 | None \<Rightarrow> True) then Inl [not_loaded req model]
      else
        (case tools of
           Some (t # ts) \<Rightarrow>
             if \<not> answered_a_tool ms then Inl (calling_events v req (prompt_estimate ms) par (t # ts))
             else Inr (mock_tokens (limit_of ps) (compose session ms grammar as (answered_a_tool ms)))
         | _ \<Rightarrow> Inr (mock_tokens (limit_of ps) (compose session ms grammar as (answered_a_tool ms)))))"

definition ladder :: "mock_env \<Rightarrow> params \<Rightarrow> string \<Rightarrow> token_prob list option" where
  "ladder v ps tok =
     (case logprobs ps of
        Some n \<Rightarrow>
          if n = 0 then None
          else Some (map (\<lambda>r. \<lparr> tp_tok = (if r = 0 then tok else ''alt'' @ show_nat r), tp_logprob = mv_ladder v r \<rparr>) [0..<min n 8])
      | None \<Rightarrow> None)"

text \<open>The last event: after the tokens, or when the generation was cancelled.\<close>

definition cancelled_done :: "nat \<Rightarrow> message list \<Rightarrow> nat \<Rightarrow> backend_event" where
  "cancelled_done req ms emitted =
     BE_Done req (no_usage\<lparr> prompt_tokens := prompt_estimate ms, completion_tokens := emitted \<rparr>) (Some ''cancelled'')"

definition generated_done :: "nat \<Rightarrow> message list \<Rightarrow> params \<Rightarrow> raw_attachment list \<Rightarrow> nat \<Rightarrow> backend_event" where
  "generated_done req ms ps as emitted =
     BE_Done req (no_usage\<lparr> prompt_tokens := prompt_estimate ms, completion_tokens := emitted, attachment_tokens := length as \<rparr>)
       (Some (if limit_of ps \<le> emitted then ''length'' else ''stop''))"

definition put_job :: "nat \<Rightarrow> mjob \<Rightarrow> mock \<Rightarrow> mock" where
  "put_job j jb s = s\<lparr> mk_jobs := (mk_jobs s)[j := jb] \<rparr>"

definition start_job :: "mock_env \<Rightarrow> (string \<times> nat) list \<Rightarrow> mjob \<Rightarrow> mjob" where
  "start_job v models jb =
     (case mj_asked jb of
        B_Generate req model session ms ps grammar tools par as \<Rightarrow>
          (case generation_plan v models req model session ms ps grammar tools par as of
             Inl es \<Rightarrow> jb\<lparr> mj_phase := MP_Say es \<rparr>
           | Inr toks \<Rightarrow> jb\<lparr> mj_phase := MP_Pause, mj_todo := toks \<rparr>)
      | B_GenerateMedia req model session kind prompt ps n \<Rightarrow>
          jb\<lparr> mj_phase := MP_Say (media_events v models req model kind prompt ps n) \<rparr>
      | _ \<Rightarrow> jb\<lparr> mj_phase := MP_Gone \<rparr>)"

text \<open>The loop over the tokens, one read of a flag at a time.\<close>

definition loop_job :: "mjob \<Rightarrow> mjob" where
  "loop_job jb =
     (case mj_asked jb of
        B_Generate req model session ms ps grammar tools par as \<Rightarrow>
          (case mj_phase jb of
             MP_Pause \<Rightarrow>
               if mj_todo jb = [] then jb\<lparr> mj_phase := MP_Say [generated_done req ms ps as (mj_emitted jb)] \<rparr>
               else jb\<lparr> mj_phase := (if mj_paused jb then MP_Hold else MP_Cancel) \<rparr>
           | MP_Hold \<Rightarrow> jb\<lparr> mj_phase := (if mj_cancelled jb then MP_Cancel else MP_Pause) \<rparr>
           | MP_Cancel \<Rightarrow>
               jb\<lparr> mj_phase := (if mj_cancelled jb then MP_Say [cancelled_done req ms (mj_emitted jb)] else MP_Send) \<rparr>
           | _ \<Rightarrow> jb)
      | _ \<Rightarrow> jb)"

fun token_event :: "mock_env \<Rightarrow> backend_request \<Rightarrow> string \<Rightarrow> backend_event" where
  "token_event v (B_Generate req model session ms ps grammar tools par as) tok = BE_Token req tok (ladder v ps tok)"
| "token_event v _ tok = BE_Token 0 tok None"

fun req_of :: "backend_request \<Rightarrow> nat" where
  "req_of (B_Generate req _ _ _ _ _ _ _ _) = req"
| "req_of (B_GenerateMedia req _ _ _ _ _ _) = req"
| "req_of _ = 0"

fun is_generate :: "backend_request \<Rightarrow> bool" where
  "is_generate (B_Generate _ _ _ _ _ _ _ _ _) = True"
| "is_generate _ = False"

text \<open>One step of the thread of job \<open>j\<close>.\<close>

definition job_step :: "mock_env \<Rightarrow> nat \<Rightarrow> mock \<Rightarrow> mock" where
  "job_step v j s =
     (let jb = mk_jobs s ! j
      in case mj_phase jb of
           MP_Start \<Rightarrow> put_job j (start_job v (mk_models s) jb) s
         | MP_Send \<Rightarrow>
             (case mj_todo jb of
                [] \<Rightarrow> s
              | tok # rest \<Rightarrow>
                  put_job j (jb\<lparr> mj_phase := MP_Pause, mj_todo := rest, mj_emitted := Suc (mj_emitted jb) \<rparr>)
                    (mock_send (Some j) (token_event v (mj_asked jb) tok) s))
         | MP_Say [] \<Rightarrow>
             put_job j (jb\<lparr> mj_phase := (if is_generate (mj_asked jb) then MP_Clear_Paused else MP_Gone) \<rparr>) s
         | MP_Say (e # es) \<Rightarrow> put_job j (jb\<lparr> mj_phase := MP_Say es \<rparr>) (mock_send (Some j) e s)
         | MP_Clear_Paused \<Rightarrow>
             put_job j (jb\<lparr> mj_phase := MP_Clear_Cancelled \<rparr>) (s\<lparr> mk_paused := AList.delete (req_of (mj_asked jb)) (mk_paused s) \<rparr>)
         | MP_Clear_Cancelled \<Rightarrow>
             put_job j (jb\<lparr> mj_phase := MP_Gone \<rparr>) (s\<lparr> mk_cancelled := AList.delete (req_of (mj_asked jb)) (mk_cancelled s) \<rparr>)
         | MP_Gone \<Rightarrow> s
         | _ \<Rightarrow> put_job j (loop_job jb) s)"

inductive mock_step :: "mock_env \<Rightarrow> mock \<Rightarrow> mock \<Rightarrow> bool" for v where
  handles: "mock_step v s (snd (mock_handle v q s))"
| works: "j < length (mk_jobs s) \<Longrightarrow> mj_phase (mk_jobs s ! j) \<noteq> MP_Gone \<Longrightarrow> mock_step v s (job_step v j s)"

inductive_cases mock_stepE: "mock_step v s t"

subsection \<open>What a job says\<close>

definition job_out :: "nat \<Rightarrow> mock \<Rightarrow> backend_event list" where
  "job_out j s = map snd (filter (\<lambda>(who, _). who = Some j) (mk_out s))"

text \<open>The whole answer to a request, given the models loaded when it started and, if it was cut short, after how many tokens.\<close>

fun mock_answer :: "mock_env \<Rightarrow> (string \<times> nat) list \<Rightarrow> nat option \<Rightarrow> backend_request \<Rightarrow> backend_event list" where
  "mock_answer v models short (B_Generate req model session ms ps grammar tools par as) =
     (case generation_plan v models req model session ms ps grammar tools par as of
        Inl es \<Rightarrow> es
      | Inr toks \<Rightarrow>
          (case short of
             None \<Rightarrow> map (\<lambda>t. BE_Token req t (ladder v ps t)) toks @ [generated_done req ms ps as (length toks)]
           | Some n \<Rightarrow> map (\<lambda>t. BE_Token req t (ladder v ps t)) (take n toks) @ [cancelled_done req ms (min n (length toks))]))"
| "mock_answer v models short (B_GenerateMedia req model session kind prompt ps n) = media_events v models req model kind prompt ps n"
| "mock_answer v models short _ = []"

definition tokens_so_far :: "mock_env \<Rightarrow> mjob \<Rightarrow> string list \<Rightarrow> backend_event list" where
  "tokens_so_far v jb toks = map (token_event v (mj_asked jb)) (take (mj_emitted jb) toks)"

definition whole_answer :: "mock_env \<Rightarrow> mjob \<Rightarrow> backend_event list \<Rightarrow> bool" where
  "whole_answer v jb es \<longleftrightarrow> (\<exists>models short. es = mock_answer v models short (mj_asked jb) \<and> (short = None \<or> mj_cancelled jb))"

definition at_token :: "mock_env \<Rightarrow> mjob \<Rightarrow> backend_event list \<Rightarrow> bool" where
  "at_token v jb es \<longleftrightarrow>
     (\<exists>models toks req model session ms ps grammar tools par as.
        mj_asked jb = B_Generate req model session ms ps grammar tools par as
        \<and> generation_plan v models req model session ms ps grammar tools par as = Inr toks
        \<and> mj_emitted jb \<le> length toks \<and> mj_todo jb = drop (mj_emitted jb) toks \<and> es = tokens_so_far v jb toks)"

fun is_token :: "backend_event \<Rightarrow> bool" where
  "is_token (BE_Token _ _ _) = True"
| "is_token _ = False"

definition mjob_inv :: "mock_env \<Rightarrow> mjob \<Rightarrow> backend_event list \<Rightarrow> bool" where
  "mjob_inv v jb es \<longleftrightarrow>
     (is_generate (mj_asked jb) \<or> (\<exists>req model session kind prompt ps n. mj_asked jb = B_GenerateMedia req model session kind prompt ps n))
     \<and> (case mj_phase jb of
          MP_Start \<Rightarrow> es = [] \<and> mj_emitted jb = 0
        | MP_Pause \<Rightarrow> at_token v jb es
        | MP_Hold \<Rightarrow> at_token v jb es \<and> mj_todo jb \<noteq> []
        | MP_Cancel \<Rightarrow> at_token v jb es \<and> mj_todo jb \<noteq> []
        | MP_Send \<Rightarrow> at_token v jb es \<and> mj_todo jb \<noteq> []
        | MP_Say rest \<Rightarrow> whole_answer v jb (es @ rest) \<and> \<not> list_ex is_token rest
        | _ \<Rightarrow> whole_answer v jb es)"

definition mock_inv :: "mock_env \<Rightarrow> mock \<Rightarrow> bool" where
  "mock_inv v s \<longleftrightarrow>
     (\<forall>j < length (mk_jobs s). mjob_inv v (mk_jobs s ! j) (job_out j s))
     \<and> (\<forall>j. length (mk_jobs s) \<le> j \<longrightarrow> job_out j s = [])"

lemma job_out_send [simp]: "job_out j (mock_send who e s) = job_out j s @ (if who = Some j then [e] else [])"
  by (simp add: job_out_def mock_send_def)

lemma job_out_frame [simp]:
  "job_out j (put_job i jb s) = job_out j s"
  "job_out j (s\<lparr> mk_paused := p \<rparr>) = job_out j s"
  "job_out j (s\<lparr> mk_cancelled := p \<rparr>) = job_out j s"
  "job_out j (s\<lparr> mk_models := ms \<rparr>) = job_out j s"
  "job_out j (s\<lparr> mk_dropped := ds \<rparr>) = job_out j s"
  "job_out j (s\<lparr> mk_jobs := js \<rparr>) = job_out j s"
  "job_out j (set_flag g owner s) = job_out j s"
  by (simp_all add: job_out_def put_job_def set_flag_def split: option.split)

lemma put_job_jobs [simp]: "mk_jobs (put_job j jb s) = (mk_jobs s)[j := jb]"
  by (simp add: put_job_def)

lemma mock_send_jobs [simp]: "mk_jobs (mock_send who e s) = mk_jobs s"
  by (simp add: mock_send_def)

lemma set_flag_jobs:
  "mk_jobs (set_flag g owner s) = (case owner of None \<Rightarrow> mk_jobs s | Some j \<Rightarrow> (mk_jobs s)[j := g (mk_jobs s ! j)])"
  by (simp add: set_flag_def list_update_beyond split: option.split)

text \<open>The flags may change at any time without hurting what a job has said.\<close>

lemma mjob_inv_flags:
  "mjob_inv v jb es \<Longrightarrow> mjob_inv v (jb\<lparr> mj_paused := b \<rparr>) es"
  "mjob_inv v jb es \<Longrightarrow> mjob_inv v (jb\<lparr> mj_cancelled := True \<rparr>) es"
  by (auto simp: mjob_inv_def at_token_def whole_answer_def tokens_so_far_def split: mphase.splits)

lemma mock_inv_put:
  assumes "mock_inv v s" "j < length (mk_jobs s)" "mk_jobs t = (mk_jobs s)[j := jb]"
    and "\<And>i. i \<noteq> j \<Longrightarrow> job_out i t = job_out i s" and "mjob_inv v jb (job_out j t)"
  shows "mock_inv v t"
  using assms by (auto simp: mock_inv_def nth_list_update)

lemma mock_inv_new:
  assumes "mock_inv v s" "mk_jobs t = mk_jobs s @ [new_job q]" "\<And>i. job_out i t = job_out i s"
    and "is_generate q \<or> (\<exists>req model session kind prompt ps n. q = B_GenerateMedia req model session kind prompt ps n)"
  shows "mock_inv v t"
  using assms by (auto simp: mock_inv_def nth_append mjob_inv_def new_job_def less_Suc_eq)

lemma mock_inv_same:
  "mock_inv v s \<Longrightarrow> mk_jobs t = mk_jobs s \<Longrightarrow> (\<And>i. job_out i t = job_out i s) \<Longrightarrow> mock_inv v t"
  by (simp add: mock_inv_def)

lemma mock_inv_flag:
  assumes "mock_inv v s" "\<And>jb es. mjob_inv v jb es \<Longrightarrow> mjob_inv v (g jb) es"
  shows "mock_inv v (set_flag g owner s)"
proof (cases "\<exists>j. owner = Some j \<and> j < length (mk_jobs s)")
  case True
  then obtain j where "owner = Some j" "j < length (mk_jobs s)"
    by blast
  with assms show ?thesis
    by (intro mock_inv_put [OF assms(1)]) (auto simp: set_flag_jobs mock_inv_def)
next
  case False
  then show ?thesis
    using assms(1) by (auto simp: set_flag_def split: option.split)
qed

lemma mock_inv_handle:
  assumes "mock_inv v s"
  shows "mock_inv v (snd (mock_handle v q s))"
proof (cases q)
  case (B_Cancel r)
  then show ?thesis
    using mock_inv_flag [OF assms] mjob_inv_flags by simp
next
  case (B_Pause r)
  then show ?thesis
    using mock_inv_flag [OF assms] mjob_inv_flags by simp
next
  case (B_Resume r)
  then show ?thesis
    using mock_inv_flag [OF assms] mjob_inv_flags by simp
next
  case B_Generate
  then show ?thesis
    by (intro mock_inv_new [OF assms, of _ q]) (simp_all add: Let_def)
next
  case B_GenerateMedia
  then show ?thesis
    by (intro mock_inv_new [OF assms, of _ q]) simp_all
qed (auto simp: Let_def intro: mock_inv_same [OF assms])

lemma media_events_plain: "\<not> list_ex is_token (media_events v models req model kind prompt ps n)"
  by (auto simp: media_events_def Let_def not_loaded_def media_piece_def list_ex_iff split: media_kind.splits)

lemma plan_plain: "generation_plan v models req model session ms ps grammar tools par as = Inl es \<Longrightarrow> \<not> list_ex is_token es"
  by (auto simp: generation_plan_def not_loaded_def calling_events_def Let_def split: if_splits option.splits list.splits)

lemma start_job_ok:
  assumes "mjob_inv v jb es" "mj_phase jb = MP_Start"
  shows "mjob_inv v (start_job v models jb) es"
proof (cases "mj_asked jb")
  case (B_Generate req model session ms ps grammar tools par as)
  have es: "es = []" "mj_emitted jb = 0"
    using assms by (simp_all add: mjob_inv_def)
  show ?thesis
  proof (cases "generation_plan v models req model session ms ps grammar tools par as")
    case (Inl evs)
    have "whole_answer v (jb\<lparr> mj_phase := MP_Say evs \<rparr>) evs"
      unfolding whole_answer_def by (rule exI [of _ models], rule exI [of _ None]) (simp add: B_Generate Inl)
    then show ?thesis
      using plan_plain [OF Inl] by (simp add: start_job_def B_Generate Inl mjob_inv_def es)
  next
    case (Inr toks)
    then show ?thesis
      by (auto simp: start_job_def B_Generate mjob_inv_def es at_token_def tokens_so_far_def)
  qed
next
  case (B_GenerateMedia req model session kind prompt ps n)
  have "es = []"
    using assms by (simp add: mjob_inv_def)
  moreover have "whole_answer v (jb\<lparr> mj_phase := MP_Say (media_events v models req model kind prompt ps n) \<rparr>)
      (media_events v models req model kind prompt ps n)"
    unfolding whole_answer_def by (rule exI [of _ models], rule exI [of _ None]) (simp add: B_GenerateMedia)
  ultimately show ?thesis
    using media_events_plain by (simp add: start_job_def B_GenerateMedia mjob_inv_def)
qed (use assms in \<open>simp_all add: mjob_inv_def\<close>)

lemma token_event_generate:
  "token_event v (B_Generate req model session ms ps grammar tools par as) = (\<lambda>t. BE_Token req t (ladder v ps t))"
  by (rule ext) simp

lemma at_token_phase [simp]: "at_token v (jb\<lparr> mj_phase := p \<rparr>) es = at_token v jb es"
  by (simp add: at_token_def tokens_so_far_def)

lemma whole_answer_phase [simp]: "whole_answer v (jb\<lparr> mj_phase := p \<rparr>) es = whole_answer v jb es"
  by (simp add: whole_answer_def)

lemma at_token_finished:
  assumes "at_token v jb es" "mj_todo jb = []"
    and "mj_asked jb = B_Generate req model session ms ps grammar tools par as"
  shows "whole_answer v jb (es @ [generated_done req ms ps as (mj_emitted jb)])"
proof -
  obtain models toks where p: "generation_plan v models req model session ms ps grammar tools par as = Inr toks"
    and n: "mj_emitted jb = length toks" and es: "es = tokens_so_far v jb toks"
    using assms by (auto simp: at_token_def)
  show ?thesis
    unfolding whole_answer_def
    by (rule exI [of _ models], rule exI [of _ None]) (simp add: assms(3) p es n tokens_so_far_def token_event_generate)
qed

lemma at_token_cut:
  assumes "at_token v jb es" "mj_cancelled jb"
    and "mj_asked jb = B_Generate req model session ms ps grammar tools par as"
  shows "whole_answer v jb (es @ [cancelled_done req ms (mj_emitted jb)])"
proof -
  obtain models toks where p: "generation_plan v models req model session ms ps grammar tools par as = Inr toks"
    and n: "mj_emitted jb \<le> length toks" and es: "es = tokens_so_far v jb toks"
    using assms by (auto simp: at_token_def)
  show ?thesis
    unfolding whole_answer_def
    by (rule exI [of _ models], rule exI [of _ "Some (mj_emitted jb)"])
      (simp add: assms(2,3) p es n tokens_so_far_def token_event_generate min_absorb1)
qed

lemma loop_job_ok:
  assumes "mjob_inv v jb es" "mj_phase jb \<in> {MP_Pause, MP_Hold, MP_Cancel}"
  shows "mjob_inv v (loop_job jb) es"
proof -
  have tok: "at_token v jb es"
    using assms by (auto simp: mjob_inv_def)
  then obtain req model session ms ps grammar tools par as
    where q: "mj_asked jb = B_Generate req model session ms ps grammar tools par as"
    by (auto simp: at_token_def)
  show ?thesis
    using assms tok at_token_finished [OF tok _ q] at_token_cut [OF tok _ q]
    by (auto simp: loop_job_def q mjob_inv_def generated_done_def cancelled_done_def split: mphase.splits)
qed

lemma at_token_next:
  assumes "at_token v jb es" "mj_todo jb = tok # rest"
  shows "at_token v (jb\<lparr> mj_phase := MP_Pause, mj_todo := rest, mj_emitted := Suc (mj_emitted jb) \<rparr>)
    (es @ [token_event v (mj_asked jb) tok])"
proof -
  obtain models toks req model session ms ps grammar tools par as
    where q: "mj_asked jb = B_Generate req model session ms ps grammar tools par as"
      and p: "generation_plan v models req model session ms ps grammar tools par as = Inr toks"
      and d: "drop (mj_emitted jb) toks = tok # rest" and es: "es = tokens_so_far v jb toks"
    using assms by (auto simp: at_token_def)
  have n: "mj_emitted jb < length toks" and "toks ! mj_emitted jb = tok" and "rest = drop (Suc (mj_emitted jb)) toks"
    using d by (metis drop_all leI list.distinct(1), metis d nth_via_drop, metis d drop_Suc list.sel(3) tl_drop)
  then have t: "take (Suc (mj_emitted jb)) toks = take (mj_emitted jb) toks @ [tok]"
    by (simp add: take_Suc_conv_app_nth)
  show ?thesis
    unfolding at_token_def
    by (rule exI [of _ models], rule exI [of _ toks], rule exI [of _ req], rule exI [of _ model], rule exI [of _ session],
        rule exI [of _ ms], rule exI [of _ ps], rule exI [of _ grammar], rule exI [of _ tools], rule exI [of _ par],
        rule exI [of _ as])
      (use q p n \<open>rest = drop (Suc (mj_emitted jb)) toks\<close> in \<open>simp add: es tokens_so_far_def t Suc_le_eq\<close>)
qed

lemma mock_inv_works:
  assumes inv: "mock_inv v s" and j: "j < length (mk_jobs s)"
  shows "mock_inv v (job_step v j s)"
proof -
  define jb where "jb = mk_jobs s ! j"
  have ok: "mjob_inv v jb (job_out j s)"
    using inv j by (simp add: mock_inv_def jb_def)
  note put = mock_inv_put [OF inv j]
  show ?thesis
  proof (cases "mj_phase jb")
    case MP_Start
    then show ?thesis
      using start_job_ok [OF ok MP_Start, of "mk_models s"] by (intro put) (simp_all add: job_step_def flip: jb_def)
  next
    case MP_Send
    obtain tok rest where todo: "mj_todo jb = tok # rest"
      using ok MP_Send by (cases "mj_todo jb") (simp_all add: mjob_inv_def)
    have "at_token v jb (job_out j s)" and gen: "is_generate (mj_asked jb)"
      using ok MP_Send by (auto simp: mjob_inv_def at_token_def)
    from at_token_next [OF this(1) todo] show ?thesis
      by (intro put [of _ "jb\<lparr> mj_phase := MP_Pause, mj_todo := rest, mj_emitted := Suc (mj_emitted jb) \<rparr>"])
        (simp_all add: job_step_def MP_Send todo mjob_inv_def gen flip: jb_def)
  next
    case (MP_Say es)
    have gen: "is_generate (mj_asked jb) \<or> (\<exists>req model session kind prompt ps n. mj_asked jb = B_GenerateMedia req model session kind prompt ps n)"
      and said: "whole_answer v jb (job_out j s @ es) \<and> \<not> list_ex is_token es"
      using ok MP_Say by (simp_all add: mjob_inv_def)
    show ?thesis
    proof (cases es)
      case Nil
      with gen said show ?thesis
        by (intro put [of _ "jb\<lparr> mj_phase := (if is_generate (mj_asked jb) then MP_Clear_Paused else MP_Gone) \<rparr>"])
          (simp_all add: job_step_def MP_Say mjob_inv_def flip: jb_def)
    next
      case (Cons e rest)
      with gen said show ?thesis
        by (intro put [of _ "jb\<lparr> mj_phase := MP_Say rest \<rparr>"]) (simp_all add: job_step_def MP_Say mjob_inv_def flip: jb_def)
    qed
  next
    case MP_Clear_Paused
    with ok show ?thesis
      by (intro put [of _ "jb\<lparr> mj_phase := MP_Clear_Cancelled \<rparr>"]) (simp_all add: job_step_def mjob_inv_def flip: jb_def)
  next
    case MP_Clear_Cancelled
    with ok show ?thesis
      by (intro put [of _ "jb\<lparr> mj_phase := MP_Gone \<rparr>"]) (simp_all add: job_step_def mjob_inv_def flip: jb_def)
  next
    case MP_Gone
    then show ?thesis
      using inv by (simp add: job_step_def flip: jb_def)
  qed (use loop_job_ok [OF ok] in \<open>(intro put [of _ "loop_job jb"]; simp add: job_step_def flip: jb_def)\<close>)+
qed

interpretation mocking: invariant_system "\<lambda>s. s = mock_start" "mock_step v" "mock_inv v"
proof
  fix s t :: mock
  show "s = mock_start \<Longrightarrow> mock_inv v s"
    by (simp add: mock_inv_def mock_start_def job_out_def)
  show "mock_step v s t \<Longrightarrow> mock_inv v t" if "mock_inv v s"
    using that mock_inv_handle mock_inv_works by (auto elim!: mock_stepE)
qed

subsection \<open>Pausing\<close>

definition tokens_out :: "nat \<Rightarrow> mock \<Rightarrow> nat" where
  "tokens_out j s = length (filter is_token (job_out j s))"

text \<open>Whether the next thing a held job does can still be a token.\<close>

definition past_the_check :: "mjob \<Rightarrow> bool" where
  "past_the_check jb \<longleftrightarrow> mj_phase jb = MP_Send \<or> mj_phase jb = MP_Cancel \<and> \<not> mj_cancelled jb"

definition may_say :: "nat \<Rightarrow> mock \<Rightarrow> nat" where
  "may_say j s = tokens_out j s + (if past_the_check (mk_jobs s ! j) then 1 else 0)"

text \<open>A step during which job \<open>j\<close> is held.\<close>

inductive held_step :: "mock_env \<Rightarrow> nat \<Rightarrow> mock \<Rightarrow> mock \<Rightarrow> bool" for v j where
  "mock_step v s t \<Longrightarrow> j < length (mk_jobs s) \<Longrightarrow> mj_paused (mk_jobs s ! j) \<Longrightarrow> held_step v j s t"

lemma handle_job_out [simp]: "job_out j (snd (mock_handle v q s)) = job_out j s"
  by (cases q) (simp_all add: Let_def)

lemma handle_job:
  assumes "j < length (mk_jobs s)"
  shows "mj_phase (mk_jobs (snd (mock_handle v q s)) ! j) = mj_phase (mk_jobs s ! j)
    \<and> (mj_cancelled (mk_jobs s ! j) \<longrightarrow> mj_cancelled (mk_jobs (snd (mock_handle v q s)) ! j))"
  using assms by (cases q) (auto simp: Let_def set_flag_jobs nth_append nth_updated split: option.split)

lemma may_say_handle:
  assumes "j < length (mk_jobs s)"
  shows "may_say j (snd (mock_handle v q s)) \<le> may_say j s"
  using handle_job [OF assms, of v q] by (auto simp: may_say_def tokens_out_def past_the_check_def)

lemma other_job:
  assumes "i \<noteq> j"
  shows "mk_jobs (job_step v i s) ! j = mk_jobs s ! j" and "job_out j (job_step v i s) = job_out j s"
  using assms by (auto simp: job_step_def Let_def split: mphase.splits list.splits)

lemma start_job_phase: "mj_phase (start_job v models jb) \<notin> {MP_Send, MP_Cancel}"
  by (auto simp: start_job_def split: backend_request.splits sum.splits)

lemma loop_job_held:
  "mj_paused jb \<Longrightarrow> past_the_check (loop_job jb) \<Longrightarrow> past_the_check jb"
  by (auto simp: loop_job_def past_the_check_def split: backend_request.splits mphase.splits if_splits)

lemma may_say_works:
  assumes inv: "mock_inv v s" and j: "j < length (mk_jobs s)" and on_hold: "mj_paused (mk_jobs s ! j)"
  shows "may_say j (job_step v j s) \<le> may_say j s"
proof -
  define jb where "jb = mk_jobs s ! j"
  have ok: "mjob_inv v jb (job_out j s)"
    using inv j by (simp add: mock_inv_def jb_def)
  have held: "mj_paused jb"
    using on_hold by (simp add: jb_def)
  note unfold = may_say_def tokens_out_def job_step_def past_the_check_def
  show ?thesis
  proof (cases "mj_phase jb")
    case MP_Start
    then show ?thesis
      using start_job_phase [of v "mk_models s" jb] j by (simp add: unfold flip: jb_def)
  next
    case MP_Send
    then show ?thesis
      using ok j by (cases "mj_todo jb") (auto simp: unfold mjob_inv_def at_token_def simp flip: jb_def)
  next
    case (MP_Say es)
    then show ?thesis
      using ok j by (cases es) (auto simp: unfold mjob_inv_def simp flip: jb_def)
  qed (use loop_job_held [OF held] j in \<open>auto simp: unfold simp flip: jb_def\<close>)
qed

lemma held_steps_say:
  assumes "(held_step v j)\<^sup>*\<^sup>* s t" "mock_inv v s"
  shows "may_say j t \<le> may_say j s \<and> mock_inv v t"
  using assms
proof (induction rule: rtranclp_induct)
  case (step t u)
  then have inv: "mock_inv v t" and so_far: "may_say j t \<le> may_say j s"
    by simp_all
  have st: "mock_step v t u" "j < length (mk_jobs t)" "mj_paused (mk_jobs t ! j)"
    using step(2) by (auto elim: held_step.cases)
  have "may_say j u \<le> may_say j t"
    using st(1)
  proof (cases rule: mock_step.cases)
    case (handles q)
    then show ?thesis
      using may_say_handle [OF st(2)] by simp
  next
    case (works i)
    then show ?thesis
      using may_say_works [OF inv st(2,3)] other_job [of i j v t]
      by (cases "i = j") (simp_all add: may_say_def tokens_out_def)
  qed
  then show ?case
    using so_far mocking.step_inv [OF inv st(1)] by linarith
qed simp

lemma may_say_bounds: "tokens_out j s \<le> may_say j s" "may_say j s \<le> Suc (tokens_out j s)"
  by (simp_all add: may_say_def)

text \<open>
  A pause is honoured at the next token boundary: however the threads, the requests and other jobs
  interleave, from the moment the pause flag of a generation is set and as long as it stays set the generation
  writes at most one more token.
\<close>

theorem mock_honours_pause:
  assumes "(mock_step v)\<^sup>*\<^sup>* mock_start s" "(held_step v j)\<^sup>*\<^sup>* s t"
  shows "tokens_out j t \<le> Suc (tokens_out j s)"
proof -
  have "mock_inv v s"
    by (rule mocking.reachable_inv [OF refl assms(1)])
  from held_steps_say [OF assms(2) this] have "may_say j t \<le> may_say j s"
    by simp
  then show ?thesis
    using may_say_bounds [of j t] may_say_bounds [of j s] by linarith
qed

subsection \<open>Every job ends with its answer\<close>

lemma mock_tokens_length [simp]: "length (mock_tokens n reply) = n"
  by (simp add: mock_tokens_def)

lemma plan_length:
  "generation_plan v models req model session ms ps grammar tools par as = Inr toks \<Longrightarrow> length toks = limit_of ps"
  "generation_plan v models req model session ms ps grammar tools par as = Inl es \<Longrightarrow> length es \<le> 2"
  by (auto simp: generation_plan_def calling_events_def Let_def split: if_splits option.splits list.splits)

fun start_work :: "backend_request \<Rightarrow> nat" where
  "start_work (B_Generate _ _ _ _ ps _ _ _ _) = 5 * limit_of ps + 8"
| "start_work (B_GenerateMedia _ _ _ _ _ _ n) = max n 1 + 5"
| "start_work _ = 1"

text \<open>How many steps a job that is not held needs at most.\<close>

definition work_left :: "mjob \<Rightarrow> nat" where
  "work_left jb =
     (case mj_phase jb of
        MP_Start \<Rightarrow> start_work (mj_asked jb)
      | MP_Pause \<Rightarrow> 5 * length (mj_todo jb) + 7
      | MP_Hold \<Rightarrow> 5 * length (mj_todo jb) + (if mj_cancelled jb then 6 else 8)
      | MP_Cancel \<Rightarrow> 5 * length (mj_todo jb) + 5
      | MP_Send \<Rightarrow> 5 * length (mj_todo jb) + 4
      | MP_Say es \<Rightarrow> length es + 3
      | MP_Clear_Paused \<Rightarrow> 2
      | MP_Clear_Cancelled \<Rightarrow> 1
      | MP_Gone \<Rightarrow> 0)"

lemma media_events_length: "length (media_events v models req model kind prompt ps n) \<le> max n 1 + 1"
  by (simp add: media_events_def Let_def)

lemma start_job_work:
  assumes "is_generate (mj_asked jb) \<or> (\<exists>req model session kind prompt ps n. mj_asked jb = B_GenerateMedia req model session kind prompt ps n)"
  shows "work_left (start_job v models jb) < start_work (mj_asked jb)"
proof (cases "mj_asked jb")
  case (B_Generate req model session ms ps grammar tools par as)
  have "1 \<le> limit_of ps"
    by (simp add: limit_of_def)
  then show ?thesis
    by (auto simp: start_job_def B_Generate work_left_def split: sum.split dest!: plan_length)
next
  case (B_GenerateMedia req model session kind prompt ps n)
  then show ?thesis
    using media_events_length [of v models req model kind prompt ps n] by (simp add: start_job_def work_left_def)
qed (use assms in simp_all)

lemma loop_job_work:
  assumes "is_generate (mj_asked jb)" "mj_phase jb \<in> {MP_Pause, MP_Hold, MP_Cancel}"
    and "mj_paused jb \<longrightarrow> mj_cancelled jb"
  shows "work_left (loop_job jb) < work_left jb"
proof -
  obtain req model session ms ps grammar tools par as
    where q: "mj_asked jb = B_Generate req model session ms ps grammar tools par as"
    using assms(1) by (cases "mj_asked jb") simp_all
  show ?thesis
    using assms(2,3) by (auto simp: loop_job_def q work_left_def)
qed

lemma job_progress:
  assumes inv: "mock_inv v s" and j: "j < length (mk_jobs s)" and unheld: "mj_paused (mk_jobs s ! j) \<longrightarrow> mj_cancelled (mk_jobs s ! j)"
    and going: "mj_phase (mk_jobs s ! j) \<noteq> MP_Gone"
  shows "work_left (mk_jobs (job_step v j s) ! j) < work_left (mk_jobs s ! j)"
proof -
  define jb where "jb = mk_jobs s ! j"
  have ok: "mjob_inv v jb (job_out j s)" and un: "mj_paused jb \<longrightarrow> mj_cancelled jb" and go: "mj_phase jb \<noteq> MP_Gone"
    using inv j unheld going by (simp_all add: mock_inv_def jb_def)
  have gen: "is_generate (mj_asked jb)" if "mj_phase jb \<in> {MP_Pause, MP_Hold, MP_Cancel, MP_Send}"
    using ok that by (auto simp: mjob_inv_def at_token_def)
  show ?thesis
  proof (cases "mj_phase jb")
    case MP_Start
    then show ?thesis
      using start_job_work [of jb v "mk_models s"] ok j by (simp add: job_step_def mjob_inv_def work_left_def [of jb] flip: jb_def)
  next
    case MP_Send
    then show ?thesis
      using ok j by (cases "mj_todo jb") (auto simp: job_step_def mjob_inv_def work_left_def simp flip: jb_def)
  next
    case (MP_Say es)
    then show ?thesis
      using j by (cases es) (auto simp: job_step_def work_left_def simp flip: jb_def)
  qed (use loop_job_work [OF gen _ un] go j in \<open>simp_all add: job_step_def work_left_def [of jb] flip: jb_def\<close>,
       simp_all add: work_left_def)
qed

lemma at_token_begins:
  assumes "at_token v jb es"
  shows "\<exists>models rest. es @ rest = mock_answer v models None (mj_asked jb)"
proof -
  obtain models toks req model session ms ps grammar tools par as
    where q: "mj_asked jb = B_Generate req model session ms ps grammar tools par as"
      and p: "generation_plan v models req model session ms ps grammar tools par as = Inr toks"
      and es: "es = tokens_so_far v jb toks"
    using assms by (auto simp: at_token_def)
  have "es @ (map (token_event v (mj_asked jb)) (drop (mj_emitted jb) toks) @ [generated_done req ms ps as (length toks)])
      = mock_answer v models None (mj_asked jb)"
    by (simp add: es tokens_so_far_def q p token_event_generate flip: map_append append_assoc)
  then show ?thesis
    by blast
qed

lemma begins_an_answer:
  assumes "mjob_inv v jb es"
  shows "\<exists>models short rest. es @ rest = mock_answer v models short (mj_asked jb)"
proof (cases "mj_phase jb \<in> {MP_Pause, MP_Hold, MP_Cancel, MP_Send}")
  case True
  then have "at_token v jb es"
    using assms by (auto simp: mjob_inv_def)
  then show ?thesis
    using at_token_begins by blast
next
  case False
  then have "es = [] \<or> (\<exists>rest. whole_answer v jb (es @ rest))"
    using assms by (auto simp: mjob_inv_def intro: exI [of _ "[]"] split: mphase.splits)
  then show ?thesis
    by (auto simp: whole_answer_def)
qed

text \<open>
  Every generation is answered, completely and once. Over any interleaving of the threads and the requests, the
  events a job has written are a beginning of the one answer to its request: the refusal, the tool
  calls or the media, or exactly as many tokens as it was asked for, and then a single last event; the
  tokens are cut short only when the job was cancelled. A job that is gone has written all of its answer. A job
  that is not gone and not held can take a step, and every step of its own brings it nearer the end.
\<close>

theorem mock_answers_completely:
  assumes "(mock_step v)\<^sup>*\<^sup>* mock_start s" "j < length (mk_jobs s)"
  shows "(\<exists>models short rest. job_out j s @ rest = mock_answer v models short (mj_asked (mk_jobs s ! j)))
    \<and> (mj_phase (mk_jobs s ! j) = MP_Gone \<longrightarrow>
         (\<exists>models short. job_out j s = mock_answer v models short (mj_asked (mk_jobs s ! j))
            \<and> (short = None \<or> mj_cancelled (mk_jobs s ! j))))
    \<and> (mj_phase (mk_jobs s ! j) \<noteq> MP_Gone \<and> (mj_paused (mk_jobs s ! j) \<longrightarrow> mj_cancelled (mk_jobs s ! j)) \<longrightarrow>
         mock_step v s (job_step v j s) \<and> work_left (mk_jobs (job_step v j s) ! j) < work_left (mk_jobs s ! j))"
proof -
  have inv: "mock_inv v s"
    by (rule mocking.reachable_inv [OF refl assms(1)])
  define jb where "jb = mk_jobs s ! j"
  have ok: "mjob_inv v jb (job_out j s)"
    using inv assms(2) by (simp add: mock_inv_def jb_def)
  have "\<exists>models short rest. job_out j s @ rest = mock_answer v models short (mj_asked jb)"
    by (rule begins_an_answer [OF ok])
  moreover have "\<exists>models short. job_out j s = mock_answer v models short (mj_asked jb) \<and> (short = None \<or> mj_cancelled jb)"
    if "mj_phase jb = MP_Gone"
    using ok that by (auto simp: mjob_inv_def whole_answer_def)
  moreover have "mock_step v s (job_step v j s) \<and> work_left (mk_jobs (job_step v j s) ! j) < work_left jb"
    if "mj_phase jb \<noteq> MP_Gone \<and> (mj_paused jb \<longrightarrow> mj_cancelled jb)"
    using that job_progress [OF inv assms(2)] mock_step.works [OF assms(2)] by (simp add: jb_def)
  ultimately show ?thesis
    by (simp add: jb_def)
qed

subsection \<open>Concrete runs\<close>

fun mock_run :: "mock_env \<Rightarrow> (backend_request + nat) list \<Rightarrow> mock \<Rightarrow> mock" where
  "mock_run v [] s = s"
| "mock_run v (Inl q # rest) s = mock_run v rest (snd (mock_handle v q s))"
| "mock_run v (Inr j # rest) s =
     mock_run v rest (if j < length (mk_jobs s) \<and> mj_phase (mk_jobs s ! j) \<noteq> MP_Gone then job_step v j s else s)"

lemma mock_run_steps: "(mock_step v)\<^sup>*\<^sup>* s (mock_run v acts s)"
proof (induction acts arbitrary: s)
  case (Cons a acts)
  show ?case
  proof (cases a)
    case (Inl q)
    then show ?thesis
      using converse_rtranclp_into_rtranclp [OF mock_step.handles Cons.IH] by simp
  next
    case (Inr j)
    then show ?thesis
      using converse_rtranclp_into_rtranclp [OF mock_step.works Cons.IH, of j s] Cons.IH by simp
  qed
qed simp

definition plain_mock :: mock_env where
  "plain_mock = \<lparr> mv_exists = (\<lambda>_. True), mv_json = (\<lambda>_. ''{}''), mv_embed = (\<lambda>_. []), mv_wave = (\<lambda>_. []), mv_ladder = (\<lambda>_. 0) \<rparr>"

definition two_tokens :: backend_request where
  "two_tokens = B_Generate 7 ''m'' ''s1'' [] (default_params\<lparr> max_tokens := Some 2 \<rparr>) None None False []"

definition mock_sending :: mock where
  "mock_sending = mock_run plain_mock [Inl (B_Load ''m'' [] [] 0), Inl two_tokens, Inr 0, Inr 0, Inr 0, Inl (B_Pause 7)] mock_start"

lemma two_tokens_plan:
  "\<exists>a b. generation_plan plain_mock [(''m'', 4096)] 7 ''m'' ''s1'' [] (default_params\<lparr> max_tokens := Some 2 \<rparr>) None None False [] = Inr [a, b]"
proof -
  obtain toks where t: "generation_plan plain_mock [(''m'', 4096)] 7 ''m'' ''s1'' [] (default_params\<lparr> max_tokens := Some 2 \<rparr>)
      None None False [] = Inr toks"
    by (simp add: generation_plan_def)
  then have "length toks = 2"
    using plan_length(1) [OF t] by (simp add: limit_of_def)
  then show ?thesis
    using t by (auto simp: numeral_2_eq_2 length_Suc_conv)
qed

text \<open>The states of a run of that one request.\<close>

definition solo :: "mphase \<Rightarrow> string list \<Rightarrow> nat \<Rightarrow> bool \<Rightarrow> backend_event list \<Rightarrow> mock" where
  "solo p todo n on_hold es =
     \<lparr> mk_models = [(''m'', 4096)], mk_paused = [(7, 0)], mk_cancelled = [(7, 0)], mk_dropped = [],
       mk_jobs = [\<lparr> mj_asked = two_tokens, mj_phase = p, mj_todo = todo, mj_emitted = n, mj_paused = on_hold, mj_cancelled = False \<rparr>],
       mk_out = (None, BE_Loaded ''m'' KV_BYTES_PER_TOKEN 4096) # map (Pair (Some 0)) es \<rparr>"

lemma solo_job [simp]:
  "mk_jobs (solo p todo n on_hold es) = [\<lparr> mj_asked = two_tokens, mj_phase = p, mj_todo = todo, mj_emitted = n, mj_paused = on_hold,
     mj_cancelled = False \<rparr>]"
  "job_out 0 (solo p todo n on_hold es) = es"
  by (simp_all add: solo_def job_out_def comp_def)

lemma solo_begins:
  "snd (mock_handle plain_mock two_tokens (snd (mock_handle plain_mock (B_Load ''m'' [] [] 0) mock_start))) = solo MP_Start [] 0 False []"
  by (simp add: mock_start_def two_tokens_def solo_def mock_send_def new_job_def)

lemma solo_steps [simp]:
  "generation_plan plain_mock [(''m'', 4096)] 7 ''m'' ''s1'' [] (default_params\<lparr> max_tokens := Some 2 \<rparr>) None None False [] = Inr toks
   \<Longrightarrow> job_step plain_mock 0 (solo MP_Start [] 0 b es) = solo MP_Pause toks 0 b es"
  "job_step plain_mock 0 (solo MP_Pause (t # ts) n False es) = solo MP_Cancel (t # ts) n False es"
  "job_step plain_mock 0 (solo MP_Cancel (t # ts) n b es) = solo MP_Send (t # ts) n b es"
  "job_step plain_mock 0 (solo MP_Send (t # ts) n b es) = solo MP_Pause ts (Suc n) b (es @ [BE_Token 7 t None])"
  "job_step plain_mock 0 (solo MP_Pause [] n b es)
     = solo (MP_Say [generated_done 7 [] (default_params\<lparr> max_tokens := Some 2 \<rparr>) [] n]) [] n b es"
  "job_step plain_mock 0 (solo (MP_Say (e # rest)) ts n b es) = solo (MP_Say rest) ts n b (es @ [e])"
  "job_step plain_mock 0 (solo (MP_Say []) ts n b es) = solo MP_Clear_Paused ts n b es"
  by (simp_all add: solo_def job_step_def put_job_def start_job_def loop_job_def mock_send_def two_tokens_def ladder_def default_params_def)

lemma solo_paused [simp]: "snd (mock_handle plain_mock (B_Pause 7) (solo p ts n b es)) = solo p ts n True es"
  by (simp add: solo_def set_flag_def)

lemma solo_run_steps:
  "mock_run plain_mock (Inl q # acts) s = mock_run plain_mock acts (snd (mock_handle plain_mock q s))"
  "p \<noteq> MP_Gone \<Longrightarrow> mock_run plain_mock (Inr 0 # acts) (solo p ts n b es) = mock_run plain_mock acts (job_step plain_mock 0 (solo p ts n b es))"
  by simp_all

lemma solo_gone:
  "mock_run plain_mock [Inr 0, Inr 0] (solo MP_Clear_Paused ts n b es)
   = (solo MP_Gone ts n b es)\<lparr> mk_paused := [], mk_cancelled := [] \<rparr>"
  by (simp add: solo_def job_step_def put_job_def two_tokens_def)

theorem mock_honours_pause_witness:
  "mj_paused (mk_jobs mock_sending ! 0) \<and> tokens_out 0 mock_sending = 0
   \<and> tokens_out 0 (job_step plain_mock 0 mock_sending) = 1
   \<and> tokens_out 0 (job_step plain_mock 0 mock_sending) \<le> Suc (tokens_out 0 mock_sending)"
proof -
  obtain a b where plan: "generation_plan plain_mock [(''m'', 4096)] 7 ''m'' ''s1'' [] (default_params\<lparr> max_tokens := Some 2 \<rparr>)
      None None False [] = Inr [a, b]"
    using two_tokens_plan by blast
  have s: "mock_sending = solo MP_Send [a, b] 0 True []"
    by (simp add: mock_sending_def solo_run_steps solo_begins plan del: mock_run.simps(2,3) mock_handle.simps)
  have here: "mj_paused (mk_jobs mock_sending ! 0)" "tokens_out 0 mock_sending = 0" "0 < length (mk_jobs mock_sending)"
    "mj_phase (mk_jobs mock_sending ! 0) \<noteq> MP_Gone"
    and later: "tokens_out 0 (job_step plain_mock 0 mock_sending) = 1"
    by (simp_all add: s tokens_out_def)
  have "(mock_step plain_mock)\<^sup>*\<^sup>* mock_start mock_sending"
    unfolding mock_sending_def by (rule mock_run_steps)
  moreover have "held_step plain_mock 0 mock_sending (job_step plain_mock 0 mock_sending)"
    using here by (intro held_step.intros mock_step.works)
  ultimately show ?thesis
    using mock_honours_pause [of plain_mock mock_sending 0 "job_step plain_mock 0 mock_sending"] here later by blast
qed

definition mock_finished :: mock where
  "mock_finished =
     mock_run plain_mock
       ([Inl (B_Load ''m'' [] [] 0), Inl two_tokens] @ [Inr 0, Inr 0, Inr 0, Inr 0, Inr 0, Inr 0, Inr 0, Inr 0, Inr 0, Inr 0, Inr 0, Inr 0]) mock_start"

theorem mock_answers_completely_witness:
  "mj_phase (mk_jobs mock_finished ! 0) = MP_Gone \<and> tokens_out 0 mock_finished = 2
   \<and> (\<exists>models short. job_out 0 mock_finished = mock_answer plain_mock models short two_tokens \<and> short = None)"
proof -
  obtain a b where plan: "generation_plan plain_mock [(''m'', 4096)] 7 ''m'' ''s1'' [] (default_params\<lparr> max_tokens := Some 2 \<rparr>)
      None None False [] = Inr [a, b]"
    using two_tokens_plan by blast
  let ?e = "generated_done 7 [] (default_params\<lparr> max_tokens := Some 2 \<rparr>) [] (Suc (Suc 0))"
  have s: "mock_finished = (solo MP_Gone [] (Suc (Suc 0)) False [BE_Token 7 a None, BE_Token 7 b None, ?e])\<lparr> mk_paused := [], mk_cancelled := [] \<rparr>"
    unfolding mock_finished_def append_Cons append_Nil
    by (simp add: solo_run_steps solo_begins plan solo_gone del: mock_run.simps(2,3) mock_handle.simps)
  have here: "mj_phase (mk_jobs mock_finished ! 0) = MP_Gone" "tokens_out 0 mock_finished = 2" "0 < length (mk_jobs mock_finished)"
    "mj_asked (mk_jobs mock_finished ! 0) = two_tokens" "\<not> mj_cancelled (mk_jobs mock_finished ! 0)"
    by (simp_all add: s tokens_out_def generated_done_def)
  have "(mock_step plain_mock)\<^sup>*\<^sup>* mock_start mock_finished"
    unfolding mock_finished_def by (rule mock_run_steps)
  from mock_answers_completely [OF this here(3)] show ?thesis
    using here by auto
qed

text \<open>
  A table entry is removed by request, not by job: when a request number is used again while its first job is
  still being torn down, the tear-down takes the flags of the second job away and its pauses and cancels are lost.
\<close>

lemma reused_number_loses_pause:
  assumes "j < length (mk_jobs s)" "req_of (mj_asked (mk_jobs s ! j)) = req" "mj_phase (mk_jobs s ! j) = MP_Clear_Paused"
  shows "mk_jobs (snd (mock_handle v (B_Pause req) (job_step v j s))) = mk_jobs (job_step v j s)"
  using assms by (simp add: job_step_def put_job_def set_flag_jobs delete_conv')

subsection \<open>The instance of a schema\<close>

text \<open>An object instance has every required property the schema describes, and nothing the schema does not.\<close>

lemma sample_object_fields:
  assumes "jobj schema \<noteq> None" "jfield jarr ''enum'' schema = None" "jfield jstr ''type'' schema = Some ''object''"
    and "jfield jobj ''properties'' schema = Some kvs"
  shows "\<exists>out. sample_value schema = JObj out \<and> set (map fst out) \<subseteq> set (map fst kvs)
    \<and> (\<forall>k sub. (k, sub) \<in> set kvs \<longrightarrow> (required_of schema = [] \<or> k \<in> set (required_of schema)) \<longrightarrow> (k, sample_value sub) \<in> set out)"
  using assms by (subst sample_value.simps) (force simp: Let_def)

end
