(* ===== verification/Shim_Http.thy ===== *)
theory Shim_Http
  imports Dbus Audit_Log
begin

text \<open>
  The HTTP side of \<open>crates/ai-daemon-shim/src/main.rs\<close>: arguments and listeners, the table of
  clients and model names, who is on the other end of a connection, reading a request, writing a
  reply, and base64. A connection hands out its bytes as the \<open>reader\<close> of the framing does and takes
  as many bytes as the peer will still accept; a write that meets the end of that room fails.
\<close>

unbundle bit_operations_syntax

subsection \<open>Arguments and listeners\<close>

definition DEFAULT_PORT :: nat where "DEFAULT_PORT = 11434"
definition DEFAULT_CONFIG :: string where "DEFAULT_CONFIG = ''/etc/ai-daemon/shim.toml''"
definition DEFAULT_SOCKET :: string where "DEFAULT_SOCKET = ''/run/ai-daemon-shim/shim.sock''"
definition MAX_BODY :: nat where "MAX_BODY = 32 * 1024 * 1024"

record shim_args =
  sa_port :: nat
  sa_config :: string
  sa_socket :: string

definition default_args :: shim_args where
  "default_args = \<lparr> sa_port = DEFAULT_PORT, sa_config = DEFAULT_CONFIG, sa_socket = DEFAULT_SOCKET \<rparr>"

text \<open>\<open>Inl\<close> is the argument the program refuses, \<open>Inr None\<close> that it printed something and stopped.\<close>

fun parse_args :: "string list \<Rightarrow> shim_args \<Rightarrow> string + shim_args option" where
  "parse_args [] a = Inr (Some a)"
| "parse_args (arg # rest) a =
     (if arg = ''--port''
      then (case rest of
              [] \<Rightarrow> Inr (Some a)
            | v # rest' \<Rightarrow> parse_args rest' (a\<lparr> sa_port := unwrap_or (parse_uint 65536 v) (sa_port a) \<rparr>))
      else if arg = ''--config''
      then (case rest of [] \<Rightarrow> Inr (Some a) | v # rest' \<Rightarrow> parse_args rest' (a\<lparr> sa_config := v \<rparr>))
      else if arg = ''--socket''
      then (case rest of [] \<Rightarrow> Inr (Some a) | v # rest' \<Rightarrow> parse_args rest' (a\<lparr> sa_socket := v \<rparr>))
      else if arg = ''--version'' \<or> arg = ''-V'' \<or> arg = ''--help'' \<or> arg = ''-h'' then Inr None
      else Inl arg)"

text \<open>
  Which doors are open: TCP unless the port is zero, the socket unless its directory is missing;
  a door that cannot be opened, or none at all, ends the program.
\<close>

definition listeners :: "shim_args \<Rightarrow> (nat \<Rightarrow> string option) \<Rightarrow> string + bool \<Rightarrow> string + string list" where
  "listeners a tcp_error unix_bound =
     (case (if sa_port a = 0 then None else tcp_error (sa_port a)) of
        Some e \<Rightarrow> Inl (''cannot bind 127.0.0.1:'' @ show_nat (sa_port a) @ '': '' @ e)
      | None \<Rightarrow>
          let tcp = (if sa_port a = 0 then [] else [''127.0.0.1:'' @ show_nat (sa_port a)])
          in case unix_bound of
               Inl e \<Rightarrow> Inl (''cannot bind '' @ sa_socket a @ '': '' @ e)
             | Inr bound \<Rightarrow>
                 let all = tcp @ (if bound then [sa_socket a] else [])
                 in if all = [] then Inl ''nothing to listen on; --port 0 and no usable socket path'' else Inr all)"

fun group_id_lines :: "string \<Rightarrow> string list \<Rightarrow> nat option" where
  "group_id_lines name [] = None"
| "group_id_lines name (line # rest) =
     (case split_on (CHR '':'') line of
        [] \<Rightarrow> None
      | f # more_fields \<Rightarrow>
          if f = name then (case more_fields of _ # g # _ \<Rightarrow> parse_u32 g | _ \<Rightarrow> None)
          else group_id_lines name rest)"

definition group_id :: "files \<Rightarrow> string \<Rightarrow> nat option" where
  "group_id rd name =
     (case rd ''/etc/group'' of None \<Rightarrow> None | Some t \<Rightarrow> group_id_lines name (rust_lines t))"

text \<open>What is done to the socket's path, in order; \<open>parent\<close> is whether the parent is a directory, if there is one.\<close>

datatype sock_step = Sk_Remove | Sk_Bind | Sk_Mode nat | Sk_Chown nat

definition bind_unix :: "files \<Rightarrow> bool option \<Rightarrow> bool \<Rightarrow> string option \<Rightarrow> string option \<Rightarrow> bool
    \<Rightarrow> (string + bool) \<times> sock_step list" where
  "bind_unix rd parent there bind_error mode_error has_nul =
     (if parent \<noteq> Some True then (Inr False, [])
      else
        let rm = (if there then [Sk_Remove] else [])
        in case bind_error of
             Some e \<Rightarrow> (Inl e, rm)
           | None \<Rightarrow>
               (case mode_error of
                  Some e \<Rightarrow> (Inl e, rm @ [Sk_Bind])
                | None \<Rightarrow>
                    (case group_id rd ''ai'' of
                       None \<Rightarrow> (Inr True, rm @ [Sk_Bind, Sk_Mode 432])
                     | Some gid \<Rightarrow>
                         if has_nul then (Inl ''nul byte in path'', rm @ [Sk_Bind, Sk_Mode 432])
                         else (Inr True, rm @ [Sk_Bind, Sk_Mode 432, Sk_Chown gid]))))"

subsection \<open>Connections\<close>

datatype conn_kind = Tcp | Unix

record conn =
  cn_kind :: conn_kind
  cn_cred :: "(nat \<times> nat) option"
  cn_in :: reader
  cn_out :: string
  cn_room :: "nat option"

record peer =
  pe_pid :: nat
  pe_uid :: nat
  pe_client :: "string option"
  pe_attested :: bool

definition peer_cred :: "nat \<times> nat \<Rightarrow> (nat \<times> nat) option \<Rightarrow> peer" where
  "peer_cred self cred =
     (case cred of
        Some (pid, uid) \<Rightarrow>
          if pid = 0 then \<lparr> pe_pid = fst self, pe_uid = snd self, pe_client = None, pe_attested = False \<rparr>
          else \<lparr> pe_pid = pid, pe_uid = uid, pe_client = None, pe_attested = True \<rparr>
      | None \<Rightarrow> \<lparr> pe_pid = fst self, pe_uid = snd self, pe_client = None, pe_attested = False \<rparr>)"

definition conn_peer :: "nat \<times> nat \<Rightarrow> conn \<Rightarrow> peer" where
  "conn_peer self c =
     (case cn_kind c of
        Unix \<Rightarrow> peer_cred self (cn_cred c)
      | Tcp \<Rightarrow> \<lparr> pe_pid = fst self, pe_uid = snd self, pe_client = None, pe_attested = False \<rparr>)"

text \<open>\<open>write!\<close> and \<open>flush\<close>: what the peer has room for goes out, and running out of room is the error.\<close>

definition put :: "string \<Rightarrow> conn \<Rightarrow> (string + unit) \<times> conn" where
  "put s c =
     (case cn_room c of
        None \<Rightarrow> (Inr (), c\<lparr> cn_out := cn_out c @ s \<rparr>)
      | Some n \<Rightarrow>
          if length s \<le> n then (Inr (), c\<lparr> cn_out := cn_out c @ s, cn_room := Some (n - length s) \<rparr>)
          else (Inl ''Broken pipe'', c\<lparr> cn_out := cn_out c @ take n s, cn_room := Some 0 \<rparr>))"

subsection \<open>The table of clients and models\<close>

record shim_client =
  cl_name :: string
  cl_token :: string

record shim_model =
  mo_from :: string
  mo_to :: string

record shim_config =
  sc_require_token :: bool
  sc_clients :: "shim_client list"
  sc_models :: "shim_model list"

definition default_shim_config :: shim_config where
  "default_shim_config = \<lparr> sc_require_token = False, sc_clients = [], sc_models = [] \<rparr>"

definition load_shim_config :: "(string \<Rightarrow> shim_config option) \<Rightarrow> files \<Rightarrow> string \<Rightarrow> shim_config" where
  "load_shim_config toml rd path =
     (case rd path of
        None \<Rightarrow> default_shim_config
      | Some t \<Rightarrow>
          (case toml t of
             Some c \<Rightarrow> c
           | None \<Rightarrow> \<lparr> sc_require_token = True, sc_clients = [], sc_models = [] \<rparr>))"

definition model_for :: "shim_config \<Rightarrow> string \<Rightarrow> string" where
  "model_for c asked =
     (case List.find (\<lambda>e. mo_from e = asked) (sc_models c) of
        Some e \<Rightarrow> mo_to e
      | None \<Rightarrow> (case List.find (\<lambda>e. mo_from e = ''*'') (sc_models c) of Some e \<Rightarrow> mo_to e | None \<Rightarrow> asked))"

definition bytes_of :: "string \<Rightarrow> byte list" where
  "bytes_of s = map (\<lambda>c. of_nat (code c)) s"

definition constant_time_eq :: "byte list \<Rightarrow> byte list \<Rightarrow> bool" where
  "constant_time_eq a b =
     (length a = length b \<and> foldl (\<lambda>diff (x, y). diff OR (x XOR y)) 0 (zip a b) = 0)"

definition name_for :: "shim_config \<Rightarrow> string option \<Rightarrow> string option" where
  "name_for c tok =
     (case tok of
        None \<Rightarrow> None
      | Some t \<Rightarrow>
          foldl (\<lambda>found cl. if constant_time_eq (bytes_of (cl_token cl)) (bytes_of t) then Some (cl_name cl) else found)
            None (sc_clients c))"

subsection \<open>Reading a request\<close>

record http_request =
  hr_method :: string
  hr_path :: string
  hr_body :: "byte list"
  hr_token :: "string option"

definition text_of :: "byte list \<Rightarrow> string" where
  "text_of bs = map (\<lambda>b. char_of (unat b)) bs"

fun io_text :: "io_error \<Rightarrow> string" where
  "io_text UnexpectedEof = ''failed to fill whole buffer''"
| "io_text Interrupted = ''interrupted''"
| "io_text (Other e) = e"

text \<open>\<open>BufRead::read_line\<close>: up to and with a line feed, or up to the end of the stream.\<close>

function read_until_lf :: "byte list \<Rightarrow> reader \<Rightarrow> (io_error + byte list) \<times> reader" where
  "read_until_lf acc r =
     (case read 1 r of
        (Inr [], r') \<Rightarrow> (Inr acc, r')
      | (Inr (b # _), r') \<Rightarrow> if b = 10 then (Inr (acc @ [b]), r') else read_until_lf (acc @ [b]) r'
      | (Inl Interrupted, r') \<Rightarrow> read_until_lf acc r'
      | (Inl e, r') \<Rightarrow> (Inl e, r'))"
  by pat_completeness auto
termination
  by (relation "measure (\<lambda>(acc, r). reader_size r)") (auto dest: read_size_less)

declare read_until_lf.simps [simp del]

definition read_line :: "reader \<Rightarrow> (string + string) \<times> reader" where
  "read_line r =
     (case read_until_lf [] r of
        (Inl e, r') \<Rightarrow> (Inl (io_text e), r')
      | (Inr bs, r') \<Rightarrow>
          (if utf8_valid (text_of bs) then Inr (text_of bs) else Inl ''stream did not contain valid UTF-8'', r'))"

definition route_path :: "string \<Rightarrow> string" where
  "route_path target = (case split_on (CHR ''?'') target of p # _ \<Rightarrow> p | [] \<Rightarrow> target)"

definition eq_ignore_ascii_case :: "string \<Rightarrow> string \<Rightarrow> bool" where
  "eq_ignore_ascii_case a b \<longleftrightarrow> to_ascii_lowercase a = to_ascii_lowercase b"

definition bearer :: "string \<Rightarrow> string option" where
  "bearer v =
     map_option trim
       (case strip_prefix ''Bearer '' (trim v) of Some t \<Rightarrow> Some t | None \<Rightarrow> strip_prefix ''bearer '' (trim v))"

text \<open>What a header line does to the two things kept of the headers.\<close>

definition header_line :: "string \<Rightarrow> nat \<times> string option \<Rightarrow> nat \<times> string option" where
  "header_line line kept =
     (case split_once '':'' line of
        None \<Rightarrow> kept
      | Some (name, v) \<Rightarrow>
          let len = (if eq_ignore_ascii_case name ''content-length'' then unwrap_or (parse_u64 (trim v)) 0
                     else fst kept)
          in if eq_ignore_ascii_case name ''authorization'' then (len, bearer v)
             else if eq_ignore_ascii_case name ''x-api-key'' then (len, Some (trim v))
             else (len, snd kept))"

lemma read_until_lf_size:
  "read_until_lf acc r = (res, r') \<Longrightarrow> reader_size r' \<le> reader_size r"
proof (induction acc r rule: read_until_lf.induct)
  case (1 acc r)
  obtain got r1 where rd: "read 1 r = (got, r1)"
    by fastforce
  note step = 1(3)[unfolded read_until_lf.simps[of acc r] rd] and IH = 1(1,2)[OF rd[symmetric]]
  have "reader_size r1 \<le> reader_size r"
    by (rule read_shrinks[OF rd])
  moreover have "reader_size r' \<le> reader_size r1"
    using step IH by (auto split: sum.splits list.splits io_error.splits if_splits)
  ultimately show ?case
    by linarith
qed

lemma read_line_size: "read_line r = (Inr (c # cs), r') \<Longrightarrow> reader_size r' < reader_size r"
proof -
  assume line: "read_line r = (Inr (c # cs), r')"
  then obtain b bs where lf: "read_until_lf [] r = (Inr (b # bs), r')"
    by (auto simp: read_line_def text_of_def split: prod.splits sum.splits if_splits)
  obtain got r1 where rd: "read 1 r = (got, r1)"
    by fastforce
  have "got \<noteq> Inr []"
    using lf rd by (subst (asm) read_until_lf.simps) auto
  then have "reader_size r1 < reader_size r"
    using read_size_less[of got r1 1 r] rd by simp
  moreover have "reader_size r' \<le> reader_size r1"
    using lf rd by (subst (asm) read_until_lf.simps)
      (auto split: sum.splits list.splits io_error.splits if_splits dest: read_until_lf_size)
  ultimately show ?thesis
    by linarith
qed

text \<open>The header loop: to an empty line or the end of the stream.\<close>

function read_headers :: "nat \<times> string option \<Rightarrow> reader \<Rightarrow> (string + nat \<times> string option) \<times> reader" where
  "read_headers kept r =
     (case read_line r of
        (Inl e, r') \<Rightarrow> (Inl e, r')
      | (Inr [], r') \<Rightarrow> (Inr kept, r')
      | (Inr (x # xs), r') \<Rightarrow>
          if x # xs = [CHR 0x0D, CHR 0x0A] \<or> x # xs = [CHR 0x0A] then (Inr kept, r')
          else read_headers (header_line (x # xs) kept) r')"
  by pat_completeness auto
termination
  by (relation "measure (\<lambda>(kept, r). reader_size r)") (auto dest!: sym[of "(_, _)"] read_line_size)

declare read_headers.simps [simp del]

definition read_request :: "reader \<Rightarrow> (string + http_request) \<times> reader" where
  "read_request r =
     (case read_line r of
        (Inl e, r1) \<Rightarrow> (Inl e, r1)
      | (Inr line, r1) \<Rightarrow>
          let parts = split_whitespace line;
              meth = (case parts of m # _ \<Rightarrow> m | [] \<Rightarrow> []);
              path = route_path (case parts of _ # p # _ \<Rightarrow> p | _ \<Rightarrow> [])
          in case read_headers (0, None) r1 of
               (Inl e, r2) \<Rightarrow> (Inl e, r2)
             | (Inr (len, tok), r2) \<Rightarrow>
                 if MAX_BODY < len then (Inl (''body of '' @ show_nat len @ '' bytes is over the limit''), r2)
                 else
                   (case read_exact len [] r2 of
                      (Inl e, r3) \<Rightarrow> (Inl (io_text e), r3)
                    | (Inr body, r3) \<Rightarrow>
                        (Inr \<lparr> hr_method = meth, hr_path = path, hr_body = body, hr_token = tok \<rparr>, r3)))"

subsection \<open>Replies\<close>

definition reason :: "nat \<Rightarrow> string" where
  "reason status =
     (if status = 200 then ''OK'' else if status = 400 then ''Bad Request'' else if status = 403 then ''Forbidden''
      else if status = 404 then ''Not Found'' else if status = 429 then ''Too Many Requests'' else ''Error'')"

abbreviation CRLF :: string where "CRLF \<equiv> [CHR 0x0D, CHR 0x0A]"

definition reply_text :: "nat \<Rightarrow> string \<Rightarrow> string" where
  "reply_text status t =
     ''HTTP/1.1 '' @ show_nat status @ '' '' @ reason status @ CRLF @ ''Content-Type: application/json'' @ CRLF
     @ ''Content-Length: '' @ show_nat (length t) @ CRLF @ ''Connection: close'' @ CRLF @ CRLF @ t"

definition respond :: "(json \<Rightarrow> string) \<Rightarrow> nat \<Rightarrow> json \<Rightarrow> conn \<Rightarrow> (string + unit) \<times> conn" where
  "respond show_json status body c = put (reply_text status (show_json body)) c"

definition error_json :: "string \<Rightarrow> string \<Rightarrow> json" where
  "error_json kind msg = JObj [(''error'', JObj [(''type'', JStr kind), (''message'', JStr msg)])]"

definition anthropic_error :: "string \<Rightarrow> string \<Rightarrow> json" where
  "anthropic_error kind msg =
     JObj [(''type'', JStr ''error''), (''error'', JObj [(''type'', JStr kind), (''message'', JStr msg)])]"

subsection \<open>Base64 and data URLs\<close>

datatype sextet = Sextet nat | Stop_Here | Skip_It | Not_Base64

definition base64_value :: "char \<Rightarrow> sextet" where
  "base64_value c =
     (if is_ascii_upper c then Sextet (code c - 65)
      else if is_ascii_lower c then Sextet (code c - 97 + 26)
      else if is_ascii_digit c then Sextet (code c - 48 + 52)
      else if c = CHR ''+'' \<or> c = CHR ''-'' then Sextet 62
      else if c = CHR ''/'' \<or> c = CHR ''_'' then Sextet 63
      else if c = CHR ''='' then Stop_Here
      else if c = CHR 0x0A \<or> c = CHR 0x0D \<or> c = CHR '' '' \<or> c = CHR 0x09 then Skip_It
      else Not_Base64)"

fun base64_loop :: "string \<Rightarrow> 32 word \<Rightarrow> nat \<Rightarrow> byte list \<Rightarrow> string + byte list" where
  "base64_loop [] accumulator nbits out = Inr out"
| "base64_loop (b # rest) accumulator nbits out =
     (case base64_value b of
        Stop_Here \<Rightarrow> Inr out
      | Skip_It \<Rightarrow> base64_loop rest accumulator nbits out
      | Not_Base64 \<Rightarrow> Inl ''invalid base64 byte''
      | Sextet v \<Rightarrow>
          let acc' = push_bit 6 accumulator OR of_nat v
          in if 8 \<le> nbits + 6 then base64_loop rest acc' (nbits + 6 - 8) (out @ [ucast (drop_bit (nbits + 6 - 8) acc')])
             else base64_loop rest acc' (nbits + 6) out)"

definition base64_decode :: "string \<Rightarrow> string + byte list" where
  "base64_decode t = base64_loop t 0 0 []"

definition decode_data_url :: "string \<Rightarrow> string + byte list" where
  "decode_data_url url =
     (case strip_prefix ''data:'' url of
        None \<Rightarrow> Inl ''only data: URLs are accepted; this shim never fetches a remote URL''
      | Some rest \<Rightarrow>
          (case split_once '','' rest of
             None \<Rightarrow> Inl ''malformed data: URL''
           | Some (meta, payload) \<Rightarrow>
               if \<not> contains_str '';base64'' (case split_on (CHR '','') rest of m # _ \<Rightarrow> m | [] \<Rightarrow> [])
               then Inl ''only base64 data: URLs are accepted''
               else base64_decode payload))"

subsection \<open>Base64 is decoded exactly\<close>

text \<open>The encoding of RFC 4648, and what of a text its decoding depends on.\<close>

definition base64_char :: "nat \<Rightarrow> char" where
  "base64_char n =
     (if n < 26 then char_of (65 + n) else if n < 52 then char_of (71 + n)
      else if n < 62 then char_of (n - 4) else if n = 62 then CHR ''+'' else CHR ''/'')"

fun base64_encode :: "byte list \<Rightarrow> string" where
  "base64_encode [] = []"
| "base64_encode [a] = [base64_char (unat a div 4), base64_char (unat a mod 4 * 16), CHR ''='', CHR ''='']"
| "base64_encode [a, b] =
     [base64_char (unat a div 4), base64_char (unat a mod 4 * 16 + unat b div 16),
      base64_char (unat b mod 16 * 4), CHR ''='']"
| "base64_encode (a # b # c # rest) =
     [base64_char (unat a div 4), base64_char (unat a mod 4 * 16 + unat b div 16),
      base64_char (unat b mod 16 * 4 + unat c div 64), base64_char (unat c mod 64)] @ base64_encode rest"

definition url_to_plain :: "char \<Rightarrow> char" where
  "url_to_plain c = (if c = CHR ''-'' then CHR ''+'' else if c = CHR ''_'' then CHR ''/'' else c)"

definition base64_core :: "string \<Rightarrow> string" where
  "base64_core s =
     takeWhile (\<lambda>c. c \<noteq> CHR ''='')
       (map url_to_plain (filter (\<lambda>c. c \<notin> {CHR 0x0A, CHR 0x0D, CHR '' '', CHR 0x09}) s))"

lemma base64_value_char: "n < 64 \<Longrightarrow> base64_value (base64_char n) = Sextet n"
  by (auto simp: base64_value_def base64_char_def is_ascii_upper_def is_ascii_lower_def is_ascii_digit_def code_def)

lemma base64_value_plain: "base64_value (url_to_plain c) = base64_value c"
  by (auto simp: base64_value_def url_to_plain_def is_ascii_upper_def is_ascii_lower_def is_ascii_digit_def code_def)

lemma base64_value_stop: "base64_value c = Stop_Here \<longleftrightarrow> c = CHR ''=''"
  by (auto simp: base64_value_def is_ascii_upper_def is_ascii_lower_def is_ascii_digit_def code_def)

lemma base64_value_skip: "base64_value c = Skip_It \<longleftrightarrow> c \<in> {CHR 0x0A, CHR 0x0D, CHR '' '', CHR 0x09}"
  by (auto simp: base64_value_def is_ascii_upper_def is_ascii_lower_def is_ascii_digit_def code_def)

lemma base64_loop_core: "base64_loop s acc n out = base64_loop (base64_core s) acc n out"
proof (induction s acc n out rule: base64_loop.induct)
  case (2 b rest acc n out)
  consider "b \<in> {CHR 0x0A, CHR 0x0D, CHR '' '', CHR 0x09}" | "b = CHR ''=''"
    | "b \<notin> {CHR 0x0A, CHR 0x0D, CHR '' '', CHR 0x09}" "b \<noteq> CHR ''=''"
    by blast
  then show ?case
  proof cases
    case 1
    then have "base64_value b = Skip_It" "base64_core (b # rest) = base64_core rest"
      by (auto simp: base64_value_skip base64_core_def)
    then show ?thesis
      using 2 by simp
  next
    case 2
    then have "base64_value b = Stop_Here" "base64_core (b # rest) = []"
      by (simp_all add: base64_value_stop base64_core_def url_to_plain_def)
    then show ?thesis
      by simp
  next
    case 3
    then have core: "base64_core (b # rest) = url_to_plain b # base64_core rest"
      by (auto simp: base64_core_def url_to_plain_def)
    show ?thesis
      unfolding core using 2 3 base64_value_stop[of b] base64_value_skip[of b]
      by (simp add: base64_value_plain Let_def split: sextet.split)
  qed
qed (simp add: base64_core_def)

lemma small_bit: "v < 2 ^ k \<Longrightarrow> bit (v :: nat) n \<Longrightarrow> n < k"
proof (rule ccontr)
  assume "v < 2 ^ k" "bit v n" "\<not> n < k"
  then have "v < 2 ^ n"
    by (meson leI less_le_trans one_le_numeral power_increasing)
  then show False
    using \<open>bit v n\<close> by (simp add: bit_iff_odd)
qed

lemma sextet_unat:
  assumes "v < 64"
  shows "unat (push_bit 6 (a :: 32 word) OR of_nat v) = (unat a * 64 + v) mod 4294967296"
proof -
  have "push_bit 6 a AND of_nat v = 0"
    by (rule bit_word_eqI) (use assms in \<open>auto simp: bit_simps dest: small_bit[of v 6, simplified]\<close>)
  then have "push_bit 6 a OR of_nat v = push_bit 6 a + of_nat v"
    by (simp add: disjunctive_add_eq_or)
  also have "\<dots> = of_nat (unat a * 64 + v)"
    by (simp add: push_bit_eq_mult mult.commute)
  finally show ?thesis
    by (simp only: unat_of_nat) simp
qed

lemma byte_lt [simp]: "unat (b :: byte) < 256"
  using unsigned_less[of b] by simp

lemma unat_low_byte: "unat (ucast (drop_bit k x) :: byte) = unat (x :: 32 word) div 2 ^ k mod 256"
  unfolding unsigned_ucast_eq unat_drop_bit_eq by (simp add: take_bit_eq_mod drop_bit_eq_div)

text \<open>A byte never reaches back further than the last two sextets.\<close>

lemma last_two:
  fixes x :: "32 word"
  assumes "u < 64" "v < 64" "k \<le> 4"
  shows "unat (ucast (drop_bit k (push_bit 6 (push_bit 6 x OR of_nat u) OR of_nat v)) :: byte)
    = (u * 64 + v) div 2 ^ k mod 256"
proof -
  define y where "y = unat x * 4096 + (u * 64 + v)"
  have "unat (push_bit 6 (push_bit 6 x OR of_nat u) OR of_nat v) = (((unat x * 64 + u) mod 4294967296) * 64 + v) mod 4294967296"
    by (simp only: sextet_unat[OF assms(1)] sextet_unat[OF assms(2)])
  also have "\<dots> = ((unat x * 64 + u) * 64 + v) mod 4294967296"
    by (metis mod_add_left_eq mod_mult_left_eq)
  also have "(unat x * 64 + u) * 64 + v = y"
    by (simp add: y_def)
  finally have val: "unat (push_bit 6 (push_bit 6 x OR of_nat u) OR of_nat v) = y mod 4294967296" .
  have "(4294967296 :: nat) = 2 ^ k * 2 ^ (32 - k)"
    using assms(3) power_add[of "2 :: nat" k "32 - k"] by simp
  then have "y mod 4294967296 div 2 ^ k = y div 2 ^ k mod 2 ^ (32 - k)"
    by (simp only: mod_mult2_eq) simp
  moreover have "(256 :: nat) dvd 2 ^ (32 - k)"
    using le_imp_power_dvd[of 8 "32 - k" "2 :: nat"] assms(3) by simp
  ultimately have "y mod 4294967296 div 2 ^ k mod 256 = y div 2 ^ k mod 256"
    by (simp add: mod_mod_cancel)
  moreover have "y div 2 ^ k mod 256 = (u * 64 + v) div 2 ^ k mod 256"
  proof -
    have "(4096 :: nat) = 2 ^ k * (256 * 2 ^ (4 - k))"
      using assms(3) power_add[of "2 :: nat" k "4 - k"] by simp
    then have "y = 2 ^ k * (256 * (2 ^ (4 - k) * unat x)) + (u * 64 + v)"
      by (simp add: y_def)
    then have "y div 2 ^ k = 256 * (2 ^ (4 - k) * unat x) + (u * 64 + v) div 2 ^ k"
      by simp
    then show ?thesis
      by simp
  qed
  ultimately show ?thesis
    unfolding unat_low_byte val by simp
qed

lemma last_two_byte:
  fixes x :: "32 word" and b :: byte
  assumes "u < 64" "v < 64" "k \<le> 4" "u * 64 + v = z" "z div 2 ^ k mod 256 = unat b"
  shows "ucast (drop_bit k (push_bit 6 (push_bit 6 x OR of_nat u) OR of_nat v)) = b"
  unfolding word_unat_eq_iff last_two[OF assms(1-3)] assms(4,5) ..

lemma base64_step:
  "v < 64 \<Longrightarrow> base64_loop (base64_char v # rest) acc n out =
     (if 8 \<le> n + 6 then base64_loop rest (push_bit 6 acc OR of_nat v) (n + 6 - 8)
                         (out @ [ucast (drop_bit (n + 6 - 8) (push_bit 6 acc OR of_nat v))])
      else base64_loop rest (push_bit 6 acc OR of_nat v) (n + 6) out)"
  by (simp add: base64_value_char Let_def)

declare base64_loop.simps(2) [simp del]

lemma sextet_parts [simp]:
  fixes a b :: byte
  shows "unat a div 4 < 64" "unat a mod 4 * 16 + unat b div 16 < 64" "unat a mod 16 * 4 + unat b div 64 < 64"
    "unat a mod 4 * 16 < 64" "unat a mod 16 * 4 < 64"
proof -
  have "unat b div 16 < 16" "unat b div 64 < 4" "unat a mod 4 < 4" "unat a mod 16 < 16" "unat a div 4 < 64"
    using byte_lt[of a] byte_lt[of b] by (simp_all add: less_mult_imp_div_less)
  then show "unat a div 4 < 64" "unat a mod 4 * 16 + unat b div 16 < 64" "unat a mod 16 * 4 + unat b div 64 < 64"
    "unat a mod 4 * 16 < 64" "unat a mod 16 * 4 < 64"
    by linarith+
qed

lemma triple_bytes:
  fixes a b c :: byte and x :: "32 word"
  shows "w < 16 \<Longrightarrow> ucast (drop_bit 4 (push_bit 6 (push_bit 6 x OR of_nat (unat a div 4)) OR of_nat (unat a mod 4 * 16 + w))) = a"
    "p < 4 \<Longrightarrow> w < 4 \<Longrightarrow> ucast (drop_bit 2 (push_bit 6 (push_bit 6 x OR of_nat (p * 16 + unat b div 16)) OR of_nat (unat b mod 16 * 4 + w))) = b"
    "p < 16 \<Longrightarrow> ucast (drop_bit 0 (push_bit 6 (push_bit 6 x OR of_nat (p * 4 + unat c div 64)) OR of_nat (unat c mod 64))) = c"
proof -
  show "ucast (drop_bit 4 (push_bit 6 (push_bit 6 x OR of_nat (unat a div 4)) OR of_nat (unat a mod 4 * 16 + w))) = a"
    if "w < 16"
  proof -
    have sum: "unat a div 4 * 64 + (unat a mod 4 * 16 + w) = 16 * unat a + w"
      using div_mult_mod_eq[of "unat a" 4] by linarith
    have "unat a mod 4 * 16 + w < 64"
      using that mod_less_divisor[of 4 "unat a"] by linarith
    then show ?thesis
      using that by (intro last_two_byte[OF _ _ _ sum]) simp_all
  qed
  show "ucast (drop_bit 2 (push_bit 6 (push_bit 6 x OR of_nat (p * 16 + unat b div 16)) OR of_nat (unat b mod 16 * 4 + w))) = b"
    if "p < 4" "w < 4"
  proof -
    have "(p * 16 + q) * 64 + (r * 4 + w) = 4 * (256 * p + (q * 16 + r)) + w" for q r :: nat
      by (simp add: algebra_simps)
    from this[of "unat b div 16" "unat b mod 16"]
    have sum: "(p * 16 + unat b div 16) * 64 + (unat b mod 16 * 4 + w) = 4 * (256 * p + unat b) + w"
      by (simp only: div_mult_mod_eq)
    have "unat b mod 16 * 4 + w < 64" "p * 16 + unat b div 16 < 64"
      using that mod_less_divisor[of 16 "unat b"] less_mult_imp_div_less[of "unat b" 16 16] byte_lt[of b]
      by (linarith, simp)
    moreover have "(4 * z + w) div 2 ^ 2 = z" for z
      using \<open>w < 4\<close> by simp
    then have "(4 * (256 * p + unat b) + w) div 2 ^ 2 mod 256 = unat b"
      by (simp only:) simp
    ultimately show ?thesis
      by (intro last_two_byte[OF _ _ _ sum]) simp_all
  qed
  show "ucast (drop_bit 0 (push_bit 6 (push_bit 6 x OR of_nat (p * 4 + unat c div 64)) OR of_nat (unat c mod 64))) = c"
    if "p < 16"
  proof -
    have "(p * 4 + q) * 64 + r = 256 * p + (q * 64 + r)" for q r :: nat
      by (simp add: algebra_simps)
    from this[of "unat c div 64" "unat c mod 64"]
    have sum: "(p * 4 + unat c div 64) * 64 + unat c mod 64 = 256 * p + unat c"
      by (simp only: div_mult_mod_eq)
    have "unat c mod 64 < 64" "p * 4 + unat c div 64 < 64"
      using that less_mult_imp_div_less[of "unat c" 4 64] byte_lt[of c] by (simp, simp)
    then show ?thesis
      by (intro last_two_byte[OF _ _ _ sum]) simp_all
  qed
qed

lemma base64_char_plain:
  "n < 64 \<Longrightarrow> base64_char n \<notin> {CHR 0x0A, CHR 0x0D, CHR '' '', CHR 0x09, CHR ''='', CHR ''-'', CHR ''_''}"
proof -
  assume n: "n < 64"
  have "code (base64_char n) \<noteq> 45 \<and> code (base64_char n) \<noteq> 95"
    by (auto simp: base64_char_def code_def)
  then have "base64_char n \<noteq> CHR ''-''" "base64_char n \<noteq> CHR ''_''"
    by (auto simp: code_def)
  then show ?thesis
    using base64_value_char[OF n] base64_value_stop[of "base64_char n"] base64_value_skip[of "base64_char n"] by auto
qed

lemma base64_core_Cons: "n < 64 \<Longrightarrow> base64_core (base64_char n # s) = base64_char n # base64_core s"
  using base64_char_plain[of n] by (simp add: base64_core_def url_to_plain_def)

lemma base64_core_stop: "base64_core (CHR ''='' # s) = []"
  by (simp add: base64_core_def url_to_plain_def)

lemma base64_loop_encode:
  "base64_loop (base64_core (base64_encode bs)) acc 0 out = Inr (out @ bs)"
proof (induction bs arbitrary: acc out rule: base64_encode.induct)
  case 1
  then show ?case
    by (simp add: base64_core_def)
next
  case (2 a)
  show ?case
    using triple_bytes(1)[of 0 acc a]
    by (simp add: base64_core_Cons base64_core_stop base64_step del: push_bit_or push_bit_push_bit)
next
  case (3 a b)
  show ?case
    using triple_bytes(1)[of "unat b div 16" acc a] triple_bytes(2)[of "unat a mod 4" 0 _ b] less_mult_imp_div_less[of "unat b" 16 16]
    by (simp add: base64_core_Cons base64_core_stop base64_step del: push_bit_or push_bit_push_bit of_nat_add)
next
  case (4 a b c rest)
  then show ?case
    using triple_bytes(1)[of "unat b div 16" acc a] triple_bytes(2)[of "unat a mod 4" "unat c div 64" _ b]
      triple_bytes(3)[of "unat b mod 16" _ c] less_mult_imp_div_less[of "unat b" 16 16] less_mult_imp_div_less[of "unat c" 4 64]
    by (simp add: base64_core_Cons base64_core_stop base64_step del: push_bit_or push_bit_push_bit of_nat_add drop_bit_0)
qed

text \<open>
  Base64 is decoded exactly. Any text that is the encoding of some bytes, in the plain or the URL-safe
  alphabet, padded or not, and broken by white space anywhere, decodes to exactly those bytes.
\<close>

theorem base64_round_trip:
  assumes "base64_core s = base64_core (base64_encode bs)"
  shows "base64_decode s = Inr bs"
  using base64_loop_encode[of bs 0 "[]"] by (simp add: base64_decode_def base64_loop_core[of s] assms)

theorem base64_round_trip_witness: "base64_decode ''aGVs bG8'' = Inr [104, 101, 108, 108, 111]"
proof -
  have "base64_core ''aGVs bG8'' = base64_core (base64_encode [104, 101, 108, 108, 111])"
    by (simp add: base64_core_def base64_char_def url_to_plain_def char_of_def bit_Suc bit_0)
  then show ?thesis
    by (rule base64_round_trip)
qed

subsection \<open>Tokens\<close>

lemma unat_code [simp]: "unat (of_nat (code c) :: byte) = code c"
  by (simp add: code_def unat_of_nat take_bit_eq_mod)

lemma bytes_of_inj [simp]: "bytes_of a = bytes_of b \<longleftrightarrow> a = b"
proof -
  have "inj (\<lambda>c. of_nat (code c) :: byte)"
  proof (rule injI)
    fix c d assume "(of_nat (code c) :: byte) = of_nat (code d)"
    then show "c = d"
      by (metis unat_code code_inj)
  qed
  then show ?thesis
    by (simp add: bytes_of_def inj_map_eq_map)
qed

lemma xor_zero_iff: "(x :: byte) XOR y = 0 \<longleftrightarrow> x = y"
proof
  assume "x XOR y = 0"
  then have "(x XOR y) XOR y = 0 XOR y"
    by simp
  then show "x = y"
    by (simp add: xor.assoc)
qed simp

lemma or_zero_iff: "(d :: byte) OR e = 0 \<longleftrightarrow> d = 0 \<and> e = 0"
  by (simp add: or_eq_0_iff)

lemma fold_diff_zero:
  fixes d :: byte
  shows "length a = length b \<Longrightarrow> foldl (\<lambda>diff (x, y). diff OR (x XOR y)) d (zip a b) = 0 \<longleftrightarrow> d = 0 \<and> a = b"
  by (induction a b arbitrary: d rule: list_induct2) (simp_all add: or_zero_iff xor_zero_iff)

lemma constant_time_eq_iff [simp]: "constant_time_eq a b \<longleftrightarrow> a = b"
  using fold_diff_zero[of a b 0] by (auto simp: constant_time_eq_def)

lemma name_for_fold:
  "foldl (\<lambda>found cl. if cl_token cl = t then Some (cl_name cl) else found) start cls
   = (case List.find (\<lambda>cl. cl_token cl = t) (rev cls) of Some cl \<Rightarrow> Some (cl_name cl) | None \<Rightarrow> start)"
  by (induction cls rule: rev_induct) (auto split: option.splits)

text \<open>The last client of the table with the token presented.\<close>

lemma name_for_eq:
  "name_for c tok = Option.bind tok (\<lambda>t. map_option cl_name (List.find (\<lambda>cl. cl_token cl = t) (rev (sc_clients c))))"
  by (auto simp: name_for_def name_for_fold split: option.splits)

subsection \<open>A request is read back from its lines\<close>

abbreviation LF :: char where "LF \<equiv> CHR 0x0A"

lemma text_of_bytes_of [simp]: "text_of (bytes_of s) = s"
  by (induction s) (auto simp: text_of_def bytes_of_def code_def unat_of_nat take_bit_eq_mod)

lemma bytes_of_append [simp]: "bytes_of (a @ b) = bytes_of a @ bytes_of b"
  by (simp add: bytes_of_def)

lemma bytes_of_simps [simp]: "bytes_of [] = []" "bytes_of (c # s) = of_nat (code c) # bytes_of s"
  by (simp_all add: bytes_of_def)

lemma code_LF [simp]: "code LF = 10"
  by (simp add: code_def)

lemma bytes_of_lf: "bytes_of [LF] = [10]"
  by simp

lemma lf_in_bytes: "(10 :: byte) \<in> set (bytes_of s) \<longleftrightarrow> LF \<in> set s"
proof -
  have "(of_nat (code c) :: byte) = 10 \<longleftrightarrow> c = LF" for c
    using bytes_of_inj[of "[c]" "[LF]"] by simp
  then show ?thesis
    by (induction s) auto
qed

lemma read_until_lf_spec:
  assumes "healthy r" "pending r = l @ 10 # rest" "10 \<notin> set l"
  shows "\<exists>r'. read_until_lf acc r = (Inr (acc @ l @ [10]), r') \<and> healthy r' \<and> pending r' = rest"
  using assms
proof (induction acc r arbitrary: l rule: read_until_lf.induct)
  case (1 acc r)
  obtain got r1 where rd: "read 1 r = (got, r1)"
    by fastforce
  note h = read_healthy[OF 1(3) _ rd]
  show ?case
  proof (cases got)
    case (Inl e)
    then have "e = Interrupted" "pending r1 = l @ 10 # rest" "healthy r1"
      using h 1(4) by auto
    with 1(1)[OF rd[symmetric] Inl] 1(5) show ?thesis
      using rd Inl by (subst read_until_lf.simps) auto
  next
    case (Inr bs)
    then have b: "pending r = bs @ pending r1" "length bs \<le> 1" "bs \<noteq> []" "healthy r1"
      using h 1(4) by auto
    then obtain x where x: "bs = [x]"
      by (cases bs) auto
    show ?thesis
    proof (cases l)
      case Nil
      then have "x = 10" "pending r1 = rest"
        using b x 1(4) by auto
      then show ?thesis
        using rd Inr x Nil b by (subst read_until_lf.simps) auto
    next
      case (Cons y l')
      then have "x = y" "pending r1 = l' @ 10 # rest" "y \<noteq> 10" "10 \<notin> set l'"
        using b x 1(4,5) by auto
      with 1(2)[OF rd[symmetric] Inr x] b(4) show ?thesis
        using rd Inr x Cons by (subst read_until_lf.simps) auto
    qed
  qed
qed

lemma read_line_spec:
  assumes "healthy r" "pending r = bytes_of (l @ [LF]) @ rest" "LF \<notin> set l" "utf8_valid l"
  shows "\<exists>r'. read_line r = (Inr (l @ [LF]), r') \<and> healthy r' \<and> pending r' = rest"
proof -
  have p: "pending r = bytes_of l @ 10 # rest" "10 \<notin> set (bytes_of l)"
    using assms(2,3) by (simp_all add: bytes_of_lf lf_in_bytes)
  obtain r' where r': "read_until_lf [] r = (Inr ([] @ bytes_of l @ [10]), r')" "healthy r'" "pending r' = rest"
    using read_until_lf_spec[OF assms(1) p] by blast
  moreover have "text_of (bytes_of l @ [10]) = l @ [LF]"
    using text_of_bytes_of[of "l @ [LF]"] by (simp only: bytes_of_append bytes_of_lf)
  moreover have "utf8_valid (l @ [LF])"
    using assms(4) by (simp add: utf8_valid_append code_def)
  ultimately show ?thesis
    by (simp add: read_line_def)
qed

text \<open>A line that belongs to the headers: not the empty one.\<close>

definition header_text :: "string \<Rightarrow> bool" where
  "header_text l \<longleftrightarrow> LF \<notin> set l \<and> utf8_valid l \<and> l \<noteq> [] \<and> l \<noteq> [CHR 0x0D]"

definition kept_of :: "string list \<Rightarrow> nat \<times> string option" where
  "kept_of ls = foldl (\<lambda>kept l. header_line (l @ [LF]) kept) (0, None) ls"

lemma read_headers_spec:
  assumes "healthy r" "pending r = bytes_of (concat (map (\<lambda>l. l @ [LF]) ls) @ CRLF) @ rest" "list_all header_text ls"
  shows "\<exists>r'. read_headers kept r = (Inr (foldl (\<lambda>kept l. header_line (l @ [LF]) kept) kept ls), r')
    \<and> healthy r' \<and> pending r' = rest"
  using assms
proof (induction ls arbitrary: kept r)
  case Nil
  obtain r' where "read_line r = (Inr ([CHR 0x0D] @ [LF]), r')" "healthy r'" "pending r' = rest"
    using read_line_spec[of r "[CHR 0x0D]" rest] Nil by (auto simp: code_def)
  then show ?case
    by (subst read_headers.simps) simp
next
  case (Cons l ls)
  obtain r1 where r1: "read_line r = (Inr (l @ [LF]), r1)" "healthy r1"
    "pending r1 = bytes_of (concat (map (\<lambda>l. l @ [LF]) ls) @ CRLF) @ rest"
    using read_line_spec[of r l "bytes_of (concat (map (\<lambda>l. l @ [LF]) ls) @ CRLF) @ rest"] Cons(2-4)
    by (auto simp: header_text_def)
  obtain x xs where l: "l @ [LF] = x # xs" "x # xs \<noteq> CRLF" "x # xs \<noteq> [LF]"
    using Cons(4) by (cases l) (auto simp: header_text_def)
  then have "read_headers kept r = read_headers (header_line (l @ [LF]) kept) r1"
    using r1(1) by (subst read_headers.simps) auto
  then show ?case
    using Cons(1)[OF r1(2,3), of "header_line (l @ [LF]) kept"] Cons(4) by simp
qed

lemma route_path_takeWhile: "route_path t = takeWhile (\<lambda>c. c \<noteq> CHR ''?'') t"
  by (induction t) (auto simp: route_path_def split: list.splits)

lemma read_request_lines:
  assumes "healthy r"
    and "pending r = bytes_of (first @ [LF] @ concat (map (\<lambda>l. l @ [LF]) ls) @ CRLF) @ body @ rest"
    and "LF \<notin> set first" "utf8_valid first" "list_all header_text ls"
    and "fst (kept_of ls) = length body" "length body \<le> MAX_BODY"
  shows "\<exists>r'. read_request r = (Inr \<lparr> hr_method = (case split_whitespace (first @ [LF]) of m # _ \<Rightarrow> m | [] \<Rightarrow> []),
      hr_path = route_path (case split_whitespace (first @ [LF]) of _ # p # _ \<Rightarrow> p | _ \<Rightarrow> []),
      hr_body = body, hr_token = snd (kept_of ls) \<rparr>, r') \<and> healthy r' \<and> pending r' = rest"
proof -
  obtain r1 where r1: "read_line r = (Inr (first @ [LF]), r1)" "healthy r1"
    "pending r1 = bytes_of (concat (map (\<lambda>l. l @ [LF]) ls) @ CRLF) @ body @ rest"
    using read_line_spec[of r first] assms(1-4) by auto
  obtain r2 where r2: "read_headers (0, None) r1 = (Inr (kept_of ls), r2)" "healthy r2" "pending r2 = body @ rest"
    using read_headers_spec[OF r1(2,3) assms(5)] unfolding kept_of_def by blast
  obtain r3 where "read_exact (length body) [] r2 = (Inr body, r3)" "healthy r3" "pending r3 = rest"
    using read_exact_spec[OF r2(2), of "[]" "length body"] r2(3) by auto
  then show ?thesis
    using r1 r2 assms(6,7) by (cases "kept_of ls") (simp add: read_request_def Let_def)
qed

text \<open>
  A request is read back from its bytes, however they arrive. From any healthy delivery of a
  request line, header lines, the empty line and a body of the announced length within the limit,
  exactly the method, the target without its query, the body and the token of the last
  authenticating header are read, and nothing beyond the body is consumed.
\<close>

theorem request_read_back:
  assumes "healthy r"
    and "pending r = bytes_of (first @ [LF] @ concat (map (\<lambda>l. l @ [LF]) ls) @ CRLF) @ body @ rest"
    and "LF \<notin> set first" "utf8_valid first" "list_all header_text ls"
    and "split_whitespace (first @ [LF]) = meth # target # version"
    and "fst (kept_of ls) = length body" "length body \<le> MAX_BODY"
  shows "\<exists>r'. read_request r = (Inr \<lparr> hr_method = meth, hr_path = takeWhile (\<lambda>c. c \<noteq> CHR ''?'') target,
      hr_body = body, hr_token = snd (kept_of ls) \<rparr>, r') \<and> healthy r' \<and> pending r' = rest"
  using read_request_lines[OF assms(1-5,7,8)] by (simp add: assms(6) route_path_takeWhile)

theorem request_read_back_witness:
  "\<exists>r'. read_request [Data (bytes_of (''POST /v1/messages?beta=true HTTP/1.1'' @ CRLF)), Intr,
       Data (bytes_of (''x-api-key: k'' @ CRLF @ ''Content-Length: 2'' @ CRLF @ CRLF @ ''{}''))]
     = (Inr \<lparr> hr_method = ''POST'', hr_path = ''/v1/messages'', hr_body = bytes_of ''{}'', hr_token = Some ''k'' \<rparr>, r')"
proof -
  let ?ls = "[''x-api-key: k'' @ [CHR 0x0D], ''Content-Length: 2'' @ [CHR 0x0D]]"
  have "kept_of ?ls = (2, Some ''k'')"
    by (simp add: kept_of_def header_line_def split_once_def starts_with_def eq_ignore_ascii_case_def
        to_ascii_lowercase_def to_lower_def is_ascii_upper_def code_def trim_def trim_start_def trim_end_def is_space_def
        parse_uint_def is_ascii_digit_def digits_value_def upt_rec char_of_def bit_Suc bit_0)
  moreover have "list_all header_text ?ls"
    by (simp add: header_text_def code_def)
  moreover have "split_whitespace (''POST /v1/messages?beta=true HTTP/1.1'' @ [CHR 0x0D] @ [LF])
      = ''POST'' # ''/v1/messages?beta=true'' # [''HTTP/1.1'']"
    by (simp add: split_whitespace_def is_space_def code_def)
  ultimately show ?thesis
    using request_read_back[of "[Data (bytes_of (''POST /v1/messages?beta=true HTTP/1.1'' @ CRLF)), Intr,
       Data (bytes_of (''x-api-key: k'' @ CRLF @ ''Content-Length: 2'' @ CRLF @ CRLF @ ''{}''))]"
       "''POST /v1/messages?beta=true HTTP/1.1'' @ [CHR 0x0D]" ?ls "bytes_of ''{}''" "[]" "''POST''"
       "''/v1/messages?beta=true''" "[''HTTP/1.1'']"]
    by (auto simp: code_def MAX_BODY_def)
qed

end
