(* ===== verification/Shim_Api.thy ===== *)
theory Shim_Api
  imports Shim_Http Session
begin

text \<open>
  What \<open>crates/ai-daemon-shim/src/main.rs\<close> makes of the three dialects of HTTP requests it takes:
  the session it opens, the attachments and the prompt it sends there. The JSON library is an
  argument; a session's socket takes a number of frames and then fails; the daemon's answer to
  \<open>CreateSession\<close> is an argument. A closed session is one on which \<open>Close\<close> was called.
\<close>

subsection \<open>JSON values\<close>

record json_lib =
  jl_parse :: "byte list \<Rightarrow> string + json"
  jl_parse_str :: "string \<Rightarrow> json option"
  jl_show :: "json \<Rightarrow> string"
  jl_f32 :: "string \<Rightarrow> f32"
  jl_of_f32 :: "f32 \<Rightarrow> json"

fun jf32 :: "json_lib \<Rightarrow> json \<Rightarrow> f32 option" where "jf32 jl (JNum t) = Some (jl_f32 jl t)" | "jf32 jl _ = None"

definition as_u32_trunc :: "nat \<Rightarrow> nat" where
  "as_u32_trunc v = v mod U32"

definition jstrs :: "json list \<Rightarrow> string list" where
  "jstrs xs = List.map_filter jstr xs"

definition jtexts :: "json list \<Rightarrow> string list" where
  "jtexts xs = List.map_filter (jfield jstr ''text'') xs"

subsection \<open>A session's socket\<close>

datatype wire = W_Req request | W_Blob "byte list"

record sock =
  so_sent :: "wire list"
  so_room :: "nat option"

definition so_send :: "wire \<Rightarrow> sock \<Rightarrow> (string + unit) \<times> sock" where
  "so_send w s =
     (case so_room s of
        None \<Rightarrow> (Inr (), s\<lparr> so_sent := so_sent s @ [w] \<rparr>)
      | Some 0 \<Rightarrow> (Inl ''Broken pipe'', s)
      | Some (Suc n) \<Rightarrow> (Inr (), s\<lparr> so_sent := so_sent s @ [w], so_room := Some n \<rparr>))"

definition image_meta :: "string \<Rightarrow> attach_meta" where
  "image_meta media = \<lparr> am_w = None, am_h = None, am_fmt = None, am_rate = None, am_encoded = Some media \<rparr>"

definition send_image :: "nat \<Rightarrow> string \<Rightarrow> byte list \<Rightarrow> sock \<Rightarrow> (string + unit) \<times> sock" where
  "send_image n media bytes s =
     sbind (so_send (W_Req (Attach (''img'' @ show_nat n) Attach_Image (image_meta media) (length bytes))) s)
       (\<lambda>_. so_send (W_Blob bytes))"

text \<open>
  What a turn is read into while its content is walked: text, attachment names, and the number of
  images so far; and for the Messages API the tool results, which follow the turn.
\<close>

type_synonym turn_parts = "string \<times> string list \<times> message list"

definition no_parts :: turn_parts where "no_parts = ([], [], [])"

subsection \<open>Chat completions\<close>

text \<open>A refusal is answered and the session closed; a write that fails ends the request at once.\<close>

datatype halt = Halt_Io string | Halt_Refused string

definition lift_io :: "(string + 'a) \<times> 's \<Rightarrow> (halt + 'a) \<times> 's" where
  "lift_io m = (case m of (Inl e, s) \<Rightarrow> (Inl (Halt_Io e), s) | (Inr x, s) \<Rightarrow> (Inr x, s))"

definition chat_part :: "json \<Rightarrow> nat \<times> string \<times> string list \<Rightarrow> sock \<Rightarrow> (halt + nat \<times> string \<times> string list) \<times> sock" where
  "chat_part part acc s =
     (case acc of (n, text, atts) \<Rightarrow>
        if jfield jstr ''type'' part = Some ''text''
        then (Inr (n, text @ unwrap_or (jfield jstr ''text'' part) [], atts), s)
        else if jfield jstr ''type'' part = Some ''image_url''
        then
          (case decode_data_url (unwrap_or (Option.bind (jget ''image_url'' part) (jfield jstr ''url'')) []) of
             Inl e \<Rightarrow> (Inl (Halt_Refused e), s)
           | Inr bytes \<Rightarrow>
               sbind (lift_io (send_image (Suc n) ''image/png'' bytes s))
                 (\<lambda>_ s'. (Inr (Suc n, text, atts @ [''img'' @ show_nat (Suc n)]), s')))
        else (Inr (n, text, atts), s))"

definition chat_content :: "json option \<Rightarrow> nat \<Rightarrow> sock \<Rightarrow> (halt + nat \<times> string \<times> string list) \<times> sock" where
  "chat_content content n s =
     (case content of
        Some (JStr t) \<Rightarrow> (Inr (n, t, []), s)
      | Some (JArr parts) \<Rightarrow> sfold chat_part parts (n, [], []) s
      | _ \<Rightarrow> (Inr (n, [], []), s))"

definition chat_entry :: "json \<Rightarrow> nat \<times> message list \<Rightarrow> sock \<Rightarrow> (halt + nat \<times> message list) \<times> sock" where
  "chat_entry entry acc s =
     sbind (chat_content (jget ''content'' entry) (fst acc) s)
       (\<lambda>(n, text, atts) s'.
          (Inr (n, snd acc @ [\<lparr> msg_role = unwrap_or (jfield jstr ''role'' entry) ''user'', msg_content = text,
                                msg_attachments = atts, msg_tool_call_id = jfield jstr ''tool_call_id'' entry \<rparr>]), s'))"

definition chat_messages :: "json \<Rightarrow> sock \<Rightarrow> (halt + message list) \<times> sock" where
  "chat_messages body s =
     sbind (sfold chat_entry (unwrap_or (jfield jarr ''messages'' body) []) (0, []) s) (\<lambda>(n, ms) s'. (Inr ms, s'))"

definition object_schema :: json where
  "object_schema = JObj [(''type'', JStr ''object'')]"

definition chat_tool :: "json \<Rightarrow> tool_schema option" where
  "chat_tool entry =
     Option.bind (jget ''function'' entry) (\<lambda>f. Option.bind (jfield jstr ''name'' f) (\<lambda>name.
       Some \<lparr> tool_name = name, tool_description = unwrap_or (jfield jstr ''description'' f) [],
              tool_json_schema = unwrap_or (jget ''parameters'' f) object_schema \<rparr>))"

definition chat_tools :: "json \<Rightarrow> tool_schema list option" where
  "chat_tools body = map_option (List.map_filter chat_tool) (jfield jarr ''tools'' body)"

text \<open>A sorted map of token numbers: a later entry of the same number replaces an earlier one.\<close>

definition bias_of :: "json_lib \<Rightarrow> (string \<times> json) list \<Rightarrow> (nat \<times> f32) list" where
  "bias_of jl kvs =
     sort_key fst (foldl (\<lambda>m (tok, b). case (parse_u32 tok, jf32 jl b) of
                            (Some t, Some x) \<Rightarrow> AList.update t x m | _ \<Rightarrow> m) [] kvs)"

definition chat_params :: "json_lib \<Rightarrow> json \<Rightarrow> params" where
  "chat_params jl body =
     default_params\<lparr>
       temperature := jfield (jf32 jl) ''temperature'' body,
       top_p := jfield (jf32 jl) ''top_p'' body,
       seed := jfield ju64 ''seed'' body,
       max_tokens := map_option as_u32_trunc
         (Option.bind (case jget ''max_tokens'' body of Some v \<Rightarrow> Some v | None \<Rightarrow> jget ''max_completion_tokens'' body) ju64),
       stop := map_option jstrs (jfield jarr ''stop'' body),
       logit_bias := unwrap_or (map_option (bias_of jl) (jfield jobj ''logit_bias'' body)) [],
       logprobs := (case jfield ju64 ''top_logprobs'' body of
                      Some v \<Rightarrow> Some (as_u32_trunc v)
                    | None \<Rightarrow> (case jfield jbool ''logprobs'' body of Some True \<Rightarrow> Some 1 | _ \<Rightarrow> None)) \<rparr>"

subsection \<open>The Messages API\<close>

record api_turn =
  at_messages :: "message list"
  at_tools :: "tool_schema list option"
  at_params :: params
  at_stream :: bool
  at_model :: string

definition plain_message :: "string \<Rightarrow> string \<Rightarrow> message" where
  "plain_message role text = \<lparr> msg_role = role, msg_content = text, msg_attachments = [], msg_tool_call_id = None \<rparr>"

definition system_prompt :: "json \<Rightarrow> message list" where
  "system_prompt body =
     (case jget ''system'' body of
        Some (JStr t) \<Rightarrow> if t \<noteq> [] then [plain_message ''system'' t] else []
      | Some (JArr blocks) \<Rightarrow>
          let joined = join [LF] (jtexts blocks)
          in if joined \<noteq> [] then [plain_message ''system'' joined] else []
      | _ \<Rightarrow> [])"

definition image_source :: "json \<Rightarrow> string + string \<times> byte list" where
  "image_source part =
     rbind (ok_or (jget ''source'' part) ''image block has no source'') (\<lambda>source.
       (case jfield jstr ''type'' source of
          None \<Rightarrow> Inl ''image source has no type''
        | Some t \<Rightarrow>
            if t \<noteq> ''base64''
            then Inl (''image source '' @ t @ '' is not accepted; send base64. This shim never fetches a URL a prompt named.'')
            else
              rbind (ok_or (jfield jstr ''data'' source) ''image source has no data'') (\<lambda>dat.
                rbind (base64_decode dat) (\<lambda>bytes.
                  Inr (unwrap_or (jfield jstr ''media_type'' source) ''image/png'', bytes)))))"

definition result_message :: "json_lib \<Rightarrow> json \<Rightarrow> message" where
  "result_message jl part =
     \<lparr> msg_role = ''tool'',
       msg_content = (case jget ''content'' part of
                        Some (JStr t) \<Rightarrow> t
                      | Some (JArr blocks) \<Rightarrow> join [LF] (jtexts blocks)
                      | Some other \<Rightarrow> jl_show jl other
                      | None \<Rightarrow> []),
       msg_attachments = [], msg_tool_call_id = Some (unwrap_or (jfield jstr ''tool_use_id'' part) []) \<rparr>"

definition replayed_call :: "json_lib \<Rightarrow> json \<Rightarrow> string" where
  "replayed_call jl part =
     (let q = [CHR 0x22];
          i = unwrap_or (jfield jstr ''id'' part) [];
          name = unwrap_or (jfield jstr ''name'' part) [];
          input = jl_show jl (unwrap_or (jget ''input'' part) (JObj []))
      in ''{'' @ q @ ''tool_call'' @ q @ '':{'' @ q @ ''id'' @ q @ '':'' @ q @ i @ q @ '',''
         @ q @ ''name'' @ q @ '':'' @ q @ name @ q @ '','' @ q @ ''arguments'' @ q @ '':'' @ input @ ''}}'')"

definition message_part :: "json_lib \<Rightarrow> json \<Rightarrow> nat \<times> turn_parts \<Rightarrow> sock \<Rightarrow> (string + nat \<times> turn_parts) \<times> sock" where
  "message_part jl part acc s =
     (case acc of (n, text, atts, results) \<Rightarrow>
        if jfield jstr ''type'' part = Some ''text''
        then (Inr (n, text @ unwrap_or (jfield jstr ''text'' part) [], atts, results), s)
        else if jfield jstr ''type'' part = Some ''image''
        then
          (case image_source part of
             Inl e \<Rightarrow> (Inl e, s)
           | Inr (media, bytes) \<Rightarrow>
               sbind (send_image (Suc n) media bytes s)
                 (\<lambda>_ s'. (Inr (Suc n, text, atts @ [''img'' @ show_nat (Suc n)], results), s')))
        else if jfield jstr ''type'' part = Some ''tool_result''
        then (Inr (n, text, atts, results @ [result_message jl part]), s)
        else if jfield jstr ''type'' part = Some ''tool_use''
        then (Inr (n, (if text \<noteq> [] then text @ [LF] else text) @ replayed_call jl part, atts, results), s)
        else (Inr acc, s))"

definition message_content :: "json_lib \<Rightarrow> json option \<Rightarrow> nat \<Rightarrow> sock \<Rightarrow> (string + nat \<times> turn_parts) \<times> sock" where
  "message_content jl content n s =
     (case content of
        Some (JStr t) \<Rightarrow> (Inr (n, t, [], []), s)
      | Some (JArr parts) \<Rightarrow> sfold (message_part jl) parts (n, no_parts) s
      | _ \<Rightarrow> (Inr (n, no_parts), s))"

definition message_entry :: "json_lib \<Rightarrow> json \<Rightarrow> nat \<times> message list \<Rightarrow> sock \<Rightarrow> (string + nat \<times> message list) \<times> sock" where
  "message_entry jl entry acc s =
     sbind (message_content jl (jget ''content'' entry) (fst acc) s)
       (\<lambda>(n, text, atts, results) s'.
          (Inr (n, snd acc
             @ (if text \<noteq> [] \<or> atts \<noteq> []
                then [\<lparr> msg_role = unwrap_or (jfield jstr ''role'' entry) ''user'', msg_content = text,
                        msg_attachments = atts, msg_tool_call_id = None \<rparr>] else [])
             @ results), s'))"

definition message_tool :: "json \<Rightarrow> tool_schema option" where
  "message_tool entry =
     Option.bind (jfield jstr ''name'' entry) (\<lambda>name.
       Some \<lparr> tool_name = name, tool_description = unwrap_or (jfield jstr ''description'' entry) [],
              tool_json_schema = unwrap_or (jget ''input_schema'' entry) object_schema \<rparr>)"

definition message_params :: "json_lib \<Rightarrow> json \<Rightarrow> nat \<Rightarrow> params" where
  "message_params jl body limit =
     default_params\<lparr>
       temperature := jfield (jf32 jl) ''temperature'' body,
       top_p := jfield (jf32 jl) ''top_p'' body,
       top_k := map_option as_u32_trunc (jfield ju64 ''top_k'' body),
       max_tokens := Some limit,
       stop := map_option jstrs (jfield jarr ''stop_sequences'' body) \<rparr>"

definition parse_messages_body :: "json_lib \<Rightarrow> json \<Rightarrow> sock \<Rightarrow> (string + api_turn) \<times> sock" where
  "parse_messages_body jl body s =
     (case jfield ju64 ''max_tokens'' body of
        None \<Rightarrow> (Inl ''max_tokens is required'', s)
      | Some limit \<Rightarrow>
          sbind (sfold (message_entry jl) (unwrap_or (jfield jarr ''messages'' body) []) (0, system_prompt body) s)
            (\<lambda>(n, ms) s'.
               (Inr \<lparr> at_messages = ms, at_tools = map_option (List.map_filter message_tool) (jfield jarr ''tools'' body),
                      at_params = message_params jl body (as_u32_trunc limit),
                      at_stream = unwrap_or (jfield jbool ''stream'' body) False,
                      at_model = unwrap_or (jfield jstr ''model'' body) ''default'' \<rparr>, s')))"

subsection \<open>The Responses API\<close>

definition responses_text :: "json option \<Rightarrow> string" where
  "responses_text content =
     (case content of
        Some (JStr t) \<Rightarrow> t
      | Some (JArr parts) \<Rightarrow>
          concat (map (\<lambda>part.
            if (case jfield jstr ''type'' part of
                  Some t \<Rightarrow> t = ''input_text'' \<or> t = ''output_text'' \<or> t = ''text'' | None \<Rightarrow> True)
            then unwrap_or (jfield jstr ''text'' part) [] else []) parts)
      | _ \<Rightarrow> [])"

definition responses_item :: "json_lib \<Rightarrow> json \<Rightarrow> message" where
  "responses_item jl item =
     (if jfield jstr ''type'' item = Some ''function_call_output''
      then \<lparr> msg_role = ''tool'',
             msg_content = (case jget ''output'' item of Some (JStr t) \<Rightarrow> t | Some other \<Rightarrow> jl_show jl other | None \<Rightarrow> []),
             msg_attachments = [], msg_tool_call_id = jfield jstr ''call_id'' item \<rparr>
      else if jfield jstr ''type'' item = Some ''function_call''
      then plain_message ''assistant''
             (unwrap_or (jfield jstr ''name'' item) [] @ ''('' @ unwrap_or (jfield jstr ''arguments'' item) [] @ '')'')
      else plain_message (unwrap_or (jfield jstr ''role'' item) ''user'') (responses_text (jget ''content'' item)))"

definition responses_tool :: "json \<Rightarrow> tool_schema" where
  "responses_tool t =
     \<lparr> tool_name = unwrap_or (jfield jstr ''name'' t) [], tool_description = unwrap_or (jfield jstr ''description'' t) [],
       tool_json_schema = unwrap_or (jget ''parameters'' t) JNull \<rparr>"

definition responses_tools :: "json \<Rightarrow> tool_schema list option" where
  "responses_tools body =
     (case jfield jarr ''tools'' body of
        None \<Rightarrow> None
      | Some list \<Rightarrow>
          let ts = map responses_tool (filter (\<lambda>t. case jfield jstr ''type'' t of Some k \<Rightarrow> k = ''function'' | None \<Rightarrow> True) list)
          in if ts = [] then None else Some ts)"

definition parse_responses_body :: "json_lib \<Rightarrow> json \<Rightarrow> string + api_turn" where
  "parse_responses_body jl body =
     (let instructions = (case jfield jstr ''instructions'' body of
                            Some t \<Rightarrow> if t \<noteq> [] then [plain_message ''system'' t] else [] | None \<Rightarrow> [])
      in rbind (case jget ''input'' body of
                  Some (JStr t) \<Rightarrow> Inr (instructions @ [plain_message ''user'' t])
                | Some (JArr items) \<Rightarrow> Inr (instructions @ map (responses_item jl) items)
                | _ \<Rightarrow> Inl ''input is required'')
           (\<lambda>ms. if list_all (\<lambda>m. msg_role m = ''system'') ms then Inl ''input contained no user or tool message''
                 else Inr \<lparr> at_messages = ms, at_tools = responses_tools body,
                            at_params = default_params\<lparr>
                              temperature := jfield (jf32 jl) ''temperature'' body,
                              top_p := jfield (jf32 jl) ''top_p'' body,
                              max_tokens := map_option as_u32_trunc (jfield ju64 ''max_output_tokens'' body) \<rparr>,
                            at_stream = unwrap_or (jfield jbool ''stream'' body) False,
                            at_model = unwrap_or (jfield jstr ''model'' body) ''default'' \<rparr>))"

end
