(* ===== verification/Shim_Relay.thy ===== *)
theory Shim_Relay
  imports Shim_Api
begin

text \<open>
  How \<open>crates/ai-daemon-shim/src/main.rs\<close> relays what the daemon answers: six relays, for the three
  dialects, streamed or in one piece. What the loop reads is a list, each event (or end of stream,
  or error) with the answer of the poll before it whether the client has hung up.
\<close>

type_synonym heard = "string + event option"
type_synonym feed = "(bool \<times> heard) list"

subsection \<open>Reading events\<close>

definition read_event :: "(byte list \<Rightarrow> string + 'v) \<Rightarrow> ('v \<Rightarrow> string + event) \<Rightarrow> reader \<Rightarrow> heard \<times> reader" where
  "read_event dec de r =
     (case read_frame dec r of
        (Inr None, r') \<Rightarrow> (Inr None, r')
      | (Inr (Some (Blob _)), r') \<Rightarrow> (Inl ''the daemon sent a BLOB where an event was expected'', r')
      | (Inr (Some (Cbor v)), r') \<Rightarrow>
          ((case de v of Inr ev \<Rightarrow> Inr (Some ev) | Inl e \<Rightarrow> Inl (''unrecognised event: '' @ e)), r')
      | (Inl e, r') \<Rightarrow> (Inl (''session socket: '' @ io_text e), r'))"

lemma read_event_size: "read_event dec de r = (Inr (Some ev), r') \<Longrightarrow> reader_size r' < reader_size r"
  by (auto simp: read_event_def split: prod.splits sum.splits option.splits frame.splits dest: read_frame_size)

text \<open>Everything a reader's events come to, up to the end or the first error.\<close>

function read_events :: "(byte list \<Rightarrow> string + 'v) \<Rightarrow> ('v \<Rightarrow> string + event) \<Rightarrow> reader \<Rightarrow> heard list" where
  "read_events dec de r =
     (case read_event dec de r of
        (Inr (Some ev), r') \<Rightarrow> Inr (Some ev) # read_events dec de r'
      | (h, r') \<Rightarrow> [h])"
  by pat_completeness auto
termination
  by (relation "measure (\<lambda>(dec, de, r). reader_size r)") (auto dest: read_event_size[OF sym])

declare read_events.simps [simp del]

subsection \<open>Shared shapes\<close>

definition jnum :: "nat \<Rightarrow> json" where "jnum n = JNum (show_nat n)"

definition SSE_HEAD :: string where
  "SSE_HEAD = ''HTTP/1.1 200 OK'' @ CRLF @ ''Content-Type: text/event-stream'' @ CRLF @ ''Cache-Control: no-cache'' @ CRLF
     @ ''Connection: close'' @ CRLF @ CRLF"

definition data_text :: "json_lib \<Rightarrow> json \<Rightarrow> string" where
  "data_text jl d = ''data: '' @ jl_show jl d @ [LF, LF]"

definition DONE_TEXT :: string where "DONE_TEXT = ''data: [DONE]'' @ [LF, LF]"

definition event_text :: "json_lib \<Rightarrow> string \<Rightarrow> json \<Rightarrow> string" where
  "event_text jl ev d = ''event: '' @ ev @ [LF] @ data_text jl d"

definition notice_text :: "string \<Rightarrow> string \<Rightarrow> string" where
  "notice_text ev detail = '': '' @ ev @ '' '' @ detail @ [LF, LF]"

definition openai_usage :: "usage_counts \<Rightarrow> json" where
  "openai_usage u =
     JObj [(''prompt_tokens'', jnum (prompt_tokens u)), (''completion_tokens'', jnum (completion_tokens u)),
           (''total_tokens'', jnum (u64_add (prompt_tokens u) (completion_tokens u)))]"

definition status_of :: "string \<Rightarrow> nat" where
  "status_of c = (if c = ''policy-denied'' then 403 else if c = ''rate-limited'' then 429 else 400)"

text \<open>Between events: a client that has gone is noticed once, and the daemon told.\<close>

definition notice_hangup :: "bool \<Rightarrow> bool \<Rightarrow> sock \<Rightarrow> bool \<times> sock" where
  "notice_hangup hung abandoned s =
     (if \<not> abandoned \<and> hung then (True, snd (so_send (W_Req Cancel) s)) else (abandoned, s))"

definition respond_on :: "json_lib \<Rightarrow> nat \<Rightarrow> json \<Rightarrow> conn \<times> sock \<Rightarrow> (string + unit) \<times> conn \<times> sock" where
  "respond_on jl status body cs =
     (case respond (jl_show jl) status body (fst cs) of (r, c') \<Rightarrow> (r, c', snd cs))"

subsection \<open>Chat completions\<close>

definition chat_chunk :: "string \<Rightarrow> string \<Rightarrow> json \<Rightarrow> json \<Rightarrow> (string \<times> json) list" where
  "chat_chunk i model delta finish =
     [(''id'', JStr i), (''object'', JStr ''chat.completion.chunk''), (''model'', JStr model),
      (''choices'', JArr [JObj [(''index'', jnum 0), (''delta'', delta), (''finish_reason'', finish)]])]"

definition chat_call :: "tool_call \<Rightarrow> (string \<times> json) list" where
  "chat_call call =
     [(''id'', JStr (tc_id call)), (''type'', JStr ''function''),
      (''function'', JObj [(''name'', JStr (tc_name call)), (''arguments'', JStr (tc_arguments call))])]"

fun chat_sse_loop :: "json_lib \<Rightarrow> string \<Rightarrow> string \<Rightarrow> heard list \<Rightarrow> conn \<Rightarrow> (string + unit) \<times> conn" where
  "chat_sse_loop jl i model [] c = (Inr (), c)"
| "chat_sse_loop jl i model (h # rest) c =
     (case h of
        Inl e \<Rightarrow> (Inl e, c)
      | Inr None \<Rightarrow> (Inr (), c)
      | Inr (Some (Ev_Token tok _)) \<Rightarrow>
          sbind (put (data_text jl (JObj (chat_chunk i model (JObj [(''content'', JStr tok)]) JNull))) c)
            (\<lambda>_. chat_sse_loop jl i model rest)
      | Inr (Some (Ev_ToolCall call)) \<Rightarrow>
          sbind (put (data_text jl (JObj (chat_chunk i model
              (JObj [(''tool_calls'', JArr [JObj ((''index'', jnum 0) # chat_call call)])]) JNull))) c)
            (\<lambda>_. chat_sse_loop jl i model rest)
      | Inr (Some (Ev_Notice ev detail)) \<Rightarrow>
          sbind (put (notice_text ev detail) c) (\<lambda>_. chat_sse_loop jl i model rest)
      | Inr (Some (Ev_Done _ u why)) \<Rightarrow>
          put (data_text jl (JObj (chat_chunk i model (JObj []) (JStr (unwrap_or why ''stop''))
                 @ [(''usage'', openai_usage u)])) @ DONE_TEXT) c
      | Inr (Some (Ev_Error err)) \<Rightarrow>
          put (data_text jl (error_json (err_code err) (err_message err)) @ DONE_TEXT) c
      | Inr (Some _) \<Rightarrow> chat_sse_loop jl i model rest c)"

definition relay_sse :: "json_lib \<Rightarrow> nat \<Rightarrow> string \<Rightarrow> heard list \<Rightarrow> conn \<Rightarrow> (string + unit) \<times> conn" where
  "relay_sse jl pid model evs c =
     sbind (put SSE_HEAD c) (\<lambda>_. chat_sse_loop jl (''chatcmpl-'' @ show_nat pid) model evs)"

definition chat_reply :: "nat \<Rightarrow> string \<Rightarrow> string \<Rightarrow> json list \<Rightarrow> usage_counts \<Rightarrow> string option \<Rightarrow> json" where
  "chat_reply pid model content calls u why =
     JObj [(''id'', JStr (''chatcmpl-'' @ show_nat pid)), (''object'', JStr ''chat.completion''), (''model'', JStr model),
           (''choices'', JArr [JObj [(''index'', jnum 0),
              (''message'', JObj (if calls = [] then [(''role'', JStr ''assistant''), (''content'', JStr content)]
                                  else [(''role'', JStr ''assistant''), (''content'', JNull), (''tool_calls'', JArr calls)])),
              (''finish_reason'', JStr (unwrap_or why ''stop''))]]),
           (''usage'', openai_usage u)]"

fun chat_json_loop :: "json_lib \<Rightarrow> nat \<Rightarrow> string \<Rightarrow> feed \<Rightarrow> string \<Rightarrow> json list \<Rightarrow> bool \<Rightarrow> conn \<times> sock
    \<Rightarrow> (string + unit) \<times> conn \<times> sock" where
  "chat_json_loop jl pid model [] content calls abandoned cs =
     respond_on jl 400 (error_json ''api_error'' ''the session ended without a reply'') cs"
| "chat_json_loop jl pid model ((hung, h) # rest) content calls abandoned cs =
     (let (gone, so) = notice_hangup hung abandoned (snd cs); cs' = (fst cs, so)
      in case h of
           Inl e \<Rightarrow> (Inl e, cs')
         | Inr None \<Rightarrow> respond_on jl 400 (error_json ''api_error'' ''the session ended without a reply'') cs'
         | Inr (Some (Ev_Token tok _)) \<Rightarrow> chat_json_loop jl pid model rest (content @ tok) calls gone cs'
         | Inr (Some (Ev_ToolCall call)) \<Rightarrow>
             chat_json_loop jl pid model rest content (calls @ [JObj (chat_call call)]) gone cs'
         | Inr (Some (Ev_Done _ u why)) \<Rightarrow>
             if gone then (Inr (), cs') else respond_on jl 200 (chat_reply pid model content calls u why) cs'
         | Inr (Some (Ev_Error err)) \<Rightarrow>
             respond_on jl (status_of (err_code err)) (error_json (err_code err) (err_message err)) cs'
         | Inr (Some _) \<Rightarrow> chat_json_loop jl pid model rest content calls gone cs')"

definition relay_json :: "json_lib \<Rightarrow> nat \<Rightarrow> string \<Rightarrow> feed \<Rightarrow> conn \<times> sock \<Rightarrow> (string + unit) \<times> conn \<times> sock" where
  "relay_json jl pid model f cs = chat_json_loop jl pid model f [] [] False cs"

subsection \<open>Replies in one piece for the other two dialects\<close>

text \<open>What the loops gather; \<open>blk\<close> is how a tool call is written down.\<close>

record gathered =
  ga_text :: string
  ga_blocks :: "json list"
  ga_usage :: usage_counts
  ga_finish :: "string option"
  ga_tool_used :: bool
  ga_gone :: bool

definition nothing_gathered :: gathered where
  "nothing_gathered =
     \<lparr> ga_text = [], ga_blocks = [], ga_usage = no_usage, ga_finish = None, ga_tool_used = False, ga_gone = False \<rparr>"

text \<open>The loop ends with what it gathered, or with \<open>None\<close> when it has answered itself.\<close>

fun gather :: "json_lib \<Rightarrow> (tool_call \<Rightarrow> json) \<Rightarrow> (error_body \<Rightarrow> json) \<Rightarrow> feed \<Rightarrow> gathered \<Rightarrow> conn \<times> sock
    \<Rightarrow> (string + gathered option) \<times> conn \<times> sock" where
  "gather jl blk refusal [] g cs = (Inr (Some g), cs)"
| "gather jl blk refusal ((hung, h) # rest) g cs =
     (let (gone, so) = notice_hangup hung (ga_gone g) (snd cs); cs' = (fst cs, so); g' = g\<lparr> ga_gone := gone \<rparr>
      in case h of
           Inl e \<Rightarrow> (Inl e, cs')
         | Inr None \<Rightarrow> (Inr (Some g'), cs')
         | Inr (Some (Ev_Token tok _)) \<Rightarrow> gather jl blk refusal rest (g'\<lparr> ga_text := ga_text g @ tok \<rparr>) cs'
         | Inr (Some (Ev_ToolCall call)) \<Rightarrow>
             gather jl blk refusal rest (g'\<lparr> ga_blocks := ga_blocks g @ [blk call], ga_tool_used := True \<rparr>) cs'
         | Inr (Some (Ev_ToolCalls calls)) \<Rightarrow>
             gather jl blk refusal rest (g'\<lparr> ga_blocks := ga_blocks g @ map blk calls, ga_tool_used := True \<rparr>) cs'
         | Inr (Some (Ev_Done _ u why)) \<Rightarrow> (Inr (Some (g'\<lparr> ga_usage := u, ga_finish := why \<rparr>)), cs')
         | Inr (Some (Ev_Error err)) \<Rightarrow>
             if gone then (Inr None, cs')
             else sbind (respond_on jl (status_of (err_code err)) (refusal err) cs') (\<lambda>_ cs''. (Inr None, cs''))
         | Inr (Some _) \<Rightarrow> gather jl blk refusal rest g' cs')"

definition finish_gathered :: "json_lib \<Rightarrow> (gathered \<Rightarrow> json) \<Rightarrow> gathered option \<Rightarrow> conn \<times> sock \<Rightarrow> (string + unit) \<times> conn \<times> sock" where
  "finish_gathered jl reply og cs =
     (case og of
        None \<Rightarrow> (Inr (), cs)
      | Some g \<Rightarrow> if ga_gone g then (Inr (), cs) else respond_on jl 200 (reply g) cs)"

definition anthropic_stop_reason :: "string option \<Rightarrow> bool \<Rightarrow> string" where
  "anthropic_stop_reason fin tool_used =
     (if tool_used then ''tool_use''
      else if fin = Some ''length'' then ''max_tokens''
      else if fin = Some ''stop_sequence'' then ''stop_sequence'' else ''end_turn'')"

definition tool_use_block :: "json_lib \<Rightarrow> tool_call \<Rightarrow> json" where
  "tool_use_block jl call =
     JObj [(''type'', JStr ''tool_use''), (''id'', JStr (tc_id call)), (''name'', JStr (tc_name call)),
           (''input'', unwrap_or (jl_parse_str jl (tc_arguments call)) (JObj []))]"

definition anthropic_refusal :: "error_body \<Rightarrow> json" where
  "anthropic_refusal err =
     anthropic_error (if err_code err = ''policy-denied'' then ''permission_error''
                      else if err_code err = ''rate-limited'' then ''rate_limit_error'' else ''invalid_request_error'')
       (err_message err)"

definition text_block_json :: "string \<Rightarrow> json" where
  "text_block_json t = JObj [(''type'', JStr ''text''), (''text'', JStr t)]"

definition anthropic_reply :: "nat \<Rightarrow> string \<Rightarrow> gathered \<Rightarrow> json" where
  "anthropic_reply pid model g =
     JObj [(''id'', JStr (''msg_'' @ show_nat pid)), (''type'', JStr ''message''), (''role'', JStr ''assistant''),
           (''model'', JStr model),
           (''content'', JArr ((if ga_text g \<noteq> [] then [text_block_json (ga_text g)] else []) @ ga_blocks g)),
           (''stop_reason'', JStr (anthropic_stop_reason (ga_finish g) (ga_tool_used g))), (''stop_sequence'', JNull),
           (''usage'', JObj [(''input_tokens'', jnum (prompt_tokens (ga_usage g))),
                             (''output_tokens'', jnum (completion_tokens (ga_usage g)))])]"

definition relay_anthropic_json :: "json_lib \<Rightarrow> nat \<Rightarrow> string \<Rightarrow> feed \<Rightarrow> conn \<times> sock \<Rightarrow> (string + unit) \<times> conn \<times> sock" where
  "relay_anthropic_json jl pid model f cs =
     sbind (gather jl (tool_use_block jl) anthropic_refusal f nothing_gathered cs)
       (finish_gathered jl (anthropic_reply pid model))"

definition responses_call_item :: "tool_call \<Rightarrow> json" where
  "responses_call_item call =
     JObj [(''type'', JStr ''function_call''), (''id'', JStr (''fc_'' @ tc_id call)), (''call_id'', JStr (tc_id call)),
           (''name'', JStr (tc_name call)), (''arguments'', JStr (tc_arguments call)), (''status'', JStr ''completed'')]"

definition responses_envelope :: "string \<Rightarrow> string \<Rightarrow> string \<Rightarrow> json list \<Rightarrow> usage_counts \<Rightarrow> json" where
  "responses_envelope i model status output u =
     JObj [(''id'', JStr i), (''object'', JStr ''response''), (''status'', JStr status), (''model'', JStr model),
           (''output'', JArr output), (''parallel_tool_calls'', JBool True),
           (''usage'', JObj [(''input_tokens'', jnum (prompt_tokens u)), (''output_tokens'', jnum (completion_tokens u)),
                             (''total_tokens'', jnum (u64_add (prompt_tokens u) (completion_tokens u)))])]"

definition output_text_part :: "string \<Rightarrow> json" where
  "output_text_part t = JObj [(''type'', JStr ''output_text''), (''text'', JStr t), (''annotations'', JArr [])]"

definition message_item :: "nat \<Rightarrow> string \<Rightarrow> json" where
  "message_item pid t =
     JObj [(''type'', JStr ''message''), (''id'', JStr (''msg_'' @ show_nat pid)), (''status'', JStr ''completed''),
           (''role'', JStr ''assistant''), (''content'', JArr [output_text_part t])]"

definition responses_output :: "nat \<Rightarrow> string \<Rightarrow> json list \<Rightarrow> json list" where
  "responses_output pid t calls = (if t \<noteq> [] then [message_item pid t] else []) @ calls"

definition responses_reply :: "nat \<Rightarrow> string \<Rightarrow> gathered \<Rightarrow> json" where
  "responses_reply pid model g =
     responses_envelope (''resp_'' @ show_nat pid) model ''completed'' (responses_output pid (ga_text g) (ga_blocks g)) (ga_usage g)"

definition relay_responses_json :: "json_lib \<Rightarrow> nat \<Rightarrow> string \<Rightarrow> feed \<Rightarrow> conn \<times> sock \<Rightarrow> (string + unit) \<times> conn \<times> sock" where
  "relay_responses_json jl pid model f cs =
     sbind (gather jl responses_call_item (\<lambda>err. error_json (err_code err) (err_message err)) f nothing_gathered cs)
       (finish_gathered jl (responses_reply pid model))"

subsection \<open>The Messages stream\<close>

definition send_event :: "json_lib \<Rightarrow> string \<Rightarrow> json \<Rightarrow> conn \<Rightarrow> (string + unit) \<times> conn" where
  "send_event jl ev d c = put (event_text jl ev d) c"

definition message_start_json :: "nat \<Rightarrow> string \<Rightarrow> json" where
  "message_start_json pid model =
     JObj [(''type'', JStr ''message_start''),
           (''message'', JObj [(''id'', JStr (''msg_'' @ show_nat pid)), (''type'', JStr ''message''), (''role'', JStr ''assistant''),
              (''model'', JStr model), (''content'', JArr []), (''stop_reason'', JNull), (''stop_sequence'', JNull),
              (''usage'', JObj [(''input_tokens'', jnum 0), (''output_tokens'', jnum 0)])])]"

definition block_start_json :: "nat \<Rightarrow> json \<Rightarrow> json" where
  "block_start_json index b =
     JObj [(''type'', JStr ''content_block_start''), (''index'', jnum index), (''content_block'', b)]"

definition empty_tool_json :: "string \<Rightarrow> string \<Rightarrow> json" where
  "empty_tool_json i name =
     JObj [(''type'', JStr ''tool_use''), (''id'', JStr i), (''name'', JStr name), (''input'', JObj [])]"

definition block_delta_json :: "nat \<Rightarrow> json \<Rightarrow> json" where
  "block_delta_json index delta =
     JObj [(''type'', JStr ''content_block_delta''), (''index'', jnum index), (''delta'', delta)]"

definition text_delta_json :: "string \<Rightarrow> json" where
  "text_delta_json t = JObj [(''type'', JStr ''text_delta''), (''text'', JStr t)]"

definition input_delta_json :: "string \<Rightarrow> json" where
  "input_delta_json t = JObj [(''type'', JStr ''input_json_delta''), (''partial_json'', JStr t)]"

definition block_stop_json :: "nat \<Rightarrow> json" where
  "block_stop_json index = JObj [(''type'', JStr ''content_block_stop''), (''index'', jnum index)]"

definition message_delta_json :: "string \<Rightarrow> nat \<Rightarrow> json" where
  "message_delta_json why n =
     JObj [(''type'', JStr ''message_delta''),
           (''delta'', JObj [(''stop_reason'', JStr why), (''stop_sequence'', JNull)]),
           (''usage'', JObj [(''output_tokens'', jnum n)])]"

definition message_stop_json :: json where
  "message_stop_json = JObj [(''type'', JStr ''message_stop'')]"

definition close_text_block :: "json_lib \<Rightarrow> nat \<Rightarrow> bool \<Rightarrow> conn \<Rightarrow> (string + nat \<times> bool) \<times> conn" where
  "close_text_block jl index open_text c =
     (if \<not> open_text then (Inr (index, open_text), c)
      else sbind (send_event jl ''content_block_stop'' (block_stop_json index) c)
             (\<lambda>_ c'. (Inr (index + 1, False), c')))"

definition stream_tool_use :: "json_lib \<Rightarrow> tool_call \<Rightarrow> nat \<Rightarrow> conn \<Rightarrow> (string + nat) \<times> conn" where
  "stream_tool_use jl call index c =
     sbind (send_event jl ''content_block_start'' (block_start_json index (empty_tool_json (tc_id call) (tc_name call))) c)
       (\<lambda>_ c1. sbind (send_event jl ''content_block_delta'' (block_delta_json index (input_delta_json (tc_arguments call))) c1)
          (\<lambda>_ c2. sbind (send_event jl ''content_block_stop'' (block_stop_json index) c2)
             (\<lambda>_ c3. (Inr (index + 1), c3))))"

record msg_stream =
  ms_index :: nat
  ms_text_open :: bool
  ms_tool_used :: bool
  ms_usage :: usage_counts
  ms_finish :: "string option"

definition stream_calls :: "json_lib \<Rightarrow> tool_call list \<Rightarrow> msg_stream \<Rightarrow> conn \<Rightarrow> (string + msg_stream) \<times> conn" where
  "stream_calls jl calls m c =
     sbind (close_text_block jl (ms_index m) (ms_text_open m) c)
       (\<lambda>(index, open_text) c1. sbind (sfold (stream_tool_use jl) calls index c1)
          (\<lambda>index' c2. (Inr (m\<lparr> ms_index := index', ms_text_open := open_text, ms_tool_used := True \<rparr>), c2)))"

definition stream_token :: "json_lib \<Rightarrow> string \<Rightarrow> msg_stream \<Rightarrow> conn \<Rightarrow> (string + msg_stream) \<times> conn" where
  "stream_token jl tok m c =
     sbind (if ms_text_open m then (Inr (), c)
            else send_event jl ''content_block_start'' (block_start_json (ms_index m) (text_block_json [])) c)
       (\<lambda>_ c1. sbind (send_event jl ''content_block_delta'' (block_delta_json (ms_index m) (text_delta_json tok)) c1)
          (\<lambda>_ c2. (Inr (m\<lparr> ms_text_open := True \<rparr>), c2)))"

definition stream_failure :: "json_lib \<Rightarrow> error_body \<Rightarrow> msg_stream \<Rightarrow> conn \<Rightarrow> (string + unit) \<times> conn" where
  "stream_failure jl err m c =
     (let c1 = snd (close_text_block jl (ms_index m) (ms_text_open m) c)
      in sbind (send_event jl ''error'' (anthropic_error ''api_error'' (err_code err @ '': '' @ err_message err)) c1)
           (\<lambda>_. send_event jl ''message_stop'' message_stop_json))"

text \<open>The loop; \<open>None\<close> is that an error event was relayed and the relay is over.\<close>

fun anthropic_loop :: "json_lib \<Rightarrow> heard list \<Rightarrow> msg_stream \<Rightarrow> conn \<Rightarrow> (string + msg_stream option) \<times> conn" where
  "anthropic_loop jl [] m c = (Inr (Some m), c)"
| "anthropic_loop jl (h # rest) m c =
     (case h of
        Inl e \<Rightarrow> (Inl e, c)
      | Inr None \<Rightarrow> (Inr (Some m), c)
      | Inr (Some (Ev_Token tok _)) \<Rightarrow> sbind (stream_token jl tok m c) (anthropic_loop jl rest)
      | Inr (Some (Ev_ToolCall call)) \<Rightarrow> sbind (stream_calls jl [call] m c) (anthropic_loop jl rest)
      | Inr (Some (Ev_ToolCalls calls)) \<Rightarrow> sbind (stream_calls jl calls m c) (anthropic_loop jl rest)
      | Inr (Some (Ev_Notice ev detail)) \<Rightarrow> sbind (put (notice_text ev detail) c) (\<lambda>_. anthropic_loop jl rest m)
      | Inr (Some (Ev_Done _ u why)) \<Rightarrow> (Inr (Some (m\<lparr> ms_usage := u, ms_finish := why \<rparr>)), c)
      | Inr (Some (Ev_Error err)) \<Rightarrow> sbind (stream_failure jl err m c) (\<lambda>_ c'. (Inr None, c'))
      | Inr (Some _) \<Rightarrow> anthropic_loop jl rest m c)"

definition anthropic_finish :: "json_lib \<Rightarrow> msg_stream option \<Rightarrow> conn \<Rightarrow> (string + unit) \<times> conn" where
  "anthropic_finish jl om c =
     (case om of
        None \<Rightarrow> (Inr (), c)
      | Some m \<Rightarrow>
          sbind (close_text_block jl (ms_index m) (ms_text_open m) c)
            (\<lambda>_ c1. sbind (send_event jl ''message_delta''
                (message_delta_json (anthropic_stop_reason (ms_finish m) (ms_tool_used m)) (completion_tokens (ms_usage m))) c1)
               (\<lambda>_. send_event jl ''message_stop'' message_stop_json)))"

definition relay_anthropic_sse :: "json_lib \<Rightarrow> nat \<Rightarrow> string \<Rightarrow> heard list \<Rightarrow> conn \<Rightarrow> (string + unit) \<times> conn" where
  "relay_anthropic_sse jl pid model evs c =
     sbind (put SSE_HEAD c)
       (\<lambda>_ c1. sbind (send_event jl ''message_start'' (message_start_json pid model) c1)
          (\<lambda>_ c2. sbind (anthropic_loop jl evs
              \<lparr> ms_index = 0, ms_text_open = False, ms_tool_used = False, ms_usage = no_usage, ms_finish = None \<rparr> c2)
             (anthropic_finish jl)))"

subsection \<open>The Responses stream\<close>

text \<open>Every event is numbered as it is sent; the number is one more also after a send that failed.\<close>

definition numbered :: "nat \<Rightarrow> json \<Rightarrow> json" where
  "numbered n d = (case d of JObj kvs \<Rightarrow> JObj (kvs @ [(''sequence_number'', jnum n)]) | _ \<Rightarrow> d)"

definition send_numbered :: "json_lib \<Rightarrow> string \<Rightarrow> (string \<times> json) list \<Rightarrow> nat \<times> conn \<Rightarrow> (string + unit) \<times> nat \<times> conn" where
  "send_numbered jl kind kvs nc =
     (case put (event_text jl kind (numbered (fst nc) (JObj ((''type'', JStr kind) # kvs)))) (snd nc) of
        (r, c') \<Rightarrow> (r, Suc (fst nc), c'))"

record resp_stream =
  rs_text :: string
  rs_calls :: "tool_call list"
  rs_usage :: usage_counts
  rs_open :: bool

definition resp_token :: "json_lib \<Rightarrow> nat \<Rightarrow> string \<Rightarrow> resp_stream \<Rightarrow> nat \<times> conn \<Rightarrow> (string + resp_stream) \<times> nat \<times> conn" where
  "resp_token jl pid tok s nc =
     (let mid = JStr (''msg_'' @ show_nat pid)
      in sbind (if rs_open s then (Inr (), nc)
                else sbind (send_numbered jl ''response.output_item.added''
                        [(''output_index'', jnum 0),
                         (''item'', JObj [(''type'', JStr ''message''), (''id'', mid), (''status'', JStr ''in_progress''),
                                          (''role'', JStr ''assistant''), (''content'', JArr [])])] nc)
                       (\<lambda>_. send_numbered jl ''response.content_part.added''
                          [(''item_id'', mid), (''output_index'', jnum 0), (''content_index'', jnum 0),
                           (''part'', output_text_part [])]))
           (\<lambda>_ nc1. sbind (send_numbered jl ''response.output_text.delta''
                [(''item_id'', mid), (''output_index'', jnum 0), (''content_index'', jnum 0), (''delta'', JStr tok)] nc1)
              (\<lambda>_ nc2. (Inr (s\<lparr> rs_open := True, rs_text := rs_text s @ tok \<rparr>), nc2))))"

fun responses_loop :: "json_lib \<Rightarrow> nat \<Rightarrow> string \<Rightarrow> heard list \<Rightarrow> resp_stream \<Rightarrow> nat \<times> conn
    \<Rightarrow> (string + resp_stream option) \<times> nat \<times> conn" where
  "responses_loop jl pid model [] s nc = (Inr (Some s), nc)"
| "responses_loop jl pid model (h # rest) s nc =
     (case h of
        Inl e \<Rightarrow> (Inl e, nc)
      | Inr None \<Rightarrow> (Inr (Some s), nc)
      | Inr (Some (Ev_Token tok _)) \<Rightarrow> sbind (resp_token jl pid tok s nc) (responses_loop jl pid model rest)
      | Inr (Some (Ev_ToolCall call)) \<Rightarrow> responses_loop jl pid model rest (s\<lparr> rs_calls := rs_calls s @ [call] \<rparr>) nc
      | Inr (Some (Ev_ToolCalls calls)) \<Rightarrow> responses_loop jl pid model rest (s\<lparr> rs_calls := rs_calls s @ calls \<rparr>) nc
      | Inr (Some (Ev_Done _ u why)) \<Rightarrow> (Inr (Some (s\<lparr> rs_usage := u \<rparr>)), nc)
      | Inr (Some (Ev_Error err)) \<Rightarrow>
          sbind (send_numbered jl ''response.failed''
             [(''response'', JObj [(''id'', JStr (''resp_'' @ show_nat pid)), (''object'', JStr ''response''),
                (''status'', JStr ''failed''), (''model'', JStr model),
                (''error'', JObj [(''code'', JStr (err_code err)), (''message'', JStr (err_message err))])])] nc)
            (\<lambda>_ nc'. (Inr None, nc'))
      | Inr (Some _) \<Rightarrow> responses_loop jl pid model rest s nc)"

definition resp_text_done :: "json_lib \<Rightarrow> nat \<Rightarrow> resp_stream \<Rightarrow> nat \<times> conn \<Rightarrow> (string + nat) \<times> nat \<times> conn" where
  "resp_text_done jl pid s nc =
     (let mid = JStr (''msg_'' @ show_nat pid)
      in if \<not> rs_open s then (Inr 0, nc)
         else sbind (send_numbered jl ''response.output_text.done''
                 [(''item_id'', mid), (''output_index'', jnum 0), (''content_index'', jnum 0), (''text'', JStr (rs_text s))] nc)
                (\<lambda>_ nc1. sbind (send_numbered jl ''response.content_part.done''
                    [(''item_id'', mid), (''output_index'', jnum 0), (''content_index'', jnum 0),
                     (''part'', output_text_part (rs_text s))] nc1)
                   (\<lambda>_ nc2. sbind (send_numbered jl ''response.output_item.done''
                       [(''output_index'', jnum 0), (''item'', message_item pid (rs_text s))] nc2)
                      (\<lambda>_ nc3. (Inr 1, nc3)))))"

definition resp_call :: "json_lib \<Rightarrow> tool_call \<Rightarrow> nat \<Rightarrow> nat \<times> conn \<Rightarrow> (string + nat) \<times> nat \<times> conn" where
  "resp_call jl call index nc =
     sbind (send_numbered jl ''response.output_item.added''
        [(''output_index'', jnum index), (''item'', responses_call_item call)] nc)
       (\<lambda>_ nc1. sbind (send_numbered jl ''response.function_call_arguments.done''
           [(''item_id'', JStr (''fc_'' @ tc_id call)), (''output_index'', jnum index), (''arguments'', JStr (tc_arguments call))] nc1)
          (\<lambda>_ nc2. sbind (send_numbered jl ''response.output_item.done''
              [(''output_index'', jnum index), (''item'', responses_call_item call)] nc2)
             (\<lambda>_ nc3. (Inr (Suc index), nc3))))"

definition responses_finish :: "json_lib \<Rightarrow> nat \<Rightarrow> string \<Rightarrow> resp_stream option \<Rightarrow> nat \<times> conn \<Rightarrow> (string + unit) \<times> nat \<times> conn" where
  "responses_finish jl pid model os nc =
     (case os of
        None \<Rightarrow> (Inr (), nc)
      | Some s \<Rightarrow>
          sbind (resp_text_done jl pid s nc)
            (\<lambda>index nc1. sbind (sfold (resp_call jl) (rs_calls s) index nc1)
               (\<lambda>_. send_numbered jl ''response.completed''
                  [(''response'', responses_envelope (''resp_'' @ show_nat pid) model ''completed''
                      (responses_output pid (rs_text s) (map responses_call_item (rs_calls s))) (rs_usage s))])))"

definition relay_responses_sse :: "json_lib \<Rightarrow> nat \<Rightarrow> string \<Rightarrow> heard list \<Rightarrow> conn \<Rightarrow> (string + unit) \<times> conn" where
  "relay_responses_sse jl pid model evs c =
     sbind (put SSE_HEAD c)
       (\<lambda>_ c1. apsnd snd
          (sbind (send_numbered jl ''response.created''
              [(''response'', responses_envelope (''resp_'' @ show_nat pid) model ''in_progress'' [] no_usage)] (0, c1))
             (\<lambda>_ nc2. sbind (responses_loop jl pid model evs
                 \<lparr> rs_text = [], rs_calls = [], rs_usage = no_usage, rs_open = False \<rparr> nc2)
                (responses_finish jl pid model))))"

subsection \<open>What a client of the Messages stream sees\<close>

text \<open>The frames of a stream of server-sent events, and how each goes over the wire.\<close>

datatype sse = Sse string json | Sse_Comment string

fun sse_text :: "json_lib \<Rightarrow> sse \<Rightarrow> string" where
  "sse_text jl (Sse ev d) = ''event: '' @ ev @ [LF] @ ''data: '' @ jl_show jl d @ [LF, LF]"
| "sse_text jl (Sse_Comment s) = '': '' @ s @ [LF, LF]"
















text \<open>What the daemon said before it was done, failed or went away.\<close>

fun said :: "heard list \<Rightarrow> event list" where
  "said [] = []"
| "said (Inr (Some ev) # rest) = (case ev of Ev_Done _ _ _ \<Rightarrow> [] | Ev_Error _ \<Rightarrow> [] | _ \<Rightarrow> ev # said rest)"
| "said (_ # rest) = []"

fun event_words :: "event \<Rightarrow> string" where
  "event_words (Ev_Token tok _) = tok" | "event_words _ = []"

fun event_calls :: "event \<Rightarrow> tool_call list" where
  "event_calls (Ev_ToolCall call) = [call]" | "event_calls (Ev_ToolCalls calls) = calls" | "event_calls _ = []"

definition all_words :: "heard list \<Rightarrow> string" where "all_words hs = concat (map event_words (said hs))"
definition all_calls :: "heard list \<Rightarrow> tool_call list" where "all_calls hs = concat (map event_calls (said hs))"

datatype ending = End_Done usage_counts "string option" | End_Closed | End_Failed error_body | End_Broken string

fun how_it_ended :: "heard list \<Rightarrow> ending" where
  "how_it_ended [] = End_Closed"
| "how_it_ended (Inl e # rest) = End_Broken e"
| "how_it_ended (Inr None # rest) = End_Closed"
| "how_it_ended (Inr (Some ev) # rest) =
     (case ev of Ev_Done _ u why \<Rightarrow> End_Done u why | Ev_Error err \<Rightarrow> End_Failed err | _ \<Rightarrow> how_it_ended rest)"




lemma put_Inr: "put s c = (Inr u, c') \<Longrightarrow> cn_out c' = cn_out c @ s"
  by (auto simp: put_def split: option.splits if_splits)


lemma sse_texts: "event_text jl ev d = sse_text jl (Sse ev d)"
  by (simp add: event_text_def data_text_def)
























definition plain_lib :: json_lib where
  "plain_lib =
     \<lparr> jl_parse = (\<lambda>_. Inr (JObj [])), jl_parse_str = (\<lambda>_. None), jl_show = (\<lambda>_. ''J''), jl_f32 = (\<lambda>_. 0),
       jl_of_f32 = (\<lambda>_. JNull) \<rparr>"

definition open_conn :: conn where
  "open_conn = \<lparr> cn_kind = Tcp, cn_cred = None, cn_in = [], cn_out = [], cn_room = None \<rparr>"

definition short_answer :: "heard list" where
  "short_answer =
     [Inr (Some (Ev_Token ''hi'' None)), Inr (Some (Ev_ToolCall \<lparr> tc_id = ''c'', tc_name = ''f'', tc_arguments = ''{}'' \<rparr>)),
      Inr (Some (Ev_Done True no_usage None))]"

lemma put_open: "cn_room c = None \<Longrightarrow> put s c = (Inr (), c\<lparr> cn_out := cn_out c @ s \<rparr>)"
  by (simp add: put_def)


subsection \<open>Replies in one piece agree with the stream\<close>

definition gathered_of :: "(tool_call \<Rightarrow> json) \<Rightarrow> heard list \<Rightarrow> gathered \<Rightarrow> gathered" where
  "gathered_of blk evs g =
     (let g1 = g\<lparr> ga_text := ga_text g @ all_words evs, ga_blocks := ga_blocks g @ map blk (all_calls evs),
                  ga_tool_used := ga_tool_used g \<or> list_ex (\<lambda>ev. (\<exists>k. ev = Ev_ToolCall k) \<or> (\<exists>ks. ev = Ev_ToolCalls ks)) (said evs) \<rparr>
      in case how_it_ended evs of End_Done u why \<Rightarrow> g1\<lparr> ga_usage := u, ga_finish := why \<rparr> | _ \<Rightarrow> g1)"

lemma gather_attentive:
  assumes "list_all (\<lambda>x. \<not> fst x) f" "\<not> ga_gone g"
  shows "gather jl blk refusal f g cs =
    (case how_it_ended (map snd f) of
       End_Broken e \<Rightarrow> (Inl e, cs)
     | End_Failed err \<Rightarrow> sbind (respond_on jl (status_of (err_code err)) (refusal err) cs) (\<lambda>_ cs'. (Inr None, cs'))
     | _ \<Rightarrow> (Inr (Some (gathered_of blk (map snd f) g)), cs))"
  using assms
proof (induction f arbitrary: g)
  case Nil
  then show ?case
    by (simp add: gathered_of_def all_words_def all_calls_def)
next
  case (Cons x rest)
  obtain h where x: "x = (False, h)"
    using Cons(2) by (cases x) simp
  have same: "g\<lparr> ga_gone := False \<rparr> = g"
    using Cons(3) by simp
  show ?case
  proof (cases h)
    case (Inl e)
    then show ?thesis
      by (simp add: x notice_hangup_def)
  next
    case (Inr o1)
    show ?thesis
    proof (cases o1)
      case None
      then show ?thesis
        using Inr Cons(3) same by (simp add: x notice_hangup_def gathered_of_def all_words_def all_calls_def)
    next
      case (Some ev)
      then show ?thesis
        using Inr Cons same
        by (cases ev) (simp_all add: x notice_hangup_def gathered_of_def all_words_def all_calls_def Let_def split: ending.split)
    qed
  qed
qed

text \<open>
  A Messages reply in one piece says what the stream would have said. To a client that stays, whose
  daemon neither failed nor broke off with an error, the reply is 200 with the text of all tokens as
  the first block, when there is any, and every tool call as a block after it, in order.
\<close>

theorem messages_reply_agrees:
  assumes "list_all (\<lambda>x. \<not> fst x) f" "how_it_ended (map snd f) = End_Done u why"
  shows "\<exists>g. relay_anthropic_json jl pid model f (c, so) = respond_on jl 200 (anthropic_reply pid model g) (c, so)
    \<and> ga_text g = all_words (map snd f) \<and> ga_blocks g = map (tool_use_block jl) (all_calls (map snd f))
    \<and> ga_usage g = u \<and> ga_finish g = why"
proof -
  let ?g = "gathered_of (tool_use_block jl) (map snd f) nothing_gathered"
  have "gather jl (tool_use_block jl) anthropic_refusal f nothing_gathered (c, so) = (Inr (Some ?g), c, so)"
    using gather_attentive[OF assms(1), of nothing_gathered jl "tool_use_block jl" anthropic_refusal "(c, so)"] assms(2)
    by (simp add: nothing_gathered_def)
  then show ?thesis
    using assms(2) by (intro exI[of _ ?g])
      (simp add: relay_anthropic_json_def finish_gathered_def gathered_of_def nothing_gathered_def Let_def)
qed

theorem messages_reply_agrees_witness:
  "\<exists>g. relay_anthropic_json plain_lib 7 ''m'' (map (Pair False) short_answer) (open_conn, \<lparr> so_sent = [], so_room = None \<rparr>)
      = respond_on plain_lib 200 (anthropic_reply 7 ''m'' g) (open_conn, \<lparr> so_sent = [], so_room = None \<rparr>) \<and> ga_text g = ''hi''"
  using messages_reply_agrees[of "map (Pair False) short_answer" no_usage None plain_lib 7 "''m''" open_conn "\<lparr> so_sent = [], so_room = None \<rparr>"]
  by (auto simp: short_answer_def all_words_def)

text \<open>
  A session that ends without being done is answered as if it had been: 200, end of turn, with
  what text there was. The chat dialect answers 400 there.
\<close>

lemma lost_session_answered_as_complete:
  "relay_anthropic_json jl pid model [(False, Inr (Some (Ev_Token t lp))), (False, Inr None)] (c, so)
     = respond_on jl 200 (anthropic_reply pid model (nothing_gathered\<lparr> ga_text := t \<rparr>)) (c, so)
   \<and> relay_json jl pid model [(False, Inr (Some (Ev_Token t lp))), (False, Inr None)] (c, so)
     = respond_on jl 400 (error_json ''api_error'' ''the session ended without a reply'') (c, so)"
  by (simp add: relay_anthropic_json_def relay_json_def notice_hangup_def finish_gathered_def nothing_gathered_def)

subsection \<open>A client that hangs up\<close>

text \<open>What of a feed a relay gets to see.\<close>

fun attended :: "feed \<Rightarrow> feed" where
  "attended [] = []"
| "attended ((hung, h) # rest) =
     (hung, h) # (case h of
                    Inr (Some (Ev_Done _ _ _)) \<Rightarrow> [] | Inr (Some (Ev_Error _)) \<Rightarrow> [] | Inr (Some _) \<Rightarrow> attended rest | _ \<Rightarrow> [])"

definition hangs_up :: "feed \<Rightarrow> bool" where
  "hangs_up f \<longleftrightarrow> list_ex fst (attended f)"

lemma notice_hangup_sent:
  "so_room s = None \<Longrightarrow> notice_hangup hung gone s
     = (gone \<or> hung, if \<not> gone \<and> hung then s\<lparr> so_sent := so_sent s @ [W_Req Cancel] \<rparr> else s)"
  by (auto simp: notice_hangup_def so_send_def)

lemma respond_on_sock: "snd (snd (respond_on jl n b cs)) = snd cs"
  by (simp add: respond_on_def split: prod.split)

lemma gather_sent:
  assumes "so_room (snd cs) = None" "gather jl blk refusal f g cs = (r, cs')"
  shows "so_sent (snd cs') = so_sent (snd cs) @ (if \<not> ga_gone g \<and> hangs_up f then [W_Req Cancel] else [])
    \<and> (\<forall>g'. r = Inr (Some g') \<longrightarrow> ga_gone g' = (ga_gone g \<or> hangs_up f))
    \<and> (ga_gone g \<or> hangs_up f \<longrightarrow> fst cs' = fst cs)"
  using assms
proof (induction f arbitrary: g cs)
  case Nil
  then show ?case
    by (auto simp: hangs_up_def)
next
  case (Cons x rest)
  obtain hung h where x: "x = (hung, h)"
    by (cases x)
  obtain gone so where nh: "notice_hangup hung (ga_gone g) (snd cs) = (gone, so)"
    by fastforce
  then have so: "gone = (ga_gone g \<or> hung)" "so_room so = None"
    "so_sent so = so_sent (snd cs) @ (if \<not> ga_gone g \<and> hung then [W_Req Cancel] else [])"
    using notice_hangup_sent[OF Cons(2), of hung "ga_gone g"] Cons(2) by (auto split: if_splits)
  note IH = Cons(1)[of "(fst cs, so)", simplified, OF so(2)]
  note step = Cons(3)[unfolded x gather.simps nh, simplified]
  show ?case
  proof (cases h)
    case (Inl e)
    then show ?thesis
      using step so by (auto simp: x hangs_up_def)
  next
    case (Inr o1)
    show ?thesis
    proof (cases o1)
      case None
      then show ?thesis
        using step so Inr by (auto simp: x hangs_up_def)
    next
      case (Some ev)
      note h = Inr Some
      show ?thesis
      proof (cases ev)
        case (Ev_Done ok u why)
        then show ?thesis
          using step so h by (auto simp: x hangs_up_def)
      next
        case (Ev_Error err)
        obtain rr cc where ro: "respond_on jl (status_of (err_code err)) (refusal err) (fst cs, so) = (rr, cc)"
          by (rule prod.exhaust)
        moreover have "snd cc = so"
          using respond_on_sock[of jl "status_of (err_code err)" "refusal err" "(fst cs, so)"] ro by simp
        moreover have "(r, cs') = (if gone then (Inr None, fst cs, so) else case rr of Inl e \<Rightarrow> (Inl e, cc) | Inr _ \<Rightarrow> (Inr None, cc))"
          using step h Ev_Error ro by (cases rr) (simp_all add: Let_def split: if_splits)
        ultimately have "snd cs' = so" "r \<noteq> Inr (Some g')" "gone \<longrightarrow> fst cs' = fst cs" for g'
          by (simp_all split: if_splits sum.splits)
        then show ?thesis
          using so h Ev_Error by (auto simp: x hangs_up_def)
      qed (use step h so IH in \<open>fastforce simp: x hangs_up_def\<close>)+
    qed
  qed
qed

text \<open>
  A client that hangs up stops the generation, once. While a Messages reply in one piece is gathered
  (the session's socket taking frames), the daemon is sent exactly one cancel when some poll before the
  end found the client gone, and none otherwise; and a client that went away is written nothing.
\<close>

theorem hang_up_cancels_once:
  assumes "so_room so = None" "relay_anthropic_json jl pid model f (c, so) = (r, c', so')"
  shows "so_sent so' = so_sent so @ (if hangs_up f then [W_Req Cancel] else []) \<and> (hangs_up f \<longrightarrow> c' = c)"
proof -
  obtain og c1 so1 where g: "gather jl (tool_use_block jl) anthropic_refusal f nothing_gathered (c, so) = (og, c1, so1)"
    by (metis prod_cases3)
  have *: "so_sent so1 = so_sent so @ (if hangs_up f then [W_Req Cancel] else [])"
    "og = Inr (Some g') \<Longrightarrow> ga_gone g' = hangs_up f" "hangs_up f \<longrightarrow> c1 = c" for g'
    using gather_sent[OF _ g] assms(1) by (simp_all add: nothing_gathered_def)
  show ?thesis
  proof (cases og)
    case (Inl e)
    then show ?thesis
      using assms(2) g * by (simp add: relay_anthropic_json_def)
  next
    case (Inr o1)
    then show ?thesis
      using assms(2) g * respond_on_sock[of jl 200 "anthropic_reply pid model (the o1)" "(c1, so1)"]
      by (cases o1) (auto simp: relay_anthropic_json_def finish_gathered_def split: if_splits)
  qed
qed

theorem hang_up_cancels_once_witness:
  "so_sent (snd (snd (relay_anthropic_json plain_lib 7 ''m'' [(False, Inr (Some (Ev_Token ''hi'' None))),
       (True, Inr (Some (Ev_Token ''ho'' None))), (True, Inr (Some (Ev_Done True no_usage None)))]
       (open_conn, \<lparr> so_sent = [], so_room = None \<rparr>)))) = [W_Req Cancel]"
proof -
  let ?f = "[(False, Inr (Some (Ev_Token ''hi'' None))), (True, Inr (Some (Ev_Token ''ho'' None))),
    (True, Inr (Some (Ev_Done True no_usage None)))] :: feed"
  obtain r c' so' where "relay_anthropic_json plain_lib 7 ''m'' ?f (open_conn, \<lparr> so_sent = [], so_room = None \<rparr>) = (r, c', so')"
    by (metis prod_cases3)
  then show ?thesis
    using hang_up_cancels_once[of "\<lparr> so_sent = [], so_room = None \<rparr>" plain_lib 7 "''m''" ?f open_conn r c' so']
    by (simp add: hangs_up_def)
qed

subsection \<open>Numbered events of the Responses stream\<close>

definition numbered_text :: "json_lib \<Rightarrow> nat \<Rightarrow> (string \<times> (string \<times> json) list) list \<Rightarrow> string" where
  "numbered_text jl n its =
     concat (map (\<lambda>(k, kind, kvs). event_text jl kind (numbered k (JObj ((''type'', JStr kind) # kvs)))) (enumerate n its))"

definition emits :: "json_lib \<Rightarrow> nat \<times> conn \<Rightarrow> nat \<times> conn \<Rightarrow> (string \<times> (string \<times> json) list) list \<Rightarrow> bool" where
  "emits jl nc nc' its \<longleftrightarrow> fst nc' = fst nc + length its \<and> cn_out (snd nc') = cn_out (snd nc) @ numbered_text jl (fst nc) its"

lemma emits_Nil: "emits jl nc nc []"
  by (simp add: emits_def numbered_text_def)

lemma emits_refl [simp]: "\<exists>its. emits jl nc nc its"
  using emits_Nil by blast

lemma apsnd_Inr_iff: "apsnd snd m = (r, c') \<longleftrightarrow> (\<exists>nc. m = (r, nc) \<and> c' = snd nc)"
  by (cases m) auto

lemma emits_append: "emits jl nc nc1 its \<Longrightarrow> emits jl nc1 nc2 its' \<Longrightarrow> emits jl nc nc2 (its @ its')"
  by (simp add: emits_def numbered_text_def enumerate_append_eq)

lemma send_numbered_emits: "send_numbered jl kind kvs nc = (Inr u, nc') \<Longrightarrow> emits jl nc nc' [(kind, kvs)]"
  by (auto simp: send_numbered_def emits_def numbered_text_def split: prod.splits dest: put_Inr)

lemma three_emit:
  assumes "send_numbered jl k1 l1 nc = (Inr (), nc1)" "send_numbered jl k2 l2 nc1 = (Inr (), nc2)"
    "send_numbered jl k3 l3 nc2 = (Inr (), nc3)"
  shows "\<exists>its. emits jl nc nc3 its"
  using emits_append[OF emits_append[OF assms(1,2)[THEN send_numbered_emits]] assms(3)[THEN send_numbered_emits]] by blast

lemma resp_token_emits:
  assumes "resp_token jl pid tok s nc = (Inr s', nc')"
  shows "s' = s\<lparr> rs_open := True, rs_text := rs_text s @ tok \<rparr> \<and> (\<exists>its. emits jl nc nc' its)"
proof -
  obtain nc1 where 1: "\<exists>its. emits jl nc nc1 its" and 2: "\<exists>kind kvs. send_numbered jl kind kvs nc1 = (Inr (), nc')"
    and s': "s' = s\<lparr> rs_open := True, rs_text := rs_text s @ tok \<rparr>"
  proof (cases "rs_open s")
    case True
    then show ?thesis
      using that[of nc] assms by (auto simp: resp_token_def Let_def sbind_Inr_iff)
  next
    case False
    then obtain k1 k2 k3 l1 l2 l3 nc1 nc2 where "send_numbered jl k1 l1 nc = (Inr (), nc1)"
      "send_numbered jl k2 l2 nc1 = (Inr (), nc2)" "send_numbered jl k3 l3 nc2 = (Inr (), nc')"
      "s' = s\<lparr> rs_open := True, rs_text := rs_text s @ tok \<rparr>"
      using assms by (auto simp: resp_token_def Let_def sbind_Inr_iff)
    then show ?thesis
      using that[of nc2] emits_append[OF send_numbered_emits send_numbered_emits, of jl k1 l1 nc "()" nc1 k2 l2 "()" nc2] by auto
  qed
  obtain its kind kvs where "emits jl nc nc1 its" "send_numbered jl kind kvs nc1 = (Inr (), nc')"
    using 1 2 by blast
  then have "emits jl nc nc' (its @ [(kind, kvs)])"
    using emits_append send_numbered_emits by metis
  with s' show ?thesis
    by blast
qed

lemma responses_loop_emits:
  assumes "responses_loop jl pid model evs s nc = (Inr os, nc')"
  shows "(\<exists>its. emits jl nc nc' its)
    \<and> (os = None \<longleftrightarrow> (\<exists>err. how_it_ended evs = End_Failed err))
    \<and> (\<forall>s'. os = Some s' \<longrightarrow> rs_text s' = rs_text s @ all_words evs \<and> rs_calls s' = rs_calls s @ all_calls evs
          \<and> (\<forall>u why. how_it_ended evs = End_Done u why \<longrightarrow> rs_usage s' = u))"
  using assms
proof (induction evs arbitrary: s nc)
  case Nil
  then show ?case
    by (auto simp: all_words_def all_calls_def)
next
  case (Cons h rest)
  note step = Cons(2)[simplified]
  have onward: ?case
    if loop: "responses_loop jl pid model rest s1 nc1 = (Inr os, nc')" and e: "emits jl nc nc1 its"
      and same: "all_words (h # rest) = t @ all_words rest" "all_calls (h # rest) = ks @ all_calls rest"
        "how_it_ended (h # rest) = how_it_ended rest" "rs_text s1 = rs_text s @ t" "rs_calls s1 = rs_calls s @ ks"
    for s1 nc1 its t ks
  proof -
    obtain its' where "emits jl nc1 nc' its'"
      using Cons(1)[OF loop] by blast
    then have "\<exists>its. emits jl nc nc' its"
      using emits_append[OF e] by blast
    then show ?thesis
      using Cons(1)[OF loop, THEN conjunct2] same by (metis append_assoc)
  qed
  show ?case
  proof (cases h)
    case (Inl e)
    then show ?thesis
      using step by simp
  next
    case (Inr o1)
    show ?thesis
    proof (cases o1)
      case None
      then show ?thesis
        using step Inr by (auto simp: all_words_def all_calls_def)
    next
      case (Some ev)
      note h = Inr Some
      show ?thesis
      proof (cases ev)
        case (Ev_Token tok lp)
        then obtain s1 nc1 where 1: "resp_token jl pid tok s nc = (Inr s1, nc1)"
          and 2: "responses_loop jl pid model rest s1 nc1 = (Inr os, nc')"
          using step h by (auto simp: sbind_Inr_iff)
        obtain its where "s1 = s\<lparr> rs_open := True, rs_text := rs_text s @ tok \<rparr>" and e: "emits jl nc nc1 its"
          using resp_token_emits[OF 1] by blast
        then show ?thesis
          using h Ev_Token by (intro onward[OF 2 e, of tok "[]"]) (simp_all add: all_words_def all_calls_def)
      next
        case (Ev_Error err)
        then show ?thesis
          using step h by (auto simp: sbind_Inr_iff dest: send_numbered_emits)
      next
        case (Ev_Done ok u why)
        then show ?thesis
          using step h by (auto simp: all_words_def all_calls_def)
      next
        case (Ev_ToolCall call)
        then have 1: "responses_loop jl pid model rest (s\<lparr> rs_calls := rs_calls s @ [call] \<rparr>) nc = (Inr os, nc')"
          using step h by simp
        show ?thesis
          using h Ev_ToolCall by (intro onward[OF 1 emits_Nil, of "[]" "[call]"]) (simp_all add: all_words_def all_calls_def)
      next
        case (Ev_ToolCalls ks)
        then have 1: "responses_loop jl pid model rest (s\<lparr> rs_calls := rs_calls s @ ks \<rparr>) nc = (Inr os, nc')"
          using step h by simp
        show ?thesis
          using h Ev_ToolCalls by (intro onward[OF 1 emits_Nil, of "[]" ks]) (simp_all add: all_words_def all_calls_def)
      qed (use step h in \<open>intro onward[OF _ emits_Nil, of s "[]" "[]"]; simp add: all_words_def all_calls_def\<close>)+
    qed
  qed
qed

lemma resp_text_done_emits: "resp_text_done jl pid s nc = (Inr n, nc') \<Longrightarrow> \<exists>its. emits jl nc nc' its"
proof (cases "rs_open s")
  case True
  assume "resp_text_done jl pid s nc = (Inr n, nc')"
  with True obtain k1 k2 k3 l1 l2 l3 nc1 nc2 where "send_numbered jl k1 l1 nc = (Inr (), nc1)"
    "send_numbered jl k2 l2 nc1 = (Inr (), nc2)" "send_numbered jl k3 l3 nc2 = (Inr (), nc')"
    by (auto simp: resp_text_done_def Let_def sbind_Inr_iff)
  then show ?thesis
    using three_emit by blast
qed (auto simp: resp_text_done_def Let_def)

lemma resp_call_emits: "resp_call jl call index nc = (Inr n, nc') \<Longrightarrow> \<exists>its. emits jl nc nc' its"
proof -
  assume "resp_call jl call index nc = (Inr n, nc')"
  then obtain k1 k2 k3 l1 l2 l3 nc1 nc2 where "send_numbered jl k1 l1 nc = (Inr (), nc1)"
    "send_numbered jl k2 l2 nc1 = (Inr (), nc2)" "send_numbered jl k3 l3 nc2 = (Inr (), nc')"
    by (auto simp: resp_call_def sbind_Inr_iff)
  then show ?thesis
    using three_emit by blast
qed

lemma resp_calls_emit: "sfold (resp_call jl) ks index nc = (Inr n, nc') \<Longrightarrow> \<exists>its. emits jl nc nc' its"
proof (induction ks arbitrary: index nc)
  case Nil
  then show ?case
    by auto
next
  case (Cons call ks)
  then obtain i1 nc1 where 1: "resp_call jl call index nc = (Inr i1, nc1)" and 2: "sfold (resp_call jl) ks i1 nc1 = (Inr n, nc')"
    by (auto simp: sbind_Inr_iff)
  obtain its its' where "emits jl nc nc1 its" "emits jl nc1 nc' its'"
    using resp_call_emits[OF 1] Cons(1)[OF 2] by blast
  from emits_append[OF this] show ?case
    by blast
qed

text \<open>
  The Responses stream is numbered and ends in the reply. Whenever the relay returns, its events are
  numbered from zero without a gap, the first announces the response, and unless the daemon failed
  the last one carries the whole reply, with all text and all calls the daemon sent.
\<close>

theorem responses_stream_numbered:
  assumes "relay_responses_sse jl pid model evs c = (Inr (), c')"
  shows "\<exists>its. cn_out c' = cn_out c @ SSE_HEAD @ numbered_text jl 0 its \<and> its \<noteq> [] \<and> fst (hd its) = ''response.created''
    \<and> ((\<forall>err. how_it_ended evs \<noteq> End_Failed err) \<longrightarrow>
        (\<exists>u. last its = (''response.completed'', [(''response'', responses_envelope (''resp_'' @ show_nat pid) model ''completed''
            (responses_output pid (all_words evs) (map responses_call_item (all_calls evs))) u)])))"
proof -
  let ?s = "\<lparr> rs_text = [], rs_calls = [], rs_usage = no_usage, rs_open = False \<rparr>"
  let ?first = "(''response.created'', [(''response'', responses_envelope (''resp_'' @ show_nat pid) model ''in_progress'' [] no_usage)])"
  define fin where "fin u = (''response.completed'', [(''response'', responses_envelope (''resp_'' @ show_nat pid) model ''completed''
         (responses_output pid (all_words evs) (map responses_call_item (all_calls evs))) u)])" for u
  obtain c1 nc2 os nc3 nc4 where 1: "put SSE_HEAD c = (Inr (), c1)"
    and 2: "send_numbered jl (fst ?first) (snd ?first) (0, c1) = (Inr (), nc2)"
    and 3: "responses_loop jl pid model evs ?s nc2 = (Inr os, nc3)"
    and 4: "responses_finish jl pid model os nc3 = (Inr (), nc4)" and c': "c' = snd nc4"
    using assms by (auto simp: relay_responses_sse_def sbind_Inr_iff apsnd_Inr_iff)
  obtain its2 where e2: "emits jl nc2 nc3 its2"
    using responses_loop_emits[OF 3] by blast
  have "\<exists>its3. emits jl nc3 nc4 its3 \<and> (os \<noteq> None \<longrightarrow> its3 \<noteq> [] \<and> (\<exists>u. last its3 = fin u))"
  proof (cases os)
    case None
    then show ?thesis
      using 4 emits_Nil[of jl nc3] by (intro exI[of _ "[]"]) (simp add: responses_finish_def)
  next
    case (Some s)
    then obtain n nc5 n' nc6 where 5: "resp_text_done jl pid s nc3 = (Inr n, nc5)"
      and 6: "sfold (resp_call jl) (rs_calls s) n nc5 = (Inr n', nc6)"
      and 7: "send_numbered jl ''response.completed'' [(''response'', responses_envelope (''resp_'' @ show_nat pid) model ''completed''
         (responses_output pid (rs_text s) (map responses_call_item (rs_calls s))) (rs_usage s))] nc6 = (Inr (), nc4)"
      using 4 by (auto simp: responses_finish_def sbind_Inr_iff)
    obtain a b where ab: "emits jl nc3 nc5 a" "emits jl nc5 nc6 b"
      using resp_text_done_emits[OF 5] resp_calls_emit[OF 6] by blast
    have "rs_text s = all_words evs" "rs_calls s = all_calls evs"
      using responses_loop_emits[OF 3] Some by simp_all
    then show ?thesis
      using emits_append[OF emits_append[OF ab] send_numbered_emits[OF 7]]
      by (intro exI[of _ "(a @ b) @ [fin (rs_usage s)]"]) (auto simp: fin_def)
  qed
  then obtain its3 where e3: "emits jl nc3 nc4 its3" and l: "os \<noteq> None \<longrightarrow> its3 \<noteq> [] \<and> (\<exists>u. last its3 = fin u)"
    by (elim exE conjE) (rule that; assumption)
  have "emits jl (0, c1) nc4 (?first # its2 @ its3)"
    using emits_append[OF emits_append[OF send_numbered_emits[OF 2] e2] e3] by simp
  then have out: "cn_out c' = cn_out c @ SSE_HEAD @ numbered_text jl 0 (?first # its2 @ its3)"
    using put_Inr[OF 1] c' by (simp add: emits_def)
  have "(\<forall>err. how_it_ended evs \<noteq> End_Failed err) \<longrightarrow> os \<noteq> None"
    using responses_loop_emits[OF 3] by blast
  with l out show ?thesis
    unfolding fin_def[symmetric] by (intro exI[of _ "?first # its2 @ its3"]) auto
qed

theorem responses_stream_numbered_witness:
  "\<exists>its u. cn_out (snd (relay_responses_sse plain_lib 7 ''m'' short_answer open_conn)) = SSE_HEAD @ numbered_text plain_lib 0 its
     \<and> last its = (''response.completed'', [(''response'', responses_envelope ''resp_7'' ''m'' ''completed''
          (responses_output 7 ''hi'' [responses_call_item \<lparr> tc_id = ''c'', tc_name = ''f'', tc_arguments = ''{}'' \<rparr>]) u)])"
proof -
  obtain c' where c': "relay_responses_sse plain_lib 7 ''m'' short_answer open_conn = (Inr (), c')"
    by (simp add: relay_responses_sse_def short_answer_def put_open open_conn_def send_numbered_def resp_token_def
        responses_finish_def resp_text_done_def resp_call_def Let_def)
  have "all_words short_answer = ''hi''" "all_calls short_answer = [\<lparr> tc_id = ''c'', tc_name = ''f'', tc_arguments = ''{}'' \<rparr>]"
    "how_it_ended short_answer = End_Done no_usage None" "show_nat 7 = ''7''"
    by (simp_all add: all_words_def all_calls_def short_answer_def show_nat.simps char_of_def bit_Suc bit_0)
  then show ?thesis
    using responses_stream_numbered[OF c'] c' by (auto simp: open_conn_def)
qed

subsection \<open>What the chat dialect loses\<close>

text \<open>
  Both chat relays know one tool call at a time only. The daemon, told protocol 2 by the same
  shim, sends a batch as one event when its backend can, and the batch vanishes: the reply is that of
  an answer without any call.
\<close>

lemma chat_relays_lose_call_batches:
  "relay_json jl pid model ((hung, Inr (Some (Ev_ToolCalls ks))) # f) cs
     = (let (gone, so) = notice_hangup hung False (snd cs) in chat_json_loop jl pid model f [] [] gone (fst cs, so))
   \<and> relay_sse jl pid model (Inr (Some (Ev_ToolCalls ks)) # evs) c = relay_sse jl pid model evs c"
  by (simp add: relay_json_def relay_sse_def sbind_def Let_def split: prod.split sum.split)

text \<open>A read error in the middle leaves the Messages stream without its end, a block still open.\<close>

lemma broken_session_leaves_block_open:
  assumes "cn_room c = None"
  shows "relay_anthropic_sse jl pid model [Inr (Some (Ev_Token t lp)), Inl e] c
    = (Inl e, c\<lparr> cn_out := cn_out c @ SSE_HEAD @ concat (map (sse_text jl)
          [Sse ''message_start'' (message_start_json pid model), Sse ''content_block_start'' (block_start_json 0 (text_block_json [])),
           Sse ''content_block_delta'' (block_delta_json 0 (text_delta_json t))]) \<rparr>)"
  using assms by (simp add: relay_anthropic_sse_def send_event_def put_open stream_token_def sse_texts)

end
