(* ===== verification/Remote.thy ===== *)
theory Remote
  imports Shim_Relay
begin

text \<open>
  The remote provider, \<open>crates/ai-daemon-backend-remote/src/main.rs\<close>: a backend whose models are on
  another machine. Every request handler, the thread of a generation cut where it takes a lock,
  and their interleaving as a step relation. The children are \<open>curl\<close> processes, known by their
  process numbers; the lines they print, how they end, TOML and JSON are arguments. A cancellation
  flag is shared by a generation and the table of flags, so it lives with the generation and the
  table names the generation.
\<close>

subsection \<open>Configuration\<close>

definition REMOTE_NAME :: string where "REMOTE_NAME = ''remote''"
definition REMOTE_VERSION :: string where "REMOTE_VERSION = ''1.0.0''"
definition REMOTE_CONFIG :: string where "REMOTE_CONFIG = ''/etc/ai-daemon/remote.toml''"
definition REMOTE_SOCKET :: string where "REMOTE_SOCKET = ''/run/ai-daemon-remote/remote.sock''"

record remote_cfg =
  rc_base_url :: string
  rc_api_key_file :: "string option"
  rc_models :: "(string \<times> string) list"
  rc_capabilities :: "string list"
  rc_allow_plaintext :: bool

definition default_remote_cfg :: remote_cfg where
  "default_remote_cfg =
     \<lparr> rc_base_url = [], rc_api_key_file = None, rc_models = [], rc_capabilities = [], rc_allow_plaintext = False \<rparr>"

definition load_remote_cfg :: "(string \<Rightarrow> string option) \<Rightarrow> (string \<Rightarrow> remote_cfg option) \<Rightarrow> string \<Rightarrow> remote_cfg" where
  "load_remote_cfg rd toml path =
     (case rd path of
        None \<Rightarrow> default_remote_cfg
      | Some text \<Rightarrow> unwrap_or (toml text) default_remote_cfg)"

definition usable :: "remote_cfg \<Rightarrow> bool" where
  "usable c \<longleftrightarrow> rc_base_url c \<noteq> [] \<and> rc_models c \<noteq> []"

definition read_api_key :: "(string \<Rightarrow> string option) \<Rightarrow> remote_cfg \<Rightarrow> string option" where
  "read_api_key rd c = Option.bind (rc_api_key_file c) (\<lambda>path. map_option trim (rd path))"

subsection \<open>What is sent to the endpoint\<close>

definition remote_message :: "message \<Rightarrow> json" where
  "remote_message m =
     JObj [(''role'', JStr (if msg_role m = ''tool'' then ''user'' else msg_role m)), (''content'', JStr (msg_content m))]"

definition remote_tool :: "tool_schema \<Rightarrow> json" where
  "remote_tool t =
     JObj [(''type'', JStr ''function''),
           (''function'', JObj [(''name'', JStr (tool_name t)), (''description'', JStr (tool_description t)),
              (''parameters'', if tool_json_schema t = JNull then JObj [(''type'', JStr ''object''), (''properties'', JObj [])]
                               else tool_json_schema t)])]"

text \<open>Assigning to a key of the body: these keys are all different.\<close>

definition body_for :: "json_lib \<Rightarrow> string \<Rightarrow> message list \<Rightarrow> params \<Rightarrow> tool_schema list \<Rightarrow> bool \<Rightarrow> bool \<Rightarrow> json" where
  "body_for jl remote_model ms p tools parallel_tools stream =
     JObj ([(''model'', JStr remote_model), (''messages'', JArr (map remote_message ms)), (''stream'', JBool stream)]
       @ (case temperature p of Some v \<Rightarrow> [(''temperature'', jl_of_f32 jl v)] | None \<Rightarrow> [])
       @ (case top_p p of Some v \<Rightarrow> [(''top_p'', jl_of_f32 jl v)] | None \<Rightarrow> [])
       @ (case seed p of Some v \<Rightarrow> [(''seed'', jnum v)] | None \<Rightarrow> [])
       @ (case max_tokens p of Some v \<Rightarrow> [(''max_tokens'', jnum v)] | None \<Rightarrow> [])
       @ (case stop p of Some ss \<Rightarrow> [(''stop'', JArr (map JStr ss))] | None \<Rightarrow> [])
       @ (if logit_bias p = [] then []
          else [(''logit_bias'', JObj (map (\<lambda>(tok, b). (show_nat tok, jl_of_f32 jl b)) (logit_bias p)))])
       @ (case logprobs p of
            Some n \<Rightarrow> if 0 < n then [(''logprobs'', JBool True), (''top_logprobs'', jnum n)] else []
          | None \<Rightarrow> [])
       @ (if tools = [] then []
          else [(''tools'', JArr (map remote_tool tools)), (''parallel_tool_calls'', JBool parallel_tools)]))"

definition trim_end_slashes :: "string \<Rightarrow> string" where
  "trim_end_slashes s = rev (dropWhile (\<lambda>c. c = CHR ''/'') (rev s))"

definition transfer_command :: "remote_cfg \<Rightarrow> string option \<Rightarrow> string \<Rightarrow> string \<Rightarrow> string list" where
  "transfer_command c api_key path body =
     [''-sS'', ''--fail-with-body'', ''--no-buffer'', ''--proto'',
      if rc_allow_plaintext c then ''=http,https'' else ''=https'', ''--proto-redir'', ''=https'', ''--max-redirs'', ''3'',
      ''--connect-timeout'', ''30'', ''-H'', ''Content-Type: application/json'', ''-d'', body]
     @ (case api_key of Some k \<Rightarrow> [''-H'', ''Authorization: Bearer '' @ k] | None \<Rightarrow> [])
     @ [trim_end_slashes (rc_base_url c) @ ''/'' @ path]"

subsection \<open>Reading the stream\<close>

record gen =
  gn_emitted :: nat
  gn_prompt :: nat
  gn_finish :: "string option"
  gn_calls :: "tool_call list"

definition fresh_gen :: gen where
  "fresh_gen = \<lparr> gn_emitted = 0, gn_prompt = 0, gn_finish = None, gn_calls = [] \<rparr>"

fun jfirst :: "json \<Rightarrow> json option" where
  "jfirst (JArr (x # _)) = Some x"
| "jfirst _ = None"

definition remote_call :: "nat \<Rightarrow> nat \<Rightarrow> json \<Rightarrow> tool_call" where
  "remote_call req n call =
     (let f = jget ''function'' call
      in \<lparr> tc_id = unwrap_or (jfield jstr ''id'' call) (''call-'' @ show_nat req @ ''-'' @ show_nat n),
           tc_name = unwrap_or (Option.bind f (jfield jstr ''name'')) [],
           tc_arguments = unwrap_or (Option.bind f (jfield jstr ''arguments'')) ''{}'' \<rparr>)"

fun collect_calls :: "nat \<Rightarrow> json list \<Rightarrow> tool_call list \<Rightarrow> tool_call list" where
  "collect_calls req [] done = done"
| "collect_calls req (call # rest) done = collect_calls req rest (done @ [remote_call req (length done) call])"

definition remote_prob :: "json_lib \<Rightarrow> json \<Rightarrow> token_prob option" where
  "remote_prob jl alt =
     Option.bind (jfield jstr ''token'' alt) (\<lambda>tok. Option.bind (jfield (jf32 jl) ''logprob'' alt) (\<lambda>lp.
       Some \<lparr> tp_tok = tok, tp_logprob = lp \<rparr>))"

definition remote_logprobs :: "json_lib \<Rightarrow> json \<Rightarrow> token_prob list option" where
  "remote_logprobs jl choice =
     Option.bind (jget ''logprobs'' choice) (\<lambda>l. Option.bind (jfield jarr ''content'' l) (\<lambda>entries.
       case entries of
         [] \<Rightarrow> None
       | entry # _ \<Rightarrow> map_option (List.map_filter (remote_prob jl)) (jfield jarr ''top_logprobs'' entry)))"

text \<open>One chunk of the stream; \<open>mute\<close> is that tools were offered, and then text is not passed on.\<close>

definition take_choice :: "json_lib \<Rightarrow> nat \<Rightarrow> bool \<Rightarrow> json \<Rightarrow> gen \<Rightarrow> gen \<times> backend_event list" where
  "take_choice jl req mute choice g =
     (let g1 = (case jfield jstr ''finish_reason'' choice of Some why \<Rightarrow> g\<lparr> gn_finish := Some why \<rparr> | None \<Rightarrow> g);
          delta = jget ''delta'' choice
      in case Option.bind delta (jfield jarr ''tool_calls'') of
           Some calls \<Rightarrow> (g1\<lparr> gn_calls := collect_calls req calls (gn_calls g1) \<rparr>, [])
         | None \<Rightarrow>
             (case Option.bind delta (jfield jstr ''content'') of
                None \<Rightarrow> (g1, [])
              | Some tok \<Rightarrow>
                  if tok = [] then (g1, [])
                  else (g1\<lparr> gn_emitted := gn_emitted g1 + 1 \<rparr>,
                        if mute then [] else [BE_Token req tok (remote_logprobs jl choice)])))"

definition take_chunk :: "json_lib \<Rightarrow> nat \<Rightarrow> bool \<Rightarrow> json \<Rightarrow> gen \<Rightarrow> gen \<times> backend_event list" where
  "take_chunk jl req mute chunk g =
     (let g1 = (case jget ''usage'' chunk of
                  Some u \<Rightarrow> g\<lparr> gn_prompt := unwrap_or (jfield ju64 ''prompt_tokens'' u) (gn_prompt g) \<rparr>
                | None \<Rightarrow> g)
      in case Option.bind (jget ''choices'' chunk) jfirst of
           None \<Rightarrow> (g1, [])
         | Some choice \<Rightarrow> take_choice jl req mute choice g1)"

text \<open>One line that was read while the flag was down; \<open>None\<close> is the end of the stream.\<close>

definition take_line :: "json_lib \<Rightarrow> nat \<Rightarrow> bool \<Rightarrow> string \<Rightarrow> gen \<Rightarrow> (gen \<times> backend_event list) option" where
  "take_line jl req mute line g =
     (case strip_prefix ''data: '' line of
        None \<Rightarrow> Some (g, [])
      | Some rest \<Rightarrow>
          let payload = trim rest
          in if payload = ''[DONE]'' then None
             else if payload = [] then Some (g, [])
             else
               (case jl_parse_str jl payload of
                  None \<Rightarrow> Some (g, [])
                | Some chunk \<Rightarrow> Some (take_chunk jl req mute chunk g)))"

subsection \<open>The state and its threads\<close>

text \<open>
  A generation: about to start its transfer, with a child not yet in the table, reading the pipe
  of a child, done reading, waiting for the child it took from the table, and taking its flag and
  then its child out of the tables.
\<close>

datatype phase =
    Starting
  | Spawned nat
  | Reading nat gen
  | Reaping gen
  | Waiting nat gen
  | Clearing
  | Clearing_Child
  | Gone

record job =
  jb_conn :: nat
  jb_req :: nat
  jb_model :: string
  jb_messages :: "message list"
  jb_params :: params
  jb_tools :: "tool_schema list"
  jb_parallel :: bool
  jb_flag :: bool
  jb_phase :: phase

record embed_job =
  eb_conn :: nat
  eb_req :: nat
  eb_model :: string
  eb_inputs :: "string list"

text \<open>
  The state of the program, and of its children what the kernel knows: which were started and not
  yet waited for. What was heard, written, run and killed is kept in order.
\<close>

record remote =
  rm_cfg :: remote_cfg
  rm_key :: "string option"
  rm_transfers :: "(nat \<times> nat) list"
  rm_cancelled :: "(nat \<times> nat) list"
  rm_jobs :: "job list"
  rm_embeds :: "embed_job list"
  rm_live :: "nat list"
  rm_heard :: "backend_request list"
  rm_out :: "(nat \<times> backend_event) list"
  rm_ran :: "string list list"
  rm_killed :: "nat list"

definition remote_start :: "remote_cfg \<Rightarrow> string option \<Rightarrow> remote" where
  "remote_start c api_key =
     \<lparr> rm_cfg = c, rm_key = api_key, rm_transfers = [], rm_cancelled = [], rm_jobs = [], rm_embeds = [], rm_live = [],
       rm_heard = [], rm_out = [], rm_ran = [], rm_killed = [] \<rparr>"

definition remote_send :: "nat \<Rightarrow> backend_event \<Rightarrow> remote \<Rightarrow> remote" where
  "remote_send conn ev s = s\<lparr> rm_out := rm_out s @ [(conn, ev)] \<rparr>"

definition remote_info :: "remote_cfg \<Rightarrow> backend_info" where
  "remote_info c =
     \<lparr> bi_name = REMOTE_NAME, bi_version = REMOTE_VERSION, bi_formats = (if usable c then [''remote''] else []),
       bi_quantizations = [], bi_devices = [], bi_device_memory = None,
       bi_capabilities =
         (if usable c then (if rc_capabilities c = [] then [''generate'', ''tools''] else rc_capabilities c) else []),
       bi_local = False \<rparr>"

definition lower_flag :: "nat \<Rightarrow> job list \<Rightarrow> job list" where
  "lower_flag i jobs = (if i < length jobs then jobs[i := (jobs ! i)\<lparr> jb_flag := True \<rparr>] else jobs)"

text \<open>One request; the answer says whether the connection is over.\<close>

definition remote_handle :: "nat \<Rightarrow> backend_request \<Rightarrow> remote \<Rightarrow> bool \<times> remote" where
  "remote_handle conn req s0 =
     (let s = s0\<lparr> rm_heard := rm_heard s0 @ [req] \<rparr>
      in case req of
           B_Hello proto \<Rightarrow>
             if \<not> (MIN_BACKEND_PROTO \<le> proto \<and> proto \<le> BACKEND_PROTO)
             then (True, remote_send conn (BE_Error None ''protocol''
                     (REMOTE_NAME @ '' speaks protocol '' @ show_nat MIN_BACKEND_PROTO @ ''..='' @ show_nat BACKEND_PROTO)) s)
             else (False, remote_send conn (BE_Hello BACKEND_PROTO (remote_info (rm_cfg s))) s)
         | B_Load model_id _ _ n_ctx \<Rightarrow>
             (False, remote_send conn
                (if map_of (rc_models (rm_cfg s)) model_id \<noteq> None
                 then BE_Loaded model_id 0 (if n_ctx = 0 then 8192 else n_ctx)
                 else BE_Error None ''no-such-model'' (model_id @ '' is not in this backend's model map'')) s)
         | B_Unload model_id \<Rightarrow> (False, remote_send conn (BE_Unloaded model_id) s)
         | B_Generate r model_id _ ms p _ tools parallel atts \<Rightarrow>
             if atts \<noteq> []
             then (False, remote_send conn
                     (BE_Error (Some r) ''attachment-unsupported'' ''this backend declares no vision or audio-in'') s)
             else
               (False, s\<lparr> rm_cancelled := AList.update r (length (rm_jobs s)) (rm_cancelled s),
                          rm_jobs := rm_jobs s @
                            [\<lparr> jb_conn = conn, jb_req = r, jb_model = model_id, jb_messages = ms, jb_params = p,
                               jb_tools = unwrap_or tools [], jb_parallel = parallel, jb_flag = False, jb_phase = Starting \<rparr>] \<rparr>)
         | B_Cancel r \<Rightarrow>
             (False, s\<lparr> rm_jobs := (case map_of (rm_cancelled s) r of Some i \<Rightarrow> lower_flag i (rm_jobs s) | None \<Rightarrow> rm_jobs s),
                        rm_killed := rm_killed s @ (case map_of (rm_transfers s) r of Some pid \<Rightarrow> [pid] | None \<Rightarrow> []) \<rparr>)
         | B_Pause _ \<Rightarrow> (False, s)
         | B_Resume _ \<Rightarrow> (False, s)
         | B_DropCache _ \<Rightarrow> (False, s)
         | B_Embed r model_id inputs \<Rightarrow>
             (False, s\<lparr> rm_embeds := rm_embeds s @ [\<lparr> eb_conn = conn, eb_req = r, eb_model = model_id, eb_inputs = inputs \<rparr>] \<rparr>)
         | B_Tokenize r _ _ \<Rightarrow>
             (False, remote_send conn
                (BE_Error (Some r) ''attachment-unsupported'' (REMOTE_NAME @ '' cannot tokenize; the model is not on this machine'')) s)
         | B_GenerateMedia r _ _ kind _ _ _ \<Rightarrow>
             (False, remote_send conn
                (BE_Error (Some r) ''attachment-unsupported'' (REMOTE_NAME @ '' does not generate '' @ media_as_str kind)) s)
         | B_Shutdown \<Rightarrow> (True, s))"

subsection \<open>The thread of a generation\<close>

definition set_phase :: "nat \<Rightarrow> phase \<Rightarrow> remote \<Rightarrow> remote" where
  "set_phase i ph s = s\<lparr> rm_jobs := (rm_jobs s)[i := (rm_jobs s ! i)\<lparr> jb_phase := ph \<rparr>] \<rparr>"

definition job_send :: "nat \<Rightarrow> backend_event \<Rightarrow> remote \<Rightarrow> remote" where
  "job_send i ev s = remote_send (jb_conn (rm_jobs s ! i)) ev s"

text \<open>The \<open>Err\<close> of a generation is sent by its thread, which then clears the tables.\<close>

definition job_fails :: "nat \<Rightarrow> string \<Rightarrow> remote \<Rightarrow> remote" where
  "job_fails i err s =
     set_phase i Clearing (job_send i (BE_Error (Some (jb_req (rm_jobs s ! i))) ''backend-failed'' err) s)"

definition missing_model :: "string \<Rightarrow> string" where
  "missing_model model_id = model_id @ '' is not in this backend's model map''"

text \<open>The model is looked up and the transfer started; the outcome is a process or an error.\<close>

definition job_start :: "json_lib \<Rightarrow> nat \<Rightarrow> string + nat \<Rightarrow> remote \<Rightarrow> remote" where
  "job_start jl i outcome s =
     (let j = rm_jobs s ! i
      in case map_of (rc_models (rm_cfg s)) (jb_model j) of
           None \<Rightarrow> job_fails i (missing_model (jb_model j)) s
         | Some remote_model \<Rightarrow>
             let body = body_for jl remote_model (jb_messages j) (jb_params j) (jb_tools j) (jb_parallel j) True;
                 s1 = s\<lparr> rm_ran := rm_ran s @ [transfer_command (rm_cfg s) (rm_key s) ''chat/completions'' (jl_show jl body)] \<rparr>
             in case outcome of
                  Inl err \<Rightarrow> job_fails i (''running curl: '' @ err) s1
                | Inr pid \<Rightarrow> set_phase i (Spawned pid) (s1\<lparr> rm_live := rm_live s1 @ [pid] \<rparr>))"

definition job_register :: "nat \<Rightarrow> remote \<Rightarrow> remote" where
  "job_register i s =
     (case jb_phase (rm_jobs s ! i) of
        Spawned pid \<Rightarrow>
          set_phase i (Reading pid fresh_gen)
            (s\<lparr> rm_transfers := AList.update (jb_req (rm_jobs s ! i)) pid (rm_transfers s) \<rparr>)
      | _ \<Rightarrow> s)"

datatype pipe = Pipe_Line string | Pipe_End | Pipe_Error string

definition job_read :: "json_lib \<Rightarrow> nat \<Rightarrow> pipe \<Rightarrow> remote \<Rightarrow> remote" where
  "job_read jl i heard s =
     (let j = rm_jobs s ! i
      in case jb_phase j of
           Reading pid g \<Rightarrow>
             (let stopped = (if jb_flag j then g\<lparr> gn_finish := Some ''cancelled'' \<rparr> else g)
              in case heard of
                   Pipe_Error err \<Rightarrow> job_fails i err s
                 | Pipe_End \<Rightarrow> set_phase i (Reaping stopped) s
                 | Pipe_Line line \<Rightarrow>
                     if jb_flag j then set_phase i (Reaping stopped) s
                     else
                       (case take_line jl (jb_req j) (jb_tools j \<noteq> []) line g of
                          None \<Rightarrow> set_phase i (Reaping g) s
                        | Some (g', evs) \<Rightarrow> set_phase i (Reading pid g') (foldl (\<lambda>s ev. job_send i ev s) s evs)))
         | _ \<Rightarrow> s)"

text \<open>What a generation says at the end, when its transfer is not to be reported as failed.\<close>

definition closing_events :: "nat \<Rightarrow> bool \<Rightarrow> gen \<Rightarrow> backend_event list" where
  "closing_events r parallel g =
     (let u = no_usage\<lparr> prompt_tokens := gn_prompt g, completion_tokens := gn_emitted g \<rparr>
      in case gn_calls g of
           [] \<Rightarrow> [BE_Done r u (Some (unwrap_or (gn_finish g) ''stop''))]
         | call # more_calls \<Rightarrow>
             [if more_calls \<noteq> [] \<and> parallel then BE_ToolCalls r (call # more_calls) else BE_ToolCall r call,
              BE_Done r u (Some ''tool_call'')])"

definition job_closes :: "nat \<Rightarrow> gen \<Rightarrow> remote \<Rightarrow> remote" where
  "job_closes i g s =
     set_phase i Clearing
       (foldl (\<lambda>s ev. job_send i ev s) s (closing_events (jb_req (rm_jobs s ! i)) (jb_parallel (rm_jobs s ! i)) g))"

definition job_take :: "nat \<Rightarrow> remote \<Rightarrow> remote" where
  "job_take i s =
     (let r = jb_req (rm_jobs s ! i)
      in case jb_phase (rm_jobs s ! i) of
           Reaping g \<Rightarrow>
             (case map_of (rm_transfers s) r of
                None \<Rightarrow> job_closes i g s
              | Some pid \<Rightarrow> set_phase i (Waiting pid g) (s\<lparr> rm_transfers := AList.delete r (rm_transfers s) \<rparr>))
         | _ \<Rightarrow> s)"

definition last_complaint :: "remote_cfg \<Rightarrow> string \<Rightarrow> string" where
  "last_complaint c complaint =
     (let said = trim complaint
      in if said = [] then ''the transfer to '' @ rc_base_url c @ '' failed and said nothing''
         else if rust_lines said = [] then said else last (rust_lines said))"

text \<open>The child is killed and waited for: whether it failed, and what it printed on its error output.\<close>

definition job_reap :: "nat \<Rightarrow> bool \<Rightarrow> string \<Rightarrow> remote \<Rightarrow> remote" where
  "job_reap i failed complaint s =
     (let j = rm_jobs s ! i
      in case jb_phase j of
           Waiting pid g \<Rightarrow>
             (let s1 = s\<lparr> rm_killed := rm_killed s @ [pid], rm_live := removeAll pid (rm_live s) \<rparr>
              in if failed \<and> \<not> jb_flag j then job_fails i (last_complaint (rm_cfg s) complaint) s1
                 else job_closes i g s1)
         | _ \<Rightarrow> s)"

definition job_clear :: "nat \<Rightarrow> remote \<Rightarrow> remote" where
  "job_clear i s =
     (let r = jb_req (rm_jobs s ! i)
      in case jb_phase (rm_jobs s ! i) of
           Clearing \<Rightarrow> set_phase i Clearing_Child (s\<lparr> rm_cancelled := AList.delete r (rm_cancelled s) \<rparr>)
         | Clearing_Child \<Rightarrow> set_phase i Gone (s\<lparr> rm_transfers := AList.delete r (rm_transfers s) \<rparr>)
         | _ \<Rightarrow> s)"

subsection \<open>Embedding\<close>

text \<open>What a finished transfer gave: that it could not be started or read, or its text, status and complaint.\<close>

definition read_vector :: "json_lib \<Rightarrow> json \<Rightarrow> f32 list" where
  "read_vector jl entry = unwrap_or (map_option (List.map_filter (jf32 jl)) (jfield jarr ''embedding'' entry)) []"

definition embed_reply :: "json_lib \<Rightarrow> remote_cfg \<Rightarrow> string + string \<times> bool \<times> string \<Rightarrow> string + f32 list list" where
  "embed_reply jl c transfer =
     (case transfer of
        Inl err \<Rightarrow> Inl err
      | Inr (response, failed, complaint) \<Rightarrow>
          if failed then Inl (last_complaint c complaint)
          else
            (case jl_parse_str jl response of
               None \<Rightarrow> Inl ''embedding reply''
             | Some v \<Rightarrow>
                 (case jfield jarr ''data'' v of
                    None \<Rightarrow> Inl (''no embeddings in the reply: '' @ take 200 response)
                  | Some items \<Rightarrow> Inr (map (read_vector jl) items))))"

definition embed_finish :: "json_lib \<Rightarrow> nat \<Rightarrow> string + string \<times> bool \<times> string \<Rightarrow> remote \<Rightarrow> remote" where
  "embed_finish jl k transfer s =
     (let e = rm_embeds s ! k;
          s1 = s\<lparr> rm_embeds := take k (rm_embeds s) @ drop (Suc k) (rm_embeds s) \<rparr>
      in case map_of (rc_models (rm_cfg s)) (eb_model e) of
           None \<Rightarrow> remote_send (eb_conn e) (BE_Error (Some (eb_req e)) ''backend-failed'' (missing_model (eb_model e))) s1
             | Some remote_model \<Rightarrow>
             let body = JObj [(''model'', JStr remote_model), (''input'', JArr (map JStr (eb_inputs e)))];
                 s2 = s1\<lparr> rm_ran := rm_ran s1 @ [transfer_command (rm_cfg s) (rm_key s) ''embeddings'' (jl_show jl body)] \<rparr>
             in case embed_reply jl (rm_cfg s) transfer of
                  Inl err \<Rightarrow> remote_send (eb_conn e) (BE_Error (Some (eb_req e)) ''backend-failed'' err) s2
                | Inr vs \<Rightarrow>
                    remote_send (eb_conn e) (BE_Done (eb_req e) no_usage (Some ''stop''))
                      (remote_send (eb_conn e) (BE_Vectors (eb_req e) vs) s2))"

subsection \<open>The threads together\<close>

text \<open>A process number is not given to a new child while the old one has not been waited for.\<close>

inductive rm_step :: "json_lib \<Rightarrow> remote \<Rightarrow> remote \<Rightarrow> bool" for jl where
  hears: "rm_step jl s (snd (remote_handle conn req s))"
| starts: "i < length (rm_jobs s) \<Longrightarrow> jb_phase (rm_jobs s ! i) = Starting \<Longrightarrow> (\<forall>pid. outcome = Inr pid \<longrightarrow> pid \<notin> set (rm_live s))
    \<Longrightarrow> rm_step jl s (job_start jl i outcome s)"
| registers: "i < length (rm_jobs s) \<Longrightarrow> jb_phase (rm_jobs s ! i) = Spawned pid \<Longrightarrow> rm_step jl s (job_register i s)"
| reads: "i < length (rm_jobs s) \<Longrightarrow> jb_phase (rm_jobs s ! i) = Reading pid g \<Longrightarrow> rm_step jl s (job_read jl i heard s)"
| takes: "i < length (rm_jobs s) \<Longrightarrow> jb_phase (rm_jobs s ! i) = Reaping g \<Longrightarrow> rm_step jl s (job_take i s)"
| reaps: "i < length (rm_jobs s) \<Longrightarrow> jb_phase (rm_jobs s ! i) = Waiting pid g \<Longrightarrow> rm_step jl s (job_reap i failed complaint s)"
| clears: "i < length (rm_jobs s) \<Longrightarrow> jb_phase (rm_jobs s ! i) \<in> {Clearing, Clearing_Child} \<Longrightarrow> rm_step jl s (job_clear i s)"
| embeds: "k < length (rm_embeds s) \<Longrightarrow> rm_step jl s (embed_finish jl k transfer s)"

inductive_cases rm_stepE: "rm_step jl s t"

subsection \<open>Each request is answered once\<close>

fun asks :: "nat \<Rightarrow> backend_request \<Rightarrow> bool" where
  "asks r (B_Generate r' _ _ _ _ _ _ _ _) = (r = r')"
| "asks r (B_Embed r' _ _) = (r = r')"
| "asks r (B_Tokenize r' _ _) = (r = r')"
| "asks r (B_GenerateMedia r' _ _ _ _ _ _) = (r = r')"
| "asks r _ = False"

fun answers :: "nat \<Rightarrow> nat \<times> backend_event \<Rightarrow> bool" where
  "answers r (_, BE_Done r' _ _) = (r = r')"
| "answers r (_, BE_Error (Some r') _ _) = (r = r')"
| "answers r _ = False"

fun unanswered :: "phase \<Rightarrow> bool" where
  "unanswered Clearing = False"
| "unanswered Clearing_Child = False"
| "unanswered Gone = False"
| "unanswered _ = True"

definition number :: "('a \<Rightarrow> bool) \<Rightarrow> 'a list \<Rightarrow> nat" where
  "number P xs = length (filter P xs)"

definition owing :: "nat \<Rightarrow> remote \<Rightarrow> nat" where
  "owing r s = number (\<lambda>j. jb_req j = r \<and> unanswered (jb_phase j)) (rm_jobs s) + number (\<lambda>e. eb_req e = r) (rm_embeds s)"

definition balanced :: "remote \<Rightarrow> bool" where
  "balanced s \<longleftrightarrow> (\<forall>r. number (answers r) (rm_out s) + owing r s = number (asks r) (rm_heard s))"

lemma number_simps [simp]:
  "number P [] = 0" "number P (x # xs) = of_bool (P x) + number P xs" "number P (xs @ ys) = number P xs + number P ys"
  by (simp_all add: number_def)

lemma number_update: "i < length xs \<Longrightarrow> number P (xs[i := y]) + of_bool (P (xs ! i)) = number P xs + of_bool (P y)"
proof (induction xs arbitrary: i)
  case (Cons x xs)
  then show ?case
    by (cases i) auto
qed simp

lemma number_remove: "k < length xs \<Longrightarrow> number P (take k xs @ drop (Suc k) xs) + of_bool (P (xs ! k)) = number P xs"
  using arg_cong[OF id_take_nth_drop[of k xs], of "number P"] by simp

lemma job_sends [simp]:
  "rm_jobs (foldl (\<lambda>s ev. job_send i ev s) s evs) = rm_jobs s"
  "rm_embeds (foldl (\<lambda>s ev. job_send i ev s) s evs) = rm_embeds s"
  "rm_heard (foldl (\<lambda>s ev. job_send i ev s) s evs) = rm_heard s"
  "rm_transfers (foldl (\<lambda>s ev. job_send i ev s) s evs) = rm_transfers s"
  "rm_live (foldl (\<lambda>s ev. job_send i ev s) s evs) = rm_live s"
  "rm_cfg (foldl (\<lambda>s ev. job_send i ev s) s evs) = rm_cfg s"
  "rm_key (foldl (\<lambda>s ev. job_send i ev s) s evs) = rm_key s"
  "rm_ran (foldl (\<lambda>s ev. job_send i ev s) s evs) = rm_ran s"
  by (induction evs arbitrary: s) (simp_all add: job_send_def remote_send_def)

lemma job_sends_out: "rm_out (foldl (\<lambda>s ev. job_send i ev s) s evs) = rm_out s @ map (Pair (jb_conn (rm_jobs s ! i))) evs"
  by (induction evs arbitrary: s) (simp_all add: job_send_def remote_send_def)

lemma set_phase_balanced:
  assumes "i < length (rm_jobs s)" "unanswered ph = unanswered (jb_phase (rm_jobs s ! i))" "balanced s"
  shows "balanced (set_phase i ph s)"
proof -
  have "number (\<lambda>j. jb_req j = r \<and> unanswered (jb_phase j)) (rm_jobs (set_phase i ph s))
      = number (\<lambda>j. jb_req j = r \<and> unanswered (jb_phase j)) (rm_jobs s)" for r
    using number_update[OF assms(1), of "\<lambda>j. jb_req j = r \<and> unanswered (jb_phase j)" "(rm_jobs s ! i)\<lparr> jb_phase := ph \<rparr>"] assms(2)
    by (simp add: set_phase_def)
  then show ?thesis
    using assms(3) by (simp add: balanced_def owing_def set_phase_def)
qed

text \<open>The one place where a generation is answered: one terminal event is sent and nothing is owed any more.\<close>

lemma answer_balanced:
  assumes "i < length (rm_jobs s)" "unanswered (jb_phase (rm_jobs s ! i))" "balanced s"
    and "\<And>r. number (answers r) (map (Pair c) evs) = of_bool (r = jb_req (rm_jobs s ! i))"
    and "c = jb_conn (rm_jobs s ! i)"
  shows "balanced (set_phase i Clearing (foldl (\<lambda>s ev. job_send i ev s) s evs))"
proof -
  have "number (\<lambda>j. jb_req j = r \<and> unanswered (jb_phase j)) (rm_jobs (set_phase i Clearing s)) + of_bool (r = jb_req (rm_jobs s ! i))
      = number (\<lambda>j. jb_req j = r \<and> unanswered (jb_phase j)) (rm_jobs s)" for r
    using number_update[OF assms(1), of "\<lambda>j. jb_req j = r \<and> unanswered (jb_phase j)" "(rm_jobs s ! i)\<lparr> jb_phase := Clearing \<rparr>"] assms(2)
    by (auto simp: set_phase_def split: if_splits)
  note n = this
  show ?thesis
    unfolding balanced_def owing_def
  proof
    fix r
    show "number (answers r) (rm_out (set_phase i Clearing (foldl (\<lambda>s ev. job_send i ev s) s evs)))
      + (number (\<lambda>j. jb_req j = r \<and> unanswered (jb_phase j)) (rm_jobs (set_phase i Clearing (foldl (\<lambda>s ev. job_send i ev s) s evs)))
      + number (\<lambda>e. eb_req e = r) (rm_embeds (set_phase i Clearing (foldl (\<lambda>s ev. job_send i ev s) s evs))))
      = number (asks r) (rm_heard (set_phase i Clearing (foldl (\<lambda>s ev. job_send i ev s) s evs)))"
      using n[of r] assms(4)[of r] assms(3)[unfolded balanced_def owing_def, rule_format, of r]
      by (simp add: set_phase_def job_sends_out assms(5))
  qed
qed

lemma job_fails_balanced:
  assumes "i < length (rm_jobs s)" "unanswered (jb_phase (rm_jobs s ! i))" "balanced s"
  shows "balanced (job_fails i err s)"
  using answer_balanced[OF assms, of "jb_conn (rm_jobs s ! i)" "[BE_Error (Some (jb_req (rm_jobs s ! i))) ''backend-failed'' err]"]
  by (auto simp: job_fails_def)

lemma job_closes_balanced:
  assumes "i < length (rm_jobs s)" "unanswered (jb_phase (rm_jobs s ! i))" "balanced s"
  shows "balanced (job_closes i g s)"
  unfolding job_closes_def
  by (rule answer_balanced[OF assms]) (auto simp: closing_events_def Let_def split: list.split)

lemma take_line_silent: "take_line jl req mute line g = Some (g', evs) \<Longrightarrow> number (answers r) (map (Pair c) evs) = 0"
  by (auto simp: take_line_def take_chunk_def take_choice_def Let_def split: option.splits if_splits)

text \<open>What leaves the accounts alone.\<close>

lemma balanced_tables [simp]:
  "balanced (s\<lparr> rm_transfers := a \<rparr>) = balanced s" "balanced (s\<lparr> rm_cancelled := b \<rparr>) = balanced s"
  "balanced (s\<lparr> rm_live := c \<rparr>) = balanced s" "balanced (s\<lparr> rm_ran := d \<rparr>) = balanced s"
  "balanced (s\<lparr> rm_killed := e \<rparr>) = balanced s"
  by (simp_all add: balanced_def owing_def)

lemma job_sends_balanced:
  "balanced s \<Longrightarrow> (\<And>r c. number (answers r) (map (Pair c) evs) = 0) \<Longrightarrow> balanced (foldl (\<lambda>s ev. job_send i ev s) s evs)"
  by (simp add: balanced_def owing_def job_sends_out)

lemma lower_flag_number:
  "number (\<lambda>j. jb_req j = r \<and> unanswered (jb_phase j)) (lower_flag i js) = number (\<lambda>j. jb_req j = r \<and> unanswered (jb_phase j)) js"
  using number_update[of i js "\<lambda>j. jb_req j = r \<and> unanswered (jb_phase j)" "(js ! i)\<lparr> jb_flag := True \<rparr>"]
  by (simp add: lower_flag_def)

lemma handle_balanced: "balanced s \<Longrightarrow> balanced (snd (remote_handle conn req s))"
  by (cases req)
    (simp_all add: balanced_def owing_def remote_handle_def remote_send_def lower_flag_number Let_def split: option.split)

lemma job_start_balanced:
  assumes "i < length (rm_jobs s)" "jb_phase (rm_jobs s ! i) = Starting" "balanced s"
  shows "balanced (job_start jl i outcome s)"
  using assms by (auto simp: job_start_def Let_def intro!: job_fails_balanced set_phase_balanced split: option.split sum.split)

lemma job_read_balanced:
  assumes "i < length (rm_jobs s)" "jb_phase (rm_jobs s ! i) = Reading pid g" "balanced s"
  shows "balanced (job_read jl i heard s)"
  using assms
  by (auto simp: job_read_def Let_def intro!: job_fails_balanced set_phase_balanced job_sends_balanced
      dest: take_line_silent split: pipe.split option.split)

lemma embed_balanced:
  assumes "k < length (rm_embeds s)" "balanced s"
  shows "balanced (embed_finish jl k transfer s)"
  unfolding balanced_def
proof
  fix r
  show "number (answers r) (rm_out (embed_finish jl k transfer s)) + owing r (embed_finish jl k transfer s)
    = number (asks r) (rm_heard (embed_finish jl k transfer s))"
    using number_remove[OF assms(1), of "\<lambda>e. eb_req e = r"] assms(2)[unfolded balanced_def owing_def, rule_format, of r]
    by (auto simp: owing_def embed_finish_def Let_def remote_send_def split: option.split sum.split)
qed

lemma step_balanced: "rm_step jl s t \<Longrightarrow> balanced s \<Longrightarrow> balanced t"
  by (auto elim!: rm_stepE intro: handle_balanced job_start_balanced job_read_balanced embed_balanced
      simp: job_register_def job_take_def job_reap_def job_clear_def Let_def
      intro!: set_phase_balanced job_closes_balanced job_fails_balanced split: option.split)

subsection \<open>Children are killed before they are waited for\<close>

text \<open>The children in the table and the ones a thread has in hand: all different, none waited for.\<close>

fun in_hand :: "phase \<Rightarrow> nat option" where
  "in_hand (Spawned pid) = Some pid"
| "in_hand (Waiting pid _) = Some pid"
| "in_hand _ = None"

definition held_apart :: "(nat \<times> nat) list \<Rightarrow> nat list \<Rightarrow> nat option list \<Rightarrow> bool" where
  "held_apart t l hs \<longleftrightarrow>
     (\<forall>r p. map_of t r = Some p \<longrightarrow> p \<in> set l) \<and>
     (\<forall>r r' p. map_of t r = Some p \<longrightarrow> map_of t r' = Some p \<longrightarrow> r = r') \<and>
     (\<forall>i p. i < length hs \<longrightarrow> hs ! i = Some p \<longrightarrow> p \<in> set l \<and> (\<forall>r. map_of t r \<noteq> Some p)) \<and>
     (\<forall>i j p. i < length hs \<longrightarrow> j < length hs \<longrightarrow> hs ! i = Some p \<longrightarrow> hs ! j = Some p \<longrightarrow> i = j)"

lemma held_apart_rules:
  assumes "held_apart t l hs"
  shows held_release: "held_apart t l (hs[i := None])"
    and held_delete: "held_apart (AList.delete r t) l hs"
    and held_more: "held_apart t l (hs @ [None])"
    and held_spawn: "pid \<notin> set l \<Longrightarrow> held_apart t (l @ [pid]) (hs[i := Some pid])"
    and held_register: "i < length hs \<Longrightarrow> hs ! i = Some pid \<Longrightarrow> held_apart (AList.update r pid t) l (hs[i := None])"
    and held_take: "map_of t r = Some pid \<Longrightarrow> held_apart (AList.delete r t) l (hs[i := Some pid])"
    and held_reap: "i < length hs \<Longrightarrow> hs ! i = Some pid \<Longrightarrow> held_apart t (removeAll pid l) (hs[i := None])"
proof -
  note h = assms[unfolded held_apart_def]
  show "held_apart t l (hs[i := None])"
    using h by (auto simp: held_apart_def nth_updated split: if_splits)
  show "held_apart (AList.delete r t) l hs"
    using h by (auto simp: held_apart_def delete_conv' split: if_splits)
  show "held_apart t l (hs @ [None])"
    using h by (auto simp: held_apart_def nth_append less_Suc_eq split: if_splits)
  show "held_apart t (l @ [pid]) (hs[i := Some pid])" if "pid \<notin> set l"
    using h that by (auto simp: held_apart_def nth_updated split: if_splits)
  show "held_apart (AList.update r pid t) l (hs[i := None])" if "i < length hs" "hs ! i = Some pid"
    using h that by (auto simp: held_apart_def update_conv' nth_updated split: if_splits)
  show "held_apart (AList.delete r t) l (hs[i := Some pid])" if "map_of t r = Some pid"
    using h that by (auto simp: held_apart_def delete_conv' nth_updated split: if_splits)
  show "held_apart t (removeAll pid l) (hs[i := None])" if "i < length hs" "hs ! i = Some pid"
    using h that by (auto simp: held_apart_def nth_updated split: if_splits)
qed

definition hands :: "remote \<Rightarrow> nat option list" where
  "hands s = map (\<lambda>j. in_hand (jb_phase j)) (rm_jobs s)"

definition children_ok :: "remote \<Rightarrow> bool" where
  "children_ok s \<longleftrightarrow> held_apart (rm_transfers s) (rm_live s) (hands s)"

lemma hands_simps [simp]:
  "hands (set_phase i ph s) = (hands s)[i := in_hand ph]"
  "hands (job_send i ev s) = hands s" "hands (remote_send c ev s) = hands s"
  "length (hands s) = length (rm_jobs s)"
  by (simp_all add: hands_def set_phase_def map_update job_send_def remote_send_def)

lemma hands_sends [simp]: "hands (foldl (\<lambda>s ev. job_send i ev s) s evs) = hands s"
  by (simp add: hands_def)

lemma hands_same [simp]:
  "hands (s\<lparr> rm_transfers := a \<rparr>) = hands s" "hands (s\<lparr> rm_cancelled := b \<rparr>) = hands s"
  "hands (s\<lparr> rm_live := c \<rparr>) = hands s" "hands (s\<lparr> rm_ran := d \<rparr>) = hands s"
  "hands (s\<lparr> rm_killed := e \<rparr>) = hands s" "hands (s\<lparr> rm_embeds := f \<rparr>) = hands s" "hands (s\<lparr> rm_heard := g \<rparr>) = hands s"
  by (simp_all add: hands_def)

lemma set_phase_fields [simp]:
  "rm_transfers (set_phase i ph s) = rm_transfers s" "rm_live (set_phase i ph s) = rm_live s"
  "rm_cfg (set_phase i ph s) = rm_cfg s" "rm_ran (set_phase i ph s) = rm_ran s" "rm_key (set_phase i ph s) = rm_key s"
  "rm_transfers (remote_send c ev s) = rm_transfers s" "rm_live (remote_send c ev s) = rm_live s"
  "rm_cfg (remote_send c ev s) = rm_cfg s" "rm_ran (remote_send c ev s) = rm_ran s"
  "rm_key (remote_send c ev s) = rm_key s"
  by (simp_all add: set_phase_def remote_send_def)

lemma job_fails_fields [simp]:
  "rm_transfers (job_fails i err s) = rm_transfers s" "rm_live (job_fails i err s) = rm_live s"
  "rm_cfg (job_fails i err s) = rm_cfg s" "rm_ran (job_fails i err s) = rm_ran s"
  "hands (job_fails i err s) = (hands s)[i := None]"
  by (simp_all add: job_fails_def job_send_def)

lemma job_closes_fields [simp]:
  "rm_transfers (job_closes i g s) = rm_transfers s" "rm_live (job_closes i g s) = rm_live s"
  "rm_cfg (job_closes i g s) = rm_cfg s" "rm_ran (job_closes i g s) = rm_ran s"
  "hands (job_closes i g s) = (hands s)[i := None]"
  by (simp_all add: job_closes_def)

lemma lower_flag_hands: "map (\<lambda>j. in_hand (jb_phase j)) (lower_flag i js) = map (\<lambda>j. in_hand (jb_phase j)) js"
  by (simp add: lower_flag_def map_update list_update_same_conv)

lemma handle_children: "children_ok s \<Longrightarrow> children_ok (snd (remote_handle conn req s))"
  by (cases req)
    (auto simp: children_ok_def remote_handle_def Let_def hands_def lower_flag_hands held_more remote_send_def split: option.split)

lemma nth_hands: "i < length (rm_jobs s) \<Longrightarrow> hands s ! i = in_hand (jb_phase (rm_jobs s ! i))"
  by (simp add: hands_def)

lemma step_children: "rm_step jl s t \<Longrightarrow> children_ok s \<Longrightarrow> children_ok t"
proof (induction rule: rm_step.induct)
  case (reads i s pid g heard)
  have "(hands s)[i := None] = hands s"
    using reads by (simp add: list_update_same_conv nth_hands)
  with reads show ?case
    by (auto simp: children_ok_def job_read_def Let_def split: pipe.split option.split)
next
  case (embeds k s transfer)
  then show ?case
    by (auto simp: children_ok_def embed_finish_def Let_def split: option.split sum.split)
next
  case (reaps i s pid g failed complaint)
  then show ?case
    by (auto simp: children_ok_def job_reap_def Let_def nth_hands intro: held_reap)
next
  case (takes i s g)
  then show ?case
    by (auto simp: children_ok_def job_take_def Let_def intro: held_release held_take split: option.split)
qed (auto simp: children_ok_def job_start_def job_register_def job_clear_def Let_def nth_hands handle_children[unfolded children_ok_def]
    intro: held_release held_release[OF held_delete] held_spawn held_register held_delete split: option.split sum.split)

subsection \<open>All interleavings\<close>

definition goes_home :: "remote_cfg \<Rightarrow> string list \<Rightarrow> bool" where
  "goes_home c cmd \<longleftrightarrow>
     take 7 cmd = [''-sS'', ''--fail-with-body'', ''--no-buffer'', ''--proto'',
                   if rc_allow_plaintext c then ''=http,https'' else ''=https'', ''--proto-redir'', ''=https'']
     \<and> last cmd \<in> (\<lambda>path. trim_end_slashes (rc_base_url c) @ ''/'' @ path) ` {''chat/completions'', ''embeddings''}"

definition rm_inv :: "remote_cfg \<Rightarrow> remote \<Rightarrow> bool" where
  "rm_inv c s \<longleftrightarrow> balanced s \<and> children_ok s \<and> rm_cfg s = c \<and> list_all (goes_home c) (rm_ran s)"

lemma transfer_goes_home: "path \<in> {''chat/completions'', ''embeddings''} \<Longrightarrow> goes_home c (transfer_command c k path body)"
  by (auto simp: goes_home_def transfer_command_def split: option.split)

lemma handle_same:
  "rm_cfg (snd (remote_handle conn req s)) = rm_cfg s" "rm_ran (snd (remote_handle conn req s)) = rm_ran s"
  by (cases req; simp add: remote_handle_def Let_def)+

lemma step_home: "rm_step jl s t \<Longrightarrow> rm_cfg t = rm_cfg s \<and> (list_all (goes_home (rm_cfg s)) (rm_ran s) \<longrightarrow> list_all (goes_home (rm_cfg s)) (rm_ran t))"
  by (induction rule: rm_step.induct)
    (auto simp: job_start_def job_register_def job_read_def job_take_def job_reap_def job_clear_def embed_finish_def Let_def
      handle_same transfer_goes_home split: option.split sum.split pipe.split phase.split)

interpretation remoting: invariant_system "\<lambda>s. \<exists>k. s = remote_start c k" "rm_step jl" "rm_inv c"
proof
  fix s t
  show "\<exists>k. s = remote_start c k \<Longrightarrow> rm_inv c s"
    by (auto simp: rm_inv_def remote_start_def balanced_def owing_def children_ok_def held_apart_def hands_def)
  show "rm_step jl s t \<Longrightarrow> rm_inv c t" if "rm_inv c s"
    using that step_balanced step_children step_home unfolding rm_inv_def by metis
qed

text \<open>
  C31. The remote provider answers every request exactly once, whatever order its threads, its children
  and the daemon's requests come in. At any time and for every number, the answers given (a done
  or an error) and the generations and embeddings still under way together are the requests heard
  under that number; a cancellation kills no process but a child that was started and has not been
  waited for; and every transfer goes to the configured endpoint, by https unless plain text was
  allowed, and never by a redirection to anything else.
\<close>

theorem remote_answers_each_once:
  assumes "(rm_step jl)\<^sup>*\<^sup>* (remote_start c k) s"
  shows "number (answers r) (rm_out s) + owing r s = number (asks r) (rm_heard s)
    \<and> set (drop (length (rm_killed s)) (rm_killed (snd (remote_handle conn (B_Cancel r) s)))) \<subseteq> set (rm_live s)
    \<and> list_all (goes_home c) (rm_ran s)"
proof -
  have "rm_inv c s"
    by (rule remoting.reachable_inv[OF _ assms]) blast
  then have inv: "balanced s" "children_ok s" "list_all (goes_home c) (rm_ran s)"
    by (simp_all add: rm_inv_def)
  have "pid \<in> set (rm_live s)" if "map_of (rm_transfers s) r = Some pid" for pid
    using inv(2) that unfolding children_ok_def held_apart_def by blast
  then have "set (drop (length (rm_killed s)) (rm_killed (snd (remote_handle conn (B_Cancel r) s)))) \<subseteq> set (rm_live s)"
    by (auto simp: remote_handle_def Let_def split: option.splits)
  then show ?thesis
    using inv by (simp add: balanced_def)
qed

text \<open>One generation, up to its child in the table.\<close>

definition one_model :: remote_cfg where
  "one_model = \<lparr> rc_base_url = ''https://h/v1/'', rc_api_key_file = None, rc_models = [(''m'', ''far'')], rc_capabilities = [],
     rc_allow_plaintext = False \<rparr>"

definition ask_one :: backend_request where
  "ask_one = B_Generate 1 ''m'' [] [] default_params None None False []"

definition one_running :: remote where
  "one_running = job_register 0 (job_start plain_lib 0 (Inr 40) (snd (remote_handle 0 ask_one (remote_start one_model None))))"

lemma one_running_eq:
  "rm_jobs one_running = [\<lparr> jb_conn = 0, jb_req = 1, jb_model = ''m'', jb_messages = [], jb_params = default_params, jb_tools = [],
      jb_parallel = False, jb_flag = False, jb_phase = Reading 40 fresh_gen \<rparr>]"
  "rm_transfers one_running = [(1, 40)]" "rm_cancelled one_running = [(1, 0)]" "rm_live one_running = [40]"
  "rm_killed one_running = []" "rm_heard one_running = [ask_one]" "rm_out one_running = []" "rm_embeds one_running = []"
  "rm_cfg one_running = one_model"
  by (simp_all add: one_running_def job_register_def job_start_def remote_handle_def ask_one_def remote_start_def one_model_def
      set_phase_def Let_def)

lemma one_running_reached: "(rm_step plain_lib)\<^sup>*\<^sup>* (remote_start one_model None) one_running"
proof -
  let ?a = "snd (remote_handle 0 ask_one (remote_start one_model None))"
  let ?b = "job_start plain_lib 0 (Inr 40) ?a"
  have "rm_step plain_lib (remote_start one_model None) ?a"
    by (rule rm_step.hears)
  moreover have "rm_step plain_lib ?a ?b"
    by (rule rm_step.starts) (simp_all add: remote_handle_def ask_one_def remote_start_def Let_def)
  moreover have "rm_step plain_lib ?b one_running"
    unfolding one_running_def
    by (rule rm_step.registers[where pid = 40])
      (simp_all add: remote_handle_def ask_one_def remote_start_def Let_def job_start_def one_model_def set_phase_def)
  ultimately show ?thesis
    by (meson rtranclp.rtrancl_into_rtrancl rtranclp.rtrancl_refl)
qed

theorem remote_answers_each_once_witness:
  "owing 1 one_running = 1 \<and> rm_killed (snd (remote_handle 0 (B_Cancel 1) one_running)) = [40]
   \<and> 40 \<in> set (rm_live one_running)"
  using remote_answers_each_once[OF one_running_reached, of 1 0]
  by (simp add: one_running_eq remote_handle_def Let_def ask_one_def)

subsection \<open>Reading the bridge's own stream\<close>

text \<open>The lines of a text as they are read, each with its line feed.\<close>

fun lf_lines :: "string \<Rightarrow> string list" where
  "lf_lines [] = []"
| "lf_lines (c # s) = (if c = LF then [c] # lf_lines s else (case lf_lines s of [] \<Rightarrow> [[c]] | l # ls \<Rightarrow> (c # l) # ls))"

lemma lf_lines_line: "LF \<notin> set a \<Longrightarrow> lf_lines (a @ LF # s) = (a @ [LF]) # lf_lines s"
  by (induction a) auto

fun read_stream :: "json_lib \<Rightarrow> nat \<Rightarrow> bool \<Rightarrow> string list \<Rightarrow> gen \<Rightarrow> gen \<times> backend_event list" where
  "read_stream jl req mute [] g = (g, [])"
| "read_stream jl req mute (line # rest) g =
     (case take_line jl req mute line g of
        None \<Rightarrow> (g, [])
      | Some (g', evs) \<Rightarrow> (let (g'', evs') = read_stream jl req mute rest g' in (g'', evs @ evs')))"

text \<open>What is relied on of serde for a value that is printed: it reads back, on one line, with no space around it.\<close>

definition prints :: "json_lib \<Rightarrow> json \<Rightarrow> bool" where
  "prints jl v \<longleftrightarrow> (let t = jl_show jl v in
     jl_parse_str jl t = Some v \<and> LF \<notin> set t \<and> t \<noteq> [] \<and> t \<noteq> ''[DONE]'' \<and> \<not> is_space (hd t) \<and> \<not> is_space (last t))"

lemma trim_line:
  assumes "t \<noteq> []" "\<not> is_space (hd t)" "\<not> is_space (last t)"
  shows "trim (t @ [LF]) = t"
proof -
  have "dropWhile is_space (t @ [LF]) = t @ [LF]" "dropWhile is_space (rev t) = rev t"
    using assms by (simp_all add: dropWhile_eq_self_iff hd_rev)
  moreover have "is_space LF"
    by (simp add: is_space_def code_def)
  ultimately show ?thesis
    by (simp add: trim_def trim_start_def trim_end_def)
qed

lemma take_printed:
  assumes "prints jl v"
  shows "take_line jl req mute (''data: '' @ jl_show jl v @ [LF]) g = Some (take_chunk jl req mute v g)"
  using assms by (auto simp: prints_def Let_def take_line_def strip_prefix_def starts_with_def trim_line)

lemma take_blank: "take_line jl req mute [LF] g = Some (g, [])"
  by (simp add: take_line_def strip_prefix_def starts_with_def)

lemma take_comment: "take_line jl req mute ('': '' @ s) g = Some (g, [])"
  by (simp add: take_line_def strip_prefix_def starts_with_def)

lemma take_done: "take_line jl req mute (''data: [DONE]'' @ [LF]) g = None"
  by (simp add: take_line_def strip_prefix_def starts_with_def trim_def trim_start_def trim_end_def is_space_def code_def)

lemma read_data:
  assumes "prints jl v" "take_chunk jl req mute v g = (g', evs)"
  shows "read_stream jl req mute (lf_lines (data_text jl v @ s)) g
    = (let (g'', evs') = read_stream jl req mute (lf_lines s) g' in (g'', evs @ evs'))"
proof -
  have "LF \<notin> set (''data: '' @ jl_show jl v)"
    using assms(1) by (simp add: prints_def Let_def)
  from lf_lines_line[OF this, of "LF # s"] have "lf_lines (data_text jl v @ s) = (''data: '' @ jl_show jl v @ [LF]) # [LF] # lf_lines s"
    by (simp add: data_text_def)
  then show ?thesis
    using take_printed[OF assms(1), of req mute g] assms(2) by (simp add: take_blank split: prod.split)
qed

lemma read_notice:
  assumes "LF \<notin> set ev" "LF \<notin> set detail"
  shows "read_stream jl req mute (lf_lines (notice_text ev detail @ s)) g = read_stream jl req mute (lf_lines s) g"
proof -
  have "LF \<notin> set ('': '' @ ev @ '' '' @ detail)"
    using assms by simp
  from lf_lines_line[OF this, of "LF # s"]
  have "lf_lines (notice_text ev detail @ s) = ('': '' @ (ev @ '' '' @ detail @ [LF])) # [LF] # lf_lines s"
    by (simp add: notice_text_def)
  then show ?thesis
    using take_comment[of jl req mute "ev @ '' '' @ detail @ [LF]" g] by (simp add: take_blank split: prod.split)
qed

lemma read_done: "read_stream jl req mute (lf_lines DONE_TEXT) g = (g, [])"
proof -
  have "lf_lines DONE_TEXT = (''data: [DONE]'' @ [LF]) # [[LF]]"
    by (simp add: DONE_TEXT_def)
  then show ?thesis
    by (simp only: read_stream.simps take_done option.case)
qed

fun event_chunk :: "string \<Rightarrow> string \<Rightarrow> event \<Rightarrow> json option" where
  "event_chunk i model (Ev_Token tok _) = Some (JObj (chat_chunk i model (JObj [(''content'', JStr tok)]) JNull))"
| "event_chunk i model (Ev_ToolCall call) =
     Some (JObj (chat_chunk i model (JObj [(''tool_calls'', JArr [JObj ((''index'', jnum 0) # chat_call call)])]) JNull))"
| "event_chunk i model _ = None"

definition last_chunk :: "string \<Rightarrow> string \<Rightarrow> usage_counts \<Rightarrow> string option \<Rightarrow> json" where
  "last_chunk i model u why =
     JObj (chat_chunk i model (JObj []) (JStr (unwrap_or why ''stop'')) @ [(''usage'', openai_usage u)])"

fun plain_event :: "json_lib \<Rightarrow> string \<Rightarrow> string \<Rightarrow> event \<Rightarrow> bool" where
  "plain_event jl i model (Ev_Notice ev detail) = (LF \<notin> set ev \<and> LF \<notin> set detail)"
| "plain_event jl i model ev = (case event_chunk i model ev of Some v \<Rightarrow> prints jl v | None \<Rightarrow> True)"

text \<open>What a provider makes of the events of a session: the words it passes on, and the calls.\<close>

fun event_tokens :: "event \<Rightarrow> string list" where
  "event_tokens (Ev_Token tok _) = (if tok = [] then [] else [tok])"
| "event_tokens _ = []"

definition counted :: "nat \<Rightarrow> nat \<Rightarrow> usage_counts" where
  "counted asked n = \<lparr> prompt_tokens = asked, completion_tokens = n, attachment_tokens = 0, media_bytes = 0 \<rparr>"

fun event_call :: "event \<Rightarrow> tool_call list" where
  "event_call (Ev_ToolCall call) = [call]"
| "event_call _ = []"

definition all_tokens :: "heard list \<Rightarrow> string list" where "all_tokens hs = concat (map event_tokens (said hs))"
definition single_calls :: "heard list \<Rightarrow> tool_call list" where "single_calls hs = concat (map event_call (said hs))"

lemma take_token_chunk:
  "take_chunk jl req False (JObj (chat_chunk i model (JObj [(''content'', JStr tok)]) JNull)) g
   = (if tok = [] then (g, []) else (g\<lparr> gn_emitted := gn_emitted g + 1 \<rparr>, [BE_Token req tok None]))"
  by (simp add: take_chunk_def take_choice_def chat_chunk_def jfield_def remote_logprobs_def Let_def)

lemma take_call_chunk:
  "take_chunk jl req False
     (JObj (chat_chunk i model (JObj [(''tool_calls'', JArr [JObj ((''index'', jnum 0) # chat_call call)])]) JNull)) g
   = (g\<lparr> gn_calls := gn_calls g @ [call] \<rparr>, [])"
  by (cases call) (simp add: take_chunk_def take_choice_def chat_chunk_def chat_call_def jfield_def remote_call_def Let_def)

lemma take_last_chunk:
  "prompt_tokens u < U64 \<Longrightarrow> take_chunk jl req False (last_chunk i model u why) g
   = (g\<lparr> gn_prompt := prompt_tokens u, gn_finish := Some (unwrap_or why ''stop'') \<rparr>, [])"
  by (simp add: take_chunk_def take_choice_def last_chunk_def chat_chunk_def jfield_def openai_usage_def jnum_def parse_show_nat Let_def)

lemma chat_stream_read:
  assumes "chat_sse_loop jl i model evs c = (Inr (), c')" "how_it_ended evs = End_Done u why"
    and "list_all (plain_event jl i model) (said evs)" "prints jl (last_chunk i model u why)" "prompt_tokens u < U64"
  shows "\<exists>body. cn_out c' = cn_out c @ body \<and> read_stream jl req False (lf_lines body) g
    = (g\<lparr> gn_emitted := gn_emitted g + length (all_tokens evs), gn_prompt := prompt_tokens u,
          gn_finish := Some (unwrap_or why ''stop''), gn_calls := gn_calls g @ single_calls evs \<rparr>,
       map (\<lambda>tok. BE_Token req tok None) (all_tokens evs))"
  using assms(1-3)
proof (induction evs arbitrary: c g)
  case (Cons h rest)
  note defs = all_tokens_def single_calls_def
  show ?case
  proof (cases h)
    case (Inr oe)
    show ?thesis
    proof (cases oe)
      case None
      with Inr Cons.prems show ?thesis by simp
    next
      case (Some ev)
      note ev = Inr Some
      show ?thesis
      proof (cases ev)
        case (Ev_Token tok lp)
        define v where "v = JObj (chat_chunk i model (JObj [(''content'', JStr tok)]) JNull)"
        obtain c1 where c1: "put (data_text jl v) c = (Inr (), c1)" "chat_sse_loop jl i model rest c1 = (Inr (), c')"
          using Cons.prems(1) by (auto simp: ev Ev_Token v_def[symmetric] sbind_Inr_iff)
        define g1 where "g1 = (if tok = [] then g else g\<lparr> gn_emitted := gn_emitted g + 1 \<rparr>)"
        obtain body where body: "cn_out c' = cn_out c1 @ body" "read_stream jl req False (lf_lines body) g1
            = (g1\<lparr> gn_emitted := gn_emitted g1 + length (all_tokens rest), gn_prompt := prompt_tokens u,
                 gn_finish := Some (unwrap_or why ''stop''), gn_calls := gn_calls g1 @ single_calls rest \<rparr>,
               map (\<lambda>tok. BE_Token req tok None) (all_tokens rest))"
          using Cons.IH[OF c1(2), of g1] Cons.prems(2,3) by (auto simp: ev Ev_Token)
        have p: "prints jl v"
          using Cons.prems(3) by (simp add: ev Ev_Token v_def)
        show ?thesis
          using read_data[OF p, of req False g g1 "if tok = [] then [] else [BE_Token req tok None]" body] body put_Inr[OF c1(1)]
            take_token_chunk[of jl req i model tok g]
          by (intro exI[of _ "data_text jl v @ body"]) (auto simp: ev Ev_Token defs g1_def v_def[symmetric])
      next
        case (Ev_ToolCall call)
        define v where "v = JObj (chat_chunk i model (JObj [(''tool_calls'', JArr [JObj ((''index'', jnum 0) # chat_call call)])]) JNull)"
        obtain c1 where c1: "put (data_text jl v) c = (Inr (), c1)" "chat_sse_loop jl i model rest c1 = (Inr (), c')"
          using Cons.prems(1) by (auto simp: ev Ev_ToolCall v_def[symmetric] sbind_Inr_iff)
        define g1 where "g1 = g\<lparr> gn_calls := gn_calls g @ [call] \<rparr>"
        obtain body where body: "cn_out c' = cn_out c1 @ body" "read_stream jl req False (lf_lines body) g1
            = (g1\<lparr> gn_emitted := gn_emitted g1 + length (all_tokens rest), gn_prompt := prompt_tokens u,
                 gn_finish := Some (unwrap_or why ''stop''), gn_calls := gn_calls g1 @ single_calls rest \<rparr>,
               map (\<lambda>tok. BE_Token req tok None) (all_tokens rest))"
          using Cons.IH[OF c1(2), of g1] Cons.prems(2,3) by (auto simp: ev Ev_ToolCall)
        have p: "prints jl v"
          using Cons.prems(3) by (simp add: ev Ev_ToolCall v_def)
        show ?thesis
          using read_data[OF p, of req False g g1 "[]" body] body put_Inr[OF c1(1)] take_call_chunk[of jl req i model call g]
          by (intro exI[of _ "data_text jl v @ body"]) (simp add: ev Ev_ToolCall defs g1_def v_def[symmetric])
      next
        case (Ev_Notice name detail)
        then obtain c1 where c1: "put (notice_text name detail) c = (Inr (), c1)" "chat_sse_loop jl i model rest c1 = (Inr (), c')"
          using Cons.prems(1) by (auto simp: ev sbind_Inr_iff)
        then show ?thesis
          using Cons.IH[OF c1(2), of g] Cons.prems(2,3) read_notice[of name detail jl req False _ g] put_Inr[OF c1(1)]
          by (auto simp: ev Ev_Notice defs)
      next
        case (Ev_Done b u' why')
        then have "put (data_text jl (last_chunk i model u why) @ DONE_TEXT) c = (Inr (), c')"
          using Cons.prems(1,2) by (simp add: ev last_chunk_def)
        then show ?thesis
          using read_data[OF assms(4) take_last_chunk[OF assms(5)], where s = DONE_TEXT and req = req and g = g] read_done
          by (intro exI[of _ "data_text jl (last_chunk i model u why) @ DONE_TEXT"])
            (simp add: ev Ev_Done defs put_Inr)
      qed (use Cons.prems Cons.IH[of c g] ev in \<open>auto simp: defs\<close>)
    qed
  qed (use Cons.prems in simp)
qed simp

text \<open>A generation that is not cancelled reads its whole stream, takes its child and says how it went.\<close>

lemma job_read_over: "jb_phase (rm_jobs s ! i) = Reaping g \<Longrightarrow> foldl (\<lambda>s l. job_read jl i (Pipe_Line l) s) s ls = s"
  by (induction ls) (simp_all add: job_read_def)

lemma job_reads_lines:
  assumes "i < length (rm_jobs s)" "jb_phase (rm_jobs s ! i) = Reading pid g" "\<not> jb_flag (rm_jobs s ! i)"
    and "read_stream jl (jb_req (rm_jobs s ! i)) (jb_tools (rm_jobs s ! i) \<noteq> []) ls g = (g', evs)"
  shows "\<exists>t. job_read jl i Pipe_End (foldl (\<lambda>s l. job_read jl i (Pipe_Line l) s) s ls) = t
    \<and> rm_out t = rm_out s @ map (Pair (jb_conn (rm_jobs s ! i))) evs
    \<and> rm_transfers t = rm_transfers s \<and> i < length (rm_jobs t) \<and> rm_jobs t ! i = (rm_jobs s ! i)\<lparr> jb_phase := Reaping g' \<rparr>"
  using assms
proof (induction ls arbitrary: s g evs)
  case Nil
  then show ?case
    by (simp add: job_read_def Let_def set_phase_def)
next
  case (Cons l ls)
  let ?j = "rm_jobs s ! i"
  show ?case
  proof (cases "take_line jl (jb_req ?j) (jb_tools ?j \<noteq> []) l g")
    case None
    then have "job_read jl i (Pipe_Line l) s = set_phase i (Reaping g) s" "g' = g" "evs = []"
      using Cons.prems by (simp_all add: job_read_def Let_def)
    moreover have "jb_phase (rm_jobs (set_phase i (Reaping g) s) ! i) = Reaping g"
      using Cons.prems(1) by (simp add: set_phase_def)
    ultimately show ?thesis
      using Cons.prems(1) job_read_over[of "set_phase i (Reaping g) s" i g jl ls] by (simp add: job_read_def set_phase_def)
  next
    case (Some ge)
    obtain g1 evs1 where ge: "ge = (g1, evs1)"
      by (rule prod.exhaust)
    obtain g2 evs2 where rest: "read_stream jl (jb_req ?j) (jb_tools ?j \<noteq> []) ls g1 = (g2, evs2)"
      by (rule prod.exhaust)
    define s1 where "s1 = set_phase i (Reading pid g1) (foldl (\<lambda>s ev. job_send i ev s) s evs1)"
    have g': "g' = g2" "evs = evs1 @ evs2"
      using Cons.prems(4) Some ge rest by simp_all
    have j1: "i < length (rm_jobs s1)" "rm_jobs s1 ! i = ?j\<lparr> jb_phase := Reading pid g1 \<rparr>"
      using Cons.prems(1) by (simp_all add: s1_def set_phase_def)
    have "job_read jl i (Pipe_Line l) s = s1"
      using Cons.prems(2,3) Some ge by (simp add: job_read_def Let_def s1_def)
    moreover have "rm_out s1 = rm_out s @ map (Pair (jb_conn ?j)) evs1" "rm_transfers s1 = rm_transfers s"
      by (simp_all add: s1_def set_phase_def job_sends_out)
    ultimately show ?thesis
      using Cons.IH[of s1 g1 evs2] j1 Cons.prems(3) rest g' by simp
  qed
qed

definition generation_over :: "json_lib \<Rightarrow> nat \<Rightarrow> string \<Rightarrow> remote \<Rightarrow> remote" where
  "generation_over jl i body s =
     job_reap i False [] (job_take i (job_read jl i Pipe_End (foldl (\<lambda>s l. job_read jl i (Pipe_Line l) s) s (lf_lines body))))"

lemma generation_over_out:
  assumes "i < length (rm_jobs s)" "jb_phase (rm_jobs s ! i) = Reading pid g" "\<not> jb_flag (rm_jobs s ! i)"
    and "read_stream jl (jb_req (rm_jobs s ! i)) (jb_tools (rm_jobs s ! i) \<noteq> []) (lf_lines body) g = (g', evs)"
  shows "rm_out (generation_over jl i body s)
    = rm_out s @ map (Pair (jb_conn (rm_jobs s ! i))) (evs @ closing_events (jb_req (rm_jobs s ! i)) (jb_parallel (rm_jobs s ! i)) g')"
proof -
  define t where "t = job_read jl i Pipe_End (foldl (\<lambda>s l. job_read jl i (Pipe_Line l) s) s (lf_lines body))"
  have t: "rm_out t = rm_out s @ map (Pair (jb_conn (rm_jobs s ! i))) evs" "i < length (rm_jobs t)"
      "rm_jobs t ! i = (rm_jobs s ! i)\<lparr> jb_phase := Reaping g' \<rparr>"
    using job_reads_lines[OF assms] by (simp_all add: t_def)
  have closed: "rm_out (job_closes i g' u) = rm_out u @ map (Pair (jb_conn (rm_jobs u ! i)))
      (closing_events (jb_req (rm_jobs u ! i)) (jb_parallel (rm_jobs u ! i)) g')" for u
    by (simp add: job_closes_def set_phase_def job_sends_out)
  have over: "job_reap i False [] (job_closes i g' u) = job_closes i g' u" if "i < length (rm_jobs u)" for u
    using that by (simp add: job_reap_def job_closes_def set_phase_def Let_def)
  show ?thesis
  proof (cases "map_of (rm_transfers t) (jb_req (rm_jobs s ! i))")
    case None
    then show ?thesis
      using t over[OF t(2)] closed[of t] by (simp add: generation_over_def t_def[symmetric] job_take_def Let_def)
  next
    case (Some p)
    define u where "u = set_phase i (Waiting p g') (t\<lparr> rm_transfers := AList.delete (jb_req (rm_jobs s ! i)) (rm_transfers t) \<rparr>)"
    have "rm_jobs u ! i = (rm_jobs s ! i)\<lparr> jb_phase := Waiting p g' \<rparr>" "rm_out u = rm_out t"
      using t by (simp_all add: u_def set_phase_def)
    moreover have "job_take i t = u"
      using Some t by (simp add: job_take_def Let_def u_def)
    ultimately show ?thesis
      using t closed[of "u\<lparr> rm_killed := rm_killed u @ [p], rm_live := removeAll p (rm_live u) \<rparr>"]
      by (simp add: generation_over_def t_def[symmetric] job_reap_def Let_def)
  qed
qed

text \<open>
  C32. The two programs that speak the chat dialect agree on it, for answers in words. When a generation without tools on
  offer that is not cancelled reads, over any lines of a successful transfer, the stream the bridge wrote for a session that
  ended well, the daemon behind it gets exactly the session's words, in order and each as it was (an empty one is not passed on),
  and then, if the session made no single call, the end of the answer with the session's count of prompt tokens, the number of words
  and its reason to finish. Single calls come across as they were, but they change what is reported: of several, a request that does
  not take them in parallel gets the first only, and the reason becomes \<open>tool_call\<close>. Calls that the session sent as a batch are not
  in the bridge's stream at all.
\<close>

theorem bridge_stream_read_back:
  assumes "relay_sse jl pid model hs c = (Inr (), c')" "cn_out c = []" "how_it_ended hs = End_Done u why"
    and "list_all (plain_event jl (''chatcmpl-'' @ show_nat pid) model) (said hs)"
    and "prints jl (last_chunk (''chatcmpl-'' @ show_nat pid) model u why)" "prompt_tokens u < U64"
    and "i < length (rm_jobs s)" "jb_phase (rm_jobs s ! i) = Reading p fresh_gen" "\<not> jb_flag (rm_jobs s ! i)" "jb_tools (rm_jobs s ! i) = []"
  shows "\<exists>body. cn_out c' = SSE_HEAD @ body \<and> rm_out (generation_over jl i body s)
    = rm_out s @ map (Pair (jb_conn (rm_jobs s ! i)))
        (map (\<lambda>tok. BE_Token (jb_req (rm_jobs s ! i)) tok None) (all_tokens hs)
         @ (case single_calls hs of
              [] \<Rightarrow> [BE_Done (jb_req (rm_jobs s ! i)) (counted (prompt_tokens u) (length (all_tokens hs))) (Some (unwrap_or why ''stop''))]
            | call # others \<Rightarrow>
                [if others \<noteq> [] \<and> jb_parallel (rm_jobs s ! i) then BE_ToolCalls (jb_req (rm_jobs s ! i)) (call # others)
                 else BE_ToolCall (jb_req (rm_jobs s ! i)) call,
                 BE_Done (jb_req (rm_jobs s ! i)) (counted (prompt_tokens u) (length (all_tokens hs))) (Some ''tool_call'')]))"
proof -
  obtain c1 where c1: "put SSE_HEAD c = (Inr (), c1)" "chat_sse_loop jl (''chatcmpl-'' @ show_nat pid) model hs c1 = (Inr (), c')"
    using assms(1) by (auto simp: relay_sse_def sbind_Inr_iff)
  obtain body where body: "cn_out c' = cn_out c1 @ body"
    "read_stream jl (jb_req (rm_jobs s ! i)) False (lf_lines body) fresh_gen
      = (fresh_gen\<lparr> gn_emitted := gn_emitted fresh_gen + length (all_tokens hs), gn_prompt := prompt_tokens u,
           gn_finish := Some (unwrap_or why ''stop''), gn_calls := gn_calls fresh_gen @ single_calls hs \<rparr>,
         map (\<lambda>tok. BE_Token (jb_req (rm_jobs s ! i)) tok None) (all_tokens hs))"
    using chat_stream_read[OF c1(2) assms(3-6)] by blast
  then show ?thesis
    using generation_over_out[OF assms(7-9), of jl body] put_Inr[OF c1(1)] assms(2,10) by (auto simp: fresh_gen_def closing_events_def counted_def no_usage_def Let_def split: list.split)
qed

definition brief_session :: "heard list" where
  "brief_session = [Inr (Some (Ev_Token ''hi'' None)), Inr (Some (Ev_Done True no_usage None))]"

abbreviation hi_chunk :: json where
  "hi_chunk \<equiv> JObj (chat_chunk (''chatcmpl-'' @ show_nat 7) ''m'' (JObj [(''content'', JStr ''hi'')]) JNull)"

abbreviation end_chunk :: json where
  "end_chunk \<equiv> last_chunk (''chatcmpl-'' @ show_nat 7) ''m'' no_usage None"

definition two_chunks :: json_lib where
  "two_chunks = plain_lib\<lparr> jl_show := (\<lambda>v. if v = hi_chunk then ''T'' else ''L''),
     jl_parse_str := (\<lambda>t. if t = ''T'' then Some hi_chunk else Some end_chunk) \<rparr>"

theorem bridge_stream_read_back_witness:
  "\<exists>body. cn_out (snd (relay_sse two_chunks 7 ''m'' brief_session open_conn)) = SSE_HEAD @ body
     \<and> rm_out (generation_over two_chunks 0 body one_running)
       = [(0, BE_Token 1 ''hi'' None), (0, BE_Done 1 (no_usage\<lparr> completion_tokens := 1 \<rparr>) (Some ''stop''))]"
proof -
  have differ: "end_chunk \<noteq> hi_chunk"
    by (simp add: last_chunk_def chat_chunk_def)
  then have prints: "prints two_chunks hi_chunk" "prints two_chunks end_chunk"
    by (simp_all add: prints_def two_chunks_def is_space_def code_def)
  have ended: "how_it_ended brief_session = End_Done no_usage None" "list_all (plain_event two_chunks (''chatcmpl-'' @ show_nat 7) ''m'') (said brief_session)"
    using prints by (simp_all add: brief_session_def)
  obtain c' where run: "relay_sse two_chunks 7 ''m'' brief_session open_conn = (Inr (), c')"
    by (simp add: relay_sse_def brief_session_def open_conn_def put_open)
  have seen: "all_tokens brief_session = [''hi'']" "single_calls brief_session = []"
    by (simp_all add: all_tokens_def single_calls_def brief_session_def)
  show ?thesis
    using bridge_stream_read_back[OF run _ ended(1,2) prints(2), of 0 one_running 40] run
    by (simp add: open_conn_def no_usage_def one_running_eq seen counted_def)
qed

subsection \<open>Where the stream is lost\<close>

text \<open>An error in the middle of a stream, as the bridge itself reports one, is read as the end of a good answer.\<close>

lemma streamed_error_is_a_success:
  assumes "prints jl (error_json cd msg)"
  shows "read_stream jl req mute (lf_lines (data_text jl (error_json cd msg) @ DONE_TEXT)) g = (g, [])"
  using read_data[OF assms, where s = DONE_TEXT and req = req and mute = mute and g = g]
  by (simp add: take_chunk_def error_json_def read_done)

text \<open>With tools on offer an answer in words is dropped, whether or not a tool was called.\<close>

lemma words_dropped_beside_tools: "snd (take_chunk jl req True chunk g) = []"
  by (simp add: take_chunk_def take_choice_def Let_def split: option.split)

text \<open>A call whose arguments arrive in pieces becomes several calls, the later ones without a name.\<close>

lemma call_in_pieces_is_split:
  "map tc_name (collect_calls req
      [JObj [(''id'', JStr ''c''), (''function'', JObj [(''name'', JStr ''f''), (''arguments'', JStr ''{a'')])],
       JObj [(''function'', JObj [(''arguments'', JStr ''b}'')])]] []) = [''f'', []]"
  by (simp add: remote_call_def jfield_def Let_def)

text \<open>
  The tables are shared by all connections and known by the daemon's request numbers, which start
  again with the daemon: a request of the new daemon loses its child to the thread of an old one.
\<close>

definition both_running :: remote where
  "both_running = job_register 1 (job_start plain_lib 1 (Inr 41) (snd (remote_handle 1 ask_one one_running)))"

lemma restarted_daemon_loses_a_child:
  "\<exists>s. (rm_step plain_lib)\<^sup>*\<^sup>* (remote_start one_model None) s \<and> jb_phase (rm_jobs s ! 0) = Waiting 41 fresh_gen
     \<and> jb_phase (rm_jobs s ! 1) = Reading 41 fresh_gen \<and> jb_conn (rm_jobs s ! 0) \<noteq> jb_conn (rm_jobs s ! 1)"
proof -
  let ?a = "snd (remote_handle 1 ask_one one_running)"
  let ?b = "job_start plain_lib 1 (Inr 41) ?a" and ?d = "job_read plain_lib 0 Pipe_End both_running"
  have jobs: "rm_jobs both_running = rm_jobs one_running @ [(rm_jobs one_running ! 0)\<lparr> jb_conn := 1, jb_phase := Reading 41 fresh_gen \<rparr>]"
      "rm_transfers both_running = [(1, 41)]"
    by (simp_all add: both_running_def remote_handle_def ask_one_def job_start_def job_register_def set_phase_def Let_def
        one_running_eq one_model_def)
  have "rm_step plain_lib one_running ?a"
    by (rule rm_step.hears)
  moreover have "rm_step plain_lib ?a ?b"
    by (rule rm_step.starts) (simp_all add: remote_handle_def ask_one_def Let_def one_running_eq)
  moreover have "rm_step plain_lib ?b both_running"
    unfolding both_running_def
    by (rule rm_step.registers[where pid = 41])
      (simp_all add: remote_handle_def ask_one_def Let_def job_start_def one_model_def set_phase_def one_running_eq)
  moreover have "rm_step plain_lib both_running ?d"
    by (rule rm_step.reads[where pid = 40 and g = fresh_gen]) (simp_all add: jobs one_running_eq)
  moreover have d: "rm_jobs ?d ! 0 = (rm_jobs one_running ! 0)\<lparr> jb_phase := Reaping fresh_gen \<rparr>" "rm_transfers ?d = [(1, 41)]"
      "rm_jobs ?d ! 1 = rm_jobs both_running ! 1" "length (rm_jobs ?d) = 2"
    by (simp_all add: job_read_def Let_def jobs one_running_eq set_phase_def)
  moreover have "rm_step plain_lib ?d (job_take 0 ?d)"
    by (rule rm_step.takes[where g = fresh_gen]) (simp_all add: d)
  ultimately have "(rm_step plain_lib)\<^sup>*\<^sup>* (remote_start one_model None) (job_take 0 ?d)"
    using one_running_reached by (meson rtranclp.rtrancl_into_rtrancl)
  moreover have "jb_phase (rm_jobs (job_take 0 ?d) ! 0) = Waiting 41 fresh_gen" "jb_phase (rm_jobs (job_take 0 ?d) ! 1) = Reading 41 fresh_gen"
      "jb_conn (rm_jobs (job_take 0 ?d) ! 0) \<noteq> jb_conn (rm_jobs (job_take 0 ?d) ! 1)"
    using d by (simp_all add: job_take_def Let_def one_running_eq set_phase_def jobs)
  ultimately show ?thesis
    by blast
qed

end
