(* ===== verification/Shim.thy ===== *)
theory Shim
  imports Shim_Relay
begin

text \<open>
  The routes of \<open>crates/ai-daemon-shim/src/main.rs\<close>: one HTTP request becomes at most one session of the
  daemon. What surrounds a request is an argument (\<open>shim_env\<close>): the JSON library, the shim's own
  process and user, the daemon's answer to \<open>CreateSession\<close> and \<open>ListModels\<close>, what the session's
  socket takes and says. The state records every \<open>CreateSession\<close> and \<open>Close\<close> that was called.
\<close>

record shim_env =
  se_lib :: json_lib
  se_self :: "nat \<times> nat"
  se_create :: "string \<Rightarrow> options \<Rightarrow> string option"
  se_clone :: "string option"
  se_models :: "string + dval option list"
  se_feed :: feed
  se_room :: "nat option"

record shim =
  sh_conn :: conn
  sh_sock :: sock
  sh_asked :: "(string \<times> options) list"
  sh_opened :: nat
  sh_closed :: nat

subsection \<open>Sessions\<close>

definition session_options :: "peer \<Rightarrow> bool \<Rightarrow> options" where
  "session_options p background =
     [(''shim_peer_pid'', VU32 (pe_pid p)), (''shim_peer_uid'', VU32 (pe_uid p)),
      (''shim_peer_attested'', VBool (pe_attested p))]
     @ (case pe_client p of Some name \<Rightarrow> [(''shim_client'', VStr name)] | None \<Rightarrow> [])
     @ [(''max_context'', VU32 (U32 - 1)), (''priority'', VStr (if background then ''background'' else ''interactive''))]"

definition open_shim_session :: "shim_env \<Rightarrow> string \<Rightarrow> peer \<Rightarrow> bool \<Rightarrow> shim \<Rightarrow> (string + unit) \<times> shim" where
  "open_shim_session e model p background s =
     (let os = session_options p background; s1 = s\<lparr> sh_asked := sh_asked s @ [(model, os)] \<rparr>
      in case se_create e model os of
           Some err \<Rightarrow> (Inl (''CreateSession: '' @ err), s1)
         | None \<Rightarrow> (Inr (), s1\<lparr> sh_sock := \<lparr> so_sent = [], so_room = se_room e \<rparr>, sh_opened := sh_opened s + 1 \<rparr>))"

definition close_shim_session :: "shim \<Rightarrow> shim" where
  "close_shim_session s = s\<lparr> sh_closed := sh_closed s + 1 \<rparr>"

definition answer :: "shim_env \<Rightarrow> nat \<Rightarrow> json \<Rightarrow> shim \<Rightarrow> (string + unit) \<times> shim" where
  "answer e status body s =
     (case respond (jl_show (se_lib e)) status body (sh_conn s) of (r, c) \<Rightarrow> (r, s\<lparr> sh_conn := c \<rparr>))"

definition on_sock :: "(sock \<Rightarrow> ('e + 'a) \<times> sock) \<Rightarrow> shim \<Rightarrow> ('e + 'a) \<times> shim" where
  "on_sock f s = (case f (sh_sock s) of (r, so) \<Rightarrow> (r, s\<lparr> sh_sock := so \<rparr>))"

definition try_clone :: "shim_env \<Rightarrow> shim \<Rightarrow> (string + unit) \<times> shim" where
  "try_clone e s = (case se_clone e of Some err \<Rightarrow> (Inl err, s) | None \<Rightarrow> (Inr (), s))"

text \<open>The handshake; its answer is read and not looked at.\<close>

definition greet :: "shim_env \<Rightarrow> shim \<Rightarrow> (string + unit) \<times> shim" where
  "greet e s = sbind (try_clone e s) (\<lambda>_. on_sock (so_send (W_Req (Hello DATA_PROTO))))"

definition refused_status :: "string \<Rightarrow> nat" where
  "refused_status err = (if contains_str ''AccessDenied'' err then 403 else 400)"

definition stream_out :: "(conn \<Rightarrow> (string + unit) \<times> conn) \<Rightarrow> shim \<Rightarrow> (string + unit) \<times> shim" where
  "stream_out f s = (case f (sh_conn s) of (r, c) \<Rightarrow> (r, s\<lparr> sh_conn := c \<rparr>))"

definition reply_out :: "(conn \<times> sock \<Rightarrow> (string + unit) \<times> conn \<times> sock) \<Rightarrow> shim \<Rightarrow> (string + unit) \<times> shim" where
  "reply_out f s = (case f (sh_conn s, sh_sock s) of (r, c, so) \<Rightarrow> (r, s\<lparr> sh_conn := c, sh_sock := so \<rparr>))"

text \<open>The prompt goes out, the answer is relayed, and the session is closed whatever came of that.\<close>

definition generate_and_relay :: "shim_env \<Rightarrow> request \<Rightarrow> (shim \<Rightarrow> (string + unit) \<times> shim) \<Rightarrow> shim \<Rightarrow> (string + unit) \<times> shim" where
  "generate_and_relay e prompt relay s =
     sbind (on_sock (so_send (W_Req prompt)) s)
       (\<lambda>_ s1. sbind (try_clone e s1) (\<lambda>_ s2. case relay s2 of (r, s3) \<Rightarrow> (r, close_shim_session s3)))"

subsection \<open>The three generating routes\<close>

definition chat :: "shim_env \<Rightarrow> http_request \<Rightarrow> peer \<Rightarrow> shim_config \<Rightarrow> shim \<Rightarrow> (string + unit) \<times> shim" where
  "chat e req p cfg s =
     (case jl_parse (se_lib e) (hr_body req) of
        Inl err \<Rightarrow> answer e 400 (error_json ''invalid_request_error'' err) s
      | Inr body \<Rightarrow>
          let model = model_for cfg (unwrap_or (jfield jstr ''model'' body) ''default'');
              streaming = unwrap_or (jfield jbool ''stream'' body) False
          in case open_shim_session e model p False s of
               (Inl err, s1) \<Rightarrow> answer e (refused_status err) (error_json ''permission_error'' err) s1
             | (Inr _, s1) \<Rightarrow>
                 sbind (greet e s1) (\<lambda>_ s2.
                   (case on_sock (chat_messages body) s2 of
                      (Inl (Halt_Io err), s3) \<Rightarrow> (Inl err, s3)
                    | (Inl (Halt_Refused err), s3) \<Rightarrow>
                        answer e 400 (error_json ''invalid_request_error'' err) (close_shim_session s3)
                    | (Inr ms, s3) \<Rightarrow>
                        generate_and_relay e
                          (Generate ms True (Some (chat_params (se_lib e) body)) None (chat_tools body))
                          (if streaming then stream_out (relay_sse (se_lib e) (fst (se_self e)) model (map snd (tl (se_feed e))))
                           else reply_out (relay_json (se_lib e) (fst (se_self e)) model (tl (se_feed e)))) s3)))"

definition turn_prompt :: "api_turn \<Rightarrow> request" where
  "turn_prompt t = Generate (at_messages t) True (Some (at_params t)) None (at_tools t)"

definition messages_route :: "shim_env \<Rightarrow> http_request \<Rightarrow> peer \<Rightarrow> shim_config \<Rightarrow> shim \<Rightarrow> (string + unit) \<times> shim" where
  "messages_route e req p cfg s =
     (case jl_parse (se_lib e) (hr_body req) of
        Inl err \<Rightarrow> answer e 400 (anthropic_error ''invalid_request_error'' err) s
      | Inr body \<Rightarrow>
          let model = model_for cfg (unwrap_or (jfield jstr ''model'' body) ''default'')
          in case open_shim_session e model p False s of
               (Inl err, s1) \<Rightarrow> answer e (refused_status err) (anthropic_error ''permission_error'' err) s1
             | (Inr _, s1) \<Rightarrow>
                 sbind (greet e s1) (\<lambda>_ s2.
                   (case on_sock (parse_messages_body (se_lib e) body) s2 of
                      (Inl err, s3) \<Rightarrow> answer e 400 (anthropic_error ''invalid_request_error'' err) (close_shim_session s3)
                    | (Inr t, s3) \<Rightarrow>
                        generate_and_relay e (turn_prompt t)
                          (if at_stream t
                           then stream_out (relay_anthropic_sse (se_lib e) (fst (se_self e)) (at_model t) (map snd (tl (se_feed e))))
                           else reply_out (relay_anthropic_json (se_lib e) (fst (se_self e)) (at_model t) (tl (se_feed e)))) s3)))"

definition responses_route :: "shim_env \<Rightarrow> http_request \<Rightarrow> peer \<Rightarrow> shim_config \<Rightarrow> shim \<Rightarrow> (string + unit) \<times> shim" where
  "responses_route e req p cfg s =
     (case jl_parse (se_lib e) (hr_body req) of
        Inl err \<Rightarrow> answer e 400 (error_json ''invalid_request_error'' err) s
      | Inr body \<Rightarrow>
          (case parse_responses_body (se_lib e) body of
             Inl err \<Rightarrow> answer e 400 (error_json ''invalid_request_error'' err) s
           | Inr t \<Rightarrow>
               (case open_shim_session e (model_for cfg (at_model t)) p False s of
                  (Inl err, s1) \<Rightarrow> answer e (refused_status err) (error_json ''permission_error'' err) s1
                | (Inr _, s1) \<Rightarrow>
                    sbind (greet e s1) (\<lambda>_.
                      generate_and_relay e (turn_prompt t)
                        (if at_stream t
                         then stream_out (relay_responses_sse (se_lib e) (fst (se_self e)) (at_model t) (map snd (tl (se_feed e))))
                         else reply_out (relay_responses_json (se_lib e) (fst (se_self e)) (at_model t) (tl (se_feed e))))))))"

subsection \<open>Embeddings, counting tokens and listing models\<close>

text \<open>A loop that ends badly either closed the session (the daemon said so) or did not (the read failed).\<close>

definition vector_json :: "json_lib \<Rightarrow> nat \<times> f32 list \<Rightarrow> json" where
  "vector_json jl iv =
     JObj [(''object'', JStr ''embedding''), (''index'', jnum (fst iv)), (''embedding'', JArr (map (jl_of_f32 jl) (snd iv)))]"

fun embed_loop :: "json_lib \<Rightarrow> heard list \<Rightarrow> json list \<Rightarrow> (bool \<times> string) + json list \<times> nat" where
  "embed_loop jl [] dat = Inr (dat, 0)"
| "embed_loop jl (h # rest) dat =
     (case h of
        Inl e \<Rightarrow> Inl (False, e)
      | Inr None \<Rightarrow> Inr (dat, 0)
      | Inr (Some (Ev_Vectors vs)) \<Rightarrow> embed_loop jl rest (dat @ map (vector_json jl) (enumerate 0 vs))
      | Inr (Some (Ev_Done _ u _)) \<Rightarrow> Inr (dat, prompt_tokens u)
      | Inr (Some (Ev_Error err)) \<Rightarrow> Inl (True, err_code err @ '': '' @ err_message err)
      | Inr (Some _) \<Rightarrow> embed_loop jl rest dat)"

fun count_loop :: "heard list \<Rightarrow> nat \<Rightarrow> (bool \<times> string) + nat" where
  "count_loop [] n = Inr n"
| "count_loop (h # rest) n =
     (case h of
        Inl e \<Rightarrow> Inl (False, e)
      | Inr None \<Rightarrow> Inr n
      | Inr (Some (Ev_Tokens ts)) \<Rightarrow> count_loop rest (length ts)
      | Inr (Some (Ev_Done _ _ _)) \<Rightarrow> Inr n
      | Inr (Some (Ev_Error err)) \<Rightarrow> Inl (True, err_code err @ '': '' @ err_message err)
      | Inr (Some _) \<Rightarrow> count_loop rest n)"

definition one_shot :: "shim_env \<Rightarrow> string \<Rightarrow> peer \<Rightarrow> request \<Rightarrow> (heard list \<Rightarrow> (bool \<times> string) + 'a) \<Rightarrow> shim \<Rightarrow> (string + 'a) \<times> shim" where
  "one_shot e model p ask loop s =
     sbind (open_shim_session e model p True s) (\<lambda>_ s1.
       sbind (try_clone e s1) (\<lambda>_ s2.
         sbind (on_sock (so_send (W_Req ask)) s2) (\<lambda>_ s3.
           (case loop (map snd (se_feed e)) of
              Inl (closes, err) \<Rightarrow> (Inl err, if closes then close_shim_session s3 else s3)
            | Inr x \<Rightarrow> (Inr x, close_shim_session s3)))))"

definition embeddings :: "shim_env \<Rightarrow> http_request \<Rightarrow> peer \<Rightarrow> shim_config \<Rightarrow> shim \<Rightarrow> (string + json) \<times> shim" where
  "embeddings e req p cfg s =
     (case jl_parse (se_lib e) (hr_body req) of
        Inl err \<Rightarrow> (Inl err, s)
      | Inr body \<Rightarrow>
          let model = model_for cfg (unwrap_or (jfield jstr ''model'' body) ''embed'')
          in case (case jget ''input'' body of
                     Some (JStr t) \<Rightarrow> Some [t] | Some (JArr items) \<Rightarrow> Some (jstrs items) | _ \<Rightarrow> None) of
               None \<Rightarrow> (Inl ''input must be a string or an array of strings'', s)
             | Some inputs \<Rightarrow>
                 sbind (one_shot e model p (Embed inputs) (\<lambda>hs. embed_loop (se_lib e) hs []) s)
                   (\<lambda>(dat, n) s'.
                      (Inr (JObj [(''object'', JStr ''list''), (''model'', JStr model), (''data'', JArr dat),
                                  (''usage'', JObj [(''prompt_tokens'', jnum n), (''total_tokens'', jnum n)])]), s')))"

definition flat_text :: "json option \<Rightarrow> string" where
  "flat_text v = (case v of Some (JStr t) \<Rightarrow> t | Some (JArr parts) \<Rightarrow> concat (jtexts parts) | _ \<Rightarrow> [])"

definition count_tokens :: "shim_env \<Rightarrow> http_request \<Rightarrow> peer \<Rightarrow> shim_config \<Rightarrow> shim \<Rightarrow> (string + json) \<times> shim" where
  "count_tokens e req p cfg s =
     (case jl_parse (se_lib e) (hr_body req) of
        Inl err \<Rightarrow> (Inl err, s)
      | Inr body \<Rightarrow>
          let model = model_for cfg (unwrap_or (jfield jstr ''model'' body) ''default'');
              txt = flat_text (jget ''system'' body)
                @ concat (map (\<lambda>entry. flat_text (jget ''content'' entry)) (unwrap_or (jfield jarr ''messages'' body) []))
          in sbind (one_shot e model p (Tokenize txt) (\<lambda>hs. count_loop hs 0) s)
               (\<lambda>n s'. (Inr (JObj [(''input_tokens'', jnum n)]), s')))"

definition list_models_json :: "shim_env \<Rightarrow> string + json" where
  "list_models_json e =
     (case se_models e of
        Inl err \<Rightarrow> Inl err
      | Inr found \<Rightarrow>
          Inr (JObj [(''object'', JStr ''list''),
             (''data'', JArr (map (\<lambda>name. JObj [(''id'', JStr name), (''object'', JStr ''model''), (''owned_by'', JStr ''ai-daemon'')])
                (List.map_filter (\<lambda>n. Option.bind n as_str) found)))]))"

subsection \<open>Serving one connection\<close>

definition caller_of :: "shim_env \<Rightarrow> shim_config \<Rightarrow> http_request \<Rightarrow> conn \<Rightarrow> peer" where
  "caller_of e cfg req c = (conn_peer (se_self e) c)\<lparr> pe_client := name_for cfg (hr_token req) \<rparr>"

definition finish_json :: "shim_env \<Rightarrow> bool \<Rightarrow> (string + json) \<times> shim \<Rightarrow> (string + unit) \<times> shim" where
  "finish_json e anthropic rs =
     (case rs of
        (Inr j, s) \<Rightarrow> answer e 200 j s
      | (Inl err, s) \<Rightarrow>
          answer e 400 (if anthropic then anthropic_error ''invalid_request_error'' err
                        else error_json ''invalid_request_error'' err) s)"

definition serve_request :: "shim_env \<Rightarrow> shim_config \<Rightarrow> http_request \<Rightarrow> shim \<Rightarrow> (string + unit) \<times> shim" where
  "serve_request e cfg req s =
     (let p = caller_of e cfg req (sh_conn s);
          anthropic = starts_with ''/v1/messages'' (hr_path req);
          route = (hr_method req, hr_path req);
          unnamed = ''no recognised token; this machine names its clients''
      in if sc_require_token cfg \<and> pe_client p = None
         then answer e 401 (if anthropic then anthropic_error ''authentication_error'' unnamed
                            else error_json ''authentication_error'' unnamed) s
         else if route = (''GET'', ''/v1/models'') \<or> route = (''GET'', ''/api/tags'')
         then finish_json e anthropic (list_models_json e, s)
         else if route = (''POST'', ''/v1/chat/completions'') then chat e req p cfg s
         else if route = (''POST'', ''/v1/responses'') then responses_route e req p cfg s
         else if route = (''POST'', ''/v1/embeddings'') then finish_json e anthropic (embeddings e req p cfg s)
         else if route = (''POST'', ''/v1/messages'') then messages_route e req p cfg s
         else if route = (''POST'', ''/v1/messages/count_tokens'') then finish_json e anthropic (count_tokens e req p cfg s)
         else if route = (''GET'', ''/health'') then finish_json e anthropic (Inr (JObj [(''status'', JStr ''ok'')]), s)
         else answer e 404 (error_json ''not_found'' ''no such route'') s)"

definition serve :: "shim_env \<Rightarrow> shim_config \<Rightarrow> shim \<Rightarrow> (string + unit) \<times> shim" where
  "serve e cfg s =
     (case read_request (cn_in (sh_conn s)) of
        (Inl err, r) \<Rightarrow> (Inl err, s\<lparr> sh_conn := (sh_conn s)\<lparr> cn_in := r \<rparr> \<rparr>)
      | (Inr req, r) \<Rightarrow> serve_request e cfg req (s\<lparr> sh_conn := (sh_conn s)\<lparr> cn_in := r \<rparr> \<rparr>))"

subsection \<open>Who a session is for\<close>

text \<open>Nothing but opening a session calls \<open>CreateSession\<close>.\<close>

lemma asked_simps [simp]:
  "sh_asked (close_shim_session s) = sh_asked s"
  "sh_asked (snd (answer e n b s)) = sh_asked s"
  "sh_asked (snd (on_sock f s)) = sh_asked s"
  "sh_asked (snd (try_clone e s)) = sh_asked s"
  "sh_asked (snd (stream_out g s)) = sh_asked s"
  "sh_asked (snd (reply_out h s)) = sh_asked s"
  "sh_asked (snd (finish_json e a rs)) = sh_asked (snd rs)"
  by (simp_all add: close_shim_session_def answer_def on_sock_def try_clone_def stream_out_def reply_out_def
      finish_json_def split: prod.split option.split sum.split)

lemma asked_sbind:
  assumes "sh_asked (snd m) = A" "\<And>x s. sh_asked s = A \<Longrightarrow> sh_asked (snd (k x s)) = A"
  shows "sh_asked (snd (sbind m k)) = A"
  using assms by (cases m; cases "fst m") auto

lemma greet_asked [simp]: "sh_asked (snd (greet e s)) = sh_asked s"
  unfolding greet_def by (rule asked_sbind) simp_all

lemma generate_asked:
  assumes "\<And>s. sh_asked (snd (relay s)) = sh_asked s"
  shows "sh_asked (snd (generate_and_relay e prompt relay s)) = sh_asked s"
  unfolding generate_and_relay_def
  by (intro asked_sbind) (use assms in \<open>simp_all split: prod.split\<close>, metis snd_conv)

lemma open_asked: "sh_asked (snd (open_shim_session e m p bg s)) = sh_asked s @ [(m, session_options p bg)]"
  by (simp add: open_shim_session_def Let_def split: option.split)

text \<open>A route asks for one session at most, with the options of its caller.\<close>

definition asks_once :: "peer \<Rightarrow> shim \<Rightarrow> shim \<Rightarrow> bool" where
  "asks_once p s s' \<longleftrightarrow> sh_asked s' = sh_asked s \<or> (\<exists>m bg. sh_asked s' = sh_asked s @ [(m, session_options p bg)])"

lemma asks_once_open:
  assumes "open_shim_session e m p bg s = (r, s1)" "sh_asked s' = sh_asked s1"
  shows "asks_once p s s'"
  using open_asked[of e m p bg s] assms by (auto simp: asks_once_def)

lemma asks_once_same: "sh_asked s' = sh_asked s \<Longrightarrow> asks_once p s s'"
  by (simp add: asks_once_def)

lemma chat_asks: "asks_once p s (snd (chat e req p cfg s))"
proof (cases "jl_parse (se_lib e) (hr_body req)")
  case (Inr body)
  let ?m = "model_for cfg (unwrap_or (jfield jstr ''model'' body) ''default'')"
  obtain r s1 where o: "open_shim_session e ?m p False s = (r, s1)"
    by (rule prod.exhaust)
  have "sh_asked (snd (chat e req p cfg s)) = sh_asked s1"
  proof (cases r)
    case (Inl err)
    then show ?thesis
      using Inr o by (simp add: chat_def)
  next
    case ok: (Inr u)
    have "sh_asked (snd (case on_sock (chat_messages body) s2 of
        (Inl (Halt_Io err), s3) \<Rightarrow> (Inl err, s3)
      | (Inl (Halt_Refused err), s3) \<Rightarrow> answer e 400 (error_json ''invalid_request_error'' err) (close_shim_session s3)
      | (Inr ms, s3) \<Rightarrow> generate_and_relay e (Generate ms True (Some (chat_params (se_lib e) body)) None (chat_tools body))
          (if streaming then stream_out (relay_sse (se_lib e) (fst (se_self e)) ?m (map snd (tl (se_feed e))))
           else reply_out (relay_json (se_lib e) (fst (se_self e)) ?m (tl (se_feed e)))) s3)) = sh_asked s2" for s2 streaming
      using asked_simps(3)[of "chat_messages body" s2]
      by (cases "on_sock (chat_messages body) s2") (auto simp: generate_asked split: sum.split halt.split)
    then show ?thesis
      using Inr o ok by (simp add: chat_def Let_def split del: if_split) (intro asked_sbind; simp split del: if_split)
  qed
  then show ?thesis
    by (rule asks_once_open[OF o])
qed (simp add: chat_def asks_once_same)

lemma messages_asks: "asks_once p s (snd (messages_route e req p cfg s))"
proof (cases "jl_parse (se_lib e) (hr_body req)")
  case (Inr body)
  let ?m = "model_for cfg (unwrap_or (jfield jstr ''model'' body) ''default'')"
  obtain r s1 where o: "open_shim_session e ?m p False s = (r, s1)"
    by (rule prod.exhaust)
  have "sh_asked (snd (messages_route e req p cfg s)) = sh_asked s1"
  proof (cases r)
    case (Inl err)
    then show ?thesis
      using Inr o by (simp add: messages_route_def)
  next
    case ok: (Inr u)
    have "sh_asked (snd (case on_sock (parse_messages_body (se_lib e) body) s2 of
        (Inl err, s3) \<Rightarrow> answer e 400 (anthropic_error ''invalid_request_error'' err) (close_shim_session s3)
      | (Inr t, s3) \<Rightarrow> generate_and_relay e (turn_prompt t)
          (if at_stream t then stream_out (relay_anthropic_sse (se_lib e) (fst (se_self e)) (at_model t) (map snd (tl (se_feed e))))
           else reply_out (relay_anthropic_json (se_lib e) (fst (se_self e)) (at_model t) (tl (se_feed e)))) s3)) = sh_asked s2" for s2
      using asked_simps(3)[of "parse_messages_body (se_lib e) body" s2]
      by (cases "on_sock (parse_messages_body (se_lib e) body) s2") (auto simp: generate_asked split: sum.split)
    then show ?thesis
      using Inr o ok by (simp add: messages_route_def Let_def) (intro asked_sbind; simp)
  qed
  then show ?thesis
    by (rule asks_once_open[OF o])
qed (simp add: messages_route_def asks_once_same)

lemma responses_asks: "asks_once p s (snd (responses_route e req p cfg s))"
proof (cases "jl_parse (se_lib e) (hr_body req)")
  case (Inr body)
  show ?thesis
  proof (cases "parse_responses_body (se_lib e) body")
    case t: (Inr t)
    obtain r s1 where o: "open_shim_session e (model_for cfg (at_model t)) p False s = (r, s1)"
      by (rule prod.exhaust)
    have "sh_asked (snd (responses_route e req p cfg s)) = sh_asked s1"
      using Inr t o by (cases r) (auto simp: responses_route_def generate_asked intro!: asked_sbind)
    then show ?thesis
      by (rule asks_once_open[OF o])
  qed (use Inr in \<open>simp add: responses_route_def asks_once_same\<close>)
qed (simp add: responses_route_def asks_once_same)

lemma one_shot_asks: "asks_once p s (snd (one_shot e m p ask lp s))"
proof -
  obtain r s1 where o: "open_shim_session e m p True s = (r, s1)"
    by (rule prod.exhaust)
  have "sh_asked (snd (one_shot e m p ask lp s)) = sh_asked s1"
    using o by (cases r) (auto simp: one_shot_def intro!: asked_sbind split: sum.split)
  then show ?thesis
    by (rule asks_once_open[OF o])
qed

lemma sbind_pure_asked: "(\<And>x s. sh_asked (snd (k x s)) = sh_asked s) \<Longrightarrow> sh_asked (snd (sbind m k)) = sh_asked (snd m)"
  by (cases m; cases "fst m") auto

lemma asks_once_cong: "asks_once p s s' \<Longrightarrow> sh_asked s'' = sh_asked s' \<Longrightarrow> asks_once p s s''"
  by (simp add: asks_once_def)

lemma embeddings_asks: "asks_once p s (snd (embeddings e req p cfg s))"
  by (auto simp: embeddings_def Let_def asks_once_same sbind_pure_asked split: sum.split option.split json.split prod.split
      intro!: asks_once_cong[OF one_shot_asks])

lemma count_tokens_asks: "asks_once p s (snd (count_tokens e req p cfg s))"
  by (auto simp: count_tokens_def Let_def asks_once_same sbind_pure_asked split: sum.split
      intro!: asks_once_cong[OF one_shot_asks])

lemma asks_once_finish: "asks_once p s (snd rs) \<Longrightarrow> asks_once p s (snd (finish_json e a rs))"
  by (simp add: asks_once_def)

lemma serve_request_asks:
  assumes "\<not> (sc_require_token cfg \<and> pe_client (caller_of e cfg req (sh_conn s)) = None)"
  shows "asks_once (caller_of e cfg req (sh_conn s)) s (snd (serve_request e cfg req s))"
  using assms chat_asks messages_asks responses_asks embeddings_asks count_tokens_asks
  by (auto simp: serve_request_def Let_def asks_once_same asks_once_finish)

text \<open>What the daemon makes of the options of a caller.\<close>

lemma session_options_identity:
  assumes "is_shim c rd (from_pid_uid rd links pid uid uid Native)"
  shows "\<exists>i. identity_of c rd links (uid, pid) (session_options p bg) = Inr i \<and> id_class i = Shim
    \<and> id_attested i = pe_attested p
    \<and> id_client i = (case pe_client p of Some n \<Rightarrow> if client_ok (trim n) then Some (trim n) else None | None \<Rightarrow> None)"
proof -
  have "opt as_str ''portal_app_id'' (session_options p bg) = None"
    "opt as_u32 ''shim_peer_pid'' (session_options p bg) = Some (pe_pid p)"
    "opt as_bool ''shim_peer_attested'' (session_options p bg) = Some (pe_attested p)"
    "opt as_str ''shim_client'' (session_options p bg) = pe_client p"
    by (simp_all add: opt_def session_options_def map_add_def split: option.split)
  then show ?thesis
    using assms by (simp add: identity_of_def Let_def from_pid_uid_def split: option.split)
qed

text \<open>
  C27. Every caller of the bridge is introduced at the lowest trust, under its own name. Serving one
  connection asks the daemon for one session at most. When it asks, a request was read; with
  tokens required the request's token is one of the table; and the daemon, which knows
  the shim by its user or unit, classes the session as a shim's, attested exactly when the kernel
  named the peer, and named only by a configured client whose token the request carries.
\<close>

theorem shim_callers_at_lowest_trust:
  assumes "serve e cfg s = (r, s')" "sh_asked s' \<noteq> sh_asked s"
    and "is_shim c rd (from_pid_uid rd links pid uid uid Native)"
  shows "\<exists>req rest m os i. read_request (cn_in (sh_conn s)) = (Inr req, rest) \<and> sh_asked s' = sh_asked s @ [(m, os)]
    \<and> (sc_require_token cfg \<longrightarrow> (\<exists>cl\<in>set (sc_clients cfg). hr_token req = Some (cl_token cl)))
    \<and> identity_of c rd links (uid, pid) os = Inr i \<and> id_class i = Shim
    \<and> id_attested i = (\<exists>k u. cn_kind (sh_conn s) = Unix \<and> cn_cred (sh_conn s) = Some (k, u) \<and> k \<noteq> 0)
    \<and> (\<forall>n. id_client i = Some n \<longrightarrow>
          (\<exists>cl\<in>set (sc_clients cfg). hr_token req = Some (cl_token cl) \<and> n = trim (cl_name cl)))"
proof -
  obtain req rest where rd: "read_request (cn_in (sh_conn s)) = (Inr req, rest)"
    using assms(1,2) by (cases "read_request (cn_in (sh_conn s))"; cases "fst (read_request (cn_in (sh_conn s)))") (auto simp: serve_def)
  define s0 where "s0 = s\<lparr> sh_conn := (sh_conn s)\<lparr> cn_in := rest \<rparr> \<rparr>"
  define p where "p = caller_of e cfg req (sh_conn s0)"
  have s': "s' = snd (serve_request e cfg req s0)"
    using assms(1) rd by (simp add: serve_def s0_def)
  have named: "\<not> (sc_require_token cfg \<and> pe_client p = None)"
  proof
    assume "sc_require_token cfg \<and> pe_client p = None"
    then have "sh_asked s' = sh_asked s"
      by (simp add: s' serve_request_def Let_def p_def s0_def)
    with assms(2) show False ..
  qed
  have "asks_once p s0 s'"
    using serve_request_asks[of cfg e req s0] named unfolding s' p_def by blast
  then obtain m bg where asked: "sh_asked s' = sh_asked s @ [(m, session_options p bg)]"
    using assms(2) by (auto simp: asks_once_def s0_def)
  have client: "pe_client p = name_for cfg (hr_token req)"
    by (simp add: p_def caller_of_def)
  have known: "\<exists>cl\<in>set (sc_clients cfg). hr_token req = Some (cl_token cl) \<and> n = cl_name cl" if "pe_client p = Some n" for n
    using that unfolding client name_for_eq
    by (auto split: option.splits bind_splits dest!: find_Some_iff_first)
  have att: "pe_attested p = (\<exists>k u. cn_kind (sh_conn s) = Unix \<and> cn_cred (sh_conn s) = Some (k, u) \<and> k \<noteq> 0)"
    by (auto simp: p_def caller_of_def conn_peer_def peer_cred_def s0_def split: conn_kind.split option.split)
  obtain i where i: "identity_of c rd links (uid, pid) (session_options p bg) = Inr i" "id_class i = Shim"
    "id_attested i = pe_attested p"
    "id_client i = (case pe_client p of Some n \<Rightarrow> if client_ok (trim n) then Some (trim n) else None | None \<Rightarrow> None)"
    using session_options_identity[OF assms(3)] by blast
  have "\<forall>n. id_client i = Some n \<longrightarrow>
      (\<exists>cl\<in>set (sc_clients cfg). hr_token req = Some (cl_token cl) \<and> n = trim (cl_name cl))"
    using known by (auto simp: i(4) split: option.splits if_splits)
  moreover have "sc_require_token cfg \<longrightarrow> (\<exists>cl\<in>set (sc_clients cfg). hr_token req = Some (cl_token cl))"
    using named by (cases "pe_client p") (auto dest: known)
  ultimately show ?thesis
    using rd asked i att by blast
qed

text \<open>A request that is only its first line, to count the tokens of nothing.\<close>

definition counting_bytes :: "byte list" where
  "counting_bytes = bytes_of (''POST /v1/messages/count_tokens'' @ [LF] @ CRLF)"

definition counting_shim :: shim where
  "counting_shim =
     \<lparr> sh_conn = open_conn\<lparr> cn_in := [Data counting_bytes] \<rparr>, sh_sock = \<lparr> so_sent = [], so_room = None \<rparr>, sh_asked = [],
       sh_opened = 0, sh_closed = 0 \<rparr>"

definition counting_env :: shim_env where
  "counting_env =
     \<lparr> se_lib = plain_lib, se_self = (7, 5), se_create = (\<lambda>_ _. None), se_clone = None, se_models = Inr [], se_feed = [], se_room = None \<rparr>"

lemma counting_read:
  "\<exists>r'. read_request [Data counting_bytes]
     = (Inr \<lparr> hr_method = ''POST'', hr_path = ''/v1/messages/count_tokens'', hr_body = [], hr_token = None \<rparr>, r')"
proof -
  have "split_whitespace (''POST /v1/messages/count_tokens'' @ [LF]) = [''POST'', ''/v1/messages/count_tokens'']"
    by (simp add: split_whitespace_def is_space_def code_def)
  then show ?thesis
    using read_request_lines[of "[Data counting_bytes]" "''POST /v1/messages/count_tokens''" "[]" "[]" "[]"]
    by (auto simp: counting_bytes_def kept_of_def code_def route_path_takeWhile)
qed

lemma counting_asked:
  "sh_asked (snd (serve counting_env default_shim_config counting_shim))
   = [(''default'', session_options \<lparr> pe_pid = 7, pe_uid = 5, pe_client = None, pe_attested = False \<rparr> True)]"
  using counting_read
  by (auto simp: serve_def counting_shim_def serve_request_def Let_def default_shim_config_def
      count_tokens_def counting_env_def plain_lib_def jfield_def flat_text_def one_shot_def open_shim_session_def try_clone_def
      on_sock_def so_send_def model_for_def caller_of_def conn_peer_def open_conn_def name_for_def)

theorem shim_callers_at_lowest_trust_witness:
  "\<exists>m os i. sh_asked (snd (serve counting_env default_shim_config counting_shim)) = [(m, os)]
     \<and> identity_of (default_config\<lparr> c_policy := default_policy\<lparr> shim_user := ''shim'' \<rparr> \<rparr>)
         (\<lambda>p. if p = ''/etc/passwd'' then Some ''shim:x:5:5'' else None) (\<lambda>_. None) (5, 7) os = Inr i \<and> id_class i = Shim"
proof -
  have "is_shim (default_config\<lparr> c_policy := default_policy\<lparr> shim_user := ''shim'' \<rparr> \<rparr>)
      (\<lambda>p. if p = ''/etc/passwd'' then Some ''shim:x:5:5'' else None)
      (from_pid_uid (\<lambda>p. if p = ''/etc/passwd'' then Some ''shim:x:5:5'' else None) (\<lambda>_. None) 7 5 5 Native)"
    by (simp add: is_shim_def Let_def trim_def trim_start_def trim_end_def is_space_def code_def uid_of_user_def
        uid_from_passwd_file_def field_two_def rust_lines_def strip_cr_def parse_uint_def is_ascii_digit_def digits_value_def
        from_pid_uid_def)
  moreover obtain r s' where "serve counting_env default_shim_config counting_shim = (r, s')"
    by (rule prod.exhaust)
  moreover from this have "sh_asked s' \<noteq> sh_asked counting_shim"
    using counting_asked by (simp add: counting_shim_def)
  ultimately show ?thesis
    using shim_callers_at_lowest_trust[of counting_env default_shim_config counting_shim r s'] by (fastforce simp: counting_shim_def)
qed

end
