(* ===== verification/Llama.thy ===== *)
theory Llama
  imports Remote Mock "HOL-Library.List_Lexorder" "HOL-Library.Char_ord"
begin

text \<open>
  The llama.cpp backend, \<open>crates/ai-daemon-backend-llamacpp/src/main.rs\<close>: it starts a \<open>llama-server\<close> for each model and
  forwards requests to it over HTTP. Loading, every handler, and the threads of generations, embeddings and
  tokenizations, cut where they read a shared flag, take a lock or read from their socket. The servers are child
  processes, known by their numbers; what a socket gives, how a connection, a write or a start ends, the file system
  and JSON are arguments. Flags live in the job that owns them, as in \<open>Mock\<close>.
\<close>

subsection \<open>Finding the server\<close>

definition LLAMA_NAME :: string where "LLAMA_NAME = ''llamacpp''"
definition PORT_BASE :: nat where "PORT_BASE = 18400"

record llama_env =
  lv_json :: json_lib
  lv_exists :: "string \<Rightarrow> bool"
  lv_dir :: "string \<Rightarrow> string list option"
  lv_explicit :: "string option"
  lv_path :: "string option"
  lv_threads :: "string option"
  lv_layers :: "string option"

definition locate_server :: "llama_env \<Rightarrow> string" where
  "locate_server v =
     (case lv_explicit v of
        Some p \<Rightarrow> p
      | None \<Rightarrow>
          (case List.find (lv_exists v)
                  [''/usr/bin/llama-server'', ''/usr/local/bin/llama-server'', ''/opt/llama.cpp/bin/llama-server''] of
             Some p \<Rightarrow> p
           | None \<Rightarrow> ''llama-server''))"

text \<open>\<open>PathBuf::join\<close> with a relative path.\<close>

definition push_path :: "string \<Rightarrow> string \<Rightarrow> string" where
  "push_path dir b = (if dir = [] \<or> ends_with ''/'' dir then dir @ b else dir @ ''/'' @ b)"

definition which :: "llama_env \<Rightarrow> string \<Rightarrow> string option" where
  "which v binary =
     (if starts_with ''/'' binary then (if lv_exists v binary then Some binary else None)
      else
        (case lv_path v of
           None \<Rightarrow> None
         | Some path \<Rightarrow> List.find (lv_exists v) (map (\<lambda>dir. push_path dir binary) (split_on (CHR '':'') path))))"

definition available :: "llama_env \<Rightarrow> bool" where
  "available v \<longleftrightarrow> lv_exists v (locate_server v) \<or> which v (locate_server v) \<noteq> None"

definition detect_devices :: "llama_env \<Rightarrow> string list" where
  "detect_devices v =
     sort (concat (map (\<lambda>dir.
        case lv_dir v dir of
          None \<Rightarrow> []
        | Some entries \<Rightarrow>
            map (push_path dir) (filter (\<lambda>name. starts_with ''renderD'' name \<or> starts_with ''accel'' name) entries))
       [''/dev/dri'', ''/dev/accel'']))"

definition llama_info :: "llama_env \<Rightarrow> backend_info" where
  "llama_info v =
     \<lparr> bi_name = LLAMA_NAME, bi_version = ''1.0.0'', bi_formats = (if available v then [''gguf''] else []),
       bi_quantizations = [''q2_k'', ''q3_k_m'', ''q4_0'', ''q4_k_s'', ''q4_k_m'', ''q5_k_m'', ''q6_k'', ''q8_0'', ''f16'', ''bf16'', ''f32''],
       bi_devices = detect_devices v, bi_device_memory = None,
       bi_capabilities = (if available v then [''generate'', ''embed'', ''logprobs'', ''grammar'', ''tools''] else []),
       bi_local = True \<rparr>"

subsection \<open>HTTP to the server\<close>

definition server_request :: "string \<Rightarrow> string \<Rightarrow> string \<Rightarrow> string" where
  "server_request method path body =
     method @ '' '' @ path @ '' HTTP/1.1'' @ CRLF @ ''Host: 127.0.0.1'' @ CRLF @ ''Content-Type: application/json'' @ CRLF
     @ ''Content-Length: '' @ show_nat (length body) @ CRLF @ ''Connection: close'' @ CRLF @ CRLF @ body"

text \<open>What is made of everything the server wrote until it closed, or of the error on the way.\<close>

definition http_reply :: "string + string \<Rightarrow> string + string" where
  "http_reply outcome =
     rbind outcome (\<lambda>response.
       case split_once (CRLF @ CRLF) response of
         None \<Rightarrow> Inl ''malformed HTTP reply from llama-server''
       | Some (head, payload) \<Rightarrow>
           let first = (case rust_lines head of [] \<Rightarrow> [] | l # _ \<Rightarrow> l)
           in if \<not> contains_str '' 200 '' first then Inl (''llama-server said: '' @ first) else Inr payload)"

definition KV_DEFAULT :: nat where "KV_DEFAULT = 131072"

definition kv_estimate :: "json_lib \<Rightarrow> string + string \<Rightarrow> nat" where
  "kv_estimate jl outcome =
     (case http_reply outcome of
        Inl _ \<Rightarrow> KV_DEFAULT
      | Inr body \<Rightarrow>
          (case jl_parse_str jl body of
             None \<Rightarrow> KV_DEFAULT
           | Some v \<Rightarrow>
               let meta = Option.bind (jget ''default_generation_settings'' v) (jget ''model'');
                   field = (\<lambda>k. Option.bind meta (jfield ju64 k))
               in (case (field ''n_layer'', field ''n_head_kv'', field ''n_embd'') of
                     (Some layers, Some heads, Some embd) \<Rightarrow>
                       if 0 < heads
                       then max (u64_mul (u64_mul (u64_mul (u64_mul layers heads) (embd div max heads 1)) 2) 2) 1024
                       else KV_DEFAULT
                   | _ \<Rightarrow> KV_DEFAULT)))"

definition free_port :: "(nat \<Rightarrow> bool) \<Rightarrow> nat option" where
  "free_port binds = List.find binds (map (\<lambda>offset. PORT_BASE + offset) [0..<64])"

subsection \<open>What a generation asks and reads\<close>

definition llama_body :: "json_lib \<Rightarrow> message list \<Rightarrow> params \<Rightarrow> string option \<Rightarrow> json" where
  "llama_body jl ms p grammar =
     JObj ([(''messages'', JArr (map remote_message ms)), (''stream'', JBool True), (''n_predict'', jnum (unwrap_or (max_tokens p) 512))]
       @ (case temperature p of Some x \<Rightarrow> [(''temperature'', jl_of_f32 jl x)] | None \<Rightarrow> [])
       @ (case top_p p of Some x \<Rightarrow> [(''top_p'', jl_of_f32 jl x)] | None \<Rightarrow> [])
       @ (case seed p of Some x \<Rightarrow> [(''seed'', jnum x)] | None \<Rightarrow> [])
       @ (case stop p of Some ss \<Rightarrow> [(''stop'', JArr (map JStr ss))] | None \<Rightarrow> [])
       @ (case grammar of Some g \<Rightarrow> [(''grammar'', JStr g)] | None \<Rightarrow> [])
       @ (case top_k p of Some x \<Rightarrow> [(''top_k'', jnum x)] | None \<Rightarrow> [])
       @ (case min_p p of Some x \<Rightarrow> [(''min_p'', jl_of_f32 jl x)] | None \<Rightarrow> [])
       @ (case repeat_penalty p of Some x \<Rightarrow> [(''repeat_penalty'', jl_of_f32 jl x)] | None \<Rightarrow> [])
       @ (if logit_bias p = [] then []
          else [(''logit_bias'', JArr (map (\<lambda>(tok, b). JArr [jnum tok, jl_of_f32 jl b]) (logit_bias p)))])
       @ (case logprobs p of
            Some n \<Rightarrow> if 0 < n then [(''logprobs'', JBool True), (''top_logprobs'', jnum n)] else []
          | None \<Rightarrow> []))"

record lgen =
  lg_text :: string
  lg_emitted :: nat
  lg_prompt :: nat
  lg_finish :: "string option"

definition fresh_lgen :: lgen where
  "fresh_lgen = \<lparr> lg_text = [], lg_emitted = 0, lg_prompt = 0, lg_finish = None \<rparr>"

text \<open>The payload of a line: nothing to do, the end of the stream, or a chunk.\<close>

datatype llama_line = Skip | Stream_End | Chunk json

definition read_chunk :: "json_lib \<Rightarrow> string \<Rightarrow> llama_line" where
  "read_chunk jl line =
     (case strip_prefix ''data: '' line of
        None \<Rightarrow> Skip
      | Some rest \<Rightarrow>
          let payload = trim rest
          in if payload = ''[DONE]'' then Stream_End
             else if payload = [] then Skip
             else (case jl_parse_str jl payload of None \<Rightarrow> Skip | Some v \<Rightarrow> Chunk v))"

text \<open>The word in a chunk, if it has one.\<close>

definition chunk_choice :: "json \<Rightarrow> json option" where
  "chunk_choice chunk = Option.bind (jget ''choices'' chunk) jfirst"

definition chunk_word :: "json \<Rightarrow> string option" where
  "chunk_word chunk =
     Option.bind (chunk_choice chunk) (\<lambda>choice.
       Option.bind (Option.bind (jget ''delta'' choice) (jfield jstr ''content'')) (\<lambda>tok. if tok = [] then None else Some tok))"

definition llama_take :: "json_lib \<Rightarrow> nat \<Rightarrow> bool \<Rightarrow> json \<Rightarrow> lgen \<Rightarrow> lgen \<times> backend_event list" where
  "llama_take jl req mute chunk g =
     (let g1 = (case jget ''usage'' chunk of
                  Some u \<Rightarrow> g\<lparr> lg_prompt := unwrap_or (jfield ju64 ''prompt_tokens'' u) (lg_prompt g) \<rparr>
                | None \<Rightarrow> g)
      in case chunk_choice chunk of
           None \<Rightarrow> (g1, [])
         | Some choice \<Rightarrow>
             let g2 = (case jfield jstr ''finish_reason'' choice of Some why \<Rightarrow> g1\<lparr> lg_finish := Some why \<rparr> | None \<Rightarrow> g1)
             in (case chunk_word chunk of
                   None \<Rightarrow> (g2, [])
                 | Some tok \<Rightarrow>
                     (g2\<lparr> lg_text := lg_text g2 @ tok, lg_emitted := lg_emitted g2 + 1 \<rparr>,
                      if mute then [] else [BE_Token req tok (remote_logprobs jl choice)])))"

function show_hex :: "nat \<Rightarrow> string" where
  "show_hex n = (let digit = (\<lambda>d. char_of (if d < 10 then 48 + d else 87 + d))
                 in if n < 16 then [digit n] else show_hex (n div 16) @ [digit (n mod 16)])"
  by pat_completeness auto
termination
  by (relation "measure id") auto

declare show_hex.simps [simp del]

definition parse_tool_call :: "json_lib \<Rightarrow> string \<Rightarrow> tool_call option" where
  "parse_tool_call jl words =
     Option.bind (jl_parse_str jl (trim words)) (\<lambda>v.
       Option.bind (jfield jstr ''name'' v) (\<lambda>name.
         Some \<lparr> tc_id = ''call-'' @ show_hex (unat (fnv words)), tc_name = name,
                tc_arguments = jl_show jl (unwrap_or (jget ''arguments'' v) (JObj [])) \<rparr>))"

text \<open>After the stream: with tools the buffered text is a call or is passed on in pieces; then the last event.\<close>

definition llama_closing :: "json_lib \<Rightarrow> nat \<Rightarrow> bool \<Rightarrow> lgen \<Rightarrow> backend_event list" where
  "llama_closing jl req has_tools g =
     (let last_event = (\<lambda>why. BE_Done req (no_usage\<lparr> prompt_tokens := lg_prompt g, completion_tokens := lg_emitted g \<rparr>)
                                (Some (unwrap_or why ''stop'')))
      in if has_tools
         then (case parse_tool_call jl (lg_text g) of
                 Some call \<Rightarrow> [BE_ToolCall req call, last_event (Some ''tool_call'')]
               | None \<Rightarrow> map (\<lambda>tok. BE_Token req tok None) (split_inclusive (CHR '' '') (lg_text g)) @ [last_event (lg_finish g)])
         else [last_event (lg_finish g)])"

subsection \<open>The state\<close>

record loaded =
  ld_child :: nat
  ld_port :: nat
  ld_n_ctx :: nat
  ld_kv :: nat

text \<open>
  Where a thread is: before its start, connected, with its socket in the table, reading the head of the reply,
  reading why it was refused, reading the stream, at the end of the stream, holding a chunk at each of the three
  reads of a flag and after them, writing the events that are left, and taking its flags and its
  socket out of the tables.
\<close>

datatype lphase =
    LP_Start
  | LP_Opened nat
  | LP_Posting nat
  | LP_Head bool
  | LP_Refused
  | LP_Read lgen
  | LP_Ended "string option" lgen
  | LP_Pause json lgen
  | LP_Hold json lgen
  | LP_Cancel json lgen
  | LP_Take json lgen
  | LP_Say "backend_event list"
  | LP_Clear_Paused
  | LP_Clear_Cancelled
  | LP_Clear_Stream
  | LP_Gone

text \<open>Every line a job has read of the stream of its server is kept in \<open>lj_lines\<close>, whatever becomes of it.\<close>

record ljob =
  lj_asked :: backend_request
  lj_phase :: lphase
  lj_paused :: bool
  lj_cancelled :: bool
  lj_shut :: bool
  lj_lines :: "string list"

record llama =
  ll_models :: "(string \<times> loaded) list"
  ll_paused :: "(nat \<times> nat) list"
  ll_cancelled :: "(nat \<times> nat) list"
  ll_streams :: "(nat \<times> nat) list"
  ll_jobs :: "ljob list"
  ll_alive :: "nat list"
  ll_ran :: "string list list"
  ll_sent :: "(nat \<times> string) list"
  ll_out :: "(nat option \<times> backend_event) list"

definition llama_start :: llama where
  "llama_start =
     \<lparr> ll_models = [], ll_paused = [], ll_cancelled = [], ll_streams = [], ll_jobs = [], ll_alive = [], ll_ran = [], ll_sent = [], ll_out = [] \<rparr>"

definition llama_send :: "nat option \<Rightarrow> backend_event \<Rightarrow> llama \<Rightarrow> llama" where
  "llama_send who e s = s\<lparr> ll_out := ll_out s @ [(who, e)] \<rparr>"

text \<open>Dropping the record of a loaded model kills its server and waits for it.\<close>

definition drop_loaded :: "loaded \<Rightarrow> llama \<Rightarrow> llama" where
  "drop_loaded l s = s\<lparr> ll_alive := remove1 (ld_child l) (ll_alive s) \<rparr>"

subsection \<open>Loading\<close>

definition server_command :: "llama_env \<Rightarrow> string \<Rightarrow> string \<Rightarrow> nat \<Rightarrow> nat \<Rightarrow> string list" where
  "server_command v server path port n_ctx =
     [server, ''--model'', path, ''--host'', ''127.0.0.1'', ''--port'', show_nat port, ''--ctx-size'', show_nat n_ctx,
      ''--parallel'', ''1'', ''--no-webui'']
     @ (case lv_threads v of Some t \<Rightarrow> [''--threads'', t] | None \<Rightarrow> [])
     @ (case lv_layers v of Some n \<Rightarrow> [''--n-gpu-layers'', n] | None \<Rightarrow> [])"

text \<open>The polls before the deadline: whether the server has exited, and whether it answered that it is healthy.\<close>

fun wait_ready :: "(string option \<times> bool) list \<Rightarrow> string option" where
  "wait_ready [] = Some ''llama-server never became healthy''"
| "wait_ready ((Some status, _) # rest) = Some (''llama-server exited with '' @ status @ '' before becoming ready'')"
| "wait_ready ((None, well) # rest) = (if well then None else wait_ready rest)"

record load_env =
  lo_binds :: "nat \<Rightarrow> bool"
  lo_spawn :: "string + nat"
  lo_polls :: "(string option \<times> bool) list"
  lo_props :: "string + string"

definition llama_load :: "llama_env \<Rightarrow> load_env \<Rightarrow> string \<Rightarrow> string \<Rightarrow> nat \<Rightarrow> llama \<Rightarrow> (string + nat \<times> nat) \<times> llama" where
  "llama_load v w model path n s =
     (case map_of (ll_models s) model of
        Some l \<Rightarrow> (Inr (ld_n_ctx l, ld_kv l), s)
      | None \<Rightarrow>
          (case which v (locate_server v) of
             None \<Rightarrow> (Inl (locate_server v @ '' is not installed''), s)
           | Some server \<Rightarrow>
               if \<not> lv_exists v path then (Inl (path @ '' does not exist''), s)
               else
                 let n_ctx = (if n = 0 then 4096 else n)
                 in case free_port (lo_binds w) of
                      None \<Rightarrow> (Inl ''no free loopback port for llama-server'', s)
                    | Some port \<Rightarrow>
                        (case lo_spawn w of
                           Inl err \<Rightarrow> (Inl (''spawning '' @ server @ '': '' @ err), s)
                         | Inr child \<Rightarrow>
                             let s1 = s\<lparr> ll_alive := child # ll_alive s, ll_ran := ll_ran s @ [server_command v server path port n_ctx] \<rparr>;
                                 l = \<lparr> ld_child = child, ld_port = port, ld_n_ctx = n_ctx, ld_kv = 0 \<rparr>
                             in case wait_ready (lo_polls w) of
                                  Some err \<Rightarrow> (Inl err, drop_loaded l s1)
                                | None \<Rightarrow>
                                    let cost = kv_estimate (lv_json v) (lo_props w)
                                    in (Inr (n_ctx, cost), s1\<lparr> ll_models := AList.update model (l\<lparr> ld_kv := cost \<rparr>) (ll_models s1) \<rparr>))))"

definition llama_unload :: "string \<Rightarrow> llama \<Rightarrow> llama" where
  "llama_unload model s =
     (case map_of (ll_models s) model of
        None \<Rightarrow> s
      | Some l \<Rightarrow> drop_loaded l (s\<lparr> ll_models := AList.delete model (ll_models s) \<rparr>))"

text \<open>The end of the program: every model is dropped.\<close>

definition llama_exit :: "llama \<Rightarrow> llama" where
  "llama_exit s = (fold (\<lambda>(_, l). drop_loaded l) (ll_models s) s)\<lparr> ll_models := [] \<rparr>"

subsection \<open>Requests\<close>

definition new_ljob :: "backend_request \<Rightarrow> ljob" where
  "new_ljob q = \<lparr> lj_asked = q, lj_phase = LP_Start, lj_paused = False, lj_cancelled = False, lj_shut = False, lj_lines = [] \<rparr>"

definition on_job :: "(ljob \<Rightarrow> ljob) \<Rightarrow> nat option \<Rightarrow> llama \<Rightarrow> llama" where
  "on_job g owner s = (case owner of None \<Rightarrow> s | Some j \<Rightarrow> s\<lparr> ll_jobs := (ll_jobs s)[j := g (ll_jobs s ! j)] \<rparr>)"

fun llama_handle :: "llama_env \<Rightarrow> load_env \<Rightarrow> backend_request \<Rightarrow> llama \<Rightarrow> bool \<times> llama" where
  "llama_handle v w (B_Hello proto) s =
     (if proto \<noteq> BACKEND_PROTO
      then (False, llama_send None (BE_Error None ''protocol'' (LLAMA_NAME @ '' speaks protocol '' @ show_nat BACKEND_PROTO)) s)
      else (True, llama_send None (BE_Hello BACKEND_PROTO (llama_info v)) s))"
| "llama_handle v w (B_Load model path digest n) s =
     (case llama_load v w model path n s of
        (Inr (n_ctx, cost), s1) \<Rightarrow> (True, llama_send None (BE_Loaded model cost n_ctx) s1)
      | (Inl err, s1) \<Rightarrow> (True, llama_send None (BE_Error None ''backend-failed'' err) s1))"
| "llama_handle v w (B_Unload model) s = (True, llama_send None (BE_Unloaded model) (llama_unload model s))"
| "llama_handle v w (B_Generate req model session ms ps grammar tools par as) s =
     (if as \<noteq> []
      then (True, llama_send None (BE_Error (Some req) ''attachment-unsupported'' ''this backend does not declare vision or audio-in'') s)
      else
        let j = length (ll_jobs s)
        in (True, s\<lparr> ll_paused := AList.update req j (ll_paused s), ll_cancelled := AList.update req j (ll_cancelled s),
                     ll_jobs := ll_jobs s @ [new_ljob (B_Generate req model session ms ps grammar tools par as)] \<rparr>))"
| "llama_handle v w (B_Embed req model inputs) s = (True, s\<lparr> ll_jobs := ll_jobs s @ [new_ljob (B_Embed req model inputs)] \<rparr>)"
| "llama_handle v w (B_Tokenize req model words) s = (True, s\<lparr> ll_jobs := ll_jobs s @ [new_ljob (B_Tokenize req model words)] \<rparr>)"
| "llama_handle v w (B_Cancel req) s =
     (True, on_job (\<lambda>jb. jb\<lparr> lj_shut := True \<rparr>) (map_of (ll_streams s) req)
              (on_job (\<lambda>jb. jb\<lparr> lj_cancelled := True \<rparr>) (map_of (ll_cancelled s) req) s))"
| "llama_handle v w (B_Pause req) s = (True, on_job (\<lambda>jb. jb\<lparr> lj_paused := True \<rparr>) (map_of (ll_paused s) req) s)"
| "llama_handle v w (B_Resume req) s = (True, on_job (\<lambda>jb. jb\<lparr> lj_paused := False \<rparr>) (map_of (ll_paused s) req) s)"
| "llama_handle v w (B_DropCache session) s = (True, s)"
| "llama_handle v w (B_GenerateMedia req model session kind prompt ps n) s =
     (True, llama_send None (BE_Error (Some req) ''attachment-unsupported'' (LLAMA_NAME @ '' does not generate '' @ media_as_str kind)) s)"
| "llama_handle v w B_Shutdown s = (False, s)"

subsection \<open>The threads\<close>

definition put_ljob :: "nat \<Rightarrow> ljob \<Rightarrow> llama \<Rightarrow> llama" where
  "put_ljob j jb s = s\<lparr> ll_jobs := (ll_jobs s)[j := jb] \<rparr>"

definition go :: "nat \<Rightarrow> lphase \<Rightarrow> llama \<Rightarrow> llama" where
  "go j p s = put_ljob j ((ll_jobs s ! j)\<lparr> lj_phase := p \<rparr>) s"

fun lreq :: "backend_request \<Rightarrow> nat" where
  "lreq (B_Generate req _ _ _ _ _ _ _ _) = req"
| "lreq (B_Embed req _ _) = req"
| "lreq (B_Tokenize req _ _) = req"
| "lreq _ = 0"

fun lmodel :: "backend_request \<Rightarrow> string" where
  "lmodel (B_Generate _ model _ _ _ _ _ _ _) = model"
| "lmodel (B_Embed _ model _) = model"
| "lmodel (B_Tokenize _ model _) = model"
| "lmodel _ = []"

fun has_tools :: "backend_request \<Rightarrow> bool" where
  "has_tools (B_Generate _ _ _ _ _ _ tools _ _) = (case tools of Some (_ # _) \<Rightarrow> True | _ \<Rightarrow> False)"
| "has_tools _ = False"

definition lfail :: "backend_request \<Rightarrow> string \<Rightarrow> lphase" where
  "lfail q err = LP_Say [BE_Error (Some (lreq q)) ''backend-failed'' err]"

text \<open>The answers of the one-shot requests. Of an error of the JSON reader only the prefix is kept; its text is serde's.\<close>

definition llama_vectors :: "json_lib \<Rightarrow> string + string \<Rightarrow> string + f32 list list" where
  "llama_vectors jl outcome =
     rbind (http_reply outcome) (\<lambda>response.
       rbind (ok_or (jl_parse_str jl response) ''embedding reply'') (\<lambda>v.
         rbind (ok_or (jfield jarr ''data'' v) ''no embeddings in the reply'') (\<lambda>items. Inr (map (read_vector jl) items))))"

definition llama_tokens :: "json_lib \<Rightarrow> string + string \<Rightarrow> string + nat list" where
  "llama_tokens jl outcome =
     rbind (http_reply outcome) (\<lambda>response.
       rbind (ok_or (jl_parse_str jl response) ''tokenize reply'') (\<lambda>v.
         Inr (unwrap_or (map_option (\<lambda>vs. map as_u32_trunc (List.map_filter ju64 vs)) (jfield jarr ''tokens'' v)) [])))"

definition llama_one_shot :: "json_lib \<Rightarrow> string + string \<Rightarrow> backend_request \<Rightarrow> backend_event list" where
  "llama_one_shot jl outcome q =
     (case q of
        B_Embed req _ _ \<Rightarrow>
          (case llama_vectors jl outcome of
             Inr vs \<Rightarrow> [BE_Vectors req vs, BE_Done req no_usage (Some ''stop'')]
           | Inl err \<Rightarrow> [BE_Error (Some req) ''backend-failed'' err])
      | B_Tokenize req _ _ \<Rightarrow>
          (case llama_tokens jl outcome of
             Inr ts \<Rightarrow> [BE_Tokens req ts, BE_Done req (no_usage\<lparr> prompt_tokens := length ts \<rparr>) (Some ''stop'')]
           | Inl err \<Rightarrow> [BE_Error (Some req) ''backend-failed'' err])
      | _ \<Rightarrow> [])"

text \<open>What a request is sent to the server as.\<close>

definition llama_post :: "json_lib \<Rightarrow> backend_request \<Rightarrow> string" where
  "llama_post jl q =
     (case q of
        B_Generate _ _ _ ms ps grammar _ _ _ \<Rightarrow> server_request ''POST'' ''/v1/chat/completions'' (jl_show jl (llama_body jl ms ps grammar))
      | B_Embed _ _ inputs \<Rightarrow> server_request ''POST'' ''/v1/embeddings'' (jl_show jl (JObj [(''input'', JArr (map JStr inputs))]))
      | B_Tokenize _ _ words \<Rightarrow> server_request ''POST'' ''/tokenize'' (jl_show jl (JObj [(''content'', JStr words)]))
      | _ \<Rightarrow> [])"

definition posted :: "json_lib \<Rightarrow> nat \<Rightarrow> nat \<Rightarrow> llama \<Rightarrow> llama" where
  "posted jl port j s = s\<lparr> ll_sent := ll_sent s @ [(port, llama_post jl (lj_asked (ll_jobs s ! j)))] \<rparr>"

text \<open>Starting: the port of the model and the connection to it; the one-shot requests then do their whole exchange.\<close>

definition ljob_start :: "llama_env \<Rightarrow> string option \<Rightarrow> string + string \<Rightarrow> nat \<Rightarrow> llama \<Rightarrow> llama" where
  "ljob_start v refused outcome j s =
     (let q = lj_asked (ll_jobs s ! j)
      in case map_of (ll_models s) (lmodel q) of
           None \<Rightarrow> go j (lfail q (lmodel q @ '' is not loaded'')) s
         | Some l \<Rightarrow>
             (case refused of
                Some err \<Rightarrow> go j (lfail q (''connecting to llama-server on '' @ show_nat (ld_port l) @ '': '' @ err)) s
              | None \<Rightarrow>
                  if is_generate q then go j (LP_Opened (ld_port l)) s
                  else go j (LP_Say (llama_one_shot (lv_json v) outcome q)) (posted (lv_json v) (ld_port l) j s)))"

text \<open>The socket goes into the table, unless it cannot be duplicated.\<close>

definition ljob_register :: "bool \<Rightarrow> nat \<Rightarrow> nat \<Rightarrow> llama \<Rightarrow> llama" where
  "ljob_register duplicated port j s =
     go j (LP_Posting port)
       (if duplicated then s\<lparr> ll_streams := AList.update (lreq (lj_asked (ll_jobs s ! j))) j (ll_streams s) \<rparr> else s)"

definition ljob_post :: "json_lib \<Rightarrow> string option \<Rightarrow> nat \<Rightarrow> nat \<Rightarrow> llama \<Rightarrow> llama" where
  "ljob_post jl err port j s =
     (case err of
        Some e \<Rightarrow> go j (lfail (lj_asked (ll_jobs s ! j)) (''writing to llama-server: '' @ e)) s
      | None \<Rightarrow> go j (LP_Head False) (posted jl port j s))"

definition ljob_head :: "bool \<Rightarrow> pipe \<Rightarrow> nat \<Rightarrow> llama \<Rightarrow> llama" where
  "ljob_head status_ok heard j s =
     (case heard of
        Pipe_Error e \<Rightarrow> go j (lfail (lj_asked (ll_jobs s ! j)) e) s
      | Pipe_End \<Rightarrow> go j (lfail (lj_asked (ll_jobs s ! j)) ''llama-server closed before answering'') s
      | Pipe_Line line \<Rightarrow>
          let ok = (if starts_with ''HTTP/'' line then contains_str '' 200 '' line else status_ok)
          in if line = CRLF \<or> line = [CHR 0x0A]
             then go j (if ok then LP_Read fresh_lgen else LP_Refused) s
             else go j (LP_Head ok) s)"

definition ljob_refused :: "string \<Rightarrow> nat \<Rightarrow> llama \<Rightarrow> llama" where
  "ljob_refused rest j s = go j (lfail (lj_asked (ll_jobs s ! j)) (''llama-server refused the request: '' @ trim rest)) s"

definition ljob_read :: "json_lib \<Rightarrow> lgen \<Rightarrow> pipe \<Rightarrow> nat \<Rightarrow> llama \<Rightarrow> llama" where
  "ljob_read jl g heard j s =
     (case heard of
        Pipe_Error e \<Rightarrow> go j (LP_Ended (Some e) g) s
      | Pipe_End \<Rightarrow> go j (LP_Ended None g) s
      | Pipe_Line line \<Rightarrow>
          let q = lj_asked (ll_jobs s ! j)
          in put_ljob j ((ll_jobs s ! j)\<lparr> lj_lines := lj_lines (ll_jobs s ! j) @ [line], lj_phase :=
               (case read_chunk jl line of
                  Skip \<Rightarrow> LP_Read g
                | Stream_End \<Rightarrow> LP_Say (llama_closing jl (lreq q) (has_tools q) g)
                | Chunk v \<Rightarrow> LP_Pause v g) \<rparr>) s)"

text \<open>The steps in which a thread looks at its flags or at nothing that is shared.\<close>

definition ljob_own :: "json_lib \<Rightarrow> nat \<Rightarrow> llama \<Rightarrow> llama" where
  "ljob_own jl j s =
     (let jb = ll_jobs s ! j; q = lj_asked jb; closing = llama_closing jl (lreq q) (has_tools q)
      in case lj_phase jb of
           LP_Ended err g \<Rightarrow>
             (if lj_cancelled jb then go j (LP_Say (closing (g\<lparr> lg_finish := Some ''cancelled'' \<rparr>))) s
              else (case err of Some e \<Rightarrow> go j (lfail q e) s | None \<Rightarrow> go j (LP_Say (closing g)) s))
         | LP_Pause c g \<Rightarrow> go j (if lj_paused jb then LP_Hold c g else LP_Cancel c g) s
         | LP_Hold c g \<Rightarrow> go j (if lj_cancelled jb then LP_Cancel c g else LP_Pause c g) s
         | LP_Cancel c g \<Rightarrow>
             (if lj_cancelled jb then go j (LP_Say (closing (g\<lparr> lg_finish := Some ''cancelled'' \<rparr>))) s
              else go j (LP_Take c g) s)
         | LP_Take c g \<Rightarrow>
             (let (g', es) = llama_take jl (lreq q) (has_tools q) c g
              in go j (LP_Read g') (fold (llama_send (Some j)) es s))
         | LP_Say [] \<Rightarrow> go j (if is_generate q then LP_Clear_Paused else LP_Gone) s
         | LP_Say (e # es) \<Rightarrow> go j (LP_Say es) (llama_send (Some j) e s)
         | LP_Clear_Paused \<Rightarrow> go j LP_Clear_Cancelled (s\<lparr> ll_paused := AList.delete (lreq q) (ll_paused s) \<rparr>)
         | LP_Clear_Cancelled \<Rightarrow> go j LP_Clear_Stream (s\<lparr> ll_cancelled := AList.delete (lreq q) (ll_cancelled s) \<rparr>)
         | LP_Clear_Stream \<Rightarrow> go j LP_Gone (s\<lparr> ll_streams := AList.delete (lreq q) (ll_streams s) \<rparr>)
         | _ \<Rightarrow> s)"

text \<open>A process number is not given to a new child while the old one has not been waited for.\<close>

inductive llama_step :: "llama_env \<Rightarrow> llama \<Rightarrow> llama \<Rightarrow> bool" for v where
  handles: "(\<forall>child. lo_spawn w = Inr child \<longrightarrow> child \<notin> set (ll_alive s)) \<Longrightarrow> llama_step v s (snd (llama_handle v w q s))"
| starts: "j < length (ll_jobs s) \<Longrightarrow> lj_phase (ll_jobs s ! j) = LP_Start \<Longrightarrow> llama_step v s (ljob_start v refused outcome j s)"
| registers: "j < length (ll_jobs s) \<Longrightarrow> lj_phase (ll_jobs s ! j) = LP_Opened port \<Longrightarrow> llama_step v s (ljob_register duplicated port j s)"
| posts: "j < length (ll_jobs s) \<Longrightarrow> lj_phase (ll_jobs s ! j) = LP_Posting port \<Longrightarrow> llama_step v s (ljob_post (lv_json v) err port j s)"
| heads: "j < length (ll_jobs s) \<Longrightarrow> lj_phase (ll_jobs s ! j) = LP_Head ok \<Longrightarrow> llama_step v s (ljob_head ok heard j s)"
| refuses: "j < length (ll_jobs s) \<Longrightarrow> lj_phase (ll_jobs s ! j) = LP_Refused \<Longrightarrow> llama_step v s (ljob_refused rest j s)"
| reads: "j < length (ll_jobs s) \<Longrightarrow> lj_phase (ll_jobs s ! j) = LP_Read g \<Longrightarrow> llama_step v s (ljob_read (lv_json v) g heard j s)"
| works: "j < length (ll_jobs s) \<Longrightarrow> llama_step v s (ljob_own (lv_json v) j s)"

inductive_cases llama_stepE: "llama_step v s t"

subsection \<open>What a job says\<close>

definition lout :: "nat \<Rightarrow> llama \<Rightarrow> backend_event list" where
  "lout j s = map snd (filter (\<lambda>(who, _). who = Some j) (ll_out s))"

fun terminal :: "backend_event \<Rightarrow> bool" where
  "terminal (BE_Done _ _ _) = True"
| "terminal (BE_Error _ _ _) = True"
| "terminal _ = False"

text \<open>What the chunks heard so far make of a generation: its state, and the tokens passed on.\<close>

definition llama_heard :: "json_lib \<Rightarrow> backend_request \<Rightarrow> json list \<Rightarrow> lgen \<times> backend_event list" where
  "llama_heard jl q cs =
     foldl (\<lambda>(g, es) c. let (g', es') = llama_take jl (lreq q) (has_tools q) c g in (g', es @ es')) (fresh_lgen, []) cs"

text \<open>The chunks among the lines a job has read.\<close>

definition chunks_of :: "json_lib \<Rightarrow> ljob \<Rightarrow> json list" where
  "chunks_of jl jb = List.map_filter (\<lambda>line. case read_chunk jl line of Chunk c \<Rightarrow> Some c | _ \<Rightarrow> None) (lj_lines jb)"

text \<open>
  A whole answer: a failure, perhaps after some tokens; the end of a generation; that of a cancelled one, which may have
  dropped the chunk it held; the answer of a one-shot request.
\<close>

definition llama_answer :: "json_lib \<Rightarrow> ljob \<Rightarrow> backend_event list \<Rightarrow> bool" where
  "llama_answer jl jb es \<longleftrightarrow>
     (let q = lj_asked jb; cs = chunks_of jl jb; (g, words) = llama_heard jl q cs
      in (\<exists>err. es = words @ [BE_Error (Some (lreq q)) ''backend-failed'' err])
         \<or> is_generate q \<and> es = words @ llama_closing jl (lreq q) (has_tools q) g
         \<or> is_generate q \<and> lj_cancelled jb
           \<and> (\<exists>cs' g' words'. (cs' = cs \<or> cs' = butlast cs) \<and> llama_heard jl q cs' = (g', words')
                \<and> es = words' @ llama_closing jl (lreq q) (has_tools q) (g'\<lparr> lg_finish := Some ''cancelled'' \<rparr>))
         \<or> (\<exists>outcome. \<not> is_generate q \<and> lj_lines jb = [] \<and> es = llama_one_shot jl outcome q))"

fun lserved :: "backend_request \<Rightarrow> bool" where
  "lserved (B_Generate _ _ _ _ _ _ _ _ _) = True"
| "lserved (B_Embed _ _ _) = True"
| "lserved (B_Tokenize _ _ _) = True"
| "lserved _ = False"

definition reading :: "json_lib \<Rightarrow> ljob \<Rightarrow> backend_event list \<Rightarrow> lgen \<Rightarrow> bool" where
  "reading jl jb es g \<longleftrightarrow> is_generate (lj_asked jb) \<and> llama_heard jl (lj_asked jb) (chunks_of jl jb) = (g, es)"

text \<open>With a chunk in hand: it is the last that was read, and everything before it has been passed on.\<close>

definition holding :: "json_lib \<Rightarrow> ljob \<Rightarrow> backend_event list \<Rightarrow> json \<Rightarrow> lgen \<Rightarrow> bool" where
  "holding jl jb es c g \<longleftrightarrow>
     is_generate (lj_asked jb) \<and> (\<exists>cs. chunks_of jl jb = cs @ [c] \<and> llama_heard jl (lj_asked jb) cs = (g, es))"

definition ljob_inv :: "json_lib \<Rightarrow> ljob \<Rightarrow> backend_event list \<Rightarrow> bool" where
  "ljob_inv jl jb es \<longleftrightarrow>
     lserved (lj_asked jb)
     \<and> (case lj_phase jb of
          LP_Start \<Rightarrow> es = [] \<and> lj_lines jb = []
        | LP_Opened _ \<Rightarrow> es = [] \<and> lj_lines jb = [] \<and> is_generate (lj_asked jb)
        | LP_Posting _ \<Rightarrow> es = [] \<and> lj_lines jb = [] \<and> is_generate (lj_asked jb)
        | LP_Head _ \<Rightarrow> es = [] \<and> lj_lines jb = [] \<and> is_generate (lj_asked jb)
        | LP_Refused \<Rightarrow> es = [] \<and> lj_lines jb = [] \<and> is_generate (lj_asked jb)
        | LP_Read g \<Rightarrow> reading jl jb es g
        | LP_Ended _ g \<Rightarrow> reading jl jb es g
        | LP_Pause c g \<Rightarrow> holding jl jb es c g
        | LP_Hold c g \<Rightarrow> holding jl jb es c g
        | LP_Cancel c g \<Rightarrow> holding jl jb es c g
        | LP_Take c g \<Rightarrow> holding jl jb es c g
        | LP_Say rest \<Rightarrow> llama_answer jl jb (es @ rest)
        | _ \<Rightarrow> llama_answer jl jb es)"

definition llama_inv :: "json_lib \<Rightarrow> llama \<Rightarrow> bool" where
  "llama_inv jl s \<longleftrightarrow>
     (\<forall>j < length (ll_jobs s). ljob_inv jl (ll_jobs s ! j) (lout j s))
     \<and> (\<forall>j. length (ll_jobs s) \<le> j \<longrightarrow> lout j s = [])"

lemma lout_send [simp]: "lout j (llama_send who e s) = lout j s @ (if who = Some j then [e] else [])"
  by (simp add: lout_def llama_send_def)

lemma lout_frame [simp]:
  "lout j (put_ljob i jb s) = lout j s"
  "lout j (go i p s) = lout j s"
  "lout j (s\<lparr> ll_paused := x \<rparr>) = lout j s"
  "lout j (s\<lparr> ll_cancelled := x \<rparr>) = lout j s"
  "lout j (s\<lparr> ll_streams := x \<rparr>) = lout j s"
  "lout j (s\<lparr> ll_models := m \<rparr>) = lout j s"
  "lout j (s\<lparr> ll_alive := a \<rparr>) = lout j s"
  "lout j (s\<lparr> ll_ran := r \<rparr>) = lout j s"
  "lout j (s\<lparr> ll_sent := sn \<rparr>) = lout j s"
  "lout j (s\<lparr> ll_jobs := js \<rparr>) = lout j s"
  by (simp_all add: lout_def put_ljob_def go_def)

lemma lout_more [simp]:
  "lout j (on_job g owner s) = lout j s"
  "lout j (drop_loaded l s) = lout j s"
  "lout j (posted jl port i s) = lout j s"
  by (simp_all add: on_job_def drop_loaded_def posted_def split: option.split)

lemma lout_sends [simp]: "lout j (fold (llama_send (Some i)) es s) = lout j s @ (if i = j then es else [])"
  by (induction es arbitrary: s) simp_all

lemma ll_jobs_simps [simp]:
  "ll_jobs (put_ljob j jb s) = (ll_jobs s)[j := jb]"
  "ll_jobs (go j p s) = (ll_jobs s)[j := (ll_jobs s ! j)\<lparr> lj_phase := p \<rparr>]"
  "ll_jobs (llama_send who e s) = ll_jobs s"
  "ll_jobs (drop_loaded l s) = ll_jobs s"
  "ll_jobs (posted jl port i s) = ll_jobs s"
  by (simp_all add: put_ljob_def go_def llama_send_def drop_loaded_def posted_def)

lemma ll_jobs_sends [simp]: "ll_jobs (fold (llama_send who) es s) = ll_jobs s"
  by (induction es arbitrary: s) simp_all

lemma load_quiet:
  "ll_jobs (snd (llama_load v w model path n s)) = ll_jobs s"
  "lout j (snd (llama_load v w model path n s)) = lout j s"
  by (simp_all add: llama_load_def Let_def split: option.split sum.split)

lemma unload_quiet [simp]:
  "ll_jobs (llama_unload model s) = ll_jobs s" "lout j (llama_unload model s) = lout j s"
  by (simp_all add: llama_unload_def split: option.split)

lemma ljob_inv_flags:
  "ljob_inv jl jb es \<Longrightarrow> ljob_inv jl (jb\<lparr> lj_paused := b \<rparr>) es"
  "ljob_inv jl jb es \<Longrightarrow> ljob_inv jl (jb\<lparr> lj_shut := b \<rparr>) es"
  "ljob_inv jl jb es \<Longrightarrow> ljob_inv jl (jb\<lparr> lj_cancelled := True \<rparr>) es"
  by (auto simp: ljob_inv_def reading_def holding_def chunks_of_def llama_answer_def Let_def split: lphase.splits)

lemma llama_inv_put:
  assumes "llama_inv jl s" "ll_jobs t = (ll_jobs s)[j := jb]" "\<And>i. i \<noteq> j \<Longrightarrow> lout i t = lout i s"
    and "j < length (ll_jobs s)" "ljob_inv jl jb (lout j t)"
  shows "llama_inv jl t"
  using assms by (auto simp: llama_inv_def nth_updated)

lemma llama_inv_same:
  "llama_inv jl s \<Longrightarrow> ll_jobs t = ll_jobs s \<Longrightarrow> (\<And>i. lout i t = lout i s) \<Longrightarrow> llama_inv jl t"
  by (simp add: llama_inv_def)

lemma llama_inv_new:
  assumes "llama_inv jl s" "ll_jobs t = ll_jobs s @ [new_ljob q]" "\<And>i. lout i t = lout i s" "lserved q"
  shows "llama_inv jl t"
  using assms by (auto simp: llama_inv_def nth_append ljob_inv_def new_ljob_def less_Suc_eq)

lemma llama_inv_flag:
  assumes "llama_inv jl s" "\<And>jb es. ljob_inv jl jb es \<Longrightarrow> ljob_inv jl (g jb) es"
  shows "llama_inv jl (on_job g owner s)"
proof (cases "\<exists>j. owner = Some j \<and> j < length (ll_jobs s)")
  case True
  then obtain j where j: "owner = Some j" "j < length (ll_jobs s)"
    by blast
  with assms show ?thesis
    by (intro llama_inv_put [OF assms(1), of _ j]) (auto simp: on_job_def llama_inv_def)
next
  case False
  then have "ll_jobs (on_job g owner s) = ll_jobs s"
    by (auto simp: on_job_def list_update_beyond split: option.split)
  with assms(1) show ?thesis
    by (rule llama_inv_same) simp
qed

lemma llama_inv_handle:
  assumes "llama_inv jl s"
  shows "llama_inv jl (snd (llama_handle v w q s))"
proof (cases q)
  case (B_Load model path digest n)
  obtain r s1 where r: "llama_load v w model path n s = (r, s1)"
    by (rule prod.exhaust)
  have same: "ll_jobs s1 = ll_jobs s" "\<And>i. lout i s1 = lout i s"
    using load_quiet(1) [of v w model path n s] load_quiet(2) [of _ v w model path n s] by (simp_all add: r)
  show ?thesis
    by (rule llama_inv_same [OF assms]) (auto simp: B_Load r same split: sum.split prod.split)
next
  case (B_Cancel r)
  then show ?thesis
    using llama_inv_flag [OF llama_inv_flag [OF assms]] ljob_inv_flags by simp
next
  case (B_Pause r)
  then show ?thesis
    using llama_inv_flag [OF assms] ljob_inv_flags by simp
next
  case (B_Resume r)
  then show ?thesis
    using llama_inv_flag [OF assms] ljob_inv_flags by simp
next
  case (B_Generate req model session ms ps grammar tools par as)
  then show ?thesis
    using llama_inv_new [OF assms, of _ q] llama_inv_same [OF assms] by (simp add: Let_def)
next
  case B_Embed
  then show ?thesis
    by (intro llama_inv_new [OF assms, of _ q]) simp_all
next
  case B_Tokenize
  then show ?thesis
    by (intro llama_inv_new [OF assms, of _ q]) simp_all
qed (auto intro: llama_inv_same [OF assms])

lemma go_ok:
  assumes "llama_inv jl s" "j < length (ll_jobs s)" "ll_jobs s' = ll_jobs s" "\<And>i. i \<noteq> j \<Longrightarrow> lout i s' = lout i s"
    and "ljob_inv jl ((ll_jobs s ! j)\<lparr> lj_phase := p \<rparr>) (lout j s')"
  shows "llama_inv jl (go j p s')"
  by (rule llama_inv_put [OF assms(1)]) (use assms in simp_all)

lemma chunks_of_phase [simp]: "chunks_of jl (jb\<lparr> lj_phase := p \<rparr>) = chunks_of jl jb"
  by (simp add: chunks_of_def)

lemma chunks_of_line:
  "chunks_of jl (jb\<lparr> lj_lines := lj_lines jb @ [line] \<rparr>)
     = chunks_of jl jb @ (case read_chunk jl line of Chunk c \<Rightarrow> [c] | _ \<Rightarrow> [])"
  by (simp add: chunks_of_def map_filter_append List.map_filter_def split: llama_line.split)

lemma chunks_of_none: "lj_lines jb = [] \<Longrightarrow> chunks_of jl jb = []"
  by (simp add: chunks_of_def List.map_filter_def)

lemma reading_phase [simp]:
  "reading jl (jb\<lparr> lj_phase := p \<rparr>) es g = reading jl jb es g"
  "holding jl (jb\<lparr> lj_phase := p \<rparr>) es c g = holding jl jb es c g"
  by (simp_all add: reading_def holding_def)

lemma llama_answer_phase [simp]: "llama_answer jl (jb\<lparr> lj_phase := p \<rparr>) es = llama_answer jl jb es"
  by (simp add: llama_answer_def)

lemma llama_heard_Nil [simp]: "llama_heard jl q [] = (fresh_lgen, [])"
  by (simp add: llama_heard_def)

lemma answer_fails:
  "llama_heard jl (lj_asked jb) (chunks_of jl jb) = (g, es) \<Longrightarrow> llama_answer jl jb (es @ [BE_Error (Some (lreq (lj_asked jb))) ''backend-failed'' err])"
  by (simp add: llama_answer_def Let_def)

lemma answer_fails_early:
  "lj_lines jb = [] \<Longrightarrow> llama_answer jl jb [BE_Error (Some (lreq (lj_asked jb))) ''backend-failed'' err]"
  using answer_fails [of jl jb fresh_lgen "[]"] by (simp add: chunks_of_none)

lemma answer_ends:
  assumes "reading jl jb es g"
  shows "llama_answer jl jb (es @ llama_closing jl (lreq (lj_asked jb)) (has_tools (lj_asked jb)) g)"
  using assms by (simp add: reading_def llama_answer_def Let_def)

lemma answer_cut:
  assumes "reading jl jb es g \<or> holding jl jb es c g" "lj_cancelled jb"
  shows "llama_answer jl jb (es @ llama_closing jl (lreq (lj_asked jb)) (has_tools (lj_asked jb)) (g\<lparr> lg_finish := Some ''cancelled'' \<rparr>))"
proof -
  obtain cs where "cs = chunks_of jl jb \<or> cs = butlast (chunks_of jl jb)" "llama_heard jl (lj_asked jb) cs = (g, es)" "is_generate (lj_asked jb)"
    using assms(1) unfolding reading_def holding_def by (metis butlast_snoc)
  then show ?thesis
    using assms(2) by (auto simp: llama_answer_def Let_def split: prod.split)
qed

lemma answer_one_shot:
  "\<not> is_generate (lj_asked jb) \<Longrightarrow> lj_lines jb = [] \<Longrightarrow> llama_answer jl jb (llama_one_shot jl outcome (lj_asked jb))"
  by (auto simp: llama_answer_def Let_def split: prod.split)

text \<open>A chunk that was held and taken has been passed on.\<close>

lemma holding_taken:
  assumes "holding jl jb es c g" "llama_take jl (lreq (lj_asked jb)) (has_tools (lj_asked jb)) c g = (g', es')"
  shows "reading jl jb (es @ es') g'"
  using assms by (auto simp: reading_def holding_def llama_heard_def)

lemma reading_line:
  assumes "reading jl jb es g"
  shows "case read_chunk jl line of
      Chunk c \<Rightarrow> holding jl (jb\<lparr> lj_lines := lj_lines jb @ [line], lj_phase := p \<rparr>) es c g
    | _ \<Rightarrow> reading jl (jb\<lparr> lj_lines := lj_lines jb @ [line], lj_phase := p \<rparr>) es g"
  using assms by (simp add: reading_def holding_def chunks_of_line split: llama_line.split)

lemma llama_inv_start:
  assumes inv: "llama_inv (lv_json v) s" and j: "j < length (ll_jobs s)" and at_start: "lj_phase (ll_jobs s ! j) = LP_Start"
  shows "llama_inv (lv_json v) (ljob_start v refused outcome j s)"
proof -
  have ok: "lserved (lj_asked (ll_jobs s ! j))" "lout j s = []" "lj_lines (ll_jobs s ! j) = []"
    using inv j at_start by (auto simp: llama_inv_def ljob_inv_def dest!: spec [of _ j])
  note put = go_ok [OF inv j]
  show ?thesis
    using answer_fails_early [OF ok(3)] answer_one_shot [OF _ ok(3)]
    by (auto simp: ljob_start_def Let_def lfail_def ljob_inv_def ok intro!: put split: option.split)
qed

lemma llama_inv_connect:
  assumes inv: "llama_inv jl s" and j: "j < length (ll_jobs s)"
  shows "lj_phase (ll_jobs s ! j) = LP_Opened port \<Longrightarrow> llama_inv jl (ljob_register duplicated port j s)"
    and "lj_phase (ll_jobs s ! j) = LP_Posting port \<Longrightarrow> llama_inv jl (ljob_post jl err port j s)"
    and "lj_phase (ll_jobs s ! j) = LP_Head ok \<Longrightarrow> llama_inv jl (ljob_head ok heard j s)"
    and "lj_phase (ll_jobs s ! j) = LP_Refused \<Longrightarrow> llama_inv jl (ljob_refused rest j s)"
proof -
  have ok: "ljob_inv jl (ll_jobs s ! j) (lout j s)"
    using inv j by (simp add: llama_inv_def)
  note put = go_ok [OF inv j]
  show "llama_inv jl (ljob_register duplicated port j s)" if "lj_phase (ll_jobs s ! j) = LP_Opened port"
    unfolding ljob_register_def using ok that by (intro put) (simp_all add: ljob_inv_def)
  show "llama_inv jl (ljob_post jl err port j s)" if "lj_phase (ll_jobs s ! j) = LP_Posting port"
    using ok that answer_fails_early [of "ll_jobs s ! j"]
    by (auto simp: ljob_post_def lfail_def ljob_inv_def intro!: put split: option.split)
  show "llama_inv jl (ljob_head ok heard j s)" if "lj_phase (ll_jobs s ! j) = LP_Head ok"
    using ok that answer_fails_early [of "ll_jobs s ! j"]
    by (auto simp: ljob_head_def lfail_def ljob_inv_def reading_def chunks_of_none Let_def intro!: put split: pipe.split)
  show "llama_inv jl (ljob_refused rest j s)" if "lj_phase (ll_jobs s ! j) = LP_Refused"
    using ok that answer_fails_early [of "ll_jobs s ! j"]
    by (auto simp: ljob_refused_def lfail_def ljob_inv_def intro!: put)
qed

lemma llama_inv_read:
  assumes inv: "llama_inv jl s" and j: "j < length (ll_jobs s)" and at_read: "lj_phase (ll_jobs s ! j) = LP_Read g"
  shows "llama_inv jl (ljob_read jl g heard j s)"
proof -
  define jb where "jb = ll_jobs s ! j"
  have ok: "lserved (lj_asked jb)" "reading jl jb (lout j s) g"
    using inv j at_read by (auto simp: llama_inv_def ljob_inv_def jb_def dest!: spec [of _ j])
  show ?thesis
  proof (cases heard)
    case (Pipe_Line line)
    let ?p = "case read_chunk jl line of Skip \<Rightarrow> LP_Read g
      | Stream_End \<Rightarrow> LP_Say (llama_closing jl (lreq (lj_asked jb)) (has_tools (lj_asked jb)) g) | Chunk v \<Rightarrow> LP_Pause v g"
    let ?jb = "jb\<lparr> lj_lines := lj_lines jb @ [line], lj_phase := ?p \<rparr>"
    have "ljob_inv jl ?jb (lout j s)"
      using ok reading_line [OF ok(2), where line = line and p = ?p] answer_ends [of jl ?jb "lout j s" g]
      by (simp add: ljob_inv_def split: llama_line.splits)
    moreover have "ljob_read jl g heard j s = put_ljob j ?jb s"
      unfolding jb_def by (simp add: Pipe_Line ljob_read_def Let_def)
    ultimately show ?thesis
      using llama_inv_put [OF inv, of _ j ?jb] j by simp
  qed (use ok in \<open>auto simp: ljob_read_def ljob_inv_def jb_def intro!: go_ok [OF inv j]\<close>)
qed

lemma llama_inv_own:
  assumes inv: "llama_inv jl s" and j: "j < length (ll_jobs s)"
  shows "llama_inv jl (ljob_own jl j s)"
proof -
  define jb where "jb = ll_jobs s ! j"
  have ok: "ljob_inv jl jb (lout j s)"
    using inv j by (simp add: llama_inv_def jb_def)
  have lserved: "lserved (lj_asked jb)"
    using ok by (simp add: ljob_inv_def)
  note put = go_ok [OF inv j, folded jb_def]
  show ?thesis
  proof (cases "lj_phase jb")
    case (LP_Ended err g)
    have rd: "reading jl jb (lout j s) g"
      using ok by (simp add: ljob_inv_def LP_Ended)
    then show ?thesis
      using lserved answer_ends [OF rd] answer_cut [OF disjI1 [OF rd]] answer_fails [of jl jb g "lout j s"]
      by (auto simp: ljob_own_def Let_def LP_Ended ljob_inv_def lfail_def reading_def simp flip: jb_def intro!: put split: option.split)
  next
    case (LP_Cancel c g)
    have rd: "holding jl jb (lout j s) c g"
      using ok by (simp add: ljob_inv_def LP_Cancel)
    then show ?thesis
      using lserved answer_cut [OF disjI2 [OF rd]] by (auto simp: ljob_own_def Let_def LP_Cancel ljob_inv_def simp flip: jb_def intro!: put)
  next
    case (LP_Take c g)
    have rd: "holding jl jb (lout j s) c g"
      using ok by (simp add: ljob_inv_def LP_Take)
    obtain g' es where t: "llama_take jl (lreq (lj_asked jb)) (has_tools (lj_asked jb)) c g = (g', es)"
      by (rule prod.exhaust)
    show ?thesis
      using lserved holding_taken [OF rd t]
      by (auto simp: ljob_own_def Let_def LP_Take t ljob_inv_def simp flip: jb_def intro!: put)
  next
    case (LP_Say es)
    show ?thesis
    proof (cases es)
      case Nil
      then show ?thesis
        using ok by (auto simp: ljob_own_def Let_def LP_Say ljob_inv_def simp flip: jb_def intro!: put)
    next
      case (Cons e rest)
      then show ?thesis
        using ok by (auto simp: ljob_own_def Let_def LP_Say ljob_inv_def simp flip: jb_def intro!: put)
    qed
  qed (use ok inv in \<open>auto simp: ljob_own_def Let_def ljob_inv_def simp flip: jb_def intro!: put\<close>)
qed

interpretation llama_serving: invariant_system "\<lambda>s. s = llama_start" "llama_step v" "llama_inv (lv_json v)"
proof
  fix s t :: llama
  show "s = llama_start \<Longrightarrow> llama_inv (lv_json v) s"
    by (simp add: llama_inv_def llama_start_def lout_def)
  show "llama_step v s t \<Longrightarrow> llama_inv (lv_json v) t" if "llama_inv (lv_json v) s"
    using that by (auto elim!: llama_stepE intro: llama_inv_handle llama_inv_start llama_inv_connect llama_inv_read llama_inv_own)
qed

subsection \<open>One answer, with the words of the server\<close>

definition ends_once :: "backend_event list \<Rightarrow> bool" where
  "ends_once es \<longleftrightarrow> (\<exists>ws e. es = ws @ [e] \<and> terminal e \<and> \<not> list_ex terminal ws)"

fun token_text :: "backend_event \<Rightarrow> string" where
  "token_text (BE_Token _ tok _) = tok"
| "token_text _ = []"

definition words_of :: "backend_event list \<Rightarrow> string" where
  "words_of es = concat (map token_text es)"

text \<open>
  The words the server sent, read off the lines of its stream: a line that starts with \<open>data: \<close> carries JSON, and a word
  is the text at \<open>choices[0].delta.content\<close>, unless it is empty.
\<close>

fun content_word :: "json \<Rightarrow> string option" where
  "content_word v =
     (case jget ''choices'' v of
        Some (JArr (choice # _)) \<Rightarrow>
          (case jget ''delta'' choice of
             Some delta \<Rightarrow> (case jget ''content'' delta of Some (JStr (c # cs)) \<Rightarrow> Some (c # cs) | _ \<Rightarrow> None)
           | None \<Rightarrow> None)
      | _ \<Rightarrow> None)"

definition sent_word :: "json_lib \<Rightarrow> string \<Rightarrow> string option" where
  "sent_word jl line =
     (let payload = trim (drop 6 line)
      in if take 6 line = ''data: '' \<and> payload \<notin> {[], ''[DONE]''} then Option.bind (jl_parse_str jl payload) content_word else None)"

definition sent_words :: "json_lib \<Rightarrow> string list \<Rightarrow> string list" where
  "sent_words jl lines = List.map_filter (sent_word jl) lines"

definition heard_words :: "json list \<Rightarrow> string list" where
  "heard_words cs = List.map_filter chunk_word cs"

lemma content_word_chunk: "content_word v = chunk_word v"
proof -
  have word: "(case jget ''content'' delta of Some (JStr (c # cs)) \<Rightarrow> Some (c # cs) | _ \<Rightarrow> None)
      = Option.bind (jfield jstr ''content'' delta) (\<lambda>tok. if tok = [] then None else Some tok)" for delta
    by (simp add: jfield_def split: option.split json.split list.split)
  show ?thesis
    unfolding content_word.simps word chunk_word_def chunk_choice_def by (simp split: option.split json.split list.split)
qed

lemma sent_word_line: "sent_word jl line = (case read_chunk jl line of Chunk c \<Rightarrow> chunk_word c | _ \<Rightarrow> None)"
  by (auto simp: sent_word_def read_chunk_def strip_prefix_def starts_with_def Let_def content_word_chunk eval_nat_numeral simp del: content_word.simps split: option.split)

lemma sent_words_heard: "sent_words jl (lj_lines jb) = heard_words (chunks_of jl jb)"
proof -
  have "sent_words jl ls = heard_words (List.map_filter (\<lambda>line. case read_chunk jl line of Chunk c \<Rightarrow> Some c | _ \<Rightarrow> None) ls)" for ls
    by (induction ls) (auto simp: sent_words_def heard_words_def sent_word_line List.map_filter_simps split: llama_line.split option.split)
  then show ?thesis
    by (simp add: chunks_of_def)
qed

lemma words_of_Nil [simp]: "words_of [] = []"
  by (simp add: words_of_def)

lemma words_of_append [simp]: "words_of (es @ fs) = words_of es @ words_of fs"
  by (simp add: words_of_def)

lemma heard_words_snoc: "heard_words (cs @ [c]) = heard_words cs @ (case chunk_word c of Some w \<Rightarrow> [w] | None \<Rightarrow> [])"
  by (simp add: heard_words_def List.map_filter_def split: option.split)

lemma heard_words_butlast: "heard_words (butlast cs) = heard_words cs \<or> heard_words (butlast cs) = butlast (heard_words cs)"
  by (cases cs rule: rev_cases) (auto simp: heard_words_snoc split: option.split)

lemma chunk_word_choice: "chunk_choice c = None \<Longrightarrow> chunk_word c = None"
  by (simp add: chunk_word_def)

lemma llama_take_words:
  assumes "llama_take jl req mute c g = (g', es)"
  shows "lg_text g' = lg_text g @ concat (case chunk_word c of Some w \<Rightarrow> [w] | None \<Rightarrow> [])
    \<and> lg_emitted g' = lg_emitted g + length (case chunk_word c of Some w \<Rightarrow> [w] | None \<Rightarrow> [])
    \<and> \<not> list_ex terminal es \<and> (\<forall>call req'. BE_ToolCall req' call \<notin> set es)
    \<and> (if mute then es = [] else words_of es = concat (case chunk_word c of Some w \<Rightarrow> [w] | None \<Rightarrow> []))"
  using assms chunk_word_choice [of c] by (auto simp: llama_take_def Let_def words_of_def split: option.splits if_splits)

lemma llama_heard_words:
  assumes "llama_heard jl q cs = (g, es)"
  shows "lg_text g = concat (heard_words cs) \<and> lg_emitted g = length (heard_words cs)
    \<and> \<not> list_ex terminal es \<and> (\<forall>call req'. BE_ToolCall req' call \<notin> set es)
    \<and> (if has_tools q then es = [] else words_of es = concat (heard_words cs))"
  using assms
proof (induction cs arbitrary: g es rule: rev_induct)
  case Nil
  then show ?case
    by (auto simp: fresh_lgen_def heard_words_def words_of_def List.map_filter_def)
next
  case (snoc c cs)
  obtain g0 es0 where before: "llama_heard jl q cs = (g0, es0)"
    by (rule prod.exhaust)
  obtain g1 es1 where took: "llama_take jl (lreq q) (has_tools q) c g0 = (g1, es1)"
    by (rule prod.exhaust)
  have "g = g1" "es = es0 @ es1"
    using snoc.prems before took by (simp_all add: llama_heard_def)
  then show ?case
    using snoc.IH [OF before] llama_take_words [OF took] by (auto simp: heard_words_snoc split: if_splits)
qed

lemma concat_split_inclusive: "concat (split_inclusive_acc sep acc s) = acc @ s"
  by (induction sep acc s rule: split_inclusive_acc.induct) simp_all

lemma closing_shape:
  "ends_once (llama_closing jl req t g)"
  "\<exists>u why. last (llama_closing jl req t g) = BE_Done req u why \<and> completion_tokens u = lg_emitted g"
  "BE_ToolCall req' call \<in> set (llama_closing jl req t g) \<Longrightarrow> t \<and> parse_tool_call jl (lg_text g) = Some call"
  "t \<Longrightarrow> parse_tool_call jl (lg_text g) = None \<Longrightarrow> words_of (llama_closing jl req t g) = lg_text g"
  "\<not> t \<Longrightarrow> words_of (llama_closing jl req t g) = []"
proof -
  show "ends_once (llama_closing jl req t g)"
  proof (cases "t \<and> parse_tool_call jl (lg_text g) = None")
    case True
    then show ?thesis
      by (auto simp: llama_closing_def Let_def ends_once_def list_ex_iff)
  next
    case False
    then show ?thesis
      unfolding ends_once_def llama_closing_def Let_def
      by (auto split: option.splits intro: exI [of _ "[BE_ToolCall req _]"] exI [of _ "[]"])
  qed
  show "\<exists>u why. last (llama_closing jl req t g) = BE_Done req u why \<and> completion_tokens u = lg_emitted g"
    by (simp add: llama_closing_def Let_def split: option.split)
  show "t \<and> parse_tool_call jl (lg_text g) = Some call" if "BE_ToolCall req' call \<in> set (llama_closing jl req t g)"
    using that by (auto simp: llama_closing_def Let_def split: option.splits if_splits)
  show "words_of (llama_closing jl req t g) = lg_text g" if "t" "parse_tool_call jl (lg_text g) = None"
    using that concat_split_inclusive [of "CHR '' ''" "[]" "lg_text g"]
    by (simp add: llama_closing_def Let_def words_of_def comp_def split_inclusive_def)
  show "words_of (llama_closing jl req t g) = []" if "\<not> t"
    using that by (simp add: llama_closing_def Let_def words_of_def)
qed

lemma ends_once_append: "\<not> list_ex terminal ws \<Longrightarrow> ends_once es \<Longrightarrow> ends_once (ws @ es)"
  by (auto simp: ends_once_def)

lemma one_shot_ends: "lserved q \<Longrightarrow> \<not> is_generate q \<Longrightarrow> ends_once (llama_one_shot jl outcome q)"
  by (cases q) (auto simp: llama_one_shot_def ends_once_def split: sum.split intro: exI [of _ "[_]"] exI [of _ "[]"])

lemma answer_ends_once:
  assumes "llama_answer jl jb es" "lserved (lj_asked jb)"
  shows "ends_once es"
proof -
  have quiet: "\<not> list_ex terminal ws" if "llama_heard jl (lj_asked jb) cs = (g, ws)" for cs g ws
    using llama_heard_words [OF that] by simp
  obtain g ws where h: "llama_heard jl (lj_asked jb) (chunks_of jl jb) = (g, ws)"
    by (rule prod.exhaust)
  have "ends_once [BE_Error (Some (lreq (lj_asked jb))) ''backend-failed'' err]" for err
    by (simp add: ends_once_def)
  with assms(1) [unfolded llama_answer_def Let_def h prod.case] show ?thesis
    using ends_once_append [OF quiet [OF h]] ends_once_append [OF quiet] closing_shape(1) one_shot_ends [OF assms(2)] by blast
qed

text \<open>What a finished generation has passed on, of the chunks it counts.\<close>

lemma closed_words:
  assumes h: "llama_heard jl q cs = (g, ws)" and e: "es = ws @ llama_closing jl (lreq q) (has_tools q) g'"
    and g': "lg_text g' = lg_text g" "lg_emitted g' = lg_emitted g"
  shows "BE_ToolCall req' call \<in> set es \<Longrightarrow> has_tools q \<and> parse_tool_call jl (concat (heard_words cs)) = Some call"
    and "\<exists>u why. last es = BE_Done (lreq q) u why \<and> completion_tokens u = length (heard_words cs)"
    and "(\<exists>req' call. BE_ToolCall req' call \<in> set es) \<or> words_of es = concat (heard_words cs)"
proof -
  note w = llama_heard_words [OF h]
  note shape = closing_shape [where jl = jl and req = "lreq q" and t = "has_tools q" and g = g']
  show "\<exists>u why. last es = BE_Done (lreq q) u why \<and> completion_tokens u = length (heard_words cs)"
    using shape(1,2) w g' e by (auto simp: ends_once_def)
  show "has_tools q \<and> parse_tool_call jl (concat (heard_words cs)) = Some call" if "BE_ToolCall req' call \<in> set es"
    using that w g' e shape(3) [where req' = req' and call = call] by auto
  show "(\<exists>req' call. BE_ToolCall req' call \<in> set es) \<or> words_of es = concat (heard_words cs)"
  proof (cases "has_tools q \<and> parse_tool_call jl (lg_text g') \<noteq> None")
    case True
    then have "\<exists>req' call. BE_ToolCall req' call \<in> set (llama_closing jl (lreq q) (has_tools q) g')"
      by (auto simp: llama_closing_def Let_def)
    then show ?thesis
      by (auto simp: e)
  next
    case False
    then show ?thesis
      using w g' shape(4,5) by (auto simp: e split: if_splits)
  qed
qed

text \<open>The call a text spells: a JSON object with its name and its arguments.\<close>

definition spells_call :: "json_lib \<Rightarrow> string \<Rightarrow> tool_call \<Rightarrow> bool" where
  "spells_call jl words call \<longleftrightarrow>
     (\<exists>v. jl_parse_str jl (trim words) = Some v \<and> jget ''name'' v = Some (JStr (tc_name call))
        \<and> tc_arguments call = jl_show jl (case jget ''arguments'' v of Some args \<Rightarrow> args | None \<Rightarrow> JObj []))"

lemma parse_tool_call_spells: "parse_tool_call jl words = Some call \<Longrightarrow> spells_call jl words call"
proof -
  have str: "x = JStr n" if "jstr x = Some n" for x n
    using that by (cases x) simp_all
  assume "parse_tool_call jl words = Some call"
  then obtain v x where "jl_parse_str jl (trim words) = Some v" "jget ''name'' v = Some x" "jstr x = Some (tc_name call)"
    "tc_arguments call = jl_show jl (unwrap_or (jget ''arguments'' v) (JObj []))"
    by (auto simp: parse_tool_call_def jfield_def bind_eq_Some_conv)
  then show "spells_call jl words call"
    using str [of x] unfolding spells_call_def by (intro exI [of _ v]) (simp add: unwrap_or_def)
qed

lemma answer_words:
  assumes "llama_answer jl jb es" "is_generate (lj_asked jb)"
  shows "\<exists>ws. (ws = sent_words jl (lj_lines jb) \<or> lj_cancelled jb \<and> ws = butlast (sent_words jl (lj_lines jb)))
    \<and> (\<forall>req' call. BE_ToolCall req' call \<in> set es \<longrightarrow> has_tools (lj_asked jb) \<and> spells_call jl (concat ws) call)
    \<and> (\<forall>req' u why. last es = BE_Done req' u why \<longrightarrow>
      completion_tokens u = length ws \<and> ((\<exists>req' call. BE_ToolCall req' call \<in> set es) \<or> words_of es = concat ws))"
proof -
  let ?q = "lj_asked jb" and ?cs = "chunks_of jl jb"
  obtain g ws where h: "llama_heard jl ?q ?cs = (g, ws)"
    by (rule prod.exhaust)
  have closed: ?thesis
    if h': "llama_heard jl ?q cs = (g0, ws0)" and e: "es = ws0 @ llama_closing jl (lreq ?q) (has_tools ?q) g'"
      and g': "lg_text g' = lg_text g0" "lg_emitted g' = lg_emitted g0"
      and cs: "heard_words cs = heard_words ?cs \<or> lj_cancelled jb \<and> heard_words cs = butlast (heard_words ?cs)" for cs g0 ws0 g'
    using closed_words [OF h' e g'] parse_tool_call_spells cs unfolding sent_words_heard
    by (intro exI [of _ "heard_words cs"]) fastforce
  consider (err) err where "es = ws @ [BE_Error (Some (lreq ?q)) ''backend-failed'' err]"
    | (whole) "es = ws @ llama_closing jl (lreq ?q) (has_tools ?q) g"
    | (part) cs g' ws' where "lj_cancelled jb" "cs = ?cs \<or> cs = butlast ?cs" "llama_heard jl ?q cs = (g', ws')"
        "es = ws' @ llama_closing jl (lreq ?q) (has_tools ?q) (g'\<lparr> lg_finish := Some ''cancelled'' \<rparr>)"
    using assms unfolding llama_answer_def Let_def h prod.case by blast
  then show ?thesis
  proof cases
    case err
    then show ?thesis
      using llama_heard_words [OF h] by auto
  next
    case whole
    then show ?thesis
      by (rule closed [OF h]) simp_all
  next
    case part
    then show ?thesis
      using heard_words_butlast [of ?cs] by (intro closed [OF part(3,4)]) auto
  qed
qed

lemma butlast_of_prefix: "ends_once (xs @ ys) \<Longrightarrow> \<not> list_ex terminal (butlast xs)"
proof -
  assume "ends_once (xs @ ys)"
  then obtain ws e where e: "xs @ ys = ws @ [e]" and quiet: "\<not> list_ex terminal ws"
    by (auto simp: ends_once_def)
  have "set (butlast xs) \<subseteq> set ws"
  proof (cases ys rule: rev_exhaust)
    case Nil
    then show ?thesis
      using e by simp
  next
    case (snoc ys' y)
    then have "ws = xs @ ys'"
      using e by simp
    then show ?thesis
      by (auto dest: in_set_butlastD)
  qed
  then show ?thesis
    using quiet by (auto simp: list_ex_iff)
qed

text \<open>
  C35. The llama.cpp backend answers every request once and with the words of the server. Over any interleaving of
  requests, threads, servers and what their sockets give, nothing of a job comes after its last event, and a job
  that is gone has written one, a \<open>Done\<close> or an \<open>Error\<close>, as its last. A generation that ended with \<open>Done\<close> counts
  exactly the words in the lines it read from its server and has passed on exactly those words, in order, unless it
  called a tool, however often it was paused; only one that was cancelled may leave out the last of them. A tool is called only when
  tools were offered, and is the call those words spell.
\<close>

theorem llama_answers_once:
  assumes "(llama_step v)\<^sup>*\<^sup>* llama_start s" "j < length (ll_jobs s)"
  shows "\<not> list_ex terminal (butlast (lout j s))
    \<and> (lj_phase (ll_jobs s ! j) = LP_Gone \<longrightarrow>
         ends_once (lout j s)
         \<and> (is_generate (lj_asked (ll_jobs s ! j)) \<longrightarrow>
              (\<exists>ws. (ws = sent_words (lv_json v) (lj_lines (ll_jobs s ! j))
                   \<or> lj_cancelled (ll_jobs s ! j) \<and> ws = butlast (sent_words (lv_json v) (lj_lines (ll_jobs s ! j))))
                \<and> (\<forall>req' call. BE_ToolCall req' call \<in> set (lout j s) \<longrightarrow> has_tools (lj_asked (ll_jobs s ! j))
                     \<and> spells_call (lv_json v) (concat ws) call)
                \<and> (\<forall>req' u why. last (lout j s) = BE_Done req' u why \<longrightarrow>
                     completion_tokens u = length ws
                     \<and> ((\<exists>req' call. BE_ToolCall req' call \<in> set (lout j s)) \<or> words_of (lout j s) = concat ws)))))"
proof -
  define jb where "jb = ll_jobs s ! j"
  have "llama_inv (lv_json v) s"
    by (rule llama_serving.reachable_inv [OF refl assms(1)])
  then have ok: "ljob_inv (lv_json v) jb (lout j s)" and sv: "lserved (lj_asked jb)"
    using assms(2) by (auto simp: llama_inv_def ljob_inv_def jb_def)
  have over: "llama_answer (lv_json v) jb (lout j s)" if "lj_phase jb = LP_Gone"
    using ok that by (simp add: ljob_inv_def)
  have "lout j s = [] \<or> (\<exists>g cs. llama_heard (lv_json v) (lj_asked jb) cs = (g, lout j s)) \<or> (\<exists>rest. llama_answer (lv_json v) jb (lout j s @ rest))"
    using ok by (auto simp: ljob_inv_def reading_def holding_def intro: exI [of _ "[]"] split: lphase.splits)
  then have "\<not> list_ex terminal (butlast (lout j s))"
  proof (elim disjE exE)
    fix g cs assume "llama_heard (lv_json v) (lj_asked jb) cs = (g, lout j s)"
    from llama_heard_words [OF this] show ?thesis
      by (auto simp: list_ex_iff dest: in_set_butlastD)
  next
    fix rest assume "llama_answer (lv_json v) jb (lout j s @ rest)"
    from butlast_of_prefix [OF answer_ends_once [OF this sv]] show ?thesis .
  qed simp
  with over answer_ends_once [OF over sv] answer_words [OF over] show ?thesis
    unfolding jb_def by blast
qed

definition one_word :: json_lib where
  "one_word = plain_lib\<lparr> jl_parse_str := (\<lambda>_. Some (JObj [(''choices'', JArr [JObj [(''delta'', JObj [(''content'', JStr ''hi'')])]])])) \<rparr>"

abbreviation word_chunk :: json where
  "word_chunk \<equiv> JObj [(''choices'', JArr [JObj [(''delta'', JObj [(''content'', JStr ''hi'')])]])]"

definition plain_llama :: llama_env where
  "plain_llama = \<lparr> lv_json = one_word, lv_exists = (\<lambda>_. True), lv_dir = (\<lambda>_. None), lv_explicit = Some ''/s'', lv_path = None,
     lv_threads = None, lv_layers = None \<rparr>"

definition plain_load :: load_env where
  "plain_load = \<lparr> lo_binds = (\<lambda>_. True), lo_spawn = Inr 7, lo_polls = [(None, True)], lo_props = Inl [] \<rparr>"

definition one_prompt :: backend_request where
  "one_prompt = B_Generate 3 ''m'' ''s1'' [] default_params None None False []"

text \<open>The states of a run of that one request: what is tabled, what was sent, and where the thread is.\<close>

definition lsolo :: "(nat \<times> nat) list \<Rightarrow> (nat \<times> nat) list \<Rightarrow> (nat \<times> nat) list \<Rightarrow> (nat \<times> string) list \<Rightarrow> lphase \<Rightarrow> string list
    \<Rightarrow> backend_event list \<Rightarrow> llama" where
  "lsolo ps cs ss wr p heard es =
     \<lparr> ll_models = [(''m'', \<lparr> ld_child = 7, ld_port = PORT_BASE, ld_n_ctx = 4096, ld_kv = KV_DEFAULT \<rparr>)],
       ll_paused = ps, ll_cancelled = cs, ll_streams = ss,
       ll_jobs = [\<lparr> lj_asked = one_prompt, lj_phase = p, lj_paused = False, lj_cancelled = False, lj_shut = False, lj_lines = heard \<rparr>],
       ll_alive = [7], ll_ran = [server_command plain_llama ''/s'' [] PORT_BASE 4096], ll_sent = wr,
       ll_out = (None, BE_Loaded ''m'' KV_DEFAULT 4096) # map (Pair (Some 0)) es \<rparr>"

lemma lsolo_simps [simp]:
  "ll_jobs (lsolo ps cs ss wr p heard es)
     = [\<lparr> lj_asked = one_prompt, lj_phase = p, lj_paused = False, lj_cancelled = False, lj_shut = False, lj_lines = heard \<rparr>]"
  "lout 0 (lsolo ps cs ss wr p heard es) = es"
  by (simp_all add: lsolo_def lout_def comp_def)

lemma lsolo_go [simp]: "go 0 p (lsolo ps cs ss wr p' heard es) = lsolo ps cs ss wr p heard es"
  by (simp add: lsolo_def go_def put_ljob_def)

lemma one_prompt_simps [simp]:
  "lreq one_prompt = 3" "lmodel one_prompt = ''m''" "\<not> has_tools one_prompt" "is_generate one_prompt"
  by (simp_all add: one_prompt_def)

lemma lsolo_begins:
  "snd (llama_handle plain_llama plain_load one_prompt (snd (llama_handle plain_llama plain_load (B_Load ''m'' [] [] 0) llama_start)))
   = lsolo [(3, 0)] [(3, 0)] [] [] LP_Start [] []"
  by (simp add: llama_start_def one_prompt_def lsolo_def llama_send_def new_ljob_def llama_load_def plain_llama_def plain_load_def
      locate_server_def which_def free_port_def Let_def kv_estimate_def http_reply_def server_command_def starts_with_def upt_rec [of 0 64])

lemma lsolo_connects:
  "ljob_start plain_llama None (Inl []) 0 (lsolo ps cs ss wr LP_Start [] [])
     = lsolo ps cs ss wr (LP_Opened PORT_BASE) [] []"
  "ljob_register True port 0 (lsolo ps cs [] wr p [] []) = lsolo ps cs [(3, 0)] wr (LP_Posting port) [] []"
  "ljob_post one_word None port 0 (lsolo ps cs ss wr p [] [])
     = lsolo ps cs ss (wr @ [(port, llama_post one_word one_prompt)]) (LP_Head False) [] []"
  by (simp_all add: ljob_start_def ljob_register_def ljob_post_def posted_def lsolo_def go_def put_ljob_def one_prompt_def)

lemma ok_line: "contains_str '' 200 '' ''HTTP/1.1 200 OK''"
  unfolding contains_str_def by (rule bexI [of _ 8]) (simp_all add: starts_with_def)

lemma lsolo_reads:
  "ljob_head False (Pipe_Line ''HTTP/1.1 200 OK'') 0 (lsolo ps cs ss wr p h es) = lsolo ps cs ss wr (LP_Head True) h es"
  "ljob_head True (Pipe_Line CRLF) 0 (lsolo ps cs ss wr p h es) = lsolo ps cs ss wr (LP_Read fresh_lgen) h es"
  "ljob_read one_word g (Pipe_Line ''data: w'') 0 (lsolo ps cs ss wr p h es) = lsolo ps cs ss wr (LP_Pause word_chunk g) (h @ [''data: w'']) es"
  "ljob_read one_word g (Pipe_Line ''data: [DONE]'') 0 (lsolo ps cs ss wr p h es)
     = lsolo ps cs ss wr (LP_Say (llama_closing one_word 3 False g)) (h @ [''data: [DONE]'']) es"
  by (simp_all add: ljob_head_def ljob_read_def Let_def read_chunk_def strip_prefix_def starts_with_def ok_line trim_def trim_start_def
      trim_end_def is_space_def code_def one_word_def put_ljob_def lsolo_def go_def)

lemma lsolo_works:
  "ljob_own one_word 0 (lsolo ps cs ss wr (LP_Pause c g) h es) = lsolo ps cs ss wr (LP_Cancel c g) h es"
  "ljob_own one_word 0 (lsolo ps cs ss wr (LP_Cancel c g) h es) = lsolo ps cs ss wr (LP_Take c g) h es"
  "ljob_own one_word 0 (lsolo ps cs ss wr (LP_Take word_chunk g) h es)
     = lsolo ps cs ss wr (LP_Read (g\<lparr> lg_text := lg_text g @ ''hi'', lg_emitted := lg_emitted g + 1 \<rparr>)) h (es @ [BE_Token 3 ''hi'' None])"
  "ljob_own one_word 0 (lsolo ps cs ss wr (LP_Say (e # rest)) h es) = lsolo ps cs ss wr (LP_Say rest) h (es @ [e])"
  "ljob_own one_word 0 (lsolo ps cs ss wr (LP_Say []) h es) = lsolo ps cs ss wr LP_Clear_Paused h es"
  "ljob_own one_word 0 (lsolo [(3, 0)] cs ss wr LP_Clear_Paused h es) = lsolo [] cs ss wr LP_Clear_Cancelled h es"
  "ljob_own one_word 0 (lsolo ps [(3, 0)] ss wr LP_Clear_Cancelled h es) = lsolo ps [] ss wr LP_Clear_Stream h es"
  "ljob_own one_word 0 (lsolo ps cs [(3, 0)] wr LP_Clear_Stream h es) = lsolo ps cs [] wr LP_Gone h es"
  by (simp_all add: ljob_own_def Let_def lsolo_def go_def put_ljob_def llama_take_def chunk_choice_def chunk_word_def jfield_def
      remote_logprobs_def llama_send_def one_prompt_def)

abbreviation said_hi :: lgen where
  "said_hi \<equiv> fresh_lgen\<lparr> lg_text := lg_text fresh_lgen @ ''hi'', lg_emitted := lg_emitted fresh_lgen + 1 \<rparr>"

definition llama_over :: llama where
  "llama_over = lsolo [] [] [] [(PORT_BASE, llama_post one_word one_prompt)] LP_Gone [''data: w'', ''data: [DONE]'']
     [BE_Token 3 ''hi'' None, BE_Done 3 (no_usage\<lparr> prompt_tokens := 0, completion_tokens := 1 \<rparr>) (Some ''stop'')]"

lemma said_hi_closes:
  "llama_closing one_word 3 False said_hi = [BE_Done 3 (no_usage\<lparr> prompt_tokens := 0, completion_tokens := 1 \<rparr>) (Some ''stop'')]"
  by (simp add: llama_closing_def fresh_lgen_def)

lemma lv_json_plain [simp]: "lv_json plain_llama = one_word"
  by (simp add: plain_llama_def)

lemma lsolo_step:
  assumes "(llama_step plain_llama)\<^sup>*\<^sup>* s (lsolo ps cs ss wr p h es)"
  shows "(llama_step plain_llama)\<^sup>*\<^sup>* s (ljob_own one_word 0 (lsolo ps cs ss wr p h es))" (is "_ (ljob_own _ _ ?t)")
    and "p = LP_Start \<Longrightarrow> (llama_step plain_llama)\<^sup>*\<^sup>* s (ljob_start plain_llama None (Inl []) 0 (lsolo ps cs ss wr p h es))"
    and "p = LP_Opened port \<Longrightarrow> (llama_step plain_llama)\<^sup>*\<^sup>* s (ljob_register True port 0 (lsolo ps cs ss wr p h es))"
    and "p = LP_Posting port \<Longrightarrow> (llama_step plain_llama)\<^sup>*\<^sup>* s (ljob_post one_word None port 0 (lsolo ps cs ss wr p h es))"
    and "p = LP_Head ok \<Longrightarrow> (llama_step plain_llama)\<^sup>*\<^sup>* s (ljob_head ok heard 0 (lsolo ps cs ss wr p h es))"
    and "p = LP_Read g \<Longrightarrow> (llama_step plain_llama)\<^sup>*\<^sup>* s (ljob_read one_word g heard 0 (lsolo ps cs ss wr p h es))"
  using assms llama_step.works [of 0 ?t plain_llama] llama_step.starts [of 0 ?t plain_llama None "Inl []"]
    llama_step.registers [of 0 ?t port plain_llama True] llama_step.posts [of 0 ?t port plain_llama None]
    llama_step.heads [of 0 ?t ok plain_llama heard] llama_step.reads [of 0 ?t g plain_llama heard]
  by (auto intro: rtranclp.rtrancl_into_rtrancl)

lemma llama_over_reached: "(llama_step plain_llama)\<^sup>*\<^sup>* llama_start llama_over"
proof -
  let ?a = "snd (llama_handle plain_llama plain_load (B_Load ''m'' [] [] 0) llama_start)"
  let ?w = "plain_load\<lparr> lo_spawn := Inl [] \<rparr>"
  have one: "llama_step plain_llama llama_start ?a"
    by (rule llama_step.handles) (simp add: llama_start_def)
  have two: "llama_step plain_llama ?a (snd (llama_handle plain_llama ?w one_prompt ?a))"
    by (rule llama_step.handles) simp
  have "snd (llama_handle plain_llama ?w one_prompt ?a) = lsolo [(3, 0)] [(3, 0)] [] [] LP_Start [] []"
    unfolding lsolo_begins [symmetric] by (simp add: one_prompt_def)
  then have "(llama_step plain_llama)\<^sup>*\<^sup>* llama_start (lsolo [(3, 0)] [(3, 0)] [] [] LP_Start [] [])"
    using one two by (metis (no_types) rtranclp.rtrancl_into_rtrancl r_into_rtranclp)
  note r = lsolo_step(2) [OF this refl, unfolded lsolo_connects]
  note r = lsolo_step(3) [OF r refl, unfolded lsolo_connects]
  note r = lsolo_step(4) [OF r refl, unfolded lsolo_connects append.simps]
  note r = lsolo_step(5) [OF r refl, of "Pipe_Line ''HTTP/1.1 200 OK''", unfolded lsolo_reads]
  note r = lsolo_step(5) [OF r refl, of "Pipe_Line CRLF", unfolded lsolo_reads]
  note r = lsolo_step(6) [OF r refl, of "Pipe_Line ''data: w''", unfolded lsolo_reads append.simps]
  note r = lsolo_step(1) [OF lsolo_step(1) [OF r, unfolded lsolo_works], unfolded lsolo_works]
  note r = lsolo_step(1) [OF r, unfolded lsolo_works append.simps]
  note r = lsolo_step(6) [OF r refl, of "Pipe_Line ''data: [DONE]''", unfolded lsolo_reads said_hi_closes append.simps]
  note r = lsolo_step(1) [OF r, unfolded lsolo_works append.simps]
  note r = lsolo_step(1) [OF lsolo_step(1) [OF r, unfolded lsolo_works], unfolded lsolo_works]
  note r = lsolo_step(1) [OF lsolo_step(1) [OF r, unfolded lsolo_works], unfolded lsolo_works]
  then show ?thesis
    unfolding llama_over_def .
qed

theorem llama_answers_once_witness:
  "lj_phase (ll_jobs llama_over ! 0) = LP_Gone \<and> is_generate (lj_asked (ll_jobs llama_over ! 0))
   \<and> last (lout 0 llama_over) = BE_Done 3 (no_usage\<lparr> completion_tokens := 1 \<rparr>) (Some ''stop'')
   \<and> ends_once (lout 0 llama_over) \<and> words_of (lout 0 llama_over) = ''hi''
   \<and> sent_words one_word (lj_lines (ll_jobs llama_over ! 0)) = [''hi'']"
proof -
  have here: "0 < length (ll_jobs llama_over)" "lj_phase (ll_jobs llama_over ! 0) = LP_Gone"
    "is_generate (lj_asked (ll_jobs llama_over ! 0))"
    "last (lout 0 llama_over) = BE_Done 3 (no_usage\<lparr> completion_tokens := 1 \<rparr>) (Some ''stop'')"
    "\<forall>req' call. BE_ToolCall req' call \<notin> set (lout 0 llama_over)"
    "sent_words one_word (lj_lines (ll_jobs llama_over ! 0)) = [''hi'']" "\<not> lj_cancelled (ll_jobs llama_over ! 0)"
    by (simp_all add: llama_over_def no_usage_def sent_words_def sent_word_def one_word_def trim_def trim_start_def trim_end_def is_space_def
        code_def List.map_filter_def)
  with llama_answers_once [OF llama_over_reached here(1)] show ?thesis
    by auto
qed

subsection \<open>The servers\<close>

text \<open>Every child that has not been waited for is the server of one loaded model, and all listen on loopback.\<close>

definition serves_loopback :: "string list \<Rightarrow> bool" where
  "serves_loopback cmd \<longleftrightarrow> take 2 (drop 3 cmd) = [''--host'', ''127.0.0.1'']"

definition children :: "llama \<Rightarrow> nat list" where
  "children s = map (ld_child \<circ> snd) (ll_models s)"

definition servers_inv :: "llama \<Rightarrow> bool" where
  "servers_inv s \<longleftrightarrow>
     distinct (map fst (ll_models s)) \<and> distinct (ll_alive s) \<and> mset (ll_alive s) = mset (children s)
     \<and> list_all serves_loopback (ll_ran s)"

lemma servers_inv_same:
  "servers_inv s \<Longrightarrow> ll_models t = ll_models s \<Longrightarrow> ll_alive t = ll_alive s \<Longrightarrow> ll_ran t = ll_ran s \<Longrightarrow> servers_inv t"
  by (simp add: servers_inv_def children_def)

lemma server_command_loopback: "serves_loopback (server_command v server path port n)"
  by (simp add: serves_loopback_def server_command_def numeral_eq_Suc)

lemma update_absent: "map_of al k = None \<Longrightarrow> AList.update k x al = al @ [(k, x)]"
  by (induction al) (auto split: if_splits)

lemma delete_present:
  assumes "map_of al k = Some x" "distinct (map fst al)"
  shows "mset al = add_mset (k, x) (mset (AList.delete k al))"
  using assms
proof (induction al)
  case (Cons a al)
  have "AList.delete k al = al" if "k \<notin> fst ` set al"
    using that by (simp add: AList.delete_id)
  with Cons show ?case
    by (cases a) (auto split: if_splits)
qed simp

lemma servers_inv_load:
  assumes "servers_inv s" "\<forall>child. lo_spawn w = Inr child \<longrightarrow> child \<notin> set (ll_alive s)"
  shows "servers_inv (snd (llama_load v w model path n s))"
proof -
  have fresh: "map_of (ll_models s) model = None \<Longrightarrow> model \<notin> fst ` set (ll_models s)"
    by (simp add: map_of_eq_None_iff)
  show ?thesis
    using assms fresh
    by (auto simp: llama_load_def Let_def servers_inv_def children_def drop_loaded_def server_command_loopback update_absent
        split: option.split sum.split)
qed

lemma servers_inv_unload:
  assumes "servers_inv s"
  shows "servers_inv (llama_unload model s)"
proof (cases "map_of (ll_models s) model")
  case None
  then show ?thesis
    using assms by (simp add: llama_unload_def)
next
  case (Some l)
  have "mset (children s) = add_mset (ld_child l) (mset (map (ld_child \<circ> snd) (AList.delete model (ll_models s))))"
    using delete_present [OF Some] assms by (simp add: servers_inv_def children_def)
  then show ?thesis
    using assms Some by (simp add: llama_unload_def servers_inv_def children_def drop_loaded_def AList.distinct_delete)
qed

lemma servers_frame:
  "ll_models (go j p s) = ll_models s" "ll_alive (go j p s) = ll_alive s" "ll_ran (go j p s) = ll_ran s"
  "ll_models (put_ljob j jb s) = ll_models s" "ll_alive (put_ljob j jb s) = ll_alive s" "ll_ran (put_ljob j jb s) = ll_ran s"
  "ll_models (on_job g owner s) = ll_models s" "ll_alive (on_job g owner s) = ll_alive s" "ll_ran (on_job g owner s) = ll_ran s"
  "ll_models (llama_send who e s) = ll_models s" "ll_alive (llama_send who e s) = ll_alive s" "ll_ran (llama_send who e s) = ll_ran s"
  by (simp_all add: go_def put_ljob_def on_job_def llama_send_def split: option.split)

lemma servers_sends:
  "ll_models (fold (llama_send who) es s) = ll_models s" "ll_alive (fold (llama_send who) es s) = ll_alive s"
  "ll_ran (fold (llama_send who) es s) = ll_ran s"
  by (induction es arbitrary: s) (simp_all add: servers_frame)

lemma servers_inv_handle:
  assumes "servers_inv s" "\<forall>child. lo_spawn w = Inr child \<longrightarrow> child \<notin> set (ll_alive s)"
  shows "servers_inv (snd (llama_handle v w q s))"
proof (cases q)
  case (B_Load model path digest n)
  obtain r s1 where r: "llama_load v w model path n s = (r, s1)"
    by (rule prod.exhaust)
  have "servers_inv s1"
    using servers_inv_load [OF assms, of v model path n] by (simp add: r)
  then show ?thesis
    by (auto simp: B_Load r servers_frame intro: servers_inv_same split: sum.split prod.split)
next
  case (B_Unload model)
  then show ?thesis
    using servers_inv_same [OF servers_inv_unload [OF assms(1)]] by (simp add: servers_frame)
qed (use assms(1) in \<open>auto simp: servers_frame Let_def intro: servers_inv_same\<close>)

lemma servers_thread:
  "ll_models (ljob_start v refused outcome j s) = ll_models s \<and> ll_alive (ljob_start v refused outcome j s) = ll_alive s
    \<and> ll_ran (ljob_start v refused outcome j s) = ll_ran s"
  "ll_models (ljob_register d port j s) = ll_models s \<and> ll_alive (ljob_register d port j s) = ll_alive s
    \<and> ll_ran (ljob_register d port j s) = ll_ran s"
  "ll_models (ljob_post jl err port j s) = ll_models s \<and> ll_alive (ljob_post jl err port j s) = ll_alive s
    \<and> ll_ran (ljob_post jl err port j s) = ll_ran s"
  "ll_models (ljob_head ok heard j s) = ll_models s \<and> ll_alive (ljob_head ok heard j s) = ll_alive s
    \<and> ll_ran (ljob_head ok heard j s) = ll_ran s"
  "ll_models (ljob_refused rest j s) = ll_models s \<and> ll_alive (ljob_refused rest j s) = ll_alive s
    \<and> ll_ran (ljob_refused rest j s) = ll_ran s"
  "ll_models (ljob_read jl g heard j s) = ll_models s \<and> ll_alive (ljob_read jl g heard j s) = ll_alive s
    \<and> ll_ran (ljob_read jl g heard j s) = ll_ran s"
  by (simp_all add: ljob_start_def ljob_register_def ljob_post_def ljob_head_def ljob_refused_def ljob_read_def posted_def servers_frame Let_def
      split: option.split pipe.split llama_line.split)

lemma servers_own:
  "ll_models (ljob_own jl j s) = ll_models s \<and> ll_alive (ljob_own jl j s) = ll_alive s \<and> ll_ran (ljob_own jl j s) = ll_ran s"
  by (simp add: ljob_own_def Let_def servers_frame servers_sends split: lphase.split list.split option.split prod.split)

interpretation llama_servers: invariant_system "\<lambda>s. s = llama_start" "llama_step v" servers_inv
proof
  fix s t :: llama
  show "s = llama_start \<Longrightarrow> servers_inv s"
    by (simp add: servers_inv_def llama_start_def children_def)
  show "servers_inv t" if inv: "servers_inv s" and step: "llama_step v s t"
    using step
  proof cases
    case (handles w q)
    then show ?thesis
      using servers_inv_handle [OF inv] by simp
  qed (use servers_thread servers_own inv in \<open>auto intro: servers_inv_same\<close>)
qed

text \<open>
  C36. No model server outlives its model. At every moment of any run the servers that run are exactly those of the loaded
  models, one each, also when a load failed after its server had been started; each was told to listen on the
  loopback address only; and after the clean-up at the end of the request loop none is left.
\<close>

theorem llama_no_stray_servers:
  assumes "(llama_step v)\<^sup>*\<^sup>* llama_start s"
  shows "mset (ll_alive s) = image_mset (\<lambda>(model, l). ld_child l) (mset (ll_models s))
    \<and> distinct (map fst (ll_models s)) \<and> distinct (ll_alive s)
    \<and> (\<forall>cmd \<in> set (ll_ran s). take 2 (drop 3 cmd) = [''--host'', ''127.0.0.1''])
    \<and> ll_alive (llama_exit s) = []"
proof -
  have inv: "servers_inv s"
    by (rule llama_servers.reachable_inv [OF refl assms])
  have drops: "mset (ll_alive (fold (\<lambda>(_, l). drop_loaded l) ms t)) = mset (ll_alive t) - mset (map (ld_child \<circ> snd) ms)" for ms t
    by (induction ms arbitrary: t) (auto simp: drop_loaded_def)
  have "ll_alive (llama_exit s) = []"
    using inv drops [of "ll_models s" s] by (simp add: llama_exit_def servers_inv_def children_def)
  with inv show ?thesis
    by (auto simp: servers_inv_def children_def list_all_iff serves_loopback_def comp_def case_prod_unfold)
qed

theorem llama_no_stray_servers_witness:
  "ll_alive llama_over = [7] \<and> map fst (ll_models llama_over) = [''m'']
   \<and> map (\<lambda>cmd. take 2 (drop 3 cmd)) (ll_ran llama_over) = [[''--host'', ''127.0.0.1'']]
   \<and> ll_alive (llama_exit llama_over) = []"
  using llama_no_stray_servers [OF llama_over_reached] by (simp add: llama_over_def lsolo_def)

subsection \<open>A call made after it was cancelled\<close>

text \<open>With tools on offer, a cancelled generation whose text so far spells a call makes that call and does not say it was cancelled.\<close>

lemma cancelled_generation_still_calls:
  assumes "lj_phase (ll_jobs s ! j) = LP_Cancel c g" "lj_cancelled (ll_jobs s ! j)" "has_tools (lj_asked (ll_jobs s ! j))"
    and "parse_tool_call jl (lg_text g) = Some call" "j < length (ll_jobs s)"
  shows "\<exists>u. lj_phase (ll_jobs (ljob_own jl j s) ! j)
    = LP_Say [BE_ToolCall (lreq (lj_asked (ll_jobs s ! j))) call, BE_Done (lreq (lj_asked (ll_jobs s ! j))) u (Some ''tool_call'')]"
  using assms by (simp add: ljob_own_def llama_closing_def Let_def)

end
