(* ===== verification/Launch.thy ===== *)
theory Launch
  imports Dbus
begin

text \<open>
  The launcher, \<open>crates/ai-run/src/main.rs\<close>, and the start of the daemon, \<open>crates/ai-daemon/src/main.rs\<close>. What the launcher
  does to its own process (leaving the network namespace, writing the maps of its user namespace,
  setting variables, becoming another program) is recorded in the order in which it happens; how each
  of these ends is an argument (\<open>launch_env\<close>). The help texts are not modelled and the texts of errors are shortened.
\<close>

subsection \<open>The launcher\<close>

definition RUN_SOCKET :: string where "RUN_SOCKET = ''/run/ai-daemon-shim/shim.sock''"

record run_args =
  ru_socket :: string
  ru_confine :: "bool option"
  ru_as :: "string option"
  ru_program :: "string list"

datatype run_stop = Run_Version | Run_Help | Run_Error nat string

definition run_name_ok :: "string \<Rightarrow> bool" where
  "run_name_ok name \<longleftrightarrow>
     name \<noteq> [] \<and> list_all (\<lambda>c. is_ascii_alphanumeric c \<or> c = CHR ''-'' \<or> c = CHR ''.'' \<or> c = CHR ''_'') name"

fun read_run_args :: "string list \<Rightarrow> run_args \<Rightarrow> run_stop + run_args" where
  "read_run_args [] a = Inr a"
| "read_run_args (x # xs) a =
     (if x = ''--socket'' then
        (case xs of [] \<Rightarrow> Inr a | y # ys \<Rightarrow> read_run_args ys (a\<lparr> ru_socket := y \<rparr>))
      else if x = ''--confine-network'' \<or> x = ''--permit-network'' then
        (if ru_confine a = Some (x \<noteq> ''--confine-network'')
         then Inl (Run_Error 2 ''--confine-network and --permit-network contradict each other'')
         else read_run_args xs (a\<lparr> ru_confine := Some (x = ''--confine-network'') \<rparr>))
      else if x = ''--as'' then
        (case xs of
           [] \<Rightarrow> Inl (Run_Error 2 ''--as needs a name; try --help'')
         | name # ys \<Rightarrow>
             if \<not> run_name_ok name then Inl (Run_Error 2 ''--as takes letters, digits, - . and _'')
             else read_run_args ys (a\<lparr> ru_as := Some name \<rparr>))
      else if x = ''--version'' \<or> x = ''-V'' then Inl Run_Version
      else if x = ''--help'' \<or> x = ''-h'' then Inl Run_Help
      else if x = ''--'' then Inr (a\<lparr> ru_program := ru_program a @ xs \<rparr>)
      else if starts_with ''-'' x then Inl (Run_Error 2 (''unknown option '' @ x @ ''; try --help''))
      else Inr (a\<lparr> ru_program := ru_program a @ x # xs \<rparr>))"

datatype run_act = Unshare | Write string string | Set_Var string string | Exec "string list"

datatype run_end = Shown run_stop | Exited nat string | Became "string list"

record launch_env =
  le_var :: "string option"
  le_exists :: "string \<Rightarrow> bool"
  le_uid :: nat
  le_gid :: nat
  le_pid :: nat
  le_unshare :: "string option"
  le_write :: "string \<Rightarrow> string option"
  le_exec :: "string list \<Rightarrow> string option"

fun write_maps :: "launch_env \<Rightarrow> (string \<times> string) list \<Rightarrow> run_act list \<times> string option" where
  "write_maps e [] = ([], None)"
| "write_maps e ((path, content) # rest) =
     (case le_write e path of
        Some err \<Rightarrow> ([], Some (''could not write '' @ path @ '' ('' @ err @ '')''))
      | None \<Rightarrow> (let (acts, r) = write_maps e rest in (Write path content # acts, r)))"

definition map_files :: "launch_env \<Rightarrow> (string \<times> string) list" where
  "map_files e =
     [(''/proc/self/setgroups'', ''deny''),
      (''/proc/self/uid_map'', show_nat (le_uid e) @ '' '' @ show_nat (le_uid e) @ '' 1''),
      (''/proc/self/gid_map'', show_nat (le_gid e) @ '' '' @ show_nat (le_gid e) @ '' 1'')]"

definition drop_network :: "launch_env \<Rightarrow> run_act list \<times> string option" where
  "drop_network e =
     (case le_unshare e of
        Some err \<Rightarrow> ([], Some (''could not take away the network ('' @ err @ '')''))
      | None \<Rightarrow> (let (acts, r) = write_maps e (map_files e) in (Unshare # acts, r)))"

definition scope_name :: "launch_env \<Rightarrow> string \<Rightarrow> string" where
  "scope_name e name = ''app-airun-'' @ name @ ''-'' @ show_nat (le_pid e)"

definition wrapped :: "launch_env \<Rightarrow> run_args \<Rightarrow> string list" where
  "wrapped e a =
     (case ru_as a of
        Some name \<Rightarrow>
          [''systemd-run'', ''--user'', ''--scope'', ''--quiet'', ''--collect'', ''--unit='' @ scope_name e name, ''--''] @ ru_program a
      | None \<Rightarrow> ru_program a)"

definition exec_program :: "launch_env \<Rightarrow> string list \<Rightarrow> run_act list \<times> run_end" where
  "exec_program e argv =
     (if list_ex (\<lambda>part. CHR 0x00 \<in> set part) argv then ([], Exited 127 ''an argument contains a NUL byte'')
      else (case le_exec e argv of
              Some err \<Rightarrow> ([], Exited 127 (''cannot run: '' @ err))
            | None \<Rightarrow> ([Exec argv], Became argv)))"

definition confining :: "run_args \<Rightarrow> bool" where
  "confining a = unwrap_or (ru_confine a) (ru_as a = None)"

definition told :: "launch_env \<Rightarrow> run_args \<Rightarrow> run_act list" where
  "told e a =
     (if le_exists e (ru_socket a)
      then [Set_Var ''AI_DAEMON_SHIM_SOCKET'' (ru_socket a), Set_Var ''AI_DAEMON_SHIM_URL'' ''http://localhost''] else [])"

definition run_program :: "launch_env \<Rightarrow> run_args \<Rightarrow> run_act list \<times> run_end" where
  "run_program e a =
     (if ru_program a = [] then ([], Exited 2 ''nothing to run; try --help'')
      else if confining a \<and> \<not> le_exists e (ru_socket a)
      then ([], Exited 1 (ru_socket a @ '' does not exist''))
      else
        (case (if confining a then drop_network e else ([], None)) of
           (acts, Some err) \<Rightarrow> (acts, Exited 1 err)
         | (acts, None) \<Rightarrow>
             (case exec_program e (wrapped e a) of (acts', out) \<Rightarrow> (acts @ told e a @ acts', out))))"

definition ai_run :: "launch_env \<Rightarrow> string list \<Rightarrow> run_act list \<times> run_end" where
  "ai_run e args =
     (case read_run_args args \<lparr> ru_socket = unwrap_or (le_var e) RUN_SOCKET, ru_confine = None, ru_as = None, ru_program = [] \<rparr> of
        Inl (Run_Error n msg) \<Rightarrow> ([], Exited n msg)
      | Inl how \<Rightarrow> ([], Shown how)
      | Inr a \<Rightarrow> run_program e a)"

subsection \<open>The start of the daemon\<close>

definition DAEMON_CONFIG :: string where "DAEMON_CONFIG = ''/etc/ai-daemon/config.toml''"

record start_args =
  sa_config :: string
  sa_check :: bool
  sa_debug :: bool

datatype daemon_start =
    Start_Version
  | Start_Help
  | Start_Fatal string
  | Start_Checked string nat nat consent
  | Start_Serving start_args config

fun read_start_args :: "string list \<Rightarrow> start_args \<Rightarrow> daemon_start + start_args" where
  "read_start_args [] a = Inr a"
| "read_start_args (x # xs) a =
     (if x = ''--version'' \<or> x = ''-V'' then Inl Start_Version
      else if x = ''--help'' \<or> x = ''-h'' then Inl Start_Help
      else if x = ''--debug'' then read_start_args xs (a\<lparr> sa_debug := True \<rparr>)
      else if x = ''--check-config'' then read_start_args xs (a\<lparr> sa_check := True \<rparr>)
      else if x = ''--config'' then
        (case xs of [] \<Rightarrow> Inl (Start_Fatal ''--config needs a path'') | p # ys \<Rightarrow> read_start_args ys (a\<lparr> sa_config := p \<rparr>))
      else Inl (Start_Fatal (''unknown argument '' @ x @ ''; try --help'')))"

text \<open>The configuration as \<open>Config\<close> loads it; taking the name on the bus may fail.\<close>

definition daemon_main :: "Config.world \<Rightarrow> bool \<Rightarrow> string option \<Rightarrow> string list \<Rightarrow> daemon_start" where
  "daemon_main w debug_var bus args =
     (case read_start_args args \<lparr> sa_config = DAEMON_CONFIG, sa_check = False, sa_debug = False \<rparr> of
        Inl how \<Rightarrow> how
      | Inr a0 \<Rightarrow>
          (let a = (if debug_var then a0\<lparr> sa_debug := True \<rparr> else a0)
           in case load w (sa_config a) of
                Inl err \<Rightarrow> Start_Fatal ''configuration''
              | Inr c \<Rightarrow>
                  if sa_check a
                  then Start_Checked (sa_config a) (length (filter be_enabled (c_backends c))) (length (c_identities c))
                         (p_consent (c_policy c))
                  else (case bus of
                          Some err \<Rightarrow> Start_Fatal (''cannot take the name on the system bus: '' @ err)
                        | None \<Rightarrow> Start_Serving a c)))"

subsection \<open>Confined before it runs\<close>

lemma write_maps_ok: "write_maps e fs = (acts, None) \<Longrightarrow> acts = map (\<lambda>(p, c). Write p c) fs"
  by (induction fs arbitrary: acts) (auto split: option.splits prod.splits)

lemma write_maps_quiet: "Exec argv \<notin> set (fst (write_maps e fs))"
  by (induction fs) (auto split: option.splits prod.splits)

lemma drop_network_ok:
  "drop_network e = (acts, None) \<Longrightarrow> acts = Unshare # map (\<lambda>(p, c). Write p c) (map_files e)"
  by (auto simp: drop_network_def dest: write_maps_ok split: option.splits prod.splits)

lemma drop_network_quiet: "Exec argv \<notin> set (fst (drop_network e))"
  using write_maps_quiet [of argv e "map_files e"] by (auto simp: drop_network_def split: option.splits prod.splits)

definition preparations :: "launch_env \<Rightarrow> run_args \<Rightarrow> run_act list" where
  "preparations e a =
     (if confining a then Unshare # map (\<lambda>(p, c). Write p c) (map_files e) else []) @ told e a"

lemma preparations_quiet: "Exec argv \<notin> set (preparations e a)"
  by (auto simp: preparations_def told_def map_files_def)

lemma run_program_cases:
  "(\<exists>acts n msg. run_program e a = (acts, Exited n msg) \<and> (\<forall>argv. Exec argv \<notin> set acts))
   \<or> run_program e a = (preparations e a @ [Exec (wrapped e a)], Became (wrapped e a))
     \<and> ru_program a \<noteq> [] \<and> (confining a \<longrightarrow> le_exists e (ru_socket a))"
proof -
  obtain acts r where d: "(if confining a then drop_network e else ([], None)) = (acts, r)"
    by (rule prod.exhaust)
  have quiet: "Exec argv \<notin> set acts" for argv
    using d drop_network_quiet [of argv e] by (auto split: if_splits)
  have ready: "acts @ told e a = preparations e a" if "r = None"
    using d that drop_network_ok [of e acts] by (auto simp: preparations_def split: if_splits)
  show ?thesis
    using quiet ready preparations_quiet [of _ e a]
    by (auto simp: run_program_def d exec_program_def split: option.splits)
qed

subsection \<open>What is asked of the launcher\<close>

text \<open>
  A launch as the help of the command describes it: options in any order and number, then the
  program, after \<open>--\<close> or not. The last socket and the last name count; \<open>--confine-network\<close> takes the
  network away and \<open>--permit-network\<close> leaves it, whatever else is asked, and they contradict each
  other; without either, a bare launch is confined and a named one is not.
\<close>

datatype run_flag = Socket string | Confine | Permit | As string

fun flag_words :: "run_flag \<Rightarrow> string list" where
  "flag_words (Socket path) = [''--socket'', path]"
| "flag_words Confine = [''--confine-network'']"
| "flag_words Permit = [''--permit-network'']"
| "flag_words (As name) = [''--as'', name]"

definition spells :: "string list \<Rightarrow> run_flag list \<Rightarrow> string list \<Rightarrow> bool" where
  "spells args fs prog \<longleftrightarrow>
     prog \<noteq> [] \<and> \<not> (Confine \<in> set fs \<and> Permit \<in> set fs)
     \<and> (\<forall>name. As name \<in> set fs \<longrightarrow> name \<noteq> [] \<and>
          (\<forall>c\<in>set name. is_ascii_alphanumeric c \<or> c \<in> {CHR ''-'', CHR ''.'', CHR ''_''}))
     \<and> (args = concat (map flag_words fs) @ ''--'' # prog
        \<or> args = concat (map flag_words fs) @ prog \<and> \<not> starts_with ''-'' (hd prog))"

definition asked_socket :: "launch_env \<Rightarrow> run_flag list \<Rightarrow> string" where
  "asked_socket e fs = last ((case le_var e of Some s \<Rightarrow> s | None \<Rightarrow> ''/run/ai-daemon-shim/shim.sock'')
     # List.map_filter (\<lambda>f. case f of Socket s \<Rightarrow> Some s | _ \<Rightarrow> None) fs)"

definition asked_name :: "run_flag list \<Rightarrow> string option" where
  "asked_name fs = last (None # map Some (List.map_filter (\<lambda>f. case f of As n \<Rightarrow> Some n | _ \<Rightarrow> None) fs))"

definition asked_confined :: "run_flag list \<Rightarrow> bool" where
  "asked_confined fs \<longleftrightarrow> Confine \<in> set fs \<or> Permit \<notin> set fs \<and> asked_name fs = None"

definition asked_argv :: "launch_env \<Rightarrow> run_flag list \<Rightarrow> string list \<Rightarrow> string list" where
  "asked_argv e fs prog =
     (case asked_name fs of
        None \<Rightarrow> prog
      | Some name \<Rightarrow> [''systemd-run'', ''--user'', ''--scope'', ''--quiet'', ''--collect'',
            ''--unit=app-airun-'' @ name @ ''-'' @ show_nat (le_pid e), ''--''] @ prog)"

text \<open>All that happens to the process, in order, when the launch succeeds.\<close>

definition launch_of :: "launch_env \<Rightarrow> run_flag list \<Rightarrow> string list \<Rightarrow> run_act list" where
  "launch_of e fs prog =
     (if asked_confined fs
      then [Unshare, Write ''/proc/self/setgroups'' ''deny'',
            Write ''/proc/self/uid_map'' (show_nat (le_uid e) @ '' '' @ show_nat (le_uid e) @ '' 1''),
            Write ''/proc/self/gid_map'' (show_nat (le_gid e) @ '' '' @ show_nat (le_gid e) @ '' 1'')]
      else [])
     @ (if le_exists e (asked_socket e fs)
        then [Set_Var ''AI_DAEMON_SHIM_SOCKET'' (asked_socket e fs), Set_Var ''AI_DAEMON_SHIM_URL'' ''http://localhost'']
        else [])
     @ [Exec (asked_argv e fs prog)]"

definition network_goes :: "launch_env \<Rightarrow> bool" where
  "network_goes e \<longleftrightarrow> le_unshare e = None
     \<and> (\<forall>p\<in>{''/proc/self/setgroups'', ''/proc/self/uid_map'', ''/proc/self/gid_map''}. le_write e p = None)"

subsection \<open>The arguments\<close>

text \<open>What reading the options makes of the arguments collected so far.\<close>

fun flag_read :: "run_flag \<Rightarrow> run_args \<Rightarrow> run_args" where
  "flag_read (Socket s) a = a\<lparr> ru_socket := s \<rparr>"
| "flag_read Confine a = a\<lparr> ru_confine := Some True \<rparr>"
| "flag_read Permit a = a\<lparr> ru_confine := Some False \<rparr>"
| "flag_read (As n) a = a\<lparr> ru_as := Some n \<rparr>"

lemma flags_socket: "ru_socket (fold flag_read fs a)
    = last (ru_socket a # List.map_filter (\<lambda>f. case f of Socket s \<Rightarrow> Some s | _ \<Rightarrow> None) fs)"
proof (induction fs arbitrary: a)
  case (Cons f fs)
  then show ?case
    by (cases f) (simp_all add: List.map_filter_simps)
qed (simp add: List.map_filter_simps)

lemma flags_name: "ru_as (fold flag_read fs a)
    = last (ru_as a # map Some (List.map_filter (\<lambda>f. case f of As n \<Rightarrow> Some n | _ \<Rightarrow> None) fs))"
proof (induction fs arbitrary: a)
  case (Cons f fs)
  then show ?case
    by (cases f) (simp_all add: List.map_filter_simps)
qed (simp add: List.map_filter_simps)

lemma flags_confine:
  "\<not> (Confine \<in> set fs \<and> Permit \<in> set fs) \<Longrightarrow> ru_confine (fold flag_read fs a)
    = (if Confine \<in> set fs then Some True else if Permit \<in> set fs then Some False else ru_confine a)"
proof (induction fs arbitrary: a)
  case (Cons f fs)
  then show ?case
    by (cases f) auto
qed simp

lemma flags_program [simp]: "ru_program (fold flag_read fs a) = ru_program a"
proof (induction fs arbitrary: a)
  case (Cons f fs)
  then show ?case
    by (cases f) simp_all
qed simp

definition flags_agree :: "run_flag list \<Rightarrow> run_args \<Rightarrow> bool" where
  "flags_agree fs a \<longleftrightarrow> (Confine \<in> set fs \<longrightarrow> ru_confine a \<noteq> Some False \<and> Permit \<notin> set fs)
     \<and> (Permit \<in> set fs \<longrightarrow> ru_confine a \<noteq> Some True)
     \<and> (\<forall>name. As name \<in> set fs \<longrightarrow> run_name_ok name)"

lemma flags_agree_Cons:
  "flags_agree (f # fs) a \<longleftrightarrow> flags_agree fs (flag_read f a)
     \<and> (case f of Confine \<Rightarrow> ru_confine a \<noteq> Some False | Permit \<Rightarrow> ru_confine a \<noteq> Some True
        | As n \<Rightarrow> run_name_ok n | _ \<Rightarrow> True)"
  by (cases f) (auto simp: flags_agree_def)

lemma flags_are_read:
  "flags_agree fs a \<Longrightarrow> read_run_args (concat (map flag_words fs) @ rest) a = read_run_args rest (fold flag_read fs a)"
proof (induction fs arbitrary: a)
  case (Cons f fs)
  then show ?case
    by (cases f) (auto simp: flags_agree_Cons)
qed simp

lemma read_is_flags:
  assumes "read_run_args args a = Inr a'" "ru_program a = []" "ru_program a' \<noteq> []"
  shows "\<exists>fs prog. flags_agree fs a \<and> a' = (fold flag_read fs a)\<lparr> ru_program := prog \<rparr>
    \<and> (args = concat (map flag_words fs) @ ''--'' # prog
       \<or> args = concat (map flag_words fs) @ prog \<and> \<not> starts_with ''-'' (hd prog))"
  using assms
proof (induction args a rule: read_run_args.induct)
  case (2 x xs a)
  have more: "\<exists>fs prog. flags_agree fs a \<and> a' = (fold flag_read fs a)\<lparr> ru_program := prog \<rparr>
    \<and> (x # xs = concat (map flag_words fs) @ ''--'' # prog
       \<or> x # xs = concat (map flag_words fs) @ prog \<and> \<not> starts_with ''-'' (hd prog))"
    if ih: "\<exists>fs prog. flags_agree fs (flag_read f a) \<and> a' = (fold flag_read fs (flag_read f a))\<lparr> ru_program := prog \<rparr>
      \<and> (ys = concat (map flag_words fs) @ ''--'' # prog
         \<or> ys = concat (map flag_words fs) @ prog \<and> \<not> starts_with ''-'' (hd prog))"
      and words: "x # xs = flag_words f @ ys" and ok: "flags_agree [f] a" for f ys
  proof -
    from ih obtain fs prog where "flags_agree (f # fs) a" "a' = (fold flag_read (f # fs) a)\<lparr> ru_program := prog \<rparr>"
      "ys = concat (map flag_words fs) @ ''--'' # prog
       \<or> ys = concat (map flag_words fs) @ prog \<and> \<not> starts_with ''-'' (hd prog)"
      using ok by (auto simp: flags_agree_Cons)
    with words show ?thesis
      by (intro exI [of _ "f # fs"] exI [of _ prog]) auto
  qed
  consider "x = ''--socket''" | "x = ''--confine-network''" | "x = ''--permit-network''" | "x = ''--as''" | "x = ''--''"
    | "x \<notin> {''--socket'', ''--confine-network'', ''--permit-network'', ''--as'', ''--''}"
    by blast
  then show ?case
  proof cases
    case 1
    then obtain y ys where "xs = y # ys"
      using 2 by (cases xs) auto
    with 1 2 show ?thesis
      by (intro more [where f = "Socket y" and ys = ys]) (auto simp: flags_agree_def)
  next
    case 2
    with "2.IH"(2) "2.prems" show ?thesis
      by (intro more [where f = Confine and ys = xs]) (auto simp: flags_agree_def split: if_splits)
  next
    case 3
    with "2.IH"(2) "2.prems" show ?thesis
      by (intro more [where f = Permit and ys = xs]) (auto simp: flags_agree_def split: if_splits)
  next
    case 4
    then obtain y ys where y: "xs = y # ys" "run_name_ok y"
      using "2.prems" by (cases xs) (auto split: if_splits)
    with 4 "2.IH"(3) "2.prems" show ?thesis
      by (intro more [where f = "As y" and ys = ys]) (auto simp: flags_agree_def)
  next
    case 5
    with "2.prems" show ?thesis
      by (intro exI [of _ "[]"] exI [of _ xs]) (auto simp: flags_agree_def)
  next
    case 6
    with "2.prems" show ?thesis
      by (intro exI [of _ "[]"] exI [of _ "x # xs"]) (auto simp: flags_agree_def split: if_splits)
  qed
qed simp

definition run_start :: "launch_env \<Rightarrow> run_args" where
  "run_start e = \<lparr> ru_socket = unwrap_or (le_var e) RUN_SOCKET, ru_confine = None, ru_as = None, ru_program = [] \<rparr>"

lemma agree_start: "flags_agree fs (run_start e) \<and> prog \<noteq> []
    \<and> (args = concat (map flag_words fs) @ ''--'' # prog
       \<or> args = concat (map flag_words fs) @ prog \<and> \<not> starts_with ''-'' (hd prog)) \<longleftrightarrow> spells args fs prog"
  by (auto simp: flags_agree_def spells_def run_start_def run_name_ok_def list_all_iff)

lemma asked_is_read:
  assumes "spells args fs prog" and "a = (fold flag_read fs (run_start e))\<lparr> ru_program := prog \<rparr>"
  shows "ru_socket a = asked_socket e fs \<and> confining a = asked_confined fs \<and> wrapped e a = asked_argv e fs prog
    \<and> preparations e a @ [Exec (wrapped e a)] = launch_of e fs prog"
proof -
  have "ru_socket a = asked_socket e fs" "ru_as a = asked_name fs" "ru_program a = prog"
    by (auto simp: assms(2) flags_socket flags_name asked_socket_def asked_name_def run_start_def RUN_SOCKET_def
        split: option.splits)
  moreover have "ru_confine a = (if Confine \<in> set fs then Some True else if Permit \<in> set fs then Some False else None)"
    using assms(1) flags_confine [of fs "run_start e"] by (simp add: assms(2) spells_def run_start_def)
  ultimately show ?thesis
    by (auto simp: confining_def asked_confined_def wrapped_def asked_argv_def scope_name_def preparations_def
        launch_of_def told_def map_files_def split: option.splits)
qed

lemma spelled_is_read:
  assumes "spells args fs prog"
  shows "read_run_args args (run_start e) = Inr ((fold flag_read fs (run_start e))\<lparr> ru_program := prog \<rparr>)"
proof -
  have "flags_agree fs (run_start e)"
    using assms agree_start by blast
  moreover have "read_run_args (''--'' # prog) (fold flag_read fs (run_start e))
      = Inr ((fold flag_read fs (run_start e))\<lparr> ru_program := prog \<rparr>)"
    by (simp add: run_start_def)
  moreover have "read_run_args prog (fold flag_read fs (run_start e))
      = Inr ((fold flag_read fs (run_start e))\<lparr> ru_program := prog \<rparr>)" if "\<not> starts_with ''-'' (hd prog)"
  proof (cases prog)
    case (Cons x xs)
    have "x \<notin> {''--socket'', ''--confine-network'', ''--permit-network'', ''--as'', ''--version'', ''-V'', ''--help'', ''-h'', ''--''}"
      using that by (auto simp: Cons starts_with_def)
    moreover have "ru_program (run_start e) = []"
      by (simp add: run_start_def)
    ultimately show ?thesis
      using that by (simp add: Cons)
  qed (use assms in \<open>simp add: spells_def\<close>)
  ultimately show ?thesis
    using assms by (auto simp: spells_def flags_are_read)
qed

lemma confined_launch:
  assumes "run_program e a = (acts, Became argv)" "confining a"
  shows "le_exists e (ru_socket a) \<and> network_goes e"
  using assms
  by (auto simp: run_program_def drop_network_def map_files_def network_goes_def split: if_splits option.splits prod.splits)

lemma willing_launch:
  assumes "ru_program a \<noteq> []" "confining a \<longrightarrow> le_exists e (ru_socket a) \<and> network_goes e"
    and "\<forall>part\<in>set (wrapped e a). CHR 0x00 \<notin> set part" "le_exec e (wrapped e a) = None"
  shows "run_program e a = (preparations e a @ [Exec (wrapped e a)], Became (wrapped e a))"
proof -
  have "drop_network e = (Unshare # map (\<lambda>(p, c). Write p c) (map_files e), None)" if "network_goes e"
    using that by (simp add: drop_network_def map_files_def network_goes_def)
  then show ?thesis
    using assms by (auto simp: run_program_def exec_program_def preparations_def list_ex_iff)
qed

text \<open>
  C33. A program is run as the launcher was asked to run it, or not at all. Whatever the arguments and
  however the system answers, a program is executed only if the arguments spell a launch (known
  options that do not contradict each other, proper names, a program); it is then executed once, as
  the last thing that happens, as given or wrapped in a scope of the last name given; the network
  is taken away when \<open>--confine-network\<close> was given, and also when neither \<open>--permit-network\<close> nor a name
  was, and then only after the socket was found, the namespace was left and all three maps were
  written; the program is told of the last socket given, if it exists; nothing else happens. And
  when the arguments spell a launch and nothing the launcher needs is refused, this is what happens.
\<close>

theorem launched_as_asked:
  assumes "ai_run e args = (acts, out)"
  shows "(\<forall>argv. out = Became argv \<or> Exec argv \<in> set acts \<longrightarrow>
      (\<exists>fs prog. spells args fs prog \<and> argv = asked_argv e fs prog \<and> out = Became argv \<and> acts = launch_of e fs prog
         \<and> (asked_confined fs \<longrightarrow> le_exists e (asked_socket e fs) \<and> network_goes e)))
    \<and> (\<forall>fs prog. spells args fs prog \<and> (asked_confined fs \<longrightarrow> le_exists e (asked_socket e fs) \<and> network_goes e)
         \<and> (\<forall>part\<in>set (asked_argv e fs prog). CHR 0x00 \<notin> set part) \<and> le_exec e (asked_argv e fs prog) = None \<longrightarrow>
       out = Became (asked_argv e fs prog) \<and> acts = launch_of e fs prog)"
proof (intro conjI allI impI)
  fix argv
  assume ran: "out = Became argv \<or> Exec argv \<in> set acts"
  obtain a where a: "read_run_args args (run_start e) = Inr a" "run_program e a = (acts, out)"
  proof (cases "read_run_args args (run_start e)")
    case (Inl how)
    then show thesis
      using assms ran by (cases how) (auto simp: ai_run_def run_start_def)
  qed (use assms in \<open>auto simp: ai_run_def run_start_def intro: that\<close>)
  have became: "acts = preparations e a @ [Exec (wrapped e a)]" "out = Became (wrapped e a)" "ru_program a \<noteq> []"
    "argv = wrapped e a"
    using run_program_cases [of e a] a(2) ran preparations_quiet [of argv e a] by auto
  obtain fs prog where fs: "spells args fs prog" "a = (fold flag_read fs (run_start e))\<lparr> ru_program := prog \<rparr>"
  proof -
    have "ru_program (run_start e) = []"
      by (simp add: run_start_def)
    from read_is_flags [OF a(1) this became(3)] obtain fs prog where "flags_agree fs (run_start e)"
      "a = (fold flag_read fs (run_start e))\<lparr> ru_program := prog \<rparr>"
      "args = concat (map flag_words fs) @ ''--'' # prog
       \<or> args = concat (map flag_words fs) @ prog \<and> \<not> starts_with ''-'' (hd prog)"
      by blast
    moreover from this(2) have "prog \<noteq> []"
      using became(3) by simp
    ultimately show thesis
      using that agree_start by blast
  qed
  show "\<exists>fs prog. spells args fs prog \<and> argv = asked_argv e fs prog \<and> out = Became argv \<and> acts = launch_of e fs prog
         \<and> (asked_confined fs \<longrightarrow> le_exists e (asked_socket e fs) \<and> network_goes e)"
    using fs(1) asked_is_read [OF fs] became confined_launch [of e a acts] a(2) by metis
next
  fix fs prog
  assume w: "spells args fs prog \<and> (asked_confined fs \<longrightarrow> le_exists e (asked_socket e fs) \<and> network_goes e)
         \<and> (\<forall>part\<in>set (asked_argv e fs prog). CHR 0x00 \<notin> set part) \<and> le_exec e (asked_argv e fs prog) = None"
  let ?a = "(fold flag_read fs (run_start e))\<lparr> ru_program := prog \<rparr>"
  have "ai_run e args = run_program e ?a"
    using spelled_is_read [of args fs prog e] w by (simp add: ai_run_def run_start_def)
  moreover have "run_program e ?a = (preparations e ?a @ [Exec (wrapped e ?a)], Became (wrapped e ?a))"
    using asked_is_read [of args fs prog ?a e] w by (intro willing_launch) (auto simp: spells_def)
  ultimately show "out = Became (asked_argv e fs prog)" "acts = launch_of e fs prog"
    using asked_is_read [of args fs prog ?a e] w assms by auto
qed

definition quiet_launch :: launch_env where
  "quiet_launch =
     \<lparr> le_var = None, le_exists = (\<lambda>_. True), le_uid = 1000, le_gid = 1000, le_pid = 42, le_unshare = None,
       le_write = (\<lambda>_. None), le_exec = (\<lambda>_. None) \<rparr>"

theorem launched_as_asked_witness:
  "ai_run quiet_launch [''--as'', ''x'', ''--confine-network'', ''curl'']
   = (launch_of quiet_launch [As ''x'', Confine] [''curl''], Became (asked_argv quiet_launch [As ''x'', Confine] [''curl'']))
   \<and> hd (launch_of quiet_launch [As ''x'', Confine] [''curl'']) = Unshare"
proof -
  let ?args = "[''--as'', ''x'', ''--confine-network'', ''curl'']"
  have "spells ?args [As ''x'', Confine] [''curl'']"
    by (simp add: spells_def starts_with_def is_ascii_alphanumeric_def is_ascii_lower_def code_def)
  moreover have "network_goes quiet_launch" "le_exec quiet_launch argv = None" "le_exists quiet_launch s" for argv s
    by (simp_all add: network_goes_def quiet_launch_def)
  moreover have "\<forall>part\<in>set (asked_argv quiet_launch [As ''x'', Confine] [''curl'']). CHR 0x00 \<notin> set part"
    using not_digit_show_nat [of "CHR 0x00" 42]
    by (auto simp: asked_argv_def asked_name_def List.map_filter_simps quiet_launch_def is_ascii_digit_def code_def)
  ultimately have "snd (ai_run quiet_launch ?args) = Became (asked_argv quiet_launch [As ''x'', Confine] [''curl'']) \<and>
      fst (ai_run quiet_launch ?args) = launch_of quiet_launch [As ''x'', Confine] [''curl'']"
    using launched_as_asked [of quiet_launch ?args "fst (ai_run quiet_launch ?args)" "snd (ai_run quiet_launch ?args)"] by simp
  then show ?thesis
    by (simp add: prod_eq_iff launch_of_def asked_confined_def)
qed

lemma contradiction_refused:
  "read_run_args (''--confine-network'' # ''--permit-network'' # rest) (run_start e)
   = Inl (Run_Error 2 ''--confine-network and --permit-network contradict each other'')"
  by (simp add: run_start_def)

subsection \<open>A named launch is known by its name\<close>

lemma show_nat_token: "is_launch_token (show_nat n)"
  using show_nat_digits by (simp add: is_launch_token_def)

lemma run_name_plain:
  assumes "run_name_ok name" "c \<in> set name"
  shows "is_ascii_alphanumeric c \<or> c = CHR ''-'' \<or> c = CHR ''.'' \<or> c = CHR ''_''"
  using assms by (auto simp: run_name_ok_def list_all_iff)

lemma scope_name_plain:
  assumes "run_name_ok name" "c \<in> {CHR '':'', CHR ''/'', CHR 0x0A}"
  shows "c \<notin> set (scope_name e name @ ''.scope'')"
proof -
  have "c \<notin> set name"
    using run_name_plain [OF assms(1), of c] assms(2)
    by (auto simp: is_ascii_alphanumeric_def is_ascii_digit_def is_ascii_upper_def is_ascii_lower_def code_def)
  moreover have "c \<notin> set (show_nat (le_pid e))"
    using assms(2) by (intro not_digit_show_nat) (auto simp: is_ascii_digit_def code_def)
  ultimately show ?thesis
    using assms(2) by (auto simp: scope_name_def)
qed

text \<open>
  A named launch is known to the daemon by exactly its name. When \<open>systemd-run\<close> puts the program into the scope the
  launcher asks for, a caller from that scope has the key \<open>unit:<name>@<uid>\<close>, and \<open>shim:unit:<name>@<uid>\<close> when
  the bridge introduces it, whatever the process numbers of launcher and program and wherever in the
  hierarchy the scope is: so that one rule for the identity holds at every launch.
\<close>

theorem named_launch_is_known_by_name:
  assumes "ru_as a = Some name" "run_name_ok name"
    and "''--unit='' @ u \<in> set (take 7 (wrapped e a))"
    and "read_text (proc_path pid ''cgroup'') = Some (dir @ ''/'' @ u @ ''.scope'' @ [CHR 0x0A])" "CHR 0x0A \<notin> set dir"
  shows "key (from_pid_uid read_text read_link pid uid gid Native) = ''unit:'' @ name @ ''@'' @ show_nat uid
    \<and> key ((from_pid_uid read_text read_link pid uid gid Shim)\<lparr> id_attested := True \<rparr>) = ''shim:unit:'' @ name @ ''@'' @ show_nat uid"
proof -
  have u: "u = scope_name e name"
    using assms(1,3) by (auto simp: wrapped_def)
  have scp: "launch_scope name (scope_name e name @ ''.scope'')"
    using launch_scope.airun [OF show_nat_token, of name "le_pid e"] by (simp add: scope_name_def)
  note plain = scope_name_plain [OF assms(2), of _ e]
  have "unit_from_cgroup (dir @ ''/'' @ (scope_name e name @ ''.scope'') @ [CHR 0x0A]) = Some name"
    by (rule unit_from_cgroup_launch [OF scp plain plain plain assms(5)]) simp_all
  then show ?thesis
    using assms(4) by (simp add: u from_pid_uid_def unit_of_pid_def key_def)
qed

theorem named_launch_is_known_by_name_witness:
  "key (from_pid_uid (\<lambda>_. Some (''0::/user.slice'' @ ''/'' @ scope_name quiet_launch ''backfill'' @ ''.scope'' @ [CHR 0x0A])) (\<lambda>_. None)
     99 1000 1000 Native) = ''unit:'' @ ''backfill'' @ ''@'' @ show_nat 1000"
proof -
  let ?a = "\<lparr> ru_socket = RUN_SOCKET, ru_confine = None, ru_as = Some ''backfill'', ru_program = [''make''] \<rparr>"
  have "run_name_ok ''backfill''"
    by (simp add: run_name_ok_def is_ascii_alphanumeric_def is_ascii_lower_def code_def)
  moreover have "''--unit='' @ scope_name quiet_launch ''backfill'' \<in> set (take 7 (wrapped quiet_launch ?a))"
    by (simp add: wrapped_def)
  ultimately show ?thesis
    using named_launch_is_known_by_name [of ?a "''backfill''" "scope_name quiet_launch ''backfill''" quiet_launch
        "\<lambda>_. Some (''0::/user.slice'' @ ''/'' @ scope_name quiet_launch ''backfill'' @ ''.scope'' @ [CHR 0x0A])" 99
        "''0::/user.slice''" "\<lambda>_. None" 1000 1000] by simp
qed

subsection \<open>The daemon serves only a configuration that loads\<close>

lemma read_start_args_stops: "read_start_args args a \<noteq> Inl (Start_Serving b c)"
  by (induction args a rule: read_start_args.induct) (auto split: list.splits)

lemma daemon_main_serves:
  assumes "daemon_main w debug_var bus args = Start_Serving a c"
  shows "load w (sa_config a) = Inr c \<and> \<not> sa_check a \<and> bus = None"
  using assms read_start_args_stops [of args _ a c]
  by (auto simp: daemon_main_def Let_def split: sum.splits if_splits option.splits)

end
