(* ===== verification/Portal_App.thy ===== *)
theory Portal_App
  imports Dbus
begin

text \<open>
  The portal, \<open>crates/ai-daemon-portal/src/main.rs\<close>: which application a caller on the session bus is, read from its
  confinement, and the request it forwards to the daemon with that name. The files of processes may change between
  two reads, so each read has its own view of them. Bus credentials and the daemon's answer are arguments; the daemon
  itself is \<open>create_session\<close> of \<open>Dbus\<close>.
\<close>

subsection \<open>The confinement of a process\<close>

datatype sandbox = Flatpak string | Snap string

fun app_id :: "sandbox \<Rightarrow> string" where
  "app_id (Flatpak i) = i"
| "app_id (Snap i) = i"

fun sandbox_kind :: "sandbox \<Rightarrow> string" where
  "sandbox_kind (Flatpak _) = ''flatpak''"
| "sandbox_kind (Snap _) = ''snap''"

fun flatpak_lines :: "bool \<Rightarrow> string list \<Rightarrow> string option" where
  "flatpak_lines in_application [] = None"
| "flatpak_lines in_application (l # ls) =
     (let line = trim l
      in if starts_with ''['' line then flatpak_lines (line = ''[Application]'') ls
         else if \<not> in_application then flatpak_lines in_application ls
         else
           (case strip_prefix ''name='' line of
              Some v \<Rightarrow> (if trim v \<noteq> [] then Some (trim v) else None)
            | None \<Rightarrow> flatpak_lines in_application ls))"

definition flatpak_app_id :: "string \<Rightarrow> string option" where
  "flatpak_app_id txt = flatpak_lines False (rust_lines txt)"

definition trim_end_nul :: "string \<Rightarrow> string" where
  "trim_end_nul s = rev (dropWhile (\<lambda>c. c = CHR 0x00) (rev s))"

definition snap_app_id :: "string \<Rightarrow> string option" where
  "snap_app_id raw =
     (let label = trim_end_nul (trim raw);
          (profile, mode) = (case split_once '' '' label of Some (p, m) \<Rightarrow> (p, trim m) | None \<Rightarrow> (label, []))
      in if contains_str ''complain'' mode \<or> contains_str ''unconfined'' mode then None
         else
           (case split_on (CHR ''.'') profile of
              first # name # _ \<Rightarrow> if first = ''snap'' \<and> name \<noteq> [] then Some name else None
            | _ \<Rightarrow> None))"

definition nth_opt :: "'a list \<Rightarrow> nat \<Rightarrow> 'a option" where
  "nth_opt xs n = (if n < length xs then Some (xs ! n) else None)"

text \<open>Field 22 of \<open>stat\<close>, counted after the last closing parenthesis.\<close>

definition start_time_of :: "string \<Rightarrow> nat option" where
  "start_time_of stat =
     (case rsplit_once '')'' stat of
        None \<Rightarrow> None
      | Some (_, after_comm) \<Rightarrow> Option.bind (nth_opt (split_whitespace after_comm) 19) parse_u64)"

definition start_time :: "files \<Rightarrow> nat \<Rightarrow> nat option" where
  "start_time rd pid = Option.bind (rd (proc_path (int pid) ''stat'')) start_time_of"

definition read_confinement :: "files \<Rightarrow> nat \<Rightarrow> sandbox option" where
  "read_confinement rd pid =
     (case rd (proc_path (int pid) ''root/.flatpak-info'') of
        Some txt \<Rightarrow> map_option Flatpak (flatpak_app_id txt)
      | None \<Rightarrow> map_option Snap (Option.bind (rd (proc_path (int pid) ''attr/current'')) snap_app_id))"

text \<open>Three reads: the start time, the confinement, the start time again.\<close>

definition sandbox_of :: "files \<Rightarrow> files \<Rightarrow> files \<Rightarrow> nat \<Rightarrow> sandbox option" where
  "sandbox_of before during after_that pid =
     (case start_time before pid of
        None \<Rightarrow> None
      | Some t \<Rightarrow>
          (let found = read_confinement during pid
           in case start_time after_that pid of
                None \<Rightarrow> None
              | Some t' \<Rightarrow> if t' \<noteq> t then None else found))"

subsection \<open>The interface\<close>

record portal_env =
  pe_sender :: "string option"
  pe_pid :: "string + nat"
  pe_before :: files
  pe_during :: files
  pe_after :: files

definition the_sender :: "portal_env \<Rightarrow> string + string" where
  "the_sender p = ok_or (pe_sender p) ''no sender on the message''"

definition assert_for :: "portal_env \<Rightarrow> string + sandbox" where
  "assert_for p =
     rbind (pe_pid p) (\<lambda>pid.
       case sandbox_of (pe_before p) (pe_during p) (pe_after p) pid of
         Some s \<Rightarrow> Inr s
       | None \<Rightarrow> Inl (''pid '' @ show_nat pid @ '' is not in a sandbox this portal can vouch for''))"

text \<open>What is sent to the daemon for a \<open>CreateSession\<close>: the options of the application and its name.\<close>

definition forwarded :: "portal_env \<Rightarrow> options \<Rightarrow> string + options" where
  "forwarded p os =
     rbind (the_sender p) (\<lambda>_. rbind (assert_for p) (\<lambda>s.
       if map_of os ''portal_app_id'' \<noteq> None then Inl ''portal_app_id is this portal's to set, not the caller's''
       else Inr (AList.update ''portal_app_id'' (VStr (app_id s)) os)))"

definition portal_create_session :: "config \<Rightarrow> env \<Rightarrow> portal_env \<Rightarrow> string \<Rightarrow> options \<Rightarrow> daemon \<Rightarrow> (string + string) \<times> daemon" where
  "portal_create_session c e p model os d =
     (case forwarded p os of
        Inl err \<Rightarrow> (Inl err, d)
      | Inr os' \<Rightarrow> create_session c e model os' d)"

definition portal_list_models :: "portal_env \<Rightarrow> (string + 'm list) \<Rightarrow> string + 'm list" where
  "portal_list_models p daemon_says = rbind (the_sender p) (\<lambda>_. rbind (assert_for p) (\<lambda>_. daemon_says))"

definition portal_identify :: "portal_env \<Rightarrow> string + string \<times> string" where
  "portal_identify p = rbind (the_sender p) (\<lambda>_. rbind (assert_for p) (\<lambda>s. Inr (sandbox_kind s, app_id s)))"

subsection \<open>The name is the confinement's\<close>

text \<open>The lines of the application section, wherever it is and however often it is opened.\<close>

fun application_lines :: "bool \<Rightarrow> string list \<Rightarrow> string list" where
  "application_lines here [] = []"
| "application_lines here (l # ls) =
     (if starts_with ''['' (trim l) then application_lines (trim l = ''[Application]'') ls
      else if here then trim l # application_lines here ls
      else application_lines here ls)"

lemma flatpak_lines_refines:
  "flatpak_lines b ls =
     (case first_some (strip_prefix ''name='') (application_lines b ls) of
        Some v \<Rightarrow> if trim v \<noteq> [] then Some (trim v) else None
      | None \<Rightarrow> None)"
  by (induction b ls rule: flatpak_lines.induct) (simp_all add: Let_def split: option.split)

lemma flatpak_app_id_some:
  assumes "flatpak_app_id txt = Some n"
  shows "n \<noteq> [] \<and> (\<exists>v. first_some (strip_prefix ''name='') (application_lines False (rust_lines txt)) = Some v \<and> n = trim v)"
  using assms by (auto simp: flatpak_app_id_def flatpak_lines_refines split: option.splits if_splits)

lemma snap_app_id_some:
  assumes "snap_app_id raw = Some n"
  shows "n \<noteq> [] \<and> CHR ''.'' \<notin> set n"
proof -
  obtain p where "\<exists>rest. split_on (CHR ''.'') p = ''snap'' # n # rest \<and> n \<noteq> []"
    using assms by (auto simp: snap_app_id_def Let_def split: prod.splits if_splits list.splits)
  then show ?thesis
    using split_on_parts [of n "CHR ''.''" p] by auto
qed

lemma sandbox_of_some:
  assumes "sandbox_of before during after_that pid = Some s"
  shows "\<exists>t. start_time before pid = Some t \<and> start_time after_that pid = Some t \<and> read_confinement during pid = Some s \<and> app_id s \<noteq> []"
proof -
  have "app_id s \<noteq> []" if "read_confinement during pid = Some s"
    using that by (auto simp: read_confinement_def bind_eq_Some_conv dest!: flatpak_app_id_some snap_app_id_some split: option.splits)
  then show ?thesis
    using assms by (auto simp: sandbox_of_def Let_def split: option.splits if_splits)
qed

lemma identity_from_portal:
  assumes "map_of os ''portal_app_id'' = Some (VStr app)"
  shows "identity_of c rd links creds os =
    (let i = from_pid_uid rd links (snd creds) (fst creds) (fst creds) Native
     in if is_trusted_introducer (portal_units (c_policy c)) (id_unit i) (id_exe i)
        then Inr (i\<lparr> id_class := Portal, id_app_id := Some app \<rparr>)
        else Inl ''only xdg-desktop-portal may assert an application identity'')"
  using assms by (simp add: identity_of_def opt_def Let_def)

text \<open>
  C34. The portal vouches for the confinement and for nothing the application says. Whatever options an application sends, if the
  portal forwards its request then the process the bus named had the same start time before and after its
  confinement was read, the application name is the one of that confinement and not empty, every other option
  arrives as it was sent, and the daemon either refuses the portal or knows the caller by the key
  \<open>portal:<name>\<close>, also when the application added the options by which the HTTP bridge introduces callers.
\<close>

theorem portal_vouches_for_the_confinement:
  assumes "forwarded p os = Inr os'"
  shows "\<exists>pid s t. pe_pid p = Inr pid
    \<and> start_time (pe_before p) pid = Some t \<and> start_time (pe_after p) pid = Some t
    \<and> read_confinement (pe_during p) pid = Some s \<and> app_id s \<noteq> []
    \<and> (\<forall>k. map_of os' k = (if k = ''portal_app_id'' then Some (VStr (app_id s)) else map_of os k))
    \<and> (\<forall>c rd links creds i. identity_of c rd links creds os' = Inr i \<longrightarrow>
         key i = ''portal:'' @ app_id s
         \<and> is_trusted_introducer (portal_units (c_policy c)) (unit_of_pid rd (snd creds)) (exe_of_pid links (snd creds)))"
proof -
  obtain s pid where pid: "pe_pid p = Inr pid" and s: "sandbox_of (pe_before p) (pe_during p) (pe_after p) pid = Some s"
    and os': "os' = AList.update ''portal_app_id'' (VStr (app_id s)) os"
    using assms by (auto simp: forwarded_def assert_for_def rbind_Inr_iff split: if_splits option.splits)
  have lookup: "map_of os' k = (if k = ''portal_app_id'' then Some (VStr (app_id s)) else map_of os k)" for k
    by (simp add: os' update_conv')
  have "key i = ''portal:'' @ app_id s
      \<and> is_trusted_introducer (portal_units (c_policy c)) (unit_of_pid rd (snd creds)) (exe_of_pid links (snd creds))"
    if "identity_of c rd links creds os' = Inr i" for c rd links creds i
    using that identity_from_portal [of os' "app_id s" c rd links creds] lookup
    by (auto simp: Let_def key_def from_pid_uid_def split: if_splits)
  with sandbox_of_some [OF s] pid lookup show ?thesis
    by blast
qed

text \<open>The name of a process, between the parentheses, cannot shift the field that is read.\<close>

lemma start_time_after_any_comm:
  assumes "list_all (\<lambda>w. w \<noteq> [] \<and> list_all (\<lambda>c. \<not> is_space c \<and> c \<noteq> CHR '')'') w) fs" "19 < length fs"
  shows "start_time_of (comm @ '')'' @ '' '' @ join '' '' fs) = parse_u64 (fs ! 19)"
proof -
  have words: "list_all (\<lambda>w. w \<noteq> [] \<and> list_all (\<lambda>c. \<not> is_space c) w) fs"
    using assms(1) by (auto simp: list_all_iff)
  have "CHR '')'' \<notin> set (join '' '' gs)" if "list_all (\<lambda>w. CHR '')'' \<notin> set w) gs" for gs
    using that by (induction "'' ''" gs rule: join.induct) auto
  then have "rsplit_once '')'' (comm @ '')'' @ '' '' @ join '' '' fs) = Some (comm, '' '' @ join '' '' fs)"
    using rsplit_once_last [of "CHR '')''" "'' '' @ join '' '' fs" comm] assms(1) by (auto simp: list_all_iff)
  moreover have "split_whitespace ('' '' @ join '' '' fs) = fs"
    using split_whitespace_join [OF words] by (simp add: split_whitespace_def is_space_def code_def)
  ultimately show ?thesis
    using assms(2) by (simp add: start_time_of_def nth_opt_def)
qed

definition sample_stat :: string where
  "sample_stat = ''7 (a) b'' @ '')'' @ '' '' @ join '' '' (map show_nat [0..<21])"

definition sample_files :: files where
  "sample_files path =
     (if path = proc_path 7 ''stat'' then Some sample_stat
      else if path = proc_path 7 ''root/.flatpak-info''
      then Some (''[Instance]'' @ [CHR 0x0A] @ ''name=decoy'' @ [CHR 0x0A] @ ''[Application]'' @ [CHR 0x0A] @ ''name=real.app'' @ [CHR 0x0A])
      else None)"

definition sample_portal :: portal_env where
  "sample_portal =
     \<lparr> pe_sender = Some '':1.9'', pe_pid = Inr 7, pe_before = sample_files, pe_during = sample_files, pe_after = sample_files \<rparr>"

lemma sample_start: "start_time sample_files 7 = Some 19"
proof -
  have "list_all (\<lambda>w. w \<noteq> [] \<and> list_all (\<lambda>c. \<not> is_space c \<and> c \<noteq> CHR '')'') w) (map show_nat [0..<21])"
    using show_nat_set by (fastforce simp: list_all_iff is_space_def is_ascii_digit_def code_def)
  from start_time_after_any_comm [OF this, of "''7 (a) b''"] show ?thesis
    by (simp add: start_time_def sample_files_def sample_stat_def parse_show_nat del: upt_rec_numeral)
qed

lemma sample_confinement: "read_confinement sample_files 7 = Some (Flatpak ''real.app'')"
  by (simp add: read_confinement_def sample_files_def proc_path_def flatpak_app_id_def rust_lines_def strip_cr_def Let_def
      starts_with_def strip_prefix_def trim_def trim_start_def trim_end_def is_space_def code_def)

theorem portal_vouches_for_the_confinement_witness:
  "forwarded sample_portal [(''shim_peer_pid'', VU32 1)] = Inr [(''shim_peer_pid'', VU32 1), (''portal_app_id'', VStr ''real.app'')]
   \<and> (\<exists>s. read_confinement (pe_during sample_portal) 7 = Some s \<and> app_id s = ''real.app'')"
proof -
  have f: "forwarded sample_portal [(''shim_peer_pid'', VU32 1)] = Inr [(''shim_peer_pid'', VU32 1), (''portal_app_id'', VStr ''real.app'')]"
    by (simp add: forwarded_def the_sender_def assert_for_def sample_portal_def sandbox_of_def sample_start sample_confinement)
  from portal_vouches_for_the_confinement [OF f] obtain pid s
    where pid: "pe_pid sample_portal = Inr pid" and conf: "read_confinement (pe_during sample_portal) pid = Some s"
      and "map_of [(''shim_peer_pid'', VU32 1), (''portal_app_id'', VStr ''real.app'')] ''portal_app_id''
        = (if ''portal_app_id'' = ''portal_app_id'' then Some (VStr (app_id s)) else map_of [(''shim_peer_pid'', VU32 1)] ''portal_app_id'')"
    by blast
  then have "app_id s = ''real.app''" "pid = 7"
    by (simp_all add: sample_portal_def)
  then show ?thesis
    using f conf by blast
qed

text \<open>
  The start times are compared with each other only: a process that took the number over after the bus had named it, and
  before the first of the three reads, is vouched for in place of the caller.
\<close>

lemma earlier_reuse_goes_unseen:
  assumes "start_time now pid = Some t" "read_confinement now pid = Some s"
  shows "sandbox_of now now now pid = Some s"
  using assms by (simp add: sandbox_of_def)

end
