(* ===== verification/Ctl.thy ===== *)
theory Ctl
  imports Manager Audit_Log Shim_Api "HOL-Library.List_Lexorder" "HOL-Library.Char_ord"
begin

text \<open>
  The command line tool, \<open>crates/aidctl/src/main.rs\<close>: every command, with the bus calls it makes, what it sends into a
  session and what it prints, recorded in the order in which they happen. Calls are the methods of \<open>Manager\<close>; what
  they answer, the frames a session sends, files, standard input and how writes end are arguments (\<open>ctl_env\<close>), as is
  the printing of single precision numbers and of values that have no plain form. Help texts are not modelled, and of
  the errors of system calls only the text the tool puts before them is kept.
\<close>

subsection \<open>The tool and its surroundings\<close>

datatype ctl_reply =
    R_Unit
  | R_Str string
  | R_Num nat
  | R_Dict options
  | R_Dicts "options list"
  | R_Pairs "(string \<times> string) list"
  | R_Spend "(string \<times> string \<times> string) list"
  | R_Usage "(string \<times> nat \<times> nat \<times> nat) list"
  | R_Grants "(string \<times> string \<times> string \<times> nat \<times> string) list"

datatype ctl_act =
    Out string
  | Warn string
  | Called bus_method
  | Through_Portal string options
  | Sent wire
  | Wrote string "byte list"
  | Closed string

text \<open>What a session's socket gives: an event, another structured frame, a payload, or an error; nothing more is its end.\<close>

datatype frame_in = In_Event event | In_Odd | In_Blob "byte list" | In_Error string

record ctl_env =
  ce_bus :: "string option"
  ce_reply :: "bus_method \<Rightarrow> string + ctl_reply"
  ce_session_bus :: "string option"
  ce_portal :: "string \<Rightarrow> options \<Rightarrow> string + string"
  ce_identify :: "string + string \<times> string"
  ce_read :: "string \<Rightarrow> string + byte list"
  ce_tools :: "string \<Rightarrow> string + tool_schema list"
  ce_stdin :: "string + string"
  ce_terminal :: bool
  ce_dup :: "string option"
  ce_write :: "string \<Rightarrow> string option"
  ce_show :: "dval \<Rightarrow> string"
  ce_f32 :: "nat \<Rightarrow> f32 \<Rightarrow> string"
  ce_wakes :: nat
  ce_codec :: log_codec
  ce_files :: fs

text \<open>
  The running tool: what it did, how many more frames its session will take, the frames to come, and after how many
  reads the second thread wakes that was started to cancel.
\<close>

record ctl =
  ct_acts :: "ctl_act list"
  ct_room :: "nat option"
  ct_feed :: "frame_in list"
  ct_due :: "nat option"

definition ctl_do :: "ctl_act \<Rightarrow> ctl \<Rightarrow> ctl" where
  "ctl_do a s = s\<lparr> ct_acts := ct_acts s @ [a] \<rparr>"

definition println :: "string \<Rightarrow> ctl \<Rightarrow> ctl" where
  "println line = ctl_do (Out (line @ [CHR 0x0A]))"

definition eprintln :: "string \<Rightarrow> ctl \<Rightarrow> ctl" where
  "eprintln line = ctl_do (Warn (line @ [CHR 0x0A]))"

type_synonym ctl_run = "ctl \<Rightarrow> (string + nat) \<times> ctl"

definition ctl_call :: "ctl_env \<Rightarrow> string \<Rightarrow> (ctl_reply \<Rightarrow> 'a option) \<Rightarrow> bus_method \<Rightarrow> ctl \<Rightarrow> (string + 'a) \<times> ctl" where
  "ctl_call e method want m s =
     (case ce_bus e of
        Some err \<Rightarrow> (Inl (''cannot reach the system bus: '' @ err), s)
      | None \<Rightarrow>
          (case ce_reply e m of
             Inl err \<Rightarrow> (Inl (method @ '': '' @ err), ctl_do (Called m) s)
           | Inr r \<Rightarrow> (ok_or (want r) (method @ '' reply''), ctl_do (Called m) s)))"

subsection \<open>Formats\<close>

text \<open>Padding counts characters, not bytes.\<close>

definition chars :: "string \<Rightarrow> nat" where
  "chars s = length (filter (\<lambda>c. \<not> utf8_cont c) s)"

definition left :: "nat \<Rightarrow> string \<Rightarrow> string" where
  "left n s = s @ replicate (n - chars s) (CHR '' '')"

definition right :: "nat \<Rightarrow> string \<Rightarrow> string" where
  "right n s = replicate (n - chars s) (CHR '' '') @ s"

definition one_decimal :: "f64 \<Rightarrow> string" where
  "one_decimal v =
     (case v of
        Fin x \<Rightarrow> (let n = nat (round_half_even (x * 10)) in show_nat (n div 10) @ ''.'' @ show_nat (n mod 10))
      | PosInf \<Rightarrow> ''inf'' | NegInf \<Rightarrow> ''-inf'' | NaN \<Rightarrow> ''NaN'')"

definition render_tokens :: "nat \<Rightarrow> string" where
  "render_tokens n =
     (if n \<le> 9999 then show_nat n
      else if n \<le> 999999 then one_decimal (f_div_const (f_of_nat n) 1000) @ ''k''
      else one_decimal (f_div_const (f_of_nat n) 1000000) @ ''M'')"

fun scale_bytes :: "string list \<Rightarrow> f64 \<Rightarrow> f64 \<times> string" where
  "scale_bytes [] v = (v, [])"
| "scale_bytes [u] v = (v, u)"
| "scale_bytes (u # us) v = (if f_le (Fin 1024) v then scale_bytes us (f_div_const v 1024) else (v, u))"

definition human_bytes :: "nat \<Rightarrow> string" where
  "human_bytes n =
     (case scale_bytes [''B'', ''KiB'', ''MiB'', ''GiB'', ''TiB''] (f_of_nat n) of
        (v, unit) \<Rightarrow> if unit = ''B'' then show_nat n @ '' B'' else one_decimal v @ '' '' @ unit)"

fun render :: "ctl_env \<Rightarrow> dval \<Rightarrow> string" where
  "render e (VStr s) = s"
| "render e (VBool b) = (if b then ''true'' else ''false'')"
| "render e (VU32 n) = show_nat n"
| "render e (VU64 n) = show_nat n"
| "render e (VStrs xs) = (if xs = [] then ''-'' else join '', '' xs)"
| "render e v = ce_show e v"

definition shown :: "ctl_env \<Rightarrow> string \<Rightarrow> options \<Rightarrow> string \<Rightarrow> string" where
  "shown e none d k = (case map_of d k of Some v \<Rightarrow> render e v | None \<Rightarrow> none)"

subsection \<open>Inspection\<close>

fun want_dict :: "ctl_reply \<Rightarrow> options option" where "want_dict (R_Dict d) = Some d" | "want_dict _ = None"
fun want_dicts :: "ctl_reply \<Rightarrow> options list option" where "want_dicts (R_Dicts ds) = Some ds" | "want_dicts _ = None"
fun want_pairs :: "ctl_reply \<Rightarrow> (string \<times> string) list option" where "want_pairs (R_Pairs ps) = Some ps" | "want_pairs _ = None"
fun want_str :: "ctl_reply \<Rightarrow> string option" where "want_str (R_Str t) = Some t" | "want_str _ = None"
fun want_num :: "ctl_reply \<Rightarrow> nat option" where "want_num (R_Num n) = Some n" | "want_num _ = None"
fun want_unit :: "ctl_reply \<Rightarrow> unit option" where "want_unit R_Unit = Some ()" | "want_unit _ = None"
fun want_spend :: "ctl_reply \<Rightarrow> (string \<times> string \<times> string) list option" where "want_spend (R_Spend r) = Some r" | "want_spend _ = None"
fun want_usage :: "ctl_reply \<Rightarrow> (string \<times> nat \<times> nat \<times> nat) list option" where "want_usage (R_Usage r) = Some r" | "want_usage _ = None"
fun want_grants :: "ctl_reply \<Rightarrow> (string \<times> string \<times> string \<times> nat \<times> string) list option" where
  "want_grants (R_Grants r) = Some r" | "want_grants _ = None"

definition finish :: "ctl \<Rightarrow> (string + nat) \<times> ctl" where
  "finish s = (Inr 0, s)"

definition ctl_status :: "ctl_env \<Rightarrow> ctl_run" where
  "ctl_status e s =
     sbind (ctl_call e ''Status'' want_dict Status s) (\<lambda>info s.
       let get = shown e ''-'' info
       in finish (fold println
            [''ai-daemon '' @ get ''version'',
             ''  bus name        io.github.agraves.AIDaemon1'',
             ''  uptime          '' @ get ''uptime_seconds'' @ ''s (idle '' @ get ''idle_seconds'' @ ''s)'',
             ''  consent mode    '' @ get ''consent_mode'',
             ''  sessions        '' @ get ''sessions'',
             ''  kv cache        '' @ get ''kv_used_bytes'' @ '' of '' @ get ''kv_budget_bytes'' @ '' bytes'',
             ''  audit log       '' @ get ''audit_log'',
             ''  backends        '' @ get ''backends'',
             ''  running         '' @ get ''running''] s))"

definition model_row :: "ctl_env \<Rightarrow> options \<Rightarrow> string" where
  "model_row e m =
     (let get = shown e [] m; bytes = (case map_of m ''weights_bytes'' of Some (VU64 n) \<Rightarrow> n | _ \<Rightarrow> 0)
      in left 28 (get ''name'') @ '' '' @ left 8 (get ''format'') @ '' ''
         @ left 10 (if get ''quantization'' = [] then ''-'' else get ''quantization'') @ '' '' @ left 8 (get ''store'') @ '' ''
         @ left 12 (human_bytes bytes) @ '' '' @ get ''digest''
         @ (if get ''format'' = ''remote'' then (if get ''pinned'' = ''true'' then ''  (not local, pinned)'' else ''  (not local)'')
            else if get ''pinned'' = ''true'' then ''  (pinned)'' else []))"

definition ctl_models :: "ctl_env \<Rightarrow> ctl_run" where
  "ctl_models e s =
     sbind (ctl_call e ''ListModels'' want_dicts List_Models s) (\<lambda>ms s.
       if ms = [] then finish (println ''no models installed; try `aidctl install --help`'' s)
       else finish (fold println
              ((left 28 ''NAME'' @ '' '' @ left 8 ''FORMAT'' @ '' '' @ left 10 ''QUANT'' @ '' '' @ left 8 ''STORE'' @ '' ''
                @ left 12 ''SIZE'' @ '' DIGEST'') # map (model_row e) ms) s))"

definition ctl_aliases :: "ctl_env \<Rightarrow> ctl_run" where
  "ctl_aliases e s =
     sbind (ctl_call e ''ListAliases'' want_pairs List_Aliases s) (\<lambda>ps s.
       if ps = [] then finish (println ''no aliases; apps asking for `default` will not resolve'' s)
       else finish (fold println (map (\<lambda>(short, target). left 12 short @ '' -> '' @ target) (sort_key fst ps)) s))"

definition ctl_resolve :: "ctl_env \<Rightarrow> string list \<Rightarrow> ctl_run" where
  "ctl_resolve e args s =
     (case args of
        [] \<Rightarrow> (Inl ''usage: aidctl resolve ALIAS'', s)
      | a # _ \<Rightarrow> sbind (ctl_call e ''Resolve'' want_str (Resolve a) s) (\<lambda>name s. finish (println name s)))"

definition session_row :: "ctl_env \<Rightarrow> options \<Rightarrow> string" where
  "session_row e d =
     (let get = shown e [] d
      in left 6 (get ''id'') @ '' '' @ left 34 (get ''identity'') @ '' '' @ left 20 (get ''model'') @ '' '' @ left 12 (get ''priority'') @ '' ''
         @ left 12 (get ''state'') @ '' '' @ get ''prompt_tokens'' @ ''/'' @ get ''completion_tokens'')"

definition ctl_sessions :: "ctl_env \<Rightarrow> ctl_run" where
  "ctl_sessions e s =
     sbind (ctl_call e ''ListSessions'' want_dicts List_Sessions s) (\<lambda>ds s.
       if ds = [] then finish (println ''no open sessions'' s)
       else finish (fold println
              ((left 6 ''ID'' @ '' '' @ left 34 ''IDENTITY'' @ '' '' @ left 20 ''MODEL'' @ '' '' @ left 12 ''PRIORITY'' @ '' ''
                @ left 12 ''STATE'' @ '' TOKENS(p/c)'') # map (session_row e) ds) s))"

definition ctl_spend :: "ctl_env \<Rightarrow> ctl_run" where
  "ctl_spend e s =
     sbind (ctl_call e ''Spend'' want_spend Spend_Report s) (\<lambda>rows s.
       if rows = []
       then finish (fold println
              [''nothing spent, and no ceiling set'', [],
               ''Prices are an administrator's table in config.toml. A model with no'',
               ''entry costs nothing, which is right for a local one '' @ [CHR 0xE2, CHR 0x80, CHR 0x94] @ '' so this stays'',
               ''empty on a machine that never configured a remote provider.''] s)
       else finish (fold println
              ((left 38 ''IDENTITY'' @ '' '' @ right 12 ''SPENT'' @ '' '' @ right 12 ''PER DAY'')
               # map (\<lambda>(who, spent, roof). left 38 who @ '' '' @ right 12 spent @ '' '' @ right 12 roof) rows
               @ [[], ''A rolling 24 hours, not a calendar day: the oldest requests age out.'']) s))"

text \<open>The line for a status bar: JSON put together by hand. \<open>\\n\<close> stands for the two characters of its escape.\<close>

definition bar_escape :: "string \<Rightarrow> string" where
  "bar_escape s =
     concat (map (\<lambda>c. if c = CHR 0x22 then [CHR 0x5C, CHR 0x22] else [c])
       (concat (map (\<lambda>c. if c = CHR 0x5C then [CHR 0x5C, CHR 0x5C] else [c]) s)))"

abbreviation BREAK :: string where "BREAK \<equiv> [CHR 0x5C, CHR ''n'']"
abbreviation DOT :: string where "DOT \<equiv> [CHR '' '', CHR 0xC2, CHR 0xB7, CHR '' '']"

function split_str :: "string \<Rightarrow> string \<Rightarrow> string list" where
  "split_str sep s =
     (case split_once sep s of
        None \<Rightarrow> [s]
      | Some (a, b) \<Rightarrow> if length b < length s then a # split_str sep b else [s])"
  by pat_completeness auto
termination
  by (relation "measure (length \<circ> snd)") auto

declare split_str.simps [simp del]

definition amounts :: "nat \<Rightarrow> nat \<Rightarrow> string" where
  "amounts toks spent = (if 0 < spent then render_tokens toks @ DOT @ render_micros spent else render_tokens toks)"

definition bar_tooltip :: "(string \<times> nat \<times> nat \<times> nat) list \<Rightarrow> string" where
  "bar_tooltip rows =
     (if rows = [] then ''nothing has thought anything today''
      else join BREAK (map (\<lambda>(who, toks, spent, _). who @ '': '' @ amounts toks spent) (take 8 rows)))"

definition sum64 :: "nat list \<Rightarrow> nat" where
  "sum64 ns = fold (\<lambda>n acc. u64_add acc n) ns 0"

definition in_quotes :: "string \<Rightarrow> string" where
  "in_quotes s = CHR 0x22 # s @ [CHR 0x22]"

definition bar_line :: "(string \<times> nat \<times> nat \<times> nat) list \<Rightarrow> string" where
  "bar_line rows =
     (let toks = sum64 (map (\<lambda>(_, t, _, _). t) rows); spent = sum64 (map (\<lambda>(_, _, m, _). m) rows)
      in ''{'' @ in_quotes ''text'' @ '': '' @ in_quotes (bar_escape (amounts toks spent)) @ '', ''
         @ in_quotes ''tooltip'' @ '': '' @ in_quotes (join BREAK (map bar_escape (split_str BREAK (bar_tooltip rows)))) @ '', ''
         @ in_quotes ''class'' @ '': '' @ in_quotes ''ai-daemon'' @ ''}'')"

definition usage_row :: "string \<times> nat \<times> nat \<times> nat \<Rightarrow> string" where
  "usage_row r =
     (case r of (who, toks, spent, roof) \<Rightarrow>
        left 38 who @ '' '' @ right 10 (render_tokens toks) @ '' '' @ right 12 (if 0 < spent then render_micros spent else ''-'')
        @ '' '' @ right 12 (if 0 < roof then render_micros roof else ''-''))"

definition ctl_meter :: "ctl_env \<Rightarrow> string list \<Rightarrow> ctl_run" where
  "ctl_meter e args s =
     (if ''--help'' \<in> set args then finish (println ''usage: aidctl meter [--waybar]'' s)
      else
        sbind (ctl_call e ''Usage'' want_usage Usage_Report s) (\<lambda>rows s.
          if ''--waybar'' \<in> set args then finish (println (bar_line rows) s)
          else if rows = [] then finish (println ''nothing in the last 24 hours'' s)
          else finish (fold println
                 ((left 38 ''IDENTITY'' @ '' '' @ right 10 ''TOKENS'' @ '' '' @ right 12 ''SPENT'' @ '' '' @ right 12 ''PER DAY'')
                  # map usage_row rows
                  @ [[], ''A rolling 24 hours. Tokens count local and remote alike; SPENT is only'',
                     ''what the price table bills, so it stays '' @ [CHR 0x27] @ ''-'' @ [CHR 0x27] @ '' with no remote provider.'']) s)))"

definition ctl_grants :: "ctl_env \<Rightarrow> ctl_run" where
  "ctl_grants e s =
     sbind (ctl_call e ''ListGrants'' want_grants List_Grants s) (\<lambda>gs s.
       if gs = [] then finish (println ''no remembered grants'' s)
       else finish (fold println
              ((left 38 ''IDENTITY'' @ '' '' @ left 16 ''CAPABILITY'' @ '' '' @ left 8 ''DECISION'' @ '' '' @ left 10 ''VIA'' @ '' WHEN'')
               # map (\<lambda>(who, capability, decided, when, via).
                   left 38 who @ '' '' @ left 16 capability @ '' '' @ left 8 decided @ '' '' @ left 10 via @ '' '' @ show_nat when) gs) s))"

subsection \<open>The audit log\<close>

text \<open>The tool's own copy of the verifier: a loop over the numbered lines, with the expected link and the count.\<close>

definition ctl_hash_line :: "log_codec \<Rightarrow> string \<Rightarrow> string" where
  "ctl_hash_line lc line = lc_sha256 lc line"

definition ctl_verify_line :: "log_codec \<Rightarrow> nat \<times> string \<Rightarrow> string option \<times> nat \<Rightarrow> chain_error + string option \<times> nat" where
  "ctl_verify_line lc numbered acc =
     (case (numbered, acc) of ((index, line), (expected, checked)) \<Rightarrow>
        let number = index + 1
        in if trim line = [] then Inr (expected, checked)
           else
             rbind (ok_or (lc_of_json lc line) (Not_a_record number)) (\<lambda>v.
               rbind
                 (case (expected, jfield jstr ''prev'' v) of
                    (None, None) \<Rightarrow> Inr ()
                  | (None, Some p) \<Rightarrow> rbind (ok_or (first16 p) Slice_panic) (\<lambda>h. Inl (Missing_before number h))
                  | (Some _, None) \<Rightarrow> Inl (No_link number)
                  | (Some want, Some got) \<Rightarrow>
                      if want = got then Inr ()
                      else rbind (ok_or (first16 got) Slice_panic) (\<lambda>g.
                             rbind (ok_or (first16 want) Slice_panic) (\<lambda>h. Inl (Mismatch number g h))))
                 (\<lambda>_. Inr (Some (ctl_hash_line lc line), checked + 1))))"

fun rfold :: "('x \<Rightarrow> 'a \<Rightarrow> 'e + 'a) \<Rightarrow> 'x list \<Rightarrow> 'a \<Rightarrow> 'e + 'a" where
  "rfold g [] a = Inr a"
| "rfold g (x # xs) a = rbind (g x a) (rfold g xs)"

definition ctl_audit_verify :: "log_codec \<Rightarrow> fs \<Rightarrow> string \<Rightarrow> chain_error + nat" where
  "ctl_audit_verify lc f path =
     rbind (ok_or (read_to_string f path) Unreadable_log) (\<lambda>content.
       rbind (rfold (ctl_verify_line lc) (enumerate 0 (rust_lines content)) (None, 0)) (\<lambda>(_, checked). Inr checked))"

datatype 'a parsed = Help | Bad string | Parsed 'a

function read_audit_args :: "string list \<Rightarrow> string \<times> bool \<Rightarrow> (string \<times> bool) parsed" where
  "read_audit_args [] acc = Parsed acc"
| "read_audit_args (x # xs) acc =
     (if x = ''--verify'' then read_audit_args xs (fst acc, True)
      else if x = ''--file'' then read_audit_args (tl xs) (case xs of [] \<Rightarrow> acc | p # _ \<Rightarrow> (p, snd acc))
      else if x = ''--help'' then Help
      else Bad (''unknown option '' @ x))"
  by pat_completeness auto
termination
  by (relation "measure (length \<circ> fst)") auto

definition AUDIT_LOG :: string where "AUDIT_LOG = ''/var/lib/ai-daemon/audit.jsonl''"

text \<open>A panic ends the tool with status 101.\<close>

definition ctl_audit :: "ctl_env \<Rightarrow> (chain_error \<Rightarrow> string) \<Rightarrow> string list \<Rightarrow> ctl_run" where
  "ctl_audit e says args s =
     (case read_audit_args args (AUDIT_LOG, False) of
        Help \<Rightarrow> finish (println ''usage: aidctl audit --verify [--file PATH]'' s)
      | Bad err \<Rightarrow> (Inl err, s)
      | Parsed (path, check_it) \<Rightarrow>
          if \<not> check_it then (Inl ''say what to do: --verify'', s)
          else
            (case ctl_audit_verify (ce_codec e) (ce_files e) path of
               Inr n \<Rightarrow> finish (println (show_nat n @ '' record(s) checked, chain intact'') s)
             | Inl Slice_panic \<Rightarrow> (Inr 101, s)
             | Inl err \<Rightarrow> (Inl (says err), s)))"

subsection \<open>Administration\<close>

definition ctl_grant :: "ctl_env \<Rightarrow> string list \<Rightarrow> bool \<Rightarrow> ctl_run" where
  "ctl_grant e args yes s =
     (case args of
        [who, capability] \<Rightarrow>
          sbind (ctl_call e ''SetGrant'' want_unit (Set_Grant who capability yes) s) (\<lambda>_ s.
            finish (println ((if yes then ''granted '' else ''denied '') @ capability @ '' for '' @ who) s))
      | _ \<Rightarrow> (Inl ''usage: aidctl grant|deny IDENTITY CAPABILITY'', s))"

definition ctl_revoke :: "ctl_env \<Rightarrow> string list \<Rightarrow> ctl_run" where
  "ctl_revoke e args s =
     (case args of
        [] \<Rightarrow> (Inl ''usage: aidctl revoke IDENTITY'', s)
      | who # _ \<Rightarrow>
          sbind (ctl_call e ''Revoke'' want_num (Revoke who) s) (\<lambda>n s.
            finish (println (''revoked '' @ show_nat n @ '' grant(s) for '' @ who) s)))"

record install_args =
  ia_source :: string
  ia_digest :: string
  ia_name :: string
  ia_options :: options

definition arg_of :: "string list \<Rightarrow> string" where
  "arg_of xs = (case xs of [] \<Rightarrow> [] | y # _ \<Rightarrow> y)"

definition number_of :: "(string \<Rightarrow> nat option) \<Rightarrow> string list \<Rightarrow> nat option" where
  "number_of read_it xs = (case xs of [] \<Rightarrow> None | y # _ \<Rightarrow> read_it y)"

definition more_capabilities :: "string \<Rightarrow> options \<Rightarrow> options" where
  "more_capabilities v os = AList.update ''capabilities'' (VStrs (unwrap_or (opt as_strs ''capabilities'' os) [] @ [v])) os"

function read_install_args :: "string list \<Rightarrow> install_args \<Rightarrow> install_args parsed" where
  "read_install_args [] a = Parsed a"
| "read_install_args (x # xs) a =
     (if x = ''--source'' then read_install_args (tl xs) (a\<lparr> ia_source := arg_of xs \<rparr>)
      else if x = ''--digest'' then read_install_args (tl xs) (a\<lparr> ia_digest := arg_of xs \<rparr>)
      else if x = ''--name'' then read_install_args (tl xs) (a\<lparr> ia_name := arg_of xs \<rparr>)
      else if x = ''--context'' \<or> x = ''--max-context'' then
        read_install_args (tl xs) (a\<lparr> ia_options := AList.update ''max_ctx'' (VU32 (unwrap_or (number_of parse_u32 xs) 0)) (ia_options a) \<rparr>)
      else if x = ''--format'' \<or> x = ''--backend'' \<or> x = ''--license'' then
        read_install_args (tl xs) (a\<lparr> ia_options := AList.update (drop 2 x) (VStr (arg_of xs)) (ia_options a) \<rparr>)
      else if x = ''--capability'' then read_install_args (tl xs) (a\<lparr> ia_options := more_capabilities (arg_of xs) (ia_options a) \<rparr>)
      else if x = ''--help'' then Help
      else Bad (''unknown option '' @ x))"
  by pat_completeness auto
termination
  by (relation "measure (length \<circ> fst)") auto

definition ctl_install :: "ctl_env \<Rightarrow> string list \<Rightarrow> ctl_run" where
  "ctl_install e args s =
     (case read_install_args args \<lparr> ia_source = [], ia_digest = [], ia_name = [], ia_options = [] \<rparr> of
        Help \<Rightarrow> finish (println ''usage: aidctl install --name NAME --source URL --digest sha256:HEX'' s)
      | Bad err \<Rightarrow> (Inl err, s)
      | Parsed a \<Rightarrow>
          let remote = starts_with ''remote:'' (ia_source a)
          in if remote \<and> ia_digest a \<noteq> [] then (Inl ''a remote: source takes no --digest; nothing is downloaded to verify'', s)
             else if ia_source a = [] \<or> ia_name a = [] \<or> (ia_digest a = [] \<and> \<not> remote)
             then (Inl ''--name, --source and --digest are all required'', s)
             else
               sbind (ctl_call e ''InstallModel'' want_str (Install_Model (ia_source a) (ia_digest a) (ia_name a) (ia_options a)) s)
                 (\<lambda>name s. finish (println (''installed '' @ name) s)))"

definition ctl_remove :: "ctl_env \<Rightarrow> string list \<Rightarrow> ctl_run" where
  "ctl_remove e args s =
     (case args of
        [] \<Rightarrow> (Inl ''usage: aidctl remove NAME'', s)
      | name # _ \<Rightarrow> sbind (ctl_call e ''RemoveModel'' want_unit (Remove_Model name) s) (\<lambda>_ s. finish (println (''removed '' @ name) s)))"

definition ctl_set_alias :: "ctl_env \<Rightarrow> string list \<Rightarrow> ctl_run" where
  "ctl_set_alias e args s =
     (case args of
        [short, target] \<Rightarrow>
          sbind (ctl_call e ''SetAlias'' want_unit (Set_Alias short target) s) (\<lambda>_ s. finish (println (short @ '' -> '' @ target) s))
      | _ \<Rightarrow> (Inl ''usage: aidctl alias ALIAS MODEL'', s))"

definition ctl_pin :: "ctl_env \<Rightarrow> string list \<Rightarrow> bool \<Rightarrow> ctl_run" where
  "ctl_pin e args on s =
     (case args of
        [] \<Rightarrow> (Inl ''usage: aidctl pin|unpin MODEL'', s)
      | model # _ \<Rightarrow>
          sbind (ctl_call e ''PinModel'' want_unit (Pin_Model model on) s) (\<lambda>_ s.
            finish (println ((if on then ''pinned '' else ''unpinned '') @ model) s)))"

subsection \<open>Sessions\<close>

definition ctl_portal :: "ctl_env \<Rightarrow> string list \<Rightarrow> ctl_run" where
  "ctl_portal e args s =
     (if ''--help'' \<in> set args then finish (println ''usage: aidctl portal'' s)
      else
        (case ce_session_bus e of
           Some err \<Rightarrow> (Inl (''cannot reach the session bus: '' @ err), s)
         | None \<Rightarrow>
             (case ce_identify e of
                Inl err \<Rightarrow> (Inl (''Identify: '' @ err), s)
              | Inr (kind, app) \<Rightarrow>
                  finish (fold println [kind @ '' application '' @ app, ''the daemon will see this as identity portal:'' @ app] s))))"

definition open_session_by :: "ctl_env \<Rightarrow> string \<Rightarrow> options \<Rightarrow> bool \<Rightarrow> ctl \<Rightarrow> (string + string) \<times> ctl" where
  "open_session_by e model os via_portal s =
     (case ce_bus e of
        Some err \<Rightarrow> (Inl (''cannot reach the system bus: '' @ err), s)
      | None \<Rightarrow>
          if via_portal then
            (case ce_session_bus e of
               Some err \<Rightarrow> (Inl (''cannot reach the session bus: '' @ err), s)
             | None \<Rightarrow>
                 (case ce_portal e model os of
                    Inl err \<Rightarrow> (Inl (''portal CreateSession: '' @ err), ctl_do (Through_Portal model os) s)
                  | Inr path \<Rightarrow> (Inr path, ctl_do (Through_Portal model os) s)))
          else ctl_call e ''CreateSession'' want_str (Create_Session model os) s)"

definition ctl_close :: "string \<Rightarrow> ctl \<Rightarrow> ctl" where
  "ctl_close path = ctl_do (Closed path)"

definition dup :: "ctl_env \<Rightarrow> ctl \<Rightarrow> (string + unit) \<times> ctl" where
  "dup e s = (case ce_dup e of Some err \<Rightarrow> (Inl err, s) | None \<Rightarrow> (Inr (), s))"

definition ctl_send :: "string \<Rightarrow> wire \<Rightarrow> ctl \<Rightarrow> (string + unit) \<times> ctl" where
  "ctl_send why w s =
     (case ct_room s of
        Some 0 \<Rightarrow> (Inl why, s)
      | Some (Suc n) \<Rightarrow> (Inr (), (ctl_do (Sent w) s)\<lparr> ct_room := Some n \<rparr>)
      | None \<Rightarrow> (Inr (), ctl_do (Sent w) s))"

text \<open>Reading a frame; the thread that was started to cancel may write before it.\<close>

definition wake :: "ctl \<Rightarrow> ctl" where
  "wake s =
     (case ct_due s of
        None \<Rightarrow> s
      | Some 0 \<Rightarrow> (snd (ctl_send [] (W_Req Cancel) s))\<lparr> ct_due := None \<rparr>
      | Some (Suc n) \<Rightarrow> s\<lparr> ct_due := Some n \<rparr>)"

definition ctl_frame :: "ctl \<Rightarrow> frame_in option \<times> ctl" where
  "ctl_frame s =
     (let s1 = wake s in case ct_feed s1 of [] \<Rightarrow> (None, s1) | x # xs \<Rightarrow> (Some x, s1\<lparr> ct_feed := xs \<rparr>))"

definition ctl_read_event :: "ctl \<Rightarrow> (string + event option) \<times> ctl" where
  "ctl_read_event s =
     (case ctl_frame s of
        (None, s1) \<Rightarrow> (Inr None, s1)
      | (Some (In_Blob _), s1) \<Rightarrow> (Inl ''the daemon sent a BLOB where an event was expected'', s1)
      | (Some (In_Event ev), s1) \<Rightarrow> (Inr (Some ev), s1)
      | (Some In_Odd, s1) \<Rightarrow> (Inl ''unrecognised event from the daemon'', s1)
      | (Some (In_Error err), s1) \<Rightarrow> (Inl (''reading from the session socket: '' @ err), s1))"

lemma ctl_feed_simps [simp]:
  "ct_feed (ctl_do a s) = ct_feed s" "ct_feed (println l s) = ct_feed s" "ct_feed (eprintln l s) = ct_feed s"
  "ct_feed (snd (ctl_send why w s)) = ct_feed s" "ct_feed (wake s) = ct_feed s" "ct_feed (ctl_close p s) = ct_feed s"
  by (simp_all add: ctl_do_def println_def eprintln_def ctl_send_def wake_def ctl_close_def split: option.split nat.split)

lemma ctl_frame_shrinks: "ctl_frame s = (Some x, s1) \<Longrightarrow> ct_feed s = x # ct_feed s1"
  by (auto simp: ctl_frame_def Let_def split: list.splits)

function ctl_read_blob :: "nat \<Rightarrow> byte list \<Rightarrow> ctl \<Rightarrow> (string + byte list) \<times> ctl" where
  "ctl_read_blob len got s =
     (if length got < len then
        (case ctl_frame s of
           (Some (In_Blob chunk), s1) \<Rightarrow> ctl_read_blob len (got @ chunk) s1
         | (Some (In_Event _), s1) \<Rightarrow> (Inl ''a request frame interrupted the payload'', s1)
         | (Some In_Odd, s1) \<Rightarrow> (Inl ''a request frame interrupted the payload'', s1)
         | (Some (In_Error err), s1) \<Rightarrow> (Inl (''payload: '' @ err), s1)
         | (None, s1) \<Rightarrow> (Inl ''the payload ended early'', s1))
      else (Inr got, s))"
  by pat_completeness auto
termination
  by (relation "measure (\<lambda>(len, got, s). length (ct_feed s))") (auto dest!: sym [of "(_, _)"] ctl_frame_shrinks)

declare ctl_read_blob.simps [simp del]

record gen_args =
  ga_model :: string
  ga_prompt :: string
  ga_system :: string
  ga_priority :: string
  ga_max_tokens :: nat
  ga_tool :: "string option"
  ga_image :: "string option"
  ga_raw :: "string option"
  ga_usage :: bool
  ga_cancel :: "nat option"
  ga_logprobs :: "nat option"
  ga_proto :: nat
  ga_portal :: bool
  ga_no_tools :: bool
  ga_rate :: "nat option"
  ga_models :: "string list option"

definition default_gen_args :: gen_args where
  "default_gen_args =
     \<lparr> ga_model = ''default'', ga_prompt = [], ga_system = [], ga_priority = ''interactive'', ga_max_tokens = 64, ga_tool = None,
       ga_image = None, ga_raw = None, ga_usage = False, ga_cancel = None, ga_logprobs = None, ga_proto = DATA_PROTO,
       ga_portal = False, ga_no_tools = False, ga_rate = None, ga_models = None \<rparr>"

definition ctl_next :: "string list \<Rightarrow> string option" where
  "ctl_next xs = (case xs of [] \<Rightarrow> None | y # _ \<Rightarrow> Some y)"

function read_gen_args :: "string list \<Rightarrow> gen_args \<Rightarrow> gen_args parsed" where
  "read_gen_args [] a = Parsed a"
| "read_gen_args (x # xs) a =
     (if x = ''-m'' \<or> x = ''--model'' then read_gen_args (tl xs) (a\<lparr> ga_model := arg_of xs \<rparr>)
      else if x = ''-s'' \<or> x = ''--system'' then read_gen_args (tl xs) (a\<lparr> ga_system := arg_of xs \<rparr>)
      else if x = ''--priority'' then read_gen_args (tl xs) (a\<lparr> ga_priority := arg_of xs \<rparr>)
      else if x = ''--max-tokens'' then read_gen_args (tl xs) (a\<lparr> ga_max_tokens := unwrap_or (number_of parse_u32 xs) (ga_max_tokens a) \<rparr>)
      else if x = ''--tool'' then read_gen_args (tl xs) (a\<lparr> ga_tool := ctl_next xs \<rparr>)
      else if x = ''--image'' then read_gen_args (tl xs) (a\<lparr> ga_image := ctl_next xs \<rparr>)
      else if x = ''--image-raw'' then read_gen_args (tl xs) (a\<lparr> ga_raw := ctl_next xs \<rparr>)
      else if x = ''--usage'' then read_gen_args xs (a\<lparr> ga_usage := True \<rparr>)
      else if x = ''--logprobs'' then read_gen_args (tl xs) (a\<lparr> ga_logprobs := number_of parse_u32 xs \<rparr>)
      else if x = ''--proto'' then read_gen_args (tl xs) (a\<lparr> ga_proto := unwrap_or (number_of parse_u32 xs) DATA_PROTO \<rparr>)
      else if x = ''--cancel-after'' then read_gen_args (tl xs) (a\<lparr> ga_cancel := number_of parse_u64 xs \<rparr>)
      else if x = ''--via-portal'' then read_gen_args xs (a\<lparr> ga_portal := True \<rparr>)
      else if x = ''--no-tools'' then read_gen_args xs (a\<lparr> ga_no_tools := True \<rparr>)
      else if x = ''--narrow-rate'' then read_gen_args (tl xs) (a\<lparr> ga_rate := number_of parse_u64 xs \<rparr>)
      else if x = ''--narrow-models'' then
        read_gen_args (tl xs) (a\<lparr> ga_models := map_option (\<lambda>v. map trim (split_on (CHR '','') v)) (ctl_next xs) \<rparr>)
      else if x = ''--help'' then Help
      else if starts_with ''-'' x then Bad (''unknown option '' @ x)
      else read_gen_args xs (a\<lparr> ga_prompt := x \<rparr>))"
  by pat_completeness auto
termination
  by (relation "measure (length \<circ> fst)") auto

text \<open>The options of the session: the class, and what the session is to be narrowed to.\<close>

definition gen_options :: "gen_args \<Rightarrow> options" where
  "gen_options a =
     [(''priority'', VStr (ga_priority a))]
     @ (if ga_no_tools a then [(''no_tools'', VBool True)] else [])
     @ (case ga_rate a of Some n \<Rightarrow> [(''max_tokens_per_minute'', VU64 n)] | None \<Rightarrow> [])
     @ (case ga_models a of Some ms \<Rightarrow> [(''allowed_models'', VStrs ms)] | None \<Rightarrow> [])"

definition CANNED :: string where
  "CANNED = ''{'' @ in_quotes ''ok'' @ '':true,'' @ in_quotes ''note'' @ '':'' @ in_quotes ''canned result from aidctl'' @ ''}''"

definition media_name :: "media_out \<Rightarrow> string" where
  "media_name m = mo_id m @ (case mo_kind m of Media_Image \<Rightarrow> ''.rgba'' | Media_Audio \<Rightarrow> ''.f32'')"

definition media_line :: "media_out \<Rightarrow> nat \<Rightarrow> string" where
  "media_line m n =
     (case mo_kind m of
        Media_Image \<Rightarrow>
          ''image '' @ show_nat (unwrap_or (mo_w m) 0) @ ''x'' @ show_nat (unwrap_or (mo_h m) 0) @ '' '' @ unwrap_or (mo_fmt m) ''rgba8''
          @ '' -> '' @ media_name m @ '' ('' @ show_nat n @ '' bytes)''
      | Media_Audio \<Rightarrow>
          ''audio '' @ show_nat (n div 4) @ '' samples at '' @ show_nat (unwrap_or (mo_rate m) 0) @ '' Hz -> '' @ media_name m)"

text \<open>Receiving media: the payload, and a file of it.\<close>

definition take_media :: "ctl_env \<Rightarrow> media_out \<Rightarrow> ctl \<Rightarrow> (string + nat) \<times> ctl" where
  "take_media e m s =
     sbind (ctl_read_blob (mo_len m) [] s) (\<lambda>bytes s.
       case ce_write e (media_name m) of
         Some err \<Rightarrow> (Inl (media_name m @ '': '' @ err), s)
       | None \<Rightarrow> (Inr (length bytes), ctl_do (Wrote (media_name m) bytes) s))"

text \<open>What a command does with an event: go on, or stop with an exit status.\<close>

definition call_line :: "tool_call \<Rightarrow> string" where
  "call_line c = tc_id c @ '' '' @ tc_name c @ ''('' @ tc_arguments c @ '')''"

definition on_generate :: "ctl_env \<Rightarrow> bool \<Rightarrow> event \<Rightarrow> ctl \<Rightarrow> (string + nat option) \<times> ctl" where
  "on_generate e show_usage ev s =
     (case ev of
        Ev_Token tok probs \<Rightarrow>
          (Inr None,
           (case probs of
              None \<Rightarrow> ctl_do (Out tok) s
            | Some ps \<Rightarrow> ctl_do (Out (''['' @ join '' '' (map (\<lambda>p. trim (tp_tok p) @ ''='' @ ce_f32 e 2 (tp_logprob p)) ps) @ '']'')) (ctl_do (Out tok) s)))
      | Ev_ToolCall c \<Rightarrow>
          sbind (ctl_send ''tool_result'' (W_Req (ToolResult (tc_id c) CANNED))
                  (fold println [CHR 0x0A # ''[tool_call '' @ call_line c @ '']'',
                                 ''[aidctl does not execute tools; replying with a canned result]''] s))
            (\<lambda>_ s. (Inr None, s))
      | Ev_ToolCalls cs \<Rightarrow>
          sbind (ctl_send ''tool_results'' (W_Req (ToolResults (map (\<lambda>c. \<lparr> tr_id = tc_id c, tr_content = CANNED \<rparr>) cs)))
                  (fold println ((CHR 0x0A # ''[tool_calls '' @ show_nat (length cs) @ '']'') # map (\<lambda>c. ''  '' @ call_line c) cs
                                 @ [''[aidctl does not execute tools; replying with canned results]'']) s))
            (\<lambda>_ s. (Inr None, s))
      | Ev_Media m \<Rightarrow> sbind (take_media e m s) (\<lambda>n s. (Inr None, println (''[media '' @ mo_id m @ '' '' @ media_line m n @ '']'') s))
      | Ev_Notice what detail \<Rightarrow> (Inr None, eprintln (CHR 0x0A # ''['' @ what @ ''] '' @ detail) s)
      | Ev_Done _ u why \<Rightarrow>
          if why = Some ''tool_call'' then (Inr None, s)
          else
            (Inr (Some 0),
             (if show_usage
              then eprintln (''usage: prompt='' @ show_nat (prompt_tokens u) @ '' completion='' @ show_nat (completion_tokens u)
                     @ '' attachment='' @ show_nat (attachment_tokens u) @ '' finish='' @ unwrap_or why ''-'') (println [] s)
              else println [] s))
      | Ev_Error b \<Rightarrow> (Inr (Some 1), eprintln (CHR 0x0A # ''['' @ err_code b @ ''] '' @ err_message b) s)
      | _ \<Rightarrow> (Inr None, eprintln ''[unexpected event]'' s))"

definition on_media :: "ctl_env \<Rightarrow> event \<Rightarrow> ctl \<Rightarrow> (string + nat option) \<times> ctl" where
  "on_media e ev s =
     (case ev of
        Ev_Media m \<Rightarrow> sbind (take_media e m s) (\<lambda>n s. (Inr None, println (media_line m n) s))
      | Ev_Done _ u _ \<Rightarrow> (Inr (Some 0), println (''usage: media_bytes='' @ show_nat (media_bytes u)) s)
      | Ev_Error b \<Rightarrow> (Inr (Some 1), eprintln (''['' @ err_code b @ ''] '' @ err_message b) s)
      | _ \<Rightarrow> (Inr None, s))"

definition one_shot_error :: "string \<Rightarrow> error_body \<Rightarrow> ctl \<Rightarrow> (string + nat option) \<times> ctl" where
  "one_shot_error path b s = (Inl (err_code b @ '': '' @ err_message b), ctl_close path s)"

definition on_embed :: "ctl_env \<Rightarrow> string \<Rightarrow> event \<Rightarrow> ctl \<Rightarrow> (string + nat option) \<times> ctl" where
  "on_embed e path ev s =
     (case ev of
        Ev_Vectors vs \<Rightarrow>
          (Inr None, fold println (map (\<lambda>v. ''['' @ join '', '' (map (ce_f32 e 4) (take 8 v)) @ ''] dim='' @ show_nat (length v)) vs) s)
      | Ev_Done _ _ _ \<Rightarrow> (Inr (Some 0), s)
      | Ev_Error b \<Rightarrow> one_shot_error path b s
      | _ \<Rightarrow> (Inr None, s))"

definition on_tokenize :: "string \<Rightarrow> event \<Rightarrow> ctl \<Rightarrow> (string + nat option) \<times> ctl" where
  "on_tokenize path ev s =
     (case ev of
        Ev_Tokens ts \<Rightarrow> (Inr None, println (''['' @ join '', '' (map show_nat ts) @ '']'') s)
      | Ev_Done _ _ _ \<Rightarrow> (Inr (Some 0), s)
      | Ev_Error b \<Rightarrow> one_shot_error path b s
      | _ \<Rightarrow> (Inr None, s))"

datatype ctl_mode = Generating bool | Making_Media | Embedding string | Tokenizing string

fun on_event :: "ctl_env \<Rightarrow> ctl_mode \<Rightarrow> event \<Rightarrow> ctl \<Rightarrow> (string + nat option) \<times> ctl" where
  "on_event e (Generating show_usage) ev = on_generate e show_usage ev"
| "on_event e Making_Media ev = on_media e ev"
| "on_event e (Embedding path) ev = on_embed e path ev"
| "on_event e (Tokenizing path) ev = on_tokenize path ev"

lemma fold_println_feed [simp]: "ct_feed (fold println ls s) = ct_feed s"
  by (induction ls arbitrary: s) simp_all

lemma read_event_shrinks: "ctl_read_event s = (Inr (Some ev), s1) \<Longrightarrow> ct_feed s = In_Event ev # ct_feed s1"
  by (auto simp: ctl_read_event_def dest: ctl_frame_shrinks split: prod.splits option.splits frame_in.splits)

lemma ctl_frame_le: "ctl_frame s = (r, s1) \<Longrightarrow> length (ct_feed s1) \<le> length (ct_feed s)"
  by (auto simp: ctl_frame_def Let_def split: list.splits)

lemma read_blob_shrinks: "length (ct_feed (snd (ctl_read_blob len got s))) \<le> length (ct_feed s)"
proof (induction len got s rule: ctl_read_blob.induct)
  case (1 len got s)
  show ?case
  proof (cases "length got < len")
    case True
    obtain r s1 where r: "ctl_frame s = (r, s1)"
      by (rule prod.exhaust)
    note less = ctl_frame_le [OF r]
    show ?thesis
    proof (cases "\<exists>chunk. r = Some (In_Blob chunk)")
      case blob: True
      then obtain chunk where b: "r = Some (In_Blob chunk)"
        by blast
      have "length (ct_feed (snd (ctl_read_blob len (got @ chunk) s1))) \<le> length (ct_feed s1)"
        by (rule 1 [OF True r [symmetric] b refl])
      with less show ?thesis
        using True by (simp add: ctl_read_blob.simps [of len got s] r b)
    next
      case False
      then have "snd (ctl_read_blob len got s) = s1"
        using True by (auto simp: ctl_read_blob.simps [of len got s] r split: option.split frame_in.split)
      with less show ?thesis
        by simp
    qed
  qed (simp add: ctl_read_blob.simps [of len got s])
qed

lemma take_media_shrinks: "take_media e m s = (r, s1) \<Longrightarrow> length (ct_feed s1) \<le> length (ct_feed s)"
  using read_blob_shrinks [of "mo_len m" "[]" s]
  by (auto simp: take_media_def sbind_def split: prod.splits sum.splits option.splits)

lemma ctl_send_feed: "ctl_send why w s = (r, s1) \<Longrightarrow> ct_feed s1 = ct_feed s"
  using ctl_feed_simps(4) [of why w s] by simp

lemma on_event_shrinks: "length (ct_feed (snd (on_event e mode ev s))) \<le> length (ct_feed s)"
proof (cases mode)
  case (Generating b)
  show ?thesis
    by (cases ev) (auto simp: Generating on_generate_def sbind_def dest!: ctl_send_feed take_media_shrinks split: prod.splits sum.splits option.splits)
next
  case Making_Media
  show ?thesis
    by (cases ev) (auto simp: Making_Media on_media_def sbind_def dest!: take_media_shrinks split: prod.splits sum.splits)
qed (auto simp: on_embed_def on_tokenize_def one_shot_error_def split: event.split)

lemma ctl_loop_measure:
  assumes "ctl_read_event s = (Inr (Some ev), s1)" "on_event e mode ev s1 = (r, s2)"
  shows "length (ct_feed s2) < length (ct_feed s)"
  using read_event_shrinks [OF assms(1)] on_event_shrinks [of e mode ev s1] assms(2) by simp

function ctl_loop :: "ctl_env \<Rightarrow> ctl_mode \<Rightarrow> ctl \<Rightarrow> (string + nat) \<times> ctl" where
  "ctl_loop e mode s =
     (case ctl_read_event s of
        (Inl err, s1) \<Rightarrow> (Inl err, s1)
      | (Inr None, s1) \<Rightarrow> (Inr 0, s1)
      | (Inr (Some ev), s1) \<Rightarrow>
          (case on_event e mode ev s1 of
             (Inl err, s2) \<Rightarrow> (Inl err, s2)
           | (Inr (Some n), s2) \<Rightarrow> (Inr n, s2)
           | (Inr None, s2) \<Rightarrow> ctl_loop e mode s2))"
  by pat_completeness auto
termination
  by (relation "measure (\<lambda>(e, mode, s). length (ct_feed s))") (auto dest!: sym [of "(_, _)"] intro: ctl_loop_measure)

declare ctl_loop.simps [simp del]

text \<open>The prompt, the images that go before it, and the messages.\<close>

definition gen_prompt :: "ctl_env \<Rightarrow> gen_args \<Rightarrow> string + string" where
  "gen_prompt e a =
     (if ga_prompt a \<noteq> [] then Inr (ga_prompt a)
      else if ce_terminal e then Inl ''give a prompt as an argument or on stdin''
      else (case ce_stdin e of Inl err \<Rightarrow> Inl (''reading stdin: '' @ err) | Inr t \<Rightarrow> Inr t))"

definition attach_bytes :: "string \<Rightarrow> attach_meta \<Rightarrow> byte list \<Rightarrow> ctl \<Rightarrow> (string + string list) \<times> ctl" where
  "attach_bytes name meta bytes s =
     sbind (ctl_send ''attach'' (W_Req (Attach name Attach_Image meta (length bytes))) s) (\<lambda>_ s.
       sbind (ctl_send ''attach blob'' (W_Blob bytes) s) (\<lambda>_ s. (Inr [name], s)))"

definition attach_image :: "ctl_env \<Rightarrow> gen_args \<Rightarrow> ctl \<Rightarrow> (string + string list) \<times> ctl" where
  "attach_image e a s =
     (case ga_image a of
        None \<Rightarrow> (Inr [], s)
      | Some path \<Rightarrow>
          (case ce_read e path of
             Inl err \<Rightarrow> (Inl (path @ '': '' @ err), s)
           | Inr bytes \<Rightarrow> attach_bytes ''img1'' (image_meta ''image/png'') bytes s))"

definition attach_raw :: "ctl_env \<Rightarrow> gen_args \<Rightarrow> ctl \<Rightarrow> (string + string list) \<times> ctl" where
  "attach_raw e a s =
     (case ga_raw a of
        None \<Rightarrow> (Inr [], s)
      | Some spec \<Rightarrow>
          (case split_once '':'' spec of
             None \<Rightarrow> (Inl ''--image-raw takes WIDTHxHEIGHT:PATH'', s)
           | Some (dimensions, path) \<Rightarrow>
               (case split_once ''x'' dimensions of
                  None \<Rightarrow> (Inl ''--image-raw takes WIDTHxHEIGHT:PATH'', s)
                | Some (width, height) \<Rightarrow>
                    (case ce_read e path of
                       Inl err \<Rightarrow> (Inl (path @ '': '' @ err), s)
                     | Inr bytes \<Rightarrow>
                         (case (parse_u32 width, parse_u32 height) of
                            (None, _) \<Rightarrow> (Inl ''width'', s)
                          | (_, None) \<Rightarrow> (Inl ''height'', s)
                          | (Some w, Some h) \<Rightarrow>
                              attach_bytes ''raw1'' \<lparr> am_w = Some w, am_h = Some h, am_fmt = Some ''rgba8'', am_rate = None, am_encoded = None \<rparr>
                                bytes s)))))"

definition gen_messages :: "gen_args \<Rightarrow> string \<Rightarrow> string list \<Rightarrow> message list" where
  "gen_messages a prompt nms =
     (if ga_system a = [] then []
      else [\<lparr> msg_role = ''system'', msg_content = ga_system a, msg_attachments = [], msg_tool_call_id = None \<rparr>])
     @ [\<lparr> msg_role = ''user'', msg_content = prompt, msg_attachments = nms, msg_tool_call_id = None \<rparr>]"

definition gen_request :: "gen_args \<Rightarrow> string \<Rightarrow> string list \<Rightarrow> tool_schema list option \<Rightarrow> request" where
  "gen_request a prompt nms tools =
     Generate (gen_messages a prompt nms) True
       (Some (default_params\<lparr> max_tokens := Some (ga_max_tokens a), logprobs := ga_logprobs a \<rparr>)) None tools"

definition ctl_greet :: "event option \<Rightarrow> ctl \<Rightarrow> ctl" where
  "ctl_greet ev s =
     (case ev of
        Some (Ev_Hello _ _ i) \<Rightarrow>
          fold eprintln
            [''session '' @ si_session i @ '' on '' @ si_model i @ '' (identity '' @ si_identity i @ '', local=''
             @ (if si_local i then ''true'' else ''false'') @ '', context '' @ show_nat (si_max_context i) @ '')'',
             ''capabilities: '' @ join '', '' (si_capabilities i)] s
      | _ \<Rightarrow> s)"

definition gen_tools :: "ctl_env \<Rightarrow> gen_args \<Rightarrow> string + tool_schema list option" where
  "gen_tools e a =
     (case ga_tool a of
        None \<Rightarrow> Inr None
      | Some path \<Rightarrow> (case ce_tools e path of Inl err \<Rightarrow> Inl (path @ '': '' @ err) | Inr ts \<Rightarrow> Inr (Some ts)))"

text \<open>The thread that will cancel is started after the request was sent.\<close>

definition start_cancel :: "ctl_env \<Rightarrow> gen_args \<Rightarrow> ctl \<Rightarrow> (string + unit) \<times> ctl" where
  "start_cancel e a s =
     (case ga_cancel a of
        None \<Rightarrow> (Inr (), s)
      | Some _ \<Rightarrow> sbind (dup e s) (\<lambda>_ s. (Inr (), s\<lparr> ct_due := Some (ce_wakes e) \<rparr>)))"

definition ctl_ended :: "string \<Rightarrow> (string + nat) \<times> ctl \<Rightarrow> (string + nat) \<times> ctl" where
  "ctl_ended path r = sbind r (\<lambda>n s. (Inr n, ctl_close path s))"

definition ctl_turn :: "ctl_env \<Rightarrow> gen_args \<Rightarrow> string \<Rightarrow> ctl \<Rightarrow> (string + nat) \<times> ctl" where
  "ctl_turn e a prompt s =
     sbind (ctl_send ''hello'' (W_Req (Hello (ga_proto a))) s) (\<lambda>_ s.
     sbind (ctl_read_event s) (\<lambda>ev s.
     sbind (attach_image e a (ctl_greet ev s)) (\<lambda>ns s.
     sbind (attach_raw e a s) (\<lambda>ms s.
     sbind (gen_tools e a, s) (\<lambda>tools s.
     sbind (ctl_send ''generate'' (W_Req (gen_request a prompt (ns @ ms) tools)) s) (\<lambda>_ s.
     sbind (start_cancel e a s) (\<lambda>_ s. ctl_loop e (Generating (ga_usage a)) s)))))))"

definition ctl_generate :: "ctl_env \<Rightarrow> string list \<Rightarrow> ctl_run" where
  "ctl_generate e args s =
     (case read_gen_args args default_gen_args of
        Help \<Rightarrow> finish (println ''usage: aidctl generate [options] [PROMPT]'' s)
      | Bad err \<Rightarrow> (Inl err, s)
      | Parsed a \<Rightarrow>
          sbind (gen_prompt e a, s) (\<lambda>prompt s.
            sbind (open_session_by e (ga_model a) (gen_options a) (ga_portal a) s) (\<lambda>path s.
              sbind (dup e s) (\<lambda>_ s. ctl_ended path (ctl_turn e a prompt s)))))"

record media_args =
  ma_model :: string
  ma_kind :: media_kind
  ma_prompt :: string
  ma_count :: nat
  ma_proto :: nat

function read_media_args :: "string list \<Rightarrow> media_args \<Rightarrow> media_args parsed" where
  "read_media_args [] a = Parsed a"
| "read_media_args (x # xs) a =
     (if x = ''-m'' \<or> x = ''--model'' then read_media_args (tl xs) (a\<lparr> ma_model := arg_of xs \<rparr>)
      else if x = ''--audio'' then read_media_args xs (a\<lparr> ma_kind := Media_Audio \<rparr>)
      else if x = ''--image'' then read_media_args xs (a\<lparr> ma_kind := Media_Image \<rparr>)
      else if x = ''--count'' then read_media_args (tl xs) (a\<lparr> ma_count := unwrap_or (number_of parse_u32 xs) 1 \<rparr>)
      else if x = ''--proto'' then read_media_args (tl xs) (a\<lparr> ma_proto := unwrap_or (number_of parse_u32 xs) DATA_PROTO \<rparr>)
      else if x = ''--help'' then Help
      else if starts_with ''-'' x then Bad (''unknown option '' @ x)
      else read_media_args xs (a\<lparr> ma_prompt := x \<rparr>))"
  by pat_completeness auto
termination
  by (relation "measure (length \<circ> fst)") auto

text \<open>Here the answer to the greeting is dropped whatever it is, an error in reading it too.\<close>

definition ctl_generate_media :: "ctl_env \<Rightarrow> string list \<Rightarrow> ctl_run" where
  "ctl_generate_media e args s =
     (case read_media_args args \<lparr> ma_model = ''default'', ma_kind = Media_Image, ma_prompt = [], ma_count = 1, ma_proto = DATA_PROTO \<rparr> of
        Help \<Rightarrow> finish (println ''usage: aidctl generate-media [--image|--audio] [-m MODEL] [--count N] PROMPT'' s)
      | Bad err \<Rightarrow> (Inl err, s)
      | Parsed a \<Rightarrow>
          if ma_prompt a = [] then (Inl ''give a prompt'', s)
          else
            sbind (open_session_by e (ma_model a) [] False s) (\<lambda>path s.
              sbind (dup e s) (\<lambda>_ s.
                ctl_ended path
                  (sbind (ctl_send ''hello'' (W_Req (Hello (ma_proto a))) s) (\<lambda>_ s.
                     sbind (ctl_send ''generate_media'' (W_Req (GenerateMedia (ma_kind a) (ma_prompt a) None (ma_count a))) (snd (ctl_read_event s)))
                       (\<lambda>_ s. ctl_loop e Making_Media s))))))"

function read_embed_args :: "string list \<Rightarrow> string \<times> string list \<Rightarrow> (string \<times> string list) parsed" where
  "read_embed_args [] acc = Parsed acc"
| "read_embed_args (x # xs) acc =
     (if x = ''-m'' \<or> x = ''--model'' then read_embed_args (tl xs) (arg_of xs, snd acc)
      else if x = ''--help'' then Help
      else read_embed_args xs (fst acc, snd acc @ [x]))"
  by pat_completeness auto
termination
  by (relation "measure (length \<circ> fst)") auto

definition ctl_embed :: "ctl_env \<Rightarrow> string list \<Rightarrow> ctl_run" where
  "ctl_embed e args s =
     (case read_embed_args args (''embed'', []) of
        Help \<Rightarrow> finish (println ''usage: aidctl embed [-m MODEL] TEXT [TEXT...]'' s)
      | Bad err \<Rightarrow> (Inl err, s)
      | Parsed (model, inputs) \<Rightarrow>
          if inputs = [] then (Inl ''give at least one string to embed'', s)
          else
            sbind (open_session_by e model [] False s) (\<lambda>path s.
              sbind (dup e s) (\<lambda>_ s.
                ctl_ended path (sbind (ctl_send ''embed'' (W_Req (Embed inputs)) s) (\<lambda>_ s. ctl_loop e (Embedding path) s)))))"

function read_tokenize_args :: "string list \<Rightarrow> string \<times> string \<Rightarrow> string \<times> string" where
  "read_tokenize_args [] acc = acc"
| "read_tokenize_args (x # xs) acc =
     (if x = ''-m'' \<or> x = ''--model'' then read_tokenize_args (tl xs) (arg_of xs, snd acc)
      else read_tokenize_args xs (fst acc, x))"
  by pat_completeness auto
termination
  by (relation "measure (length \<circ> fst)") auto

definition ctl_tokenize :: "ctl_env \<Rightarrow> string list \<Rightarrow> ctl_run" where
  "ctl_tokenize e args s =
     (case read_tokenize_args args (''default'', []) of
        (model, words) \<Rightarrow>
          if words = [] then (Inl ''usage: aidctl tokenize [-m MODEL] TEXT'', s)
          else
            sbind (open_session_by e model [] False s) (\<lambda>path s.
              sbind (dup e s) (\<lambda>_ s.
                ctl_ended path (sbind (ctl_send ''tokenize'' (W_Req (Tokenize words)) s) (\<lambda>_ s. ctl_loop e (Tokenizing path) s)))))"

subsection \<open>The program\<close>

definition ctl_command :: "ctl_env \<Rightarrow> (chain_error \<Rightarrow> string) \<Rightarrow> string \<Rightarrow> string list \<Rightarrow> ctl_run" where
  "ctl_command e says command rest s =
     (if command = ''help'' \<or> command = ''--help'' \<or> command = ''-h'' then finish (println ''aidctl: administer and inspect ai-daemon'' s)
      else if command = ''--version'' \<or> command = ''-V'' \<or> command = ''version'' then finish (println ''aidctl 1.0.0'' s)
      else if command = ''status'' then ctl_status e s
      else if command = ''models'' then ctl_models e s
      else if command = ''aliases'' then ctl_aliases e s
      else if command = ''resolve'' then ctl_resolve e rest s
      else if command = ''sessions'' then ctl_sessions e s
      else if command = ''grants'' then ctl_grants e s
      else if command = ''grant'' then ctl_grant e rest True s
      else if command = ''deny'' then ctl_grant e rest False s
      else if command = ''revoke'' then ctl_revoke e rest s
      else if command = ''install'' then ctl_install e rest s
      else if command = ''portal'' then ctl_portal e rest s
      else if command = ''spend'' then ctl_spend e s
      else if command = ''meter'' then ctl_meter e rest s
      else if command = ''audit'' then ctl_audit e says rest s
      else if command = ''remove'' then ctl_remove e rest s
      else if command = ''alias'' then ctl_set_alias e rest s
      else if command = ''pin'' then ctl_pin e rest True s
      else if command = ''unpin'' then ctl_pin e rest False s
      else if command = ''generate'' then ctl_generate e rest s
      else if command = ''generate-media'' then ctl_generate_media e rest s
      else if command = ''embed'' then ctl_embed e rest s
      else if command = ''tokenize'' then ctl_tokenize e rest s
      else (Inl (''unknown command '' @ command @ ''; try `aidctl help`''), s))"

definition ctl_main :: "ctl_env \<Rightarrow> (chain_error \<Rightarrow> string) \<Rightarrow> string list \<Rightarrow> ctl \<Rightarrow> nat \<times> ctl" where
  "ctl_main e says args s =
     (case ctl_command e says (case args of [] \<Rightarrow> ''help'' | c # _ \<Rightarrow> c) (tl args) s of
        (Inr n, s1) \<Rightarrow> (n, s1)
      | (Inl err, s1) \<Rightarrow> (1, eprintln (''aidctl: '' @ err) s1))"

subsection \<open>One chain, two verifiers\<close>

lemma ctl_verify_lines:
  "rbind (rfold (ctl_verify_line lc) (enumerate n ls) (expected, k)) (\<lambda>(_, checked). Inr checked)
     = verify_lines lc (Suc n) expected k ls"
proof (induction ls arbitrary: n expected k)
  case Nil
  then show ?case
    by (simp add: rbind_def)
next
  case (Cons l ls)
  have prev: "jfield jstr ''prev'' v = carried v" for v
    by (cases v) (auto simp: jfield_def carried_def split: option.split json.split)
  show ?case
  proof (cases "trim l = []")
    case True
    then show ?thesis
      using Cons [of "Suc n"] by (simp add: ctl_verify_line_def rbind_def)
  next
    case False
    show ?thesis
    proof (cases "lc_of_json lc l")
      case None
      then show ?thesis
        using False by (simp add: ctl_verify_line_def rbind_def ok_or_def)
    next
      case (Some v)
      then show ?thesis
        using False Cons [of "Suc n" "Some (lc_sha256 lc l)" "k + 1"]
        by (auto simp: ctl_verify_line_def ctl_hash_line_def hash_line_def check_link_def prev rbind_def ok_or_def Let_def split: option.split)
    qed
  qed
qed

text \<open>
  C39. The two verifiers agree. The copy of the chain verifier in the command line tool gives, on every file, exactly the
  verdict of the daemon's own: the same count, or the same first break at the same line.
\<close>

theorem ctl_verifier_agrees: "ctl_audit_verify lc f path = verify lc f path"
  using ctl_verify_lines [of lc 0 _ None 0]
  by (simp add: ctl_audit_verify_def verify_def rbind_def ok_or_def split: option.split)

subsection \<open>A turn of the tool\<close>

text \<open>What went into the session apart from the cancel, which sessions were closed, and how many cancels were or may yet be sent.\<close>

definition ctl_said :: "ctl \<Rightarrow> wire list" where
  "ctl_said s = List.map_filter (\<lambda>a. case a of Sent w \<Rightarrow> (if w = W_Req Cancel then None else Some w) | _ \<Rightarrow> None) (ct_acts s)"

definition closed_paths :: "ctl \<Rightarrow> string list" where
  "closed_paths s = List.map_filter (\<lambda>a. case a of Closed p \<Rightarrow> Some p | _ \<Rightarrow> None) (ct_acts s)"

definition cancels :: "ctl \<Rightarrow> nat" where
  "cancels s = length (filter (\<lambda>a. a = Sent (W_Req Cancel)) (ct_acts s)) + (case ct_due s of None \<Rightarrow> 0 | Some _ \<Rightarrow> 1)"

definition events_in :: "frame_in list \<Rightarrow> event list" where
  "events_in fs = List.map_filter (\<lambda>x. case x of In_Event ev \<Rightarrow> Some ev | _ \<Rightarrow> None) fs"

fun shown_calls :: "event \<Rightarrow> tool_call list" where
  "shown_calls (Ev_ToolCall c) = [c]"
| "shown_calls (Ev_ToolCalls cs) = cs"
| "shown_calls _ = []"

fun results_of :: "wire \<Rightarrow> (string \<times> string) list" where
  "results_of (W_Req (ToolResult i r)) = [(i, r)]"
| "results_of (W_Req (ToolResults rs)) = map (\<lambda>r. (tr_id r, tr_content r)) rs"
| "results_of _ = []"

definition calls_answered :: "wire list \<Rightarrow> frame_in list \<Rightarrow> bool" where
  "calls_answered ws fs \<longleftrightarrow> concat (map results_of ws) = map (\<lambda>c. (tc_id c, CANNED)) (concat (map shown_calls (events_in fs)))"

text \<open>A step that says nothing and reads the frames \<open>fs\<close>.\<close>

definition hears :: "frame_in list \<Rightarrow> ctl \<Rightarrow> ctl \<Rightarrow> bool" where
  "hears fs s t \<longleftrightarrow> ct_feed s = fs @ ct_feed t \<and> ctl_said t = ctl_said s \<and> closed_paths t = closed_paths s \<and> cancels t \<le> cancels s"

lemma hears_refl [simp]: "hears [] s s"
  by (simp add: hears_def)

lemma hears_trans: "hears fs s t \<Longrightarrow> hears gs t u \<Longrightarrow> hears (fs @ gs) s u"
  by (simp add: hears_def)

declare map_filter_append [simp]

lemma said_act:
  "ctl_said (ctl_do a s) = ctl_said s @ (case a of Sent w \<Rightarrow> (if w = W_Req Cancel then [] else [w]) | _ \<Rightarrow> [])"
  "closed_paths (ctl_do a s) = closed_paths s @ (case a of Closed p \<Rightarrow> [p] | _ \<Rightarrow> [])"
  "cancels (ctl_do a s) = cancels s + (if a = Sent (W_Req Cancel) then 1 else 0)"
  by (auto simp: ctl_said_def closed_paths_def cancels_def ctl_do_def List.map_filter_def split: ctl_act.split)

lemma hears_print [simp]:
  "hears [] s (ctl_do (Out l) s)" "hears [] s (ctl_do (Warn l) s)" "hears [] s (ctl_do (Wrote n b) s)"
  "hears [] s (println l s)" "hears [] s (eprintln l s)"
  by (simp_all add: hears_def said_act println_def eprintln_def)

lemma hears_then: "hears [] s t \<Longrightarrow> hears fs t u \<Longrightarrow> hears fs s u"
  using hears_trans [of "[]"] by simp

lemma hears_more:
  "hears [] s t \<Longrightarrow> hears [] s (ctl_do (Out l) t)" "hears [] s t \<Longrightarrow> hears [] s (eprintln l t)"
  by (auto intro: hears_then)

lemma hears_prints [simp]: "hears [] s (fold println ls s)" "hears [] s (fold eprintln ls s)"
proof -
  show "hears [] s (fold println ls s)"
    by (induction ls arbitrary: s) (auto intro: hears_then [OF hears_print(4)] hears_then [OF hears_print(5)])
  show "hears [] s (fold eprintln ls s)"
    by (induction ls arbitrary: s) (auto intro: hears_then [OF hears_print(4)] hears_then [OF hears_print(5)])
qed

lemma send_room [simp]:
  "ctl_said (s\<lparr> ct_room := r \<rparr>) = ctl_said s" "closed_paths (s\<lparr> ct_room := r \<rparr>) = closed_paths s" "cancels (s\<lparr> ct_room := r \<rparr>) = cancels s"
  "ctl_said (s\<lparr> ct_feed := f \<rparr>) = ctl_said s" "closed_paths (s\<lparr> ct_feed := f \<rparr>) = closed_paths s" "cancels (s\<lparr> ct_feed := f \<rparr>) = cancels s"
  "ctl_said (s\<lparr> ct_due := d \<rparr>) = ctl_said s" "closed_paths (s\<lparr> ct_due := d \<rparr>) = closed_paths s"
  by (simp_all add: ctl_said_def closed_paths_def cancels_def)

lemma send_says:
  assumes "ctl_send why w s = (Inr (), t)" "w \<noteq> W_Req Cancel"
  shows "ct_feed t = ct_feed s \<and> ctl_said t = ctl_said s @ [w] \<and> closed_paths t = closed_paths s \<and> cancels t = cancels s"
  using assms by (auto simp: ctl_send_def said_act split: option.splits nat.splits)

lemma hears_wake [simp]: "hears [] s (wake s)"
proof -
  have sent: "cancels (u\<lparr> ct_due := None \<rparr>) \<le> cancels s" if "ct_due s = Some 0" "ctl_send [] (W_Req Cancel) s = (r, u)" for r u
    using that by (auto simp: ctl_send_def cancels_def ctl_do_def split: option.splits nat.splits)
  then show ?thesis
    by (auto simp: hears_def wake_def ctl_send_def ctl_said_def closed_paths_def cancels_def ctl_do_def List.map_filter_def split: option.split nat.split)
qed

lemma hears_frame: "ctl_frame s = (r, t) \<Longrightarrow> hears (case r of None \<Rightarrow> [] | Some x \<Rightarrow> [x]) s t"
  using hears_wake [of s] by (auto simp: ctl_frame_def Let_def hears_def split: list.splits)

lemma hears_event: "ctl_read_event s = (Inr r, t) \<Longrightarrow> hears (case r of None \<Rightarrow> [] | Some ev \<Rightarrow> [In_Event ev]) s t"
  by (auto simp: ctl_read_event_def dest!: hears_frame split: prod.splits option.splits frame_in.splits)

lemma hears_blob: "ctl_read_blob len got s = (Inr bytes, t) \<Longrightarrow> \<exists>fs. hears fs s t \<and> events_in fs = []"
proof (induction len got s rule: ctl_read_blob.induct)
  case (1 len got s)
  show ?case
  proof (cases "length got < len")
    case True
    obtain r s1 where r: "ctl_frame s = (r, s1)"
      by (rule prod.exhaust)
    with True "1.prems" obtain chunk where b: "r = Some (In_Blob chunk)" and rest: "ctl_read_blob len (got @ chunk) s1 = (Inr bytes, t)"
      by (auto simp: ctl_read_blob.simps [of len got s] split: option.splits frame_in.splits)
    obtain fs where "hears fs s1 t" "events_in fs = []"
      using "1.IH" [OF True r [symmetric] b refl rest] by blast
    then have "hears (In_Blob chunk # fs) s t"
      using hears_trans [of "[In_Blob chunk]" s s1 fs t] hears_frame [OF r] by (simp add: b)
    then show ?thesis
      using \<open>events_in fs = []\<close> by (intro exI [of _ "In_Blob chunk # fs"]) (simp add: events_in_def List.map_filter_def)
  next
    case False
    with "1.prems" have "t = s"
      by (simp add: ctl_read_blob.simps [of len got s])
    then show ?thesis
      by (intro exI [of _ "[]"]) (simp add: events_in_def List.map_filter_def)
  qed
qed

lemma hears_media:
  assumes "take_media e m s = (Inr n, t)"
  shows "\<exists>fs. hears fs s t \<and> events_in fs = []"
proof -
  from assms obtain bytes s1 where b: "ctl_read_blob (mo_len m) [] s = (Inr bytes, s1)" and t: "t = ctl_do (Wrote (media_name m) bytes) s1"
    by (auto simp: take_media_def sbind_Inr_iff split: option.splits)
  from hears_blob [OF b] obtain fs where "hears fs s s1" "events_in fs = []"
    by blast
  then show ?thesis
    using hears_trans [of fs s s1 "[]"] by (intro exI [of _ fs]) (simp add: t)
qed

text \<open>What an event makes the tool say: the answers to its calls.\<close>

definition turn_step :: "frame_in list \<Rightarrow> wire list \<Rightarrow> ctl \<Rightarrow> ctl \<Rightarrow> bool" where
  "turn_step fs ws s t \<longleftrightarrow>
     ct_feed s = fs @ ct_feed t \<and> ctl_said t = ctl_said s @ ws \<and> closed_paths t = closed_paths s \<and> cancels t \<le> cancels s"

lemma turn_step_hears: "turn_step fs [] s t \<longleftrightarrow> hears fs s t"
  by (simp add: turn_step_def hears_def)

lemma turn_step_trans: "turn_step fs ws s t \<Longrightarrow> turn_step gs vs t u \<Longrightarrow> turn_step (fs @ gs) (ws @ vs) s u"
  by (simp add: turn_step_def)

lemma turn_step_send:
  assumes "hears [] s s1" "ctl_send why w s1 = (Inr (), t)" "w \<noteq> W_Req Cancel"
  shows "turn_step [] [w] s t"
  using assms(1) send_says [OF assms(2,3)] by (simp add: turn_step_def hears_def)

definition stops_right :: "nat option \<Rightarrow> event \<Rightarrow> bool" where
  "stops_right r ev \<longleftrightarrow> (r = Some 1 \<longleftrightarrow> (\<exists>b. ev = Ev_Error b)) \<and> (r = None \<or> r = Some 0 \<or> r = Some 1)"

lemma events_in_Nil [simp]: "events_in [] = []"
  by (simp add: events_in_def List.map_filter_def)

lemma generate_quiet:
  assumes "on_generate e b ev s = (Inr r, t)" "shown_calls ev = []"
    and "\<forall>c. ev \<noteq> Ev_ToolCall c" "\<forall>cs. ev \<noteq> Ev_ToolCalls cs" "\<forall>m. ev \<noteq> Ev_Media m"
  shows "hears [] s t \<and> stops_right r ev"
  using assms
  by (cases ev) (auto simp: on_generate_def stops_right_def intro: hears_more split: option.splits if_splits)

lemma generate_answers:
  assumes "on_generate e b ev s = (Inr r, t)"
  shows "(\<exists>fs ws. turn_step fs ws s t \<and> events_in fs = [] \<and> concat (map results_of ws) = map (\<lambda>c. (tc_id c, CANNED)) (shown_calls ev))
    \<and> stops_right r ev"
proof -
  have quiet_case: "\<exists>fs ws. turn_step fs ws s t \<and> events_in fs = [] \<and> concat (map results_of ws) = map (\<lambda>c. (tc_id c, CANNED)) (shown_calls ev)"
    if "hears fs s t" "events_in fs = []" "shown_calls ev = []" for fs
    using that by (intro exI [of _ fs] exI [of _ "[]"]) (simp add: turn_step_hears)
  show ?thesis
  proof (cases ev)
    case (Ev_ToolCall c)
    then have "turn_step [] [W_Req (ToolResult (tc_id c) CANNED)] s t" "r = None"
      using assms by (auto simp: on_generate_def sbind_Inr_iff simp del: fold.simps intro!: turn_step_send [rotated])
    then show ?thesis
      unfolding Ev_ToolCall stops_right_def
      by (intro conjI exI [of _ "[]"] exI [of _ "[W_Req (ToolResult (tc_id c) CANNED)]"]) (simp_all add: events_in_def List.map_filter_def)
  next
    case (Ev_ToolCalls cs)
    let ?w = "W_Req (ToolResults (map (\<lambda>c. \<lparr> tr_id = tc_id c, tr_content = CANNED \<rparr>) cs))"
    have "turn_step [] [?w] s t" "r = None"
      using assms by (auto simp: Ev_ToolCalls on_generate_def sbind_Inr_iff simp del: fold.simps intro!: turn_step_send [rotated])
    then show ?thesis
      unfolding Ev_ToolCalls stops_right_def
      by (intro conjI exI [of _ "[]"] exI [of _ "[?w]"]) (simp_all add: events_in_def List.map_filter_def comp_def)
  next
    case (Ev_Media m)
    then obtain n s1 where m: "take_media e m s = (Inr n, s1)" and t: "hears [] s1 t" "r = None"
      using assms by (auto simp: on_generate_def sbind_Inr_iff)
    obtain fs where "hears fs s s1" "events_in fs = []"
      using hears_media [OF m] by blast
    then have "hears fs s t"
      using hears_trans [of fs s s1 "[]" t] t by simp
    then show ?thesis
      using quiet_case [of fs] \<open>events_in fs = []\<close> t(2) by (simp add: Ev_Media stops_right_def)
  qed (use generate_quiet [OF assms] quiet_case [of "[]"] in simp_all)
qed

lemma events_append [simp]: "events_in (fs @ gs) = events_in fs @ events_in gs"
  by (simp add: events_in_def)

lemma loop_answers:
  assumes "ctl_loop e (Generating b) s = (Inr n, t)"
  shows "\<exists>fs ws. turn_step fs ws s t \<and> calls_answered ws fs
    \<and> (n = 1 \<longleftrightarrow> events_in fs \<noteq> [] \<and> (\<exists>body. last (events_in fs) = Ev_Error body)) \<and> n \<le> 1"
  using assms
proof (induction e "Generating b" s arbitrary: n rule: ctl_loop.induct)
  case (1 e s)
  obtain r s1 where r: "ctl_read_event s = (Inr r, s1)"
    using "1.prems" by (auto simp: ctl_loop.simps [of e _ s] split: prod.splits sum.splits)
  show ?case
  proof (cases r)
    case None
    then have "t = s1" "n = 0"
      using "1.prems" by (simp_all add: ctl_loop.simps [of e _ s] r)
    then show ?thesis
      using hears_event [OF r] None
      by (intro exI [of _ "[]"]) (simp add: turn_step_hears calls_answered_def events_in_def List.map_filter_def)
  next
    case (Some ev)
    note r = r [unfolded Some]
    obtain more s2 where ev: "on_generate e b ev s1 = (Inr more, s2)"
      using "1.prems" by (auto simp: ctl_loop.simps [of e _ s] r split: prod.splits sum.splits)
    from generate_answers [OF ev] obtain fs ws where one: "turn_step fs ws s1 s2" "events_in fs = []"
      "concat (map results_of ws) = map (\<lambda>c. (tc_id c, CANNED)) (shown_calls ev)" and stops: "stops_right more ev"
      by blast
    have read: "turn_step [In_Event ev] [] s s1"
      using hears_event [OF r] by (simp add: turn_step_hears)
    note upto = turn_step_trans [OF read one(1)]
    show ?thesis
    proof (cases more)
      case None
      have "ctl_loop e (Generating b) s2 = (Inr n, t)"
        using "1.prems" by (simp add: ctl_loop.simps [of e _ s] r ev None)
      with "1.hyps" r ev None obtain gs vs where later: "turn_step gs vs s2 t" "calls_answered vs gs"
        "n = 1 \<longleftrightarrow> events_in gs \<noteq> [] \<and> (\<exists>body. last (events_in gs) = Ev_Error body)" "n \<le> 1"
        by (metis on_event.simps(1))
      show ?thesis
        using turn_step_trans [OF upto later(1)] later(2-4) one(2,3) stops None
        by (intro exI [of _ "([In_Event ev] @ fs) @ gs"] exI [of _ "([] @ ws) @ vs"])
          (auto simp: calls_answered_def events_in_def List.map_filter_def stops_right_def)
    next
      case (Some k)
      then have "t = s2" "n = k"
        using "1.prems" by (simp_all add: ctl_loop.simps [of e _ s] r ev)
      then show ?thesis
        using upto one(2,3) stops Some
        by (intro exI [of _ "[In_Event ev] @ fs"] exI [of _ "[] @ ws"])
          (auto simp: calls_answered_def events_in_def List.map_filter_def stops_right_def)
    qed
  qed
qed

text \<open>
  Attachments as the session expects them: the picture, then the raw pixels, each announced with the length of the
  payload that follows, which is the file that was named.
\<close>

definition sends_image :: "ctl_env \<Rightarrow> gen_args \<Rightarrow> wire list \<Rightarrow> string list \<Rightarrow> bool" where
  "sends_image e a ws nms \<longleftrightarrow>
     (case ga_image a of
        None \<Rightarrow> ws = [] \<and> nms = []
      | Some path \<Rightarrow>
          \<exists>bytes. ce_read e path = Inr bytes \<and> nms = [''img1'']
            \<and> ws = [W_Req (Attach ''img1'' Attach_Image
                      \<lparr> am_w = None, am_h = None, am_fmt = None, am_rate = None, am_encoded = Some ''image/png'' \<rparr> (length bytes)),
                    W_Blob bytes])"

definition sends_raw :: "ctl_env \<Rightarrow> gen_args \<Rightarrow> wire list \<Rightarrow> string list \<Rightarrow> bool" where
  "sends_raw e a ws nms \<longleftrightarrow>
     (case ga_raw a of
        None \<Rightarrow> ws = [] \<and> nms = []
      | Some spec \<Rightarrow>
          \<exists>width height path w h bytes. spec = width @ ''x'' @ height @ '':'' @ path \<and> parse_u32 width = Some w \<and> parse_u32 height = Some h
            \<and> ce_read e path = Inr bytes \<and> nms = [''raw1'']
            \<and> ws = [W_Req (Attach ''raw1'' Attach_Image
                      \<lparr> am_w = Some w, am_h = Some h, am_fmt = Some ''rgba8'', am_rate = None, am_encoded = None \<rparr> (length bytes)),
                    W_Blob bytes])"

lemma attach_bytes_says:
  assumes "attach_bytes name meta bytes s = (Inr ns, t)"
  shows "turn_step [] [W_Req (Attach name Attach_Image meta (length bytes)), W_Blob bytes] s t \<and> ns = [name]"
proof -
  let ?a = "W_Req (Attach name Attach_Image meta (length bytes))"
  obtain s1 where "ctl_send ''attach'' ?a s = (Inr (), s1)" "ctl_send ''attach blob'' (W_Blob bytes) s1 = (Inr (), t)" "ns = [name]"
    using assms by (auto simp: attach_bytes_def sbind_Inr_iff)
  then show ?thesis
    using turn_step_trans [OF turn_step_send [OF hears_refl, of _ ?a s s1] turn_step_send [OF hears_refl, of _ "W_Blob bytes" s1 t]]
    by simp
qed

lemma split_once_joins:
  assumes "split_once sep s = Some (l, r)"
  shows "s = l @ sep @ r"
proof -
  obtain i where i: "starts_with sep (drop i s)" "l = take i s" "r = drop (i + length sep) s"
    using assms by (auto simp: split_once_def find_Some_iff split: option.splits)
  then have "drop i s = sep @ drop (length sep) (drop i s)"
    by (metis append_take_drop_id starts_with_def)
  then show ?thesis
    using i by (metis add.commute append_take_drop_id drop_drop)
qed

lemma image_says:
  assumes "attach_image e a s = (Inr ns, t)"
  shows "\<exists>ws. turn_step [] ws s t \<and> sends_image e a ws ns"
  using assms
  by (auto simp: attach_image_def sends_image_def turn_step_hears image_meta_def dest!: attach_bytes_says split: option.splits sum.splits)

lemma raw_says:
  assumes "attach_raw e a s = (Inr ns, t)"
  shows "\<exists>ws. turn_step [] ws s t \<and> sends_raw e a ws ns"
proof (cases "ga_raw a")
  case None
  then show ?thesis
    using assms by (simp add: attach_raw_def sends_raw_def turn_step_hears)
next
  case (Some spec)
  then obtain dims path width height bytes w h where
    parts: "split_once '':'' spec = Some (dims, path)" "split_once ''x'' dims = Some (width, height)" "ce_read e path = Inr bytes"
      "parse_u32 width = Some w" "parse_u32 height = Some h" and
    sent: "attach_bytes ''raw1'' \<lparr> am_w = Some w, am_h = Some h, am_fmt = Some ''rgba8'', am_rate = None, am_encoded = None \<rparr> bytes s = (Inr ns, t)"
    using assms by (auto simp: attach_raw_def split: option.splits sum.splits)
  have "spec = width @ ''x'' @ height @ '':'' @ path"
    using split_once_joins [OF parts(1)] split_once_joins [OF parts(2)] by simp
  then have "sends_raw e a [W_Req (Attach ''raw1'' Attach_Image
      \<lparr> am_w = Some w, am_h = Some h, am_fmt = Some ''rgba8'', am_rate = None, am_encoded = None \<rparr> (length bytes)), W_Blob bytes] ns"
    using attach_bytes_says [OF sent] parts(3-5) Some unfolding sends_raw_def by (simp del: append_Cons) blast
  then show ?thesis
    using attach_bytes_says [OF sent] by blast
qed

lemma greet_hears: "hears [] s (ctl_greet ev s)"
  unfolding ctl_greet_def by (auto simp del: fold.simps split: option.split event.split)

lemma start_cancel_says:
  "start_cancel e a s = (Inr (), t) \<Longrightarrow> ct_feed t = ct_feed s \<and> ctl_said t = ctl_said s \<and> closed_paths t = closed_paths s
     \<and> cancels t \<le> cancels s + (if ga_cancel a = None then 0 else 1)"
  by (auto simp: start_cancel_def dup_def sbind_Inr_iff cancels_def split: option.splits)

text \<open>What a turn says: the greeting, the attachments, one request, the answers to the calls.\<close>

definition turn_said :: "ctl_env \<Rightarrow> gen_args \<Rightarrow> string \<Rightarrow> wire list \<Rightarrow> frame_in list \<Rightarrow> bool" where
  "turn_said e a prompt ws fs \<longleftrightarrow>
     (\<exists>iw rw ins rns tools answers.
        ws = W_Req (Hello (ga_proto a)) # iw @ rw
             @ W_Req (Generate
                  ((if ga_system a = [] then []
                    else [\<lparr> msg_role = ''system'', msg_content = ga_system a, msg_attachments = [], msg_tool_call_id = None \<rparr>])
                   @ [\<lparr> msg_role = ''user'', msg_content = prompt, msg_attachments = ins @ rns, msg_tool_call_id = None \<rparr>])
                  True
                  (Some \<lparr> temperature = None, top_p = None, seed = None, max_tokens = Some (ga_max_tokens a), stop = None, top_k = None,
                          min_p = None, repeat_penalty = None, logit_bias = [], logprobs = ga_logprobs a \<rparr>)
                  None tools)
             # answers
        \<and> sends_image e a iw ins \<and> sends_raw e a rw rns \<and> calls_answered answers fs
        \<and> (case ga_tool a of None \<Rightarrow> tools = None | Some path \<Rightarrow> \<exists>ts. ce_tools e path = Inr ts \<and> tools = Some ts))"

text \<open>The session a turn is for: what was asked for, by the bus or through the portal, and the path that was answered.\<close>

definition opened_as :: "ctl_env \<Rightarrow> gen_args \<Rightarrow> ctl_act \<Rightarrow> string \<Rightarrow> bool" where
  "opened_as e a act path \<longleftrightarrow>
     (\<exists>os. (if ga_portal a then act = Through_Portal (ga_model a) os \<and> ce_portal e (ga_model a) os = Inr path
            else act = Called (Create_Session (ga_model a) os) \<and> ce_reply e (Create_Session (ga_model a) os) = Inr (R_Str path))
        \<and> map_of os ''priority'' = Some (VStr (ga_priority a))
        \<and> map_of os ''no_tools'' = (if ga_no_tools a then Some (VBool True) else None)
        \<and> map_of os ''max_tokens_per_minute'' = map_option VU64 (ga_rate a)
        \<and> map_of os ''allowed_models'' = map_option VStrs (ga_models a)
        \<and> fst ` set os \<subseteq> {''priority'', ''no_tools'', ''max_tokens_per_minute'', ''allowed_models''})"

lemma want_str_Some: "want_str r = Some s \<Longrightarrow> r = R_Str s"
  by (cases r) simp_all

lemma session_opened_as:
  assumes "open_session_by e (ga_model a) (gen_options a) (ga_portal a) s = (Inr path, t)"
  shows "\<exists>act. opened_as e a act path \<and> t = ctl_do act s"
proof -
  let ?os = "gen_options a"
  have os: "map_of ?os ''priority'' = Some (VStr (ga_priority a))"
      "map_of ?os ''no_tools'' = (if ga_no_tools a then Some (VBool True) else None)"
      "map_of ?os ''max_tokens_per_minute'' = map_option VU64 (ga_rate a)" "map_of ?os ''allowed_models'' = map_option VStrs (ga_models a)"
      "fst ` set ?os \<subseteq> {''priority'', ''no_tools'', ''max_tokens_per_minute'', ''allowed_models''}"
    by (auto simp: gen_options_def split: option.split)
  show ?thesis
  proof (cases "ga_portal a")
    case True
    then have "ce_portal e (ga_model a) ?os = Inr path" "t = ctl_do (Through_Portal (ga_model a) ?os) s"
      using assms by (auto simp: open_session_by_def split: option.splits sum.splits)
    then show ?thesis
      using True os unfolding opened_as_def by (intro exI [of _ "Through_Portal (ga_model a) ?os"]) auto
  next
    case False
    then obtain r where "ce_reply e (Create_Session (ga_model a) ?os) = Inr r" "want_str r = Some path"
      "t = ctl_do (Called (Create_Session (ga_model a) ?os)) s"
      using assms by (auto simp: open_session_by_def ctl_call_def ok_or_def split: option.splits sum.splits)
    then show ?thesis
      using False os want_str_Some unfolding opened_as_def by (intro exI [of _ "Called (Create_Session (ga_model a) ?os)"]) auto
  qed
qed

lemma turn_says:
  assumes "ctl_turn e a prompt s = (Inr n, t)"
  shows "\<exists>greeting fs ws.
    ct_feed s = greeting @ fs @ ct_feed t \<and> length greeting \<le> 1
    \<and> ctl_said t = ctl_said s @ ws \<and> turn_said e a prompt ws fs \<and> closed_paths t = closed_paths s
    \<and> cancels t \<le> cancels s + (if ga_cancel a = None then 0 else 1)
    \<and> (n = 1 \<longleftrightarrow> events_in fs \<noteq> [] \<and> (\<exists>body. last (events_in fs) = Ev_Error body)) \<and> n \<le> 1"
proof -
  from assms obtain s1 ev s2 ns s3 ms s4 tools s5 s6 where
    hello: "ctl_send ''hello'' (W_Req (Hello (ga_proto a))) s = (Inr (), s1)" and
    greeting: "ctl_read_event s1 = (Inr ev, s2)" and
    image: "attach_image e a (ctl_greet ev s2) = (Inr ns, s3)" and
    raw: "attach_raw e a s3 = (Inr ms, s4)" and
    tools: "gen_tools e a = Inr tools" and
    request: "ctl_send ''generate'' (W_Req (gen_request a prompt (ns @ ms) tools)) s4 = (Inr (), s5)" and
    thread: "start_cancel e a s5 = (Inr (), s6)" and
    run: "ctl_loop e (Generating (ga_usage a)) s6 = (Inr n, t)"
    by (auto simp: ctl_turn_def sbind_Inr_iff)
  obtain iw rw where iw: "turn_step [] iw (ctl_greet ev s2) s3" "sends_image e a iw ns" and rw: "turn_step [] rw s3 s4" "sends_raw e a rw ms"
    using image_says [OF image] raw_says [OF raw] by blast
  obtain fs ws where turn: "turn_step fs ws s6 t" "calls_answered ws fs"
    "n = 1 \<longleftrightarrow> events_in fs \<noteq> [] \<and> (\<exists>body. last (events_in fs) = Ev_Error body)" "n \<le> 1"
    using loop_answers [OF run] by blast
  let ?g = "case ev of None \<Rightarrow> [] | Some x \<Rightarrow> [In_Event x]"
  have greeted: "hears ?g s1 (ctl_greet ev s2)"
    using hears_trans [OF hears_event [OF greeting] greet_hears] by simp
  note hi = send_says [OF hello] and req = send_says [OF request]
  have "gen_request a prompt (ns @ ms) tools \<noteq> Cancel"
    by (simp add: gen_request_def)
  then have "turn_said e a prompt (W_Req (Hello (ga_proto a)) # (iw @ rw) @ W_Req (gen_request a prompt (ns @ ms) tools) # ws) fs"
    unfolding turn_said_def gen_request_def gen_messages_def default_params_def using iw(2) rw(2) tools turn(2)
    by (intro exI [of _ iw] exI [of _ rw] exI [of _ ns] exI [of _ ms] exI [of _ tools] exI [of _ ws])
      (auto simp: gen_tools_def split: option.splits sum.splits)
  moreover have "ct_feed s = ?g @ fs @ ct_feed t"
    "ctl_said t = ctl_said s @ W_Req (Hello (ga_proto a)) # (iw @ rw) @ W_Req (gen_request a prompt (ns @ ms) tools) # ws"
    "closed_paths t = closed_paths s" "cancels t \<le> cancels s + (if ga_cancel a = None then 0 else 1)"
    using hi req greeted iw(1) rw(1) turn(1) start_cancel_says [OF thread]
    by (auto simp: turn_step_def hears_def gen_request_def)
  moreover have "length ?g \<le> 1"
    by (simp split: option.split)
  ultimately show ?thesis
    using turn(3,4) by blast
qed

text \<open>Nothing that was done is undone.\<close>

definition goes_on :: "ctl \<Rightarrow> ctl \<Rightarrow> bool" where
  "goes_on s t \<longleftrightarrow> (\<exists>more. ct_acts t = ct_acts s @ more)"

lemma goes_on_refl [simp]: "goes_on s s"
  by (simp add: goes_on_def)

lemma goes_on_trans: "goes_on s t \<Longrightarrow> goes_on t u \<Longrightarrow> goes_on s u"
  by (auto simp: goes_on_def)

lemma goes_on_do [simp]: "goes_on s t \<Longrightarrow> goes_on s (ctl_do a t)" "goes_on s t \<Longrightarrow> goes_on s (println l t)" "goes_on s t \<Longrightarrow> goes_on s (eprintln l t)"
  by (auto simp: goes_on_def ctl_do_def println_def eprintln_def)

lemma goes_on_fields [simp]:
  "goes_on s (t\<lparr> ct_room := r \<rparr>) = goes_on s t" "goes_on s (t\<lparr> ct_feed := f \<rparr>) = goes_on s t" "goes_on s (t\<lparr> ct_due := d \<rparr>) = goes_on s t"
  by (simp_all add: goes_on_def)

lemma goes_on_prints [simp]: "goes_on s t \<Longrightarrow> goes_on s (fold println ls t)" "goes_on s t \<Longrightarrow> goes_on s (fold eprintln ls t)"
  by (induction ls arbitrary: t) simp_all

lemma goes_on_send: "ctl_send why w s = (r, t) \<Longrightarrow> goes_on s t"
  by (auto simp: ctl_send_def split: option.splits nat.splits)

lemma goes_on_frame: "ctl_frame s = (r, t) \<Longrightarrow> goes_on s t"
proof -
  have "goes_on s (wake s)"
    by (auto simp: wake_def goes_on_send [OF prod.collapse [symmetric]] split: option.split nat.split)
  then show "ctl_frame s = (r, t) \<Longrightarrow> goes_on s t"
    by (auto simp: ctl_frame_def Let_def split: list.splits)
qed

lemma goes_on_event: "ctl_read_event s = (r, t) \<Longrightarrow> goes_on s t"
  by (auto simp: ctl_read_event_def dest!: goes_on_frame split: prod.splits option.splits frame_in.splits)

lemma goes_on_blob: "ctl_read_blob len got s = (r, t) \<Longrightarrow> goes_on s t"
proof (induction len got s rule: ctl_read_blob.induct)
  case (1 len got s)
  obtain x s1 where x: "ctl_frame s = (x, s1)"
    by (rule prod.exhaust)
  show ?case
    using 1 goes_on_frame [OF x] x
    by (auto simp: ctl_read_blob.simps [of len got s] intro: goes_on_trans split: if_splits option.splits frame_in.splits)
qed

lemma goes_on_media: "take_media e m s = (r, t) \<Longrightarrow> goes_on s t"
  by (auto simp: take_media_def sbind_def dest!: goes_on_blob split: prod.splits sum.splits option.splits)

lemma goes_on_generate: "on_generate e b ev s = (r, t) \<Longrightarrow> goes_on s t"
  by (cases ev) (auto simp: on_generate_def sbind_def dest!: goes_on_media goes_on_send simp del: fold.simps
      intro: goes_on_trans [of s "fold println _ s"] split: prod.splits sum.splits option.splits if_splits)

lemma goes_on_loop: "ctl_loop e (Generating b) s = (r, t) \<Longrightarrow> goes_on s t"
proof (induction e "Generating b" s rule: ctl_loop.induct)
  case (1 e s)
  obtain x s1 where x: "ctl_read_event s = (x, s1)"
    by (rule prod.exhaust)
  note first = goes_on_event [OF x]
  show ?case
  proof (cases x)
    case (Inr ev)
    show ?thesis
    proof (cases ev)
      case (Some v)
      obtain y s2 where y: "on_generate e b v s1 = (y, s2)"
        by (rule prod.exhaust)
      note upto = goes_on_trans [OF first goes_on_generate [OF y]]
      show ?thesis
      proof (cases "y = Inr None")
        case True
        have "ctl_loop e (Generating b) s2 = (r, t)"
          using "1.prems" by (simp add: ctl_loop.simps [of e _ s] x Inr Some y True)
        with "1.hyps" x Inr Some y True have "goes_on s2 t"
          by (metis on_event.simps(1))
        then show ?thesis
          by (rule goes_on_trans [OF upto])
      next
        case False
        then show ?thesis
          using "1.prems" upto by (auto simp: ctl_loop.simps [of e _ s] x Inr Some y split: sum.splits option.splits)
      qed
    qed (use "1.prems" first in \<open>simp add: ctl_loop.simps [of e _ s] x Inr\<close>)
  qed (use "1.prems" first in \<open>simp add: ctl_loop.simps [of e _ s] x\<close>)
qed

lemma goes_on_attach: "attach_bytes name meta bytes s = (r, t) \<Longrightarrow> goes_on s t"
  by (auto simp: attach_bytes_def sbind_def dest!: goes_on_send intro: goes_on_trans split: prod.splits sum.splits)

lemma goes_on_images: "attach_image e a s = (r, t) \<Longrightarrow> goes_on s t" "attach_raw e a s = (r, t) \<Longrightarrow> goes_on s t"
  by (auto simp: attach_image_def attach_raw_def dest!: goes_on_attach split: option.splits sum.splits prod.splits)

lemma acts_grow:
  assumes "ctl_turn e a prompt s = (Inr n, t)"
  shows "\<exists>more. ct_acts t = ct_acts s @ more"
proof -
  have greet: "goes_on s' (ctl_greet ev s')" for ev s'
    unfolding ctl_greet_def by (auto simp del: fold.simps split: option.split event.split)
  have cancel: "goes_on s' t'" if "start_cancel e a s' = (r', t')" for s' t' r'
    using that by (auto simp: start_cancel_def dup_def sbind_def split: option.splits)
  from assms obtain s1 ev s2 ns s3 ms s4 tools s5 s6 where
    steps: "ctl_send ''hello'' (W_Req (Hello (ga_proto a))) s = (Inr (), s1)" "ctl_read_event s1 = (Inr ev, s2)"
      "attach_image e a (ctl_greet ev s2) = (Inr ns, s3)" "attach_raw e a s3 = (Inr ms, s4)"
      "ctl_send ''generate'' (W_Req (gen_request a prompt (ns @ ms) tools)) s4 = (Inr (), s5)"
      "start_cancel e a s5 = (Inr (), s6)" "ctl_loop e (Generating (ga_usage a)) s6 = (Inr n, t)"
    by (auto simp: ctl_turn_def sbind_Inr_iff)
  have "goes_on s (ctl_greet ev s2)"
    by (rule goes_on_trans [OF goes_on_send [OF steps(1)] goes_on_trans [OF goes_on_event [OF steps(2)] greet]])
  moreover have "goes_on (ctl_greet ev s2) s5"
    by (rule goes_on_trans [OF goes_on_images(1) [OF steps(3)] goes_on_trans [OF goes_on_images(2) [OF steps(4)] goes_on_send [OF steps(5)]]])
  moreover have "goes_on s5 t"
    by (rule goes_on_trans [OF cancel [OF steps(6)] goes_on_loop [OF steps(7)]])
  ultimately have "goes_on s t"
    by (blast intro: goes_on_trans)
  then show ?thesis
    by (simp add: goes_on_def)
qed

text \<open>
  C38. A \<open>generate\<close> of the command line tool is one well-formed turn. Whatever the session says and whenever the thread that
  cancels wakes, a run that ends without an error of its own first opened a session, by the bus or through the portal,
  with the options the arguments spell; into it went a greeting, then each file that was named, announced with the
  length of its payload, then one request with the prompt (after the system message, if any), the names of exactly
  these attachments, the limits of the arguments and the tools of the named file, and then only answers: one
  for each call it was shown after the greeting, in their order; at most one cancel, and none unless asked for. It has closed
  exactly the session it opened, last of all. Its status is 1 exactly if an error was the last event after the
  answer to the greeting, and 0 otherwise; what answers the greeting does not count, an error neither.
\<close>

theorem generate_is_one_turn:
  assumes "ctl_generate e args \<lparr> ct_acts = [], ct_room = room, ct_feed = feed, ct_due = None \<rparr> = (Inr n, t)"
    and "read_gen_args args default_gen_args = Parsed a"
  shows "\<exists>prompt path greeting fs.
    (if ga_prompt a \<noteq> [] then prompt = ga_prompt a else \<not> ce_terminal e \<and> ce_stdin e = Inr prompt)
    \<and> feed = greeting @ fs @ ct_feed t \<and> length greeting \<le> 1
    \<and> opened_as e a (hd (ct_acts t)) path
    \<and> turn_said e a prompt (ctl_said t) fs
    \<and> closed_paths t = [path] \<and> last (ct_acts t) = Closed path
    \<and> cancels t \<le> (if ga_cancel a = None then 0 else 1)
    \<and> (n = 1 \<longleftrightarrow> events_in fs \<noteq> [] \<and> (\<exists>body. last (events_in fs) = Ev_Error body)) \<and> n \<le> 1"
proof -
  let ?s = "\<lparr> ct_acts = [], ct_room = room, ct_feed = feed, ct_due = None \<rparr>"
  from assms obtain prompt path s1 u where
    prompt: "gen_prompt e a = Inr prompt" and
    opened: "open_session_by e (ga_model a) (gen_options a) (ga_portal a) ?s = (Inr path, s1)" and
    turn: "ctl_turn e a prompt s1 = (Inr n, u)" and t: "t = ctl_close path u"
    by (auto simp: ctl_generate_def ctl_ended_def dup_def sbind_Inr_iff split: option.splits)
  obtain act where act: "opened_as e a act path" "s1 = ctl_do act ?s"
    using session_opened_as [OF opened] by blast
  have fresh: "ctl_said s1 = []" "closed_paths s1 = []" "cancels s1 = 0" "ct_feed s1 = feed" "ct_acts s1 = [act]"
    using act by (auto simp: opened_as_def said_act ctl_said_def closed_paths_def cancels_def ctl_do_def List.map_filter_def
        split: if_splits)
  obtain greeting fs ws where w: "ct_feed s1 = greeting @ fs @ ct_feed u" "length greeting \<le> 1" "ctl_said u = ctl_said s1 @ ws"
    "turn_said e a prompt ws fs" "closed_paths u = closed_paths s1" "cancels u \<le> cancels s1 + (if ga_cancel a = None then 0 else 1)"
    "n = 1 \<longleftrightarrow> events_in fs \<noteq> [] \<and> (\<exists>body. last (events_in fs) = Ev_Error body)" "n \<le> 1"
    using turn_says [OF turn] by blast
  have "hd (ct_acts u) = act"
    using acts_grow [OF turn] fresh(5) by auto
  moreover have "ct_acts u \<noteq> []"
    using acts_grow [OF turn] fresh(5) by auto
  ultimately have closed: "ct_feed t = ct_feed u" "ctl_said t = ws" "closed_paths t = [path]" "cancels t = cancels u"
      "last (ct_acts t) = Closed path" "hd (ct_acts t) = act"
    using w(3,5) fresh by (simp_all add: t ctl_close_def said_act) (simp_all add: ctl_do_def)
  have "if ga_prompt a \<noteq> [] then prompt = ga_prompt a else \<not> ce_terminal e \<and> ce_stdin e = Inr prompt"
    using prompt by (auto simp: gen_prompt_def split: if_splits sum.splits)
  then show ?thesis
    using w closed fresh act(1) by (intro exI [of _ prompt] exI [of _ path] exI [of _ greeting] exI [of _ fs]) simp
qed

definition plain_ctl :: ctl_env where
  "plain_ctl =
     \<lparr> ce_bus = None, ce_reply = (\<lambda>_. Inr (R_Str ''/s/1'')), ce_session_bus = None, ce_portal = (\<lambda>_ _. Inl []), ce_identify = Inl [],
       ce_read = (\<lambda>_. Inl []), ce_tools = (\<lambda>_. Inl []), ce_stdin = Inl [], ce_terminal = True, ce_dup = None, ce_write = (\<lambda>_. None),
       ce_show = (\<lambda>_. []), ce_f32 = (\<lambda>_ _. []), ce_wakes = 0, ce_codec = small_codec, ce_files = [] \<rparr>"

abbreviation one_call :: tool_call where
  "one_call \<equiv> \<lparr> tc_id = ''c1'', tc_name = ''f'', tc_arguments = ''{}'' \<rparr>"

definition call_feed :: "frame_in list" where
  "call_feed = [In_Event (Ev_Notice ''hi'' []), In_Event (Ev_ToolCall one_call), In_Event (Ev_Done True no_usage (Some ''stop''))]"

abbreviation ctl_fresh :: "frame_in list \<Rightarrow> ctl" where
  "ctl_fresh fs \<equiv> \<lparr> ct_acts = [], ct_room = None, ct_feed = fs, ct_due = None \<rparr>"

lemma call_args: "read_gen_args [''hi''] default_gen_args = Parsed (default_gen_args\<lparr> ga_prompt := ''hi'' \<rparr>)"
  by (simp add: starts_with_def)

lemma reads_next:
  "ct_due s = None \<Longrightarrow> ct_feed s = In_Event ev # fs \<Longrightarrow> ctl_read_event s = (Inr (Some ev), s\<lparr> ct_feed := fs \<rparr>)"
  by (simp add: ctl_read_event_def ctl_frame_def wake_def)

lemma call_run: "\<exists>t. ctl_generate plain_ctl [''hi''] (ctl_fresh call_feed) = (Inr 0, t) \<and> ct_feed t = []"
  unfolding ctl_generate_def call_args
  by (simp add: gen_prompt_def open_session_by_def plain_ctl_def default_gen_args_def ctl_call_def ok_or_def
      dup_def ctl_ended_def ctl_turn_def ctl_send_def ctl_do_def call_feed_def reads_next ctl_greet_def attach_image_def attach_raw_def gen_tools_def
      start_cancel_def ctl_loop.simps on_generate_def println_def ctl_close_def)

theorem generate_is_one_turn_witness:
  "\<exists>t path ws. ctl_generate plain_ctl [''hi''] (ctl_fresh call_feed) = (Inr 0, t) \<and> closed_paths t = [path]
     \<and> ctl_said t = W_Req (Hello DATA_PROTO) # ws \<and> cancels t = 0"
proof -
  obtain t where t: "ctl_generate plain_ctl [''hi''] (ctl_fresh call_feed) = (Inr 0, t)"
    using call_run by blast
  obtain path ws where "closed_paths t = [path]" "ctl_said t = W_Req (Hello DATA_PROTO) # ws" "cancels t = 0"
    using generate_is_one_turn [OF t call_args] by (elim exE conjE) (auto simp: turn_said_def default_gen_args_def)
  with t show ?thesis
    by blast
qed

text \<open>
  An error in answer to the greeting is read and dropped: when the session ends after it, as it does for a protocol
  it does not speak, the tool has printed nothing and ends with status 0.
\<close>

lemma refused_greeting_is_silent:
  assumes "ga_image a = None" "ga_raw a = None" "ga_tool a = None" "ga_cancel a = None"
  shows "\<exists>acts. ctl_turn e a prompt (ctl_fresh [In_Event (Ev_Error body)])
      = (Inr 0, \<lparr> ct_acts = acts, ct_room = None, ct_feed = [], ct_due = None \<rparr>) \<and> (\<forall>l. Warn l \<notin> set acts \<and> Out l \<notin> set acts)"
  using assms
  by (simp add: ctl_turn_def ctl_send_def ctl_do_def reads_next ctl_greet_def attach_image_def attach_raw_def gen_tools_def
      start_cancel_def ctl_loop.simps) (simp add: ctl_read_event_def ctl_frame_def wake_def)

subsection \<open>The line for a status bar\<close>

text \<open>The body of a JSON string, read back: escapes are resolved, a bare quote or a control character is an error.\<close>

fun json_read :: "string \<Rightarrow> string option" where
  "json_read [] = Some []"
| "json_read (c # cs) =
     (if c = CHR 0x22 \<or> code c < 32 then None
      else if c = CHR 0x5C then
        (case cs of
           [] \<Rightarrow> None
         | d # rest \<Rightarrow>
             if d = CHR 0x22 \<or> d = CHR 0x5C then map_option (Cons d) (json_read rest)
             else if d = CHR ''n'' then map_option (Cons (CHR 0x0A)) (json_read rest)
             else None)
      else map_option (Cons c) (json_read cs))"

definition no_control :: "string \<Rightarrow> bool" where
  "no_control s \<longleftrightarrow> list_all (\<lambda>c. 32 \<le> code c) s"

lemma bar_escape_simps [simp]:
  "bar_escape [] = []"
  "bar_escape (c # s) =
     (if c = CHR 0x5C then [CHR 0x5C, CHR 0x5C] else if c = CHR 0x22 then [CHR 0x5C, CHR 0x22] else [c]) @ bar_escape s"
  by (simp_all add: bar_escape_def)

lemma json_read_escape:
  "no_control s \<Longrightarrow> json_read (bar_escape s @ rest) = map_option (append s) (json_read rest)"
  by (cases "json_read rest"; induction s) (auto simp: no_control_def code_def)

lemma json_read_lines:
  assumes "list_all no_control ls"
  shows "json_read (join BREAK (map bar_escape ls)) = Some (join [CHR 0x0A] ls)"
  using assms
proof (induction ls)
  case (Cons l ls)
  then show ?case
    using json_read_escape [of l "[]"] json_read_escape [of l "BREAK @ join BREAK (map bar_escape ls)"]
    by (cases "ls = []") (simp_all add: join_Cons code_def)
qed simp

lemma no_control_append [simp]: "no_control (s @ t) \<longleftrightarrow> no_control s \<and> no_control t"
  by (simp add: no_control_def)

lemma no_control_simps [simp]: "no_control []" "no_control (c # s) \<longleftrightarrow> 32 \<le> code c \<and> no_control s"
  by (simp_all add: no_control_def)

lemma no_control_show_nat [simp]: "no_control (show_nat n)"
  using show_nat_set by (force simp: no_control_def list_all_iff is_ascii_digit_def code_def)

lemma no_control_subset: "set t \<subseteq> set s \<Longrightarrow> no_control s \<Longrightarrow> no_control t"
  by (auto simp: no_control_def list_all_iff)

lemma split_once_subset: "split_once sep s = Some (a, b) \<Longrightarrow> set a \<subseteq> set s \<and> set b \<subseteq> set s"
  by (auto simp: split_once_def dest: in_set_takeD in_set_dropD split: option.splits)

lemma split_str_subset: "l \<in> set (split_str sep s) \<Longrightarrow> set l \<subseteq> set s"
proof (induction sep s rule: split_str.induct)
  case (1 sep s)
  then show ?case
    using split_once_subset [of sep s] by (subst (asm) (2) split_str.simps) (fastforce split: option.splits prod.splits if_splits)
qed

lemma amounts_plain [simp]: "no_control (amounts toks spent)"
  by (simp add: amounts_def render_tokens_def one_decimal_def render_micros_def Let_def code_def split: f64.split)

lemma tooltip_plain:
  assumes "list_all (\<lambda>r. no_control (fst r)) rows"
  shows "no_control (bar_tooltip rows)"
proof -
  have joined: "list_all no_control ls \<Longrightarrow> no_control (join BREAK ls)" for ls
  proof (induction ls)
    case (Cons l ls)
    then show ?case
      by (cases "ls = []") (simp_all add: join_Cons code_def)
  qed simp
  show ?thesis
    using assms unfolding bar_tooltip_def
    by (force simp: code_def list_all_iff dest!: in_set_takeD intro!: joined)
qed

text \<open>
  The line for a status bar is JSON whatever the identities are. For any usage report whose identities have no control
  characters, quotes and backslashes included, the two strings of the line read back as JSON strings: the first as the
  totals, the second as the rows, one line each for the first eight, with the breaks an identity itself spells.
\<close>

theorem bar_line_reads_back:
  assumes "list_all (\<lambda>r. no_control (fst r)) rows"
  shows "\<exists>t u. bar_line rows
      = ''{'' @ in_quotes ''text'' @ '': '' @ in_quotes t @ '', '' @ in_quotes ''tooltip'' @ '': '' @ in_quotes u @ '', ''
        @ in_quotes ''class'' @ '': '' @ in_quotes ''ai-daemon'' @ ''}''
    \<and> json_read t = Some (amounts (sum64 (map (\<lambda>(_, t, _, _). t) rows)) (sum64 (map (\<lambda>(_, _, m, _). m) rows)))
    \<and> json_read u = Some (join [CHR 0x0A] (split_str BREAK (bar_tooltip rows)))"
proof -
  have "list_all no_control (split_str BREAK (bar_tooltip rows))"
    using tooltip_plain [OF assms] split_str_subset no_control_subset by (fastforce simp: list_all_iff)
  from json_read_lines [OF this] show ?thesis
    using json_read_escape [of "amounts (sum64 (map (\<lambda>(_, t, _, _). t) rows)) (sum64 (map (\<lambda>(_, _, m, _). m) rows))" "[]"]
    unfolding bar_line_def Let_def by (intro exI conjI) (rule refl, simp_all)
qed

theorem bar_line_reads_back_witness:
  "\<exists>t u. bar_line [(CHR 0x22 # ''a'', 7, 0, 0)]
      = ''{'' @ in_quotes ''text'' @ '': '' @ in_quotes t @ '', '' @ in_quotes ''tooltip'' @ '': '' @ in_quotes u @ '', ''
        @ in_quotes ''class'' @ '': '' @ in_quotes ''ai-daemon'' @ ''}''
    \<and> json_read t = Some (show_nat 7)"
proof -
  have "list_all (\<lambda>r. no_control (fst r)) [(CHR 0x22 # ''a'', 7 :: nat, 0 :: nat, 0 :: nat)]"
    by (simp add: code_def)
  from bar_line_reads_back [OF this] show ?thesis
    by (elim exE conjE) (intro exI conjI, assumption, simp add: sum64_def u64_add_def amounts_def render_tokens_def del: show_nat.simps)
qed

subsection \<open>Looking changes nothing\<close>



text \<open>A run that calls at most \<open>m\<close>, if the bus is there, and then only prints; nothing after an error.\<close>

definition looks_once :: "ctl_env \<Rightarrow> bus_method option \<Rightarrow> ctl \<Rightarrow> (string + nat) \<times> ctl \<Rightarrow> bool" where
  "looks_once e m s rt \<longleftrightarrow>
     (\<exists>printed. snd rt = s\<lparr> ct_acts := ct_acts s
          @ (case m of Some q \<Rightarrow> (if ce_bus e = None then [Called q] else []) | None \<Rightarrow> []) @ map Out printed \<rparr>
        \<and> (\<not> is_ok (fst rt) \<longrightarrow> printed = []))"



lemma looks_once_error [simp]: "looks_once e None s (Inl err, s)" "looks_once e None s (Inr n, s)"
  by (auto simp: looks_once_def intro: exI [of _ "[]"])





end
