(* ===== verification/Spec2Isabelle.thy ===== *)
theory Spec2Isabelle
  imports Frame Sched Dbus Grammar Audit_Log Decode_Proc Session_Safety Fetch_Helper Unblock Manager Mock Remote Shim Llama Launch Portal_App Ctl
begin

text \<open>
  \<^bold>\<open>ai-daemon: a verification development\<close>

  The program is a broker for language models on one machine. Applications ask a daemon over the
  system bus for a session and get a socket; on the socket they send prompts, tool results and
  attachments as length-prefixed frames, and the daemon runs them on backend processes that hold
  the models. In between it decides who is asking (\<open>identity.rs\<close>), whether they may
  (\<open>policy.rs\<close>, \<open>polkit.rs\<close>, \<open>config.rs\<close>), which model is meant (\<open>registry.rs\<close>), when it may run and
  how much cache it may hold (\<open>sched.rs\<close>), and writes a tamper-evident log (\<open>audit.rs\<close>). Encoded
  attachments are decoded by a confined child process (\<open>ai-daemon-decode\<close>).

  \<^bold>\<open>Theories and sources\<close> (all paths under \<open>src/crates/\<close>)

  \<^item> \<open>Prelude\<close>, \<open>Rust_Text\<close>, \<open>F64\<close>: results and panics as values, wrapping and saturating
    arithmetic, the string routines of the standard library on bytes, and IEEE doubles as
    rationals with round-half-even.
  \<^item> \<open>Frame\<close>: \<open>ai-daemon-proto/src/frame.rs\<close>, reading and writing frames over a reader that may
    return short reads, interrupts and errors. \<open>Messages\<close>: the messages of both protocols.
  \<^item> \<open>Sched\<close>: \<open>ai-daemon/src/sched.rs\<close>, every critical section as a function on the state behind the
    lock, and their interleaving with the pause messages sent after unlocking as a step relation.
  \<^item> \<open>Identity\<close>, \<open>Config\<close>, \<open>Polkit\<close>, \<open>Policy\<close>, \<open>Registry\<close>, \<open>Audit_Log\<close>, \<open>Grammar\<close>: the files of
    the same names (\<open>audit.rs\<close> is \<open>Audit_Log\<close>).
  \<^item> \<open>Backend\<close>, \<open>State\<close>, \<open>Dbus\<close>: \<open>backend.rs\<close>, \<open>state.rs\<close>, \<open>dbusapi.rs\<close>: the client side of a
    backend, the daemon's shared state, and opening and closing sessions.
  \<^item> \<open>Provenance\<close>, \<open>Session\<close>, \<open>Session_Safety\<close>: \<open>session.rs\<close>, the worker of one session: framing of
    prompts, the reader, every request, the wait on a backend, and what they guarantee.
  \<^item> \<open>Inflate\<close>, \<open>Media\<close>, \<open>Decode_Proc\<close>: \<open>ai-daemon-decode/src/main.rs\<close> and \<open>decode.rs\<close>: DEFLATE, PNG
    and WAVE, the seccomp filter, and the exchange between daemon and decoder.
  \<^item> \<open>Manager\<close>: the rest of \<open>dbusapi.rs\<close>: listing, reporting, the methods that change models, session objects.
  \<^item> \<open>Install\<close>: \<open>install.rs\<close>, fetching, checking and installing a model through the confined helper;
    \<open>Fetch_Helper\<close>: \<open>ai-daemon-fetch/src/main.rs\<close>, that helper; \<open>Unblock\<close>: \<open>unblock.rs\<close>, blocking work
    awaited by a bus method.
  \<^item> \<open>Shim_Http\<close>, \<open>Shim_Api\<close>, \<open>Shim_Relay\<close>, \<open>Shim\<close>: \<open>ai-daemon-shim/src/main.rs\<close>, the HTTP bridge: reading
    requests and base64, the three dialects, the six relays, and the routes with their sessions.
  \<^item> \<open>Remote\<close>: \<open>ai-daemon-backend-remote/src/main.rs\<close>, the backend that forwards to an HTTP endpoint.
  \<^item> \<open>Mock\<close>, \<open>Llama\<close>: \<open>ai-daemon-backend-mock/src/main.rs\<close> and \<open>ai-daemon-backend-llamacpp/src/main.rs\<close>, the conformance backend and
    the one that drives \<open>llama-server\<close>, with their threads cut at every read of a shared flag.
  \<^item> \<open>Launch\<close>: \<open>ai-run/src/main.rs\<close>, the launcher, and the start of the daemon in \<open>ai-daemon/src/main.rs\<close>;
    \<open>Portal_App\<close>: \<open>ai-daemon-portal/src/main.rs\<close>, which names sandboxed applications to the daemon.
  \<^item> \<open>Ctl\<close>: \<open>aidctl/src/main.rs\<close>, the command line tool, over the methods of \<open>Manager\<close>.

  \<^bold>\<open>How the code is modelled\<close>

  State behind a lock is a record and every critical section a function on it; threads are the
  order in which those functions run, left open as step relations (\<open>Sched\<close>, \<open>Audit_Log\<close>) or as
  ticks in which other threads may change the daemon (\<open>Session\<close>). Errors are \<open>Inl\<close>, panics are
  values, so that \<open>never panics\<close> is a theorem. Counters wrap or saturate where the source does.
  What is not in the repository is an argument: CBOR, JSON, TOML and SHA-256, process files, the
  bus, the replies of backends, the outcome of system calls. Loops are recursive functions with
  termination proofs; the only loops that may wait for ever (a decode slot, a backend) take what
  arrives as a list and say when it ran out. No definition uses fuel.

  \<^bold>\<open>Interfaces\<close>

  \<^item> \<open>invariant_system\<close> (\<open>Prelude\<close>): start, step, invariant; interpreted by the scheduler
    (\<open>scheduling\<close>) and the audit log (\<open>logging\<close>).
  \<^item> \<open>stream_codec\<close> (\<open>Frame\<close>): a writer and a reader of one item give a codec of streams; interpreted
    by the frames (\<open>wire\<close>).
  \<^item> \<open>request_loop\<close> (\<open>Session_Safety\<close>): what the handlers of a request keep, its loop keeps;
    interpreted by the turn (\<open>turning\<close>).
  \<^item> \<open>invariant_system\<close> again: blocking work (\<open>unblocking\<close>), the remote provider (\<open>remoting\<close>), the mock
    backend (\<open>mocking\<close>), and the llama.cpp backend twice, for its answers (\<open>llama_serving\<close>) and its
    servers (\<open>llama_servers\<close>).

  \<^bold>\<open>What is proved\<close>

  Round trips: frames and blobs over any delivery, PNG images. Refinements: reading frames is a
  function of the bytes, the spend window is the sum of the charges inside it, last-wins merging
  of configuration, the decoder pipeline, the silence net of a wait. Invariants over
  all interleavings: slots, pauses and the KV account of the scheduler, the chain of the audit
  log; a turn whose request was started leaves nothing running
  when it ends, and the next slot goes to the waiter that goes before all others. Safety: consent has a basis, keys separate
  callers, attenuation only takes away, a turn runs only within every limit, tool calls shown are
  ones offered, provenance markers cannot be forged from inside, events reach only their request,
  removing a model keeps shared blobs, the verifier sees edits before a record that stays, DEFLATE never panics and is
  bounded, the seccomp program allows exactly its list, which but for three calls
  stays inside the process. Each theory opens with what it holds; the
  properties are the theorems whose text block carries a claim number.
  An install succeeds only with verified weights; the fetch helper changes nothing but its output, and daemon and
  helper, in the sandbox of its unit, together install an existing file that the unit can see. The HTTP bridge: requests and base64 round trips,
  streams that keep the protocol of their dialect and show exactly the words and calls of the
  session, one cancel for a client that hangs up, and every caller at the lowest trust. Blocking
  work is always answered. The remote provider answers each request once and reads back the words,
  counts and finish reason the bridge streams for a session without calls. Models, pins and decisions change only for administrators.
  The mock backend answers completely and honours a pause; the llama.cpp backend answers once, with the words it read from its
  server, and leaves no server behind. The launcher runs what its arguments spell and confines before it runs anything; a named launch
  is known by its name; the portal vouches for what the confinement says.
  The daemon's side of the decoder ends the child at its deadline and bounds what it accepts. The command line tool: a
  generation is one well-formed turn that answers every call, its verifier agrees with the daemon's, an inspecting
  command makes its one call and prints, and the status bar line reads back as JSON.

  \<^bold>\<open>What is not modelled\<close>

  Every program of the workspace is modelled. Left out are the connections to the buses, spawning and reaping processes
  (how these calls end is an argument), signals, the accept loops, which start a thread per connection, logging, help
  texts and, where a theory says so, the wording of errors.

\<close>

end
